(* ===== verification/JsPrelude.thy ===== *)
theory JsPrelude
  imports Complex_Main "HOL-Library.AList" "HOL-Library.Multiset"
begin

text \<open>
  Vocabulary shared by every component: JavaScript strings and the coercion helpers of
  \<open>src/shared/string-coerce.ts\<close> and \<open>src/shared/string-normalization.ts\<close>,
  insertion-ordered \<open>Map\<close>s, and the contract of an event-driven state machine.

  A string is a list of characters whose codes are the UTF-16 code units 0 to 255 (Latin-1).
  On these \<open>trim\<close> and \<open>toLowerCase\<close> are modelled exactly; code units above 255
  are outside the model.
\<close>

named_theorems js_defs "definitions that component proofs unfold together"

section \<open>Strings\<close>

definition js_ws :: "char \<Rightarrow> bool" where
  "js_ws c \<longleftrightarrow> (let n = (of_char c :: nat) in (9 \<le> n \<and> n \<le> 13) \<or> n = 32 \<or> n = 160)"

definition js_trim :: "string \<Rightarrow> string" where
  "js_trim s = rev (dropWhile js_ws (rev (dropWhile js_ws s)))"

definition js_lower_char :: "char \<Rightarrow> char" where
  "js_lower_char c = (let n = (of_char c :: nat) in
     if (65 \<le> n \<and> n \<le> 90) \<or> (192 \<le> n \<and> n \<le> 222 \<and> n \<noteq> 215) then char_of (n + 32) else c)"

definition js_lower :: "string \<Rightarrow> string" where
  "js_lower s = map js_lower_char s"

definition js_starts_with :: "string \<Rightarrow> string \<Rightarrow> bool" where
  "js_starts_with s p \<longleftrightarrow> take (length p) s = p"

text \<open>\<open>x || fallback\<close> on strings: the empty string is falsy.\<close>

definition js_or :: "string \<Rightarrow> string \<Rightarrow> string" where
  "js_or s d = (if s = [] then d else s)"

text \<open>\<open>x ?? fallback\<close>, \<open>undefined\<close> and \<open>null\<close> both being \<open>None\<close>.\<close>

definition js_nullish :: "'a option \<Rightarrow> 'a \<Rightarrow> 'a" where
  "js_nullish x d = (case x of None \<Rightarrow> d | Some v \<Rightarrow> v)"

lemma js_nullish_simps [simp]: "js_nullish None d = d" "js_nullish (Some v) d = v"
  by (simp_all add: js_nullish_def)

text \<open>\<open>xs.join(sep)\<close>.\<close>

fun join_with :: "string \<Rightarrow> string list \<Rightarrow> string" where
  "join_with sep [] = []"
| "join_with sep [x] = x"
| "join_with sep (x # y # ys) = x @ sep @ join_with sep (y # ys)"

text \<open>\<open>a ?? b\<close> where \<open>b\<close> may be missing too.\<close>

definition or_else :: "'a option \<Rightarrow> 'a option \<Rightarrow> 'a option" where
  "or_else a b = (case a of None \<Rightarrow> b | Some _ \<Rightarrow> a)"

lemma or_else_simps [simp]: "or_else None b = b" "or_else (Some x) b = Some x"
  by (simp_all add: or_else_def)

lemma dropWhile_eq_self: "xs = [] \<or> \<not> P (hd xs) \<Longrightarrow> dropWhile P xs = xs"
  by (cases xs) auto

lemma js_trim_hd: "js_trim s \<noteq> [] \<Longrightarrow> \<not> js_ws (hd (js_trim s))"
proof -
  assume ne: "js_trim s \<noteq> []"
  let ?t = "dropWhile js_ws s"
  from ne have t_ne: "?t \<noteq> []"
    by (metis dropWhile.simps(1) js_trim_def rev.simps(1))
  have "\<exists>us. ?t = js_trim s @ us"
    by (metis js_trim_def rev_append rev_rev_ident takeWhile_dropWhile_id)
  then have "hd ?t = hd (js_trim s)"
    using ne by (metis hd_append2)
  then show ?thesis
    using hd_dropWhile [OF t_ne] by simp
qed

lemma js_trim_last: "js_trim s \<noteq> [] \<Longrightarrow> \<not> js_ws (last (js_trim s))"
proof -
  assume "js_trim s \<noteq> []"
  then have "dropWhile js_ws (rev (dropWhile js_ws s)) \<noteq> []"
    by (metis js_trim_def rev_is_Nil_conv)
  from hd_dropWhile [OF this] show ?thesis
    unfolding js_trim_def last_rev .
qed

lemma js_trim_idem [simp]: "js_trim (js_trim s) = js_trim s"
proof (cases "js_trim s = []")
  case True
  then show ?thesis by (simp only: True) (simp add: js_trim_def)
next
  case False
  have "dropWhile js_ws (js_trim s) = js_trim s"
    using js_trim_hd [OF False] by (intro dropWhile_eq_self) simp
  moreover have "dropWhile js_ws (rev (js_trim s)) = rev (js_trim s)"
    using js_trim_last [OF False] False by (intro dropWhile_eq_self) (simp add: hd_rev)
  ultimately show ?thesis
    by (metis js_trim_def rev_rev_ident)
qed

lemma js_trim_Nil [simp]: "js_trim [] = []"
  by (simp add: js_trim_def)

lemma js_lower_Nil_iff [simp]: "js_lower s = [] \<longleftrightarrow> s = []" "js_lower [] = []"
  by (simp_all add: js_lower_def)

lemma js_lower_append [simp]: "js_lower (s @ t) = js_lower s @ js_lower t"
  by (simp add: js_lower_def)

lemma length_js_lower [simp]: "length (js_lower s) = length s"
  by (simp add: js_lower_def)

lemma js_lower_char_idem [simp]: "js_lower_char (js_lower_char c) = js_lower_char c"
  by (auto simp: js_lower_char_def Let_def)

lemma js_lower_idem [simp]: "js_lower (js_lower s) = js_lower s"
  by (simp add: js_lower_def)

lemma js_ws_lower [simp]: "js_ws (js_lower_char c) = js_ws c"
  by (auto simp: js_ws_def js_lower_char_def Let_def)

lemma js_trim_lower: "js_trim (js_lower s) = js_lower (js_trim s)"
proof -
  have dw: "dropWhile js_ws (map js_lower_char xs) = map js_lower_char (dropWhile js_ws xs)" for xs
    by (simp add: dropWhile_map comp_def)
  show ?thesis
    by (simp add: js_trim_def js_lower_def dw rev_map)
qed

subsection \<open>The string helpers of \<open>src/shared\<close>\<close>

text \<open>
  \<open>normalizeNullableString\<close>, \<open>normalizeOptionalString\<close> and their lower-casing
  variants, at the type \<open>string | undefined | null\<close> at which the modelled callers use them.
\<close>

definition normalizeNullableString :: "string option \<Rightarrow> string option" where
  "normalizeNullableString v = (case v of None \<Rightarrow> None
     | Some s \<Rightarrow> (let trimmed = js_trim s in if trimmed = [] then None else Some trimmed))"

definition normalizeOptionalString :: "string option \<Rightarrow> string option" where
  "normalizeOptionalString v = normalizeNullableString v"

definition normalizeOptionalLowercaseString :: "string option \<Rightarrow> string option" where
  "normalizeOptionalLowercaseString v = map_option js_lower (normalizeOptionalString v)"

definition normalizeLowercaseStringOrEmpty :: "string option \<Rightarrow> string" where
  "normalizeLowercaseStringOrEmpty v = js_nullish (normalizeOptionalLowercaseString v) []"

definition normalizeStringEntries :: "string list \<Rightarrow> string list" where
  "normalizeStringEntries xs =
     filter (\<lambda>s. s \<noteq> []) (map (\<lambda>e. js_nullish (normalizeOptionalString (Some e)) []) xs)"

lemma normalizeOptionalString_simps [simp]:
  "normalizeOptionalString None = None"
  "normalizeOptionalString (Some s) = (if js_trim s = [] then None else Some (js_trim s))"
  by (simp_all add: normalizeOptionalString_def normalizeNullableString_def Let_def)

lemma normalizeLowercaseStringOrEmpty_simps [simp]:
  "normalizeLowercaseStringOrEmpty None = []"
  "normalizeLowercaseStringOrEmpty (Some s) = js_lower (js_trim s)"
  by (simp_all add: normalizeLowercaseStringOrEmpty_def normalizeOptionalLowercaseString_def)

lemma normalizeStringEntries_eq:
  "normalizeStringEntries xs = filter (\<lambda>s. s \<noteq> []) (map js_trim xs)"
  by (simp add: normalizeStringEntries_def cong: map_cong) (rule arg_cong, auto)

lemma normalizeStringEntries_append [simp]:
  "normalizeStringEntries (xs @ ys) = normalizeStringEntries xs @ normalizeStringEntries ys"
  by (simp add: normalizeStringEntries_eq)

lemma normalizeStringEntries_Nil [simp]: "normalizeStringEntries [] = []"
  by (simp add: normalizeStringEntries_eq)

lemma normalizeStringEntries_idem [simp]:
  "normalizeStringEntries (normalizeStringEntries xs) = normalizeStringEntries xs"
  by (induction xs) (auto simp: normalizeStringEntries_eq)

section \<open>Insertion-ordered maps\<close>

text \<open>
  A JavaScript \<open>Map\<close> is an association list in insertion order: \<open>set\<close> overwrites an
  existing key in place and appends a new one (\<open>AList.update\<close>), \<open>delete\<close> removes the
  key (\<open>AList.delete\<close>), iteration follows the list.
\<close>

type_synonym ('k, 'v) jsmap = "('k \<times> 'v) list"

abbreviation jm_get :: "('k, 'v) jsmap \<Rightarrow> 'k \<Rightarrow> 'v option" where
  "jm_get \<equiv> map_of"

abbreviation jm_set :: "'k \<Rightarrow> 'v \<Rightarrow> ('k, 'v) jsmap \<Rightarrow> ('k, 'v) jsmap" where
  "jm_set \<equiv> AList.update"

abbreviation jm_delete :: "'k \<Rightarrow> ('k, 'v) jsmap \<Rightarrow> ('k, 'v) jsmap" where
  "jm_delete \<equiv> AList.delete"

abbreviation jm_ok :: "('k, 'v) jsmap \<Rightarrow> bool" where
  "jm_ok m \<equiv> distinct (map fst m)"

lemma jm_get_set [simp]: "jm_get (jm_set k v m) k' = (if k' = k then Some v else jm_get m k')"
  by (simp add: update_conv')

lemma jm_get_delete [simp]: "jm_get (jm_delete k m) k' = (if k' = k then None else jm_get m k')"
  by (simp add: delete_conv')

lemma jm_ok_set [simp]: "jm_ok m \<Longrightarrow> jm_ok (jm_set k v m)"
  by (rule distinct_update)

lemma jm_ok_delete [simp]: "jm_ok m \<Longrightarrow> jm_ok (jm_delete k m)"
  by (simp add: distinct_delete)

lemma jm_get_iff: "jm_ok m \<Longrightarrow> (k, v) \<in> set m \<longleftrightarrow> jm_get m k = Some v"
  by (simp add: map_of_eq_Some_iff)

lemma jm_get_map: "jm_get (map (\<lambda>(k, v). (k, f k v)) m) k = map_option (f k) (jm_get m k)"
  by (induction m) auto

lemma jm_get_filter: "jm_ok m \<Longrightarrow> jm_get (filter (\<lambda>(k, v). P k v) m) k =
    (case jm_get m k of None \<Rightarrow> None | Some v \<Rightarrow> if P k v then Some v else None)"
proof (induction m)
  case (Cons kv m)
  then show ?case
    by (cases kv) (auto split: option.splits dest: map_of_SomeD simp: image_iff)
qed simp

lemma jm_ok_filter [simp]: "jm_ok m \<Longrightarrow> jm_ok (filter P m)"
  by (simp add: distinct_map_filter)

lemma jm_ok_map [simp]: "map fst (map (\<lambda>(k, v). (k, f k v)) m) = map fst m"
  by auto

lemma jm_set_new: "jm_get m k = None \<Longrightarrow> jm_set k v m = m @ [(k, v)]"
  by (induction m) (auto split: if_splits)

lemma jm_set_same: "jm_get m k = Some v \<Longrightarrow> jm_set k v m = m"
  by (induction m) (auto split: if_splits)

declare map_of_eq_Some_iff [simp del] Some_eq_map_of_iff [simp del]

section \<open>Sorting with a comparator\<close>

text \<open>\<open>toSorted\<close> and \<open>sort\<close> are stable; the comparator is given as the relation \<open>compare a b <= 0\<close>.\<close>

fun insert_by :: "('a \<Rightarrow> 'a \<Rightarrow> bool) \<Rightarrow> 'a \<Rightarrow> 'a list \<Rightarrow> 'a list" where
  "insert_by le x [] = [x]"
| "insert_by le x (y # ys) = (if le x y then x # y # ys else y # insert_by le x ys)"

definition to_sorted :: "('a \<Rightarrow> 'a \<Rightarrow> bool) \<Rightarrow> 'a list \<Rightarrow> 'a list" where
  "to_sorted le xs = foldr (insert_by le) xs []"

lemma insert_by_mset [simp]: "mset (insert_by le x ys) = add_mset x (mset ys)"
  by (induction ys) auto

lemma insert_by_set [simp]: "set (insert_by le x ys) = insert x (set ys)"
  by (induction ys) auto

lemma insert_by_sorted:
  assumes total: "\<And>a b. le a b \<or> le b a" and trans: "\<And>a b c. le a b \<Longrightarrow> le b c \<Longrightarrow> le a c"
  shows "sorted_wrt le ys \<Longrightarrow> sorted_wrt le (insert_by le x ys)"
proof (induction ys)
  case (Cons y ys)
  show ?case
  proof (cases "le x y")
    case True
    with Cons.prems trans show ?thesis by auto
  next
    case False
    with total have "le y x" by blast
    with Cons False show ?thesis by simp
  qed
qed simp

lemma to_sorted_Nil [simp]: "to_sorted le [] = []"
  by (simp add: to_sorted_def)

lemma to_sorted_mset [simp]: "mset (to_sorted le xs) = mset xs"
  by (induction xs) (simp_all add: to_sorted_def)

lemma to_sorted_sorted:
  assumes "\<And>a b. le a b \<or> le b a" "\<And>a b c. le a b \<Longrightarrow> le b c \<Longrightarrow> le a c"
  shows "sorted_wrt le (to_sorted le xs)"
proof (induction xs)
  case (Cons x xs)
  then show ?case
    using insert_by_sorted [of le "to_sorted le xs" x] assms by (simp add: to_sorted_def)
qed (simp add: to_sorted_def)

section \<open>Memoisation\<close>

text \<open>A sequence of calls that thread the cache.\<close>

fun memo_calls :: "('c \<Rightarrow> 'a \<Rightarrow> 'b \<times> 'c) \<Rightarrow> 'c \<Rightarrow> 'a list \<Rightarrow> 'b list \<times> 'c" where
  "memo_calls f c [] = ([], c)"
| "memo_calls f c (a # xs) = (let (b, c1) = f c a; (bs, c2) = memo_calls f c1 xs in (b # bs, c2))"

text \<open>
  The laws of a memoising wrapper: on valid arguments it returns what the pure function returns, and it
  keeps the cache sound.
\<close>

locale memoised =
  fixes valid_arg :: "'a \<Rightarrow> bool"
    and pure_fun :: "'a \<Rightarrow> 'b"
    and cached_fun :: "'c \<Rightarrow> 'a \<Rightarrow> 'b \<times> 'c"
    and empty_cache :: "'c"
    and cache_ok :: "'c \<Rightarrow> bool"
  assumes empty_ok: "cache_ok empty_cache"
    and cached_result: "cache_ok c \<Longrightarrow> valid_arg a \<Longrightarrow> fst (cached_fun c a) = pure_fun a"
    and cached_keeps: "cache_ok c \<Longrightarrow> valid_arg a \<Longrightarrow> cache_ok (snd (cached_fun c a))"
begin

lemma calls_pure: "cache_ok c \<Longrightarrow> list_all valid_arg xs \<Longrightarrow>
  fst (memo_calls cached_fun c xs) = map pure_fun xs \<and> cache_ok (snd (memo_calls cached_fun c xs))"
proof (induction xs arbitrary: c)
  case (Cons a xs)
  obtain b c1 where c1: "cached_fun c a = (b, c1)" by (cases "cached_fun c a")
  obtain bs c2 where c2: "memo_calls cached_fun c1 xs = (bs, c2)" by (cases "memo_calls cached_fun c1 xs")
  have "b = pure_fun a" "cache_ok c1"
    using cached_result [OF Cons.prems(1), of a] cached_keeps [OF Cons.prems(1), of a] Cons.prems(2) c1
    by simp_all
  with Cons.IH [of c1] Cons.prems(2) c1 c2 show ?case by simp
qed simp

lemmas calls_from_empty = calls_pure [OF empty_ok]

end

section \<open>Event-driven state machines\<close>

text \<open>
  A component with module-level state is driven by events (calls, timer callbacks, promise
  continuations), each of which runs to completion before the next. \<open>en\<close> says which events
  can occur in a state.
\<close>

inductive reach :: "'s \<Rightarrow> ('s \<Rightarrow> 'e \<Rightarrow> bool) \<Rightarrow> ('s \<Rightarrow> 'e \<Rightarrow> 's) \<Rightarrow> 's \<Rightarrow> bool"
  for init :: 's and en :: "'s \<Rightarrow> 'e \<Rightarrow> bool" and step :: "'s \<Rightarrow> 'e \<Rightarrow> 's" where
  reach_init: "reach init en step init"
| reach_step: "reach init en step s \<Longrightarrow> en s e \<Longrightarrow> reach init en step (step s e)"

text \<open>A run: events taken one after the other, each enabled where it is taken.\<close>

fun run_ok :: "('s \<Rightarrow> 'e \<Rightarrow> bool) \<Rightarrow> ('s \<Rightarrow> 'e \<Rightarrow> 's) \<Rightarrow> 's \<Rightarrow> 'e list \<Rightarrow> bool" where
  "run_ok en step s [] \<longleftrightarrow> True"
| "run_ok en step s (e # es) \<longleftrightarrow> en s e \<and> run_ok en step (step s e) es"

lemma reach_run: "reach init en step s \<Longrightarrow> run_ok en step s es \<Longrightarrow> reach init en step (foldl step s es)"
  by (induction es arbitrary: s) (auto intro: reach_step)

lemmas reach_from_init = reach_run [OF reach_init]

locale event_machine =
  fixes init :: 's
    and en :: "'s \<Rightarrow> 'e \<Rightarrow> bool"
    and step :: "'s \<Rightarrow> 'e \<Rightarrow> 's"
    and inv :: "'s \<Rightarrow> bool"
  assumes inv_init: "inv init"
    and inv_step: "inv s \<Longrightarrow> en s e \<Longrightarrow> inv (step s e)"
begin

lemma inv_reach: "reach init en step s \<Longrightarrow> inv s"
  by (induction rule: reach.induct) (auto intro: inv_init inv_step)

end

end
