(* ===== verification/CommandQueue.thy ===== *)
theory CommandQueue
  imports JsPrelude
begin

text \<open>
  \<open>src/process/command-queue.ts\<close>: the in-process queue that serialises command executions
  in named lanes. State: the record \<open>cq\<close> (the singleton of \<open>getQueueState\<close>: lanes,
  draining flag, waiters, next task id), the in-flight asynchronous closures started by
  \<open>pump\<close> (\<open>cq_runs\<close>; each captures its lane, entry, task id and generation), and the
  chronological list of the calls the queue makes on its clients (\<open>cq_log\<close>: task started,
  promise resolved or rejected, waiter resolved).

  Every public operation and every asynchronous continuation is one function of the state.
  Events run to completion (JavaScript is single threaded); the clock is read once per event
  and passed in. Task bodies and logging are not modelled. Promises and waiters are identified
  by counters of the model. The test-only \<open>resetCommandQueueStateForTest\<close> is left out.
\<close>

section \<open>State\<close>

record entry =
  en_id :: nat
  en_enqueuedAt :: int
  en_warnAfterMs :: int
  en_onWait :: bool

record lane_state =
  ls_lane :: string
  ls_queue :: "entry list"
  ls_active :: "nat list"
  ls_maxConcurrent :: int
  ls_draining :: bool
  ls_generation :: nat

record active_waiter =
  aw_id :: nat
  aw_ids :: "nat list"

record run =
  rn_lane :: string
  rn_entry :: entry
  rn_taskId :: nat
  rn_gen :: nat

datatype effect =
    Accepted nat string
  | DrainingRejected nat
  | OnWaitCalled nat int nat
  | TaskStarted nat nat string
  | EntryResolved nat string
  | EntryRejected nat string
  | LaneCleared nat string
  | WaiterResolved nat bool

record cq =
  cq_gatewayDraining :: bool
  cq_lanes :: "(string, lane_state) jsmap"
  cq_waiters :: "active_waiter list"
  cq_nextTaskId :: nat
  cq_runs :: "run list"
  cq_nextPromise :: nat
  cq_log :: "effect list"

definition cq_init :: cq where
  "cq_init = \<lparr>cq_gatewayDraining = False, cq_lanes = [], cq_waiters = [], cq_nextTaskId = 1,
     cq_runs = [], cq_nextPromise = 0, cq_log = []\<rparr>"

definition lane_main :: string where
  "lane_main = ''main''"

section \<open>Operations\<close>

definition normalizeLane :: "string \<Rightarrow> string" where
  "normalizeLane lane = js_or (js_trim lane) lane_main"

definition getLaneDepth :: "lane_state \<Rightarrow> nat" where
  "getLaneDepth l = length (ls_queue l) + length (ls_active l)"

definition new_lane :: "string \<Rightarrow> lane_state" where
  "new_lane lane = \<lparr>ls_lane = lane, ls_queue = [], ls_active = [], ls_maxConcurrent = 1,
     ls_draining = False, ls_generation = 0\<rparr>"

definition put_lane :: "string \<Rightarrow> lane_state \<Rightarrow> cq \<Rightarrow> cq" where
  "put_lane lane l s = s\<lparr>cq_lanes := jm_set lane l (cq_lanes s)\<rparr>"

definition getLaneState :: "string \<Rightarrow> cq \<Rightarrow> lane_state \<times> cq" where
  "getLaneState lane s = (case jm_get (cq_lanes s) lane of
       Some l \<Rightarrow> (l, s)
     | None \<Rightarrow> (new_lane lane, put_lane lane (new_lane lane) s))"

definition completeTask :: "lane_state \<Rightarrow> nat \<Rightarrow> nat \<Rightarrow> bool \<times> lane_state" where
  "completeTask l taskId taskGeneration =
     (if taskGeneration \<noteq> ls_generation l then (False, l)
      else (True, l\<lparr>ls_active := filter (\<lambda>t. t \<noteq> taskId) (ls_active l)\<rparr>))"

definition hasPendingActiveTasks :: "cq \<Rightarrow> nat list \<Rightarrow> bool" where
  "hasPendingActiveTasks s taskIds \<longleftrightarrow>
     list_ex (\<lambda>(_, l). list_ex (\<lambda>t. t \<in> set taskIds) (ls_active l)) (cq_lanes s)"

definition resolvable :: "cq \<Rightarrow> active_waiter \<Rightarrow> bool" where
  "resolvable s w \<longleftrightarrow> aw_ids w = [] \<or> \<not> hasPendingActiveTasks s (aw_ids w)"

definition notifyActiveTaskWaiters :: "cq \<Rightarrow> cq" where
  "notifyActiveTaskWaiters s =
     s\<lparr>cq_waiters := filter (\<lambda>w. \<not> resolvable s w) (cq_waiters s),
       cq_log := cq_log s @ map (\<lambda>w. WaiterResolved (aw_id w) True)
                              (filter (resolvable s) (cq_waiters s))\<rparr>"

text \<open>The \<open>while\<close> loop of \<open>pump\<close>, on the fields of one lane.\<close>

fun pump_loop :: "int \<Rightarrow> string \<Rightarrow> int \<Rightarrow> nat \<Rightarrow> entry list \<Rightarrow> nat list \<Rightarrow> nat
    \<Rightarrow> entry list \<times> nat list \<times> run list \<times> effect list" where
  "pump_loop now lane mc gen [] act nid = ([], act, [], [])"
| "pump_loop now lane mc gen (e # q) act nid =
     (if int (length act) < mc then
        let waitedMs = now - en_enqueuedAt e;
            wait = (if waitedMs \<ge> en_warnAfterMs e \<and> en_onWait e
                    then [OnWaitCalled (en_id e) waitedMs (length q)] else []);
            (q', act', rs, fx) = pump_loop now lane mc gen q (act @ [nid]) (Suc nid)
        in (q', act',
            \<lparr>rn_lane = lane, rn_entry = e, rn_taskId = nid, rn_gen = gen\<rparr> # rs,
            wait @ TaskStarted (en_id e) nid lane # fx)
      else (e # q, act, [], []))"

definition pump :: "int \<Rightarrow> string \<Rightarrow> lane_state \<Rightarrow> cq \<Rightarrow> cq" where
  "pump now lane l s =
     (case pump_loop now lane (ls_maxConcurrent l) (ls_generation l) (ls_queue l) (ls_active l)
             (cq_nextTaskId s) of
       (q, act, rs, fx) \<Rightarrow>
         put_lane lane (l\<lparr>ls_queue := q, ls_active := act, ls_draining := False\<rparr>)
           (s\<lparr>cq_nextTaskId := cq_nextTaskId s + length rs,
              cq_runs := cq_runs s @ rs,
              cq_log := cq_log s @ fx\<rparr>))"

definition drainLane :: "int \<Rightarrow> string \<Rightarrow> cq \<Rightarrow> cq" where
  "drainLane now lane s0 =
     (let (l, s) = getLaneState lane s0 in
      if ls_draining l then s
      else pump now lane (l\<lparr>ls_draining := True\<rparr>) s)"

definition markGatewayDraining :: "cq \<Rightarrow> cq" where
  "markGatewayDraining s = s\<lparr>cq_gatewayDraining := True\<rparr>"

definition setCommandLaneConcurrency :: "int \<Rightarrow> string \<Rightarrow> rat \<Rightarrow> cq \<Rightarrow> cq" where
  "setCommandLaneConcurrency now lane maxConcurrent s0 =
     (let cleaned = normalizeLane lane;
          (l, s) = getLaneState cleaned s0
      in drainLane now cleaned
           (put_lane cleaned (l\<lparr>ls_maxConcurrent := max 1 \<lfloor>maxConcurrent\<rfloor>\<rparr>) s))"

definition enqueueCommandInLane :: "int \<Rightarrow> string \<Rightarrow> int option \<Rightarrow> bool \<Rightarrow> cq \<Rightarrow> cq" where
  "enqueueCommandInLane now lane warnAfterMs onWait s0 =
     (let p = cq_nextPromise s0; s1 = s0\<lparr>cq_nextPromise := Suc p\<rparr> in
      if cq_gatewayDraining s1 then s1\<lparr>cq_log := cq_log s1 @ [DrainingRejected p]\<rparr>
      else
        let cleaned = normalizeLane lane;
            (l, s) = getLaneState cleaned s1;
            e = \<lparr>en_id = p, en_enqueuedAt = now, en_warnAfterMs = js_nullish warnAfterMs 2000,
                 en_onWait = onWait\<rparr>
        in drainLane now cleaned
             (put_lane cleaned (l\<lparr>ls_queue := ls_queue l @ [e]\<rparr>)
                (s\<lparr>cq_log := cq_log s @ [Accepted p cleaned]\<rparr>)))"

definition enqueueCommand :: "int \<Rightarrow> int option \<Rightarrow> bool \<Rightarrow> cq \<Rightarrow> cq" where
  "enqueueCommand now warnAfterMs onWait s = enqueueCommandInLane now lane_main warnAfterMs onWait s"

definition getQueueSize :: "string \<Rightarrow> cq \<Rightarrow> nat" where
  "getQueueSize lane s = (case jm_get (cq_lanes s) (normalizeLane lane) of
     None \<Rightarrow> 0 | Some l \<Rightarrow> getLaneDepth l)"

definition getTotalQueueSize :: "cq \<Rightarrow> nat" where
  "getTotalQueueSize s = sum_list (map (\<lambda>(_, l). getLaneDepth l) (cq_lanes s))"

definition getActiveTaskCount :: "cq \<Rightarrow> nat" where
  "getActiveTaskCount s = sum_list (map (\<lambda>(_, l). length (ls_active l)) (cq_lanes s))"

definition clearCommandLane :: "string \<Rightarrow> cq \<Rightarrow> nat \<times> cq" where
  "clearCommandLane lane s =
     (let cleaned = normalizeLane lane in
      case jm_get (cq_lanes s) cleaned of
        None \<Rightarrow> (0, s)
      | Some l \<Rightarrow>
          (length (ls_queue l),
           put_lane cleaned (l\<lparr>ls_queue := []\<rparr>)
             (s\<lparr>cq_log := cq_log s @ map (\<lambda>e. LaneCleared (en_id e) cleaned) (ls_queue l)\<rparr>)))"

definition reset_lane :: "lane_state \<Rightarrow> lane_state" where
  "reset_lane l = l\<lparr>ls_generation := Suc (ls_generation l), ls_active := [], ls_draining := False\<rparr>"

definition resetAllLanes :: "int \<Rightarrow> cq \<Rightarrow> cq" where
  "resetAllLanes now s =
     (let s1 = s\<lparr>cq_gatewayDraining := False,
                 cq_lanes := map (\<lambda>(k, l). (k, reset_lane l)) (cq_lanes s)\<rparr>;
          lanesToDrain = map (ls_lane \<circ> snd) (filter (\<lambda>(k, l). ls_queue l \<noteq> []) (cq_lanes s1))
      in notifyActiveTaskWaiters (fold (drainLane now) lanesToDrain s1))"

text \<open>
  \<open>waitForActiveTasks\<close>: the immediate results are logged under the waiter's identity, a
  pending waiter is added and its timeout armed (the event \<open>WaitTimeout\<close> below).
\<close>

definition waitForActiveTasks :: "int \<Rightarrow> cq \<Rightarrow> cq" where
  "waitForActiveTasks timeoutMs s0 =
     (let w = cq_nextPromise s0; s = s0\<lparr>cq_nextPromise := Suc w\<rparr>;
          activeAtStart = concat (map (\<lambda>(_, l). ls_active l) (cq_lanes s))
      in if activeAtStart = [] then s\<lparr>cq_log := cq_log s @ [WaiterResolved w True]\<rparr>
         else if timeoutMs \<le> 0 then s\<lparr>cq_log := cq_log s @ [WaiterResolved w False]\<rparr>
         else notifyActiveTaskWaiters
                (s\<lparr>cq_waiters := cq_waiters s @ [\<lparr>aw_id = w, aw_ids = activeAtStart\<rparr>]\<rparr>))"

definition waiterTimeout :: "nat \<Rightarrow> cq \<Rightarrow> cq" where
  "waiterTimeout w s =
     (if list_ex (\<lambda>x. aw_id x = w) (cq_waiters s)
      then s\<lparr>cq_waiters := filter (\<lambda>x. aw_id x \<noteq> w) (cq_waiters s),
             cq_log := cq_log s @ [WaiterResolved w False]\<rparr>
      else s)"

text \<open>
  The continuation of the closure of \<open>pump\<close> when the task's promise settles (\<open>ok\<close>: the
  \<open>try\<close> branch, otherwise the \<open>catch\<close> branch).
\<close>

definition settleTask :: "int \<Rightarrow> run \<Rightarrow> bool \<Rightarrow> cq \<Rightarrow> cq" where
  "settleTask now r ok s0 =
     (let s = s0\<lparr>cq_runs := remove1 r (cq_runs s0)\<rparr>;
          (l, s1) = getLaneState (rn_lane r) s;
          (completedCurrentGeneration, l') = completeTask l (rn_taskId r) (rn_gen r);
          s2 = (if completedCurrentGeneration
                then (let s' = notifyActiveTaskWaiters (put_lane (rn_lane r) l' s1)
                      in pump now (rn_lane r) l' s')
                else s1)
      in s2\<lparr>cq_log := cq_log s2 @
           [if ok then EntryResolved (en_id (rn_entry r)) (rn_lane r)
            else EntryRejected (en_id (rn_entry r)) (rn_lane r)]\<rparr>)"

datatype cq_event =
    Enqueue int string "int option" bool
  | SetConcurrency int string rat
  | ClearLane string
  | MarkDraining
  | ResetAll int
  | WaitActive int
  | WaitTimeout nat
  | Settle int run bool

fun cq_step :: "cq \<Rightarrow> cq_event \<Rightarrow> cq" where
  "cq_step s (Enqueue now lane warn onWait) = enqueueCommandInLane now lane warn onWait s"
| "cq_step s (SetConcurrency now lane n) = setCommandLaneConcurrency now lane n s"
| "cq_step s (ClearLane lane) = snd (clearCommandLane lane s)"
| "cq_step s MarkDraining = markGatewayDraining s"
| "cq_step s (ResetAll now) = resetAllLanes now s"
| "cq_step s (WaitActive timeoutMs) = waitForActiveTasks timeoutMs s"
| "cq_step s (WaitTimeout w) = waiterTimeout w s"
| "cq_step s (Settle now r ok) = settleTask now r ok s"

text \<open>A task's promise settles once, and only if the task was started.\<close>

fun cq_enabled :: "cq \<Rightarrow> cq_event \<Rightarrow> bool" where
  "cq_enabled s (Settle now r ok) \<longleftrightarrow> r \<in> set (cq_runs s)"
| "cq_enabled s _ \<longleftrightarrow> True"

abbreviation cq_reachable :: "cq \<Rightarrow> bool" where
  "cq_reachable \<equiv> reach cq_init cq_enabled cq_step"

section \<open>The pump\<close>

definition pump_result :: "string \<Rightarrow> int \<Rightarrow> nat \<Rightarrow> entry list \<Rightarrow> nat list \<Rightarrow> nat
    \<Rightarrow> entry list \<Rightarrow> nat list \<Rightarrow> run list \<Rightarrow> bool" where
  "pump_result lane mc gen q act nid q' act' rs \<longleftrightarrow>
     q = map rn_entry rs @ q' \<and>
     act' = act @ [nid..<nid + length rs] \<and>
     map rn_taskId rs = [nid..<nid + length rs] \<and>
     (\<forall>r\<in>set rs. rn_lane r = lane \<and> rn_gen r = gen) \<and>
     (q' \<noteq> [] \<longrightarrow> mc \<le> int (length act')) \<and>
     int (length act') \<le> max (int (length act)) mc"

lemma pump_loop_spec:
  "pump_loop now lane mc gen q act nid = (q', act', rs, fx) \<Longrightarrow>
     pump_result lane mc gen q act nid q' act' rs"
proof (induction q arbitrary: act nid q' act' rs fx)
  case Nil
  then show ?case by (simp add: pump_result_def)
next
  case (Cons e q)
  show ?case
  proof (cases "int (length act) < mc")
    case False
    with Cons.prems show ?thesis by (auto simp: pump_result_def)
  next
    case True
    obtain q1 act1 rs1 fx1
      where rec: "pump_loop now lane mc gen q (act @ [nid]) (Suc nid) = (q1, act1, rs1, fx1)"
      by (metis prod.collapse)
    let ?r = "\<lparr>rn_lane = lane, rn_entry = e, rn_taskId = nid, rn_gen = gen\<rparr>"
    from Cons.prems True rec have eqs: "q' = q1" "act' = act1" "rs = ?r # rs1"
      by (auto simp: Let_def)
    have up: "[nid..<nid + length rs] = nid # [Suc nid..<Suc nid + length rs1]"
      by (simp add: eqs upt_conv_Cons del: upt_Suc)
    from Cons.IH [OF rec] True show ?thesis
      unfolding pump_result_def up by (auto simp: eqs simp del: upt_Suc)
  qed
qed

section \<open>Invariant\<close>

text \<open>
  \<open>lane_ok\<close>: the active ids of a lane are the ids of the in-flight closures of its current
  generation. \<open>lane_saturated\<close>: work only waits while the lane is full.
\<close>

definition lane_runs :: "run list \<Rightarrow> string \<Rightarrow> nat \<Rightarrow> nat set" where
  "lane_runs runs k g = rn_taskId ` {r \<in> set runs. rn_lane r = k \<and> rn_gen r = g}"

definition lane_ok :: "run list \<Rightarrow> string \<Rightarrow> lane_state \<Rightarrow> bool" where
  "lane_ok runs k l \<longleftrightarrow>
     ls_lane l = k \<and> 1 \<le> ls_maxConcurrent l \<and> distinct (ls_active l) \<and>
     set (ls_active l) = lane_runs runs k (ls_generation l) \<and>
     (\<forall>r\<in>set runs. rn_lane r = k \<longrightarrow> rn_gen r \<le> ls_generation l)"

definition lane_saturated :: "lane_state \<Rightarrow> bool" where
  "lane_saturated l \<longleftrightarrow> (ls_queue l \<noteq> [] \<longrightarrow> ls_maxConcurrent l \<le> int (length (ls_active l)))"

definition cq_wf :: "cq \<Rightarrow> bool" where
  "cq_wf s \<longleftrightarrow>
     jm_ok (cq_lanes s) \<and>
     (\<forall>k l. jm_get (cq_lanes s) k = Some l \<longrightarrow> lane_ok (cq_runs s) k l) \<and>
     distinct (map rn_taskId (cq_runs s)) \<and>
     (\<forall>r\<in>set (cq_runs s). rn_taskId r < cq_nextTaskId s \<and> jm_get (cq_lanes s) (rn_lane r) \<noteq> None)"

definition lanes_settled :: "cq \<Rightarrow> bool" where
  "lanes_settled s \<longleftrightarrow>
     (\<forall>k l. jm_get (cq_lanes s) k = Some l \<longrightarrow> \<not> ls_draining l \<and> lane_saturated l)"

definition waiters_wait :: "cq \<Rightarrow> bool" where
  "waiters_wait s \<longleftrightarrow> (\<forall>w\<in>set (cq_waiters s). \<not> resolvable s w)"

lemma hasPendingActiveTasks_iff:
  "jm_ok (cq_lanes s) \<Longrightarrow> hasPendingActiveTasks s ids \<longleftrightarrow>
     (\<exists>k l. jm_get (cq_lanes s) k = Some l \<and> set (ls_active l) \<inter> set ids \<noteq> {})"
  by (fastforce simp: hasPendingActiveTasks_def list_ex_iff jm_get_iff [symmetric])

lemma put_lane_simps [simp]:
  "cq_lanes (put_lane k l s) = jm_set k l (cq_lanes s)"
  "cq_runs (put_lane k l s) = cq_runs s"
  "cq_waiters (put_lane k l s) = cq_waiters s"
  "cq_nextTaskId (put_lane k l s) = cq_nextTaskId s"
  "cq_nextPromise (put_lane k l s) = cq_nextPromise s"
  "cq_log (put_lane k l s) = cq_log s"
  "cq_gatewayDraining (put_lane k l s) = cq_gatewayDraining s"
  by (simp_all add: put_lane_def)

lemma notify_simps [simp]:
  "cq_lanes (notifyActiveTaskWaiters s) = cq_lanes s"
  "cq_runs (notifyActiveTaskWaiters s) = cq_runs s"
  "cq_nextTaskId (notifyActiveTaskWaiters s) = cq_nextTaskId s"
  "cq_nextPromise (notifyActiveTaskWaiters s) = cq_nextPromise s"
  "cq_gatewayDraining (notifyActiveTaskWaiters s) = cq_gatewayDraining s"
  by (simp_all add: notifyActiveTaskWaiters_def)

text \<open>The state after the pump, as equations of its fields.\<close>

lemma pumpE:
  obtains q act rs fx where
    "pump_loop now lane (ls_maxConcurrent l) (ls_generation l) (ls_queue l) (ls_active l)
       (cq_nextTaskId s) = (q, act, rs, fx)"
    "pump_result lane (ls_maxConcurrent l) (ls_generation l) (ls_queue l) (ls_active l)
       (cq_nextTaskId s) q act rs"
    "pump now lane l s = put_lane lane (l\<lparr>ls_queue := q, ls_active := act, ls_draining := False\<rparr>)
       (s\<lparr>cq_nextTaskId := cq_nextTaskId s + length rs, cq_runs := cq_runs s @ rs,
          cq_log := cq_log s @ fx\<rparr>)"
proof -
  obtain q act rs fx where eq: "pump_loop now lane (ls_maxConcurrent l) (ls_generation l)
      (ls_queue l) (ls_active l) (cq_nextTaskId s) = (q, act, rs, fx)"
    by (metis prod.collapse)
  show thesis
    by (rule that [OF eq pump_loop_spec [OF eq]]) (simp add: pump_def eq)
qed

lemma lane_ok_append_other:
  "lane_ok runs k l \<Longrightarrow> \<forall>r\<in>set rs. rn_lane r \<noteq> k \<Longrightarrow> lane_ok (runs @ rs) k l"
proof -
  assume a: "lane_ok runs k l" and b: "\<forall>r\<in>set rs. rn_lane r \<noteq> k"
  from b have "lane_runs (runs @ rs) k g = lane_runs runs k g" for g
    by (auto simp: lane_runs_def)
  with a b show ?thesis by (auto simp: lane_ok_def)
qed

lemma lane_ok_append_started:
  assumes ok: "lane_ok runs k l"
    and res: "pump_result k (ls_maxConcurrent l) (ls_generation l) (ls_queue l) (ls_active l) n q act rs"
    and lt: "\<forall>r\<in>set runs. rn_taskId r < n"
  shows "lane_ok (runs @ rs) k (l\<lparr>ls_queue := q, ls_active := act, ls_draining := False\<rparr>)"
proof -
  from res have act: "act = ls_active l @ [n..<n + length rs]"
    and ids: "map rn_taskId rs = [n..<n + length rs]"
    and rs: "\<forall>r\<in>set rs. rn_lane r = k \<and> rn_gen r = ls_generation l"
    by (simp_all add: pump_result_def)
  have set_ids: "rn_taskId ` set rs = {n..<n + length rs}"
    by (metis ids image_set set_upt)
  have "lane_runs (runs @ rs) k (ls_generation l) = lane_runs runs k (ls_generation l) \<union> rn_taskId ` set rs"
    using rs by (auto simp: lane_runs_def)
  moreover have "\<forall>t\<in>set (ls_active l). t < n"
    using ok lt by (auto simp: lane_ok_def lane_runs_def)
  ultimately show ?thesis
    using ok rs by (auto simp: lane_ok_def act set_ids)
qed

lemma pump_wf:
  assumes wf: "cq_wf s" and ok: "lane_ok (cq_runs s) lane l"
    and ex: "jm_get (cq_lanes s) lane \<noteq> None"
  shows "cq_wf (pump now lane l s)"
proof -
  obtain q act rs fx where
    res: "pump_result lane (ls_maxConcurrent l) (ls_generation l) (ls_queue l) (ls_active l)
       (cq_nextTaskId s) q act rs"
    and eq: "pump now lane l s = put_lane lane (l\<lparr>ls_queue := q, ls_active := act, ls_draining := False\<rparr>)
       (s\<lparr>cq_nextTaskId := cq_nextTaskId s + length rs, cq_runs := cq_runs s @ rs,
          cq_log := cq_log s @ fx\<rparr>)"
    by (rule pumpE)
  from wf have lt: "\<forall>r\<in>set (cq_runs s). rn_taskId r < cq_nextTaskId s"
    by (simp add: cq_wf_def)
  from res have ids: "map rn_taskId rs = [cq_nextTaskId s..<cq_nextTaskId s + length rs]"
    and rs: "\<forall>r\<in>set rs. rn_lane r = lane"
    by (simp_all add: pump_result_def)
  have set_ids: "rn_taskId ` set rs = {cq_nextTaskId s..<cq_nextTaskId s + length rs}"
    by (metis ids image_set set_upt)
  have dist: "distinct (map rn_taskId (cq_runs s @ rs))"
    using wf lt set_ids ids by (fastforce simp: cq_wf_def)
  have bound: "\<forall>r\<in>set (cq_runs s @ rs). rn_taskId r < cq_nextTaskId s + length rs"
    using lt set_ids by (auto simp: trans_less_add1)
  have lanes: "lane_ok (cq_runs s @ rs) k l'"
    if "k \<noteq> lane" "jm_get (cq_lanes s) k = Some l'" for k l'
    using that wf rs by (intro lane_ok_append_other) (auto simp: cq_wf_def)
  show ?thesis
    unfolding cq_wf_def eq
    using wf dist bound rs ex lanes lane_ok_append_started [OF ok res lt]
    by (auto simp: cq_wf_def)
qed

lemma pump_lanes:
  "\<exists>q act. jm_get (cq_lanes (pump now lane l s)) lane =
       Some (l\<lparr>ls_queue := q, ls_active := act, ls_draining := False\<rparr>) \<and>
     set (ls_active l) \<subseteq> set act \<and>
     int (length act) \<le> max (int (length (ls_active l))) (ls_maxConcurrent l) \<and>
     lane_saturated (l\<lparr>ls_queue := q, ls_active := act, ls_draining := False\<rparr>)"
  "k \<noteq> lane \<Longrightarrow> jm_get (cq_lanes (pump now lane l s)) k = jm_get (cq_lanes s) k"
  "cq_waiters (pump now lane l s) = cq_waiters s"
  by (rule pumpE [of now lane l s]; fastforce simp: pump_result_def lane_saturated_def)+

text \<open>Lanes only gain active tasks: waiters keep waiting.\<close>

definition active_mono :: "cq \<Rightarrow> cq \<Rightarrow> bool" where
  "active_mono s t \<longleftrightarrow> cq_waiters t = cq_waiters s \<and>
     (\<forall>k l. jm_get (cq_lanes s) k = Some l \<longrightarrow>
        (\<exists>l'. jm_get (cq_lanes t) k = Some l' \<and> set (ls_active l) \<subseteq> set (ls_active l')))"

lemma active_mono_refl [simp]: "active_mono s s"
  by (auto simp: active_mono_def)

lemma active_mono_trans: "active_mono s t \<Longrightarrow> active_mono t u \<Longrightarrow> active_mono s u"
  unfolding active_mono_def by (fastforce dest: subset_trans)

lemma active_mono_waiters:
  assumes "active_mono s t" "waiters_wait s" "cq_wf s" "cq_wf t"
  shows "waiters_wait t"
proof -
  have "hasPendingActiveTasks t ids" if "hasPendingActiveTasks s ids" for ids
  proof -
    have ok: "jm_ok (cq_lanes s)" "jm_ok (cq_lanes t)"
      using assms(3,4) by (simp_all add: cq_wf_def)
    from that ok(1) obtain k l where "jm_get (cq_lanes s) k = Some l"
        "set (ls_active l) \<inter> set ids \<noteq> {}"
      by (auto simp: hasPendingActiveTasks_iff)
    with assms(1) obtain l' where "jm_get (cq_lanes t) k = Some l'" "set (ls_active l') \<inter> set ids \<noteq> {}"
      unfolding active_mono_def by blast
    with ok(2) show ?thesis by (auto simp: hasPendingActiveTasks_iff)
  qed
  with assms(1,2) show ?thesis
    by (auto simp: waiters_wait_def resolvable_def active_mono_def)
qed

lemma pump_mono:
  assumes "jm_get (cq_lanes s) lane = Some l0" "set (ls_active l0) \<subseteq> set (ls_active l)"
  shows "active_mono s (pump now lane l s)"
  unfolding active_mono_def
proof (intro conjI allI impI)
  fix k l1 assume "jm_get (cq_lanes s) k = Some l1"
  then show "\<exists>l'. jm_get (cq_lanes (pump now lane l s)) k = Some l' \<and> set (ls_active l1) \<subseteq> set (ls_active l')"
    using assms pump_lanes(1) [of now lane l s] pump_lanes(2) [of k lane now l s]
    by (cases "k = lane") fastforce+
qed (rule pump_lanes(3))

lemma new_lane_ok: "cq_wf s \<Longrightarrow> jm_get (cq_lanes s) k = None \<Longrightarrow> lane_ok (cq_runs s) k (new_lane k)"
  by (auto simp: lane_ok_def lane_runs_def new_lane_def cq_wf_def)

lemma put_lane_wf:
  "cq_wf s \<Longrightarrow> lane_ok (cq_runs s) k l \<Longrightarrow> cq_wf (put_lane k l s)"
  by (auto simp: cq_wf_def)

lemma getLaneState_props:
  assumes "getLaneState k s = (l, t)"
  shows "jm_get (cq_lanes t) k = Some l"
    and "cq_wf s \<Longrightarrow> cq_wf t"
    and "lanes_settled s \<Longrightarrow> lanes_settled t"
    and "active_mono s t"
    and "\<And>k'. k' \<noteq> k \<Longrightarrow> jm_get (cq_lanes t) k' = jm_get (cq_lanes s) k'"
    and "cq_runs t = cq_runs s" "cq_log t = cq_log s" "cq_nextPromise t = cq_nextPromise s"
    and "cq_gatewayDraining t = cq_gatewayDraining s" "cq_nextTaskId t = cq_nextTaskId s"
    and "l = js_nullish (jm_get (cq_lanes s) k) (new_lane k)"
    and "cq_waiters t = cq_waiters s"
proof -
  have cases: "(\<exists>l0. jm_get (cq_lanes s) k = Some l0 \<and> l = l0 \<and> t = s) \<or>
      (jm_get (cq_lanes s) k = None \<and> l = new_lane k \<and> t = put_lane k l s)"
    using assms by (auto simp: getLaneState_def split: option.splits)
  then show "jm_get (cq_lanes t) k = Some l"
    and "\<And>k'. k' \<noteq> k \<Longrightarrow> jm_get (cq_lanes t) k' = jm_get (cq_lanes s) k'"
    and "cq_runs t = cq_runs s" "cq_log t = cq_log s" "cq_nextPromise t = cq_nextPromise s"
    and "cq_gatewayDraining t = cq_gatewayDraining s" "cq_nextTaskId t = cq_nextTaskId s"
    and "l = js_nullish (jm_get (cq_lanes s) k) (new_lane k)"
    and "cq_waiters t = cq_waiters s"
    and "active_mono s t"
    by (auto simp: active_mono_def)
  from cases show "cq_wf t" if "cq_wf s"
    using that by (auto intro!: put_lane_wf new_lane_ok)
  from cases show "lanes_settled t" if "lanes_settled s"
    using that by (auto simp: lanes_settled_def new_lane_def lane_saturated_def split: if_splits)
qed

text \<open>
  \<open>drainLane\<close> keeps well-formedness, fills the lane it drains and touches no other lane.
\<close>

lemma drainLane_props:
  assumes wf: "cq_wf s" and idle: "\<And>l. jm_get (cq_lanes s) k = Some l \<Longrightarrow> \<not> ls_draining l"
  shows "cq_wf (drainLane now k s)"
    and "active_mono s (drainLane now k s)"
    and "\<And>k'. k' \<noteq> k \<Longrightarrow> jm_get (cq_lanes (drainLane now k s)) k' = jm_get (cq_lanes s) k'"
    and "\<exists>l. jm_get (cq_lanes (drainLane now k s)) k = Some l \<and> \<not> ls_draining l \<and> lane_saturated l"
proof -
  obtain l t where lt: "getLaneState k s = (l, t)"
    by (cases "getLaneState k s")
  note props = getLaneState_props [OF lt]
  have nd: "\<not> ls_draining l"
    using props(11) idle by (cases "jm_get (cq_lanes s) k") (auto simp: new_lane_def)
  then have eq: "drainLane now k s = pump now k (l\<lparr>ls_draining := True\<rparr>) t"
    by (simp add: drainLane_def lt)
  have wft: "cq_wf t" using props(2) wf .
  then have ok: "lane_ok (cq_runs t) k (l\<lparr>ls_draining := True\<rparr>)"
    using props(1) by (auto simp: cq_wf_def lane_ok_def)
  from pump_wf [OF wft ok] props(1) show "cq_wf (drainLane now k s)"
    by (simp add: eq)
  show "active_mono s (drainLane now k s)"
    unfolding eq by (rule active_mono_trans [OF props(4)]) (rule pump_mono [OF props(1)], simp)
  show "jm_get (cq_lanes (drainLane now k s)) k' = jm_get (cq_lanes s) k'" if "k' \<noteq> k" for k'
    using that by (simp add: eq pump_lanes props)
  show "\<exists>l. jm_get (cq_lanes (drainLane now k s)) k = Some l \<and> \<not> ls_draining l \<and> lane_saturated l"
    using pump_lanes(1) [of now k "l\<lparr>ls_draining := True\<rparr>" t] by (force simp: eq)
qed

definition cq_inv :: "cq \<Rightarrow> bool" where
  "cq_inv s \<longleftrightarrow> cq_wf s \<and> lanes_settled s \<and> waiters_wait s"

text \<open>Replacing one lane (same tasks, any queue) and draining it restores the invariant.\<close>

lemma drain_after_put:
  assumes inv: "cq_inv s" and l: "jm_get (cq_lanes s) k = Some l"
    and l': "lane_ok (cq_runs s) k l'" "\<not> ls_draining l'" "ls_active l' = ls_active l"
  shows "cq_inv (drainLane now k (put_lane k l' s))"
proof -
  let ?p = "put_lane k l' s"
  have wf: "cq_wf ?p" using inv l'(1) by (simp add: put_lane_wf cq_inv_def)
  have mono: "active_mono s ?p" using l l'(3) by (auto simp: active_mono_def)
  note d = drainLane_props [OF wf, where k = k and now = now]
  have idle: "\<And>x. jm_get (cq_lanes ?p) k = Some x \<Longrightarrow> \<not> ls_draining x" using l'(2) by simp
  have "lanes_settled (drainLane now k ?p)"
    unfolding lanes_settled_def
  proof (intro allI impI)
    fix k' x assume "jm_get (cq_lanes (drainLane now k ?p)) k' = Some x"
    then show "\<not> ls_draining x \<and> lane_saturated x"
      using d(3,4) [OF idle] inv by (cases "k' = k") (auto simp: cq_inv_def lanes_settled_def)
  qed
  moreover have "waiters_wait (drainLane now k ?p)"
    using inv d(1,2) [OF idle] mono
    by (auto simp: cq_inv_def intro: active_mono_waiters active_mono_trans)
  ultimately show ?thesis using d(1) [OF idle] by (simp add: cq_inv_def)
qed

lemma cq_wf_frame [simp]:
  "cq_wf (s\<lparr>cq_log := x\<rparr>) = cq_wf s" "cq_wf (s\<lparr>cq_nextPromise := n\<rparr>) = cq_wf s"
  "cq_wf (s\<lparr>cq_gatewayDraining := b\<rparr>) = cq_wf s" "cq_wf (s\<lparr>cq_waiters := ws\<rparr>) = cq_wf s"
  by (simp_all add: cq_wf_def)

lemma lanes_settled_frame [simp]:
  "lanes_settled (s\<lparr>cq_log := x\<rparr>) = lanes_settled s"
  "lanes_settled (s\<lparr>cq_nextPromise := n\<rparr>) = lanes_settled s"
  "lanes_settled (s\<lparr>cq_gatewayDraining := b\<rparr>) = lanes_settled s"
  "lanes_settled (s\<lparr>cq_waiters := ws\<rparr>) = lanes_settled s"
  "lanes_settled (s\<lparr>cq_runs := rs\<rparr>) = lanes_settled s"
  by (simp_all add: lanes_settled_def)

lemma resolvable_frame [simp]:
  "resolvable (s\<lparr>cq_log := x\<rparr>) = resolvable s"
  "resolvable (s\<lparr>cq_nextPromise := n\<rparr>) = resolvable s"
  "resolvable (s\<lparr>cq_gatewayDraining := b\<rparr>) = resolvable s"
  "resolvable (s\<lparr>cq_waiters := ws\<rparr>) = resolvable s"
  "resolvable (s\<lparr>cq_runs := rs\<rparr>) = resolvable s"
  by (simp_all add: resolvable_def hasPendingActiveTasks_def fun_eq_iff)

lemma waiters_wait_frame [simp]:
  "waiters_wait (s\<lparr>cq_log := x\<rparr>) = waiters_wait s"
  "waiters_wait (s\<lparr>cq_nextPromise := n\<rparr>) = waiters_wait s"
  "waiters_wait (s\<lparr>cq_gatewayDraining := b\<rparr>) = waiters_wait s"
  "waiters_wait (s\<lparr>cq_runs := rs\<rparr>) = waiters_wait s"
  by (simp_all add: waiters_wait_def)

lemma waiters_wait_notify [simp]: "waiters_wait (notifyActiveTaskWaiters s)"
  by (simp add: waiters_wait_def notifyActiveTaskWaiters_def)

lemma notify_inv:
  "cq_wf (notifyActiveTaskWaiters s) = cq_wf s"
  "lanes_settled (notifyActiveTaskWaiters s) = lanes_settled s"
  by (simp_all add: cq_wf_def lanes_settled_def)

lemma cq_inv_init: "cq_inv cq_init"
  by (simp add: cq_inv_def cq_init_def cq_wf_def lanes_settled_def waiters_wait_def)

lemma getLaneState_inv: "getLaneState k s = (l, t) \<Longrightarrow> cq_inv s \<Longrightarrow> cq_inv t"
  using getLaneState_props [of k s l t] active_mono_waiters [of s t]
  by (simp add: cq_inv_def)

lemma enqueue_inv: "cq_inv s \<Longrightarrow> cq_inv (enqueueCommandInLane now lane warn onWait s)"
proof -
  assume inv: "cq_inv s"
  let ?k = "normalizeLane lane" and ?s1 = "s\<lparr>cq_nextPromise := Suc (cq_nextPromise s)\<rparr>"
  obtain l t where lt: "getLaneState ?k ?s1 = (l, t)" by (cases "getLaneState ?k ?s1")
  let ?t = "t\<lparr>cq_log := cq_log t @ [Accepted (cq_nextPromise s) ?k]\<rparr>"
  have "cq_inv t" using getLaneState_inv [OF lt] inv by (simp add: cq_inv_def)
  then have "cq_inv ?t" and "jm_get (cq_lanes ?t) ?k = Some l"
    and "lane_ok (cq_runs ?t) ?k l" "\<not> ls_draining l"
    using getLaneState_props(1) [OF lt] by (auto simp: cq_inv_def cq_wf_def lanes_settled_def)
  then have "cq_inv (drainLane now ?k (put_lane ?k (l\<lparr>ls_queue := q\<rparr>) ?t))" for q
    by (intro drain_after_put) (auto simp: lane_ok_def)
  then show ?thesis
    using inv lt by (simp add: enqueueCommandInLane_def Let_def cq_inv_def)
qed

lemma setConcurrency_inv: "cq_inv s \<Longrightarrow> cq_inv (setCommandLaneConcurrency now lane n s)"
proof -
  assume inv: "cq_inv s"
  let ?k = "normalizeLane lane"
  obtain l t where lt: "getLaneState ?k s = (l, t)" by (cases "getLaneState ?k s")
  have "cq_inv t" using getLaneState_inv [OF lt inv] .
  moreover from this have "jm_get (cq_lanes t) ?k = Some l" "lane_ok (cq_runs t) ?k l" "\<not> ls_draining l"
    using getLaneState_props(1) [OF lt] by (auto simp: cq_inv_def cq_wf_def lanes_settled_def)
  ultimately show ?thesis
    unfolding setCommandLaneConcurrency_def Let_def lt
    by (simp, intro drain_after_put) (auto simp: lane_ok_def)
qed

lemma put_lane_log: "put_lane k l (s\<lparr>cq_log := x\<rparr>) = (put_lane k l s)\<lparr>cq_log := x\<rparr>"
  by (cases s) (simp add: put_lane_def)

lemma clearLane_inv: "cq_inv s \<Longrightarrow> cq_inv (snd (clearCommandLane lane s))"
proof (cases "jm_get (cq_lanes s) (normalizeLane lane)")
  case (Some l)
  let ?k = "normalizeLane lane"
  assume inv: "cq_inv s"
  let ?p = "put_lane ?k (l\<lparr>ls_queue := []\<rparr>) s"
  have wf: "cq_wf ?p"
    using inv Some by (intro put_lane_wf) (auto simp: cq_inv_def cq_wf_def lane_ok_def)
  moreover have "lanes_settled ?p"
    using inv Some by (auto simp: cq_inv_def lanes_settled_def lane_saturated_def)
  moreover have "waiters_wait ?p"
  proof (rule active_mono_waiters [OF _ _ _ wf])
    show "active_mono s ?p" using Some by (simp add: active_mono_def)
  qed (use inv in \<open>simp_all add: cq_inv_def\<close>)
  ultimately have "cq_inv (?p\<lparr>cq_log := x\<rparr>)" for x
    by (simp add: cq_inv_def)
  then show ?thesis using Some by (simp add: clearCommandLane_def Let_def put_lane_log)
qed (simp add: clearCommandLane_def Let_def)

lemma wait_inv: "cq_inv s \<Longrightarrow> cq_inv (waitForActiveTasks timeoutMs s)"
  by (simp add: waitForActiveTasks_def Let_def cq_inv_def notify_inv)

lemma waiterTimeout_inv: "cq_inv s \<Longrightarrow> cq_inv (waiterTimeout w s)"
  by (auto simp: waiterTimeout_def cq_inv_def waiters_wait_def)

text \<open>Settling a task.\<close>

lemma settle_runs_wf:
  assumes wf: "cq_wf s" and r: "r \<in> set (cq_runs s)" and l: "jm_get (cq_lanes s) (rn_lane r) = Some l"
  shows "cq_wf (put_lane (rn_lane r) (snd (completeTask l (rn_taskId r) (rn_gen r)))
           (s\<lparr>cq_runs := remove1 r (cq_runs s)\<rparr>))"
    and "lane_ok (remove1 r (cq_runs s)) (rn_lane r) (snd (completeTask l (rn_taskId r) (rn_gen r)))"
proof -
  have dist: "distinct (map rn_taskId (cq_runs s))" using wf by (simp add: cq_wf_def)
  then have set_rm: "set (remove1 r (cq_runs s)) = set (cq_runs s) - {r}"
    by (simp add: distinct_map)
  have inj: "rn_taskId r' = rn_taskId r \<longleftrightarrow> r' = r" if "r' \<in> set (cq_runs s)" for r'
    using dist r that by (metis distinct_map inj_on_def)
  have lane: "lane_ok (cq_runs s) (rn_lane r) l" using wf l by (simp add: cq_wf_def)
  show ok: "lane_ok (remove1 r (cq_runs s)) (rn_lane r) (snd (completeTask l (rn_taskId r) (rn_gen r)))"
    using lane inj by (auto simp: lane_ok_def completeTask_def lane_runs_def set_rm)
  have "lane_ok (remove1 r (cq_runs s)) k l'"
    if "k \<noteq> rn_lane r" "jm_get (cq_lanes s) k = Some l'" for k l'
  proof -
    have "lane_ok (cq_runs s) k l'" using that wf by (simp add: cq_wf_def)
    with that(1) show ?thesis by (auto simp: lane_ok_def lane_runs_def set_rm)
  qed
  moreover have "distinct (map rn_taskId (remove1 r (cq_runs s)))"
    using dist by (simp add: distinct_map set_rm inj_on_diff)
  ultimately show "cq_wf (put_lane (rn_lane r) (snd (completeTask l (rn_taskId r) (rn_gen r)))
           (s\<lparr>cq_runs := remove1 r (cq_runs s)\<rparr>))"
    using wf ok by (auto simp: cq_wf_def set_rm)
qed

lemma settle_inv:
  assumes inv: "cq_inv s" and r: "r \<in> set (cq_runs s)"
  shows "cq_inv (settleTask now r ok s)"
proof -
  let ?k = "rn_lane r" and ?s = "s\<lparr>cq_runs := remove1 r (cq_runs s)\<rparr>"
  from inv r obtain l where l: "jm_get (cq_lanes s) ?k = Some l"
    by (auto simp: cq_inv_def cq_wf_def)
  obtain c l' where cl: "completeTask l (rn_taskId r) (rn_gen r) = (c, l')"
    by (cases "completeTask l (rn_taskId r) (rn_gen r)")
  note wf = settle_runs_wf [OF _ r l, unfolded cl snd_conv]
  have gl: "getLaneState ?k ?s = (l, ?s)" using l by (simp add: getLaneState_def)
  have w0: "cq_wf (put_lane ?k l' ?s)" and ok: "lane_ok (remove1 r (cq_runs s)) ?k l'"
    using wf inv by (simp_all add: cq_inv_def)
  show ?thesis
  proof (cases c)
    case False
    then have "l' = l" using cl by (auto simp: completeTask_def split: if_splits)
    then have "put_lane ?k l' ?s = ?s"
      using l by (simp add: put_lane_def jm_set_same)
    then have "cq_wf ?s" using w0 by simp
    then show ?thesis
      using inv False by (simp add: settleTask_def Let_def gl cl cq_inv_def)
  next
    case True
    let ?n = "notifyActiveTaskWaiters (put_lane ?k l' ?s)"
    have wn: "cq_wf ?n" using w0 by (simp add: notify_inv)
    have okn: "lane_ok (cq_runs ?n) ?k l'" using ok by simp
    have wp: "cq_wf (pump now ?k l' ?n)" by (rule pump_wf [OF wn okn]) simp
    have "lanes_settled (pump now ?k l' ?n)"
      unfolding lanes_settled_def
    proof (intro allI impI)
      fix k x assume "jm_get (cq_lanes (pump now ?k l' ?n)) k = Some x"
      then show "\<not> ls_draining x \<and> lane_saturated x"
        using pump_lanes(1) [of now ?k l' ?n] pump_lanes(2) [where now = now and k = k and lane = ?k and l = l' and s = ?n] inv
        by (cases "k = ?k") (auto simp: cq_inv_def lanes_settled_def)
    qed
    moreover have "waiters_wait (pump now ?k l' ?n)"
      by (rule active_mono_waiters [OF pump_mono [of _ _ l'] _ wn wp]) simp_all
    ultimately show ?thesis
      using wp True by (simp add: settleTask_def Let_def gl cl cq_inv_def)
  qed
qed

text \<open>Resetting all lanes.\<close>

lemma fold_drain:
  assumes "cq_wf s" "\<And>k l. jm_get (cq_lanes s) k = Some l \<Longrightarrow> \<not> ls_draining l \<and> (lane_saturated l \<or> k \<in> set ks)"
  shows "cq_wf (fold (drainLane now) ks s) \<and> lanes_settled (fold (drainLane now) ks s)"
  using assms
proof (induction ks arbitrary: s)
  case Nil
  then show ?case by (auto simp: lanes_settled_def)
next
  case (Cons k ks)
  have idle: "\<And>l. jm_get (cq_lanes s) k = Some l \<Longrightarrow> \<not> ls_draining l" using Cons.prems(2) by blast
  note d = drainLane_props [OF Cons.prems(1) idle, where k = k and now = now, simplified]
  have "\<not> ls_draining x \<and> (lane_saturated x \<or> k' \<in> set ks)"
    if "jm_get (cq_lanes (drainLane now k s)) k' = Some x" for k' x
  proof (cases "k' = k")
    case True
    with that d(4) show ?thesis by auto
  next
    case False
    with that d(3) have "jm_get (cq_lanes s) k' = Some x" by simp
    from Cons.prems(2) [OF this] False show ?thesis by auto
  qed
  then show ?case using Cons.IH [of "drainLane now k s"] d(1) by simp
qed

lemma reset_lane_ok: "lane_ok runs k l \<Longrightarrow> lane_ok runs k (reset_lane l)"
  by (fastforce simp: lane_ok_def lane_runs_def reset_lane_def)

lemma reset_inv: "cq_inv s \<Longrightarrow> cq_inv (resetAllLanes now s)"
proof -
  assume inv: "cq_inv s"
  let ?s1 = "s\<lparr>cq_gatewayDraining := False,
                 cq_lanes := map (\<lambda>(k, l). (k, reset_lane l)) (cq_lanes s)\<rparr>"
  let ?ks = "map (ls_lane \<circ> snd) (filter (\<lambda>(k, l). ls_queue l \<noteq> []) (cq_lanes ?s1))"
  have get: "jm_get (cq_lanes ?s1) k = map_option reset_lane (jm_get (cq_lanes s) k)" for k
    by (simp add: jm_get_map)
  have jm: "jm_ok (cq_lanes ?s1)"
    using inv by (simp add: cq_inv_def cq_wf_def case_prod_beta comp_def)
  have wf: "cq_wf ?s1"
    using inv jm reset_lane_ok by (auto simp: cq_inv_def cq_wf_def jm_get_map)
  have "\<not> ls_draining l \<and> (lane_saturated l \<or> k \<in> set ?ks)"
    if "jm_get (cq_lanes ?s1) k = Some l" for k l
  proof -
    from that have mem: "(k, l) \<in> set (cq_lanes ?s1)" by (rule map_of_SomeD)
    have "ls_lane l = k" using wf that by (auto simp: cq_wf_def lane_ok_def)
    then have "lane_saturated l \<or> k \<in> set ?ks"
      using mem by (force simp: lane_saturated_def image_iff)
    moreover from that have "\<not> ls_draining l" by (auto simp: jm_get_map reset_lane_def)
    ultimately show ?thesis by blast
  qed
  from fold_drain [OF wf this] show ?thesis
    by (simp add: resetAllLanes_def Let_def cq_inv_def notify_inv)
qed

interpretation cq_machine: event_machine cq_init cq_enabled cq_step cq_inv
proof
  show "cq_inv cq_init" by (rule cq_inv_init)
next
  fix s e assume "cq_inv s" "cq_enabled s e"
  then show "cq_inv (cq_step s e)"
    by (cases e) (auto simp: enqueue_inv setConcurrency_inv clearLane_inv wait_inv
        waiterTimeout_inv settle_inv reset_inv markGatewayDraining_def cq_inv_def [of "_\<lparr>cq_gatewayDraining := True\<rparr>"]
        dest: cq_inv_def [THEN iffD1])
qed

section \<open>The log: order and conservation\<close>

fun accepted_in :: "string \<Rightarrow> effect \<Rightarrow> nat list" where
  "accepted_in k (Accepted p l) = (if l = k then [p] else [])"
| "accepted_in k _ = []"

fun started_in :: "string \<Rightarrow> effect \<Rightarrow> nat list" where
  "started_in k (TaskStarted p t l) = (if l = k then [p] else [])"
| "started_in k _ = []"

fun cleared_in :: "string \<Rightarrow> effect \<Rightarrow> nat list" where
  "cleared_in k (LaneCleared p l) = (if l = k then [p] else [])"
| "cleared_in k _ = []"

fun settled_in :: "string \<Rightarrow> effect \<Rightarrow> nat list" where
  "settled_in k (EntryResolved p l) = (if l = k then [p] else [])"
| "settled_in k (EntryRejected p l) = (if l = k then [p] else [])"
| "settled_in k _ = []"

definition dispatched_in :: "string \<Rightarrow> effect \<Rightarrow> nat list" where
  "dispatched_in k x = started_in k x @ cleared_in k x"

definition logged :: "(effect \<Rightarrow> nat list) \<Rightarrow> effect list \<Rightarrow> nat list" where
  "logged f lg = concat (map f lg)"

lemma logged_simps [simp]:
  "logged f [] = []" "logged f (x # xs) = f x @ logged f xs" "logged f (xs @ ys) = logged f xs @ logged f ys"
  by (simp_all add: logged_def)

definition queue_of :: "cq \<Rightarrow> string \<Rightarrow> nat list" where
  "queue_of s k = (case jm_get (cq_lanes s) k of None \<Rightarrow> [] | Some l \<Rightarrow> map en_id (ls_queue l))"

lemma queue_of_frame [simp]:
  "queue_of (s\<lparr>cq_log := x\<rparr>) = queue_of s" "queue_of (s\<lparr>cq_nextPromise := n\<rparr>) = queue_of s"
  "queue_of (s\<lparr>cq_gatewayDraining := b\<rparr>) = queue_of s" "queue_of (s\<lparr>cq_waiters := ws\<rparr>) = queue_of s"
  "queue_of (s\<lparr>cq_runs := rs\<rparr>) = queue_of s" "queue_of (notifyActiveTaskWaiters s) = queue_of s"
  by (simp_all add: queue_of_def fun_eq_iff)

lemma queue_of_put [simp]:
  "queue_of (put_lane k l s) = (queue_of s)(k := map en_id (ls_queue l))"
  by (auto simp: queue_of_def fun_eq_iff)

lemma queue_upd_same [simp]:
  "jm_get (cq_lanes s) k = Some l \<Longrightarrow> (queue_of s)(k := map en_id (ls_queue l)) = queue_of s"
  by (auto simp: queue_of_def fun_eq_iff)

definition running_in :: "run list \<Rightarrow> string \<Rightarrow> nat list" where
  "running_in rs k = map (\<lambda>r. en_id (rn_entry r)) (filter (\<lambda>r. rn_lane r = k) rs)"

lemma running_in_simps [simp]:
  "running_in [] k = []" "running_in (xs @ ys) k = running_in xs k @ running_in ys k"
  by (simp_all add: running_in_def)

text \<open>
  \<open>log_ok\<close>: in every lane the accepted entries, in order, are those dispatched (started or
  cleared) followed by those queued; the started ones are those running, those settled, and
  (\<open>pend\<close>) one whose settlement is being processed. Promise ids are fresh.
\<close>

definition log_ok :: "effect list \<Rightarrow> run list \<Rightarrow> (string \<Rightarrow> nat multiset) \<Rightarrow> (string \<Rightarrow> nat list) \<Rightarrow> bool" where
  "log_ok lg rs pend qf \<longleftrightarrow>
     (\<forall>k. logged (accepted_in k) lg = logged (dispatched_in k) lg @ qf k \<and>
          mset (logged (started_in k) lg) =
            mset (running_in rs k) + pend k + mset (logged (settled_in k) lg))"

definition ids_fresh :: "effect list \<Rightarrow> nat \<Rightarrow> bool" where
  "ids_fresh lg n \<longleftrightarrow>
     (\<forall>k. distinct (logged (accepted_in k) lg) \<and> (\<forall>p\<in>set (logged (accepted_in k) lg). p < n)) \<and>
     (\<forall>k k' p. p \<in> set (logged (accepted_in k) lg) \<longrightarrow> p \<in> set (logged (accepted_in k') lg) \<longrightarrow> k = k')"

lemma pump_loop_log:
  "pump_loop now lane mc gen q act nid = (q', act', rs, fx) \<Longrightarrow>
     logged (started_in k) fx = running_in rs k \<and> logged (dispatched_in k) fx = running_in rs k \<and>
     logged (accepted_in k) fx = [] \<and> logged (settled_in k) fx = []"
proof (induction q arbitrary: act nid q' act' rs fx)
  case Nil
  then show ?case by simp
next
  case (Cons e q)
  obtain q1 act1 rs1 fx1
    where rec: "pump_loop now lane mc gen q (act @ [nid]) (Suc nid) = (q1, act1, rs1, fx1)"
    by (metis prod.collapse)
  from Cons.prems Cons.IH [OF rec] show ?case
    by (auto simp: Let_def rec running_in_def dispatched_in_def split: if_splits)
qed

lemma pump_log:
  assumes "log_ok (cq_log s) (cq_runs s) pend ((queue_of s)(lane := map en_id (ls_queue l)))"
  shows "log_ok (cq_log (pump now lane l s)) (cq_runs (pump now lane l s)) pend (queue_of (pump now lane l s))"
    and "logged (accepted_in k) (cq_log (pump now lane l s)) = logged (accepted_in k) (cq_log s)"
    and "cq_nextPromise (pump now lane l s) = cq_nextPromise s"
proof -
  obtain q act rs fx where
    run: "pump_loop now lane (ls_maxConcurrent l) (ls_generation l) (ls_queue l) (ls_active l)
       (cq_nextTaskId s) = (q, act, rs, fx)"
    and res: "pump_result lane (ls_maxConcurrent l) (ls_generation l) (ls_queue l) (ls_active l)
       (cq_nextTaskId s) q act rs"
    and eq: "pump now lane l s = put_lane lane (l\<lparr>ls_queue := q, ls_active := act, ls_draining := False\<rparr>)
       (s\<lparr>cq_nextTaskId := cq_nextTaskId s + length rs, cq_runs := cq_runs s @ rs,
          cq_log := cq_log s @ fx\<rparr>)"
    by (rule pumpE)
  note fx = pump_loop_log [OF run]
  from res have ql: "map en_id (ls_queue l) = running_in rs lane @ map en_id q"
    by (simp add: pump_result_def running_in_def)
  from res have other: "running_in rs k' = []" if "k' \<noteq> lane" for k'
    using that by (auto simp: pump_result_def running_in_def filter_empty_conv)
  show "logged (accepted_in k) (cq_log (pump now lane l s)) = logged (accepted_in k) (cq_log s)"
    and "cq_nextPromise (pump now lane l s) = cq_nextPromise s"
    using fx by (simp_all add: eq)
  show "log_ok (cq_log (pump now lane l s)) (cq_runs (pump now lane l s)) pend (queue_of (pump now lane l s))"
    unfolding log_ok_def
  proof (intro allI conjI)
    fix k'
    show "logged (accepted_in k') (cq_log (pump now lane l s)) =
        logged (dispatched_in k') (cq_log (pump now lane l s)) @ queue_of (pump now lane l s) k'"
      using assms fx ql other [of k'] by (cases "k' = lane") (auto simp: eq log_ok_def queue_of_def)
    show "mset (logged (started_in k') (cq_log (pump now lane l s))) =
        mset (running_in (cq_runs (pump now lane l s)) k') + pend k' +
        mset (logged (settled_in k') (cq_log (pump now lane l s)))"
      using assms fx by (auto simp: eq log_ok_def)
  qed
qed

definition log_inv :: "(string \<Rightarrow> nat multiset) \<Rightarrow> cq \<Rightarrow> bool" where
  "log_inv pend s \<longleftrightarrow> log_ok (cq_log s) (cq_runs s) pend (queue_of s) \<and> ids_fresh (cq_log s) (cq_nextPromise s)"

lemma pump_log_inv:
  assumes "log_inv pend (put_lane lane l s)"
  shows "log_inv pend (pump now lane l s)"
proof -
  have "queue_of (put_lane lane l s) = (queue_of s)(lane := map en_id (ls_queue l))"
    by (auto simp: queue_of_def)
  then have "log_ok (cq_log s) (cq_runs s) pend ((queue_of s)(lane := map en_id (ls_queue l)))"
    using assms by (simp add: log_inv_def)
  note pl = pump_log [OF this]
  show ?thesis
    using assms pl(1) unfolding log_inv_def ids_fresh_def pl(2) pl(3) by simp
qed

lemma queue_of_getLaneState: "getLaneState k s = (l, t) \<Longrightarrow> queue_of t = queue_of s"
  by (auto simp: getLaneState_def queue_of_def new_lane_def fun_eq_iff split: option.splits if_splits)

lemma log_inv_cong:
  "log_inv pend s \<Longrightarrow> cq_log t = cq_log s \<Longrightarrow> cq_runs t = cq_runs s \<Longrightarrow>
     cq_nextPromise t = cq_nextPromise s \<Longrightarrow> queue_of t = queue_of s \<Longrightarrow> log_inv pend t"
  by (simp add: log_inv_def)

lemma drain_log_inv: "log_inv pend s \<Longrightarrow> log_inv pend (drainLane now k s)"
proof -
  assume inv: "log_inv pend s"
  obtain l t where lt: "getLaneState k s = (l, t)" by (cases "getLaneState k s")
  note props = getLaneState_props [OF lt]
  have t: "log_inv pend t"
    by (rule log_inv_cong [OF inv]) (simp_all add: props queue_of_getLaneState [OF lt])
  have "log_inv pend (put_lane k (l\<lparr>ls_draining := True\<rparr>) t)"
    by (rule log_inv_cong [OF t]) (simp_all add: props(1))
  from pump_log_inv [OF this] t show ?thesis
    by (simp add: drainLane_def lt)
qed

lemma logged_waiters [simp]:
  "logged (accepted_in k) (map (\<lambda>w. WaiterResolved (f w) b) ws) = []"
  "logged (dispatched_in k) (map (\<lambda>w. WaiterResolved (f w) b) ws) = []"
  "logged (started_in k) (map (\<lambda>w. WaiterResolved (f w) b) ws) = []"
  "logged (settled_in k) (map (\<lambda>w. WaiterResolved (f w) b) ws) = []"
  by (induction ws) (simp_all add: dispatched_in_def)

lemma notify_log_inv: "log_inv pend (notifyActiveTaskWaiters s) = log_inv pend s"
  by (simp add: log_inv_def log_ok_def ids_fresh_def) (simp add: notifyActiveTaskWaiters_def)

lemma fold_drain_log: "log_inv pend s \<Longrightarrow> log_inv pend (fold (drainLane now) ks s)"
  by (induction ks arbitrary: s) (simp_all add: drain_log_inv)

lemma ids_fresh_quiet: "(\<And>k. logged (accepted_in k) fx = []) \<Longrightarrow> ids_fresh (lg @ fx) n = ids_fresh lg n"
  by (simp add: ids_fresh_def)

lemma log_inv_append:
  assumes "log_inv pend s" "\<And>k. logged (accepted_in k) fx = []"
    "log_ok (cq_log s @ fx) (cq_runs t) pend' (queue_of t)"
    "cq_log t = cq_log s @ fx" "cq_nextPromise t = cq_nextPromise s"
  shows "log_inv pend' t"
  using assms by (simp add: log_inv_def ids_fresh_quiet)

lemma log_inv_init: "log_inv (\<lambda>_. {#}) cq_init"
  by (simp add: log_inv_def log_ok_def ids_fresh_def queue_of_def cq_init_def)

lemma log_inv_gateway [simp]: "log_inv pend (s\<lparr>cq_gatewayDraining := b\<rparr>) = log_inv pend s"
  by (simp add: log_inv_def)

lemma log_inv_waiters [simp]: "log_inv pend (s\<lparr>cq_waiters := ws\<rparr>) = log_inv pend s"
  by (simp add: log_inv_def)

text \<open>Taking a promise id, and logging an effect that dispatches nothing.\<close>

lemma log_inv_promise: "log_inv pend s \<Longrightarrow> log_inv pend (s\<lparr>cq_nextPromise := Suc (cq_nextPromise s)\<rparr>)"
  by (auto simp: log_inv_def ids_fresh_def less_Suc_eq)

lemma log_inv_quiet:
  assumes "log_inv pend s" "\<And>k. accepted_in k x = []" "\<And>k. dispatched_in k x = []" "\<And>k. settled_in k x = []"
  shows "log_inv pend (s\<lparr>cq_log := cq_log s @ [x]\<rparr>)"
proof -
  have st: "started_in k x = []" for k using assms(3) by (simp add: dispatched_in_def)
  have "log_ok (cq_log s @ [x]) (cq_runs s) pend (queue_of s)"
    using assms(1) unfolding log_inv_def log_ok_def by (simp add: assms(2-4) st)
  then show ?thesis
    by (intro log_inv_append [OF assms(1)]) (simp_all add: assms(2))
qed

lemma enqueue_log_inv: "log_inv pend s \<Longrightarrow> log_inv pend (enqueueCommandInLane now lane warn onWait s)"
proof -
  assume inv: "log_inv pend s"
  let ?p = "cq_nextPromise s" and ?k = "normalizeLane lane"
  let ?s1 = "s\<lparr>cq_nextPromise := Suc ?p\<rparr>"
  have s1: "log_inv pend ?s1" using log_inv_promise [OF inv] .
  obtain l t where lt: "getLaneState ?k ?s1 = (l, t)" by (cases "getLaneState ?k ?s1")
  note props = getLaneState_props [OF lt]
  let ?e = "\<lparr>en_id = ?p, en_enqueuedAt = now, en_warnAfterMs = js_nullish warn 2000, en_onWait = onWait\<rparr>"
  let ?t = "put_lane ?k (l\<lparr>ls_queue := ls_queue l @ [?e]\<rparr>) (t\<lparr>cq_log := cq_log t @ [Accepted ?p ?k]\<rparr>)"
  have qt: "queue_of t = queue_of s" using queue_of_getLaneState [OF lt] by simp
  have ql: "map en_id (ls_queue l) = queue_of s ?k"
    unfolding qt [symmetric] by (simp add: queue_of_def props(1))
  have q: "queue_of ?t = (queue_of s)(?k := queue_of s ?k @ [?p])"
    by (simp add: ql qt)
  have "log_ok (cq_log ?t) (cq_runs ?t) pend (queue_of ?t)"
    unfolding q using inv by (auto simp: props log_inv_def log_ok_def dispatched_in_def)
  moreover have "ids_fresh (cq_log ?t) (cq_nextPromise ?t)"
    using inv by (fastforce simp: props log_inv_def ids_fresh_def less_Suc_eq)
  ultimately have "log_inv pend (drainLane now ?k ?t)"
    by (intro drain_log_inv) (simp add: log_inv_def)
  moreover have "log_inv pend (?s1\<lparr>cq_log := cq_log ?s1 @ [DrainingRejected ?p]\<rparr>)"
    using s1 by (intro log_inv_quiet) (auto simp: dispatched_in_def)
  ultimately show ?thesis
    using lt by (simp add: enqueueCommandInLane_def Let_def)
qed

lemma setConcurrency_log_inv: "log_inv pend s \<Longrightarrow> log_inv pend (setCommandLaneConcurrency now lane n s)"
proof -
  assume inv: "log_inv pend s"
  let ?k = "normalizeLane lane"
  obtain l t where lt: "getLaneState ?k s = (l, t)" by (cases "getLaneState ?k s")
  note props = getLaneState_props [OF lt]
  have "log_inv pend (put_lane ?k (l\<lparr>ls_maxConcurrent := max 1 \<lfloor>n\<rfloor>\<rparr>) t)"
    by (rule log_inv_cong [OF inv])
      (simp_all add: props(1,6-8) queue_of_getLaneState [OF lt, symmetric])
  from drain_log_inv [OF this] show ?thesis
    by (simp add: setCommandLaneConcurrency_def Let_def lt)
qed

lemma logged_cleared [simp]:
  "logged (accepted_in k) (map (\<lambda>e. LaneCleared (en_id e) k') es) = []"
  "logged (started_in k) (map (\<lambda>e. LaneCleared (en_id e) k') es) = []"
  "logged (settled_in k) (map (\<lambda>e. LaneCleared (en_id e) k') es) = []"
  "logged (dispatched_in k) (map (\<lambda>e. LaneCleared (en_id e) k') es) = (if k' = k then map en_id es else [])"
  by (induction es) (simp_all add: dispatched_in_def)

lemma clearLane_log_inv: "log_inv pend s \<Longrightarrow> log_inv pend (snd (clearCommandLane lane s))"
proof (cases "jm_get (cq_lanes s) (normalizeLane lane)")
  case (Some l)
  let ?k = "normalizeLane lane"
  let ?fx = "map (\<lambda>e. LaneCleared (en_id e) ?k) (ls_queue l)"
  let ?t = "put_lane ?k (l\<lparr>ls_queue := []\<rparr>) (s\<lparr>cq_log := cq_log s @ ?fx\<rparr>)"
  assume inv: "log_inv pend s"
  have q: "queue_of ?t = (queue_of s)(?k := [])" "queue_of s ?k = map en_id (ls_queue l)"
    using Some by (auto simp: queue_of_def fun_eq_iff)
  have "log_ok (cq_log s @ ?fx) (cq_runs s) pend (queue_of ?t)"
    using inv unfolding log_inv_def log_ok_def q(1) by (auto simp: q(2))
  then have "log_inv pend ?t"
    by (intro log_inv_append [OF inv]) simp_all
  then show ?thesis using Some by (simp add: clearCommandLane_def Let_def)
qed (simp add: clearCommandLane_def Let_def)

lemma wait_log_inv: "log_inv pend s \<Longrightarrow> log_inv pend (waitForActiveTasks timeoutMs s)"
proof -
  assume inv: "log_inv pend s"
  let ?s = "s\<lparr>cq_nextPromise := Suc (cq_nextPromise s)\<rparr>"
  have "log_inv pend (?s\<lparr>cq_log := cq_log ?s @ [WaiterResolved w b]\<rparr>)" for w b
    using log_inv_promise [OF inv] by (intro log_inv_quiet) (auto simp: dispatched_in_def)
  then show ?thesis
    using log_inv_promise [OF inv] by (simp add: waitForActiveTasks_def Let_def notify_log_inv)
qed

lemma waiterTimeout_log_inv: "log_inv pend s \<Longrightarrow> log_inv pend (waiterTimeout w s)"
proof -
  assume inv: "log_inv pend s"
  then have "log_inv pend (s\<lparr>cq_waiters := ws\<rparr>)" for ws by simp
  from log_inv_quiet [OF this, of "WaiterResolved w False"] show ?thesis
    using inv by (simp add: waiterTimeout_def dispatched_in_def)
qed

lemma reset_log_inv: "log_inv pend s \<Longrightarrow> log_inv pend (resetAllLanes now s)"
proof -
  assume inv: "log_inv pend s"
  have "log_inv pend (s\<lparr>cq_gatewayDraining := False, cq_lanes := map (\<lambda>(k, l). (k, reset_lane l)) (cq_lanes s)\<rparr>)"
    by (rule log_inv_cong [OF inv])
      (auto simp: queue_of_def jm_get_map fun_eq_iff reset_lane_def split: option.splits)
  then show ?thesis
    by (simp add: resetAllLanes_def Let_def notify_log_inv fold_drain_log)
qed

lemma running_remove1:
  "r \<in> set rs \<Longrightarrow> mset (running_in rs k) =
     mset (running_in (remove1 r rs) k) + (if rn_lane r = k then {#en_id (rn_entry r)#} else {#})"
  by (induction rs) (auto simp: running_in_def)

lemma settle_log_inv:
  assumes inv: "log_inv (\<lambda>_. {#}) s" and wf: "cq_wf s" and r: "r \<in> set (cq_runs s)"
  shows "log_inv (\<lambda>_. {#}) (settleTask now r ok s)"
proof -
  let ?k = "rn_lane r" and ?p = "en_id (rn_entry r)"
  let ?pend = "\<lambda>k. if k = ?k then {#?p#} else {#}"
  let ?s = "s\<lparr>cq_runs := remove1 r (cq_runs s)\<rparr>"
  from wf r obtain l where l: "jm_get (cq_lanes s) ?k = Some l" by (auto simp: cq_wf_def)
  obtain c l' where cl: "completeTask l (rn_taskId r) (rn_gen r) = (c, l')"
    by (cases "completeTask l (rn_taskId r) (rn_gen r)")
  have gl: "getLaneState ?k ?s = (l, ?s)" using l by (simp add: getLaneState_def)
  have ql: "ls_queue l' = ls_queue l" using cl by (auto simp: completeTask_def split: if_splits)
  have s: "log_inv ?pend ?s"
    using inv running_remove1 [OF r] unfolding log_inv_def log_ok_def by simp
  have put: "log_inv ?pend (put_lane ?k l' ?s)"
    by (rule log_inv_cong [OF s]) (use l ql in simp_all)
  then have n: "log_inv ?pend (notifyActiveTaskWaiters (put_lane ?k l' ?s))"
    by (simp only: notify_log_inv)
  have "log_inv ?pend (put_lane ?k l' (notifyActiveTaskWaiters (put_lane ?k l' ?s)))"
    by (rule log_inv_cong [OF n]) simp_all
  then have pumped: "log_inv ?pend (pump now ?k l' (notifyActiveTaskWaiters (put_lane ?k l' ?s)))"
    by (rule pump_log_inv)
  let ?x = "if ok then EntryResolved ?p ?k else EntryRejected ?p ?k"
  have fin: "log_inv (\<lambda>_. {#}) (u\<lparr>cq_log := cq_log u @ [?x]\<rparr>)" if "log_inv ?pend u" for u
  proof (rule log_inv_append [OF that])
    show "log_ok (cq_log u @ [?x])
        (cq_runs (u\<lparr>cq_log := cq_log u @ [?x]\<rparr>))
        (\<lambda>_. {#}) (queue_of (u\<lparr>cq_log := cq_log u @ [?x]\<rparr>))"
      unfolding log_ok_def
    proof (intro allI conjI)
      fix k
      from that have a: "logged (accepted_in k) (cq_log u) = logged (dispatched_in k) (cq_log u) @ queue_of u k"
        and b: "mset (logged (started_in k) (cq_log u)) =
            mset (running_in (cq_runs u) k) + ?pend k + mset (logged (settled_in k) (cq_log u))"
        unfolding log_inv_def log_ok_def by blast+
      show "logged (accepted_in k) (cq_log u @ [?x]) =
          logged (dispatched_in k) (cq_log u @ [?x]) @
          queue_of (u\<lparr>cq_log := cq_log u @ [?x]\<rparr>) k"
        using a by (simp add: dispatched_in_def)
      show "mset (logged (started_in k) (cq_log u @ [?x])) =
          mset (running_in (cq_runs (u\<lparr>cq_log := cq_log u @ [?x]\<rparr>)) k) +
          {#} + mset (logged (settled_in k) (cq_log u @ [?x]))"
        using b by simp
    qed
  qed simp_all
  show ?thesis
    using fin [OF pumped] fin [OF s] by (simp add: settleTask_def Let_def gl cl)
qed

definition cq_full_inv :: "cq \<Rightarrow> bool" where
  "cq_full_inv s \<longleftrightarrow> cq_inv s \<and> log_inv (\<lambda>_. {#}) s"

interpretation cq_log_machine: event_machine cq_init cq_enabled cq_step cq_full_inv
proof
  show "cq_full_inv cq_init" by (simp add: cq_full_inv_def cq_inv_init log_inv_init)
next
  fix s e assume a: "cq_full_inv s" "cq_enabled s e"
  then have "cq_inv (cq_step s e)" by (simp add: cq_full_inv_def cq_machine.inv_step)
  moreover have "log_inv (\<lambda>_. {#}) (cq_step s e)"
    using a by (cases e) (simp_all add: cq_full_inv_def enqueue_log_inv setConcurrency_log_inv
        clearLane_log_inv wait_log_inv waiterTimeout_log_inv reset_log_inv settle_log_inv
        markGatewayDraining_def cq_inv_def)
  ultimately show "cq_full_inv (cq_step s e)" by (simp add: cq_full_inv_def)
qed

lemma reachable_invD: "cq_reachable s \<Longrightarrow> cq_wf s \<and> lanes_settled s \<and> waiters_wait s \<and> log_inv (\<lambda>_. {#}) s"
  using cq_log_machine.inv_reach by (auto simp: cq_full_inv_def cq_inv_def)

text \<open>How far a transition may raise the number of active tasks of a lane.\<close>

definition active_count :: "cq \<Rightarrow> string \<Rightarrow> int" where
  "active_count s k = (case jm_get (cq_lanes s) k of None \<Rightarrow> 0 | Some l \<Rightarrow> int (length (ls_active l)))"

definition lane_limit :: "cq \<Rightarrow> string \<Rightarrow> int" where
  "lane_limit s k = (case jm_get (cq_lanes s) k of None \<Rightarrow> 1 | Some l \<Rightarrow> ls_maxConcurrent l)"

definition within_limits :: "cq \<Rightarrow> cq \<Rightarrow> bool" where
  "within_limits s t \<longleftrightarrow> (\<forall>k. active_count t k \<le> max (active_count s k) (lane_limit t k))"

lemma counts_frame [simp]:
  "active_count (s\<lparr>cq_log := x\<rparr>) = active_count s" "lane_limit (s\<lparr>cq_log := x\<rparr>) = lane_limit s"
  "active_count (s\<lparr>cq_nextPromise := n\<rparr>) = active_count s" "lane_limit (s\<lparr>cq_nextPromise := n\<rparr>) = lane_limit s"
  "active_count (s\<lparr>cq_waiters := ws\<rparr>) = active_count s" "lane_limit (s\<lparr>cq_waiters := ws\<rparr>) = lane_limit s"
  "active_count (s\<lparr>cq_runs := rs\<rparr>) = active_count s" "lane_limit (s\<lparr>cq_runs := rs\<rparr>) = lane_limit s"
  "active_count (s\<lparr>cq_gatewayDraining := b\<rparr>) = active_count s"
  "lane_limit (s\<lparr>cq_gatewayDraining := b\<rparr>) = lane_limit s"
  "active_count (notifyActiveTaskWaiters s) = active_count s"
  "lane_limit (notifyActiveTaskWaiters s) = lane_limit s"
  "active_count (put_lane k l s) = (active_count s)(k := int (length (ls_active l)))"
  "lane_limit (put_lane k l s) = (lane_limit s)(k := ls_maxConcurrent l)"
  by (auto simp: active_count_def lane_limit_def fun_eq_iff)

lemma pump_counts:
  "lane_limit (pump now k l s) = (lane_limit s)(k := ls_maxConcurrent l)"
  "active_count (pump now k l s) k' \<le>
     (if k' = k then max (int (length (ls_active l))) (ls_maxConcurrent l) else active_count s k')"
proof -
  obtain q act rs fx where
    res: "pump_result k (ls_maxConcurrent l) (ls_generation l) (ls_queue l) (ls_active l)
       (cq_nextTaskId s) q act rs"
    and eq: "pump now k l s = put_lane k (l\<lparr>ls_queue := q, ls_active := act, ls_draining := False\<rparr>)
       (s\<lparr>cq_nextTaskId := cq_nextTaskId s + length rs, cq_runs := cq_runs s @ rs,
          cq_log := cq_log s @ fx\<rparr>)"
    by (rule pumpE)
  from res have le: "int (length act) \<le> max (int (length (ls_active l))) (ls_maxConcurrent l)"
    unfolding pump_result_def by blast
  have frame: "active_count (s\<lparr>cq_nextTaskId := n, cq_runs := rs, cq_log := x\<rparr>) = active_count s"
      "lane_limit (s\<lparr>cq_nextTaskId := n, cq_runs := rs, cq_log := x\<rparr>) = lane_limit s" for n rs x
    by (simp_all add: active_count_def lane_limit_def fun_eq_iff)
  show "lane_limit (pump now k l s) = (lane_limit s)(k := ls_maxConcurrent l)"
    unfolding eq by (simp add: frame del: counts_frame(2))
  show "active_count (pump now k l s) k' \<le>
     (if k' = k then max (int (length (ls_active l))) (ls_maxConcurrent l) else active_count s k')"
    unfolding eq using le by (simp add: frame del: counts_frame(1))
qed

lemma getLaneState_counts:
  "getLaneState k s = (l, t) \<Longrightarrow> active_count t = active_count s \<and> lane_limit t = lane_limit s \<and>
     int (length (ls_active l)) = active_count s k \<and> ls_maxConcurrent l = lane_limit s k"
  by (auto simp: getLaneState_def active_count_def lane_limit_def new_lane_def fun_eq_iff split: option.splits if_splits)

lemma drain_counts:
  "lane_limit (drainLane now k s) = lane_limit s"
  "active_count (drainLane now k s) k' \<le> max (active_count s k') (lane_limit s k')"
proof -
  obtain l t where lt: "getLaneState k s = (l, t)" by (cases "getLaneState k s")
  note gl = getLaneState_counts [OF lt]
  have upd: "(lane_limit s)(k := ls_maxConcurrent l) = lane_limit s"
    using gl by (simp add: fun_upd_idem_iff)
  show "lane_limit (drainLane now k s) = lane_limit s"
    using gl upd pump_counts(1) [of now k "l\<lparr>ls_draining := True\<rparr>" t]
    by (simp add: drainLane_def lt)
  show "active_count (drainLane now k s) k' \<le> max (active_count s k') (lane_limit s k')"
    using gl pump_counts(2) [of now k "l\<lparr>ls_draining := True\<rparr>" t k']
    by (auto simp: drainLane_def lt split: if_splits)
qed

lemma fold_drain_counts:
  "lane_limit (fold (drainLane now) ks s) = lane_limit s \<and>
   (\<forall>k. active_count (fold (drainLane now) ks s) k \<le> max (active_count s k) (lane_limit s k))"
proof (induction ks arbitrary: s)
  case (Cons k ks)
  show ?case
    using Cons.IH [of "drainLane now k s"] drain_counts [where now = now and k = k and s = s]
    by (auto simp: le_max_iff_disj) (metis le_max_iff_disj order_trans)
qed auto

lemma step_within_limits:
  assumes "cq_wf s" "cq_enabled s e"
  shows "within_limits s (cq_step s e)"
proof (cases e)
  case (Enqueue now lane warn onWait)
  let ?k = "normalizeLane lane" and ?s1 = "s\<lparr>cq_nextPromise := Suc (cq_nextPromise s)\<rparr>"
  obtain l t where lt: "getLaneState ?k ?s1 = (l, t)" by (cases "getLaneState ?k ?s1")
  note gl = getLaneState_counts [OF lt]
  have same: "active_count (put_lane ?k (l\<lparr>ls_queue := q\<rparr>) (t\<lparr>cq_log := x\<rparr>)) = active_count s"
    "lane_limit (put_lane ?k (l\<lparr>ls_queue := q\<rparr>) (t\<lparr>cq_log := x\<rparr>)) = lane_limit s" for q x
    using gl by (simp_all add: fun_upd_idem_iff)
  show ?thesis
    using lt by (simp add: Enqueue enqueueCommandInLane_def Let_def within_limits_def)
      (metis drain_counts same)
next
  case (SetConcurrency now lane n)
  let ?k = "normalizeLane lane"
  obtain l t where lt: "getLaneState ?k s = (l, t)" by (cases "getLaneState ?k s")
  note gl = getLaneState_counts [OF lt]
  have same: "active_count (put_lane ?k (l\<lparr>ls_maxConcurrent := m\<rparr>) t) = active_count s" for m
    using gl by (simp add: fun_upd_idem_iff)
  show ?thesis
    using lt by (simp add: SetConcurrency setCommandLaneConcurrency_def Let_def within_limits_def)
      (metis drain_counts same)
next
  case (ClearLane lane)
  then show ?thesis
    by (auto simp: within_limits_def clearCommandLane_def Let_def active_count_def lane_limit_def
        split: option.splits)
next
  case MarkDraining
  then show ?thesis by (simp add: within_limits_def markGatewayDraining_def)
next
  case (ResetAll now)
  let ?s1 = "s\<lparr>cq_gatewayDraining := False,
                 cq_lanes := map (\<lambda>(k, l). (k, reset_lane l)) (cq_lanes s)\<rparr>"
  have "active_count ?s1 k \<le> active_count s k" for k
    by (simp add: active_count_def jm_get_map reset_lane_def split: option.splits)
  with fold_drain_counts [of now _ ?s1] show ?thesis
    by (simp add: ResetAll resetAllLanes_def Let_def within_limits_def)
      (meson le_max_iff_disj order_trans)
next
  case (WaitActive timeoutMs)
  then show ?thesis by (simp add: within_limits_def waitForActiveTasks_def Let_def)
next
  case (WaitTimeout w)
  then show ?thesis by (simp add: within_limits_def waiterTimeout_def)
next
  case (Settle now r ok)
  let ?k = "rn_lane r"
  from assms Settle obtain l where l: "jm_get (cq_lanes s) ?k = Some l" by (auto simp: cq_wf_def)
  obtain c l' where cl: "completeTask l (rn_taskId r) (rn_gen r) = (c, l')"
    by (cases "completeTask l (rn_taskId r) (rn_gen r)")
  have gl: "getLaneState ?k (s\<lparr>cq_runs := rs\<rparr>) = (l, s\<lparr>cq_runs := rs\<rparr>)" for rs
    using l by (simp add: getLaneState_def)
  have le: "int (length (ls_active l')) \<le> active_count s ?k"
    using cl l by (auto simp: completeTask_def active_count_def split: if_splits)
  have "active_count (pump now ?k l' u) k \<le> max (active_count s k) (lane_limit (pump now ?k l' u) k)"
    if u: "active_count u = (active_count s)(?k := int (length (ls_active l')))" for u k
  proof (cases "k = ?k")
    case True
    then show ?thesis using pump_counts(2) [of now ?k l' u k] le by (simp add: pump_counts(1))
  next
    case False
    then show ?thesis using pump_counts(2) [of now ?k l' u k] u by (simp add: le_max_iff_disj)
  qed
  then show ?thesis
    by (simp add: Settle within_limits_def settleTask_def Let_def gl cl)
qed

section \<open>Properties\<close>

text \<open>A sample run: a full lane with a second entry waiting behind it.\<close>

definition sample_events :: "cq_event list" where
  "sample_events = [Enqueue 0 ''main'' None False, Enqueue 5 '' main '' None True, WaitActive 100]"

definition sample_state :: cq where
  "sample_state = foldl cq_step cq_init sample_events"

lemma sample_state_eq:
  "sample_state = \<lparr>cq_gatewayDraining = False,
     cq_lanes = [(''main'', \<lparr>ls_lane = ''main'',
       ls_queue = [\<lparr>en_id = 1, en_enqueuedAt = 5, en_warnAfterMs = 2000, en_onWait = True\<rparr>],
       ls_active = [1], ls_maxConcurrent = 1, ls_draining = False, ls_generation = 0\<rparr>)],
     cq_waiters = [\<lparr>aw_id = 2, aw_ids = [1]\<rparr>], cq_nextTaskId = 2,
     cq_runs = [\<lparr>rn_lane = ''main'',
       rn_entry = \<lparr>en_id = 0, en_enqueuedAt = 0, en_warnAfterMs = 2000, en_onWait = False\<rparr>,
       rn_taskId = 1, rn_gen = 0\<rparr>],
     cq_nextPromise = 3,
     cq_log = [Accepted 0 ''main'', TaskStarted 0 1 ''main'', Accepted 1 ''main'']\<rparr>"
  by code_simp

lemma sample_reachable: "cq_reachable sample_state"
  unfolding sample_state_def by (rule reach_from_init) (simp add: sample_events_def)

text \<open>C1: in every reachable state and every lane, the promises accepted by
  \<open>enqueueCommandInLane\<close>, in order, are exactly those already dispatched (started by the pump,
  or rejected by \<open>clearCommandLane\<close>) followed by those still queued: dispatch is first-in
  first-out, and no accepted command is skipped, dispatched twice or reordered.\<close>

theorem command_queue_fifo:
  assumes "cq_reachable s"
  shows "logged (accepted_in k) (cq_log s) = logged (dispatched_in k) (cq_log s) @ queue_of s k"
  using reachable_invD [OF assms] by (simp add: log_inv_def log_ok_def)

theorem command_queue_fifo_witness:
  "logged (accepted_in ''main'') (cq_log sample_state) =
     logged (dispatched_in ''main'') (cq_log sample_state) @ queue_of sample_state ''main'' \<and>
   queue_of sample_state ''main'' = [1]"
  using command_queue_fifo [OF sample_reachable, of "''main''"]
  by (simp add: sample_state_eq queue_of_def)

text \<open>C2: in every reachable state and lane the accepted promises are pairwise distinct and are
  partitioned, as multisets, into queued, running, settled (the caller's promise was resolved or
  rejected) and cleared ones: no command is lost and none settles its caller's promise twice,
  whatever the interleaving of enqueues, completions, clears, resets and concurrency changes.\<close>

theorem command_queue_conserves_entries:
  assumes "cq_reachable s"
  shows "distinct (logged (accepted_in k) (cq_log s)) \<and>
     mset (logged (accepted_in k) (cq_log s)) =
       mset (queue_of s k) + mset (running_in (cq_runs s) k) +
       mset (logged (settled_in k) (cq_log s)) + mset (logged (cleared_in k) (cq_log s))"
proof -
  have disp: "mset (logged (dispatched_in k) lg) = mset (logged (started_in k) lg) + mset (logged (cleared_in k) lg)" for lg
    by (induction lg) (simp_all add: dispatched_in_def)
  have inv: "log_inv (\<lambda>_. {#}) s" using reachable_invD [OF assms] by simp
  then have "mset (logged (accepted_in k) (cq_log s)) =
      mset (logged (dispatched_in k) (cq_log s)) + mset (queue_of s k)"
    and "mset (logged (started_in k) (cq_log s)) =
      mset (running_in (cq_runs s) k) + mset (logged (settled_in k) (cq_log s))"
    by (auto simp: log_inv_def log_ok_def simp flip: mset_append)
  with inv disp [of "cq_log s"] show ?thesis
    unfolding log_inv_def ids_fresh_def by (simp add: ac_simps)
qed

theorem command_queue_conserves_entries_witness:
  "distinct (logged (accepted_in ''main'') (cq_log sample_state)) \<and>
   mset (logged (accepted_in ''main'') (cq_log sample_state)) = {#0, 1#} \<and>
   running_in (cq_runs sample_state) ''main'' = [0]"
  using command_queue_conserves_entries [OF sample_reachable, of "''main''"]
  by (simp add: sample_state_eq queue_of_def running_in_def)

text \<open>C3: in every reachable state a lane with queued work is full (no idle lane starves its
  queue, so no wake-up is lost after completions, resets or concurrency changes), no pump is left
  marked as draining, and the active ids of the lane are exactly the tasks in flight that were
  started in the lane's current generation.\<close>

theorem command_queue_work_conserving:
  assumes "cq_reachable s" "jm_get (cq_lanes s) k = Some l"
  shows "(ls_queue l \<noteq> [] \<longrightarrow> ls_maxConcurrent l \<le> int (length (ls_active l))) \<and>
     1 \<le> ls_maxConcurrent l \<and> \<not> ls_draining l \<and> distinct (ls_active l) \<and>
     set (ls_active l) = lane_runs (cq_runs s) k (ls_generation l)"
  using reachable_invD [OF assms(1)] assms(2)
  by (simp add: cq_wf_def lanes_settled_def lane_saturated_def lane_ok_def)

theorem command_queue_work_conserving_witness:
  "\<exists>l. jm_get (cq_lanes sample_state) ''main'' = Some l \<and> ls_queue l \<noteq> [] \<and>
     ls_maxConcurrent l \<le> int (length (ls_active l))"
proof -
  obtain l where l: "jm_get (cq_lanes sample_state) ''main'' = Some l" "ls_queue l \<noteq> []"
    by (simp add: sample_state_eq)
  from command_queue_work_conserving [OF sample_reachable l(1)] l show ?thesis by blast
qed

text \<open>C4: no transition of a reachable state takes the number of active tasks of a lane above
  its concurrency limit: after any event it is at most the limit, or at most what it was before
  (a lowered limit never kills running tasks).\<close>

theorem command_queue_concurrency_bound:
  assumes "cq_reachable s" "cq_enabled s e"
  shows "active_count (cq_step s e) k \<le> max (active_count s k) (lane_limit (cq_step s e) k)"
  using step_within_limits [OF _ assms(2)] reachable_invD [OF assms(1)]
  by (simp add: within_limits_def)

theorem command_queue_concurrency_bound_witness:
  "active_count (cq_step sample_state (SetConcurrency 9 ''main'' (5/2))) ''main'' \<le> 2 \<and>
   lane_limit (cq_step sample_state (SetConcurrency 9 ''main'' (5/2))) ''main'' = 2"
proof -
  have "lane_limit (cq_step sample_state (SetConcurrency 9 ''main'' (5/2))) ''main'' = 2"
    and "active_count sample_state ''main'' = 1"
    by (simp_all only: sample_state_eq) code_simp+
  with command_queue_concurrency_bound [OF sample_reachable, of "SetConcurrency 9 ''main'' (5/2)" "''main''"]
  show ?thesis by simp
qed

text \<open>a task started before \<open>resetAllLanes\<close> (its generation is not the lane's) that
  completes afterwards is ignored by the queue: lanes, waiters, counters and queued work are
  unchanged, and only its caller's promise is settled.\<close>

theorem command_queue_stale_completion:
  assumes "jm_get (cq_lanes s) (rn_lane r) = Some l" "rn_gen r \<noteq> ls_generation l"
  shows "settleTask now r ok s = s\<lparr>cq_runs := remove1 r (cq_runs s), cq_log := cq_log s @
     [if ok then EntryResolved (en_id (rn_entry r)) (rn_lane r)
      else EntryRejected (en_id (rn_entry r)) (rn_lane r)]\<rparr>"
  using assms by (simp add: settleTask_def getLaneState_def completeTask_def)

theorem command_queue_stale_completion_witness:
  "let s = resetAllLanes 9 sample_state; r = hd (cq_runs s) in
     cq_lanes (settleTask 10 r True s) = cq_lanes s \<and> cq_waiters (settleTask 10 r True s) = []"
proof -
  let ?s = "resetAllLanes 9 sample_state" and ?r = "hd (cq_runs (resetAllLanes 9 sample_state))"
  have "jm_get (cq_lanes ?s) (rn_lane ?r) \<noteq> None"
    "rn_gen ?r \<noteq> ls_generation (the (jm_get (cq_lanes ?s) (rn_lane ?r)))" "cq_waiters ?s = []"
    by (simp_all only: sample_state_eq) code_simp+
  with command_queue_stale_completion [of ?s ?r _ 10 True] show ?thesis by (auto simp: Let_def)
qed

text \<open>In every reachable state each caller still pending in \<open>waitForActiveTasks\<close> waits
  for a task that is really active in some lane: no waiter is forgotten once the tasks it waits
  for have completed, been reset or never existed.\<close>

theorem command_queue_waiters_have_work:
  assumes "cq_reachable s" "w \<in> set (cq_waiters s)"
  shows "\<exists>k l t. jm_get (cq_lanes s) k = Some l \<and> t \<in> set (ls_active l) \<and> t \<in> set (aw_ids w)"
proof -
  from reachable_invD [OF assms(1)] assms(2) have "\<not> resolvable s w" "jm_ok (cq_lanes s)"
    by (simp_all add: waiters_wait_def cq_wf_def)
  then show ?thesis by (auto simp: resolvable_def hasPendingActiveTasks_iff)
qed

theorem command_queue_waiters_have_work_witness:
  "\<exists>k l t. jm_get (cq_lanes sample_state) k = Some l \<and> t \<in> set (ls_active l) \<and> t \<in> set [1]"
  using command_queue_waiters_have_work [OF sample_reachable, of "\<lparr>aw_id = 2, aw_ids = [1]\<rparr>"]
  by (simp add: sample_state_eq)

end
