(* ===== verification/AgentRuns.thy ===== *)
theory AgentRuns
  imports CommandQueue
begin

text \<open>
  The clients of the command queue: an agent run takes its session lane and then a global lane
  (\<open>src/agents/pi-embedded-runner/run.ts\<close>, \<open>compact.ts\<close>, \<open>lanes.ts\<close>, \<open>src/agents/lanes.ts\<close>), and a manual
  cron run takes the cron lane and then the lanes of the agent runs it makes (\<open>src/cron/service/ops.ts\<close>).
  The gateway sets the limits of the global lanes (\<open>src/gateway/server-lanes.ts\<close>, \<open>src/config/agent-limits.ts\<close>).
  A task of the queue is here a script of the commands it enqueues and awaits one after the other; what a task does
  otherwise is opaque, it may fail at any point, and every interleaving of the tasks is an event sequence. The
  lookup of a session key for a session id is a parameter.
\<close>

section \<open>Lanes\<close>

definition resolveSessionLane :: "string \<Rightarrow> string" where
  "resolveSessionLane key =
     (let cleaned = js_or (js_trim key) lane_main in
      if js_starts_with cleaned ''session:'' then cleaned else ''session:'' @ cleaned)"

definition resolveGlobalLane :: "string option \<Rightarrow> string" where
  "resolveGlobalLane lane =
     (let cleaned = js_nullish (map_option js_trim lane) [] in
      if cleaned = ''cron'' then ''nested'' else if cleaned \<noteq> [] then cleaned else lane_main)"

definition resolveNestedAgentLane :: "string option \<Rightarrow> string" where
  "resolveNestedAgentLane lane =
     (let trimmed = js_nullish (map_option js_trim lane) [] in
      if trimmed = [] \<or> trimmed = ''cron'' then ''nested'' else trimmed)"

definition backfillSessionKey :: "(string \<Rightarrow> string option) \<Rightarrow> string \<Rightarrow> string option \<Rightarrow> string option" where
  "backfillSessionKey lookup sessionId sessionKey = (case normalizeOptionalString sessionKey of
       Some trimmed \<Rightarrow> Some trimmed
     | None \<Rightarrow> if sessionId = [] then None else normalizeOptionalString (lookup sessionId))"

definition sessionLaneOf :: "string option \<Rightarrow> string \<Rightarrow> string" where
  "sessionLaneOf sessionKey sessionId = resolveSessionLane (js_or (js_trim (js_nullish sessionKey [])) sessionId)"

section \<open>Limits\<close>

definition DEFAULT_AGENT_MAX_CONCURRENT :: int where "DEFAULT_AGENT_MAX_CONCURRENT = 4"
definition DEFAULT_SUBAGENT_MAX_CONCURRENT :: int where "DEFAULT_SUBAGENT_MAX_CONCURRENT = 8"

definition resolveAgentMaxConcurrent :: "rat option \<Rightarrow> int" where
  "resolveAgentMaxConcurrent raw = (case raw of Some n \<Rightarrow> max 1 \<lfloor>n\<rfloor> | None \<Rightarrow> DEFAULT_AGENT_MAX_CONCURRENT)"

definition resolveSubagentMaxConcurrent :: "rat option \<Rightarrow> int" where
  "resolveSubagentMaxConcurrent raw = (case raw of Some n \<Rightarrow> max 1 \<lfloor>n\<rfloor> | None \<Rightarrow> DEFAULT_SUBAGENT_MAX_CONCURRENT)"

definition applyGatewayLaneConcurrency :: "int \<Rightarrow> rat option \<Rightarrow> rat option \<Rightarrow> rat option \<Rightarrow> cq \<Rightarrow> cq" where
  "applyGatewayLaneConcurrency now cronRuns agents subagents s =
     setCommandLaneConcurrency now ''subagent'' (of_int (resolveSubagentMaxConcurrent subagents))
       (setCommandLaneConcurrency now lane_main (of_int (resolveAgentMaxConcurrent agents))
         (setCommandLaneConcurrency now ''cron'' (js_nullish cronRuns 1) s))"

section \<open>Tasks\<close>

text \<open>\<open>Await lane body rest\<close>: enqueue \<open>body\<close> in \<open>lane\<close>, wait for it, go on with \<open>rest\<close>.\<close>

datatype task_body = Done | Await string task_body task_body

record task =
  tk_rest :: task_body
  tk_await :: "nat option"

record runs =
  ar_cq :: cq
  ar_tasks :: "(nat, task) jsmap"

definition runs_init :: runs where
  "runs_init = \<lparr>ar_cq = cq_init, ar_tasks = []\<rparr>"

record agent_request =
  rq_sessionKey :: "string option"
  rq_sessionId :: string
  rq_lane :: "string option"

definition submit :: "int \<Rightarrow> string \<Rightarrow> int option \<Rightarrow> bool \<Rightarrow> task_body \<Rightarrow> runs \<Rightarrow> runs" where
  "submit now lane warnAfterMs onWait body s =
     s\<lparr>ar_cq := enqueueCommandInLane now lane warnAfterMs onWait (ar_cq s),
       ar_tasks := jm_set (cq_nextPromise (ar_cq s)) \<lparr>tk_rest = body, tk_await = None\<rparr> (ar_tasks s)\<rparr>"

text \<open>The task in the session lane enqueues the run itself in the global lane.\<close>

definition agent_body :: "agent_request \<Rightarrow> task_body" where
  "agent_body rq = Await (resolveGlobalLane (rq_lane rq)) Done Done"

definition runEmbeddedPiAgent :: "(string \<Rightarrow> string option) \<Rightarrow> int \<Rightarrow> agent_request \<Rightarrow> runs \<Rightarrow> runs" where
  "runEmbeddedPiAgent lookup now rq s =
     submit now (sessionLaneOf (backfillSessionKey lookup (rq_sessionId rq) (rq_sessionKey rq)) (rq_sessionId rq))
       None False (agent_body rq) s"

definition compactEmbeddedPiSession :: "int \<Rightarrow> agent_request \<Rightarrow> runs \<Rightarrow> runs" where
  "compactEmbeddedPiSession now rq s =
     submit now (sessionLaneOf (rq_sessionKey rq) (rq_sessionId rq)) None False (agent_body rq) s"

text \<open>A manual cron run that makes the given agent runs; a retry makes another one.\<close>

fun cron_body :: "(string \<Rightarrow> string option) \<Rightarrow> agent_request list \<Rightarrow> task_body" where
  "cron_body lookup [] = Done"
| "cron_body lookup (rq # rqs) =
     Await (sessionLaneOf (backfillSessionKey lookup (rq_sessionId rq) (rq_sessionKey rq)) (rq_sessionId rq))
       (agent_body (rq\<lparr>rq_lane := Some (resolveNestedAgentLane (rq_lane rq))\<rparr>)) (cron_body lookup rqs)"

definition enqueueRun :: "(string \<Rightarrow> string option) \<Rightarrow> int \<Rightarrow> agent_request list \<Rightarrow> runs \<Rightarrow> runs" where
  "enqueueRun lookup now rqs s = submit now ''cron'' (Some 5000) True (cron_body lookup rqs) s"

text \<open>Whether the promise of a command is settled.\<close>

fun settles :: "nat \<Rightarrow> effect \<Rightarrow> bool" where
  "settles p (EntryResolved q _) \<longleftrightarrow> q = p"
| "settles p (EntryRejected q _) \<longleftrightarrow> q = p"
| "settles p (LaneCleared q _) \<longleftrightarrow> q = p"
| "settles p (DrainingRejected q) \<longleftrightarrow> q = p"
| "settles p _ \<longleftrightarrow> False"

definition settled :: "cq \<Rightarrow> nat \<Rightarrow> bool" where
  "settled c p \<longleftrightarrow> list_ex (settles p) (cq_log c)"

definition run_task :: "runs \<Rightarrow> run \<Rightarrow> task option" where
  "run_task s r = jm_get (ar_tasks s) (en_id (rn_entry r))"

text \<open>A run can go on when it awaits nothing that is still open.\<close>

definition can_proceed :: "runs \<Rightarrow> run \<Rightarrow> bool" where
  "can_proceed s r = (case run_task s r of
       None \<Rightarrow> False
     | Some t \<Rightarrow> (case tk_await t of None \<Rightarrow> True | Some p \<Rightarrow> settled (ar_cq s) p))"

definition callInner :: "int \<Rightarrow> run \<Rightarrow> runs \<Rightarrow> runs" where
  "callInner now r s = (case run_task s r of
       Some t \<Rightarrow> (case tk_rest t of
           Await lane body rest \<Rightarrow>
             submit now lane None False body
               (s\<lparr>ar_tasks := jm_set (en_id (rn_entry r)) \<lparr>tk_rest = rest, tk_await = Some (cq_nextPromise (ar_cq s))\<rparr> (ar_tasks s)\<rparr>)
         | Done \<Rightarrow> s)
     | None \<Rightarrow> s)"

section \<open>The machine\<close>

datatype runs_event =
    AgentRun int agent_request
  | CompactRun int agent_request
  | ManualCronRun int "agent_request list"
  | CallInner int run
  | FinishRun int run bool
  | ConfigureLanes int "rat option" "rat option" "rat option"
  | ControlQueue cq_event

fun runs_step :: "(string \<Rightarrow> string option) \<Rightarrow> runs \<Rightarrow> runs_event \<Rightarrow> runs" where
  "runs_step lookup s (AgentRun now rq) = runEmbeddedPiAgent lookup now rq s"
| "runs_step lookup s (CompactRun now rq) = compactEmbeddedPiSession now rq s"
| "runs_step lookup s (ManualCronRun now rqs) = enqueueRun lookup now rqs s"
| "runs_step lookup s (CallInner now r) = callInner now r s"
| "runs_step lookup s (FinishRun now r ok) = s\<lparr>ar_cq := settleTask now r ok (ar_cq s)\<rparr>"
| "runs_step lookup s (ConfigureLanes now a b c) = s\<lparr>ar_cq := applyGatewayLaneConcurrency now a b c (ar_cq s)\<rparr>"
| "runs_step lookup s (ControlQueue e) = s\<lparr>ar_cq := cq_step (ar_cq s) e\<rparr>"

text \<open>The other operations of the queue.\<close>

fun is_control :: "cq_event \<Rightarrow> bool" where
  "is_control (ClearLane _) \<longleftrightarrow> True"
| "is_control MarkDraining \<longleftrightarrow> True"
| "is_control (ResetAll _) \<longleftrightarrow> True"
| "is_control (WaitActive _) \<longleftrightarrow> True"
| "is_control (WaitTimeout _) \<longleftrightarrow> True"
| "is_control _ \<longleftrightarrow> False"

fun runs_enabled :: "runs \<Rightarrow> runs_event \<Rightarrow> bool" where
  "runs_enabled s (AgentRun now rq) \<longleftrightarrow> True"
| "runs_enabled s (CompactRun now rq) \<longleftrightarrow> True"
| "runs_enabled s (ManualCronRun now rqs) \<longleftrightarrow> True"
| "runs_enabled s (CallInner now r) \<longleftrightarrow> r \<in> set (cq_runs (ar_cq s)) \<and> can_proceed s r \<and>
     (case run_task s r of Some t \<Rightarrow> tk_rest t \<noteq> Done | None \<Rightarrow> False)"
| "runs_enabled s (FinishRun now r ok) \<longleftrightarrow> r \<in> set (cq_runs (ar_cq s)) \<and> can_proceed s r \<and>
     (\<not> ok \<or> (case run_task s r of Some t \<Rightarrow> tk_rest t = Done | None \<Rightarrow> False))"
| "runs_enabled s (ConfigureLanes _ _ _ _) \<longleftrightarrow> True"
| "runs_enabled s (ControlQueue e) \<longleftrightarrow> is_control e"

text \<open>The global lane that a request names is not a session lane. The code does not ask for this: the lane of a request
  is any string. Where a statement needs it, it speaks of the events with lanes apart.\<close>

definition lane_free :: "agent_request \<Rightarrow> bool" where
  "lane_free rq \<longleftrightarrow> \<not> js_starts_with (js_trim (js_nullish (rq_lane rq) [])) ''session:''"

fun event_free :: "runs_event \<Rightarrow> bool" where
  "event_free (AgentRun _ rq) \<longleftrightarrow> lane_free rq"
| "event_free (CompactRun _ rq) \<longleftrightarrow> lane_free rq"
| "event_free (ManualCronRun _ rqs) \<longleftrightarrow> list_all lane_free rqs"
| "event_free _ \<longleftrightarrow> True"

definition runs_enabled_apart :: "runs \<Rightarrow> runs_event \<Rightarrow> bool" where
  "runs_enabled_apart s e \<longleftrightarrow> runs_enabled s e \<and> event_free e"

section \<open>How the log of the queue grows\<close>

definition grows :: "cq \<Rightarrow> cq \<Rightarrow> bool" where
  "grows s t \<longleftrightarrow> cq_nextPromise s \<le> cq_nextPromise t \<and>
     (\<exists>fx. cq_log t = cq_log s @ fx \<and> (\<forall>k. logged (accepted_in k) fx = []) \<and> (\<forall>p. DrainingRejected p \<notin> set fx))"

lemma grows_refl [simp]: "grows s s"
  by (simp add: grows_def)

lemma grows_trans: "grows s t \<Longrightarrow> grows t u \<Longrightarrow> grows s u"
  by (fastforce simp: grows_def)

lemma grows_append: "cq_nextPromise s \<le> cq_nextPromise t \<Longrightarrow> cq_log t = cq_log s @ fx \<Longrightarrow>
    (\<And>k. logged (accepted_in k) fx = []) \<Longrightarrow> (\<And>p. DrainingRejected p \<notin> set fx) \<Longrightarrow> grows s t"
  by (auto simp: grows_def)

lemma grows_accepted: "grows s t \<Longrightarrow> logged (accepted_in k) (cq_log t) = logged (accepted_in k) (cq_log s)"
  by (auto simp: grows_def)

lemma grows_log: "grows s t \<Longrightarrow> set (cq_log s) \<subseteq> set (cq_log t)"
  by (auto simp: grows_def)

lemma pump_loop_rejects:
  "pump_loop now lane mc gen q act nid = (q', act', rs, fx) \<Longrightarrow> DrainingRejected p \<notin> set fx"
proof (induction q arbitrary: act nid q' act' rs fx)
  case (Cons e q)
  obtain q1 act1 rs1 fx1
    where rec: "pump_loop now lane mc gen q (act @ [nid]) (Suc nid) = (q1, act1, rs1, fx1)"
    by (metis prod.collapse)
  from Cons.prems Cons.IH [OF rec] show ?case
    by (auto simp: Let_def rec split: if_splits)
qed simp

lemma grows_rejected: "grows s t \<Longrightarrow> DrainingRejected p \<in> set (cq_log t) \<longleftrightarrow> DrainingRejected p \<in> set (cq_log s)"
  by (auto simp: grows_def)

lemma pump_grows: "grows s (pump now k l s)"
proof -
  obtain q act rs fx where
    run: "pump_loop now k (ls_maxConcurrent l) (ls_generation l) (ls_queue l) (ls_active l) (cq_nextTaskId s) = (q, act, rs, fx)"
    and eq: "pump now k l s = put_lane k (l\<lparr>ls_queue := q, ls_active := act, ls_draining := False\<rparr>)
       (s\<lparr>cq_nextTaskId := cq_nextTaskId s + length rs, cq_runs := cq_runs s @ rs, cq_log := cq_log s @ fx\<rparr>)"
    by (rule pumpE)
  show ?thesis
    unfolding eq using pump_loop_log [OF run] pump_loop_rejects [OF run] by (auto simp: grows_def)
qed

lemma getLaneState_grows: "getLaneState k s = (l, t) \<Longrightarrow> grows s t"
  using getLaneState_props [of k s l t] by (simp add: grows_def)

lemma put_lane_grows: "grows s (put_lane k l s)"
  by (simp add: grows_def)

lemma drainLane_grows: "grows s (drainLane now k s)"
proof -
  obtain l t where lt: "getLaneState k s = (l, t)" by (cases "getLaneState k s")
  show ?thesis
    using getLaneState_grows [OF lt] pump_grows [of t now k "l\<lparr>ls_draining := True\<rparr>"]
    by (simp add: drainLane_def lt grows_trans)
qed

lemma fold_drain_grows: "grows s (fold (drainLane now) ks s)"
  by (induction ks arbitrary: s) (auto intro: grows_trans [OF drainLane_grows])

lemma notify_grows: "grows s (notifyActiveTaskWaiters s)"
proof -
  have "logged (accepted_in k) (map (\<lambda>w. WaiterResolved (aw_id w) True) ws) = []" for k ws
    by (induction ws) simp_all
  then show ?thesis
    by (auto simp: grows_def notifyActiveTaskWaiters_def)
qed

lemma setConcurrency_grows: "grows s (setCommandLaneConcurrency now lane n s)"
proof -
  obtain l t where lt: "getLaneState (normalizeLane lane) s = (l, t)" by (cases "getLaneState (normalizeLane lane) s")
  show ?thesis
    by (simp add: setCommandLaneConcurrency_def lt Let_def)
      (rule grows_trans [OF getLaneState_grows [OF lt] grows_trans [OF put_lane_grows drainLane_grows]])
qed

lemma settleTask_grows: "grows s (settleTask now r ok s)"
proof -
  let ?s = "s\<lparr>cq_runs := remove1 r (cq_runs s)\<rparr>"
  obtain l t where lt: "getLaneState (rn_lane r) ?s = (l, t)" by (cases "getLaneState (rn_lane r) ?s")
  obtain c l' where cl: "completeTask l (rn_taskId r) (rn_gen r) = (c, l')"
    by (cases "completeTask l (rn_taskId r) (rn_gen r)")
  have "grows s ?s" by (simp add: grows_def)
  then have st: "grows s t" using getLaneState_grows [OF lt] by (rule grows_trans)
  have "grows t (if c then pump now (rn_lane r) l' (notifyActiveTaskWaiters (put_lane (rn_lane r) l' t)) else t)"
    by (auto intro: grows_trans [OF put_lane_grows grows_trans [OF notify_grows pump_grows]])
  from grows_trans [OF st this] show ?thesis
    by (rule grows_trans) (auto simp: settleTask_def lt cl Let_def intro!: grows_append [where fx = "[x]" for x])
qed

lemma control_grows: "is_control e \<Longrightarrow> grows s (cq_step s e)"
proof (cases e)
  case (ClearLane lane)
  show ?thesis
  proof (cases "jm_get (cq_lanes s) (normalizeLane lane)")
    case (Some l)
    show ?thesis
      by (simp add: ClearLane Some clearCommandLane_def Let_def)
        (rule grows_append [where fx = "map (\<lambda>e. LaneCleared (en_id e) (normalizeLane lane)) (ls_queue l)"], auto)
  qed (simp add: ClearLane clearCommandLane_def Let_def)
next
  case MarkDraining
  then show ?thesis by (simp add: grows_def markGatewayDraining_def)
next
  case (ResetAll now)
  show ?thesis
    by (simp add: ResetAll resetAllLanes_def Let_def)
      (rule grows_trans [OF _ grows_trans [OF fold_drain_grows notify_grows]], simp add: grows_def)
next
  case (WaitActive timeoutMs)
  have "grows s (notifyActiveTaskWaiters (s\<lparr>cq_nextPromise := Suc n, cq_waiters := ws\<rparr>))" if "n = cq_nextPromise s" for n ws
    by (rule grows_trans [OF _ notify_grows]) (simp add: grows_def that)
  then show ?thesis
    by (auto simp: WaitActive waitForActiveTasks_def Let_def grows_def)
next
  case (WaitTimeout w)
  then show ?thesis by (auto simp: waiterTimeout_def grows_def)
qed simp_all

lemma enqueue_grows:
  "if cq_gatewayDraining s
   then cq_log (enqueueCommandInLane now lane warn onWait s) = cq_log s @ [DrainingRejected (cq_nextPromise s)] \<and>
     cq_nextPromise (enqueueCommandInLane now lane warn onWait s) = Suc (cq_nextPromise s)
   else grows (s\<lparr>cq_nextPromise := Suc (cq_nextPromise s), cq_log := cq_log s @ [Accepted (cq_nextPromise s) (normalizeLane lane)]\<rparr>)
     (enqueueCommandInLane now lane warn onWait s)"
proof (cases "cq_gatewayDraining s")
  case False
  let ?s1 = "s\<lparr>cq_nextPromise := Suc (cq_nextPromise s)\<rparr>"
  obtain l t where lt: "getLaneState (normalizeLane lane) ?s1 = (l, t)" by (cases "getLaneState (normalizeLane lane) ?s1")
  note t = getLaneState_props [OF lt]
  let ?l = "l\<lparr>ls_queue := ls_queue l @ [\<lparr>en_id = cq_nextPromise s, en_enqueuedAt = now, en_warnAfterMs = js_nullish warn 2000, en_onWait = onWait\<rparr>]\<rparr>"
  let ?t = "put_lane (normalizeLane lane) ?l (t\<lparr>cq_log := cq_log t @ [Accepted (cq_nextPromise s) (normalizeLane lane)]\<rparr>)"
  have "grows (s\<lparr>cq_nextPromise := Suc (cq_nextPromise s), cq_log := cq_log s @ [Accepted (cq_nextPromise s) (normalizeLane lane)]\<rparr>) ?t"
    using t by (simp add: grows_def)
  from grows_trans [OF this drainLane_grows [of ?t now "normalizeLane lane"]] False show ?thesis
    by (simp add: enqueueCommandInLane_def lt Let_def)
qed (simp add: enqueueCommandInLane_def Let_def)

section \<open>Lanes are taken in one order\<close>

text \<open>The cron lane before session lanes before all others.\<close>

definition lane_rank :: "string \<Rightarrow> nat" where
  "lane_rank k = (if k = ''cron'' then 2 else if js_starts_with k ''session:'' then 1 else 0)"

fun body_ok :: "nat \<Rightarrow> task_body \<Rightarrow> bool" where
  "body_ok n Done \<longleftrightarrow> True"
| "body_ok n (Await lane body rest) \<longleftrightarrow>
     lane_rank (normalizeLane lane) < n \<and> body_ok (lane_rank (normalizeLane lane)) body \<and> body_ok n rest"

lemma js_trim_prefix:
  assumes "pre \<noteq> []" "\<not> js_ws (hd pre)" "\<not> js_ws (last pre)"
  shows "\<exists>r. js_trim (pre @ rest) = pre @ r"
proof (cases "\<forall>x \<in> set rest. js_ws x")
  case True
  have "dropWhile js_ws (pre @ rest) = pre @ rest"
    using assms by (intro dropWhile_eq_self) simp
  moreover have "dropWhile js_ws (rev rest @ rev pre) = dropWhile js_ws (rev pre)"
    using True by (intro dropWhile_append2) simp
  moreover have "dropWhile js_ws (rev pre) = rev pre"
    using assms by (intro dropWhile_eq_self) (simp add: hd_rev)
  ultimately show ?thesis by (simp add: js_trim_def)
next
  case False
  have "dropWhile js_ws (pre @ rest) = pre @ rest"
    using assms by (intro dropWhile_eq_self) simp
  moreover obtain x where "x \<in> set (rev rest)" "\<not> js_ws x" using False by auto
  then have "dropWhile js_ws (rev rest @ rev pre) = dropWhile js_ws (rev rest) @ rev pre"
    by (rule dropWhile_append1)
  ultimately show ?thesis by (simp add: js_trim_def)
qed

lemma starts_with_append: "js_starts_with k p \<longleftrightarrow> (\<exists>rest. k = p @ rest)"
  unfolding js_starts_with_def by (metis append_eq_conv_conj append_take_drop_id)

lemma starts_with_trim: "js_starts_with k ''session:'' \<Longrightarrow> js_starts_with (js_trim k) ''session:''"
  unfolding starts_with_append
  using js_trim_prefix [of "''session:''"] by (auto simp: js_ws_def)

lemma normalizeLane_session: "js_starts_with k ''session:'' \<Longrightarrow> js_starts_with (normalizeLane k) ''session:''"
  using starts_with_trim [of k] by (auto simp: normalizeLane_def js_or_def js_starts_with_def)

lemma rank_session: "lane_rank (normalizeLane (resolveSessionLane key)) = 1"
proof -
  have "js_starts_with (resolveSessionLane key) ''session:''"
    by (simp add: resolveSessionLane_def Let_def) (simp add: js_starts_with_def)
  from normalizeLane_session [OF this] show ?thesis
    by (auto simp: lane_rank_def js_starts_with_def)
qed

lemma rank_global:
  assumes "\<not> js_starts_with (js_trim (js_nullish lane [])) ''session:''"
  shows "lane_rank (normalizeLane (resolveGlobalLane lane)) = 0"
proof -
  let ?c = "js_trim (js_nullish lane [])"
  have c: "js_nullish (map_option js_trim lane) [] = ?c" by (cases lane) simp_all
  consider "?c = ''cron''" | "?c \<noteq> ''cron''" "?c = []" | "?c \<noteq> ''cron''" "?c \<noteq> []" by blast
  then show ?thesis
  proof cases
    case 1
    then have "resolveGlobalLane lane = ''nested''" by (simp add: resolveGlobalLane_def c)
    moreover have "lane_rank (normalizeLane ''nested'') = 0" by code_simp
    ultimately show ?thesis by simp
  next
    case 2
    then have "resolveGlobalLane lane = lane_main" by (simp add: resolveGlobalLane_def c)
    moreover have "lane_rank (normalizeLane lane_main) = 0" by code_simp
    ultimately show ?thesis by simp
  next
    case 3
    then have "resolveGlobalLane lane = ?c" by (simp add: resolveGlobalLane_def c Let_def)
    moreover have "normalizeLane ?c = ?c" using 3 by (simp add: normalizeLane_def js_or_def)
    ultimately show ?thesis using 3 assms by (simp add: lane_rank_def)
  qed
qed

lemma agent_body_ok: "lane_free rq \<Longrightarrow> body_ok 1 (agent_body rq)"
  by (simp add: agent_body_def lane_free_def rank_global)

lemma nested_lane_free: "lane_free rq \<Longrightarrow> lane_free (rq\<lparr>rq_lane := Some (resolveNestedAgentLane (rq_lane rq))\<rparr>)"
  by (cases "rq_lane rq") (auto simp: lane_free_def resolveNestedAgentLane_def Let_def, auto simp: js_trim_def js_ws_def js_starts_with_def)

lemma cron_body_ok: "list_all lane_free rqs \<Longrightarrow> body_ok 2 (cron_body lookup rqs)"
  by (induction rqs)
    (use agent_body_ok nested_lane_free in \<open>auto simp: sessionLaneOf_def rank_session\<close>)

section \<open>The invariant\<close>

abbreviation accepted :: "cq \<Rightarrow> string \<Rightarrow> nat set" where
  "accepted c k \<equiv> set (logged (accepted_in k) (cq_log c))"

definition task_ok :: "cq \<Rightarrow> string \<Rightarrow> task \<Rightarrow> bool" where
  "task_ok c k t \<longleftrightarrow> body_ok (lane_rank k) (tk_rest t) \<and>
     (\<forall>p. tk_await t = Some p \<longrightarrow>
        DrainingRejected p \<in> set (cq_log c) \<or> (\<exists>k'. lane_rank k' < lane_rank k \<and> p \<in> accepted c k'))"

definition tasks_ok :: "runs \<Rightarrow> bool" where
  "tasks_ok s \<longleftrightarrow>
     (\<forall>k. \<forall>p \<in> accepted (ar_cq s) k. \<exists>t. jm_get (ar_tasks s) p = Some t \<and> task_ok (ar_cq s) k t)"

lemma task_ok_mono:
  assumes "task_ok c k t" "set (cq_log c) \<subseteq> set (cq_log c')" "\<And>k. accepted c k \<subseteq> accepted c' k"
  shows "task_ok c' k t"
  using assms by (fastforce simp: task_ok_def)

lemma tasks_ok_grows:
  assumes "tasks_ok s" "grows (ar_cq s) c"
  shows "tasks_ok (s\<lparr>ar_cq := c\<rparr>)"
  using assms grows_accepted [OF assms(2)] task_ok_mono [OF _ grows_log [OF assms(2)]]
  by (fastforce simp: tasks_ok_def)

lemma enqueue_accepted:
  "accepted (enqueueCommandInLane now lane warn onWait c) k =
     (if \<not> cq_gatewayDraining c \<and> k = normalizeLane lane then insert (cq_nextPromise c) (accepted c k) else accepted c k)"
  using enqueue_grows [of c now lane warn onWait]
  by (cases "cq_gatewayDraining c") (auto dest: grows_accepted [of _ _ k])

lemma enqueue_log: "set (cq_log c) \<subseteq> set (cq_log (enqueueCommandInLane now lane warn onWait c))"
  using enqueue_grows [of c now lane warn onWait]
  by (cases "cq_gatewayDraining c") (auto dest!: grows_log)

lemma enqueue_promise:
  "DrainingRejected (cq_nextPromise c) \<in> set (cq_log (enqueueCommandInLane now lane warn onWait c)) \<or>
   cq_nextPromise c \<in> accepted (enqueueCommandInLane now lane warn onWait c) (normalizeLane lane)"
  using enqueue_grows [of c now lane warn onWait] by (auto simp: enqueue_accepted split: if_splits)

lemma fresh_promise: "log_inv pend c \<Longrightarrow> cq_nextPromise c \<notin> accepted c k"
  by (auto simp: log_inv_def ids_fresh_def)

lemma tasks_ok_submit:
  assumes "tasks_ok s" "body_ok (lane_rank (normalizeLane lane)) body" "log_inv pend (ar_cq s)"
  shows "tasks_ok (submit now lane warn onWait body s)"
  unfolding tasks_ok_def
proof (intro allI ballI)
  fix k p
  let ?c = "enqueueCommandInLane now lane warn onWait (ar_cq s)"
  assume "p \<in> accepted (ar_cq (submit now lane warn onWait body s)) k"
  then have p: "p \<in> accepted ?c k" by (simp add: submit_def)
  show "\<exists>t. jm_get (ar_tasks (submit now lane warn onWait body s)) p = Some t \<and>
      task_ok (ar_cq (submit now lane warn onWait body s)) k t"
  proof (cases "p = cq_nextPromise (ar_cq s)")
    case True
    with p fresh_promise [OF assms(3), of k] have "k = normalizeLane lane"
      by (simp add: enqueue_accepted split: if_splits)
    with True assms(2) show ?thesis by (simp add: submit_def task_ok_def)
  next
    case False
    with p have "p \<in> accepted (ar_cq s) k" by (simp add: enqueue_accepted split: if_splits)
    then obtain t where t: "jm_get (ar_tasks s) p = Some t" "task_ok (ar_cq s) k t"
      using assms(1) by (auto simp: tasks_ok_def)
    have "task_ok ?c k t"
      by (rule task_ok_mono [OF t(2) enqueue_log]) (auto simp: enqueue_accepted)
    with t False show ?thesis by (simp add: submit_def)
  qed
qed

text \<open>A run in flight was accepted in its lane.\<close>

lemma log_inv_cases:
  assumes "log_inv (\<lambda>_. {#}) c" "p \<in> accepted c k"
  shows "p \<in> set (queue_of c k) \<or> p \<in> set (running_in (cq_runs c) k) \<or>
    p \<in> set (logged (settled_in k) (cq_log c)) \<or> p \<in> set (logged (cleared_in k) (cq_log c))"
proof -
  have disp: "set (logged (dispatched_in k) lg) = set (logged (started_in k) lg) \<union> set (logged (cleared_in k) lg)" for lg
    by (induction lg) (auto simp: dispatched_in_def)
  have "set (logged (started_in k) (cq_log c)) = set (running_in (cq_runs c) k) \<union> set (logged (settled_in k) (cq_log c))"
    using assms(1) unfolding log_inv_def log_ok_def by (metis add.right_neutral set_mset_mset set_mset_union)
  moreover have "accepted c k = set (logged (dispatched_in k) (cq_log c)) \<union> set (queue_of c k)"
    using assms(1) unfolding log_inv_def log_ok_def by (metis set_append)
  ultimately show ?thesis using assms(2) disp [of "cq_log c"] by auto
qed

lemma running_accepted:
  assumes "log_inv (\<lambda>_. {#}) c" "r \<in> set (cq_runs c)"
  shows "en_id (rn_entry r) \<in> accepted c (rn_lane r)"
proof -
  have disp: "set (logged (started_in k) lg) \<subseteq> set (logged (dispatched_in k) lg)" for k lg
    by (induction lg) (auto simp: dispatched_in_def)
  have "en_id (rn_entry r) \<in> set (running_in (cq_runs c) (rn_lane r))"
    using assms(2) by (auto simp: running_in_def)
  moreover have "set (running_in (cq_runs c) k) \<subseteq> set (logged (started_in k) (cq_log c))" for k
    using assms(1) unfolding log_inv_def log_ok_def by (metis set_mset_mset set_mset_union Un_upper1 add.right_neutral)
  moreover have "set (logged (dispatched_in k) (cq_log c)) \<subseteq> accepted c k" for k
    using assms(1) unfolding log_inv_def log_ok_def by (metis set_append Un_upper1)
  ultimately show ?thesis using disp by blast
qed

lemma settled_iff: "settled c p \<longleftrightarrow> (\<exists>x \<in> set (cq_log c). settles p x)"
  by (simp add: settled_def list_ex_iff)

lemma settled_logged:
  "p \<in> set (logged (settled_in k) lg) \<Longrightarrow> \<exists>x \<in> set lg. settles p x"
  "p \<in> set (logged (cleared_in k) lg) \<Longrightarrow> \<exists>x \<in> set lg. settles p x"
proof -
  have "p \<in> set (settled_in k x) \<Longrightarrow> settles p x" "p \<in> set (cleared_in k x) \<Longrightarrow> settles p x" for x
    by (cases x; auto split: if_splits)+
  then show "p \<in> set (logged (settled_in k) lg) \<Longrightarrow> \<exists>x \<in> set lg. settles p x"
    "p \<in> set (logged (cleared_in k) lg) \<Longrightarrow> \<exists>x \<in> set lg. settles p x"
    by (auto simp: logged_def)
qed

section \<open>No deadlock\<close>

text \<open>Queued work means a run in flight in the same lane.\<close>

lemma queued_has_run:
  assumes "cq_wf c" "lanes_settled c" "queue_of c k \<noteq> []"
  shows "\<exists>r \<in> set (cq_runs c). rn_lane r = k"
proof -
  from assms(3) obtain l where l: "jm_get (cq_lanes c) k = Some l" "ls_queue l \<noteq> []"
    by (auto simp: queue_of_def split: option.splits)
  then have "ls_maxConcurrent l \<le> int (length (ls_active l))" "1 \<le> ls_maxConcurrent l"
    "set (ls_active l) = lane_runs (cq_runs c) k (ls_generation l)"
    using assms(1,2) by (auto simp: cq_wf_def lanes_settled_def lane_saturated_def lane_ok_def)
  then have "lane_runs (cq_runs c) k (ls_generation l) \<noteq> {}" by (cases "ls_active l") auto
  then show ?thesis by (auto simp: lane_runs_def)
qed

lemma some_run_proceeds:
  assumes inv: "cq_wf (ar_cq s)" "lanes_settled (ar_cq s)" "log_inv (\<lambda>_. {#}) (ar_cq s)" "tasks_ok s"
    and "r \<in> set (cq_runs (ar_cq s))"
  shows "\<exists>r' \<in> set (cq_runs (ar_cq s)). can_proceed s r'"
  using assms(5)
proof (induction "lane_rank (rn_lane r)" arbitrary: r rule: less_induct)
  case less
  let ?c = "ar_cq s"
  from running_accepted [OF inv(3) less.prems] inv(4)
  obtain t where t: "run_task s r = Some t" "task_ok ?c (rn_lane r) t"
    by (auto simp: tasks_ok_def run_task_def)
  show ?case
  proof (cases "can_proceed s r")
    case False
    then obtain p where p: "tk_await t = Some p" "\<not> settled ?c p"
      by (auto simp: can_proceed_def t(1) split: option.splits)
    then have "DrainingRejected p \<notin> set (cq_log ?c)" by (auto simp: settled_iff)
    with t(2) p(1) obtain k where k: "lane_rank k < lane_rank (rn_lane r)" "p \<in> accepted ?c k"
      by (auto simp: task_ok_def)
    have "p \<in> set (queue_of ?c k) \<or> p \<in> set (running_in (cq_runs ?c) k)"
      using log_inv_cases [OF inv(3) k(2)] p(2) settled_logged [of p k "cq_log ?c"] by (auto simp: settled_iff)
    then have "\<exists>r' \<in> set (cq_runs ?c). rn_lane r' = k"
      using queued_has_run [OF inv(1,2), of k] by (cases "queue_of ?c k") (auto simp: running_in_def)
    then show ?thesis using less.hyps k(1) by blast
  qed (use less.prems in blast)
qed

lemma tasks_ok_callInner:
  assumes "tasks_ok s" "log_inv (\<lambda>_. {#}) (ar_cq s)" "r \<in> set (cq_runs (ar_cq s))"
  shows "tasks_ok (callInner now r s)"
proof (cases "run_task s r")
  case (Some t)
  let ?c = "ar_cq s" and ?i = "en_id (rn_entry r)"
  show ?thesis
  proof (cases "tk_rest t")
    case (Await lane body rest)
    let ?p = "cq_nextPromise ?c" and ?c1 = "enqueueCommandInLane now lane None False ?c"
    have i: "?i \<in> accepted ?c (rn_lane r)" by (rule running_accepted [OF assms(2,3)])
    then obtain t' where "jm_get (ar_tasks s) ?i = Some t'" "task_ok ?c (rn_lane r) t'"
      using assms(1) unfolding tasks_ok_def by blast
    with Some have "task_ok ?c (rn_lane r) t" by (simp add: run_task_def)
    then have ok: "lane_rank (normalizeLane lane) < lane_rank (rn_lane r)"
        "body_ok (lane_rank (normalizeLane lane)) body" "body_ok (lane_rank (rn_lane r)) rest"
      by (simp_all add: task_ok_def Await)
    have ip: "?i \<noteq> ?p" using i fresh_promise [OF assms(2), of "rn_lane r"] by auto
    have cq1: "ar_cq (callInner now r s) = ?c1"
      by (simp add: callInner_def Some Await submit_def)
    have tk1: "jm_get (ar_tasks (callInner now r s)) p = (if p = ?p then Some \<lparr>tk_rest = body, tk_await = None\<rparr>
        else if p = ?i then Some \<lparr>tk_rest = rest, tk_await = Some ?p\<rparr> else jm_get (ar_tasks s) p)" for p
      by (simp add: callInner_def Some Await submit_def)
    show ?thesis unfolding tasks_ok_def cq1 tk1
    proof (intro allI ballI)
      fix k p
      assume p: "p \<in> accepted ?c1 k"
      consider "p = ?p" | "p = ?i" "p \<noteq> ?p" | "p \<noteq> ?i" "p \<noteq> ?p" by blast
      then show "\<exists>t. (if p = ?p then Some \<lparr>tk_rest = body, tk_await = None\<rparr>
        else if p = ?i then Some \<lparr>tk_rest = rest, tk_await = Some ?p\<rparr> else jm_get (ar_tasks s) p) = Some t \<and> task_ok ?c1 k t"
      proof cases
        case 1
        with p fresh_promise [OF assms(2), of k] have "k = normalizeLane lane"
          by (simp add: enqueue_accepted split: if_splits)
        with 1 ok(2) show ?thesis by (simp add: task_ok_def)
      next
        case 2
        with p have "?i \<in> accepted ?c k" by (simp add: enqueue_accepted split: if_splits)
        with i have "k = rn_lane r" using assms(2) unfolding log_inv_def ids_fresh_def by blast
        with 2 ok(1,3) ip enqueue_promise [of ?c now lane None False] show ?thesis
          by (auto simp: task_ok_def)
      next
        case 3
        with p have "p \<in> accepted ?c k" by (simp add: enqueue_accepted split: if_splits)
        then obtain t where t: "jm_get (ar_tasks s) p = Some t" "task_ok ?c k t"
          using assms(1) by (auto simp: tasks_ok_def)
        have "task_ok ?c1 k t"
          by (rule task_ok_mono [OF t(2) enqueue_log]) (auto simp: enqueue_accepted)
        with t 3 show ?thesis by simp
      qed
    qed
  qed (use assms(1) Some in \<open>simp add: callInner_def\<close>)
qed (use assms(1) in \<open>simp add: callInner_def\<close>)

section \<open>Session lanes run one command at a time\<close>

lemma enqueue_limit: "lane_limit (enqueueCommandInLane now lane warn onWait s) = lane_limit s"
proof -
  let ?k = "normalizeLane lane" and ?s1 = "s\<lparr>cq_nextPromise := Suc (cq_nextPromise s)\<rparr>"
  obtain l t where lt: "getLaneState ?k ?s1 = (l, t)" by (cases "getLaneState ?k ?s1")
  have "lane_limit (put_lane ?k (l\<lparr>ls_queue := q\<rparr>) (t\<lparr>cq_log := x\<rparr>)) = lane_limit s" for q x
    using getLaneState_counts [OF lt] by (simp add: fun_upd_idem_iff)
  then show ?thesis using lt by (simp add: enqueueCommandInLane_def Let_def drain_counts(1))
qed

lemma setConcurrency_limit:
  "lane_limit (setCommandLaneConcurrency now lane n s) k =
     (if k = normalizeLane lane then max 1 \<lfloor>n\<rfloor> else lane_limit s k)"
proof -
  obtain l t where lt: "getLaneState (normalizeLane lane) s = (l, t)" by (cases "getLaneState (normalizeLane lane) s")
  show ?thesis
    using getLaneState_counts [OF lt] by (simp add: setCommandLaneConcurrency_def lt Let_def drain_counts(1))
qed

lemma settleTask_limit:
  assumes "cq_wf s" "r \<in> set (cq_runs s)"
  shows "lane_limit (settleTask now r ok s) = lane_limit s"
proof -
  let ?k = "rn_lane r"
  from assms obtain l where l: "jm_get (cq_lanes s) ?k = Some l" by (auto simp: cq_wf_def)
  obtain c l' where cl: "completeTask l (rn_taskId r) (rn_gen r) = (c, l')"
    by (cases "completeTask l (rn_taskId r) (rn_gen r)")
  have gl: "getLaneState ?k (s\<lparr>cq_runs := rs\<rparr>) = (l, s\<lparr>cq_runs := rs\<rparr>)" for rs
    using l by (simp add: getLaneState_def)
  have m: "ls_maxConcurrent l' = lane_limit s ?k"
    using cl l by (auto simp: completeTask_def lane_limit_def split: if_splits)
  show ?thesis
    using m by (simp add: settleTask_def gl cl Let_def pump_counts(1) fun_upd_idem_iff)
qed

lemma control_limit: "is_control e \<Longrightarrow> lane_limit (cq_step s e) = lane_limit s"
proof (cases e)
  case (ClearLane lane)
  then show ?thesis
    by (auto simp: clearCommandLane_def Let_def lane_limit_def fun_eq_iff split: option.splits)
next
  case (ResetAll now)
  let ?s1 = "s\<lparr>cq_gatewayDraining := False, cq_lanes := map (\<lambda>(k, l). (k, reset_lane l)) (cq_lanes s)\<rparr>"
  have "lane_limit ?s1 = lane_limit s"
    by (auto simp: lane_limit_def jm_get_map reset_lane_def fun_eq_iff split: option.splits)
  then show ?thesis
    using fold_drain_counts [of now _ ?s1] by (simp add: ResetAll resetAllLanes_def Let_def)
qed (simp_all add: markGatewayDraining_def waitForActiveTasks_def waiterTimeout_def Let_def)

definition sessions_serial :: "cq \<Rightarrow> bool" where
  "sessions_serial c \<longleftrightarrow> (\<forall>k. js_starts_with k ''session:'' \<longrightarrow> lane_limit c k = 1 \<and> active_count c k \<le> 1)"

lemma sessions_serial_step:
  assumes "sessions_serial c" "cq_wf c" "cq_enabled c e"
    and "\<And>k. js_starts_with k ''session:'' \<Longrightarrow> lane_limit (cq_step c e) k = lane_limit c k"
  shows "sessions_serial (cq_step c e)"
  unfolding sessions_serial_def
proof (intro allI impI)
  fix k :: string
  assume k: "js_starts_with k ''session:''"
  have "active_count (cq_step c e) k \<le> max (active_count c k) (lane_limit (cq_step c e) k)"
    using step_within_limits [OF assms(2,3)] by (simp add: within_limits_def)
  then show "lane_limit (cq_step c e) k = 1 \<and> active_count (cq_step c e) k \<le> 1"
    using assms(1) assms(4) [OF k] k by (auto simp: sessions_serial_def)
qed

section \<open>Reachable states\<close>

text \<open>A command that was rejected because the gateway drains is in no lane.\<close>

definition rejected_apart :: "cq \<Rightarrow> bool" where
  "rejected_apart c \<longleftrightarrow> (\<forall>p. DrainingRejected p \<in> set (cq_log c) \<longrightarrow>
     p < cq_nextPromise c \<and> (\<forall>k. p \<notin> accepted c k))"

lemma rejected_apart_grows:
  assumes "rejected_apart c" "grows c c'"
  shows "rejected_apart c'"
proof -
  have "cq_nextPromise c \<le> cq_nextPromise c'" using assms(2) by (simp add: grows_def)
  then show ?thesis
    using assms(1) unfolding rejected_apart_def grows_accepted [OF assms(2)] grows_rejected [OF assms(2)] by force
qed

lemma rejected_apart_enqueue:
  assumes "rejected_apart c" "log_inv pend c"
  shows "rejected_apart (enqueueCommandInLane now lane warn onWait c)"
proof (cases "cq_gatewayDraining c")
  case True
  note e = enqueue_grows [of c now lane warn onWait, simplified True if_True]
  show ?thesis
    using assms(1) fresh_promise [OF assms(2)] e
    by (auto simp: rejected_apart_def enqueue_accepted True less_Suc_eq)
next
  case False
  let ?c = "c\<lparr>cq_nextPromise := Suc (cq_nextPromise c), cq_log := cq_log c @ [Accepted (cq_nextPromise c) (normalizeLane lane)]\<rparr>"
  have g: "grows ?c (enqueueCommandInLane now lane warn onWait c)"
    using enqueue_grows [of c now lane warn onWait] False by simp
  have "rejected_apart ?c"
    using assms(1) by (auto simp: rejected_apart_def less_Suc_eq)
  from rejected_apart_grows [OF this g] show ?thesis .
qed

text \<open>What holds whatever lanes the requests name, and what holds when they keep the lanes apart.\<close>

definition base_inv :: "runs \<Rightarrow> bool" where
  "base_inv s \<longleftrightarrow> cq_reachable (ar_cq s) \<and> sessions_serial (ar_cq s) \<and> jm_ok (ar_tasks s) \<and> rejected_apart (ar_cq s)"

definition runs_inv :: "runs \<Rightarrow> bool" where
  "runs_inv s \<longleftrightarrow> base_inv s \<and> tasks_ok s"

lemma cq_reachable_step: "cq_reachable c \<Longrightarrow> cq_enabled c e \<Longrightarrow> cq_reachable (cq_step c e)"
  by (rule reach_step)

lemma cq_reachable_enqueue: "cq_reachable c \<Longrightarrow> cq_reachable (enqueueCommandInLane now lane warn onWait c)"
  using cq_reachable_step [of c "Enqueue now lane warn onWait"] by simp

lemma cq_reachable_config: "cq_reachable c \<Longrightarrow> cq_reachable (setCommandLaneConcurrency now lane n c)"
  using cq_reachable_step [of c "SetConcurrency now lane n"] by simp

lemma serial_enqueue:
  "sessions_serial c \<Longrightarrow> cq_wf c \<Longrightarrow> sessions_serial (enqueueCommandInLane now lane warn onWait c)"
  using sessions_serial_step [of c "Enqueue now lane warn onWait"] by (simp add: enqueue_limit)

lemma serial_config:
  assumes "sessions_serial c" "cq_wf c" "\<not> js_starts_with (normalizeLane lane) ''session:''"
  shows "sessions_serial (setCommandLaneConcurrency now lane n c)"
proof -
  have "lane_limit (cq_step c (SetConcurrency now lane n)) k = lane_limit c k" if "js_starts_with k ''session:''" for k
    using that assms(3) by (auto simp only: cq_step.simps setConcurrency_limit split: if_splits)
  from sessions_serial_step [OF assms(1,2) _ this] show ?thesis by simp
qed

lemma base_invD:
  assumes "base_inv s"
  shows "cq_reachable (ar_cq s)" "sessions_serial (ar_cq s)" "jm_ok (ar_tasks s)" "rejected_apart (ar_cq s)"
    "cq_wf (ar_cq s)" "log_inv (\<lambda>_. {#}) (ar_cq s)" "lanes_settled (ar_cq s)"
  using assms reachable_invD [of "ar_cq s"] by (simp_all add: base_inv_def)

lemma submit_base: "base_inv s \<Longrightarrow> base_inv (submit now lane warn onWait body s)"
proof -
  assume inv: "base_inv s"
  note D = base_invD [OF inv]
  show ?thesis
    using D(1,3) serial_enqueue [OF D(2,5)] rejected_apart_enqueue [OF D(4,6)]
    by (simp add: base_inv_def submit_def cq_reachable_enqueue)
qed

lemma callInner_base:
  assumes "base_inv s"
  shows "base_inv (callInner now r s)"
proof (cases "run_task s r")
  case (Some t)
  have "base_inv (s\<lparr>ar_tasks := jm_set k v (ar_tasks s)\<rparr>)" for k v
    using assms by (simp add: base_inv_def)
  with Some assms show ?thesis by (cases "tk_rest t") (simp_all add: callInner_def submit_base)
qed (use assms in \<open>simp add: callInner_def\<close>)

lemma config_base:
  assumes "base_inv s"
  shows "base_inv (s\<lparr>ar_cq := applyGatewayLaneConcurrency now a b d (ar_cq s)\<rparr>)
    \<and> grows (ar_cq s) (applyGatewayLaneConcurrency now a b d (ar_cq s))"
proof -
  have step: "cq_reachable c \<and> sessions_serial c \<and> grows (ar_cq s) c \<Longrightarrow>
      \<not> js_starts_with (normalizeLane lane) ''session:'' \<Longrightarrow>
      cq_reachable (setCommandLaneConcurrency now lane n c) \<and> sessions_serial (setCommandLaneConcurrency now lane n c) \<and>
      grows (ar_cq s) (setCommandLaneConcurrency now lane n c)" for lane n c
    using reachable_invD [of c] serial_config [of c lane now n] cq_reachable_config [of c]
      grows_trans [OF _ setConcurrency_grows] by blast
  have "cq_reachable (ar_cq s) \<and> sessions_serial (ar_cq s) \<and> grows (ar_cq s) (ar_cq s)"
    using assms by (simp add: base_inv_def)
  from step [OF step [OF step [OF this, of "''cron''" "js_nullish a 1"], of lane_main "of_int (resolveAgentMaxConcurrent b)"],
      of "''subagent''" "of_int (resolveSubagentMaxConcurrent d)"]
  have "cq_reachable (applyGatewayLaneConcurrency now a b d (ar_cq s)) \<and>
      sessions_serial (applyGatewayLaneConcurrency now a b d (ar_cq s)) \<and>
      grows (ar_cq s) (applyGatewayLaneConcurrency now a b d (ar_cq s))"
    unfolding applyGatewayLaneConcurrency_def
    by (simp add: normalizeLane_def js_or_def lane_main_def js_trim_def js_ws_def js_starts_with_def)
  with assms rejected_apart_grows [of "ar_cq s"] show ?thesis by (simp add: base_inv_def)
qed

lemma finish_base:
  assumes "base_inv s" "r \<in> set (cq_runs (ar_cq s))"
  shows "base_inv (s\<lparr>ar_cq := settleTask now r ok (ar_cq s)\<rparr>)"
proof -
  note inv = base_invD [OF assms(1)]
  have "sessions_serial (settleTask now r ok (ar_cq s))"
    using sessions_serial_step [OF inv(2,5), of "Settle now r ok"] assms(2) settleTask_limit [OF inv(5)] by simp
  moreover have "cq_reachable (settleTask now r ok (ar_cq s))"
    using cq_reachable_step [OF inv(1), of "Settle now r ok"] assms(2) by simp
  ultimately show ?thesis using inv rejected_apart_grows [OF _ settleTask_grows] by (simp add: base_inv_def)
qed

lemma control_base:
  assumes "base_inv s" "is_control e"
  shows "base_inv (s\<lparr>ar_cq := cq_step (ar_cq s) e\<rparr>)"
proof -
  note inv = base_invD [OF assms(1)]
  have en: "cq_enabled (ar_cq s) e" using assms(2) by (cases e) simp_all
  have "sessions_serial (cq_step (ar_cq s) e)"
    using sessions_serial_step [OF inv(2,5) en] control_limit [OF assms(2)] by simp
  then show ?thesis
    using inv cq_reachable_step [OF inv(1) en] rejected_apart_grows [OF _ control_grows [OF assms(2)]]
    by (simp add: base_inv_def)
qed

lemma base_inv_init: "base_inv runs_init"
  by (simp add: base_inv_def runs_init_def reach_init sessions_serial_def rejected_apart_def cq_init_def
      lane_limit_def active_count_def)

lemma base_inv_step: "base_inv s \<Longrightarrow> runs_enabled s e \<Longrightarrow> base_inv (runs_step lookup s e)"
  by (cases e) (simp_all add: runEmbeddedPiAgent_def compactEmbeddedPiSession_def enqueueRun_def submit_base
      callInner_base finish_base config_base control_base)

interpretation agent_machine: event_machine runs_init runs_enabled "runs_step lookup" base_inv for lookup
  by (rule event_machine.intro) (rule base_inv_init, rule base_inv_step)

lemma runs_inv_init: "runs_inv runs_init"
  by (simp add: runs_inv_def base_inv_init) (simp add: tasks_ok_def runs_init_def cq_init_def)

lemma tasks_ok_step:
  assumes "runs_inv s" "runs_enabled s e" "event_free e"
  shows "tasks_ok (runs_step lookup s e)"
proof -
  have ok: "base_inv s" "tasks_ok s" using assms(1) by (simp_all add: runs_inv_def)
  note lg = base_invD(6) [OF ok(1)]
  show ?thesis
  proof (cases e)
    case (AgentRun now rq)
    then show ?thesis
      using assms(3) agent_body_ok [of rq] ok(2) lg
      by (simp add: runEmbeddedPiAgent_def sessionLaneOf_def rank_session tasks_ok_submit)
  next
    case (CompactRun now rq)
    then show ?thesis
      using assms(3) agent_body_ok [of rq] ok(2) lg
      by (simp add: compactEmbeddedPiSession_def sessionLaneOf_def rank_session tasks_ok_submit)
  next
    case (ManualCronRun now rqs)
    have "lane_rank (normalizeLane ''cron'') = 2" by code_simp
    then show ?thesis
      using assms(3) ManualCronRun cron_body_ok [of rqs lookup] ok(2) lg by (simp add: enqueueRun_def tasks_ok_submit)
  qed (use assms(2) ok lg tasks_ok_callInner tasks_ok_grows settleTask_grows control_grows config_base in simp_all)
qed

lemma runs_inv_step: "runs_inv s \<Longrightarrow> runs_enabled_apart s e \<Longrightarrow> runs_inv (runs_step lookup s e)"
  using tasks_ok_step base_inv_step by (simp add: runs_inv_def runs_enabled_apart_def)

interpretation apart_machine: event_machine runs_init runs_enabled_apart "runs_step lookup" runs_inv for lookup
  by (rule event_machine.intro) (rule runs_inv_init, rule runs_inv_step)

section \<open>Work runs out\<close>

fun weight :: "task_body \<Rightarrow> nat" where
  "weight Done = 1"
| "weight (Await lane body rest) = Suc (weight body + weight rest)"

definition task_work :: "cq \<Rightarrow> nat \<times> task \<Rightarrow> nat" where
  "task_work c pt = (if settled c (fst pt) then 0 else weight (tk_rest (snd pt)))"

definition work :: "runs \<Rightarrow> nat" where
  "work s = sum_list (map (task_work (ar_cq s)) (ar_tasks s))"

lemma weight_pos: "0 < weight b"
  by (cases b) simp_all

lemma sum_update:
  fixes f :: "'a \<times> 'b \<Rightarrow> nat"
  assumes "jm_ok m"
  shows "sum_list (map f (jm_set k v m)) + (case jm_get m k of None \<Rightarrow> 0 | Some w \<Rightarrow> f (k, w)) =
    sum_list (map f m) + f (k, v)"
  using assms
proof (induction m)
  case (Cons x m)
  show ?case
  proof (cases "fst x = k")
    case True
    then show ?thesis by (cases x) simp
  next
    case False
    with Cons show ?thesis by (cases x) simp
  qed
qed simp

lemma settled_mono: "set (cq_log c) \<subseteq> set (cq_log c') \<Longrightarrow> settled c p \<Longrightarrow> settled c' p"
  by (auto simp: settled_iff)

lemma work_mono:
  assumes "set (cq_log (ar_cq s)) \<subseteq> set (cq_log c)"
  shows "sum_list (map (task_work c) m) \<le> sum_list (map (task_work (ar_cq s)) m)"
  by (rule sum_list_mono) (auto simp: task_work_def dest: settled_mono [OF assms])

text \<open>A run in flight is not settled.\<close>

lemma running_open:
  assumes "log_inv (\<lambda>_. {#}) c" "rejected_apart c" "r \<in> set (cq_runs c)"
  shows "\<not> settled c (en_id (rn_entry r))"
proof
  let ?p = "en_id (rn_entry r)" and ?k = "rn_lane r" and ?lg = "cq_log c"
  assume "settled c ?p"
  then obtain x where x: "x \<in> set ?lg" "settles ?p x" by (auto simp: settled_iff)
  have acc: "?p \<in> accepted c ?k" by (rule running_accepted [OF assms(1,3)])
  have run: "?p \<in># mset (running_in (cq_runs c) ?k)" using assms(3) by (auto simp: running_in_def)
  have disp: "mset (logged (dispatched_in k) lg) = mset (logged (started_in k) lg) + mset (logged (cleared_in k) lg)" for k lg
    by (induction lg) (simp_all add: dispatched_in_def)
  have parts: "mset (logged (accepted_in k) ?lg) = mset (running_in (cq_runs c) k) + mset (logged (settled_in k) ?lg) +
      mset (logged (cleared_in k) ?lg) + mset (queue_of c k)" for k
    using assms(1) disp [of k ?lg] unfolding log_inv_def log_ok_def by (metis add.right_neutral mset_append)
  have once: "distinct (logged (accepted_in k) ?lg)" for k
    using assms(1) unfolding log_inv_def ids_fresh_def by blast
  have no: "?p \<notin># mset (logged (settled_in k) ?lg) + mset (logged (cleared_in k) ?lg)" for k
  proof
    assume *: "?p \<in># mset (logged (settled_in k) ?lg) + mset (logged (cleared_in k) ?lg)"
    then have "?p \<in># mset (logged (accepted_in k) ?lg)" unfolding parts [of k] by auto
    then have "k = ?k" using acc assms(1) unfolding log_inv_def ids_fresh_def by auto
    moreover have "mset (running_in (cq_runs c) ?k @ logged (settled_in ?k) ?lg @ logged (cleared_in ?k) ?lg @ queue_of c ?k) =
        mset (logged (accepted_in ?k) ?lg)"
      by (simp add: parts [of ?k] ac_simps)
    then have "distinct (running_in (cq_runs c) ?k @ logged (settled_in ?k) ?lg @ logged (cleared_in ?k) ?lg @ queue_of c ?k)"
      using once [of ?k] mset_eq_imp_distinct_iff by blast
    ultimately show False using * run by auto
  qed
  have log: "?p \<in> set (f x) \<Longrightarrow> ?p \<in> set (logged f ?lg)" for f
    using x(1) by (auto simp: logged_def)
  show False
  proof (cases x)
    case (EntryResolved q k)
    then show ?thesis using x(2) log [of "settled_in k"] no [of k] by simp
  next
    case (EntryRejected q k)
    then show ?thesis using x(2) log [of "settled_in k"] no [of k] by simp
  next
    case (LaneCleared q k)
    then show ?thesis using x(2) log [of "cleared_in k"] no [of k] by simp
  next
    case (DrainingRejected q)
    then show ?thesis using x assms(2) acc by (auto simp: rejected_apart_def)
  qed (use x(2) in simp_all)
qed

lemma run_task_some:
  assumes "runs_inv s" "r \<in> set (cq_runs (ar_cq s))"
  obtains t where "run_task s r = Some t" "\<not> settled (ar_cq s) (en_id (rn_entry r))"
proof -
  have inv: "cq_reachable (ar_cq s)" "tasks_ok s" "rejected_apart (ar_cq s)"
    using assms(1) by (simp_all add: runs_inv_def base_inv_def)
  have lg: "log_inv (\<lambda>_. {#}) (ar_cq s)" using reachable_invD [OF inv(1)] by simp
  obtain t where "jm_get (ar_tasks s) (en_id (rn_entry r)) = Some t"
    using running_accepted [OF lg assms(2)] inv(2) unfolding tasks_ok_def by blast
  with running_open [OF lg inv(3) assms(2)] show thesis by (intro that) (simp_all add: run_task_def)
qed

lemma callInner_work:
  assumes "runs_inv s" "r \<in> set (cq_runs (ar_cq s))" "run_task s r = Some t" "tk_rest t \<noteq> Done"
  shows "work (callInner now r s) < work s"
proof -
  obtain lane body rest where Await: "tk_rest t = Await lane body rest" using assms(4) by (cases "tk_rest t") auto
  let ?c = "ar_cq s" and ?i = "en_id (rn_entry r)" and ?f = "task_work (ar_cq s)"
  let ?T = "\<lparr>tk_rest = rest, tk_await = Some (cq_nextPromise ?c)\<rparr>" and ?N = "\<lparr>tk_rest = body, tk_await = None\<rparr>"
  have open_i: "\<not> settled ?c ?i" by (rule run_task_some [OF assms(1,2)])
  have ok: "jm_ok (ar_tasks s)" using assms(1) by (simp add: runs_inv_def base_inv_def)
  have cq1: "ar_cq (callInner now r s) = enqueueCommandInLane now lane None False ?c"
    and tk1: "ar_tasks (callInner now r s) = jm_set (cq_nextPromise ?c) ?N (jm_set ?i ?T (ar_tasks s))"
    by (simp_all add: callInner_def assms(3) Await submit_def)
  have "work (callInner now r s) \<le> sum_list (map ?f (jm_set (cq_nextPromise ?c) ?N (jm_set ?i ?T (ar_tasks s))))"
    unfolding work_def cq1 tk1 by (rule work_mono [OF enqueue_log])
  also have "\<dots> \<le> sum_list (map ?f (jm_set ?i ?T (ar_tasks s))) + weight body"
    using sum_update [of "jm_set ?i ?T (ar_tasks s)" ?f "cq_nextPromise ?c" ?N] ok
    by (auto simp: task_work_def split: option.splits if_splits)
  also have "\<dots> < work s"
    using sum_update [OF ok, of ?f ?i ?T] assms(3) open_i
    by (simp add: work_def run_task_def task_work_def Await)
  finally show ?thesis .
qed

lemma sum_list_strict:
  fixes f g :: "'a \<Rightarrow> nat"
  assumes "x \<in> set xs" "\<And>y. f y \<le> g y" "f x < g x"
  shows "sum_list (map f xs) < sum_list (map g xs)"
  using assms(1)
proof (induction xs)
  case (Cons y ys)
  have le: "sum_list (map f zs) \<le> sum_list (map g zs)" for zs by (rule sum_list_mono) (rule assms(2))
  show ?case
  proof (cases "y = x")
    case True
    with assms(3) le [of ys] show ?thesis by simp
  next
    case False
    with Cons assms(2) [of y] show ?thesis by (simp add: add_le_less_mono)
  qed
qed simp

lemma finish_work:
  assumes "runs_inv s" "r \<in> set (cq_runs (ar_cq s))"
  shows "work (s\<lparr>ar_cq := settleTask now r ok (ar_cq s)\<rparr>) < work s"
proof -
  let ?c = "ar_cq s" and ?c' = "settleTask now r ok (ar_cq s)" and ?i = "en_id (rn_entry r)"
  obtain t where t: "run_task s r = Some t" "\<not> settled ?c ?i" by (rule run_task_some [OF assms])
  have mem: "(?i, t) \<in> set (ar_tasks s)" using t(1) by (simp add: run_task_def map_of_SomeD)
  have sub: "set (cq_log ?c) \<subseteq> set (cq_log ?c')" by (rule grows_log [OF settleTask_grows])
  have "settled ?c' ?i"
    by (auto simp: settled_iff settleTask_def Let_def split: prod.split)
  then have "task_work ?c' (?i, t) < task_work ?c (?i, t)"
    using t(2) weight_pos by (simp add: task_work_def)
  moreover have "task_work ?c' y \<le> task_work ?c y" for y
    using settled_mono [OF sub] by (auto simp: task_work_def)
  ultimately show ?thesis
    unfolding work_def using sum_list_strict [OF mem, of "task_work ?c'" "task_work ?c"] by simp
qed

text \<open>The steps of the tasks themselves: nothing is submitted from outside.\<close>

fun is_progress :: "runs_event \<Rightarrow> bool" where
  "is_progress (CallInner _ _) \<longleftrightarrow> True"
| "is_progress (FinishRun _ _ _) \<longleftrightarrow> True"
| "is_progress _ \<longleftrightarrow> False"

lemma progress_work:
  assumes "runs_inv s" "runs_enabled s e" "is_progress e"
  shows "work (runs_step lookup s e) < work s"
proof (cases e)
  case (CallInner now r)
  with assms show ?thesis by (auto intro!: callInner_work split: option.splits)
next
  case (FinishRun now r ok)
  with assms show ?thesis by (simp add: finish_work)
qed (use assms(3) in simp_all)

lemma progress_bounded:
  assumes "runs_inv s" "run_ok runs_enabled_apart (runs_step lookup) s es" "list_all is_progress es"
  shows "length es + work (foldl (runs_step lookup) s es) \<le> work s"
  using assms
proof (induction es arbitrary: s)
  case (Cons e es)
  then have "work (runs_step lookup s e) < work s" by (simp add: progress_work runs_enabled_apart_def)
  moreover have "length es + work (foldl (runs_step lookup) (runs_step lookup s e) es) \<le> work (runs_step lookup s e)"
    using Cons runs_inv_step [of s e lookup] by simp
  ultimately show ?case by simp
qed simp

lemma quiet_means_done:
  assumes "runs_inv s" "\<not> list_ex (can_proceed s) (cq_runs (ar_cq s))"
  shows "cq_runs (ar_cq s) = [] \<and> queue_of (ar_cq s) k = []"
proof -
  have inv: "cq_reachable (ar_cq s)" "tasks_ok s" using assms(1) by (simp_all add: runs_inv_def base_inv_def)
  note wf = reachable_invD [OF inv(1)]
  have none: "cq_runs (ar_cq s) = []"
    using some_run_proceeds [of s] wf inv(2) assms(2) by (cases "cq_runs (ar_cq s)") (auto simp: list_ex_iff)
  moreover have "queue_of (ar_cq s) k = []"
    using queued_has_run [of "ar_cq s" k] wf none by auto
  ultimately show ?thesis by simp
qed

lemma progress_apart:
  assumes "run_ok runs_enabled (runs_step lookup) s es" "list_all is_progress es"
  shows "run_ok runs_enabled_apart (runs_step lookup) s es"
  using assms
proof (induction es arbitrary: s)
  case (Cons e es)
  then have "event_free e" by (cases e) simp_all
  with Cons show ?case by (simp add: runs_enabled_apart_def)
qed simp

section \<open>Properties\<close>

abbreviation runs_reachable :: "(string \<Rightarrow> string option) \<Rightarrow> runs \<Rightarrow> bool" where
  "runs_reachable lookup \<equiv> reach runs_init runs_enabled (runs_step lookup)"

text \<open>Reachable by requests none of which names a session lane as its global lane.\<close>

abbreviation runs_reachable_apart :: "(string \<Rightarrow> string option) \<Rightarrow> runs \<Rightarrow> bool" where
  "runs_reachable_apart lookup \<equiv> reach runs_init runs_enabled_apart (runs_step lookup)"

definition current_runs :: "cq \<Rightarrow> string \<Rightarrow> run list" where
  "current_runs c k = (case jm_get (cq_lanes c) k of None \<Rightarrow> []
     | Some l \<Rightarrow> filter (\<lambda>r. rn_lane r = k \<and> rn_gen r = ls_generation l) (cq_runs c))"

lemma current_runs_count:
  assumes "cq_wf c"
  shows "int (length (current_runs c k)) = active_count c k"
proof (cases "jm_get (cq_lanes c) k")
  case (Some l)
  let ?rs = "filter (\<lambda>r. rn_lane r = k \<and> rn_gen r = ls_generation l) (cq_runs c)"
  have l: "distinct (ls_active l)" "set (ls_active l) = lane_runs (cq_runs c) k (ls_generation l)"
    "distinct (map rn_taskId (cq_runs c))"
    using assms Some by (auto simp: cq_wf_def lane_ok_def)
  have "distinct (map rn_taskId ?rs)" using l(3) by (simp add: distinct_map_filter)
  moreover have "set (map rn_taskId ?rs) = set (ls_active l)" by (auto simp: l(2) lane_runs_def)
  ultimately have "length (map rn_taskId ?rs) = length (ls_active l)" using l(1) by (metis distinct_card)
  then show ?thesis by (simp add: current_runs_def active_count_def Some)
qed (simp add: current_runs_def active_count_def)

text \<open>Two agent runs and a manual cron run of the same session, the lanes configured; the first run is inside its
  global lane.\<close>

definition chat :: agent_request where
  "chat = \<lparr>rq_sessionKey = Some ''agent:main:main'', rq_sessionId = ''s1'', rq_lane = None\<rparr>"

definition chat_events :: "runs_event list" where
  "chat_events = [ConfigureLanes 0 None None None, AgentRun 1 chat, AgentRun 2 chat,
     ManualCronRun 3 [chat\<lparr>rq_lane := Some ''cron''\<rparr>],
     CallInner 4 \<lparr>rn_lane = ''session:agent:main:main'',
       rn_entry = \<lparr>en_id = 0, en_enqueuedAt = 1, en_warnAfterMs = 2000, en_onWait = False\<rparr>, rn_taskId = 1, rn_gen = 0\<rparr>]"

text \<open>A request that names its own session lane as its global lane.\<close>

definition stuck_events :: "runs_event list" where
  "stuck_events = [AgentRun 1 (chat\<lparr>rq_lane := Some ''session:agent:main:main''\<rparr>),
     CallInner 2 \<lparr>rn_lane = ''session:agent:main:main'',
       rn_entry = \<lparr>en_id = 0, en_enqueuedAt = 1, en_warnAfterMs = 2000, en_onWait = False\<rparr>, rn_taskId = 1, rn_gen = 0\<rparr>]"

definition chat_state :: runs where
  "chat_state = foldl (runs_step (\<lambda>_. None)) runs_init chat_events"

text \<open>Without \<open>event_free\<close> there is a deadlock. The lane of a request is any string of the client
  (\<open>gateway/protocol/schema/agent.ts\<close>); a request that names the lane of its own session waits inside that lane for a
  command which the lane starts only when the request has ended. No task of the state can go on.\<close>

lemma own_session_lane_deadlocks:
  "let s = foldl (runs_step (\<lambda>_. None)) runs_init stuck_events in
     run_ok runs_enabled (runs_step (\<lambda>_. None)) runs_init stuck_events \<and>
     map rn_taskId (cq_runs (ar_cq s)) = [1] \<and> queue_of (ar_cq s) ''session:agent:main:main'' = [1] \<and>
     \<not> list_ex (can_proceed s) (cq_runs (ar_cq s))"
  by code_simp

text \<open>C5: the runs of a session are serialised. However runs, compactions, manual cron runs, clears, drains and
  configuration changes interleave, the lane of a session keeps the limit one, at most one run of its current
  generation is in flight (only \<open>resetAllLanes\<close> starts a new generation), and its commands are dispatched in the
  order in which they were accepted.\<close>

theorem session_runs_serialized:
  assumes "runs_reachable lookup s" "lane = normalizeLane (sessionLaneOf key sessionId)"
  shows "length (current_runs (ar_cq s) lane) \<le> 1 \<and> lane_limit (ar_cq s) lane = 1 \<and>
    logged (accepted_in lane) (cq_log (ar_cq s)) =
      logged (dispatched_in lane) (cq_log (ar_cq s)) @ queue_of (ar_cq s) lane"
proof -
  have inv: "cq_reachable (ar_cq s)" "sessions_serial (ar_cq s)"
    using agent_machine.inv_reach [OF assms(1)] by (simp_all add: base_inv_def)
  have "js_starts_with lane ''session:''"
    using rank_session [of "js_or (js_trim (js_nullish key [])) sessionId"]
    by (auto simp: assms(2) sessionLaneOf_def lane_rank_def split: if_splits)
  then show ?thesis
    using inv(2) current_runs_count [of "ar_cq s" lane] reachable_invD [OF inv(1)]
    by (auto simp: sessions_serial_def log_inv_def log_ok_def)
qed

theorem session_runs_serialized_witness:
  "map rn_taskId (current_runs (ar_cq chat_state) ''session:agent:main:main'') = [1] \<and>
   queue_of (ar_cq chat_state) ''session:agent:main:main'' = [1] \<and>
   length (current_runs (ar_cq chat_state) ''session:agent:main:main'') \<le> 1"
proof -
  have r: "runs_reachable (\<lambda>_. None) chat_state"
    unfolding chat_state_def by (rule reach_from_init) code_simp
  have l: "''session:agent:main:main'' = normalizeLane (sessionLaneOf (Some ''agent:main:main'') ''s1'')" by code_simp
  have "map rn_taskId (current_runs (ar_cq chat_state) ''session:agent:main:main'') = [1]"
    "queue_of (ar_cq chat_state) ''session:agent:main:main'' = [1]" by code_simp+
  with session_runs_serialized [OF r l] show ?thesis by simp
qed

text \<open>C6: agent runs drain and never deadlock, as long as no request names a session lane as its global lane (the
  code accepts such requests, and \<open>own_session_lane_deadlocks\<close> is what may follow). From any state reachable by
  requests of this kind, steps of the tasks alone (a task enqueues the command it awaits next, or ends, successfully or
  not) are bounded in number by the work that is open; as long as something is queued or in flight some task can take
  such a step, so when none can, all lanes are empty and nothing is in flight. Tasks hold a lane while they wait for
  another one, but the lanes are taken in one order (cron, session, global), because the global lane of a run that
  holds the cron lane is never the cron lane.\<close>

theorem agent_runs_drain:
  assumes "runs_reachable_apart lookup s" "run_ok runs_enabled (runs_step lookup) s es" "list_all is_progress es"
    and "t = foldl (runs_step lookup) s es"
  shows "length es \<le> work s \<and>
    (if cq_runs (ar_cq t) = [] \<and> queue_of (ar_cq t) k = [] then True
     else \<exists>e. is_progress e \<and> runs_enabled t e)"
proof -
  note es = progress_apart [OF assms(2,3)]
  have inv: "runs_inv s" by (rule apart_machine.inv_reach [OF assms(1)])
  have t: "runs_inv t"
    unfolding assms(4) by (rule apart_machine.inv_reach [OF reach_run [OF assms(1) es]])
  have "\<exists>e. is_progress e \<and> runs_enabled t e" if "\<not> (cq_runs (ar_cq t) = [] \<and> queue_of (ar_cq t) k = [])"
  proof -
    have "list_ex (can_proceed t) (cq_runs (ar_cq t))" using quiet_means_done [OF t, of k] that by blast
    then obtain r where r: "r \<in> set (cq_runs (ar_cq t))" "can_proceed t r" by (auto simp: list_ex_iff)
    then have "runs_enabled t (FinishRun 0 r False)" by simp
    then show ?thesis by (intro exI [of _ "FinishRun 0 r False"]) simp
  qed
  moreover have "length es \<le> work s" using progress_bounded [OF inv es assms(3)] by simp
  ultimately show ?thesis by simp
qed

theorem agent_runs_drain_witness:
  "let t = foldl (runs_step (\<lambda>_. None)) chat_state [FinishRun 5 (last (cq_runs (ar_cq chat_state))) True] in
     length (cq_runs (ar_cq t)) = 2 \<and> (\<exists>e. is_progress e \<and> runs_enabled t e)"
proof -
  let ?es = "[FinishRun 5 (last (cq_runs (ar_cq chat_state))) True]"
  have r: "runs_reachable_apart (\<lambda>_. None) chat_state"
    unfolding chat_state_def by (rule reach_from_init) code_simp
  have es: "run_ok runs_enabled (runs_step (\<lambda>_. None)) chat_state ?es" "list_all is_progress ?es" by code_simp+
  have two: "length (cq_runs (ar_cq (foldl (runs_step (\<lambda>_. None)) chat_state ?es))) = 2" by code_simp
  then have "cq_runs (ar_cq (foldl (runs_step (\<lambda>_. None)) chat_state ?es)) \<noteq> []" by fastforce
  with two agent_runs_drain [OF r es refl, of "''session:agent:main:main''"] show ?thesis
    by (simp only: Let_def simp_thms if_False)
qed

end
