(* ===== verification/OperatorScopes.thy ===== *)
theory OperatorScopes
  imports JsPrelude
begin

text \<open>
  Roles and scopes at the gateway: the scopes of a request and how one set of scopes covers another
  (\<open>src/shared/operator-scope-compat.ts\<close>, \<open>src/shared/device-auth.ts\<close>), the scopes a bootstrap profile hands over
  (\<open>src/shared/device-bootstrap-profile.ts\<close>), the scope each gateway method needs (\<open>src/gateway/method-scopes.ts\<close>,
  \<open>src/shared/gateway-method-policy.ts\<close>, \<open>src/gateway/role-policy.ts\<close>, \<open>src/gateway/server-methods.ts\<close>) and the
  scopes an approver of node commands needs (\<open>src/infra/node-pairing-authz.ts\<close>). The scopes that plugins give to
  their methods are a parameter.
\<close>

section \<open>Sets of strings\<close>

text \<open>\<open>[...new Set(xs)]\<close>: the first occurrences, in order.\<close>

definition js_set :: "'a list \<Rightarrow> 'a list" where
  "js_set xs = rev (remdups (rev xs))"

lemma set_js_set [simp]: "set (js_set xs) = set xs"
  by (simp add: js_set_def)

lemma distinct_js_set [simp]: "distinct (js_set xs)"
  by (simp add: js_set_def)

lemma js_set_Nil_iff [simp]: "js_set xs = [] \<longleftrightarrow> xs = []" "js_set [] = []"
  by (simp_all add: js_set_def)

text \<open>The default order of \<open>toSorted\<close>: by UTF-16 code units.\<close>

fun code_units_le :: "string \<Rightarrow> string \<Rightarrow> bool" where
  "code_units_le [] t \<longleftrightarrow> True"
| "code_units_le (c # s) [] \<longleftrightarrow> False"
| "code_units_le (c # s) (d # t) \<longleftrightarrow>
     (let a = (of_char c :: nat); b = of_char d in a < b \<or> (a = b \<and> code_units_le s t))"

lemma set_to_sorted [simp]: "set (to_sorted le xs) = set xs"
  by (metis set_mset_mset to_sorted_mset)

text \<open>Trimmed, without empty entries.\<close>

definition trimmed_entries :: "string list \<Rightarrow> string list" where
  "trimmed_entries xs = filter (\<lambda>s. s \<noteq> []) (map js_trim xs)"

lemma trimmed_entries_append [simp]: "trimmed_entries (xs @ ys) = trimmed_entries xs @ trimmed_entries ys"
  by (simp add: trimmed_entries_def)

lemma trimmed_entries_Nil [simp]: "trimmed_entries [] = []"
  by (simp add: trimmed_entries_def)

lemma trimmed_entries_single: "trimmed_entries [s] = (if js_trim s = [] then [] else [js_trim s])"
  by (simp add: trimmed_entries_def)

lemma set_trimmed_entries: "set (trimmed_entries xs) = {s. s \<noteq> [] \<and> (\<exists>x\<in>set xs. s = js_trim x)}"
  by (auto simp: trimmed_entries_def)

lemma trimmed_entries_trim: "s \<in> set (trimmed_entries xs) \<Longrightarrow> js_trim s = s \<and> s \<noteq> []"
  by (auto simp: set_trimmed_entries)

lemma trimmed_entries_idem: "\<forall>x\<in>set xs. js_trim x = x \<and> x \<noteq> [] \<Longrightarrow> trimmed_entries xs = xs"
  by (induction xs) (simp_all add: trimmed_entries_def)

section \<open>Scopes\<close>

datatype operator_scope = ADMIN_SCOPE | READ_SCOPE | WRITE_SCOPE | APPROVALS_SCOPE | PAIRING_SCOPE | TALK_SECRETS_SCOPE

fun scope_text :: "operator_scope \<Rightarrow> string" where
  "scope_text ADMIN_SCOPE = ''operator.admin''"
| "scope_text READ_SCOPE = ''operator.read''"
| "scope_text WRITE_SCOPE = ''operator.write''"
| "scope_text APPROVALS_SCOPE = ''operator.approvals''"
| "scope_text PAIRING_SCOPE = ''operator.pairing''"
| "scope_text TALK_SECRETS_SCOPE = ''operator.talk.secrets''"

declare scope_text.simps [simp del]

definition OPERATOR_ROLE :: string where "OPERATOR_ROLE = ''operator''"
definition OPERATOR_SCOPE_PREFIX :: string where "OPERATOR_SCOPE_PREFIX = ''operator.''"

definition is_operator_scope :: "string \<Rightarrow> bool" where
  "is_operator_scope s \<longleftrightarrow> js_starts_with s OPERATOR_SCOPE_PREFIX"

lemma scope_text_operator [simp]: "is_operator_scope (scope_text sc)"
  by (cases sc; simp only:; code_simp)

lemma scope_text_trim [simp]: "js_trim (scope_text sc) = scope_text sc"
  by (cases sc; simp only:; code_simp)

lemma scope_text_nonempty [simp]: "scope_text sc \<noteq> []"
  by (cases sc; simp only:; code_simp)

lemma scope_text_inj [simp]: "scope_text a = scope_text b \<longleftrightarrow> a = b"
  by (cases a; cases b) (simp_all add: scope_text.simps)

definition normalizeScopeList :: "string list \<Rightarrow> string list" where
  "normalizeScopeList scopes = js_set (trimmed_entries scopes)"

definition operatorScopeSatisfied :: "string \<Rightarrow> string list \<Rightarrow> bool" where
  "operatorScopeSatisfied requestedScope granted \<longleftrightarrow>
     (if \<not> is_operator_scope requestedScope then False
      else if scope_text ADMIN_SCOPE \<in> set granted then True
      else if requestedScope = scope_text READ_SCOPE
        then scope_text READ_SCOPE \<in> set granted \<or> scope_text WRITE_SCOPE \<in> set granted
      else if requestedScope = scope_text WRITE_SCOPE then scope_text WRITE_SCOPE \<in> set granted
      else requestedScope \<in> set granted)"

definition roleScopesAllow :: "string \<Rightarrow> string list \<Rightarrow> string list \<Rightarrow> bool" where
  "roleScopesAllow role requestedScopes allowedScopes =
     (let requested = normalizeScopeList requestedScopes in
      if requested = [] then True
      else let allowed = normalizeScopeList allowedScopes in
      if allowed = [] then False
      else if js_trim role \<noteq> OPERATOR_ROLE then
        let prefix = js_trim role @ ''.'' in
        list_all (\<lambda>scope. js_starts_with scope prefix \<and> scope \<in> set allowed) requested
      else list_all (\<lambda>scope. operatorScopeSatisfied scope allowed) requested)"

definition resolveMissingRequestedScope :: "string \<Rightarrow> string list \<Rightarrow> string list \<Rightarrow> string option" where
  "resolveMissingRequestedScope role requestedScopes allowedScopes =
     find (\<lambda>scope. \<not> roleScopesAllow role [scope] allowedScopes) requestedScopes"

text \<open>\<open>undefined\<close> is \<open>None\<close>.\<close>

definition normalizeDeviceAuthScopes :: "string list option \<Rightarrow> string list" where
  "normalizeDeviceAuthScopes scopes = (case scopes of
       None \<Rightarrow> []
     | Some xs \<Rightarrow>
         let out = js_set (trimmed_entries xs);
             out1 = (if scope_text ADMIN_SCOPE \<in> set out
               then js_set (out @ [scope_text READ_SCOPE, scope_text WRITE_SCOPE])
               else if scope_text WRITE_SCOPE \<in> set out then js_set (out @ [scope_text READ_SCOPE]) else out)
         in to_sorted code_units_le out1)"

subsection \<open>Which scopes cover which\<close>

lemma normalizeScopeList_set [simp]: "set (normalizeScopeList xs) = set (trimmed_entries xs)"
  by (simp add: normalizeScopeList_def)

lemma normalizeScopeList_Nil_iff [simp]: "normalizeScopeList xs = [] \<longleftrightarrow> trimmed_entries xs = []"
  by (simp add: normalizeScopeList_def)

lemma satisfied_operator: "operatorScopeSatisfied s g \<Longrightarrow> is_operator_scope s"
  by (simp add: operatorScopeSatisfied_def split: if_splits)

lemma satisfied_cong: "set g = set h \<Longrightarrow> operatorScopeSatisfied s g = operatorScopeSatisfied s h"
  by (simp add: operatorScopeSatisfied_def)

lemma satisfied_member: "s \<in> set g \<Longrightarrow> is_operator_scope s \<Longrightarrow> operatorScopeSatisfied s g"
  by (auto simp: operatorScopeSatisfied_def)

lemma satisfied_cases:
  assumes "operatorScopeSatisfied s g"
  obtains "scope_text ADMIN_SCOPE \<in> set g" | "s \<in> set g"
    | "s = scope_text READ_SCOPE" "scope_text WRITE_SCOPE \<in> set g"
  using assms by (auto simp: operatorScopeSatisfied_def split: if_splits)

lemma satisfied_admin: "scope_text ADMIN_SCOPE \<in> set g \<Longrightarrow> is_operator_scope s \<Longrightarrow> operatorScopeSatisfied s g"
  by (simp add: operatorScopeSatisfied_def)

lemma satisfied_read: "scope_text WRITE_SCOPE \<in> set g \<Longrightarrow> operatorScopeSatisfied (scope_text READ_SCOPE) g"
  by (simp add: operatorScopeSatisfied_def)

lemma satisfied_by_one:
  assumes "operatorScopeSatisfied s g"
  shows "\<exists>x\<in>set g. is_operator_scope x \<and> operatorScopeSatisfied s [x]"
  using assms
proof (cases rule: satisfied_cases)
  case 1
  with satisfied_operator [OF assms] show ?thesis by (intro bexI [OF _ 1]) (simp add: satisfied_admin)
next
  case 2
  with satisfied_operator [OF assms] show ?thesis by (intro bexI [OF _ 2]) (simp add: satisfied_member)
next
  case 3
  then show ?thesis by (intro bexI [OF _ 3(2)]) (simp add: satisfied_read)
qed

lemma satisfied_trans:
  assumes "operatorScopeSatisfied s [x]" "operatorScopeSatisfied x g"
  shows "operatorScopeSatisfied s g"
  using assms(1)
proof (cases rule: satisfied_cases)
  case 1
  then have "scope_text ADMIN_SCOPE \<in> set g" using assms(2) by (simp add: operatorScopeSatisfied_def split: if_splits)
  then show ?thesis using satisfied_operator [OF assms(1)] by (rule satisfied_admin)
next
  case 2
  then show ?thesis using assms(2) by simp
next
  case 3
  then show ?thesis using assms(2) by (auto simp: operatorScopeSatisfied_def split: if_splits)
qed

lemma satisfied_through:
  "operatorScopeSatisfied s g \<Longrightarrow> (\<And>x. x \<in> set g \<Longrightarrow> is_operator_scope x \<Longrightarrow> operatorScopeSatisfied x h) \<Longrightarrow>
   operatorScopeSatisfied s h"
  using satisfied_by_one satisfied_trans by blast

lemma roleScopesAllow_operator:
  "js_trim role = OPERATOR_ROLE \<Longrightarrow>
   roleScopesAllow role req allowed \<longleftrightarrow> (\<forall>s\<in>set (trimmed_entries req). operatorScopeSatisfied s (normalizeScopeList allowed))"
  by (cases "trimmed_entries req") (auto simp: roleScopesAllow_def Let_def list_all_iff operatorScopeSatisfied_def)

text \<open>For every role, an operator scope that is allowed is covered.\<close>

lemma roleScopesAllow_covers:
  assumes "roleScopesAllow role req allowed" "s \<in> set (trimmed_entries req)" "is_operator_scope s"
  shows "operatorScopeSatisfied s (normalizeScopeList allowed)"
proof (cases "js_trim role = OPERATOR_ROLE")
  case False
  then have "s \<in> set (normalizeScopeList allowed)"
    using assms(1,2) by (auto simp: roleScopesAllow_def Let_def list_all_iff split: if_splits)
  then show ?thesis using assms(3) by (rule satisfied_member)
qed (use assms roleScopesAllow_operator in blast)

lemma no_missing_scope:
  "resolveMissingRequestedScope role req allowed = None \<longleftrightarrow> (\<forall>s\<in>set req. roleScopesAllow role [s] allowed)"
  by (auto simp: resolveMissingRequestedScope_def find_None_iff)

lemma missing_scope_nonempty:
  "resolveMissingRequestedScope role req allowed = Some s \<Longrightarrow> js_trim s \<noteq> []"
  by (auto simp: resolveMissingRequestedScope_def find_Some_iff roleScopesAllow_def trimmed_entries_single)

lemma normalizeDeviceAuthScopes_None [simp]: "normalizeDeviceAuthScopes None = []"
  by (simp add: normalizeDeviceAuthScopes_def)

lemma set_normalizeDeviceAuthScopes:
  "set (normalizeDeviceAuthScopes (Some xs)) = set (trimmed_entries xs) \<union>
     (if scope_text ADMIN_SCOPE \<in> set (trimmed_entries xs) then {scope_text READ_SCOPE, scope_text WRITE_SCOPE} else {}) \<union>
     (if scope_text WRITE_SCOPE \<in> set (trimmed_entries xs) then {scope_text READ_SCOPE} else {})"
  by (auto simp: normalizeDeviceAuthScopes_def Let_def)

lemma normalizeDeviceAuthScopes_trim:
  "s \<in> set (normalizeDeviceAuthScopes xs) \<Longrightarrow> js_trim s = s \<and> s \<noteq> []"
  by (cases xs) (auto simp: set_normalizeDeviceAuthScopes split: if_splits dest: trimmed_entries_trim)

lemma trimmed_normalizeDeviceAuthScopes [simp]:
  "trimmed_entries (normalizeDeviceAuthScopes xs) = normalizeDeviceAuthScopes xs"
  by (rule trimmed_entries_idem) (use normalizeDeviceAuthScopes_trim in blast)

lemma trimmed_filter_normalizeDeviceAuthScopes [simp]:
  "trimmed_entries (filter P (normalizeDeviceAuthScopes xs)) = filter P (normalizeDeviceAuthScopes xs)"
  by (rule trimmed_entries_idem) (use normalizeDeviceAuthScopes_trim in auto)

text \<open>Implied scopes are covered by the scopes they come from.\<close>

lemma normalizeDeviceAuthScopes_covered:
  "s \<in> set (normalizeDeviceAuthScopes (Some xs)) \<Longrightarrow> is_operator_scope s \<Longrightarrow>
   operatorScopeSatisfied s (normalizeScopeList xs)"
  by (auto simp: set_normalizeDeviceAuthScopes operatorScopeSatisfied_def split: if_splits)

lemma normalizeDeviceAuthScopes_extends:
  "s \<in> set (trimmed_entries xs) \<Longrightarrow> s \<in> set (normalizeDeviceAuthScopes (Some xs))"
  by (simp add: set_normalizeDeviceAuthScopes)

section \<open>Bootstrap profiles\<close>

record bootstrap_profile =
  bp_roles :: "string list"
  bp_scopes :: "string list"

definition BOOTSTRAP_HANDOFF_OPERATOR_SCOPES :: "string list" where
  "BOOTSTRAP_HANDOFF_OPERATOR_SCOPES =
     map scope_text [APPROVALS_SCOPE, READ_SCOPE, TALK_SECRETS_SCOPE, WRITE_SCOPE]"

definition PAIRING_SETUP_BOOTSTRAP_PROFILE :: bootstrap_profile where
  "PAIRING_SETUP_BOOTSTRAP_PROFILE =
     \<lparr>bp_roles = [''node'', ''operator''], bp_scopes = BOOTSTRAP_HANDOFF_OPERATOR_SCOPES\<rparr>"

definition resolveBootstrapProfileScopesForRole :: "string \<Rightarrow> string list \<Rightarrow> string list" where
  "resolveBootstrapProfileScopesForRole role scopes =
     (if js_trim role = OPERATOR_ROLE
      then filter (\<lambda>scope. scope \<in> set BOOTSTRAP_HANDOFF_OPERATOR_SCOPES) (normalizeDeviceAuthScopes (Some scopes))
      else [])"

definition normalizeBootstrapRoles :: "string list option \<Rightarrow> string list" where
  "normalizeBootstrapRoles roles = (case roles of
       None \<Rightarrow> []
     | Some xs \<Rightarrow> to_sorted code_units_le (js_set (trimmed_entries xs)))"

text \<open>A profile input has both lists or misses one; a missing input is both missing.\<close>

definition normalizeDeviceBootstrapProfile :: "string list option \<Rightarrow> string list option \<Rightarrow> bootstrap_profile" where
  "normalizeDeviceBootstrapProfile roles scopes =
     \<lparr>bp_roles = normalizeBootstrapRoles roles,
      bp_scopes = normalizeDeviceAuthScopes (Some (js_nullish scopes []))\<rparr>"

section \<open>Methods of the gateway\<close>

definition CLI_DEFAULT_OPERATOR_SCOPES :: "operator_scope list" where
  "CLI_DEFAULT_OPERATOR_SCOPES =
     [ADMIN_SCOPE, READ_SCOPE, WRITE_SCOPE, APPROVALS_SCOPE, PAIRING_SCOPE, TALK_SECRETS_SCOPE]"

definition NODE_ROLE_METHODS :: "string list" where
  "NODE_ROLE_METHODS = [''node.invoke.result'', ''node.event'', ''node.pending.drain'',
     ''node.canvas.capability.refresh'', ''node.pending.pull'', ''node.pending.ack'', ''skills.bins'']"

definition METHOD_SCOPE_GROUPS :: "(operator_scope \<times> string list) list" where
  "METHOD_SCOPE_GROUPS = [
     (APPROVALS_SCOPE, [''exec.approval.get'', ''exec.approval.list'', ''exec.approval.request'',
       ''exec.approval.waitDecision'', ''exec.approval.resolve'', ''plugin.approval.list'',
       ''plugin.approval.request'', ''plugin.approval.waitDecision'', ''plugin.approval.resolve'']),
     (PAIRING_SCOPE, [''node.pair.request'', ''node.pair.list'', ''node.pair.reject'', ''node.pair.verify'',
       ''node.pair.approve'', ''device.pair.list'', ''device.pair.approve'', ''device.pair.reject'',
       ''device.pair.remove'', ''device.token.rotate'', ''device.token.revoke'', ''node.rename'']),
     (READ_SCOPE, [''health'', ''doctor.memory.status'', ''doctor.memory.dreamDiary'', ''logs.tail'',
       ''channels.status'', ''status'', ''usage.status'', ''usage.cost'', ''tts.status'', ''tts.providers'',
       ''models.list'', ''tools.catalog'', ''tools.effective'', ''agents.list'', ''agents.activity'',
       ''agent.identity.get'', ''skills.status'', ''skills.search'', ''skills.detail'', ''voicewake.get'',
       ''providers.list'', ''providers.listModels'', ''sessions.list'', ''sessions.get'', ''sessions.preview'',
       ''sessions.resolve'', ''sessions.compaction.list'', ''sessions.compaction.get'', ''sessions.subscribe'',
       ''sessions.unsubscribe'', ''sessions.messages.subscribe'', ''sessions.messages.unsubscribe'',
       ''sessions.usage'', ''sessions.usage.timeseries'', ''sessions.usage.logs'', ''cron.list'',
       ''cron.status'', ''cron.runs'', ''gateway.identity.get'', ''system-presence'', ''last-heartbeat'',
       ''node.list'', ''node.describe'', ''chat.history'', ''config.get'', ''config.schema.lookup'',
       ''talk.config'', ''agents.files.list'', ''agents.jobs.list'', ''agents.files.get'']),
     (WRITE_SCOPE, [''send'', ''poll'', ''agent'', ''agent.wait'', ''wake'', ''talk.mode'', ''talk.speak'',
       ''tts.enable'', ''tts.disable'', ''tts.convert'', ''tts.setProvider'', ''voicewake.set'',
       ''node.invoke'', ''chat.send'', ''chat.abort'', ''sessions.create'', ''sessions.send'',
       ''sessions.steer'', ''sessions.abort'', ''sessions.compaction.branch'', ''push.test'',
       ''node.pending.enqueue'']),
     (ADMIN_SCOPE, [''channels.logout'', ''agents.create'', ''agents.update'', ''agents.delete'',
       ''skills.install'', ''skills.update'', ''providers.setKey'', ''providers.deleteKey'',
       ''secrets.reload'', ''secrets.resolve'', ''cron.add'', ''cron.update'', ''cron.remove'', ''cron.run'',
       ''sessions.patch'', ''sessions.reset'', ''sessions.delete'', ''sessions.compact'',
       ''sessions.compaction.restore'', ''connect'', ''chat.inject'', ''web.login.start'', ''web.login.wait'',
       ''set-heartbeats'', ''system-event'', ''agents.files.set'', ''gateway.restart'']),
     (TALK_SECRETS_SCOPE, [])]"

text \<open>\<open>new Map(entries)\<close>: the last entry of a method wins.\<close>

definition METHOD_SCOPE_BY_NAME :: "string \<Rightarrow> operator_scope option" where
  "METHOD_SCOPE_BY_NAME m =
     map_option fst (find (\<lambda>(scope, methods). m \<in> set methods) (rev METHOD_SCOPE_GROUPS))"

definition RESERVED_ADMIN_GATEWAY_METHOD_PREFIXES :: "string list" where
  "RESERVED_ADMIN_GATEWAY_METHOD_PREFIXES = [''exec.approvals.'', ''config.'', ''wizard.'', ''update.'']"

definition isReservedAdminGatewayMethod :: "string \<Rightarrow> bool" where
  "isReservedAdminGatewayMethod m = list_ex (js_starts_with m) RESERVED_ADMIN_GATEWAY_METHOD_PREFIXES"

definition resolveReservedGatewayMethodScope :: "string \<Rightarrow> operator_scope option" where
  "resolveReservedGatewayMethodScope m = (if \<not> isReservedAdminGatewayMethod m then None else Some ADMIN_SCOPE)"

definition normalizePluginGatewayMethodScope :: "string \<Rightarrow> operator_scope option \<Rightarrow> operator_scope option \<times> bool" where
  "normalizePluginGatewayMethodScope m scope =
     (case resolveReservedGatewayMethodScope m of
        None \<Rightarrow> (scope, False)
      | Some reserved \<Rightarrow> (if scope = None \<or> scope = Some reserved then (scope, False) else (Some reserved, True)))"

text \<open>\<open>plugins\<close>: the scopes of the methods of the active plugin registry.\<close>

definition resolveScopedMethod :: "(string \<Rightarrow> operator_scope option) \<Rightarrow> string \<Rightarrow> operator_scope option" where
  "resolveScopedMethod plugins m = (case METHOD_SCOPE_BY_NAME m of
       Some scope \<Rightarrow> Some scope
     | None \<Rightarrow> (case resolveReservedGatewayMethodScope m of
           Some scope \<Rightarrow> Some scope
         | None \<Rightarrow> plugins m))"

definition isAdminOnlyMethod :: "(string \<Rightarrow> operator_scope option) \<Rightarrow> string \<Rightarrow> bool" where
  "isAdminOnlyMethod plugins m \<longleftrightarrow> resolveScopedMethod plugins m = Some ADMIN_SCOPE"

definition isNodeRoleMethod :: "string \<Rightarrow> bool" where
  "isNodeRoleMethod m \<longleftrightarrow> m \<in> set NODE_ROLE_METHODS"

definition resolveLeastPrivilegeOperatorScopesForMethod ::
    "(string \<Rightarrow> operator_scope option) \<Rightarrow> string \<Rightarrow> operator_scope list" where
  "resolveLeastPrivilegeOperatorScopesForMethod plugins m =
     (case resolveScopedMethod plugins m of Some required \<Rightarrow> [required] | None \<Rightarrow> [])"

text \<open>\<open>None\<close>: allowed; \<open>Some s\<close>: the missing scope.\<close>

definition authorizeOperatorScopesForMethod ::
    "(string \<Rightarrow> operator_scope option) \<Rightarrow> string \<Rightarrow> string list \<Rightarrow> operator_scope option" where
  "authorizeOperatorScopesForMethod plugins m scopes =
     (if scope_text ADMIN_SCOPE \<in> set scopes then None
      else let required = js_nullish (resolveScopedMethod plugins m) ADMIN_SCOPE in
        if required = READ_SCOPE then
          if scope_text READ_SCOPE \<in> set scopes \<or> scope_text WRITE_SCOPE \<in> set scopes then None else Some READ_SCOPE
        else if scope_text required \<in> set scopes then None else Some required)"

definition isGatewayMethodClassified :: "(string \<Rightarrow> operator_scope option) \<Rightarrow> string \<Rightarrow> bool" where
  "isGatewayMethodClassified plugins m \<longleftrightarrow> isNodeRoleMethod m \<or> resolveScopedMethod plugins m \<noteq> None"

datatype gateway_role = OperatorRole | NodeRole

definition parseGatewayRole :: "string \<Rightarrow> gateway_role option" where
  "parseGatewayRole raw =
     (if raw = ''operator'' then Some OperatorRole else if raw = ''node'' then Some NodeRole else None)"

definition roleCanSkipDeviceIdentity :: "gateway_role \<Rightarrow> bool \<Rightarrow> bool" where
  "roleCanSkipDeviceIdentity role sharedAuthOk \<longleftrightarrow> role = OperatorRole \<and> sharedAuthOk"

definition isRoleAuthorizedForMethod :: "gateway_role \<Rightarrow> string \<Rightarrow> bool" where
  "isRoleAuthorizedForMethod role m \<longleftrightarrow> (if isNodeRoleMethod m then role = NodeRole else role = OperatorRole)"

text \<open>The connect parameters of a client that matter here.\<close>

record connect_params =
  cp_role :: "string option"
  cp_scopes :: "string list option"

datatype method_error = UnauthorizedRole string | MissingScope string

definition authorizeGatewayMethod ::
    "(string \<Rightarrow> operator_scope option) \<Rightarrow> string \<Rightarrow> connect_params option \<Rightarrow> method_error option" where
  "authorizeGatewayMethod plugins m client = (case client of
       None \<Rightarrow> None
     | Some connect \<Rightarrow>
         if m = ''health'' then None
         else let roleRaw = js_nullish (cp_role connect) ''operator'' in
         (case parseGatewayRole roleRaw of
            None \<Rightarrow> Some (UnauthorizedRole roleRaw)
          | Some role \<Rightarrow>
              let scopes = js_nullish (cp_scopes connect) [] in
              if \<not> isRoleAuthorizedForMethod role m then Some (UnauthorizedRole roleRaw)
              else if role = NodeRole then None
              else if scope_text ADMIN_SCOPE \<in> set scopes then None
              else map_option (\<lambda>s. MissingScope (scope_text s)) (authorizeOperatorScopesForMethod plugins m scopes)))"

text \<open>The scope check of a method is the relation by which scopes cover each other at pairing.\<close>

definition required_scope :: "(string \<Rightarrow> operator_scope option) \<Rightarrow> string \<Rightarrow> string" where
  "required_scope plugins m = scope_text (js_nullish (resolveScopedMethod plugins m) ADMIN_SCOPE)"

lemma authorize_is_satisfied:
  "authorizeOperatorScopesForMethod plugins m scopes = None \<longleftrightarrow>
   operatorScopeSatisfied (required_scope plugins m) scopes"
  by (auto simp: authorizeOperatorScopesForMethod_def operatorScopeSatisfied_def required_scope_def Let_def)

lemma authorize_operator:
  assumes "cp_role connect = Some ''operator'' \<or> cp_role connect = None" "m \<noteq> ''health''"
  shows "authorizeGatewayMethod plugins m (Some connect) = None \<longleftrightarrow>
    \<not> isNodeRoleMethod m \<and> operatorScopeSatisfied (required_scope plugins m) (js_nullish (cp_scopes connect) [])"
proof -
  have "js_nullish (cp_role connect) ''operator'' = ''operator''" using assms(1) by auto
  then show ?thesis
    using assms(2) by (auto simp: authorizeGatewayMethod_def Let_def parseGatewayRole_def isRoleAuthorizedForMethod_def
        authorize_is_satisfied [symmetric] authorizeOperatorScopesForMethod_def)
qed

section \<open>Approving node commands\<close>

definition NODE_SYSTEM_RUN_COMMANDS :: "string list" where
  "NODE_SYSTEM_RUN_COMMANDS = [''system.run.prepare'', ''system.run'', ''system.which'']"

definition resolveNodePairApprovalScopes :: "string list \<Rightarrow> operator_scope list" where
  "resolveNodePairApprovalScopes commands =
     (if list_ex (\<lambda>c. c \<in> set NODE_SYSTEM_RUN_COMMANDS) commands then [PAIRING_SCOPE, ADMIN_SCOPE]
      else if length commands > 0 then [PAIRING_SCOPE, WRITE_SCOPE]
      else [PAIRING_SCOPE])"

end
