(* ===== verification/PairingFiles.thy ===== *)
theory PairingFiles
  imports OperatorScopes
begin

text \<open>
  What device and node pairing share (\<open>src/infra/pairing-files.ts\<close>, \<open>pairing-pending.ts\<close>, \<open>pairing-token.ts\<close>):
  expiry of pending requests, reconciling a new request with the pending ones of the same subject, and the check
  of a token. The locale is the contract that both stores meet: a subject has at most one pending request.
  The secure comparison of \<open>src/security/secret-equal.ts\<close> is equality (of SHA-256 digests in the code).
\<close>

definition verifyPairingToken :: "string \<Rightarrow> string \<Rightarrow> bool" where
  "verifyPairingToken provided expected =
     (if js_trim provided = [] \<or> js_trim expected = [] then False else provided = expected)"

definition pruneExpiredPending :: "('p \<Rightarrow> int) \<Rightarrow> int \<Rightarrow> int \<Rightarrow> (string, 'p) jsmap \<Rightarrow> (string, 'p) jsmap" where
  "pruneExpiredPending ts nowMs ttlMs pendingById = filter (\<lambda>(_, r). \<not> nowMs - ts r > ttlMs) pendingById"

text \<open>The pending requests of a subject, the latest first (\<open>toSorted\<close> is stable).\<close>

definition latest_first :: "('p \<Rightarrow> int) \<Rightarrow> 'p list \<Rightarrow> 'p list" where
  "latest_first ts = to_sorted (\<lambda>a b. ts b \<le> ts a)"

definition pending_of :: "('p \<Rightarrow> string) \<Rightarrow> ('p \<Rightarrow> int) \<Rightarrow> string \<Rightarrow> (string, 'p) jsmap \<Rightarrow> 'p list" where
  "pending_of subject ts x pendingById =
     latest_first ts (filter (\<lambda>r. subject r = x) (map snd pendingById))"

definition reconcilePendingPairingRequests ::
    "('p \<Rightarrow> string) \<Rightarrow> ('p \<Rightarrow> 'i \<Rightarrow> bool) \<Rightarrow> ('p \<Rightarrow> 'i \<Rightarrow> 'p) \<Rightarrow> ('p list \<Rightarrow> 'i \<Rightarrow> 'p) \<Rightarrow>
     'p list \<Rightarrow> 'i \<Rightarrow> (string, 'p) jsmap \<Rightarrow> 'p \<times> bool \<times> (string, 'p) jsmap" where
  "reconcilePendingPairingRequests requestId canRefreshSingle refreshSingle buildReplacement existing incoming pendingById =
     (if length existing = 1 \<and> canRefreshSingle (hd existing) incoming then
        let refreshed = refreshSingle (hd existing) incoming
        in (refreshed, False, jm_set (requestId refreshed) refreshed pendingById)
      else
        let pending1 = fold (\<lambda>e. jm_delete (requestId e)) existing pendingById;
            request = buildReplacement existing incoming
        in (request, True, jm_set (requestId request) request pending1))"

text \<open>\<open>rejectPendingPairingRequest\<close> on the loaded requests: what is rejected and what is left.\<close>

definition rejectPendingPairingRequest :: "string \<Rightarrow> (string, 'p) jsmap \<Rightarrow> ('p \<times> (string, 'p) jsmap) option" where
  "rejectPendingPairingRequest requestId pendingById = (case jm_get pendingById requestId of
       None \<Rightarrow> None
     | Some pending \<Rightarrow> Some (pending, jm_delete requestId pendingById))"

section \<open>Facts on the pending requests\<close>

lemma prune_get:
  "jm_ok m \<Longrightarrow> jm_get (pruneExpiredPending ts nowMs ttl m) k =
     (case jm_get m k of Some r \<Rightarrow> if nowMs - ts r > ttl then None else Some r | None \<Rightarrow> None)"
  using jm_get_filter [of m "\<lambda>_ r. \<not> nowMs - ts r > ttl" k]
  by (simp add: pruneExpiredPending_def split: option.splits)

lemma prune_ok [simp]: "jm_ok m \<Longrightarrow> jm_ok (pruneExpiredPending ts nowMs ttl m)"
  by (simp add: pruneExpiredPending_def)

lemma set_pending_of [simp]: "set (pending_of subject ts x m) = {r. \<exists>k. (k, r) \<in> set m \<and> subject r = x}"
  by (force simp: pending_of_def latest_first_def)

lemma length_latest_first [simp]: "length (latest_first ts xs) = length xs"
  by (metis latest_first_def size_mset to_sorted_mset)

lemma get_delete_all: "jm_get (fold (\<lambda>e. jm_delete (f e)) es m) k = (if k \<in> f ` set es then None else jm_get m k)"
  by (induction es arbitrary: m) auto

lemma ok_delete_all [simp]: "jm_ok m \<Longrightarrow> jm_ok (fold (\<lambda>e. jm_delete (f e)) es m)"
  by (induction es arbitrary: m) simp_all

text \<open>Requests are stored under their id, one for each subject.\<close>

definition pending_wf :: "('p \<Rightarrow> string) \<Rightarrow> ('p \<Rightarrow> string) \<Rightarrow> (string, 'p) jsmap \<Rightarrow> bool" where
  "pending_wf requestId subject m \<longleftrightarrow> jm_ok m \<and>
     (\<forall>k r. jm_get m k = Some r \<longrightarrow> requestId r = k) \<and>
     (\<forall>k r k' r'. jm_get m k = Some r \<longrightarrow> jm_get m k' = Some r' \<longrightarrow> subject r = subject r' \<longrightarrow> k = k')"

lemma pending_wf_Nil [simp]: "pending_wf requestId subject []"
  by (simp add: pending_wf_def)

lemma pending_wf_prune: "pending_wf requestId subject m \<Longrightarrow> pending_wf requestId subject (pruneExpiredPending ts nowMs ttl m)"
  unfolding pending_wf_def by (auto simp: prune_get split: option.splits if_splits)

lemma pending_wf_delete: "pending_wf requestId subject m \<Longrightarrow> pending_wf requestId subject (jm_delete k m)"
  unfolding pending_wf_def by (auto split: if_splits)

lemma pending_wf_reject:
  "pending_wf requestId subject m \<Longrightarrow> rejectPendingPairingRequest k m = Some (p, m') \<Longrightarrow> pending_wf requestId subject m'"
  by (auto simp: rejectPendingPairingRequest_def pending_wf_delete split: option.splits)

lemma pending_of_length:
  assumes "pending_wf requestId subject m"
  shows "length (pending_of subject ts x m) \<le> 1"
proof -
  have len: "length (pending_of subject ts x m) = length (filter (\<lambda>(k, r). subject r = x) m)"
    by (simp add: pending_of_def filter_map comp_def case_prod_unfold)
  have "(k, r) = (k', r')" if "(k, r) \<in> set m" "(k', r') \<in> set m" "subject r = x" "subject r' = x" for k r k' r'
    using assms that jm_get_iff [of m] unfolding pending_wf_def by (metis option.inject)
  then have "\<forall>a\<in>set (filter (\<lambda>(k, r). subject r = x) m). \<forall>b\<in>set (filter (\<lambda>(k, r). subject r = x) m). a = b"
    by auto
  moreover have "distinct (filter (\<lambda>(k, r). subject r = x) m)"
    using assms by (auto simp: pending_wf_def distinct_map)
  ultimately have "length (filter (\<lambda>(k, r). subject r = x) m) \<le> 1"
    by (metis One_nat_def card_le_Suc0_iff_eq distinct_card List.finite_set)
  then show ?thesis by (simp add: len)
qed

text \<open>The contract of a pairing store on its requests: refreshing keeps id and subject, a replacement is for the
  same subject.\<close>

locale pairing_requests =
  fixes requestId :: "'p \<Rightarrow> string"
    and subject :: "'p \<Rightarrow> string"
    and ts :: "'p \<Rightarrow> int"
    and subject_in :: "'i \<Rightarrow> string"
    and canRefresh :: "'p \<Rightarrow> 'i \<Rightarrow> bool"
    and refresh :: "'p \<Rightarrow> 'i \<Rightarrow> 'p"
    and build :: "'p list \<Rightarrow> 'i \<Rightarrow> 'p"
  assumes refresh_id: "requestId (refresh e i) = requestId e"
    and refresh_subject: "subject (refresh e i) = subject e"
    and build_subject: "subject (build es i) = subject_in i"
begin

definition reconcile :: "'i \<Rightarrow> (string, 'p) jsmap \<Rightarrow> 'p \<times> bool \<times> (string, 'p) jsmap" where
  "reconcile i m = reconcilePendingPairingRequests requestId canRefresh refresh build (pending_of subject ts (subject_in i) m) i m"

lemma reconcile_wf:
  assumes wf: "pending_wf requestId subject m" and fresh: "jm_get m (requestId (build es i)) = None"
    and es: "es = pending_of subject ts (subject_in i) m"
  shows "pending_wf requestId subject (snd (snd (reconcile i m))) \<and>
    jm_get (snd (snd (reconcile i m))) (requestId (fst (reconcile i m))) = Some (fst (reconcile i m)) \<and>
    subject (fst (reconcile i m)) = subject_in i"
proof (cases "length es = 1 \<and> canRefresh (hd es) i")
  case True
  then obtain e where e: "es = [e]" by (cases es) auto
  have "set es = {e}" by (simp add: e)
  then obtain k where k: "(k, e) \<in> set m" "subject e = subject_in i" by (auto simp: es)
  have ke: "jm_get m k = Some e" "requestId e = k"
    using wf k(1) jm_get_iff [of m k e] by (auto simp: pending_wf_def)
  have eq: "reconcile i m = (refresh e i, False, jm_set k (refresh e i) m)"
    using True e by (simp add: reconcile_def reconcilePendingPairingRequests_def es [symmetric] refresh_id ke(2) Let_def)
  have "pending_wf requestId subject (jm_set k (refresh e i) m)"
    using wf ke unfolding pending_wf_def by (auto simp: refresh_id refresh_subject split: if_splits)
  then show ?thesis using k(2) by (simp add: eq refresh_id refresh_subject ke(2))
next
  case False
  let ?m = "fold (\<lambda>e. jm_delete (requestId e)) es m" and ?r = "build es i"
  have eq: "reconcile i m = (?r, True, jm_set (requestId ?r) ?r ?m)"
    using False by (auto simp: reconcile_def reconcilePendingPairingRequests_def es [symmetric] Let_def)
  have gone: "subject r \<noteq> subject_in i" if "jm_get ?m k = Some r" for k r
  proof
    assume "subject r = subject_in i"
    moreover have "jm_get m k = Some r" "k \<notin> requestId ` set es"
      using that by (auto simp: get_delete_all split: if_splits)
    ultimately have "r \<in> set es" "requestId r = k"
      using wf jm_get_iff [of m k r] by (auto simp: es pending_wf_def)
    with \<open>k \<notin> requestId ` set es\<close> show False by blast
  qed
  have sub: "jm_get m k = Some r" if "jm_get ?m k = Some r" for k r
    using that by (simp add: get_delete_all split: if_splits)
  have "pending_wf requestId subject (jm_set (requestId ?r) ?r ?m)"
    unfolding pending_wf_def
  proof (intro conjI allI impI)
    show "jm_ok (jm_set (requestId ?r) ?r ?m)" using wf by (simp add: pending_wf_def)
  next
    fix k r assume "jm_get (jm_set (requestId ?r) ?r ?m) k = Some r"
    then have "k = requestId ?r \<and> r = ?r \<or> jm_get m k = Some r" using sub by (auto split: if_splits)
    then show "requestId r = k" using wf unfolding pending_wf_def by blast
  next
    fix k r k' r'
    assume h: "jm_get (jm_set (requestId ?r) ?r ?m) k = Some r" "jm_get (jm_set (requestId ?r) ?r ?m) k' = Some r'"
      "subject r = subject r'"
    show "k = k'"
    proof (cases "k = requestId ?r \<or> k' = requestId ?r")
      case True
      show ?thesis
      proof (rule ccontr)
        assume "k \<noteq> k'"
        with True h have "(subject r = subject_in i \<and> jm_get ?m k' = Some r') \<or> (subject r' = subject_in i \<and> jm_get ?m k = Some r)"
          by (auto simp: build_subject split: if_splits)
        with gone h(3) show False by metis
      qed
    next
      case False
      with h(1,2) sub have "jm_get m k = Some r" "jm_get m k' = Some r'" by simp_all
      with wf h(3) show ?thesis unfolding pending_wf_def by blast
    qed
  qed
  then show ?thesis by (simp add: eq build_subject)
qed

end

end
