(* ===== verification/DevicePairing.thy ===== *)
theory DevicePairing
  imports PairingFiles
begin

text \<open>
  Devices paired with the gateway, \<open>src/infra/device-pairing.ts\<close>: pending requests, approvals with the scopes of
  the approver, and one token for each role of a device. The state is the pair of files; every operation loads it,
  drops expired requests and writes it back unless it returns early, under one lock, so an operation is one step.
  Fresh request ids and tokens are arguments (one token for each role of an approval). Keys of objects are plain strings:
  names of \<open>Object.prototype\<close> are not treated apart.
\<close>

section \<open>Data\<close>

record device_info =
  di_deviceId :: string
  di_publicKey :: string
  di_displayName :: "string option"
  di_platform :: "string option"
  di_deviceFamily :: "string option"
  di_clientId :: "string option"
  di_clientMode :: "string option"
  di_role :: "string option"
  di_roles :: "string list option"
  di_scopes :: "string list option"
  di_remoteIp :: "string option"

text \<open>A request as it comes in; \<open>silent\<close> is only tested for truth.\<close>

record pairing_input = device_info +
  pi_silent :: bool

record pending_request = pairing_input +
  pr_requestId :: string
  pr_isRepair :: bool
  pr_ts :: int

record device_token =
  dt_token :: string
  dt_role :: string
  dt_scopes :: "string list"
  dt_createdAtMs :: int
  dt_rotatedAtMs :: "int option"
  dt_revokedAtMs :: "int option"
  dt_lastUsedAtMs :: "int option"

record paired_device = device_info +
  pd_approvedScopes :: "string list option"
  pd_tokens :: "(string, device_token) jsmap option"
  pd_createdAtMs :: int
  pd_approvedAtMs :: int

record pairing_file =
  pf_pending :: "(string, pending_request) jsmap"
  pf_paired :: "(string, paired_device) jsmap"

definition no_pairings :: pairing_file where
  "no_pairings = \<lparr>pf_pending = [], pf_paired = []\<rparr>"

definition PENDING_TTL_MS :: int where "PENDING_TTL_MS = 5 * 60 * 1000"

definition loadState :: "int \<Rightarrow> pairing_file \<Rightarrow> pairing_file" where
  "loadState now f = f\<lparr>pf_pending := pruneExpiredPending pr_ts now PENDING_TTL_MS (pf_pending f)\<rparr>"

section \<open>Roles and scopes of a device\<close>

definition normalizeRole :: "string option \<Rightarrow> string option" where
  "normalizeRole role = (case map_option js_trim role of None \<Rightarrow> None | Some r \<Rightarrow> if r = [] then None else Some r)"

text \<open>A single role counts as a list of one.\<close>

abbreviation one_role :: "string option \<Rightarrow> string list option" where
  "one_role \<equiv> map_option (\<lambda>r. [r])"

definition mergeRoles :: "string list option list \<Rightarrow> string list option" where
  "mergeRoles items =
     (let roles = js_set (trimmed_entries (concat (map (\<lambda>i. js_nullish i []) items))) in
      if roles = [] then None else Some roles)"

definition mergeScopes :: "string list option list \<Rightarrow> string list option" where
  "mergeScopes items =
     (let scopes = js_set (trimmed_entries (concat (map (\<lambda>i. js_nullish i []) items))) in
      if scopes = [] then if list_ex (\<lambda>i. i \<noteq> None) items then Some [] else None else Some scopes)"

definition token_revoked :: "device_token \<Rightarrow> bool" where
  "token_revoked t \<longleftrightarrow> (case dt_revokedAtMs t of None \<Rightarrow> False | Some at_ms \<Rightarrow> at_ms \<noteq> 0)"

definition listActiveTokenRoles :: "(string, device_token) jsmap option \<Rightarrow> string list option" where
  "listActiveTokenRoles tokens = (case tokens of
       None \<Rightarrow> None
     | Some ts \<Rightarrow> mergeRoles [Some (map dt_role (filter (\<lambda>t. \<not> token_revoked t) (map snd ts)))])"

definition listApprovedPairedDeviceRoles :: "('a device_info_scheme) \<Rightarrow> string list" where
  "listApprovedPairedDeviceRoles d = js_nullish (mergeRoles [di_roles d, one_role (di_role d)]) []"

definition listEffectivePairedDeviceRoles :: "paired_device \<Rightarrow> string list" where
  "listEffectivePairedDeviceRoles d =
     (let active = js_nullish (listActiveTokenRoles (pd_tokens d)) [] in
      if active \<noteq> [] then filter (\<lambda>r. r \<in> set (listApprovedPairedDeviceRoles d)) active
      else if js_nullish (pd_tokens d) [] \<noteq> [] then []
      else listApprovedPairedDeviceRoles d)"

definition hasEffectivePairedDeviceRole :: "paired_device \<Rightarrow> string \<Rightarrow> bool" where
  "hasEffectivePairedDeviceRole d role = (case normalizeRole (Some role) of
       None \<Rightarrow> False
     | Some r \<Rightarrow> r \<in> set (listEffectivePairedDeviceRoles d))"

definition sameStringSet :: "string list \<Rightarrow> string list \<Rightarrow> bool" where
  "sameStringSet left right \<longleftrightarrow> length left = length right \<and> list_all (\<lambda>v. v \<in> set right) left"

definition resolveRequestedRoles :: "('a device_info_scheme) \<Rightarrow> string list" where
  "resolveRequestedRoles d = js_nullish (mergeRoles [di_roles d, one_role (di_role d)]) []"

definition resolveRoleScopedDeviceTokenScopes :: "string \<Rightarrow> string list option \<Rightarrow> string list" where
  "resolveRoleScopedDeviceTokenScopes role scopes =
     (let normalized = normalizeDeviceAuthScopes scopes in
      if role = OPERATOR_ROLE then filter is_operator_scope normalized
      else filter (\<lambda>s. \<not> is_operator_scope s) normalized)"

definition resolveApprovedDeviceScopeBaseline :: "paired_device \<Rightarrow> string list option" where
  "resolveApprovedDeviceScopeBaseline d =
     (case (case pd_approvedScopes d of None \<Rightarrow> di_scopes d | Some s \<Rightarrow> Some s) of
        None \<Rightarrow> None
      | Some baseline \<Rightarrow> Some (normalizeDeviceAuthScopes (Some baseline)))"

definition scopesWithinApprovedDeviceBaseline :: "string \<Rightarrow> string list \<Rightarrow> string list option \<Rightarrow> bool" where
  "scopesWithinApprovedDeviceBaseline role scopes approvedScopes = (case approvedScopes of
       None \<Rightarrow> False
     | Some approved \<Rightarrow> roleScopesAllow role scopes approved)"

section \<open>Pending requests\<close>

definition samePendingApprovalSnapshot :: "pending_request \<Rightarrow> pairing_input \<Rightarrow> bool" where
  "samePendingApprovalSnapshot existing incoming \<longleftrightarrow>
     di_publicKey existing = di_publicKey incoming \<and>
     normalizeRole (di_role existing) = normalizeRole (di_role incoming) \<and>
     sameStringSet (resolveRequestedRoles existing) (resolveRequestedRoles incoming) \<and>
     sameStringSet (normalizeDeviceAuthScopes (di_scopes existing)) (normalizeDeviceAuthScopes (di_scopes incoming))"

definition refreshPendingDevicePairingRequest :: "bool \<Rightarrow> int \<Rightarrow> pending_request \<Rightarrow> pairing_input \<Rightarrow> pending_request" where
  "refreshPendingDevicePairingRequest isRepair now existing incoming = existing\<lparr>
     di_publicKey := di_publicKey incoming,
     di_displayName := or_else (di_displayName incoming) (di_displayName existing),
     di_platform := or_else (di_platform incoming) (di_platform existing),
     di_deviceFamily := or_else (di_deviceFamily incoming) (di_deviceFamily existing),
     di_clientId := or_else (di_clientId incoming) (di_clientId existing),
     di_clientMode := or_else (di_clientMode incoming) (di_clientMode existing),
     di_remoteIp := or_else (di_remoteIp incoming) (di_remoteIp existing),
     pi_silent := pi_silent existing \<and> pi_silent incoming,
     pr_isRepair := pr_isRepair existing \<or> isRepair,
     pr_ts := now\<rparr>"

definition resolveSupersededPendingSilent :: "pending_request list \<Rightarrow> bool \<Rightarrow> bool" where
  "resolveSupersededPendingSilent existing incomingSilent \<longleftrightarrow> incomingSilent \<and> list_all pi_silent existing"

definition buildPendingDevicePairingRequest ::
    "string \<Rightarrow> string \<Rightarrow> bool \<Rightarrow> int \<Rightarrow> pairing_input \<Rightarrow> pending_request" where
  "buildPendingDevicePairingRequest uuid deviceId isRepair now req =
     (let role = normalizeRole (di_role req) in
      \<lparr>di_deviceId = deviceId, di_publicKey = di_publicKey req, di_displayName = di_displayName req,
       di_platform = di_platform req, di_deviceFamily = di_deviceFamily req, di_clientId = di_clientId req,
       di_clientMode = di_clientMode req, di_role = role, di_roles = mergeRoles [di_roles req, one_role role],
       di_scopes = mergeScopes [di_scopes req], di_remoteIp = di_remoteIp req, pi_silent = pi_silent req,
       pr_requestId = uuid, pr_isRepair = isRepair, pr_ts = now\<rparr>)"

text \<open>The request that replaces the pending ones.\<close>

definition build_replacement :: "string \<Rightarrow> bool \<Rightarrow> int \<Rightarrow> pending_request list \<Rightarrow> pairing_input \<Rightarrow> pending_request" where
  "build_replacement uuid isRepair now existing incoming =
     buildPendingDevicePairingRequest uuid (js_trim (di_deviceId incoming)) isRepair now (incoming\<lparr>
       di_role := or_else (normalizeRole (di_role incoming))
         (case existing of [] \<Rightarrow> None | latestPending # _ \<Rightarrow> di_role latestPending),
       di_roles := mergeRoles (concat (map (\<lambda>p. [di_roles p, one_role (di_role p)]) existing) @
         [di_roles incoming, one_role (di_role incoming)]),
       di_scopes := mergeScopes (map di_scopes existing @ [di_scopes incoming]),
       pi_silent := resolveSupersededPendingSilent existing (pi_silent incoming)\<rparr>)"

definition requestDevicePairing ::
    "pairing_input \<Rightarrow> string \<Rightarrow> int \<Rightarrow> pairing_file \<Rightarrow> (string + pending_request \<times> bool) \<times> pairing_file" where
  "requestDevicePairing req uuid now f =
     (let st = loadState now f; deviceId = js_trim (di_deviceId req) in
      if deviceId = [] then (Inl ''deviceId required'', f)
      else
        let isRepair = (jm_get (pf_paired st) deviceId \<noteq> None);
            (request, created, pending1) = reconcilePendingPairingRequests pr_requestId samePendingApprovalSnapshot
              (refreshPendingDevicePairingRequest isRepair now) (build_replacement uuid isRepair now)
              (pending_of di_deviceId pr_ts deviceId (pf_pending st)) req (pf_pending st)
        in (Inr (request, created), st\<lparr>pf_pending := pending1\<rparr>))"

definition rejectDevicePairing :: "string \<Rightarrow> int \<Rightarrow> pairing_file \<Rightarrow> (string \<times> string) option \<times> pairing_file" where
  "rejectDevicePairing requestId now f =
     (let st = loadState now f in
      case rejectPendingPairingRequest requestId (pf_pending st) of
        None \<Rightarrow> (None, f)
      | Some (pending, pending1) \<Rightarrow> (Some (requestId, di_deviceId pending), st\<lparr>pf_pending := pending1\<rparr>))"

section \<open>Approval\<close>

datatype approve_result = UnknownRequest | Forbidden string | Approved string paired_device

definition buildDeviceAuthToken ::
    "string \<Rightarrow> string list \<Rightarrow> device_token option \<Rightarrow> int \<Rightarrow> int option \<Rightarrow> string \<Rightarrow> device_token" where
  "buildDeviceAuthToken role scopes existing now rotatedAtMs token =
     \<lparr>dt_token = token, dt_role = role, dt_scopes = scopes,
      dt_createdAtMs = js_nullish (map_option dt_createdAtMs existing) now,
      dt_rotatedAtMs = rotatedAtMs, dt_revokedAtMs = None,
      dt_lastUsedAtMs = Option.bind existing dt_lastUsedAtMs\<rparr>"

definition requested_operator_scopes :: "pending_request \<Rightarrow> string list" where
  "requested_operator_scopes pending = filter is_operator_scope (normalizeDeviceAuthScopes (di_scopes pending))"

text \<open>The scope that stops an approval, if any.\<close>

definition approval_missing_scope :: "string list option \<Rightarrow> pending_request \<Rightarrow> string option" where
  "approval_missing_scope callerScopes pending =
     (let requested = requested_operator_scopes pending in
      if length requested > 0 then
        (case callerScopes of
           None \<Rightarrow> Some (hd requested)
         | Some caller \<Rightarrow>
             if OPERATOR_ROLE \<notin> set (resolveRequestedRoles pending) then Some (hd requested)
             else resolveMissingRequestedScope OPERATOR_ROLE requested caller)
      else None)"

definition resolveApprovedTokenScopes ::
    "string \<Rightarrow> pending_request \<Rightarrow> device_token option \<Rightarrow> string list option \<Rightarrow> paired_device option \<Rightarrow> string list" where
  "resolveApprovedTokenScopes role pending existingToken approvedScopes existing =
     (let requestedScopes = resolveRoleScopedDeviceTokenScopes role (di_scopes pending) in
      if length requestedScopes > 0 then requestedScopes
      else resolveRoleScopedDeviceTokenScopes role
        (or_else (map_option dt_scopes existingToken) (or_else approvedScopes
          (or_else (Option.bind existing pd_approvedScopes) (Option.bind existing di_scopes)))))"

text \<open>The baseline of an existing record: \<open>existing?.approvedScopes ?? existing?.scopes\<close>.\<close>

definition existing_baseline :: "paired_device option \<Rightarrow> string list option" where
  "existing_baseline existing = or_else (Option.bind existing pd_approvedScopes) (Option.bind existing di_scopes)"

text \<open>The paired record that an approval writes.\<close>

definition approved_device ::
    "pending_request \<Rightarrow> paired_device option \<Rightarrow> string list option \<Rightarrow> string list option \<Rightarrow>
     (string, device_token) jsmap \<Rightarrow> int \<Rightarrow> paired_device" where
  "approved_device pending existing roles approvedScopes tokens now =
     \<lparr>di_deviceId = di_deviceId pending, di_publicKey = di_publicKey pending, di_displayName = di_displayName pending,
      di_platform = di_platform pending, di_deviceFamily = di_deviceFamily pending, di_clientId = di_clientId pending,
      di_clientMode = di_clientMode pending, di_role = di_role pending, di_roles = roles, di_scopes = approvedScopes,
      di_remoteIp = di_remoteIp pending, pd_approvedScopes = approvedScopes, pd_tokens = Some tokens,
      pd_createdAtMs = js_nullish (map_option pd_createdAtMs existing) now, pd_approvedAtMs = now\<rparr>"

definition save_approved :: "string \<Rightarrow> paired_device \<Rightarrow> pairing_file \<Rightarrow> pairing_file" where
  "save_approved requestId device st =
     \<lparr>pf_pending = jm_delete requestId (pf_pending st), pf_paired = jm_set (di_deviceId device) device (pf_paired st)\<rparr>"

definition tokens_of :: "paired_device option \<Rightarrow> (string, device_token) jsmap" where
  "tokens_of existing = js_nullish (Option.bind existing pd_tokens) []"

definition approveDevicePairing ::
    "string \<Rightarrow> string list option \<Rightarrow> (string \<Rightarrow> string) \<Rightarrow> int \<Rightarrow> pairing_file \<Rightarrow> approve_result \<times> pairing_file" where
  "approveDevicePairing requestId callerScopes newToken now f =
     (let st = loadState now f in
      case jm_get (pf_pending st) requestId of
        None \<Rightarrow> (UnknownRequest, f)
      | Some pending \<Rightarrow>
        (case approval_missing_scope callerScopes pending of
           Some missingScope \<Rightarrow> (Forbidden missingScope, f)
         | None \<Rightarrow>
           let existing = jm_get (pf_paired st) (di_deviceId pending);
               roles = mergeRoles [Option.bind existing di_roles, one_role (Option.bind existing di_role),
                 di_roles pending, one_role (di_role pending)];
               approvedScopes = mergeScopes [existing_baseline existing, di_scopes pending];
               tokens = fold (\<lambda>role tokens.
                   let existingToken = jm_get tokens role in
                   jm_set role (buildDeviceAuthToken role
                     (resolveApprovedTokenScopes role pending existingToken approvedScopes existing) existingToken now
                     (if existingToken \<noteq> None then Some now else None) (newToken role)) tokens)
                 (resolveRequestedRoles pending) (tokens_of existing);
               device = approved_device pending existing roles approvedScopes tokens now
           in (Approved requestId device, save_approved requestId device st)))"

definition approveBootstrapDevicePairing ::
    "string \<Rightarrow> bootstrap_profile \<Rightarrow> (string \<Rightarrow> string) \<Rightarrow> int \<Rightarrow> pairing_file \<Rightarrow> approve_result \<times> pairing_file" where
  "approveBootstrapDevicePairing requestId bootstrapProfile newToken now f =
     (let approvedRoles = js_nullish (mergeRoles [Some (bp_roles bootstrapProfile)]) [];
          approvedScopes = normalizeDeviceAuthScopes (Some (bp_scopes bootstrapProfile));
          st = loadState now f in
      case jm_get (pf_pending st) requestId of
        None \<Rightarrow> (UnknownRequest, f)
      | Some pending \<Rightarrow>
        (case find (\<lambda>role. role \<notin> set approvedRoles) (resolveRequestedRoles pending) of
           Some missingRole \<Rightarrow> (Forbidden missingRole, f)
         | None \<Rightarrow>
        (case resolveMissingRequestedScope OPERATOR_ROLE (requested_operator_scopes pending) approvedScopes of
           Some missingScope \<Rightarrow> (Forbidden missingScope, f)
         | None \<Rightarrow>
           let existing = jm_get (pf_paired st) (di_deviceId pending);
               roles = mergeRoles [Option.bind existing di_roles, one_role (Option.bind existing di_role),
                 di_roles pending, one_role (di_role pending), Some approvedRoles];
               nextApprovedScopes = mergeScopes [existing_baseline existing, di_scopes pending, Some approvedScopes];
               tokens = fold (\<lambda>role tokens.
                   let existingToken = jm_get tokens role;
                       tokenScopes = (if role = OPERATOR_ROLE
                         then resolveBootstrapProfileScopesForRole role approvedScopes else []) in
                   jm_set role (buildDeviceAuthToken role tokenScopes existingToken now
                     (if existingToken \<noteq> None then Some now else None) (newToken role)) tokens)
                 approvedRoles (tokens_of existing);
               device = approved_device pending existing roles nextApprovedScopes tokens now
           in (Approved requestId device, save_approved requestId device st))))"

section \<open>Paired devices and their tokens\<close>

definition removePairedDevice :: "string \<Rightarrow> int \<Rightarrow> pairing_file \<Rightarrow> string option \<times> pairing_file" where
  "removePairedDevice deviceId now f =
     (let st = loadState now f; normalized = js_trim deviceId in
      if normalized = [] \<or> jm_get (pf_paired st) normalized = None then (None, f)
      else (Some normalized, st\<lparr>pf_paired := jm_delete normalized (pf_paired st)\<rparr>))"

definition clearDevicePairing :: "string \<Rightarrow> int \<Rightarrow> pairing_file \<Rightarrow> bool \<times> pairing_file" where
  "clearDevicePairing deviceId now f =
     (let st = loadState now f; normalizedId = js_trim deviceId in
      if jm_get (pf_paired st) normalizedId = None then (False, f)
      else (True, st\<lparr>pf_paired := jm_delete normalizedId (pf_paired st)\<rparr>))"

text \<open>A patch: an outer \<open>None\<close> is a key that the patch does not have, \<open>Some None\<close> a key that is \<open>undefined\<close>.
  For \<open>role\<close> and \<open>scopes\<close> the code does not tell the two apart, and \<open>roles\<close> it recomputes.\<close>

record metadata_patch =
  mp_publicKey :: "string option"
  mp_displayName :: "string option option"
  mp_platform :: "string option option"
  mp_deviceFamily :: "string option option"
  mp_clientId :: "string option option"
  mp_clientMode :: "string option option"
  mp_role :: "string option"
  mp_scopes :: "string list option"
  mp_remoteIp :: "string option option"
  mp_tokens :: "(string, device_token) jsmap option option"

text \<open>The record is found under the trimmed id and written under the id as given.\<close>

definition updatePairedDeviceMetadata :: "string \<Rightarrow> metadata_patch \<Rightarrow> int \<Rightarrow> pairing_file \<Rightarrow> pairing_file" where
  "updatePairedDeviceMetadata deviceId patch now f =
     (let st = loadState now f in
      case jm_get (pf_paired st) (js_trim deviceId) of
        None \<Rightarrow> f
      | Some existing \<Rightarrow>
        let roles = mergeRoles [di_roles existing, one_role (di_role existing), one_role (mp_role patch)];
            scopes = mergeScopes [di_scopes existing, mp_scopes patch];
            device = existing\<lparr>
              di_publicKey := js_nullish (mp_publicKey patch) (di_publicKey existing),
              di_displayName := js_nullish (mp_displayName patch) (di_displayName existing),
              di_platform := js_nullish (mp_platform patch) (di_platform existing),
              di_deviceFamily := js_nullish (mp_deviceFamily patch) (di_deviceFamily existing),
              di_clientId := js_nullish (mp_clientId patch) (di_clientId existing),
              di_clientMode := js_nullish (mp_clientMode patch) (di_clientMode existing),
              di_remoteIp := js_nullish (mp_remoteIp patch) (di_remoteIp existing),
              pd_tokens := js_nullish (mp_tokens patch) (pd_tokens existing),
              di_role := or_else (mp_role patch) (di_role existing),
              di_roles := roles,
              di_scopes := scopes\<rparr>
        in st\<lparr>pf_paired := jm_set deviceId device (pf_paired st)\<rparr>)"

datatype verify_result = TokenOk | DeviceNotPaired | RoleMissing | TokenMissing | TokenRevoked | TokenMismatch | ScopeMismatch

definition verifyDeviceToken ::
    "string \<Rightarrow> string \<Rightarrow> string \<Rightarrow> string list \<Rightarrow> int \<Rightarrow> pairing_file \<Rightarrow> verify_result \<times> pairing_file" where
  "verifyDeviceToken deviceId token role scopes now f =
     (let st = loadState now f in
      case jm_get (pf_paired st) (js_trim deviceId) of
        None \<Rightarrow> (DeviceNotPaired, f)
      | Some device \<Rightarrow>
      (case normalizeRole (Some role) of
        None \<Rightarrow> (RoleMissing, f)
      | Some r \<Rightarrow>
      (case jm_get (js_nullish (pd_tokens device) []) r of
        None \<Rightarrow> (TokenMissing, f)
      | Some entry \<Rightarrow>
        if token_revoked entry then (TokenRevoked, f)
        else if \<not> verifyPairingToken token (dt_token entry) then (TokenMismatch, f)
        else if \<not> scopesWithinApprovedDeviceBaseline r (dt_scopes entry) (resolveApprovedDeviceScopeBaseline device)
          then (ScopeMismatch, f)
        else if \<not> roleScopesAllow r (normalizeDeviceAuthScopes (Some scopes)) (dt_scopes entry) then (ScopeMismatch, f)
        else
          let device1 = device\<lparr>pd_tokens := Some (jm_set r (entry\<lparr>dt_lastUsedAtMs := Some now\<rparr>)
            (js_nullish (pd_tokens device) []))\<rparr>
          in (TokenOk, st\<lparr>pf_paired := jm_set (di_deviceId device1) device1 (pf_paired st)\<rparr>))))"

text \<open>The device, the role, its tokens and the present one.\<close>

definition resolveDeviceTokenUpdateContext ::
    "pairing_file \<Rightarrow> string \<Rightarrow> string \<Rightarrow> (paired_device \<times> string \<times> (string, device_token) jsmap \<times> device_token option) option" where
  "resolveDeviceTokenUpdateContext st deviceId role =
     (case jm_get (pf_paired st) (js_trim deviceId) of
        None \<Rightarrow> None
      | Some device \<Rightarrow>
      (case normalizeRole (Some role) of
        None \<Rightarrow> None
      | Some r \<Rightarrow>
        if r \<notin> set (listApprovedPairedDeviceRoles device) then None
        else let tokens = js_nullish (pd_tokens device) [] in Some (device, r, tokens, jm_get tokens r)))"

definition save_token :: "paired_device \<Rightarrow> string \<Rightarrow> device_token \<Rightarrow> (string, device_token) jsmap \<Rightarrow> pairing_file \<Rightarrow> pairing_file" where
  "save_token device role entry tokens st =
     (let device1 = device\<lparr>pd_tokens := Some (jm_set role entry tokens)\<rparr>
      in st\<lparr>pf_paired := jm_set (di_deviceId device1) device1 (pf_paired st)\<rparr>)"

text \<open>\<open>None\<close>: no token; \<open>Some (entry, True)\<close>: a new one.\<close>

definition ensureDeviceToken ::
    "string \<Rightarrow> string \<Rightarrow> string list \<Rightarrow> string \<Rightarrow> int \<Rightarrow> pairing_file \<Rightarrow> (device_token \<times> bool) option \<times> pairing_file" where
  "ensureDeviceToken deviceId role scopes newToken now f =
     (let st = loadState now f; requestedScopes = normalizeDeviceAuthScopes (Some scopes) in
      case resolveDeviceTokenUpdateContext st deviceId role of
        None \<Rightarrow> (None, f)
      | Some (device, r, tokens, existing) \<Rightarrow>
        let approvedScopes = resolveApprovedDeviceScopeBaseline device in
        if \<not> scopesWithinApprovedDeviceBaseline r requestedScopes approvedScopes then (None, f)
        else
          let reusable = (case existing of
                None \<Rightarrow> False
              | Some e \<Rightarrow> \<not> token_revoked e \<and> scopesWithinApprovedDeviceBaseline r (dt_scopes e) approvedScopes \<and>
                  roleScopesAllow r requestedScopes (dt_scopes e)) in
          (case (reusable, existing) of
             (True, Some e) \<Rightarrow> (Some (e, False), f)
           | _ \<Rightarrow>
             let next_token = buildDeviceAuthToken r requestedScopes existing now
               (if existing \<noteq> None then Some now else None) newToken
             in (Some (next_token, True), save_token device r next_token tokens st)))"

datatype rotate_deny_reason = UnknownDeviceOrRole | MissingApprovedScopeBaseline | ScopeOutsideApprovedBaseline

definition rotateDeviceToken ::
    "string \<Rightarrow> string \<Rightarrow> string list option \<Rightarrow> string \<Rightarrow> int \<Rightarrow> pairing_file \<Rightarrow> (rotate_deny_reason + device_token) \<times> pairing_file" where
  "rotateDeviceToken deviceId role scopes newToken now f =
     (let st = loadState now f in
      case resolveDeviceTokenUpdateContext st deviceId role of
        None \<Rightarrow> (Inl UnknownDeviceOrRole, f)
      | Some (device, r, tokens, existing) \<Rightarrow>
        let requestedScopes = normalizeDeviceAuthScopes
              (or_else scopes (or_else (map_option dt_scopes existing) (di_scopes device))) in
        (case resolveApprovedDeviceScopeBaseline device of
           None \<Rightarrow> (Inl MissingApprovedScopeBaseline, f)
         | Some approvedScopes \<Rightarrow>
           if \<not> scopesWithinApprovedDeviceBaseline r requestedScopes (Some approvedScopes)
           then (Inl ScopeOutsideApprovedBaseline, f)
           else
             let next_token = buildDeviceAuthToken r requestedScopes existing now (Some now) newToken
             in (Inr next_token, save_token device r next_token tokens st)))"

definition revokeDeviceToken :: "string \<Rightarrow> string \<Rightarrow> int \<Rightarrow> pairing_file \<Rightarrow> device_token option \<times> pairing_file" where
  "revokeDeviceToken deviceId role now f =
     (let st = loadState now f in
      case jm_get (pf_paired st) (js_trim deviceId) of
        None \<Rightarrow> (None, f)
      | Some device \<Rightarrow>
      (case normalizeRole (Some role) of
        None \<Rightarrow> (None, f)
      | Some r \<Rightarrow>
      (case jm_get (js_nullish (pd_tokens device) []) r of
        None \<Rightarrow> (None, f)
      | Some t \<Rightarrow>
        let entry = t\<lparr>dt_revokedAtMs := Some now\<rparr>
        in (Some entry, save_token device r entry (js_nullish (pd_tokens device) []) st))))"

definition listDevicePairing :: "int \<Rightarrow> pairing_file \<Rightarrow> pending_request list \<times> paired_device list" where
  "listDevicePairing now f =
     (let st = loadState now f in
      (latest_first pr_ts (map snd (pf_pending st)), latest_first pd_approvedAtMs (map snd (pf_paired st))))"

definition getPairedDevice :: "string \<Rightarrow> int \<Rightarrow> pairing_file \<Rightarrow> paired_device option" where
  "getPairedDevice deviceId now f = jm_get (pf_paired (loadState now f)) (js_trim deviceId)"

definition getPendingDevicePairing :: "string \<Rightarrow> int \<Rightarrow> pairing_file \<Rightarrow> pending_request option" where
  "getPendingDevicePairing requestId now f = jm_get (pf_pending (loadState now f)) requestId"

section \<open>The machine\<close>

text \<open>
  A connection of a paired device reads the record of the device, checks the role and scopes it asks for against this
  snapshot, and later, when it has its turn at the lock, merges them into the record that there is by then
  (\<open>gateway/server/ws-connection/message-handler.ts\<close>). The connections between these two steps are in the state: the
  device, the roles that are effective in the snapshot and its scopes. A connection whose role is missing may make a
  silent request that is approved at once; it goes on with the roles of the approval.

  Beside the files and these connections the state keeps, as a record of what happened, the tokens issued so far and the
  approvals (device, roles, scopes of the approver or of the bootstrap profile). The removal of a device makes its
  approvals forgotten, unless a connection of it is between its two steps: what it has read it can still use.
\<close>

record pairing =
  pg_file :: pairing_file
  pg_grants :: "(string \<times> string list \<times> string list) list"
  pg_issued :: "string list"
  pg_reading :: "(string \<times> string list \<times> string list) list"

definition pairing_init :: pairing where
  "pairing_init = \<lparr>pg_file = no_pairings, pg_grants = [], pg_issued = [], pg_reading = []\<rparr>"

datatype pairing_event =
    RequestPairing pairing_input string int
  | ApprovePairing string "string list option" "string \<Rightarrow> string" int
  | ApproveBootstrap string bootstrap_profile "string \<Rightarrow> string" int
  | RejectPairing string int
  | RemoveDevice string int
  | ClearDevice string int
  | ReconnectRead string int
  | ReconnectMetadata string metadata_patch int
  | ReconnectClosed "string \<times> string list \<times> string list"
  | VerifyToken string string string "string list" int
  | EnsureToken string string "string list" string int
  | RotateToken string string "string list option" string int
  | RevokeToken string string int

text \<open>The roles for which an approval issues tokens, and those it approves.\<close>

definition approval_roles :: "string \<Rightarrow> int \<Rightarrow> pairing_file \<Rightarrow> string list" where
  "approval_roles requestId now f = (case getPendingDevicePairing requestId now f of
     None \<Rightarrow> [] | Some pending \<Rightarrow> resolveRequestedRoles pending)"

definition bootstrap_roles :: "bootstrap_profile \<Rightarrow> string list" where
  "bootstrap_roles profile = js_nullish (mergeRoles [Some (bp_roles profile)]) []"

definition approval_silent :: "string \<Rightarrow> int \<Rightarrow> pairing_file \<Rightarrow> bool" where
  "approval_silent requestId now f = (case getPendingDevicePairing requestId now f of
     None \<Rightarrow> False | Some pending \<Rightarrow> pi_silent pending)"

definition forget :: "string \<Rightarrow> pairing \<Rightarrow> pairing" where
  "forget deviceId s = (if list_ex (\<lambda>(d, _). d = deviceId) (pg_reading s) then s
     else s\<lparr>pg_grants := filter (\<lambda>(d, _). d \<noteq> deviceId) (pg_grants s)\<rparr>)"

definition granted ::
    "string list \<Rightarrow> string list \<Rightarrow> string list \<Rightarrow> bool \<Rightarrow> approve_result \<times> pairing_file \<Rightarrow> pairing \<Rightarrow> pairing" where
  "granted roles scopes fresh silent res s = (case fst res of
     Approved _ d \<Rightarrow> s\<lparr>pg_file := snd res, pg_grants := (di_deviceId d, roles, scopes) # pg_grants s,
       pg_issued := fresh @ pg_issued s,
       pg_reading := (if silent then (di_deviceId d, roles, []) # pg_reading s else pg_reading s)\<rparr>
   | _ \<Rightarrow> s)"

text \<open>The scopes of a record, as the connection handler reads them.\<close>

definition paired_scopes :: "paired_device \<Rightarrow> string list" where
  "paired_scopes d = js_nullish (or_else (pd_approvedScopes d) (di_scopes d)) []"

fun pairing_step :: "pairing \<Rightarrow> pairing_event \<Rightarrow> pairing" where
  "pairing_step s (RequestPairing req uuid now) = s\<lparr>pg_file := snd (requestDevicePairing req uuid now (pg_file s))\<rparr>"
| "pairing_step s (ApprovePairing rid caller gen now) =
     (let rs = approval_roles rid now (pg_file s) in
      granted rs (js_nullish caller []) (map gen rs) (approval_silent rid now (pg_file s))
        (approveDevicePairing rid caller gen now (pg_file s)) s)"
| "pairing_step s (ApproveBootstrap rid profile gen now) =
     (let rs = bootstrap_roles profile in
      granted rs (bp_scopes profile) (map gen rs) (approval_silent rid now (pg_file s))
        (approveBootstrapDevicePairing rid profile gen now (pg_file s)) s)"
| "pairing_step s (RejectPairing rid now) = s\<lparr>pg_file := snd (rejectDevicePairing rid now (pg_file s))\<rparr>"
| "pairing_step s (RemoveDevice d now) = (case removePairedDevice d now (pg_file s) of
     (Some d1, f) \<Rightarrow> forget d1 (s\<lparr>pg_file := f\<rparr>) | (None, _) \<Rightarrow> s)"
| "pairing_step s (ClearDevice d now) = (case clearDevicePairing d now (pg_file s) of
     (True, f) \<Rightarrow> forget (js_trim d) (s\<lparr>pg_file := f\<rparr>) | (False, _) \<Rightarrow> s)"
| "pairing_step s (ReconnectRead d now) = (case getPairedDevice d now (pg_file s) of
     None \<Rightarrow> s
   | Some device \<Rightarrow> s\<lparr>pg_reading := (d, listEffectivePairedDeviceRoles device, paired_scopes device) # pg_reading s\<rparr>)"
| "pairing_step s (ReconnectClosed c) = s\<lparr>pg_reading := remove1 c (pg_reading s)\<rparr>"
| "pairing_step s (ReconnectMetadata d patch now) = s\<lparr>pg_file := updatePairedDeviceMetadata d patch now (pg_file s)\<rparr>"
| "pairing_step s (VerifyToken d tok role scopes now) = s\<lparr>pg_file := snd (verifyDeviceToken d tok role scopes now (pg_file s))\<rparr>"
| "pairing_step s (EnsureToken d role scopes tok now) = (case ensureDeviceToken d role scopes tok now (pg_file s) of
     (Some (_, True), f) \<Rightarrow> s\<lparr>pg_file := f, pg_issued := tok # pg_issued s\<rparr> | _ \<Rightarrow> s)"
| "pairing_step s (RotateToken d role scopes tok now) = (case rotateDeviceToken d role scopes tok now (pg_file s) of
     (Inr _, f) \<Rightarrow> s\<lparr>pg_file := f, pg_issued := tok # pg_issued s\<rparr> | (Inl _, _) \<Rightarrow> s)"
| "pairing_step s (RevokeToken d role now) = s\<lparr>pg_file := snd (revokeDeviceToken d role now (pg_file s))\<rparr>"

text \<open>
  Ids of requests and tokens are fresh, the clock is past zero. The metadata of a device are updated only by a
  connection that passed its checks: the role is effective in what it has read or was approved for it, and the scopes
  are none or within the scopes it has read.
\<close>

definition reconnect_allowed :: "(string \<times> string list \<times> string list) list \<Rightarrow> string \<Rightarrow> metadata_patch \<Rightarrow> bool" where
  "reconnect_allowed reading d patch \<longleftrightarrow> mp_publicKey patch = None \<and> mp_tokens patch = None \<and>
     (case mp_role patch of
        None \<Rightarrow> False
      | Some role \<Rightarrow> list_ex (\<lambda>(d', roles, _). d' = d \<and> role \<in> set roles) reading \<and>
          (js_nullish (mp_scopes patch) [] = [] \<or>
           list_ex (\<lambda>(d', _, scopes). d' = d \<and> roleScopesAllow role (js_nullish (mp_scopes patch) []) scopes) reading))"

fun pairing_enabled :: "pairing \<Rightarrow> pairing_event \<Rightarrow> bool" where
  "pairing_enabled s (RequestPairing req uuid now) \<longleftrightarrow> jm_get (pf_pending (pg_file s)) uuid = None"
| "pairing_enabled s (ApprovePairing rid caller gen now) \<longleftrightarrow>
     (let new = map gen (approval_roles rid now (pg_file s)) in distinct new \<and> list_all (\<lambda>t. t \<notin> set (pg_issued s)) new)"
| "pairing_enabled s (ApproveBootstrap rid profile gen now) \<longleftrightarrow>
     (let new = map gen (bootstrap_roles profile) in distinct new \<and> list_all (\<lambda>t. t \<notin> set (pg_issued s)) new)"
| "pairing_enabled s (ReconnectRead d now) \<longleftrightarrow> js_trim d = d"
| "pairing_enabled s (ReconnectMetadata d patch now) \<longleftrightarrow> js_trim d = d \<and> reconnect_allowed (pg_reading s) d patch"
| "pairing_enabled s (EnsureToken d role scopes tok now) \<longleftrightarrow> tok \<notin> set (pg_issued s)"
| "pairing_enabled s (RotateToken d role scopes tok now) \<longleftrightarrow> tok \<notin> set (pg_issued s)"
| "pairing_enabled s (RevokeToken d role now) \<longleftrightarrow> 0 < now"
| "pairing_enabled s _ \<longleftrightarrow> True"

abbreviation pairing_reachable :: "pairing \<Rightarrow> bool" where
  "pairing_reachable \<equiv> reach pairing_init pairing_enabled pairing_step"

section \<open>Merging roles and scopes\<close>

lemma set_mergeRoles: "set (js_nullish (mergeRoles items) []) = (\<Union>i\<in>set items. set (trimmed_entries (js_nullish i [])))"
proof -
  have "set (trimmed_entries (concat (map (\<lambda>i. js_nullish i []) items))) = (\<Union>i\<in>set items. set (trimmed_entries (js_nullish i [])))"
    by (induction items) auto
  then show ?thesis by (auto simp: mergeRoles_def Let_def)
qed

lemma set_mergeScopes: "set (js_nullish (mergeScopes items) []) = (\<Union>i\<in>set items. set (trimmed_entries (js_nullish i [])))"
proof -
  have "set (trimmed_entries (concat (map (\<lambda>i. js_nullish i []) items))) = (\<Union>i\<in>set items. set (trimmed_entries (js_nullish i [])))"
    by (induction items) auto
  then show ?thesis by (auto simp: mergeScopes_def Let_def)
qed

lemma trimmed_js_set: "trimmed_entries (js_set (trimmed_entries xs)) = js_set (trimmed_entries xs)"
  by (rule trimmed_entries_idem) (use trimmed_entries_trim in auto)

lemma trimmed_mergeRoles [simp]: "trimmed_entries (js_nullish (mergeRoles items) []) = js_nullish (mergeRoles items) []"
  by (simp add: mergeRoles_def Let_def trimmed_js_set)

lemma trimmed_mergeScopes [simp]: "trimmed_entries (js_nullish (mergeScopes items) []) = js_nullish (mergeScopes items) []"
  by (simp add: mergeScopes_def Let_def trimmed_js_set)

lemma mergeScopes_None: "mergeScopes items = None \<longleftrightarrow> (\<forall>i\<in>set items. i = None)"
proof
  assume "\<forall>i\<in>set items. i = None"
  then have "trimmed_entries (concat (map (\<lambda>i. js_nullish i []) items)) = []"
    by (induction items) auto
  then show "mergeScopes items = None" using \<open>\<forall>i\<in>set items. i = None\<close> by (auto simp: mergeScopes_def list_ex_iff)
qed (auto simp: mergeScopes_def Let_def list_ex_iff split: if_splits)

lemma normalizeRole_Some: "normalizeRole (Some role) = Some r \<longleftrightarrow> r = js_trim role \<and> r \<noteq> []"
  by (auto simp: normalizeRole_def)

lemma js_nullish_map_Nil: "js_nullish (map_option f x) d = (case x of None \<Rightarrow> d | Some y \<Rightarrow> f y)"
  by (cases x) simp_all

lemma requested_roles_trim: "r \<in> set (resolveRequestedRoles d) \<Longrightarrow> js_trim r = r \<and> r \<noteq> []"
  unfolding resolveRequestedRoles_def by (metis trimmed_entries_trim trimmed_mergeRoles)

lemma approved_roles_trim: "r \<in> set (listApprovedPairedDeviceRoles d) \<Longrightarrow> js_trim r = r \<and> r \<noteq> []"
  unfolding listApprovedPairedDeviceRoles_def by (metis trimmed_entries_trim trimmed_mergeRoles)

lemma distinct_requested_roles [simp]: "distinct (resolveRequestedRoles d)"
  by (simp add: resolveRequestedRoles_def mergeRoles_def Let_def)

lemma distinct_bootstrap_roles [simp]: "distinct (bootstrap_roles p)"
  by (simp add: bootstrap_roles_def mergeRoles_def Let_def)

text \<open>The tokens after an approval.\<close>

lemma fold_tokens:
  "distinct rs \<Longrightarrow> jm_get (fold (\<lambda>r m. jm_set r (F r (jm_get m r)) m) rs m) r =
     (if r \<in> set rs then Some (F r (jm_get m r)) else jm_get m r)"
proof (induction rs arbitrary: m)
  case (Cons x rs)
  then show ?case by (cases "r = x") (simp_all add: if_split_eq1)
qed simp

lemma fold_tokens_ok: "jm_ok m \<Longrightarrow> jm_ok (fold (\<lambda>r m. jm_set r (F r (jm_get m r)) m) rs m)"
  by (induction rs arbitrary: m) simp_all

end
