(* ===== verification/DeviceAccess.thy ===== *)
theory DeviceAccess
  imports DevicePairing
begin

text \<open>
  What device pairing guarantees: a device gets only what its approvers had (\<open>device_access_was_granted\<close>), a token that
  was revoked, replaced or whose device was removed never works again (\<open>dead_tokens_stay_dead\<close>), and pending requests
  neither multiply nor lose what was asked for (\<open>pairing_request_accumulates\<close>).
\<close>

section \<open>Pending requests\<close>

interpretation device_requests: pairing_requests pr_requestId di_deviceId pr_ts "\<lambda>i. js_trim (di_deviceId i)"
  samePendingApprovalSnapshot "refreshPendingDevicePairingRequest isRepair now" "build_replacement uuid isRepair now"
  for isRepair now uuid
  by unfold_locales (simp_all add: refreshPendingDevicePairingRequest_def build_replacement_def
      buildPendingDevicePairingRequest_def Let_def)

lemma build_replacement_id [simp]: "pr_requestId (build_replacement uuid isRepair now es i) = uuid"
  by (simp add: build_replacement_def buildPendingDevicePairingRequest_def Let_def)

abbreviation requests_wf :: "pairing_file \<Rightarrow> bool" where
  "requests_wf f \<equiv> pending_wf pr_requestId di_deviceId (pf_pending f)"

lemma load_simps [simp]: "pf_paired (loadState now f) = pf_paired f"
  "pf_pending (loadState now f) = pruneExpiredPending pr_ts now PENDING_TTL_MS (pf_pending f)"
  by (simp_all add: loadState_def)

lemma load_pending_None: "jm_get (pf_pending f) k = None \<Longrightarrow> jm_get (pf_pending (loadState now f)) k = None"
proof -
  assume "jm_get (pf_pending f) k = None"
  then have "k \<notin> fst ` set (pf_pending f)" by (simp add: map_of_eq_None_iff)
  then have "k \<notin> fst ` set (pruneExpiredPending pr_ts now PENDING_TTL_MS (pf_pending f))"
    by (auto simp: pruneExpiredPending_def)
  then show ?thesis by (simp add: map_of_eq_None_iff)
qed

text \<open>A request and the file it leaves.\<close>

lemma requestE:
  assumes "requestDevicePairing req uuid now f = (Inr (r, created), f')"
  obtains isRepair where "js_trim (di_deviceId req) \<noteq> []"
    "device_requests.reconcile isRepair now uuid req (pf_pending (loadState now f)) = (r, created, pf_pending f')"
    "pf_paired f' = pf_paired f"
proof -
  let ?id = "js_trim (di_deviceId req)" and ?st = "loadState now f"
  let ?rep = "jm_get (pf_paired ?st) ?id \<noteq> None"
  obtain r0 c0 m0 where rec: "device_requests.reconcile ?rep now uuid req (pf_pending ?st) = (r0, c0, m0)"
    by (metis prod.collapse)
  have "?id \<noteq> []" using assms by (auto simp: requestDevicePairing_def Let_def split: if_splits)
  moreover have "r0 = r \<and> c0 = created \<and> f' = ?st\<lparr>pf_pending := m0\<rparr>"
    using assms rec \<open>?id \<noteq> []\<close> unfolding device_requests.reconcile_def requestDevicePairing_def
    by (simp add: Let_def)
  ultimately show thesis using rec by (intro that [of ?rep]) simp_all
qed

lemma request_paired [simp]: "pf_paired (snd (requestDevicePairing req uuid now f)) = pf_paired f"
  by (simp add: requestDevicePairing_def Let_def split: prod.splits)

lemma request_wf:
  assumes "requests_wf f" "jm_get (pf_pending f) uuid = None"
  shows "requests_wf (snd (requestDevicePairing req uuid now f))"
proof (cases "fst (requestDevicePairing req uuid now f)")
  case (Inl e)
  then have "snd (requestDevicePairing req uuid now f) = f"
    by (auto simp: requestDevicePairing_def Let_def split: if_splits prod.splits)
  then show ?thesis using assms by simp
next
  case (Inr rc)
  obtain r c f' where eq: "requestDevicePairing req uuid now f = (Inr (r, c), f')" using Inr by (metis prod.collapse)
  obtain rep where rec: "device_requests.reconcile rep now uuid req (pf_pending (loadState now f)) = (r, c, pf_pending f')"
    using requestE [OF eq] by metis
  have "requests_wf (loadState now f)" using pending_wf_prune assms(1) by simp
  from device_requests.reconcile_wf [OF this, of uuid rep now _ req] load_pending_None [OF assms(2)] rec eq
  show ?thesis by simp
qed

section \<open>The invariant\<close>

definition role_granted :: "(string \<times> string list \<times> string list) list \<Rightarrow> string \<Rightarrow> string \<Rightarrow> bool" where
  "role_granted G d role \<longleftrightarrow> list_ex (\<lambda>(d', roles, _). d' = d \<and> role \<in> set roles) G"

definition scope_granted :: "(string \<times> string list \<times> string list) list \<Rightarrow> string \<Rightarrow> string \<Rightarrow> bool" where
  "scope_granted G d s \<longleftrightarrow> list_ex (\<lambda>(d', _, scopes). d' = d \<and> operatorScopeSatisfied s (normalizeScopeList scopes)) G"

abbreviation toks :: "paired_device \<Rightarrow> (string, device_token) jsmap" where
  "toks d \<equiv> js_nullish (pd_tokens d) []"

text \<open>A paired device has only granted roles and scopes, and tokens that were issued for granted roles.\<close>

definition device_ok :: "(string \<times> string list \<times> string list) list \<Rightarrow> string list \<Rightarrow> paired_device \<Rightarrow> bool" where
  "device_ok G I d \<longleftrightarrow>
     (\<forall>r t. jm_get (toks d) r = Some t \<longrightarrow>
        dt_role t = r \<and> js_trim r = r \<and> dt_token t \<in> set I \<and> role_granted G (di_deviceId d) r) \<and>
     (\<forall>r\<in>set (listApprovedPairedDeviceRoles d). role_granted G (di_deviceId d) r) \<and>
     (\<forall>s\<in>set (trimmed_entries (paired_scopes d)). is_operator_scope s \<longrightarrow> scope_granted G (di_deviceId d) s)"

definition one_owner :: "(string, paired_device) jsmap \<Rightarrow> bool" where
  "one_owner P \<longleftrightarrow> (\<forall>k d r t k' d' r' t'. jm_get P k = Some d \<longrightarrow> jm_get (toks d) r = Some t \<longrightarrow>
     jm_get P k' = Some d' \<longrightarrow> jm_get (toks d') r' = Some t' \<longrightarrow> dt_token t = dt_token t' \<longrightarrow> k = k' \<and> r = r')"

definition paired_ok :: "(string \<times> string list \<times> string list) list \<Rightarrow> string list \<Rightarrow> (string, paired_device) jsmap \<Rightarrow> bool" where
  "paired_ok G I P \<longleftrightarrow> one_owner P \<and>
     (\<forall>k d. jm_get P k = Some d \<longrightarrow> di_deviceId d = k \<and> js_trim k = k \<and> device_ok G I d)"

definition subjects_ok :: "(string, pending_request) jsmap \<Rightarrow> bool" where
  "subjects_ok m \<longleftrightarrow> (\<forall>(k, p)\<in>set m. js_trim (di_deviceId p) = di_deviceId p)"

text \<open>What an open connection has read was granted.\<close>

definition reading_ok :: "(string \<times> string list \<times> string list) list \<Rightarrow> (string \<times> string list \<times> string list) list \<Rightarrow> bool" where
  "reading_ok G R \<longleftrightarrow> list_all (\<lambda>(d, roles, scopes).
     (\<forall>r\<in>set roles. js_trim r = r \<and> role_granted G d r) \<and>
     (\<forall>s\<in>set (trimmed_entries scopes). is_operator_scope s \<longrightarrow> scope_granted G d s)) R"

definition pairing_inv :: "pairing \<Rightarrow> bool" where
  "pairing_inv s \<longleftrightarrow> requests_wf (pg_file s) \<and> subjects_ok (pf_pending (pg_file s)) \<and>
     paired_ok (pg_grants s) (pg_issued s) (pf_paired (pg_file s)) \<and> reading_ok (pg_grants s) (pg_reading s)"

text \<open>How the tokens of a device change: a kept token stays revoked, a new one was not issued before.\<close>

definition evolves :: "string list \<Rightarrow> (string, device_token) jsmap \<Rightarrow> (string, device_token) jsmap \<Rightarrow> bool" where
  "evolves I old_tokens new_tokens \<longleftrightarrow>
     (\<forall>r t. jm_get new_tokens r = Some t \<longrightarrow>
        (\<exists>t0. jm_get old_tokens r = Some t0 \<and> dt_token t = dt_token t0 \<and> (token_revoked t0 \<longrightarrow> token_revoked t)) \<or>
        dt_token t \<notin> set I) \<and>
     (\<forall>r t r' t'. jm_get new_tokens r = Some t \<longrightarrow> jm_get new_tokens r' = Some t' \<longrightarrow>
        dt_token t = dt_token t' \<longrightarrow> dt_token t \<notin> set I \<longrightarrow> r = r')"

lemma role_granted_mono: "role_granted G d r \<Longrightarrow> set G \<subseteq> set G' \<Longrightarrow> role_granted G' d r"
  by (auto simp: role_granted_def list_ex_iff)

lemma scope_granted_mono: "scope_granted G d s \<Longrightarrow> set G \<subseteq> set G' \<Longrightarrow> scope_granted G' d s"
  by (auto simp: scope_granted_def list_ex_iff)

lemma reading_ok_mono: "reading_ok G R \<Longrightarrow> set G \<subseteq> set G' \<Longrightarrow> reading_ok G' R"
  unfolding reading_ok_def list_all_iff using role_granted_mono scope_granted_mono by fastforce

lemma reading_ok_role: "reading_ok G R \<Longrightarrow> list_ex (\<lambda>(d', roles, _). d' = d \<and> r \<in> set roles) R \<Longrightarrow> role_granted G d r \<and> js_trim r = r"
  by (fastforce simp: reading_ok_def list_all_iff list_ex_iff)

lemma device_ok_mono:
  "device_ok G I d \<Longrightarrow> set G \<subseteq> set G' \<Longrightarrow> set I \<subseteq> set I' \<Longrightarrow> device_ok G' I' d"
  unfolding device_ok_def using role_granted_mono scope_granted_mono by blast

lemma scope_granted_through:
  assumes "operatorScopeSatisfied s xs" "\<And>x. x \<in> set xs \<Longrightarrow> is_operator_scope x \<Longrightarrow> scope_granted G d x"
  shows "scope_granted G d s"
proof -
  obtain x where x: "x \<in> set xs" "is_operator_scope x" "operatorScopeSatisfied s [x]"
    using satisfied_by_one [OF assms(1)] by blast
  with assms(2) obtain rs sc where "(d, rs, sc) \<in> set G" "operatorScopeSatisfied x (normalizeScopeList sc)"
    unfolding scope_granted_def list_ex_iff by blast
  with satisfied_trans [OF x(3)] show ?thesis unfolding scope_granted_def list_ex_iff by blast
qed

text \<open>Writing a device whose tokens evolve.\<close>

lemma paired_ok_write:
  assumes ok: "paired_ok G I P"
    and sub: "set G \<subseteq> set G'" "set I \<subseteq> set I'"
    and d: "device_ok G' I' d" "di_deviceId d = k" "js_trim k = k"
    and ev: "evolves I (js_nullish (map_option toks (jm_get P k)) []) (toks d)"
  shows "paired_ok G' I' (jm_set k d P)"
  unfolding paired_ok_def
proof (intro conjI allI impI)
  fix k' d' assume "jm_get (jm_set k d P) k' = Some d'"
  then show "di_deviceId d' = k'" "js_trim k' = k'" "device_ok G' I' d'"
    using ok d device_ok_mono [OF _ sub] by (auto simp: paired_ok_def split: if_splits)
next
  have own: "jm_get P k1 = Some d1 \<Longrightarrow> jm_get (toks d1) r = Some t \<Longrightarrow> dt_token t \<in> set I" for k1 d1 r t
    using ok by (auto simp: paired_ok_def device_ok_def)
  have new: "(\<exists>d0 t0. jm_get P k = Some d0 \<and> jm_get (toks d0) r = Some t0 \<and> dt_token t = dt_token t0) \<or> dt_token t \<notin> set I"
    if "jm_get (toks d) r = Some t" for r t
    using ev that unfolding evolves_def by (cases "jm_get P k") fastforce+
  have uniq: "one_owner P" using ok by (simp add: paired_ok_def)
  have inj: "jm_get (toks d) r = Some t \<Longrightarrow> jm_get (toks d) r' = Some t' \<Longrightarrow> dt_token t = dt_token t' \<Longrightarrow> r = r'"
    for r t r' t'
  proof -
    assume a: "jm_get (toks d) r = Some t" "jm_get (toks d) r' = Some t'" "dt_token t = dt_token t'"
    show "r = r'"
    proof (cases "dt_token t \<in> set I")
      case True
      with new [OF a(1)] new [OF a(2)] a(3) show ?thesis using uniq unfolding one_owner_def by (metis option.inject)
    next
      case False
      with ev a show ?thesis unfolding evolves_def by blast
    qed
  qed
  have cross: "False" if "jm_get (toks d) r = Some t" "jm_get P k' = Some d'" "k' \<noteq> k" "jm_get (toks d') r' = Some t'"
    "dt_token t = dt_token t'" for r t k' d' r' t'
    using new [OF that(1)] own [OF that(2,4)] that uniq unfolding one_owner_def by metis
  show "one_owner (jm_set k d P)"
    unfolding one_owner_def
  proof (intro allI impI)
    fix k1 d1 r1 t1 k2 d2 r2 t2
    assume h: "jm_get (jm_set k d P) k1 = Some d1" "jm_get (toks d1) r1 = Some t1"
      "jm_get (jm_set k d P) k2 = Some d2" "jm_get (toks d2) r2 = Some t2" "dt_token t1 = dt_token t2"
    show "k1 = k2 \<and> r1 = r2"
    proof (cases "k1 = k"; cases "k2 = k")
      assume "k1 = k" "k2 = k"
      with h inj show ?thesis by auto
    next
      assume "k1 = k" "k2 \<noteq> k"
      with h cross [of r1 t1 k2 d2 r2 t2] show ?thesis by auto
    next
      assume "k1 \<noteq> k" "k2 = k"
      with h cross [of r2 t2 k1 d1 r1 t1] show ?thesis by auto
    next
      assume "k1 \<noteq> k" "k2 \<noteq> k"
      with h uniq show ?thesis unfolding one_owner_def by auto
    qed
  qed
qed

lemma filter_grants:
  assumes "d \<noteq> k"
  shows "role_granted (filter (\<lambda>(d, _). d \<noteq> k) G) d r = role_granted G d r"
    "scope_granted (filter (\<lambda>(d, _). d \<noteq> k) G) d sc = scope_granted G d sc"
  using assms by (auto simp: role_granted_def scope_granted_def list_ex_iff)

lemma paired_ok_delete:
  assumes "paired_ok G I P"
  shows "paired_ok (filter (\<lambda>(d, _). d \<noteq> k) G) I (jm_delete k P)"
proof -
  note g = filter_grants [of _ k G]
  have "device_ok (filter (\<lambda>(d, _). d \<noteq> k) G) I d = device_ok G I d" if "di_deviceId d \<noteq> k" for d
    using g [OF that] by (simp add: device_ok_def)
  then show ?thesis
    using assms by (auto simp: paired_ok_def one_owner_def split: if_splits)
qed

definition moves :: "string list \<Rightarrow> (string, paired_device) jsmap \<Rightarrow> (string, paired_device) jsmap \<Rightarrow> bool" where
  "moves I P P' \<longleftrightarrow> (\<forall>k d. jm_get P' k = Some d \<longrightarrow> evolves I (js_nullish (map_option toks (jm_get P k)) []) (toks d))"

lemma moves_refl:
  assumes "paired_ok G I P" shows "moves I P P"
proof -
  have "dt_token t \<in> set I" if "jm_get P k = Some d" "jm_get (toks d) r = Some t" for k d r t
    using assms that by (auto simp: paired_ok_def device_ok_def)
  then show ?thesis by (auto simp: moves_def evolves_def)
qed

lemma moves_write:
  assumes "paired_ok G I P" "evolves I (js_nullish (map_option toks (jm_get P k)) []) (toks d)"
  shows "moves I P (jm_set k d P)"
  using moves_refl [OF assms(1)] assms(2) by (auto simp: moves_def)

lemma moves_delete: "paired_ok G I P \<Longrightarrow> moves I P (jm_delete k P)"
  using moves_refl [of G I P] by (auto simp: moves_def split: if_splits)

section \<open>Approvals\<close>

lemma buildDeviceAuthToken_simps [simp]:
  "dt_token (buildDeviceAuthToken role scopes e now rot tok) = tok"
  "dt_role (buildDeviceAuthToken role scopes e now rot tok) = role"
  "dt_scopes (buildDeviceAuthToken role scopes e now rot tok) = scopes"
  "\<not> token_revoked (buildDeviceAuthToken role scopes e now rot tok)"
  by (simp_all add: buildDeviceAuthToken_def token_revoked_def)

lemma approved_device_simps [simp]:
  "di_deviceId (approved_device p e roles scopes tokens now) = di_deviceId p"
  "di_role (approved_device p e roles scopes tokens now) = di_role p"
  "di_roles (approved_device p e roles scopes tokens now) = roles"
  "pd_tokens (approved_device p e roles scopes tokens now) = Some tokens"
  "paired_scopes (approved_device p e roles scopes tokens now) = js_nullish scopes []"
  by (simp_all add: approved_device_def paired_scopes_def or_else_def split: option.splits)

lemma tokens_of_simps [simp]: "tokens_of None = []" "tokens_of (Some d) = toks d"
  by (simp_all add: tokens_of_def)

lemma existing_baseline_scopes: "js_nullish (existing_baseline existing) [] =
    (case existing of None \<Rightarrow> [] | Some d \<Rightarrow> paired_scopes d)"
  by (simp add: existing_baseline_def paired_scopes_def split: option.splits)

lemma existing_roles:
  "set (trimmed_entries (js_nullish (Option.bind existing di_roles) [])) \<union>
   set (trimmed_entries (js_nullish (one_role (Option.bind existing di_role)) [])) =
   (case existing of None \<Rightarrow> {} | Some (d :: paired_device) \<Rightarrow> set (listApprovedPairedDeviceRoles d))"
  by (cases existing) (simp_all add: listApprovedPairedDeviceRoles_def set_mergeRoles)

lemma requested_roles_set:
  "set (trimmed_entries (js_nullish (di_roles p) [])) \<union> set (trimmed_entries (js_nullish (one_role (di_role p)) [])) =
   set (resolveRequestedRoles p)"
  by (simp add: resolveRequestedRoles_def set_mergeRoles)

lemma fold_tokens_evolve:
  assumes F: "\<And>r x. dt_token (F r x) = gen r" and rs: "distinct rs" "distinct (map gen rs)"
    and fresh: "list_all (\<lambda>t. t \<notin> set I) (map gen rs)"
    and known: "\<And>r t. jm_get m r = Some t \<Longrightarrow> dt_token t \<in> set I"
  shows "evolves I m (fold (\<lambda>r m. jm_set r (F r (jm_get m r)) m) rs m)"
proof -
  note get = fold_tokens [OF rs(1), of F m]
  have inj: "gen r = gen r' \<Longrightarrow> r \<in> set rs \<Longrightarrow> r' \<in> set rs \<Longrightarrow> r = r'" for r r'
    using rs(2) by (auto simp: distinct_map inj_on_def)
  have "gen r \<notin> set I" if "r \<in> set rs" for r
    using fresh that by (simp add: list_all_iff)
  then show ?thesis
    unfolding evolves_def get using F inj known by (auto split: if_splits) metis
qed

text \<open>An approval of \<open>rs\<close>: what it must satisfy to keep the invariant.\<close>

lemma approved_paired_ok:
  fixes F :: "string \<Rightarrow> device_token option \<Rightarrow> device_token"
  assumes ok: "paired_ok G I P" and k: "k = di_deviceId p" "js_trim k = k"
    and e: "e = jm_get P k"
    and F: "\<And>r x. dt_role (F r x) = r" "\<And>r x. dt_token (F r x) = gen r"
    and rs: "distinct rs" "\<And>r. r \<in> set rs \<Longrightarrow> js_trim r = r" "set (resolveRequestedRoles p) \<subseteq> set rs"
    and fresh: "distinct (map gen rs)" "list_all (\<lambda>t. t \<notin> set I) (map gen rs)"
    and roles: "set (js_nullish roles []) \<subseteq> (case e of None \<Rightarrow> {} | Some d \<Rightarrow> set (listApprovedPairedDeviceRoles d)) \<union> set rs"
    and scopes: "\<And>s. s \<in> set (trimmed_entries (js_nullish scopes [])) \<Longrightarrow> is_operator_scope s \<Longrightarrow>
       s \<in> (case e of None \<Rightarrow> {} | Some d \<Rightarrow> set (trimmed_entries (paired_scopes d))) \<or>
       operatorScopeSatisfied s (normalizeScopeList caller)"
    and trim: "trimmed_entries (js_nullish roles []) = js_nullish roles []"
    and tokens: "tokens = fold (\<lambda>r m. jm_set r (F r (jm_get m r)) m) rs (tokens_of e)"
  shows "paired_ok ((k, rs, caller) # G) (map gen rs @ I) (jm_set k (approved_device p e roles scopes tokens now) P) \<and>
    moves I P (jm_set k (approved_device p e roles scopes tokens now) P)"
proof -
  let ?G = "(k, rs, caller) # G" and ?I = "map gen rs @ I" and ?d = "approved_device p e roles scopes tokens now"
  have get: "jm_get tokens r = (if r \<in> set rs then Some (F r (jm_get (tokens_of e) r)) else jm_get (tokens_of e) r)" for r
    unfolding tokens by (rule fold_tokens [OF rs(1)])
  have old: "device_ok G I d" "di_deviceId d = k" if "e = Some d" for d
    using ok that e by (auto simp: paired_ok_def)
  have old_token: "dt_role t = r \<and> js_trim r = r \<and> dt_token t \<in> set I \<and> role_granted G k r"
    if "jm_get (tokens_of e) r = Some t" for r t
    using that old by (cases e) (auto simp: device_ok_def)
  have new: "role_granted ?G k r" if "r \<in> set rs" for r
    using that by (simp add: role_granted_def)
  have dev: "device_ok ?G ?I ?d"
    unfolding device_ok_def
  proof (intro conjI allI impI ballI)
    fix r t assume t: "jm_get (toks ?d) r = Some t"
    show "dt_role t = r" "js_trim r = r" "dt_token t \<in> set ?I" "role_granted ?G (di_deviceId ?d) r"
      using t get [of r] old_token [of r t] F new [of r] rs(2) role_granted_mono [of G k r ?G] k(1)
      by (auto split: if_splits)
  next
    fix r assume "r \<in> set (listApprovedPairedDeviceRoles ?d)"
    then have "r \<in> set (js_nullish roles []) \<or> r \<in> set rs"
      using requested_roles_set [of p] rs(3) trim by (auto simp: listApprovedPairedDeviceRoles_def set_mergeRoles)
    then have "(\<exists>d. e = Some d \<and> r \<in> set (listApprovedPairedDeviceRoles d)) \<or> r \<in> set rs"
      using roles by (auto split: option.splits)
    then show "role_granted ?G (di_deviceId ?d) r"
      using new old role_granted_mono [of G k r ?G] k(1) by (auto simp: device_ok_def)
  next
    fix s assume "s \<in> set (trimmed_entries (paired_scopes ?d))" "is_operator_scope s"
    with scopes [of s] have "(\<exists>d. e = Some d \<and> s \<in> set (trimmed_entries (paired_scopes d))) \<or>
        operatorScopeSatisfied s (normalizeScopeList caller)"
      by (auto split: option.splits)
    then show "scope_granted ?G (di_deviceId ?d) s"
      using old scope_granted_mono [of G k s ?G] \<open>is_operator_scope s\<close> k(1)
      by (auto simp: device_ok_def scope_granted_def)
  qed
  have ev: "evolves I (js_nullish (map_option toks (jm_get P k)) []) (toks ?d)"
  proof -
    have "js_nullish (map_option toks (jm_get P k)) [] = tokens_of e" unfolding e by (cases "jm_get P k") simp_all
    then show ?thesis
      using fold_tokens_evolve [of F gen rs I "tokens_of e"] F(2) rs(1) fresh old_token by (simp add: tokens)
  qed
  show ?thesis
    using paired_ok_write [OF ok _ _ dev _ k(2) ev] moves_write [OF ok ev] k by auto
qed

lemma approveE:
  assumes "approveDevicePairing rid caller gen now f = (Approved rid' d, f')"
  obtains p e roles scopes tokens rs where
    "jm_get (pf_pending (loadState now f)) rid = Some p" "e = jm_get (pf_paired f) (di_deviceId p)"
    "approval_missing_scope caller p = None" "rs = resolveRequestedRoles p"
    "roles = mergeRoles [Option.bind e di_roles, one_role (Option.bind e di_role), di_roles p, one_role (di_role p)]"
    "scopes = mergeScopes [existing_baseline e, di_scopes p]"
    "tokens = fold (\<lambda>r m. jm_set r (buildDeviceAuthToken r (resolveApprovedTokenScopes r p (jm_get m r) scopes e)
        (jm_get m r) now (if jm_get m r \<noteq> None then Some now else None) (gen r)) m) rs (tokens_of e)"
    "d = approved_device p e roles scopes tokens now"
    "pf_paired f' = jm_set (di_deviceId p) d (pf_paired f)"
    "pf_pending f' = jm_delete rid (pf_pending (loadState now f))"
proof -
  obtain p where p: "jm_get (pf_pending (loadState now f)) rid = Some p"
    using assms by (auto simp: approveDevicePairing_def Let_def split: option.splits)
  have m: "approval_missing_scope caller p = None"
    using assms p by (auto simp: approveDevicePairing_def Let_def split: option.splits)
  show thesis
    by (rule that [OF p refl m refl refl refl refl])
      (use assms p m in \<open>auto simp: approveDevicePairing_def Let_def save_approved_def\<close>)
qed

lemma bootstrapE:
  assumes "approveBootstrapDevicePairing rid profile gen now f = (Approved rid' d, f')"
  obtains p e roles scopes tokens rs where
    "jm_get (pf_pending (loadState now f)) rid = Some p" "e = jm_get (pf_paired f) (di_deviceId p)"
    "rs = bootstrap_roles profile" "set (resolveRequestedRoles p) \<subseteq> set rs"
    "resolveMissingRequestedScope OPERATOR_ROLE (requested_operator_scopes p)
       (normalizeDeviceAuthScopes (Some (bp_scopes profile))) = None"
    "roles = mergeRoles [Option.bind e di_roles, one_role (Option.bind e di_role), di_roles p, one_role (di_role p), Some rs]"
    "scopes = mergeScopes [existing_baseline e, di_scopes p, Some (normalizeDeviceAuthScopes (Some (bp_scopes profile)))]"
    "tokens = fold (\<lambda>r m. jm_set r (buildDeviceAuthToken r
        (if r = OPERATOR_ROLE then resolveBootstrapProfileScopesForRole r (normalizeDeviceAuthScopes (Some (bp_scopes profile))) else [])
        (jm_get m r) now (if jm_get m r \<noteq> None then Some now else None) (gen r)) m) rs (tokens_of e)"
    "d = approved_device p e roles scopes tokens now"
    "pf_paired f' = jm_set (di_deviceId p) d (pf_paired f)"
    "pf_pending f' = jm_delete rid (pf_pending (loadState now f))"
proof -
  obtain p where p: "jm_get (pf_pending (loadState now f)) rid = Some p"
    using assms by (auto simp: approveBootstrapDevicePairing_def Let_def split: option.splits)
  have n: "find (\<lambda>role. role \<notin> set (bootstrap_roles profile)) (resolveRequestedRoles p) = None"
    "resolveMissingRequestedScope OPERATOR_ROLE (requested_operator_scopes p)
       (normalizeDeviceAuthScopes (Some (bp_scopes profile))) = None"
    using assms p by (auto simp: approveBootstrapDevicePairing_def bootstrap_roles_def Let_def split: option.splits)
  then have sub: "set (resolveRequestedRoles p) \<subseteq> set (bootstrap_roles profile)" by (auto simp: find_None_iff)
  show thesis
    by (rule that [OF p refl refl sub n(2) refl refl refl])
      (use assms p n in \<open>auto simp: approveBootstrapDevicePairing_def bootstrap_roles_def Let_def save_approved_def\<close>)
qed

text \<open>The operator scopes that a request asks for, all covered by the approver.\<close>

lemma approval_covers:
  assumes "approval_missing_scope caller p = None" "s \<in> set (trimmed_entries (js_nullish (di_scopes p) []))" "is_operator_scope s"
  shows "operatorScopeSatisfied s (normalizeScopeList (js_nullish caller []))"
proof -
  have s: "s \<in> set (requested_operator_scopes p)"
    using assms(2,3) normalizeDeviceAuthScopes_extends
    by (cases "di_scopes p") (auto simp: requested_operator_scopes_def)
  then obtain c where c: "caller = Some c" "resolveMissingRequestedScope OPERATOR_ROLE (requested_operator_scopes p) c = None"
    using assms(1) by (cases "requested_operator_scopes p")
      (auto simp: approval_missing_scope_def Let_def split: option.splits if_splits)
  have "js_trim OPERATOR_ROLE = OPERATOR_ROLE" by code_simp
  with c s show ?thesis
    using trimmed_entries_trim [OF assms(2)]
    by (auto simp: no_missing_scope roleScopesAllow_operator trimmed_entries_single)
qed

lemma bootstrap_covers:
  assumes "resolveMissingRequestedScope OPERATOR_ROLE (requested_operator_scopes p)
       (normalizeDeviceAuthScopes (Some xs)) = None" "s \<in> set (trimmed_entries (js_nullish (di_scopes p) []))" "is_operator_scope s"
  shows "operatorScopeSatisfied s (normalizeScopeList xs)"
proof -
  have s: "s \<in> set (requested_operator_scopes p)"
    using assms(2,3) normalizeDeviceAuthScopes_extends
    by (cases "di_scopes p") (auto simp: requested_operator_scopes_def)
  have "js_trim OPERATOR_ROLE = OPERATOR_ROLE" by code_simp
  then have "operatorScopeSatisfied s (normalizeScopeList (normalizeDeviceAuthScopes (Some xs)))"
    using assms(1) s trimmed_entries_trim [OF assms(2)]
    by (auto simp: no_missing_scope roleScopesAllow_operator trimmed_entries_single)
  then show ?thesis
    by (rule satisfied_through) (use normalizeDeviceAuthScopes_covered in auto)
qed

section \<open>Every step keeps the invariant\<close>

text \<open>One token of a device is written: a changed one, or a new one for an approved role.\<close>

lemma set_token_ok:
  assumes ok: "paired_ok G I P" and d: "jm_get P k = Some d" and t: "dt_role t = r"
    and how: "(\<exists>t0. jm_get (toks d) r = Some t0 \<and> dt_token t = dt_token t0 \<and> (token_revoked t0 \<longrightarrow> token_revoked t) \<and> I' = I) \<or>
      (dt_token t \<notin> set I \<and> r \<in> set (listApprovedPairedDeviceRoles d) \<and> I' = dt_token t # I)"
  shows "paired_ok G I' (jm_set k (d\<lparr>pd_tokens := Some (jm_set r t (toks d))\<rparr>) P) \<and>
    moves I P (jm_set k (d\<lparr>pd_tokens := Some (jm_set r t (toks d))\<rparr>) P)"
proof -
  let ?d = "d\<lparr>pd_tokens := Some (jm_set r t (toks d))\<rparr>"
  have dk: "di_deviceId d = k" "js_trim k = k" "device_ok G I d" using ok d by (auto simp: paired_ok_def)
  have sub: "set I \<subseteq> set I'" using how by auto
  have roles: "listApprovedPairedDeviceRoles ?d = listApprovedPairedDeviceRoles d"
    "paired_scopes ?d = paired_scopes d" by (simp_all add: listApprovedPairedDeviceRoles_def paired_scopes_def)
  have tok: "js_trim r = r \<and> dt_token t \<in> set I' \<and> role_granted G k r"
    using how dk approved_roles_trim [of r d] by (auto simp: device_ok_def)
  have "device_ok G I' ?d"
    using dk(3) tok t sub by (auto simp: device_ok_def roles dk(1))
  moreover have ev: "evolves I (js_nullish (map_option toks (jm_get P k)) []) (toks ?d)"
  proof -
    have known: "dt_token x \<in> set I" if "jm_get (toks d) r' = Some x" for r' x
      using dk(3) that by (simp add: device_ok_def)
    then show ?thesis using how unfolding evolves_def by (auto simp: d) metis+
  qed
  ultimately show ?thesis
    using paired_ok_write [OF ok order_refl sub, of ?d k] moves_write [OF ok ev] dk by simp
qed

lemma contextE:
  assumes "resolveDeviceTokenUpdateContext st deviceId role = Some (d, r, tokens, existing)"
  shows "jm_get (pf_paired st) (js_trim deviceId) = Some d" "r = js_trim role" "r \<in> set (listApprovedPairedDeviceRoles d)"
    "tokens = toks d" "existing = jm_get (toks d) r"
  using assms by (auto simp: resolveDeviceTokenUpdateContext_def Let_def normalizeRole_Some split: option.splits if_splits)

lemma save_token_simps [simp]:
  "pf_paired (save_token d r t tokens st) = jm_set (di_deviceId d) (d\<lparr>pd_tokens := Some (jm_set r t tokens)\<rparr>) (pf_paired st)"
  "pf_pending (save_token d r t tokens st) = pf_pending st"
  by (simp_all add: save_token_def Let_def)

text \<open>What the operations on tokens do to the files.\<close>

lemma ensureE:
  assumes "ensureDeviceToken deviceId role scopes tok now f = (Some (t, True), f')"
  obtains d r where "jm_get (pf_paired f) (js_trim deviceId) = Some d" "r = js_trim role"
    "r \<in> set (listApprovedPairedDeviceRoles d)" "dt_token t = tok" "dt_role t = r"
    "f' = save_token d r t (toks d) (loadState now f)"
proof -
  obtain d r tokens existing where c: "resolveDeviceTokenUpdateContext (loadState now f) deviceId role = Some (d, r, tokens, existing)"
    using assms by (auto simp: ensureDeviceToken_def Let_def split: option.splits)
  show thesis
    by (rule that [of d r]) (use contextE [OF c] assms c in
      \<open>auto simp: ensureDeviceToken_def Let_def split: if_splits option.splits bool.splits\<close>)
qed

lemma rotateE:
  assumes "rotateDeviceToken deviceId role scopes tok now f = (Inr t, f')"
  obtains d r where "jm_get (pf_paired f) (js_trim deviceId) = Some d" "r = js_trim role"
    "r \<in> set (listApprovedPairedDeviceRoles d)" "dt_token t = tok" "dt_role t = r"
    "f' = save_token d r t (toks d) (loadState now f)"
proof -
  obtain d r tokens existing where c: "resolveDeviceTokenUpdateContext (loadState now f) deviceId role = Some (d, r, tokens, existing)"
    using assms by (auto simp: rotateDeviceToken_def Let_def split: option.splits)
  show thesis
    by (rule that [of d r]) (use contextE [OF c] assms c in
      \<open>auto simp: rotateDeviceToken_def Let_def split: if_splits option.splits\<close>)
qed

lemma revokeE:
  assumes "revokeDeviceToken deviceId role now f = (Some t, f')"
  obtains d t0 where "jm_get (pf_paired f) (js_trim deviceId) = Some d"
    "jm_get (toks d) (js_trim role) = Some t0" "t = t0\<lparr>dt_revokedAtMs := Some now\<rparr>" "js_trim role \<noteq> []"
    "f' = save_token d (js_trim role) t (toks d) (loadState now f)"
  using assms by (auto simp: revokeDeviceToken_def Let_def normalizeRole_Some split: option.splits)

lemma verifyE:
  assumes "verifyDeviceToken deviceId tok role scopes now f = (TokenOk, f')"
  obtains d t base where "jm_get (pf_paired f) (js_trim deviceId) = Some d"
    "jm_get (toks d) (js_trim role) = Some t" "\<not> token_revoked t" "dt_token t = tok"
    "resolveApprovedDeviceScopeBaseline d = Some base" "roleScopesAllow (js_trim role) (dt_scopes t) base"
    "roleScopesAllow (js_trim role) (normalizeDeviceAuthScopes (Some scopes)) (dt_scopes t)"
    "pf_pending f' = pf_pending (loadState now f)"
    "pf_paired f' = jm_set (di_deviceId d) (d\<lparr>pd_tokens := Some (jm_set (js_trim role) (t\<lparr>dt_lastUsedAtMs := Some now\<rparr>) (toks d))\<rparr>) (pf_paired f)"
  using assms by (auto simp: verifyDeviceToken_def Let_def normalizeRole_Some scopesWithinApprovedDeviceBaseline_def
      verifyPairingToken_def split: option.splits if_splits)

lemma unchanged:
  "ensureDeviceToken deviceId role scopes tok now f = (Some (t, False), f') \<Longrightarrow> f' = f"
  "ensureDeviceToken deviceId role scopes tok now f = (None, f') \<Longrightarrow> f' = f"
  "rotateDeviceToken deviceId role osc tok now f = (Inl r, f') \<Longrightarrow> f' = f"
  "revokeDeviceToken deviceId role now f = (None, f') \<Longrightarrow> f' = f"
  by (auto simp: ensureDeviceToken_def rotateDeviceToken_def revokeDeviceToken_def Let_def split: option.splits if_splits bool.splits)

lemma verify_unchanged: "verifyDeviceToken deviceId tok role scopes now f = (res, f') \<Longrightarrow> res \<noteq> TokenOk \<Longrightarrow> f' = f"
  by (auto simp: verifyDeviceToken_def Let_def split: option.splits if_splits)

lemma effective_roles_approved: "set (listEffectivePairedDeviceRoles d) \<subseteq> set (listApprovedPairedDeviceRoles d)"
  by (auto simp: listEffectivePairedDeviceRoles_def Let_def split: if_splits)

text \<open>A reconnect within the checks of the caller adds nothing to what was granted.\<close>

lemma metadata_ok:
  assumes ok: "paired_ok G I P" and d: "jm_get P k = Some d"
    and reading: "reading_ok G R" and allowed: "reconnect_allowed R k patch"
    and d': "di_deviceId d' = di_deviceId d" "pd_tokens d' = pd_tokens d" "pd_approvedScopes d' = pd_approvedScopes d"
      "di_role d' = or_else (mp_role patch) (di_role d)"
      "di_roles d' = mergeRoles [di_roles d, one_role (di_role d), one_role (mp_role patch)]"
      "di_scopes d' = mergeScopes [di_scopes d, mp_scopes patch]"
  shows "paired_ok G I (jm_set k d' P) \<and> moves I P (jm_set k d' P)"
proof -
  have dk: "di_deviceId d = k" "js_trim k = k" "device_ok G I d" using ok d by (auto simp: paired_ok_def)
  obtain role where role: "mp_role patch = Some role" "role_granted G k role" "js_trim role = role"
    and sc: "js_nullish (mp_scopes patch) [] = [] \<or>
      list_ex (\<lambda>(d', _, scopes). d' = k \<and> roleScopesAllow role (js_nullish (mp_scopes patch) []) scopes) R"
    using allowed reading_ok_role [OF reading] by (auto simp: reconnect_allowed_def split: option.splits)
  have "set (listApprovedPairedDeviceRoles d') \<subseteq> insert role (set (listApprovedPairedDeviceRoles d))"
    using role by (auto simp: listApprovedPairedDeviceRoles_def set_mergeRoles d' trimmed_entries_single split: if_splits)
  moreover have "scope_granted G k s" if "s \<in> set (trimmed_entries (paired_scopes d'))" "is_operator_scope s" for s
  proof (cases "pd_approvedScopes d")
    case None
    have "s \<in> set (trimmed_entries (js_nullish (di_scopes d) [])) \<or> s \<in> set (trimmed_entries (js_nullish (mp_scopes patch) []))"
      using that(1) None by (auto simp: paired_scopes_def d' set_mergeScopes)
    then show ?thesis
    proof
      assume "s \<in> set (trimmed_entries (js_nullish (di_scopes d) []))"
      then show ?thesis using dk that(2) None by (auto simp: paired_scopes_def device_ok_def)
    next
      assume s: "s \<in> set (trimmed_entries (js_nullish (mp_scopes patch) []))"
      then obtain roles read where read: "(k, roles, read) \<in> set R" "roleScopesAllow role (js_nullish (mp_scopes patch) []) read"
        using sc by (auto simp: list_ex_iff)
      have old: "scope_granted G k x" if "x \<in> set (trimmed_entries read)" "is_operator_scope x" for x
        using reading read(1) that by (auto simp: reading_ok_def list_all_iff)
      from roleScopesAllow_covers [OF read(2) s that(2)] show ?thesis
        by (rule scope_granted_through) (use old in auto)
    qed
  qed (use that dk in \<open>auto simp: device_ok_def paired_scopes_def d'\<close>)
  ultimately have ok': "device_ok G I d'"
    using dk role(2) by (auto simp: device_ok_def d'(1,2))
  have ev: "evolves I (js_nullish (map_option toks (jm_get P k)) []) (toks d')"
    using moves_refl [OF ok] d by (auto simp: moves_def d'(2))
  from paired_ok_write [OF ok order_refl order_refl ok' _ _ ev] moves_write [OF ok ev] dk d'(1) show ?thesis by simp
qed

lemma subjects_prune: "subjects_ok m \<Longrightarrow> subjects_ok (pruneExpiredPending ts now ttl m)"
  by (auto simp: subjects_ok_def pruneExpiredPending_def)

lemma subjects_delete: "subjects_ok m \<Longrightarrow> subjects_ok (jm_delete k m)"
  unfolding subjects_ok_def by (auto simp: AList.delete_eq)

lemma subjects_get: "subjects_ok m \<Longrightarrow> jm_get m k = Some p \<Longrightarrow> js_trim (di_deviceId p) = di_deviceId p"
  unfolding subjects_ok_def by (auto dest: map_of_SomeD)

lemma subjects_iff: "jm_ok m \<Longrightarrow> subjects_ok m \<longleftrightarrow> (\<forall>k p. jm_get m k = Some p \<longrightarrow> js_trim (di_deviceId p) = di_deviceId p)"
  unfolding subjects_ok_def Ball_def split_paired_All prod.case by (simp only: jm_get_iff)

lemma subjects_set: "subjects_ok m \<Longrightarrow> js_trim (di_deviceId p) = di_deviceId p \<Longrightarrow> jm_ok m \<Longrightarrow> subjects_ok (jm_set k p m)"
  by (subst subjects_iff) (auto simp: subjects_iff split: if_splits)

lemma subjects_reconcile:
  assumes "subjects_ok m" "jm_ok m"
  shows "subjects_ok (snd (snd (device_requests.reconcile rep now uuid req m)))"
proof -
  have del: "subjects_ok (fold (\<lambda>e. jm_delete (pr_requestId e)) es m)" for es
    using assms(1) by (induction es arbitrary: m) (simp_all add: subjects_delete)
  have hd: "js_trim (di_deviceId (hd es)) = di_deviceId (hd es)"
    if "es = pending_of di_deviceId pr_ts x m" "length es = 1" for es x
  proof -
    have "hd es \<in> set es" using that(2) by (cases es) simp_all
    then have "hd es \<in> {r. \<exists>k. (k, r) \<in> set m \<and> di_deviceId r = x}" unfolding that(1) set_pending_of .
    then obtain k where "(k, hd es) \<in> set m" by blast
    then show ?thesis using assms(1) by (auto simp: subjects_ok_def)
  qed
  show ?thesis
    unfolding device_requests.reconcile_def reconcilePendingPairingRequests_def
    using assms hd [OF refl] by (auto simp: Let_def refreshPendingDevicePairingRequest_def build_replacement_def
        buildPendingDevicePairingRequest_def intro!: subjects_set del)
qed

lemma request_subjects:
  assumes "subjects_ok (pf_pending f)" "jm_ok (pf_pending f)"
  shows "subjects_ok (pf_pending (snd (requestDevicePairing req uuid now f)))"
proof (cases "fst (requestDevicePairing req uuid now f)")
  case (Inl e)
  then have "snd (requestDevicePairing req uuid now f) = f"
    by (auto simp: requestDevicePairing_def Let_def split: if_splits prod.splits)
  then show ?thesis using assms by simp
next
  case (Inr rc)
  obtain r c f' where eq: "requestDevicePairing req uuid now f = (Inr (r, c), f')" using Inr by (metis prod.collapse)
  obtain rep where rec: "device_requests.reconcile rep now uuid req (pf_pending (loadState now f)) = (r, c, pf_pending f')"
    using requestE [OF eq] by metis
  have "subjects_ok (pf_pending (loadState now f))" "jm_ok (pf_pending (loadState now f))"
    using assms subjects_prune by simp_all
  from subjects_reconcile [OF this, of rep now uuid req] show ?thesis unfolding rec eq by simp
qed

text \<open>A step of the files: the requests stay well-formed, the devices keep to what is granted, tokens evolve.\<close>

definition good_step :: "pairing \<Rightarrow> pairing \<Rightarrow> bool" where
  "good_step s s' \<longleftrightarrow> pairing_inv s' \<and> moves (pg_issued s) (pf_paired (pg_file s)) (pf_paired (pg_file s')) \<and>
     set (pg_issued s) \<subseteq> set (pg_issued s')"

lemma good_refl: "pairing_inv s \<Longrightarrow> good_step s s"
  using moves_refl by (auto simp: good_step_def pairing_inv_def)

lemma load_wf:
  assumes "pairing_inv s"
  shows "requests_wf (loadState now (pg_file s)) \<and> subjects_ok (pf_pending (loadState now (pg_file s)))"
  unfolding load_simps by (intro conjI pending_wf_prune subjects_prune) (use assms in \<open>simp_all add: pairing_inv_def\<close>)

text \<open>Most operations write the devices and leave the requests as they were loaded.\<close>

lemma good_write:
  assumes "pairing_inv s" "pf_pending f = pf_pending (loadState now (pg_file s))"
    "paired_ok G I (pf_paired f) \<and> moves (pg_issued s) (pf_paired (pg_file s)) (pf_paired f)" "set (pg_issued s) \<subseteq> set I"
    "reading_ok G (pg_reading s)"
  shows "good_step s (s\<lparr>pg_file := f, pg_grants := G, pg_issued := I\<rparr>)"
  using assms load_wf [OF assms(1), of now] by (simp add: good_step_def pairing_inv_def)

lemma good_pending:
  assumes "pairing_inv s" "requests_wf f" "subjects_ok (pf_pending f)" "pf_paired f = pf_paired (pg_file s)"
  shows "good_step s (s\<lparr>pg_file := f\<rparr>)"
  using assms moves_refl by (auto simp: good_step_def pairing_inv_def)

lemma good_request:
  assumes "pairing_inv s" "jm_get (pf_pending (pg_file s)) uuid = None"
  shows "good_step s (s\<lparr>pg_file := snd (requestDevicePairing req uuid now (pg_file s))\<rparr>)"
proof (rule good_pending [OF assms(1)])
  have "requests_wf (pg_file s)" "subjects_ok (pf_pending (pg_file s))" "jm_ok (pf_pending (pg_file s))"
    using assms(1) by (simp_all add: pairing_inv_def pending_wf_def)
  then show "requests_wf (snd (requestDevicePairing req uuid now (pg_file s)))"
    "subjects_ok (pf_pending (snd (requestDevicePairing req uuid now (pg_file s))))"
    using request_wf request_subjects assms(2) by simp_all
qed simp

lemma good_reject:
  assumes "pairing_inv s"
  shows "good_step s (s\<lparr>pg_file := snd (rejectDevicePairing rid now (pg_file s))\<rparr>)"
proof (rule good_pending [OF assms])
  have wf: "requests_wf (loadState now (pg_file s))" "subjects_ok (pf_pending (loadState now (pg_file s)))"
    using load_wf [OF assms] by simp_all
  show "requests_wf (snd (rejectDevicePairing rid now (pg_file s)))"
    "subjects_ok (pf_pending (snd (rejectDevicePairing rid now (pg_file s))))"
    using assms pending_wf_delete [OF wf(1)] subjects_delete [OF wf(2)]
    by (simp_all add: rejectDevicePairing_def rejectPendingPairingRequest_def Let_def pairing_inv_def split: option.splits)
qed (auto simp: rejectDevicePairing_def rejectPendingPairingRequest_def Let_def split: option.splits)

text \<open>An approval, given how its device comes about.\<close>

lemma good_approved:
  assumes inv: "pairing_inv s" and p: "jm_get (pf_pending (loadState now (pg_file s))) rid = Some p"
    and f': "pf_pending f' = jm_delete rid (pf_pending (loadState now (pg_file s)))" "pf_paired f' = jm_set (di_deviceId p) d (pf_paired (pg_file s))"
    and d: "d = approved_device p e roles scopes tokens now" "e = jm_get (pf_paired (pg_file s)) (di_deviceId p)"
    and F: "\<And>r x. dt_role (F r x) = r" "\<And>r x. dt_token (F r x) = gen r"
    and rs: "distinct rs" "\<And>r. r \<in> set rs \<Longrightarrow> js_trim r = r" "set (resolveRequestedRoles p) \<subseteq> set rs"
    and fresh: "distinct (map gen rs)" "list_all (\<lambda>t. t \<notin> set (pg_issued s)) (map gen rs)"
    and roles: "set (js_nullish roles []) \<subseteq> (case e of None \<Rightarrow> {} | Some d \<Rightarrow> set (listApprovedPairedDeviceRoles d)) \<union> set rs"
      "trimmed_entries (js_nullish roles []) = js_nullish roles []"
    and scopes: "\<And>s. s \<in> set (trimmed_entries (js_nullish scopes [])) \<Longrightarrow> is_operator_scope s \<Longrightarrow>
       s \<in> (case e of None \<Rightarrow> {} | Some d \<Rightarrow> set (trimmed_entries (paired_scopes d))) \<or>
       operatorScopeSatisfied s (normalizeScopeList caller)"
    and tokens: "tokens = fold (\<lambda>r m. jm_set r (F r (jm_get m r)) m) rs (tokens_of e)"
  shows "good_step s (granted rs caller (map gen rs) silent (Approved rid d, f') s)"
proof -
  let ?k = "di_deviceId p" and ?P = "pf_paired (pg_file s)"
  have ok: "paired_ok (pg_grants s) (pg_issued s) ?P" and wf: "requests_wf (loadState now (pg_file s))"
    "subjects_ok (pf_pending (loadState now (pg_file s)))"
    using inv load_wf [OF inv] by (simp_all add: pairing_inv_def)
  have trim: "js_trim ?k = ?k" using subjects_get [OF wf(2) p] .
  have new: "paired_ok ((?k, rs, caller) # pg_grants s) (map gen rs @ pg_issued s) (jm_set ?k d ?P) \<and>
      moves (pg_issued s) ?P (jm_set ?k d ?P)"
    unfolding d(1)
    by (rule approved_paired_ok [OF ok refl trim d(2) F rs fresh roles(1) _ roles(2) tokens]) (use scopes in auto)
  have "reading_ok ((?k, rs, caller) # pg_grants s) (pg_reading s)"
    by (rule reading_ok_mono [of "pg_grants s"]) (use inv in \<open>auto simp: pairing_inv_def\<close>)
  then have "pairing_inv (s\<lparr>pg_file := f', pg_grants := (?k, rs, caller) # pg_grants s, pg_issued := map gen rs @ pg_issued s,
      pg_reading := (if silent then (?k, rs, []) # pg_reading s else pg_reading s)\<rparr>)"
    using new pending_wf_delete [OF wf(1)] subjects_delete [OF wf(2)] rs(2)
    by (auto simp: pairing_inv_def f' reading_ok_def role_granted_def)
  then show ?thesis
    using new by (cases silent) (simp_all add: good_step_def granted_def d(1) f')
qed

lemma good_approve:
  assumes inv: "pairing_inv s" and en: "pairing_enabled s (ApprovePairing rid caller gen now)"
  shows "good_step s (pairing_step s (ApprovePairing rid caller gen now))"
proof (cases "approveDevicePairing rid caller gen now (pg_file s)")
  case (Pair res f')
  show ?thesis
  proof (cases res)
    case (Approved rid' d)
    then have eq: "approveDevicePairing rid caller gen now (pg_file s) = (Approved rid' d, f')" using Pair by simp
    then obtain p e roles scopes tokens rs where p: "jm_get (pf_pending (loadState now (pg_file s))) rid = Some p"
      and e: "e = jm_get (pf_paired (pg_file s)) (di_deviceId p)" and m: "approval_missing_scope caller p = None"
      and rs: "rs = resolveRequestedRoles p"
      and roles: "roles = mergeRoles [Option.bind e di_roles, one_role (Option.bind e di_role), di_roles p, one_role (di_role p)]"
      and scopes: "scopes = mergeScopes [existing_baseline e, di_scopes p]"
      and tokens: "tokens = fold (\<lambda>r m. jm_set r (buildDeviceAuthToken r (resolveApprovedTokenScopes r p (jm_get m r) scopes e)
        (jm_get m r) now (if jm_get m r \<noteq> None then Some now else None) (gen r)) m) rs (tokens_of e)"
      and d: "d = approved_device p e roles scopes tokens now"
      and f': "pf_paired f' = jm_set (di_deviceId p) d (pf_paired (pg_file s))"
        "pf_pending f' = jm_delete rid (pf_pending (loadState now (pg_file s)))"
      by (rule approveE)
    have roles_eq: "approval_roles rid now (pg_file s) = rs"
      using p by (simp add: approval_roles_def getPendingDevicePairing_def rs)
    have "good_step s (granted rs (js_nullish caller []) (map gen rs) (approval_silent rid now (pg_file s)) (Approved rid d, f') s)"
    proof (rule good_approved [OF inv p f'(2,1) d e _ _ _ _ _ _ _ _ _ _ tokens])
      show "set (js_nullish roles []) \<subseteq> (case e of None \<Rightarrow> {} | Some d \<Rightarrow> set (listApprovedPairedDeviceRoles d)) \<union> set rs"
        using existing_roles [of e] requested_roles_set [of p] by (auto simp: roles rs set_mergeRoles)
      show "s \<in> (case e of None \<Rightarrow> {} | Some d \<Rightarrow> set (trimmed_entries (paired_scopes d))) \<or>
          operatorScopeSatisfied s (normalizeScopeList (js_nullish caller []))"
        if "s \<in> set (trimmed_entries (js_nullish scopes []))" "is_operator_scope s" for s
        using that approval_covers [OF m] existing_baseline_scopes [of e]
        by (auto simp: scopes set_mergeScopes split: option.splits)
    qed (use en roles_eq in \<open>auto simp: rs roles requested_roles_trim Let_def\<close>)
    then show ?thesis
      using eq by (simp add: roles_eq granted_def Let_def)
  qed (use Pair good_refl [OF inv] in \<open>simp_all add: granted_def Let_def\<close>)
qed

lemma good_bootstrap:
  assumes inv: "pairing_inv s" and en: "pairing_enabled s (ApproveBootstrap rid profile gen now)"
  shows "good_step s (pairing_step s (ApproveBootstrap rid profile gen now))"
proof (cases "approveBootstrapDevicePairing rid profile gen now (pg_file s)")
  case (Pair res f')
  show ?thesis
  proof (cases res)
    case (Approved rid' d)
    then have eq: "approveBootstrapDevicePairing rid profile gen now (pg_file s) = (Approved rid' d, f')" using Pair by simp
    then obtain p e roles scopes tokens rs where p: "jm_get (pf_pending (loadState now (pg_file s))) rid = Some p"
      and e: "e = jm_get (pf_paired (pg_file s)) (di_deviceId p)"
      and rs: "rs = bootstrap_roles profile" "set (resolveRequestedRoles p) \<subseteq> set rs"
      and m: "resolveMissingRequestedScope OPERATOR_ROLE (requested_operator_scopes p)
        (normalizeDeviceAuthScopes (Some (bp_scopes profile))) = None"
      and roles: "roles = mergeRoles [Option.bind e di_roles, one_role (Option.bind e di_role), di_roles p, one_role (di_role p), Some rs]"
      and scopes: "scopes = mergeScopes [existing_baseline e, di_scopes p, Some (normalizeDeviceAuthScopes (Some (bp_scopes profile)))]"
      and tokens: "tokens = fold (\<lambda>r m. jm_set r (buildDeviceAuthToken r
        (if r = OPERATOR_ROLE then resolveBootstrapProfileScopesForRole r (normalizeDeviceAuthScopes (Some (bp_scopes profile))) else [])
        (jm_get m r) now (if jm_get m r \<noteq> None then Some now else None) (gen r)) m) rs (tokens_of e)"
      and d: "d = approved_device p e roles scopes tokens now"
      and f': "pf_paired f' = jm_set (di_deviceId p) d (pf_paired (pg_file s))"
        "pf_pending f' = jm_delete rid (pf_pending (loadState now (pg_file s)))"
      by (rule bootstrapE)
    have trim: "js_trim r = r" if "r \<in> set rs" for r
      using that unfolding rs bootstrap_roles_def by (metis trimmed_entries_trim trimmed_mergeRoles)
    have trims: "trimmed_entries rs = rs" by (simp add: rs bootstrap_roles_def)
    have "good_step s (granted rs (bp_scopes profile) (map gen rs) (approval_silent rid now (pg_file s)) (Approved rid d, f') s)"
    proof (rule good_approved [OF inv p f'(2,1) d e _ _ _ trim rs(2) _ _ _ _ _ tokens])
      show "set (js_nullish roles []) \<subseteq> (case e of None \<Rightarrow> {} | Some d \<Rightarrow> set (listApprovedPairedDeviceRoles d)) \<union> set rs"
        using existing_roles [of e] requested_roles_set [of p] rs(2) trims by (auto simp: roles set_mergeRoles)
      show "s \<in> (case e of None \<Rightarrow> {} | Some d \<Rightarrow> set (trimmed_entries (paired_scopes d))) \<or>
          operatorScopeSatisfied s (normalizeScopeList (bp_scopes profile))"
        if "s \<in> set (trimmed_entries (js_nullish scopes []))" "is_operator_scope s" for s
        using that bootstrap_covers [OF m] existing_baseline_scopes [of e] normalizeDeviceAuthScopes_covered [of s "bp_scopes profile"]
        by (auto simp: scopes set_mergeScopes split: option.splits)
    qed (use en in \<open>auto simp: rs roles Let_def\<close>)
    then show ?thesis
      using eq by (simp add: rs granted_def Let_def)
  qed (use Pair good_refl [OF inv] in \<open>simp_all add: granted_def Let_def\<close>)
qed

lemma good_paired:
  assumes "pairing_inv s" "pf_pending f = pf_pending (loadState now (pg_file s))"
    "paired_ok (pg_grants s) (pg_issued s) (pf_paired f) \<and> moves (pg_issued s) (pf_paired (pg_file s)) (pf_paired f)"
  shows "good_step s (s\<lparr>pg_file := f\<rparr>)"
proof -
  have "s\<lparr>pg_file := f\<rparr> = s\<lparr>pg_file := f, pg_grants := pg_grants s, pg_issued := pg_issued s\<rparr>" by simp
  moreover have "reading_ok (pg_grants s) (pg_reading s)" using assms(1) by (simp add: pairing_inv_def)
  ultimately show ?thesis using good_write [OF assms order_refl] by (simp only:)
qed

lemma good_issue:
  assumes "pairing_inv s" "pf_pending f = pf_pending (loadState now (pg_file s))"
    "paired_ok (pg_grants s) (tok # pg_issued s) (pf_paired f) \<and> moves (pg_issued s) (pf_paired (pg_file s)) (pf_paired f)"
  shows "good_step s (s\<lparr>pg_file := f, pg_issued := tok # pg_issued s\<rparr>)"
proof -
  have "s\<lparr>pg_file := f, pg_issued := tok # pg_issued s\<rparr> =
      s\<lparr>pg_file := f, pg_grants := pg_grants s, pg_issued := tok # pg_issued s\<rparr>" by simp
  moreover have "reading_ok (pg_grants s) (pg_reading s)" using assms(1) by (simp add: pairing_inv_def)
  ultimately show ?thesis using good_write [OF assms set_subset_Cons] by (simp only:)
qed

lemma forget_file [simp]: "pg_file (forget k s) = pg_file s"
  by (simp add: forget_def)

lemma good_forget:
  assumes inv: "pairing_inv s" and f: "f = (loadState now (pg_file s))\<lparr>pf_paired := jm_delete k (pf_paired (pg_file s))\<rparr>"
  shows "good_step s (forget k (s\<lparr>pg_file := f\<rparr>))"
proof -
  have ok: "paired_ok (pg_grants s) (pg_issued s) (pf_paired (pg_file s))" using inv by (simp add: pairing_inv_def)
  have R: "reading_ok (pg_grants s) (pg_reading s)" using inv by (simp add: pairing_inv_def)
  show ?thesis
  proof (cases "list_ex (\<lambda>(d, _). d = k) (pg_reading s)")
    case True
    have "paired_ok (pg_grants s) (pg_issued s) (jm_delete k (pf_paired (pg_file s)))"
      using ok by (auto simp: paired_ok_def one_owner_def split: if_splits)
    then show ?thesis
      using good_paired [OF inv, of f now] moves_delete [OF ok, of k] True by (simp add: f forget_def)
  next
    case False
    have "reading_ok (filter (\<lambda>(d, _). d \<noteq> k) (pg_grants s)) (pg_reading s)"
      unfolding reading_ok_def list_all_iff
    proof clarify
      fix d roles scopes assume m: "(d, roles, scopes) \<in> set (pg_reading s)"
      have "d \<noteq> k" using m False by (auto simp: list_ex_iff)
      then show "(\<forall>r\<in>set roles. js_trim r = r \<and> role_granted (filter (\<lambda>(d, _). d \<noteq> k) (pg_grants s)) d r) \<and>
          (\<forall>sc\<in>set (trimmed_entries scopes). is_operator_scope sc \<longrightarrow> scope_granted (filter (\<lambda>(d, _). d \<noteq> k) (pg_grants s)) d sc)"
        using R m filter_grants [of d k "pg_grants s"] by (auto simp: reading_ok_def list_all_iff)
    qed
    then have "good_step s (s\<lparr>pg_file := f, pg_grants := filter (\<lambda>(d, _). d \<noteq> k) (pg_grants s), pg_issued := pg_issued s\<rparr>)"
      by (intro good_write [OF inv, of _ now]) (use paired_ok_delete [OF ok, of k] moves_delete [OF ok, of k] in \<open>simp_all add: f\<close>)
    with False show ?thesis by (simp add: forget_def)
  qed
qed

lemma good_token_ops:
  assumes inv: "pairing_inv s"
  shows "good_step s (pairing_step s (VerifyToken deviceId tok role scopes now))"
    "tok \<notin> set (pg_issued s) \<Longrightarrow> good_step s (pairing_step s (EnsureToken deviceId role scopes tok now))"
    "tok \<notin> set (pg_issued s) \<Longrightarrow> good_step s (pairing_step s (RotateToken deviceId role osc tok now))"
    "0 < now \<Longrightarrow> good_step s (pairing_step s (RevokeToken deviceId role now))"
proof -
  let ?f = "pg_file s"
  have ok: "paired_ok (pg_grants s) (pg_issued s) (pf_paired ?f)" using inv by (simp add: pairing_inv_def)
  have key: "di_deviceId d = js_trim deviceId" if "jm_get (pf_paired ?f) (js_trim deviceId) = Some d" for d
    using ok that by (simp add: paired_ok_def)
  have old: "dt_role t = r" if "jm_get (pf_paired ?f) (js_trim deviceId) = Some d" "jm_get (toks d) r = Some t" for d r t
    using ok that by (simp add: paired_ok_def device_ok_def)
  show "good_step s (pairing_step s (VerifyToken deviceId tok role scopes now))"
  proof (cases "verifyDeviceToken deviceId tok role scopes now ?f")
    case (Pair res f')
    show ?thesis
    proof (cases "res = TokenOk")
      case True
      with Pair have eq: "verifyDeviceToken deviceId tok role scopes now ?f = (TokenOk, f')" by simp
      then obtain d t where d: "jm_get (pf_paired ?f) (js_trim deviceId) = Some d" "jm_get (toks d) (js_trim role) = Some t"
        and f': "pf_pending f' = pf_pending (loadState now ?f)"
          "pf_paired f' = jm_set (di_deviceId d) (d\<lparr>pd_tokens := Some (jm_set (js_trim role) (t\<lparr>dt_lastUsedAtMs := Some now\<rparr>) (toks d))\<rparr>) (pf_paired ?f)"
        by (rule verifyE)
      have "token_revoked (t\<lparr>dt_lastUsedAtMs := Some now\<rparr>) = token_revoked t" by (simp add: token_revoked_def)
      with set_token_ok [OF ok d(1), of "t\<lparr>dt_lastUsedAtMs := Some now\<rparr>" "js_trim role" "pg_issued s"] d old [OF d]
      show ?thesis using good_paired [OF inv f'(1)] key [OF d(1)] by (simp add: eq f'(2))
    next
      case False
      with verify_unchanged [OF Pair] good_refl [OF inv] Pair show ?thesis by simp
    qed
  qed
  show "good_step s (pairing_step s (EnsureToken deviceId role scopes tok now))" if fresh: "tok \<notin> set (pg_issued s)"
  proof (cases "ensureDeviceToken deviceId role scopes tok now ?f")
    case (Pair res f')
    show ?thesis
    proof (cases "\<exists>t. res = Some (t, True)")
      case True
      then obtain t where eq: "ensureDeviceToken deviceId role scopes tok now ?f = (Some (t, True), f')" using Pair by auto
      then obtain d r where d: "jm_get (pf_paired ?f) (js_trim deviceId) = Some d" "r \<in> set (listApprovedPairedDeviceRoles d)"
        "dt_token t = tok" "dt_role t = r" "f' = save_token d r t (toks d) (loadState now ?f)"
        by (rule ensureE)
      have "good_step s (s\<lparr>pg_file := f', pg_issued := tok # pg_issued s\<rparr>)"
        using set_token_ok [OF ok d(1,4), of "tok # pg_issued s"] fresh d key [OF d(1)]
        by (intro good_issue [OF inv, of _ now]) simp_all
      then show ?thesis by (simp add: eq)
    qed (use Pair good_refl [OF inv] in \<open>auto split: option.splits bool.splits\<close>)
  qed
  show "good_step s (pairing_step s (RotateToken deviceId role osc tok now))" if fresh: "tok \<notin> set (pg_issued s)"
  proof (cases "rotateDeviceToken deviceId role osc tok now ?f")
    case (Pair res f')
    show ?thesis
    proof (cases res)
      case (Inr t)
      then have eq: "rotateDeviceToken deviceId role osc tok now ?f = (Inr t, f')" using Pair by simp
      then obtain d r where d: "jm_get (pf_paired ?f) (js_trim deviceId) = Some d" "r \<in> set (listApprovedPairedDeviceRoles d)"
        "dt_token t = tok" "dt_role t = r" "f' = save_token d r t (toks d) (loadState now ?f)"
        by (rule rotateE)
      have "good_step s (s\<lparr>pg_file := f', pg_issued := tok # pg_issued s\<rparr>)"
        using set_token_ok [OF ok d(1,4), of "tok # pg_issued s"] fresh d key [OF d(1)]
        by (intro good_issue [OF inv, of _ now]) simp_all
      then show ?thesis by (simp add: eq)
    qed (use Pair good_refl [OF inv] in simp)
  qed
  show "good_step s (pairing_step s (RevokeToken deviceId role now))" if now: "0 < now"
  proof (cases "revokeDeviceToken deviceId role now ?f")
    case (Pair res f')
    show ?thesis
    proof (cases res)
      case (Some t)
      then have eq: "revokeDeviceToken deviceId role now ?f = (Some t, f')" using Pair by simp
      then obtain d t0 where d: "jm_get (pf_paired ?f) (js_trim deviceId) = Some d" "jm_get (toks d) (js_trim role) = Some t0"
        "t = t0\<lparr>dt_revokedAtMs := Some now\<rparr>" "f' = save_token d (js_trim role) t (toks d) (loadState now ?f)"
        by (rule revokeE)
      have "token_revoked t" using now by (simp add: d(3) token_revoked_def)
      with set_token_ok [OF ok d(1), of t "js_trim role" "pg_issued s"] d old [OF d(1,2)] key [OF d(1)]
      have "good_step s (s\<lparr>pg_file := f'\<rparr>)" by (intro good_paired [OF inv, of _ now]) simp_all
      then show ?thesis by (simp add: eq)
    qed (use Pair unchanged(4) [of deviceId role now ?f f'] good_refl [OF inv] in auto)
  qed
qed

lemma removeE:
  assumes "removePairedDevice d now f = (Some k, f')"
  shows "k = js_trim d \<and> f' = (loadState now f)\<lparr>pf_paired := jm_delete k (pf_paired f)\<rparr>"
  using assms by (auto simp: removePairedDevice_def Let_def split: if_splits)

lemma clearE:
  assumes "clearDevicePairing d now f = (True, f')"
  shows "f' = (loadState now f)\<lparr>pf_paired := jm_delete (js_trim d) (pf_paired f)\<rparr>"
  using assms by (auto simp: clearDevicePairing_def Let_def split: if_splits)

lemma good_remove:
  assumes "pairing_inv s"
  shows "good_step s (pairing_step s (RemoveDevice d now))" "good_step s (pairing_step s (ClearDevice d now))"
proof -
  show "good_step s (pairing_step s (RemoveDevice d now))"
    using removeE [of d now "pg_file s"] good_refl [OF assms] good_forget [OF assms refl]
    by (cases "removePairedDevice d now (pg_file s)") (auto split: option.splits)
  show "good_step s (pairing_step s (ClearDevice d now))"
    using clearE [of d now "pg_file s"] good_refl [OF assms] good_forget [OF assms refl]
    by (cases "clearDevicePairing d now (pg_file s)") (auto split: bool.splits)
qed

lemma metadataE:
  assumes "jm_get (pf_paired f) k = Some d" "js_trim k = k" "mp_tokens patch = None"
  obtains d' where "pf_paired (updatePairedDeviceMetadata k patch now f) = jm_set k d' (pf_paired f)"
    "di_deviceId d' = di_deviceId d" "pd_tokens d' = pd_tokens d" "pd_approvedScopes d' = pd_approvedScopes d"
    "di_role d' = or_else (mp_role patch) (di_role d)"
    "di_roles d' = mergeRoles [di_roles d, one_role (di_role d), one_role (mp_role patch)]"
    "di_scopes d' = mergeScopes [di_scopes d, mp_scopes patch]"
  by (rule that [of "js_nullish (jm_get (pf_paired (updatePairedDeviceMetadata k patch now f)) k) d"])
    (simp_all add: assms updatePairedDeviceMetadata_def)

lemma good_metadata:
  assumes inv: "pairing_inv s" and en: "pairing_enabled s (ReconnectMetadata k patch now)"
  shows "good_step s (pairing_step s (ReconnectMetadata k patch now))"
proof (cases "jm_get (pf_paired (pg_file s)) k")
  case None
  then show ?thesis using en good_refl [OF inv] by (simp add: updatePairedDeviceMetadata_def Let_def)
next
  case (Some d)
  have k: "js_trim k = k" and allowed: "reconnect_allowed (pg_reading s) k patch"
    using en by simp_all
  have ok: "paired_ok (pg_grants s) (pg_issued s) (pf_paired (pg_file s))" "reading_ok (pg_grants s) (pg_reading s)"
    using inv by (simp_all add: pairing_inv_def)
  have keep: "mp_publicKey patch = None" "mp_tokens patch = None" using allowed by (simp_all add: reconnect_allowed_def)
  show ?thesis
    unfolding pairing_step.simps
  proof (rule good_paired [OF inv, of _ now])
    show "pf_pending (updatePairedDeviceMetadata k patch now (pg_file s)) = pf_pending (loadState now (pg_file s))"
      by (simp add: updatePairedDeviceMetadata_def Let_def k Some)
    show "paired_ok (pg_grants s) (pg_issued s) (pf_paired (updatePairedDeviceMetadata k patch now (pg_file s))) \<and>
        moves (pg_issued s) (pf_paired (pg_file s)) (pf_paired (updatePairedDeviceMetadata k patch now (pg_file s)))"
    proof -
      obtain d' where "pf_paired (updatePairedDeviceMetadata k patch now (pg_file s)) = jm_set k d' (pf_paired (pg_file s))"
        and d': "di_deviceId d' = di_deviceId d" "pd_tokens d' = pd_tokens d" "pd_approvedScopes d' = pd_approvedScopes d"
          "di_role d' = or_else (mp_role patch) (di_role d)"
          "di_roles d' = mergeRoles [di_roles d, one_role (di_role d), one_role (mp_role patch)]"
          "di_scopes d' = mergeScopes [di_scopes d, mp_scopes patch]"
        by (rule metadataE [OF Some k keep(2)])
      then show ?thesis using metadata_ok [OF ok(1) Some ok(2) allowed d'] by simp
    qed
  qed
qed

text \<open>A connection reads the record of its device.\<close>

lemma good_reading:
  assumes inv: "pairing_inv s"
  shows "js_trim k = k \<Longrightarrow> good_step s (pairing_step s (ReconnectRead k now))" "good_step s (pairing_step s (ReconnectClosed c))"
proof -
  have upd: "good_step s (s\<lparr>pg_reading := R\<rparr>)" if "reading_ok (pg_grants s) R" for R
    using that inv good_refl [OF inv] by (simp add: good_step_def pairing_inv_def)
  have R: "reading_ok (pg_grants s) (pg_reading s)" using inv by (simp add: pairing_inv_def)
  show "good_step s (pairing_step s (ReconnectClosed c))"
    unfolding pairing_step.simps
  proof (rule upd)
    show "reading_ok (pg_grants s) (remove1 c (pg_reading s))"
      using R set_remove1_subset [of c "pg_reading s"] unfolding reading_ok_def list_all_iff by blast
  qed
  assume k: "js_trim k = k"
  show "good_step s (pairing_step s (ReconnectRead k now))"
  proof (cases "getPairedDevice k now (pg_file s)")
    case (Some d)
    then have d: "jm_get (pf_paired (pg_file s)) k = Some d" by (simp add: getPairedDevice_def k)
    then have "device_ok (pg_grants s) (pg_issued s) d" "di_deviceId d = k"
      using inv by (auto simp: pairing_inv_def paired_ok_def)
    then have "reading_ok (pg_grants s) ((k, listEffectivePairedDeviceRoles d, paired_scopes d) # pg_reading s)"
      using R effective_roles_approved [of d] approved_roles_trim [of _ d] by (auto simp: reading_ok_def device_ok_def)
    then show ?thesis using upd Some by simp
  qed (use good_refl [OF inv] in simp)
qed

lemma pairing_good_step: "pairing_inv s \<Longrightarrow> pairing_enabled s e \<Longrightarrow> good_step s (pairing_step s e)"
  by (cases e) (auto intro: good_approve good_bootstrap good_token_ops good_remove good_metadata good_reading good_request good_reject
      simp del: pairing_step.simps pairing_enabled.simps simp: pairing_step.simps(1,4) pairing_enabled.simps)

lemma pairing_inv_init: "pairing_inv pairing_init"
  by (simp add: pairing_inv_def pairing_init_def no_pairings_def subjects_ok_def paired_ok_def one_owner_def reading_ok_def)

lemma pairing_inv_step: "pairing_inv s \<Longrightarrow> pairing_enabled s e \<Longrightarrow> pairing_inv (pairing_step s e)"
  using pairing_good_step by (simp add: good_step_def)

interpretation pairing_machine: event_machine pairing_init pairing_enabled pairing_step pairing_inv
  by (rule event_machine.intro) (rule pairing_inv_init, rule pairing_inv_step)

section \<open>Dead tokens\<close>

definition dead :: "string list \<Rightarrow> (string, paired_device) jsmap \<Rightarrow> string \<Rightarrow> bool" where
  "dead I P tok \<longleftrightarrow> tok \<in> set I \<and> (\<forall>k d r t. jm_get P k = Some d \<longrightarrow> jm_get (toks d) r = Some t \<longrightarrow>
     dt_token t = tok \<longrightarrow> token_revoked t)"

abbreviation dead_in :: "pairing \<Rightarrow> string \<Rightarrow> bool" where
  "dead_in s \<equiv> dead (pg_issued s) (pf_paired (pg_file s))"

lemma old_token:
  assumes "moves I P P'" "tok \<in> set I" "jm_get P' k = Some d" "jm_get (toks d) r = Some t" "dt_token t = tok"
  obtains d0 t0 where "jm_get P k = Some d0" "jm_get (toks d0) r = Some t0" "dt_token t0 = tok"
    "token_revoked t0 \<longrightarrow> token_revoked t"
proof -
  have "evolves I (js_nullish (map_option toks (jm_get P k)) []) (toks d)"
    using assms(1,3) by (simp add: moves_def)
  then obtain t0 where "jm_get (js_nullish (map_option toks (jm_get P k)) []) r = Some t0" "dt_token t = dt_token t0"
    "token_revoked t0 \<longrightarrow> token_revoked t"
    using assms(2,4,5) unfolding evolves_def by blast
  then show thesis using that assms(5) by (cases "jm_get P k") simp_all
qed

lemma dead_step:
  assumes "good_step s s'" "dead_in s tok"
  shows "dead_in s' tok"
  unfolding dead_def
proof (intro conjI allI impI)
  show "tok \<in> set (pg_issued s')" using assms by (auto simp: good_step_def dead_def)
next
  fix k d r t
  assume h: "jm_get (pf_paired (pg_file s')) k = Some d" "jm_get (toks d) r = Some t" "dt_token t = tok"
  have "moves (pg_issued s) (pf_paired (pg_file s)) (pf_paired (pg_file s'))" "tok \<in> set (pg_issued s)"
    using assms by (simp_all add: good_step_def dead_def)
  from old_token [OF this h] assms(2) show "token_revoked t" unfolding dead_def by metis
qed

lemma dead_run:
  "pairing_inv s \<Longrightarrow> run_ok pairing_enabled pairing_step s es \<Longrightarrow> dead_in s tok \<Longrightarrow> dead_in (foldl pairing_step s es) tok"
proof (induction es arbitrary: s)
  case (Cons e es)
  then have step: "good_step s (pairing_step s e)" by (simp add: pairing_good_step)
  with Cons.IH [OF _ _ dead_step [OF step Cons.prems(3)]] Cons.prems(2) show ?case by (simp add: good_step_def)
qed simp

text \<open>A token dies when its place is emptied, overwritten, or marked as revoked.\<close>

lemma dies:
  assumes "good_step s s'" "pairing_inv s" "jm_get (pf_paired (pg_file s)) k = Some d" "jm_get (toks d) r = Some t"
    "\<And>d' t'. jm_get (pf_paired (pg_file s')) k = Some d' \<Longrightarrow> jm_get (toks d') r = Some t' \<Longrightarrow>
       dt_token t' = dt_token t \<Longrightarrow> token_revoked t'"
  shows "dead_in s' (dt_token t)"
  unfolding dead_def
proof (intro conjI allI impI)
  have known: "dt_token t \<in> set (pg_issued s)"
    using assms(2-4) by (auto simp: pairing_inv_def paired_ok_def device_ok_def)
  then show "dt_token t \<in> set (pg_issued s')" using assms(1) by (auto simp: good_step_def)
  fix k1 d1 r1 t1
  assume h: "jm_get (pf_paired (pg_file s')) k1 = Some d1" "jm_get (toks d1) r1 = Some t1" "dt_token t1 = dt_token t"
  have "moves (pg_issued s) (pf_paired (pg_file s)) (pf_paired (pg_file s'))" using assms(1) by (simp add: good_step_def)
  from old_token [OF this known h] obtain d0 t0 where
    "jm_get (pf_paired (pg_file s)) k1 = Some d0" "jm_get (toks d0) r1 = Some t0" "dt_token t0 = dt_token t" by metis
  then have "k1 = k \<and> r1 = r"
    using assms(2-4) unfolding pairing_inv_def paired_ok_def one_owner_def by metis
  with assms(5) h show "token_revoked t1" by blast
qed

lemma dead_not_verified:
  assumes "dead (pg_issued s) (pf_paired (pg_file s)) tok"
  shows "fst (verifyDeviceToken deviceId tok role scopes now (pg_file s)) \<noteq> TokenOk"
proof
  assume "fst (verifyDeviceToken deviceId tok role scopes now (pg_file s)) = TokenOk"
  then obtain f' where "verifyDeviceToken deviceId tok role scopes now (pg_file s) = (TokenOk, f')" by (metis prod.collapse)
  then obtain d t where "jm_get (pf_paired (pg_file s)) (js_trim deviceId) = Some d" "jm_get (toks d) (js_trim role) = Some t"
    "\<not> token_revoked t" "dt_token t = tok" by (rule verifyE)
  with assms show False unfolding dead_def by blast
qed

text \<open>The events that end the token of a device for a role.\<close>

fun ends_token :: "pairing \<Rightarrow> pairing_event \<Rightarrow> string \<Rightarrow> string \<Rightarrow> bool" where
  "ends_token s (RevokeToken deviceId role now) d r \<longleftrightarrow> js_trim deviceId = d \<and> js_trim role = r \<and>
     fst (revokeDeviceToken deviceId role now (pg_file s)) \<noteq> None"
| "ends_token s (RotateToken deviceId role scopes tok now) d r \<longleftrightarrow> js_trim deviceId = d \<and> js_trim role = r \<and>
     (case fst (rotateDeviceToken deviceId role scopes tok now (pg_file s)) of Inr _ \<Rightarrow> True | Inl _ \<Rightarrow> False)"
| "ends_token s (RemoveDevice deviceId now) d r \<longleftrightarrow> fst (removePairedDevice deviceId now (pg_file s)) = Some d"
| "ends_token s (ClearDevice deviceId now) d r \<longleftrightarrow> js_trim deviceId = d \<and> fst (clearDevicePairing deviceId now (pg_file s))"
| "ends_token s _ d r \<longleftrightarrow> False"

lemma ends_token_dies:
  assumes inv: "pairing_inv s" and en: "pairing_enabled s e" and d: "jm_get (pf_paired (pg_file s)) k = Some d"
    and t: "jm_get (toks d) r = Some t" and ends: "ends_token s e k r"
  shows "dead_in (pairing_step s e) (dt_token t)"
proof (rule dies [OF pairing_good_step [OF inv en] inv d t])
  fix d' t'
  assume h: "jm_get (pf_paired (pg_file (pairing_step s e))) k = Some d'" "jm_get (toks d') r = Some t'" "dt_token t' = dt_token t"
  have key: "di_deviceId d = k" and known: "dt_token t \<in> set (pg_issued s)"
    using inv d t by (auto simp: pairing_inv_def paired_ok_def device_ok_def)
  show "token_revoked t'"
  proof (cases e)
    case (RevokeToken deviceId role now)
    then have id: "js_trim deviceId = k" "js_trim role = r" and "fst (revokeDeviceToken deviceId role now (pg_file s)) \<noteq> None"
      using ends by simp_all
    then obtain u f' where eq: "revokeDeviceToken deviceId role now (pg_file s) = (Some u, f')" by (metis not_Some_eq prod.collapse)
    then obtain d1 t0 where "jm_get (pf_paired (pg_file s)) (js_trim deviceId) = Some d1"
      "u = t0\<lparr>dt_revokedAtMs := Some now\<rparr>" "f' = save_token d1 (js_trim role) u (toks d1) (loadState now (pg_file s))"
      by (rule revokeE)
    with h(1,2) d id key eq RevokeToken en show ?thesis by (auto simp: token_revoked_def)
  next
    case (RotateToken deviceId role scopes tok now)
    then have id: "js_trim deviceId = k" "js_trim role = r" using ends by simp_all
    obtain u f' where eq: "rotateDeviceToken deviceId role scopes tok now (pg_file s) = (Inr u, f')"
      using ends RotateToken by (cases "rotateDeviceToken deviceId role scopes tok now (pg_file s)") (auto split: sum.splits)
    then obtain d1 r1 where "jm_get (pf_paired (pg_file s)) (js_trim deviceId) = Some d1" "r1 = js_trim role"
      "dt_token u = tok" "f' = save_token d1 r1 u (toks d1) (loadState now (pg_file s))"
      by (rule rotateE)
    with h d id key eq RotateToken en known show ?thesis by auto
  next
    case (RemoveDevice deviceId now)
    then obtain f' where "removePairedDevice deviceId now (pg_file s) = (Some k, f')"
      using ends by (metis ends_token.simps(3) prod.collapse)
    with removeE [OF this] h(1) RemoveDevice show ?thesis by simp
  next
    case (ClearDevice deviceId now)
    then obtain f' where "clearDevicePairing deviceId now (pg_file s) = (True, f')" "js_trim deviceId = k"
      using ends by (metis (full_types) ends_token.simps(4) prod.collapse)
    with clearE [OF this(1)] h(1) ClearDevice show ?thesis by simp
  qed (use ends in simp_all)
qed

section \<open>Pending requests keep what was asked for\<close>

definition asked_scopes :: "'a device_info_scheme \<Rightarrow> string list" where
  "asked_scopes p = js_nullish (di_scopes p) []"

lemma normalize_option: "normalizeDeviceAuthScopes (di_scopes p) = normalizeDeviceAuthScopes (Some (asked_scopes p))"
  by (cases "di_scopes p") (simp_all add: asked_scopes_def normalizeDeviceAuthScopes_def Let_def)

lemma normalize_set_cong:
  "set (trimmed_entries xs) = set (trimmed_entries ys) \<Longrightarrow>
   set (normalizeDeviceAuthScopes (Some xs)) = set (normalizeDeviceAuthScopes (Some ys))"
  by (simp add: set_normalizeDeviceAuthScopes)

lemma normalize_append:
  "set (normalizeDeviceAuthScopes (Some (xs @ ys))) =
   set (normalizeDeviceAuthScopes (Some xs)) \<union> set (normalizeDeviceAuthScopes (Some ys))"
  by (auto simp: set_normalizeDeviceAuthScopes)

lemma sameStringSet_sets: "sameStringSet xs ys \<Longrightarrow> distinct xs \<Longrightarrow> distinct ys \<Longrightarrow> set xs = set ys"
  unfolding sameStringSet_def list_all_iff by (metis card_subset_eq distinct_card List.finite_set subsetI)

lemma distinct_to_sorted [simp]: "distinct (to_sorted le xs) = distinct xs"
  by (metis mset_eq_imp_distinct_iff to_sorted_mset)

lemma distinct_normalize [simp]: "distinct (normalizeDeviceAuthScopes xs)"
  by (simp add: normalizeDeviceAuthScopes_def Let_def split: option.splits)

lemma same_snapshot:
  assumes "samePendingApprovalSnapshot e i"
  shows "set (resolveRequestedRoles e) = set (resolveRequestedRoles i)"
    "set (normalizeDeviceAuthScopes (Some (asked_scopes e))) = set (normalizeDeviceAuthScopes (Some (asked_scopes i)))"
  using assms sameStringSet_sets distinct_normalize distinct_requested_roles
  unfolding samePendingApprovalSnapshot_def normalize_option by metis+

lemma refresh_simps [simp]:
  "resolveRequestedRoles (refreshPendingDevicePairingRequest rep now e i) = resolveRequestedRoles e"
  "asked_scopes (refreshPendingDevicePairingRequest rep now e i) = asked_scopes e"
  "pi_silent (refreshPendingDevicePairingRequest rep now e i) \<longleftrightarrow> pi_silent e \<and> pi_silent i"
  by (simp_all add: refreshPendingDevicePairingRequest_def resolveRequestedRoles_def asked_scopes_def)

lemma replacement_roles:
  "set (resolveRequestedRoles (build_replacement uuid rep now es i)) =
   (\<Union>p\<in>set es. set (resolveRequestedRoles p)) \<union> set (resolveRequestedRoles i)"
proof -
  have one: "set (trimmed_entries (js_nullish (one_role (normalizeRole r)) [])) = set (trimmed_entries (js_nullish (one_role r) []))" for r
    by (cases r) (auto simp: normalizeRole_def trimmed_entries_single)
  have norm: "normalizeRole (or_else (normalizeRole a) b) = or_else (normalizeRole a) (normalizeRole b)" for a b
    by (auto simp: normalizeRole_def or_else_def split: option.splits)
  have latest: "set (trimmed_entries (js_nullish (one_role (case es of [] \<Rightarrow> None | p # _ \<Rightarrow> di_role p)) [])) \<subseteq>
      (\<Union>p\<in>set es. set (resolveRequestedRoles p))"
    by (cases es) (auto simp: requested_roles_set [symmetric])
  have choice: "set (trimmed_entries (js_nullish (one_role (or_else (normalizeRole a) (normalizeRole b))) [])) \<subseteq>
      set (trimmed_entries (js_nullish (one_role a) [])) \<union> set (trimmed_entries (js_nullish (one_role b) []))" for a b
    using one [of a] one [of b] by (cases "normalizeRole a") (auto simp: or_else_def)
  have all: "(\<Union>i\<in>set (concat (map (\<lambda>p. [di_roles p, one_role (di_role p)]) es)). set (trimmed_entries (js_nullish i []))) =
      (\<Union>p\<in>set es. set (resolveRequestedRoles p))" for es :: "pending_request list"
    by (induction es) (auto simp: requested_roles_set [symmetric])
  have nm: "normalizeRole (normalizeRole a) = normalizeRole a" for a by (auto simp: normalizeRole_def split: option.splits)
  show ?thesis
    using latest choice [of "di_role i" "case es of [] \<Rightarrow> None | p # _ \<Rightarrow> di_role p"] requested_roles_set [of i] all [of es]
    unfolding resolveRequestedRoles_def [of "build_replacement uuid rep now es i"] set_mergeRoles
    by (auto simp: build_replacement_def buildPendingDevicePairingRequest_def Let_def norm nm set_mergeRoles)
qed

lemma replacement_scopes:
  "set (normalizeDeviceAuthScopes (Some (asked_scopes (build_replacement uuid rep now es i)))) =
   set (normalizeDeviceAuthScopes (Some (concat (map asked_scopes es) @ asked_scopes i)))"
proof (rule normalize_set_cong)
  have "set (trimmed_entries (concat (map asked_scopes es))) = (\<Union>p\<in>set es. set (trimmed_entries (js_nullish (di_scopes p) [])))"
    for es :: "pending_request list"
    by (induction es) (auto simp: asked_scopes_def)
  moreover have "asked_scopes (build_replacement uuid rep now es i) =
      js_nullish (mergeScopes [mergeScopes (map di_scopes es @ [di_scopes i])]) []"
    by (simp add: asked_scopes_def build_replacement_def buildPendingDevicePairingRequest_def Let_def)
  moreover have "asked_scopes i = js_nullish (di_scopes i) []" by (simp add: asked_scopes_def)
  ultimately show "set (trimmed_entries (asked_scopes (build_replacement uuid rep now es i))) =
      set (trimmed_entries (concat (map asked_scopes es) @ asked_scopes i))"
    by (auto simp: set_mergeScopes)
qed

lemma replacement_silent: "pi_silent (build_replacement uuid rep now es i) \<longleftrightarrow> pi_silent i \<and> list_all pi_silent es"
  by (simp add: build_replacement_def buildPendingDevicePairingRequest_def Let_def resolveSupersededPendingSilent_def)

lemma reconcile_asks:
  assumes rec: "device_requests.reconcile rep now uuid i m = (r, created, m')" and es: "es = pending_of di_deviceId pr_ts (js_trim (di_deviceId i)) m"
  shows "set (resolveRequestedRoles r) = (\<Union>p\<in>set es. set (resolveRequestedRoles p)) \<union> set (resolveRequestedRoles i)"
    "set (normalizeDeviceAuthScopes (Some (asked_scopes r))) =
     set (normalizeDeviceAuthScopes (Some (concat (map asked_scopes es) @ asked_scopes i)))"
    "pi_silent r \<longleftrightarrow> pi_silent i \<and> list_all pi_silent es"
proof -
  consider (refresh) e where "es = [e]" "samePendingApprovalSnapshot e i" "r = refreshPendingDevicePairingRequest rep now e i"
    | (replace) "r = build_replacement uuid rep now es i"
  proof (cases "length es = 1 \<and> samePendingApprovalSnapshot (hd es) i")
    case True
    then obtain e where "es = [e]" by (cases es) auto
    with True rec that(1) show thesis
      by (auto simp: device_requests.reconcile_def reconcilePendingPairingRequests_def es [symmetric] Let_def)
  next
    case False
    with rec that(2) show thesis
      by (auto simp: device_requests.reconcile_def reconcilePendingPairingRequests_def es [symmetric] Let_def)
  qed
  then show "set (resolveRequestedRoles r) = (\<Union>p\<in>set es. set (resolveRequestedRoles p)) \<union> set (resolveRequestedRoles i)"
    "set (normalizeDeviceAuthScopes (Some (asked_scopes r))) =
     set (normalizeDeviceAuthScopes (Some (concat (map asked_scopes es) @ asked_scopes i)))"
    "pi_silent r \<longleftrightarrow> pi_silent i \<and> list_all pi_silent es"
    using replacement_roles replacement_scopes replacement_silent same_snapshot
    by (cases; auto simp: normalize_append)+
qed

section \<open>Properties\<close>

lemma satisfied_trimmed:
  assumes "operatorScopeSatisfied (scope_text sc) xs"
  shows "operatorScopeSatisfied (scope_text sc) (trimmed_entries xs)"
proof -
  have keep: "scope_text a \<in> set xs \<Longrightarrow> scope_text a \<in> set (trimmed_entries xs)" for a
    by (auto simp: set_trimmed_entries intro!: bexI [of _ "scope_text a"])
  show ?thesis
    using assms by (cases rule: satisfied_cases) (auto intro: satisfied_admin satisfied_member satisfied_read keep)
qed

text \<open>A phone asks for the operator role, is approved by an operator with the write scope and gets a token.\<close>

definition phone :: pairing_input where
  "phone = \<lparr>di_deviceId = ''d1'', di_publicKey = ''k1'', di_displayName = Some ''Phone'', di_platform = None,
     di_deviceFamily = None, di_clientId = None, di_clientMode = None, di_role = Some ''operator'', di_roles = None,
     di_scopes = Some [''operator.write''], di_remoteIp = None, pi_silent = False\<rparr>"

definition phone_events :: "pairing_event list" where
  "phone_events = [RequestPairing phone ''r1'' 1000,
     ApprovePairing ''r1'' (Some [''operator.write'', ''operator.pairing'']) (\<lambda>r. ''t-'' @ r) 2000]"

definition phone_paired :: pairing where
  "phone_paired = foldl pairing_step pairing_init phone_events"

text \<open>An operator connection with the given scopes.\<close>

definition operator_with :: "string list \<Rightarrow> connect_params option" where
  "operator_with scopes = Some \<lparr>cp_role = Some ''operator'', cp_scopes = Some scopes\<rparr>"

text \<open>The operator phone is connecting: its record has been read. It is removed, asks again as a node and is approved as
  a node; then the connection goes on and merges the operator role into the new record, and a token for an operator
  is issued, which verifies.\<close>

definition stale_events :: "pairing_event list" where
  "stale_events = phone_events @ [ReconnectRead ''d1'' 3000, RemoveDevice ''d1'' 4000,
     RequestPairing (phone\<lparr>di_role := Some ''node'', di_scopes := Some []\<rparr>) ''r2'' 5000,
     ApprovePairing ''r2'' (Some [''operator.pairing'']) (\<lambda>r. ''u-'' @ r) 6000,
     ReconnectMetadata ''d1'' \<lparr>mp_publicKey = None, mp_displayName = None, mp_platform = None, mp_deviceFamily = None,
       mp_clientId = None, mp_clientMode = None, mp_role = Some ''operator'', mp_scopes = Some [], mp_remoteIp = None,
       mp_tokens = None\<rparr> 7000,
     EnsureToken ''d1'' ''operator'' [] ''t9'' 8000]"

lemma stale_reconnect_restores_role:
  "run_ok pairing_enabled pairing_step pairing_init stale_events \<and>
   approval_roles ''r2'' 6000 (pg_file (foldl pairing_step pairing_init (take 5 stale_events))) = [''node''] \<and>
   fst (verifyDeviceToken ''d1'' ''t9'' ''operator'' [] 9000 (pg_file (foldl pairing_step pairing_init stale_events))) = TokenOk"
  by code_simp



text \<open>C12: dead tokens stay dead. When the token that a device holds for a role is revoked, replaced by a rotation, or
  its device is removed, that token never verifies again, for no device, role or scopes, whatever happens
  afterwards (new approvals, re-pairing, rotation and reconnects included).\<close>

theorem dead_tokens_stay_dead:
  assumes "pairing_reachable s" "run_ok pairing_enabled pairing_step s (e # es)"
    and "getPairedDevice d now0 (pg_file s) = Some device" "jm_get (js_nullish (pd_tokens device) []) r = Some t"
    and "ends_token s e (js_trim d) r"
  shows "fst (verifyDeviceToken deviceId (dt_token t) role scopes now (pg_file (foldl pairing_step s (e # es)))) \<noteq> TokenOk"
proof -
  have inv: "pairing_inv s" by (rule pairing_machine.inv_reach [OF assms(1)])
  have en: "pairing_enabled s e" "run_ok pairing_enabled pairing_step (pairing_step s e) es" using assms(2) by simp_all
  have "jm_get (pf_paired (pg_file s)) (js_trim d) = Some device" using assms(3) by (simp add: getPairedDevice_def)
  from ends_token_dies [OF inv en(1) this assms(4,5)] have "dead_in (pairing_step s e) (dt_token t)" .
  from dead_run [OF pairing_inv_step [OF inv en(1)] en(2) this] show ?thesis
    unfolding foldl.simps by (rule dead_not_verified)
qed

theorem dead_tokens_stay_dead_witness:
  "fst (verifyDeviceToken ''d1'' ''t-operator'' ''operator'' [] 3000 (pg_file phone_paired)) = TokenOk \<and>
   fst (verifyDeviceToken ''d1'' ''t-operator'' ''operator'' [] 6000 (pg_file (foldl pairing_step phone_paired
     [RevokeToken ''d1'' ''operator'' 4000, EnsureToken ''d1'' ''operator'' [] ''t2'' 5000]))) \<noteq> TokenOk"
proof -
  let ?es = "[RevokeToken ''d1'' ''operator'' 4000, EnsureToken ''d1'' ''operator'' [] ''t2'' 5000]"
  have r: "pairing_reachable phone_paired"
    unfolding phone_paired_def by (rule reach_from_init) code_simp
  have run: "run_ok pairing_enabled pairing_step phone_paired ?es" by code_simp
  have ok: "fst (verifyDeviceToken ''d1'' ''t-operator'' ''operator'' [] 3000 (pg_file phone_paired)) = TokenOk" by code_simp
  obtain dev t where dev: "getPairedDevice ''d1'' 0 (pg_file phone_paired) = Some dev"
    "jm_get (js_nullish (pd_tokens dev) []) ''operator'' = Some t" "dt_token t = ''t-operator''"
  proof -
    have "case getPairedDevice ''d1'' 0 (pg_file phone_paired) of None \<Rightarrow> False | Some dev \<Rightarrow>
        (case jm_get (js_nullish (pd_tokens dev) []) ''operator'' of None \<Rightarrow> False | Some t \<Rightarrow> dt_token t = ''t-operator'')"
      by code_simp
    then show thesis using that by (auto split: option.splits)
  qed
  have ends: "ends_token phone_paired (RevokeToken ''d1'' ''operator'' 4000) (js_trim ''d1'') ''operator''" by code_simp
  from dead_tokens_stay_dead [OF r run dev(1,2) ends] ok show ?thesis by (simp only: dev(3) simp_thms)
qed

text \<open>a device has at most one pending request, and repeating a request loses nothing. After a request the
  device has one pending request; it asks for exactly the roles and scopes of the unexpired requests before it together
  with the new ones (scopes that others imply included), and it is silent only if all of them were, so that a request
  somebody has to see is not approved silently by a later one.\<close>

theorem pairing_request_accumulates:
  assumes "pairing_reachable s" "pairing_enabled s (RequestPairing req uuid now)"
    and "requestDevicePairing req uuid now (pg_file s) = (Inr (r, created), f')"
    and "before = pending_of di_deviceId pr_ts (js_trim (di_deviceId req)) (pf_pending (loadState now (pg_file s)))"
  shows "pending_of di_deviceId pr_ts (js_trim (di_deviceId req)) (pf_pending f') = [r] \<and>
    set (resolveRequestedRoles r) = (\<Union>p\<in>set before. set (resolveRequestedRoles p)) \<union> set (resolveRequestedRoles req) \<and>
    set (normalizeDeviceAuthScopes (Some (asked_scopes r))) =
      set (normalizeDeviceAuthScopes (Some (concat (map asked_scopes before) @ asked_scopes req))) \<and>
    pi_silent r = (pi_silent req \<and> list_all pi_silent before)"
proof -
  have inv: "pairing_inv s" by (rule pairing_machine.inv_reach [OF assms(1)])
  obtain rep where rec: "device_requests.reconcile rep now uuid req (pf_pending (loadState now (pg_file s))) = (r, created, pf_pending f')"
    using requestE [OF assms(3)] by metis
  have wf: "requests_wf (loadState now (pg_file s))" using load_wf [OF inv] by simp
  have "jm_get (pf_pending (loadState now (pg_file s))) uuid = None"
    using assms(2) load_pending_None by simp
  with device_requests.reconcile_wf [OF wf, of uuid rep now _ req] rec
  have new: "requests_wf f'" "jm_get (pf_pending f') (pr_requestId r) = Some r" "di_deviceId r = js_trim (di_deviceId req)"
    by auto
  then have "r \<in> set (pending_of di_deviceId pr_ts (js_trim (di_deviceId req)) (pf_pending f'))"
    by (auto dest: map_of_SomeD)
  with pending_of_length [OF new(1), of pr_ts "js_trim (di_deviceId req)"]
  have "pending_of di_deviceId pr_ts (js_trim (di_deviceId req)) (pf_pending f') = [r]"
    by (cases "pending_of di_deviceId pr_ts (js_trim (di_deviceId req)) (pf_pending f')") auto
  with reconcile_asks [OF rec assms(4)] show ?thesis by simp
qed

text \<open>The phone asks once, then again, silently, for another role.\<close>

definition asked_once :: pairing where
  "asked_once = foldl pairing_step pairing_init [RequestPairing phone ''r1'' 1000]"

definition second_request :: pairing_input where
  "second_request = phone\<lparr>di_role := Some ''node'', di_scopes := Some [''operator.read''], pi_silent := True\<rparr>"

theorem pairing_request_accumulates_witness:
  "case requestDevicePairing second_request ''r2'' 2000 (pg_file asked_once) of
     (Inr (r, created), f') \<Rightarrow> created \<and> pr_requestId r = ''r2'' \<and> \<not> pi_silent r \<and>
       set (resolveRequestedRoles r) = {''operator'', ''node''}
   | _ \<Rightarrow> False"
proof -
  let ?b = "pending_of di_deviceId pr_ts (js_trim (di_deviceId second_request)) (pf_pending (loadState 2000 (pg_file asked_once)))"
  have r: "pairing_reachable asked_once" unfolding asked_once_def by (rule reach_from_init) code_simp
  have en: "pairing_enabled asked_once (RequestPairing second_request ''r2'' 2000)" by code_simp
  have new: "case fst (requestDevicePairing second_request ''r2'' 2000 (pg_file asked_once)) of Inl _ \<Rightarrow> False
      | Inr (p, created) \<Rightarrow> created \<and> pr_requestId p = ''r2''" by code_simp
  obtain p created f' where eq: "requestDevicePairing second_request ''r2'' 2000 (pg_file asked_once) = (Inr (p, created), f')"
    using new by (cases "requestDevicePairing second_request ''r2'' 2000 (pg_file asked_once)") (auto split: sum.splits)
  have before: "map resolveRequestedRoles ?b = [[''operator'']]" "resolveRequestedRoles second_request = [''node'']"
    "\<not> list_all pi_silent ?b" by code_simp+
  have "(\<Union>p\<in>set ?b. set (resolveRequestedRoles p)) = \<Union> (set ` set (map resolveRequestedRoles ?b))" by auto
  then have roles: "(\<Union>p\<in>set ?b. set (resolveRequestedRoles p)) = {''operator''}" unfolding before(1) by simp
  have "set (resolveRequestedRoles p) = {''operator''} \<union> set (resolveRequestedRoles second_request)" "\<not> pi_silent p"
    using pairing_request_accumulates [OF r en eq refl] before(3) unfolding roles by blast+
  then show ?thesis
    using new unfolding eq by (simp add: before(2) insert_commute)
qed

end
