(* ===== verification/NodeAccess.thy ===== *)
theory NodeAccess
  imports PairingFiles
begin

text \<open>
  What a node may be told to do. A node is paired by an operator whose scopes must cover the commands the node declared
  (\<open>src/infra/node-pairing.ts\<close>); on connect its commands are filtered by the policy of its platform and by what
  was approved (\<open>src/gateway/node-connect-reconcile.ts\<close>), and every invocation is checked again
  (\<open>src/gateway/node-command-policy.ts\<close>). As for devices the files are the state, an operation is one step, fresh
  request ids and tokens are arguments. The Unicode part of \<open>normalizeDeviceMetadataForPolicy\<close> (NFKD
  decomposition without marks) is the parameter \<open>fold_marks\<close>.
\<close>

section \<open>Command policy\<close>

definition CANVAS_COMMANDS :: "string list" where
  "CANVAS_COMMANDS = [''canvas.present'', ''canvas.hide'', ''canvas.navigate'', ''canvas.eval'', ''canvas.snapshot'',
     ''canvas.a2ui.push'', ''canvas.a2ui.pushJSONL'', ''canvas.a2ui.reset'']"
definition CAMERA_COMMANDS :: "string list" where "CAMERA_COMMANDS = [''camera.list'']"
definition CAMERA_DANGEROUS_COMMANDS :: "string list" where "CAMERA_DANGEROUS_COMMANDS = [''camera.snap'', ''camera.clip'']"
definition SCREEN_DANGEROUS_COMMANDS :: "string list" where "SCREEN_DANGEROUS_COMMANDS = [''screen.record'']"
definition LOCATION_COMMANDS :: "string list" where "LOCATION_COMMANDS = [''location.get'']"
definition NOTIFICATION_COMMANDS :: "string list" where "NOTIFICATION_COMMANDS = [''notifications.list'']"
definition ANDROID_NOTIFICATION_COMMANDS :: "string list" where
  "ANDROID_NOTIFICATION_COMMANDS = NOTIFICATION_COMMANDS @ [''notifications.actions'']"
definition DEVICE_COMMANDS :: "string list" where "DEVICE_COMMANDS = [''device.info'', ''device.status'']"
definition ANDROID_DEVICE_COMMANDS :: "string list" where
  "ANDROID_DEVICE_COMMANDS = DEVICE_COMMANDS @ [''device.permissions'', ''device.health'']"
definition CONTACTS_COMMANDS :: "string list" where "CONTACTS_COMMANDS = [''contacts.search'']"
definition CONTACTS_DANGEROUS_COMMANDS :: "string list" where "CONTACTS_DANGEROUS_COMMANDS = [''contacts.add'']"
definition CALENDAR_COMMANDS :: "string list" where "CALENDAR_COMMANDS = [''calendar.events'']"
definition CALENDAR_DANGEROUS_COMMANDS :: "string list" where "CALENDAR_DANGEROUS_COMMANDS = [''calendar.add'']"
definition CALL_LOG_COMMANDS :: "string list" where "CALL_LOG_COMMANDS = [''callLog.search'']"
definition REMINDERS_COMMANDS :: "string list" where "REMINDERS_COMMANDS = [''reminders.list'']"
definition REMINDERS_DANGEROUS_COMMANDS :: "string list" where "REMINDERS_DANGEROUS_COMMANDS = [''reminders.add'']"
definition PHOTOS_COMMANDS :: "string list" where "PHOTOS_COMMANDS = [''photos.latest'']"
definition MOTION_COMMANDS :: "string list" where "MOTION_COMMANDS = [''motion.activity'', ''motion.pedometer'']"
definition SMS_DANGEROUS_COMMANDS :: "string list" where "SMS_DANGEROUS_COMMANDS = [''sms.send'', ''sms.search'']"
definition NODE_SYSTEM_NOTIFY_COMMAND :: string where "NODE_SYSTEM_NOTIFY_COMMAND = ''system.notify''"
definition NODE_BROWSER_PROXY_COMMAND :: string where "NODE_BROWSER_PROXY_COMMAND = ''browser.proxy''"
definition IOS_SYSTEM_COMMANDS :: "string list" where "IOS_SYSTEM_COMMANDS = [NODE_SYSTEM_NOTIFY_COMMAND]"
definition SYSTEM_COMMANDS :: "string list" where
  "SYSTEM_COMMANDS = NODE_SYSTEM_RUN_COMMANDS @ [NODE_SYSTEM_NOTIFY_COMMAND, NODE_BROWSER_PROXY_COMMAND]"
definition UNKNOWN_PLATFORM_COMMANDS :: "string list" where
  "UNKNOWN_PLATFORM_COMMANDS = CANVAS_COMMANDS @ CAMERA_COMMANDS @ LOCATION_COMMANDS @ [NODE_SYSTEM_NOTIFY_COMMAND]"
definition DEFAULT_DANGEROUS_NODE_COMMANDS :: "string list" where
  "DEFAULT_DANGEROUS_NODE_COMMANDS = CAMERA_DANGEROUS_COMMANDS @ SCREEN_DANGEROUS_COMMANDS @
     CONTACTS_DANGEROUS_COMMANDS @ CALENDAR_DANGEROUS_COMMANDS @ REMINDERS_DANGEROUS_COMMANDS @ SMS_DANGEROUS_COMMANDS"

datatype platform_id = Ios | Android | Macos | Windows | Linux | UnknownPlatform

fun PLATFORM_DEFAULTS :: "platform_id \<Rightarrow> string list" where
  "PLATFORM_DEFAULTS Ios = CANVAS_COMMANDS @ CAMERA_COMMANDS @ LOCATION_COMMANDS @ DEVICE_COMMANDS @ CONTACTS_COMMANDS @
     CALENDAR_COMMANDS @ REMINDERS_COMMANDS @ PHOTOS_COMMANDS @ MOTION_COMMANDS @ IOS_SYSTEM_COMMANDS"
| "PLATFORM_DEFAULTS Android = CANVAS_COMMANDS @ CAMERA_COMMANDS @ LOCATION_COMMANDS @ ANDROID_NOTIFICATION_COMMANDS @
     [NODE_SYSTEM_NOTIFY_COMMAND] @ ANDROID_DEVICE_COMMANDS @ CONTACTS_COMMANDS @ CALENDAR_COMMANDS @ CALL_LOG_COMMANDS @
     REMINDERS_COMMANDS @ PHOTOS_COMMANDS @ MOTION_COMMANDS"
| "PLATFORM_DEFAULTS Macos = CANVAS_COMMANDS @ CAMERA_COMMANDS @ LOCATION_COMMANDS @ DEVICE_COMMANDS @ CONTACTS_COMMANDS @
     CALENDAR_COMMANDS @ REMINDERS_COMMANDS @ PHOTOS_COMMANDS @ MOTION_COMMANDS @ SYSTEM_COMMANDS"
| "PLATFORM_DEFAULTS Linux = SYSTEM_COMMANDS"
| "PLATFORM_DEFAULTS Windows = SYSTEM_COMMANDS"
| "PLATFORM_DEFAULTS UnknownPlatform = UNKNOWN_PLATFORM_COMMANDS"

declare PLATFORM_DEFAULTS.simps [simp del]

definition PLATFORM_PREFIX_RULES :: "(platform_id \<times> string list) list" where
  "PLATFORM_PREFIX_RULES = [(Ios, [''ios'']), (Android, [''android'']), (Macos, [''mac'', ''darwin'']),
     (Windows, [''win'']), (Linux, [''linux''])]"

definition DEVICE_FAMILY_TOKEN_RULES :: "(platform_id \<times> string list) list" where
  "DEVICE_FAMILY_TOKEN_RULES = [(Ios, [''iphone'', ''ipad'', ''ios'']), (Android, [''android'']), (Macos, [''mac'']),
     (Windows, [''windows'']), (Linux, [''linux''])]"

text \<open>\<open>s.includes(t)\<close>\<close>

fun js_includes :: "string \<Rightarrow> string \<Rightarrow> bool" where
  "js_includes [] t \<longleftrightarrow> js_starts_with [] t"
| "js_includes (c # s) t \<longleftrightarrow> js_starts_with (c # s) t \<or> js_includes s t"

definition resolvePlatformIdByPrefix :: "string \<Rightarrow> platform_id option" where
  "resolvePlatformIdByPrefix v = map_option fst (find (\<lambda>(_, prefixes). list_ex (js_starts_with v) prefixes) PLATFORM_PREFIX_RULES)"

definition resolvePlatformIdByDeviceFamily :: "string \<Rightarrow> platform_id option" where
  "resolvePlatformIdByDeviceFamily v = map_option fst (find (\<lambda>(_, tokens). list_ex (js_includes v) tokens) DEVICE_FAMILY_TOKEN_RULES)"

definition normalizeDeviceMetadataForPolicy :: "(string \<Rightarrow> string) \<Rightarrow> string option \<Rightarrow> string" where
  "normalizeDeviceMetadataForPolicy fold_marks v =
     (let trimmed = js_trim (js_nullish v []) in
      if trimmed = [] then [] else normalizeLowercaseStringOrEmpty (Some (fold_marks trimmed)))"

definition normalizePlatformId :: "(string \<Rightarrow> string) \<Rightarrow> string option \<Rightarrow> string option \<Rightarrow> platform_id" where
  "normalizePlatformId fold_marks platform deviceFamily =
     (case resolvePlatformIdByPrefix (normalizeDeviceMetadataForPolicy fold_marks platform) of
        Some p \<Rightarrow> p
      | None \<Rightarrow> js_nullish (resolvePlatformIdByDeviceFamily (normalizeDeviceMetadataForPolicy fold_marks deviceFamily)) UnknownPlatform)"

text \<open>\<open>gateway.nodes\<close> of the configuration.\<close>

record node_policy_cfg =
  nc_allowCommands :: "string list option"
  nc_denyCommands :: "string list option"

definition resolveNodeCommandAllowlist ::
    "(string \<Rightarrow> string) \<Rightarrow> node_policy_cfg \<Rightarrow> string option \<Rightarrow> string option \<Rightarrow> string list" where
  "resolveNodeCommandAllowlist fold_marks cfg platform deviceFamily =
     (let base = PLATFORM_DEFAULTS (normalizePlatformId fold_marks platform deviceFamily);
          extra = js_nullish (nc_allowCommands cfg) [];
          deny = js_set (js_nullish (nc_denyCommands cfg) []);
          allow = js_set (trimmed_entries (base @ extra))
      in fold (\<lambda>blocked allow. let trimmed = js_trim blocked in
           if trimmed = [] then allow else filter (\<lambda>c. c \<noteq> trimmed) allow) deny allow)"

definition normalizeDeclaredCommands :: "string list \<Rightarrow> string list" where
  "normalizeDeclaredCommands commands = js_set (trimmed_entries commands)"

definition normalizeDeclaredNodeCommands :: "string list \<Rightarrow> string list \<Rightarrow> string list" where
  "normalizeDeclaredNodeCommands declaredCommands allowlist =
     filter (\<lambda>c. c \<in> set allowlist) (normalizeDeclaredCommands declaredCommands)"

datatype command_denied = CommandRequired | NotAllowlisted | NotDeclared | NothingDeclared

text \<open>\<open>None\<close>: allowed.\<close>

definition isNodeCommandAllowed :: "string \<Rightarrow> string list option \<Rightarrow> string list \<Rightarrow> command_denied option" where
  "isNodeCommandAllowed rawCommand declaredCommands allowlist =
     (let command = js_trim rawCommand in
      if command = [] then Some CommandRequired
      else if command \<notin> set allowlist then Some NotAllowlisted
      else if length (js_nullish declaredCommands []) > 0 then
        if command \<notin> set (js_nullish declaredCommands []) then Some NotDeclared else None
      else Some NothingDeclared)"

section \<open>Node pairing\<close>

record node_surface =
  ns_nodeId :: string
  ns_displayName :: "string option"
  ns_platform :: "string option"
  ns_version :: "string option"
  ns_coreVersion :: "string option"
  ns_uiVersion :: "string option"
  ns_deviceFamily :: "string option"
  ns_modelIdentifier :: "string option"
  ns_caps :: "string list option"
  ns_commands :: "string list option"
  ns_permissions :: "(string \<times> bool) list option"
  ns_remoteIp :: "string option"

record node_input = node_surface +
  ni_silent :: bool

record node_request = node_input +
  nr_requestId :: string
  nr_ts :: int

record paired_node = node_surface +
  pn_token :: string
  pn_bins :: "string list option"
  pn_createdAtMs :: int
  pn_approvedAtMs :: int
  pn_lastConnectedAtMs :: "int option"

record node_file =
  nf_pending :: "(string, node_request) jsmap"
  nf_paired :: "(string, paired_node) jsmap"

definition NODE_PENDING_TTL_MS :: int where "NODE_PENDING_TTL_MS = 5 * 60 * 1000"

definition loadNodes :: "int \<Rightarrow> node_file \<Rightarrow> node_file" where
  "loadNodes now f = f\<lparr>nf_pending := pruneExpiredPending nr_ts now NODE_PENDING_TTL_MS (nf_pending f)\<rparr>"

definition normalizeArrayBackedTrimmedStringList :: "string list option \<Rightarrow> string list option" where
  "normalizeArrayBackedTrimmedStringList v = map_option trimmed_entries v"

definition buildPendingNodePairingRequest :: "string \<Rightarrow> int \<Rightarrow> node_input \<Rightarrow> node_request" where
  "buildPendingNodePairingRequest uuid now req =
     \<lparr>ns_nodeId = ns_nodeId req, ns_displayName = ns_displayName req, ns_platform = ns_platform req,
      ns_version = ns_version req, ns_coreVersion = ns_coreVersion req, ns_uiVersion = ns_uiVersion req,
      ns_deviceFamily = ns_deviceFamily req, ns_modelIdentifier = ns_modelIdentifier req,
      ns_caps = normalizeArrayBackedTrimmedStringList (ns_caps req),
      ns_commands = normalizeArrayBackedTrimmedStringList (ns_commands req),
      ns_permissions = ns_permissions req, ns_remoteIp = ns_remoteIp req, ni_silent = ni_silent req,
      nr_requestId = uuid, nr_ts = now\<rparr>"

definition refreshPendingNodePairingRequest :: "int \<Rightarrow> node_request \<Rightarrow> node_input \<Rightarrow> node_request" where
  "refreshPendingNodePairingRequest now existing incoming = existing\<lparr>
     ns_displayName := or_else (ns_displayName incoming) (ns_displayName existing),
     ns_platform := or_else (ns_platform incoming) (ns_platform existing),
     ns_version := or_else (ns_version incoming) (ns_version existing),
     ns_coreVersion := or_else (ns_coreVersion incoming) (ns_coreVersion existing),
     ns_uiVersion := or_else (ns_uiVersion incoming) (ns_uiVersion existing),
     ns_deviceFamily := or_else (ns_deviceFamily incoming) (ns_deviceFamily existing),
     ns_modelIdentifier := or_else (ns_modelIdentifier incoming) (ns_modelIdentifier existing),
     ns_caps := or_else (normalizeArrayBackedTrimmedStringList (ns_caps incoming)) (ns_caps existing),
     ns_commands := or_else (normalizeArrayBackedTrimmedStringList (ns_commands incoming)) (ns_commands existing),
     ns_permissions := or_else (ns_permissions incoming) (ns_permissions existing),
     ns_remoteIp := or_else (ns_remoteIp incoming) (ns_remoteIp existing),
     ni_silent := ni_silent existing \<and> ni_silent incoming,
     nr_ts := now\<rparr>"

definition resolveNodeApprovalRequiredScopes :: "node_request \<Rightarrow> operator_scope list" where
  "resolveNodeApprovalRequiredScopes pending = resolveNodePairApprovalScopes (js_nullish (ns_commands pending) [])"

text \<open>The request that replaces pending ones of the node.\<close>

definition node_replacement :: "string \<Rightarrow> int \<Rightarrow> node_request list \<Rightarrow> node_input \<Rightarrow> node_request" where
  "node_replacement uuid now existing incoming =
     buildPendingNodePairingRequest uuid now (incoming\<lparr>ni_silent := ni_silent incoming \<and> list_all ni_silent existing\<rparr>)"

definition requestNodePairing :: "node_input \<Rightarrow> string \<Rightarrow> int \<Rightarrow> node_file \<Rightarrow> (string + node_request \<times> bool) \<times> node_file" where
  "requestNodePairing req uuid now f =
     (let st = loadNodes now f; nodeId = js_trim (ns_nodeId req) in
      if nodeId = [] then (Inl ''nodeId required'', f)
      else
        let (request, created, pending1) = reconcilePendingPairingRequests nr_requestId (\<lambda>_ _. True)
              (refreshPendingNodePairingRequest now) (node_replacement uuid now)
              (pending_of ns_nodeId nr_ts nodeId (nf_pending st)) (req\<lparr>ns_nodeId := nodeId\<rparr>) (nf_pending st)
        in (Inr (request, created), st\<lparr>nf_pending := pending1\<rparr>))"

datatype node_approval = UnknownNodeRequest | NodeForbidden string | NodeApproved string paired_node

definition approveNodePairing :: "string \<Rightarrow> string list option \<Rightarrow> string \<Rightarrow> int \<Rightarrow> node_file \<Rightarrow> node_approval \<times> node_file" where
  "approveNodePairing requestId callerScopes newToken now f =
     (let st = loadNodes now f in
      case jm_get (nf_pending st) requestId of
        None \<Rightarrow> (UnknownNodeRequest, f)
      | Some pending \<Rightarrow>
        (case resolveMissingRequestedScope OPERATOR_ROLE (map scope_text (resolveNodeApprovalRequiredScopes pending))
            (js_nullish callerScopes []) of
           Some missingScope \<Rightarrow> (NodeForbidden missingScope, f)
         | None \<Rightarrow>
           let existing = jm_get (nf_paired st) (ns_nodeId pending);
               node = \<lparr>ns_nodeId = ns_nodeId pending, ns_displayName = ns_displayName pending,
                 ns_platform = ns_platform pending, ns_version = ns_version pending, ns_coreVersion = ns_coreVersion pending,
                 ns_uiVersion = ns_uiVersion pending, ns_deviceFamily = ns_deviceFamily pending,
                 ns_modelIdentifier = ns_modelIdentifier pending, ns_caps = ns_caps pending,
                 ns_commands = ns_commands pending, ns_permissions = ns_permissions pending,
                 ns_remoteIp = ns_remoteIp pending, pn_token = newToken, pn_bins = None,
                 pn_createdAtMs = js_nullish (map_option pn_createdAtMs existing) now, pn_approvedAtMs = now,
                 pn_lastConnectedAtMs = None\<rparr>
           in (NodeApproved requestId node,
               \<lparr>nf_pending = jm_delete requestId (nf_pending st), nf_paired = jm_set (ns_nodeId pending) node (nf_paired st)\<rparr>)))"

definition rejectNodePairing :: "string \<Rightarrow> int \<Rightarrow> node_file \<Rightarrow> (string \<times> string) option \<times> node_file" where
  "rejectNodePairing requestId now f =
     (let st = loadNodes now f in
      case rejectPendingPairingRequest requestId (nf_pending st) of
        None \<Rightarrow> (None, f)
      | Some (pending, pending1) \<Rightarrow> (Some (requestId, ns_nodeId pending), st\<lparr>nf_pending := pending1\<rparr>))"

definition getPairedNode :: "string \<Rightarrow> int \<Rightarrow> node_file \<Rightarrow> paired_node option" where
  "getPairedNode nodeId now f = jm_get (nf_paired (loadNodes now f)) (js_trim nodeId)"

definition verifyNodeToken :: "string \<Rightarrow> string \<Rightarrow> int \<Rightarrow> node_file \<Rightarrow> paired_node option" where
  "verifyNodeToken nodeId token now f = (case getPairedNode nodeId now f of
       None \<Rightarrow> None
     | Some node \<Rightarrow> if verifyPairingToken token (pn_token node) then Some node else None)"

record node_patch =
  np_displayName :: "string option"
  np_platform :: "string option"
  np_version :: "string option"
  np_coreVersion :: "string option"
  np_uiVersion :: "string option"
  np_deviceFamily :: "string option"
  np_modelIdentifier :: "string option"
  np_remoteIp :: "string option"
  np_caps :: "string list option"
  np_commands :: "string list option"
  np_bins :: "string list option"
  np_permissions :: "(string \<times> bool) list option"
  np_lastConnectedAtMs :: "int option"

definition updatePairedNodeMetadata :: "string \<Rightarrow> node_patch \<Rightarrow> int \<Rightarrow> node_file \<Rightarrow> node_file" where
  "updatePairedNodeMetadata nodeId patch now f =
     (let st = loadNodes now f; normalized = js_trim nodeId in
      case jm_get (nf_paired st) normalized of
        None \<Rightarrow> f
      | Some existing \<Rightarrow>
        let node = existing\<lparr>
              ns_displayName := or_else (np_displayName patch) (ns_displayName existing),
              ns_platform := or_else (np_platform patch) (ns_platform existing),
              ns_version := or_else (np_version patch) (ns_version existing),
              ns_coreVersion := or_else (np_coreVersion patch) (ns_coreVersion existing),
              ns_uiVersion := or_else (np_uiVersion patch) (ns_uiVersion existing),
              ns_deviceFamily := or_else (np_deviceFamily patch) (ns_deviceFamily existing),
              ns_modelIdentifier := or_else (np_modelIdentifier patch) (ns_modelIdentifier existing),
              ns_remoteIp := or_else (np_remoteIp patch) (ns_remoteIp existing),
              ns_caps := or_else (np_caps patch) (ns_caps existing),
              ns_commands := or_else (np_commands patch) (ns_commands existing),
              pn_bins := or_else (np_bins patch) (pn_bins existing),
              ns_permissions := or_else (np_permissions patch) (ns_permissions existing),
              pn_lastConnectedAtMs := or_else (np_lastConnectedAtMs patch) (pn_lastConnectedAtMs existing)\<rparr>
        in st\<lparr>nf_paired := jm_set normalized node (nf_paired st)\<rparr>)"

definition renamePairedNode :: "string \<Rightarrow> string \<Rightarrow> int \<Rightarrow> node_file \<Rightarrow> (string + paired_node option) \<times> node_file" where
  "renamePairedNode nodeId displayName now f =
     (let st = loadNodes now f; normalized = js_trim nodeId in
      case jm_get (nf_paired st) normalized of
        None \<Rightarrow> (Inr None, f)
      | Some existing \<Rightarrow>
        let trimmed = js_trim displayName in
        if trimmed = [] then (Inl ''displayName required'', f)
        else let node = existing\<lparr>ns_displayName := Some trimmed\<rparr>
          in (Inr (Some node), st\<lparr>nf_paired := jm_set normalized node (nf_paired st)\<rparr>))"

definition listNodePairing :: "int \<Rightarrow> node_file \<Rightarrow> (node_request \<times> operator_scope list) list \<times> paired_node list" where
  "listNodePairing now f =
     (let st = loadNodes now f in
      (map (\<lambda>p. (p, resolveNodeApprovalRequiredScopes p)) (latest_first nr_ts (map snd (nf_pending st))),
       latest_first pn_approvedAtMs (map snd (nf_paired st))))"

section \<open>Connecting\<close>

text \<open>The connect parameters of a node.\<close>

record node_connect =
  nx_deviceId :: "string option"
  nx_clientId :: string
  nx_displayName :: "string option"
  nx_platform :: "string option"
  nx_version :: "string option"
  nx_deviceFamily :: "string option"
  nx_modelIdentifier :: "string option"
  nx_caps :: "string list option"
  nx_commands :: "string list option"

definition node_id_of :: "node_connect \<Rightarrow> string" where
  "node_id_of c = js_nullish (nx_deviceId c) (nx_clientId c)"

definition buildNodePairingRequestInput :: "string \<Rightarrow> node_connect \<Rightarrow> string list \<Rightarrow> string option \<Rightarrow> node_input" where
  "buildNodePairingRequestInput nodeId c commands remoteIp =
     \<lparr>ns_nodeId = nodeId, ns_displayName = nx_displayName c, ns_platform = nx_platform c, ns_version = nx_version c,
      ns_coreVersion = None, ns_uiVersion = None, ns_deviceFamily = nx_deviceFamily c,
      ns_modelIdentifier = nx_modelIdentifier c, ns_caps = nx_caps c, ns_commands = Some commands,
      ns_permissions = None, ns_remoteIp = remoteIp, ni_silent = False\<rparr>"

definition resolveApprovedReconnectCommands :: "string list option \<Rightarrow> string list \<Rightarrow> string list" where
  "resolveApprovedReconnectCommands pairedCommands allowlist =
     normalizeDeclaredNodeCommands (js_nullish pairedCommands []) allowlist"

text \<open>The commands of the session, and the pairing request that is made.\<close>

definition reconcileNodePairingOnConnect ::
    "(string \<Rightarrow> string) \<Rightarrow> node_policy_cfg \<Rightarrow> node_connect \<Rightarrow> paired_node option \<Rightarrow> string option \<Rightarrow>
     string list \<times> node_input option" where
  "reconcileNodePairingOnConnect fold_marks cfg c pairedNode reportedClientIp =
     (let allowlist = resolveNodeCommandAllowlist fold_marks cfg (nx_platform c) (nx_deviceFamily c);
          declared = normalizeDeclaredNodeCommands (js_nullish (nx_commands c) []) allowlist;
          request = buildNodePairingRequestInput (node_id_of c) c declared reportedClientIp
      in case pairedNode of
        None \<Rightarrow> (declared, Some request)
      | Some node \<Rightarrow>
        let approvedCommands = resolveApprovedReconnectCommands (ns_commands node) allowlist in
        if list_ex (\<lambda>c. c \<notin> set approvedCommands) declared then (approvedCommands, Some request)
        else (declared, None))"

section \<open>Facts on the policy\<close>

lemma platform_defaults_trimmed [simp]: "trimmed_entries (PLATFORM_DEFAULTS p) = PLATFORM_DEFAULTS p"
  by (cases p; simp only:; code_simp)

lemma deny_set:
  "set (fold (\<lambda>blocked allow. if js_trim blocked = [] then allow
     else filter (\<lambda>c. c \<noteq> js_trim blocked) allow) deny allow) = set allow - set (trimmed_entries deny)"
proof (induction deny arbitrary: allow)
  case (Cons x deny)
  have "set (trimmed_entries (x # deny)) = set (trimmed_entries [x]) \<union> set (trimmed_entries deny)"
    by (simp add: trimmed_entries_def)
  with Cons show ?case by (auto simp: trimmed_entries_single)
qed simp

lemma set_allowlist:
  "set (resolveNodeCommandAllowlist fold_marks cfg platform family) =
   (set (PLATFORM_DEFAULTS (normalizePlatformId fold_marks platform family)) \<union>
    set (trimmed_entries (js_nullish (nc_allowCommands cfg) []))) - set (trimmed_entries (js_nullish (nc_denyCommands cfg) []))"
proof -
  have "set (trimmed_entries (js_set deny)) = set (trimmed_entries deny)" for deny
    by (simp add: set_trimmed_entries)
  then show ?thesis by (simp add: resolveNodeCommandAllowlist_def Let_def deny_set)
qed

lemma set_declared:
  "set (normalizeDeclaredNodeCommands declared allowlist) = set (trimmed_entries declared) \<inter> set allowlist"
  by (auto simp: normalizeDeclaredNodeCommands_def normalizeDeclaredCommands_def)

lemma allowed_iff:
  "isNodeCommandAllowed c declared allowlist = None \<longleftrightarrow>
   js_trim c \<noteq> [] \<and> js_trim c \<in> set allowlist \<and> js_trim c \<in> set (js_nullish declared [])"
  by (auto simp: isNodeCommandAllowed_def Let_def)

section \<open>The machine of node pairing\<close>

definition commands_of :: "'a node_surface_scheme \<Rightarrow> string list" where
  "commands_of n = js_nullish (ns_commands n) []"

text \<open>Beside the files: who approved which commands of a node.\<close>

record nodes =
  nd_file :: node_file
  nd_grants :: "(string \<times> string list \<times> string list) list"

definition nodes_init :: nodes where
  "nodes_init = \<lparr>nd_file = \<lparr>nf_pending = [], nf_paired = []\<rparr>, nd_grants = []\<rparr>"

datatype node_event =
    RequestNode node_input string int
  | ApproveNode string "string list option" string int
  | RejectNode string int
  | TouchNode string node_patch int
  | RenameNode string string int

fun nodes_step :: "nodes \<Rightarrow> node_event \<Rightarrow> nodes" where
  "nodes_step s (RequestNode req uuid now) = s\<lparr>nd_file := snd (requestNodePairing req uuid now (nd_file s))\<rparr>"
| "nodes_step s (ApproveNode rid caller tok now) =
     (case approveNodePairing rid caller tok now (nd_file s) of
        (NodeApproved _ node, f) \<Rightarrow> \<lparr>nd_file = f,
          nd_grants = (ns_nodeId node, commands_of node, js_nullish caller []) # nd_grants s\<rparr>
      | _ \<Rightarrow> s)"
| "nodes_step s (RejectNode rid now) = s\<lparr>nd_file := snd (rejectNodePairing rid now (nd_file s))\<rparr>"
| "nodes_step s (TouchNode nodeId patch now) = s\<lparr>nd_file := updatePairedNodeMetadata nodeId patch now (nd_file s)\<rparr>"
| "nodes_step s (RenameNode nodeId name now) = s\<lparr>nd_file := snd (renamePairedNode nodeId name now (nd_file s))\<rparr>"

text \<open>Request ids are fresh; the callers of \<open>updatePairedNodeMetadata\<close> patch the connection time and the binaries.\<close>

fun nodes_enabled :: "nodes \<Rightarrow> node_event \<Rightarrow> bool" where
  "nodes_enabled s (RequestNode req uuid now) \<longleftrightarrow> jm_get (nf_pending (nd_file s)) uuid = None"
| "nodes_enabled s (TouchNode nodeId patch now) \<longleftrightarrow> np_commands patch = None"
| "nodes_enabled s _ \<longleftrightarrow> True"

abbreviation nodes_reachable :: "nodes \<Rightarrow> bool" where
  "nodes_reachable \<equiv> reach nodes_init nodes_enabled nodes_step"

text \<open>An approver has the scopes that some commands need.\<close>

definition covers_commands :: "string list \<Rightarrow> string list \<Rightarrow> bool" where
  "covers_commands approver commands \<longleftrightarrow>
     list_all (\<lambda>sc. operatorScopeSatisfied (scope_text sc) (normalizeScopeList approver)) (resolveNodePairApprovalScopes commands)"

lemma covers_fewer:
  assumes "covers_commands approver commands" "set few \<subseteq> set commands"
  shows "covers_commands approver few"
proof -
  let ?sat = "\<lambda>sc. operatorScopeSatisfied (scope_text sc) (normalizeScopeList approver)"
  have weaker: "?sat ADMIN_SCOPE \<Longrightarrow> ?sat WRITE_SCOPE" by (auto simp: operatorScopeSatisfied_def)
  have "list_ex (\<lambda>c. c \<in> set NODE_SYSTEM_RUN_COMMANDS) commands" if "list_ex (\<lambda>c. c \<in> set NODE_SYSTEM_RUN_COMMANDS) few"
    using that assms(2) by (auto simp: list_ex_iff)
  moreover have "commands \<noteq> []" if "few \<noteq> []" using that assms(2) by auto
  ultimately show ?thesis
    using assms(1) weaker by (auto simp: covers_commands_def resolveNodePairApprovalScopes_def split: if_splits)
qed

definition commands_trimmed :: "(string, node_request) jsmap \<Rightarrow> bool" where
  "commands_trimmed m \<longleftrightarrow> (\<forall>(k, p)\<in>set m. trimmed_entries (commands_of p) = commands_of p)"

definition node_ok :: "(string \<times> string list \<times> string list) list \<Rightarrow> paired_node \<Rightarrow> bool" where
  "node_ok G n \<longleftrightarrow> list_ex (\<lambda>(d, commands, approver). d = ns_nodeId n \<and> commands = commands_of n \<and>
     covers_commands approver commands \<and> trimmed_entries commands = commands) G"

definition nodes_inv :: "nodes \<Rightarrow> bool" where
  "nodes_inv s \<longleftrightarrow> pending_wf nr_requestId ns_nodeId (nf_pending (nd_file s)) \<and> commands_trimmed (nf_pending (nd_file s)) \<and>
     (\<forall>k n. jm_get (nf_paired (nd_file s)) k = Some n \<longrightarrow> ns_nodeId n = k \<and> node_ok (nd_grants s) n)"

interpretation node_requests: pairing_requests nr_requestId ns_nodeId nr_ts ns_nodeId
  "\<lambda>_ _. True" "refreshPendingNodePairingRequest now" "node_replacement uuid now" for now uuid
  by unfold_locales (simp_all add: refreshPendingNodePairingRequest_def node_replacement_def buildPendingNodePairingRequest_def)

lemma load_nodes_simps [simp]: "nf_paired (loadNodes now f) = nf_paired f"
  "nf_pending (loadNodes now f) = pruneExpiredPending nr_ts now NODE_PENDING_TTL_MS (nf_pending f)"
  by (simp_all add: loadNodes_def)

lemma prune_None: "jm_get m k = None \<Longrightarrow> jm_get (pruneExpiredPending ts now ttl m) k = None"
  by (auto simp: map_of_eq_None_iff pruneExpiredPending_def)

lemma trimmed_prune: "commands_trimmed m \<Longrightarrow> commands_trimmed (pruneExpiredPending ts now ttl m)"
  by (auto simp: commands_trimmed_def pruneExpiredPending_def)

lemma trimmed_delete: "commands_trimmed m \<Longrightarrow> commands_trimmed (jm_delete k m)"
  by (auto simp: commands_trimmed_def AList.delete_eq)

lemma trimmed_set:
  "commands_trimmed m \<Longrightarrow> trimmed_entries (commands_of p) = commands_of p \<Longrightarrow> commands_trimmed (jm_set k p m)"
  by (induction m) (auto simp: commands_trimmed_def)

lemma trimmed_twice [simp]: "trimmed_entries (trimmed_entries xs) = trimmed_entries xs"
  by (rule trimmed_entries_idem) (use trimmed_entries_trim in blast)

lemma trimmed_reconcile:
  assumes "commands_trimmed m"
  shows "commands_trimmed (snd (snd (node_requests.reconcile now uuid i m)))"
proof -
  have del: "commands_trimmed (fold (\<lambda>e. jm_delete (nr_requestId e)) es m)" for es
    using assms by (induction es arbitrary: m) (simp_all add: trimmed_delete)
  have new: "trimmed_entries (commands_of (node_replacement uuid now es i)) = commands_of (node_replacement uuid now es i)" for es
    by (cases "ns_commands i") (simp_all add: commands_of_def node_replacement_def buildPendingNodePairingRequest_def
        normalizeArrayBackedTrimmedStringList_def)
  have old: "trimmed_entries (commands_of (refreshPendingNodePairingRequest now e i)) = commands_of (refreshPendingNodePairingRequest now e i)"
    if "trimmed_entries (commands_of e) = commands_of e" for e
    using that by (cases "ns_commands i") (simp_all add: commands_of_def refreshPendingNodePairingRequest_def
        normalizeArrayBackedTrimmedStringList_def)
  have hd: "trimmed_entries (commands_of (hd es)) = commands_of (hd es)" if "es = pending_of ns_nodeId nr_ts x m" "length es = 1" for es x
  proof -
    have "hd es \<in> set es" using that(2) by (cases es) simp_all
    then have "hd es \<in> {r. \<exists>k. (k, r) \<in> set m \<and> ns_nodeId r = x}" unfolding that(1) set_pending_of .
    then show ?thesis using assms by (auto simp: commands_trimmed_def)
  qed
  show ?thesis
    unfolding node_requests.reconcile_def reconcilePendingPairingRequests_def
    using assms hd [OF refl] new old by (auto simp: Let_def intro!: trimmed_set del)
qed

lemma request_node_inv:
  assumes "nodes_inv s" "jm_get (nf_pending (nd_file s)) uuid = None"
  shows "nodes_inv (s\<lparr>nd_file := snd (requestNodePairing req uuid now (nd_file s))\<rparr>)"
proof (cases "js_trim (ns_nodeId req) = []")
  case True
  then show ?thesis using assms by (simp add: requestNodePairing_def Let_def)
next
  case False
  let ?st = "loadNodes now (nd_file s)" and ?req = "req\<lparr>ns_nodeId := js_trim (ns_nodeId req)\<rparr>"
  obtain r c m where rec: "node_requests.reconcile now uuid ?req (nf_pending ?st) = (r, c, m)" by (metis prod.collapse)
  then have eq: "snd (requestNodePairing req uuid now (nd_file s)) = ?st\<lparr>nf_pending := m\<rparr>"
    using False by (simp add: requestNodePairing_def Let_def node_requests.reconcile_def)
  have "pending_wf nr_requestId ns_nodeId (nf_pending ?st)"
    using assms(1) pending_wf_prune by (auto simp: nodes_inv_def)
  moreover have "nr_requestId (node_replacement uuid now es i) = uuid" for es i
    by (simp add: node_replacement_def buildPendingNodePairingRequest_def)
  moreover have "jm_get (nf_pending ?st) uuid = None" using prune_None assms(2) by simp
  ultimately have "pending_wf nr_requestId ns_nodeId m"
    using node_requests.reconcile_wf [of "nf_pending ?st" uuid now _ ?req] rec by simp
  moreover have "commands_trimmed m"
  proof -
    have "commands_trimmed (nf_pending ?st)" using assms(1) trimmed_prune by (simp add: nodes_inv_def)
    from trimmed_reconcile [OF this, of now uuid ?req] show ?thesis unfolding rec by simp
  qed
  ultimately show ?thesis using assms(1) by (simp add: nodes_inv_def eq)
qed

lemma approve_node_inv:
  assumes inv: "nodes_inv s" and eq: "approveNodePairing rid caller tok now (nd_file s) = (NodeApproved rid' node, f)"
  shows "nodes_inv \<lparr>nd_file = f, nd_grants = (ns_nodeId node, commands_of node, js_nullish caller []) # nd_grants s\<rparr>"
proof -
  let ?st = "loadNodes now (nd_file s)"
  obtain p where p: "jm_get (nf_pending ?st) rid = Some p"
    using eq by (auto simp: approveNodePairing_def Let_def split: option.splits)
  have ok: "resolveMissingRequestedScope OPERATOR_ROLE (map scope_text (resolveNodeApprovalRequiredScopes p)) (js_nullish caller []) = None"
    using eq p by (auto simp: approveNodePairing_def Let_def split: option.splits)
  have node: "ns_nodeId node = ns_nodeId p" "ns_commands node = ns_commands p"
    "f = \<lparr>nf_pending = jm_delete rid (nf_pending ?st), nf_paired = jm_set (ns_nodeId p) node (nf_paired (nd_file s))\<rparr>"
    using eq p ok by (auto simp: approveNodePairing_def Let_def)
  have role: "js_trim OPERATOR_ROLE = OPERATOR_ROLE" by code_simp
  have "trimmed_entries (commands_of p) = commands_of p"
    using inv trimmed_prune p by (fastforce simp: nodes_inv_def commands_trimmed_def dest: map_of_SomeD)
  moreover have "covers_commands (js_nullish caller []) (commands_of p)"
    using ok roleScopesAllow_operator [OF role]
    by (auto simp: no_missing_scope covers_commands_def list_all_iff trimmed_entries_single resolveNodeApprovalRequiredScopes_def commands_of_def)
  ultimately have new: "node_ok ((ns_nodeId node, commands_of node, js_nullish caller []) # nd_grants s) node"
    by (simp add: node_ok_def node commands_of_def)
  have old: "node_ok (nd_grants s) n \<Longrightarrow> node_ok (g # nd_grants s) n" for g n by (simp add: node_ok_def)
  have "pending_wf nr_requestId ns_nodeId (jm_delete rid (nf_pending ?st))" "commands_trimmed (jm_delete rid (nf_pending ?st))"
    using inv by (intro pending_wf_delete trimmed_delete; auto simp: nodes_inv_def intro: pending_wf_prune trimmed_prune)+
  then show ?thesis using inv new old by (auto simp: nodes_inv_def node(1,3) split: if_splits)
qed

lemma touch_node_inv:
  assumes inv: "nodes_inv s" and n: "jm_get (nf_paired (nd_file s)) k = Some n"
    and n': "ns_nodeId n' = ns_nodeId n" "ns_commands n' = ns_commands n"
  shows "nodes_inv (s\<lparr>nd_file := (loadNodes now (nd_file s))\<lparr>nf_paired := jm_set k n' (nf_paired (nd_file s))\<rparr>\<rparr>)"
proof -
  have "node_ok (nd_grants s) n'" "ns_nodeId n' = k"
    using inv n by (auto simp: nodes_inv_def node_ok_def commands_of_def n')
  then show ?thesis using inv by (auto simp: nodes_inv_def intro: pending_wf_prune trimmed_prune split: if_splits)
qed

lemma nodes_inv_step:
  assumes inv: "nodes_inv s" and en: "nodes_enabled s e"
  shows "nodes_inv (nodes_step s e)"
proof (cases e)
  case (RequestNode req uuid now)
  then show ?thesis using request_node_inv [OF inv] en by simp
next
  case (ApproveNode rid caller tok now)
  then show ?thesis using approve_node_inv [OF inv] inv
    by (cases "approveNodePairing rid caller tok now (nd_file s)") (auto split: node_approval.splits)
next
  case (RejectNode rid now)
  have "pending_wf nr_requestId ns_nodeId (jm_delete rid (nf_pending (loadNodes now (nd_file s))))"
    "commands_trimmed (jm_delete rid (nf_pending (loadNodes now (nd_file s))))"
    using inv by (intro pending_wf_delete trimmed_delete; auto simp: nodes_inv_def intro: pending_wf_prune trimmed_prune)+
  then show ?thesis using inv
    by (auto simp: RejectNode rejectNodePairing_def rejectPendingPairingRequest_def nodes_inv_def Let_def split: option.splits)
next
  case (TouchNode nodeId patch now)
  show ?thesis
  proof (cases "jm_get (nf_paired (nd_file s)) (js_trim nodeId)")
    case (Some n)
    from touch_node_inv [OF inv Some] show ?thesis
      using en by (simp add: TouchNode updatePairedNodeMetadata_def Let_def Some or_else_def)
  qed (use inv TouchNode in \<open>simp add: updatePairedNodeMetadata_def Let_def\<close>)
next
  case (RenameNode nodeId name now)
  show ?thesis
  proof (cases "jm_get (nf_paired (nd_file s)) (js_trim nodeId)")
    case (Some n)
    from touch_node_inv [OF inv Some] show ?thesis
      using inv by (simp add: RenameNode renamePairedNode_def Let_def Some)
  qed (use inv RenameNode in \<open>simp add: renamePairedNode_def Let_def\<close>)
qed

lemma nodes_inv_init: "nodes_inv nodes_init"
  by (simp add: nodes_inv_def nodes_init_def commands_trimmed_def)

interpretation nodes_machine: event_machine nodes_init nodes_enabled nodes_step nodes_inv
  by (rule event_machine.intro) (rule nodes_inv_init, rule nodes_inv_step)

section \<open>Properties\<close>

text \<open>A Mac declares two commands and is paired by an administrator.\<close>

definition mac :: node_connect where
  "mac = \<lparr>nx_deviceId = Some ''n1'', nx_clientId = ''node-host'', nx_displayName = None, nx_platform = Some ''darwin'',
     nx_version = None, nx_deviceFamily = None, nx_modelIdentifier = None, nx_caps = None,
     nx_commands = Some [''canvas.snapshot'', ''system.run'', ''sms.send'']\<rparr>"

definition open_policy :: node_policy_cfg where
  "open_policy = \<lparr>nc_allowCommands = None, nc_denyCommands = None\<rparr>"

definition mac_request :: node_input where
  "mac_request = js_nullish (snd (reconcileNodePairingOnConnect (\<lambda>x. x) open_policy mac None None))
     (buildNodePairingRequestInput [] mac [] None)"

definition mac_paired :: nodes where
  "mac_paired = foldl nodes_step nodes_init [RequestNode mac_request ''r1'' 1000,
     ApproveNode ''r1'' (Some [''operator.pairing'', ''operator.admin'']) ''tok'' 2000]"

text \<open>A node that has not been paired yet gets all commands it declares and its platform allows, \<open>system.run\<close> included,
  although \<open>docs/gateway/pairing.md\<close> says that they are disabled until the pairing is approved.\<close>

lemma unpaired_node_runs_commands:
  "let commands = fst (reconcileNodePairingOnConnect (\<lambda>x. x) open_policy mac None None) in
   commands = [''canvas.snapshot'', ''system.run''] \<and>
   isNodeCommandAllowed ''system.run'' (Some commands) (resolveNodeCommandAllowlist (\<lambda>x. x) open_policy (Some ''darwin'') None) = None"
  by code_simp



text \<open>What the code does with the record: until an upgrade is approved, a paired node that declares more than its record
  lists keeps to the record, although \<open>docs/gateway/pairing.md\<close> says that pairing does not pin the live commands.\<close>

lemma paired_node_commands_were_approved:
  assumes "nodes_reachable s" "getPairedNode (node_id_of c) now (nd_file s) = Some node"
    and "reconcileNodePairingOnConnect fold_marks cfg c (Some node) ip = (commands, request)"
    and "isNodeCommandAllowed command (Some commands) allowlist = None"
  shows "list_ex (\<lambda>(d, approved, approver). d = js_trim (node_id_of c) \<and>
      js_trim command \<in> set approved \<and> covers_commands approver [js_trim command]) (nd_grants s)"
proof -
  have inv: "nodes_inv s" by (rule nodes_machine.inv_reach [OF assms(1)])
  have n: "jm_get (nf_paired (nd_file s)) (js_trim (node_id_of c)) = Some node"
    using assms(2) by (simp add: getPairedNode_def)
  obtain approver where g: "(js_trim (node_id_of c), commands_of node, approver) \<in> set (nd_grants s)"
    "covers_commands approver (commands_of node)" "trimmed_entries (commands_of node) = commands_of node"
  proof -
    have "ns_nodeId node = js_trim (node_id_of c)" "node_ok (nd_grants s) node" using inv n by (auto simp: nodes_inv_def)
    then show thesis using that unfolding node_ok_def list_ex_iff by auto
  qed
  have "set commands \<subseteq> set (trimmed_entries (commands_of node))"
    using assms(3) by (auto simp: reconcileNodePairingOnConnect_def Let_def resolveApprovedReconnectCommands_def set_declared
        list_ex_iff commands_of_def split: if_splits)
  moreover have "js_trim command \<in> set commands" using assms(4) by (simp add: allowed_iff)
  ultimately have "js_trim command \<in> set (commands_of node)" using g(3) by auto
  with covers_fewer [OF g(2), of "[js_trim command]"] g(1) show ?thesis by (auto simp: list_ex_iff)
qed

text \<open>The policy of a configuration for a command of a node: a default command of its platform or allowed, and not denied.\<close>

definition policy_permits :: "(string \<Rightarrow> string) \<Rightarrow> node_policy_cfg \<Rightarrow> node_connect \<Rightarrow> string \<Rightarrow> bool" where
  "policy_permits fold_marks cfg c command \<longleftrightarrow>
     command \<notin> set (trimmed_entries (js_nullish (nc_denyCommands cfg) [])) \<and>
     (command \<in> set (PLATFORM_DEFAULTS (normalizePlatformId fold_marks (nx_platform c) (nx_deviceFamily c))) \<or>
      command \<in> set (trimmed_entries (js_nullish (nc_allowCommands cfg) [])))"

lemma in_allowlist:
  "command \<in> set (resolveNodeCommandAllowlist fold_marks cfg (nx_platform c) (nx_deviceFamily c)) \<longleftrightarrow>
   policy_permits fold_marks cfg c command"
  by (auto simp: set_allowlist policy_permits_def)

text \<open>C14: the command policy. A node connects under one configuration, its commands are filtered and reconciled with its
  pairing, and a command is invoked under the configuration of that time. Whatever the pairing says, the command passes
  only if the node declared it or the record of its pairing lists it, and both configurations permit it; denying always
  wins. For a paired node that asked for nothing new on connect, it passes exactly if the node declared it and both
  configurations permit it.\<close>

theorem node_command_policy:
  assumes "reconcileNodePairingOnConnect fold_marks cfg c paired ip = (commands, request)"
    and "allowed \<longleftrightarrow> isNodeCommandAllowed command (Some commands)
      (resolveNodeCommandAllowlist fold_marks cfg' (nx_platform c) (nx_deviceFamily c)) = None"
    and "declared \<longleftrightarrow> js_trim command \<in> set (trimmed_entries (js_nullish (nx_commands c) []))"
    and "permitted \<longleftrightarrow> policy_permits fold_marks cfg c (js_trim command) \<and> policy_permits fold_marks cfg' c (js_trim command)"
  shows "(if allowed then permitted \<and> (if declared then True
      else \<exists>node. paired = Some node \<and> js_trim command \<in> set (trimmed_entries (commands_of node))) else True) \<and>
    (if paired \<noteq> None \<and> request = None then allowed = (declared \<and> permitted) else True)"
proof -
  have ne: "declared \<Longrightarrow> js_trim command \<noteq> []" using trimmed_entries_trim [of "js_trim command"] assms(3) by blast
  have a: "allowed \<longleftrightarrow> js_trim command \<noteq> [] \<and> policy_permits fold_marks cfg' c (js_trim command) \<and> js_trim command \<in> set commands"
    by (simp add: assms(2) allowed_iff in_allowlist)
  consider (declared) "js_trim command \<in> set commands \<longleftrightarrow> declared \<and> policy_permits fold_marks cfg c (js_trim command)"
    | (recorded) node where "paired = Some node" "request \<noteq> None"
      "js_trim command \<in> set commands \<longleftrightarrow>
       js_trim command \<in> set (trimmed_entries (commands_of node)) \<and> policy_permits fold_marks cfg c (js_trim command)"
    using assms(1)
    by (auto simp: reconcileNodePairingOnConnect_def Let_def resolveApprovedReconnectCommands_def set_declared in_allowlist
        commands_of_def assms(3) split: option.splits if_splits)
  then show ?thesis using a ne assms(4) by cases auto
qed

theorem node_command_policy_witness:
  "isNodeCommandAllowed ''system.run'' (Some (fst (reconcileNodePairingOnConnect (\<lambda>x. x) open_policy mac
      (getPairedNode ''n1'' 3000 (nd_file mac_paired)) None)))
      (resolveNodeCommandAllowlist (\<lambda>x. x) open_policy (nx_platform mac) (nx_deviceFamily mac)) = None \<and>
   isNodeCommandAllowed ''sms.send'' (Some (fst (reconcileNodePairingOnConnect (\<lambda>x. x) open_policy mac
      (getPairedNode ''n1'' 3000 (nd_file mac_paired)) None)))
      (resolveNodeCommandAllowlist (\<lambda>x. x) open_policy (nx_platform mac) (nx_deviceFamily mac)) \<noteq> None"
proof -
  let ?n = "getPairedNode ''n1'' 3000 (nd_file mac_paired)"
  obtain commands request where rec: "reconcileNodePairingOnConnect (\<lambda>x. x) open_policy mac ?n None = (commands, request)"
    by (metis prod.collapse)
  have "?n \<noteq> None" "snd (reconcileNodePairingOnConnect (\<lambda>x. x) open_policy mac ?n None) = None" by code_simp+
  then have asks: "?n \<noteq> None \<and> request = None" by (simp add: rec)
  have facts: "js_trim ''system.run'' \<in> set (trimmed_entries (js_nullish (nx_commands mac) []))"
    "policy_permits (\<lambda>x. x) open_policy mac (js_trim ''system.run'')"
    "\<not> policy_permits (\<lambda>x. x) open_policy mac (js_trim ''sms.send'')" by code_simp+
  let ?list = "resolveNodeCommandAllowlist (\<lambda>x. x) open_policy (nx_platform mac) (nx_deviceFamily mac)"
  have "isNodeCommandAllowed ''system.run'' (Some commands) ?list = None"
    using node_command_policy [OF rec refl refl refl, of "''system.run''" open_policy] asks facts(1,2) by argo
  moreover have "isNodeCommandAllowed ''sms.send'' (Some commands) ?list \<noteq> None"
    using node_command_policy [OF rec refl refl refl, of "''sms.send''" open_policy] asks facts(3) by argo
  ultimately show ?thesis unfolding rec fst_conv by blast
qed

text \<open>By default only desktop platforms run programs, whatever a node declares.\<close>

lemma exec_needs_desktop:
  assumes "c \<in> set NODE_SYSTEM_RUN_COMMANDS" "c \<in> set (PLATFORM_DEFAULTS p)"
  shows "p = Macos \<or> p = Linux \<or> p = Windows"
proof -
  have "list_all (\<lambda>c. c \<notin> set (PLATFORM_DEFAULTS Ios) \<and> c \<notin> set (PLATFORM_DEFAULTS Android) \<and>
      c \<notin> set (PLATFORM_DEFAULTS UnknownPlatform)) NODE_SYSTEM_RUN_COMMANDS" by code_simp
  then show ?thesis using assms by (cases p) (auto simp: list_all_iff)
qed

end
