(* ===== verification/SessionKey.thy ===== *)
theory SessionKey
  imports JsPrelude
begin

text \<open>
  Session keys, agent ids and account ids: \<open>src/routing/session-key.ts\<close>,
  \<open>src/sessions/session-key-utils.ts\<close>, \<open>src/routing/account-id.ts\<close> and
  \<open>src/channels/chat-type.ts\<close>. All are pure functions on strings except the two memo
  caches of \<open>account-id.ts\<close>, which are passed as state. Regular expressions are written out
  as character predicates and list functions.
\<close>

section \<open>Splitting and replacing\<close>

fun split_colon :: "string \<Rightarrow> string list" where
  "split_colon [] = [[]]"
| "split_colon (c # cs) = (if c = CHR '':'' then [] # split_colon cs
     else (case split_colon cs of [] \<Rightarrow> [[c]] | w # ws \<Rightarrow> (c # w) # ws))"

fun join_colon :: "string list \<Rightarrow> string" where
  "join_colon [] = []"
| "join_colon [x] = x"
| "join_colon (x # y # ys) = x @ CHR '':'' # join_colon (y # ys)"

text \<open>\<open>s.split(":").filter(Boolean)\<close>\<close>

definition colon_parts :: "string \<Rightarrow> string list" where
  "colon_parts s = filter (\<lambda>p. p \<noteq> []) (split_colon s)"

text \<open>\<open>s.replace(/[..]+/g, "-")\<close> for the character class \<open>P\<close>\<close>

function replace_runs :: "(char \<Rightarrow> bool) \<Rightarrow> string \<Rightarrow> string" where
  "replace_runs P [] = []"
| "replace_runs P (c # cs) =
     (if P c then CHR ''-'' # replace_runs P (dropWhile P cs) else c # replace_runs P cs)"
  by pat_completeness auto
termination
  by (relation "measure (\<lambda>(P, s). length s)") (auto simp: length_dropWhile_le le_imp_less_Suc)

text \<open>\<open>s.lastIndexOf(sub)\<close> for a non-empty \<open>sub\<close>; \<open>-1\<close> is \<open>None\<close>\<close>

fun last_index_of :: "string \<Rightarrow> string \<Rightarrow> nat option" where
  "last_index_of sub [] = None"
| "last_index_of sub (c # cs) = (case last_index_of sub cs of
     Some i \<Rightarrow> Some (Suc i)
   | None \<Rightarrow> if js_starts_with (c # cs) sub then Some 0 else None)"

text \<open>\<open>s.split(sub).length - 1\<close>: occurrences that do not overlap, from the left\<close>

fun count_occurrences :: "string \<Rightarrow> nat \<Rightarrow> string \<Rightarrow> nat" where
  "count_occurrences sub k [] = 0"
| "count_occurrences sub (Suc k) (c # cs) = count_occurrences sub k cs"
| "count_occurrences sub 0 (c # cs) = (if js_starts_with (c # cs) sub
     then Suc (count_occurrences sub (length sub - 1) cs) else count_occurrences sub 0 cs)"

section \<open>Identifiers\<close>

definition id_alnum :: "char \<Rightarrow> bool" where
  "id_alnum c \<longleftrightarrow> (let n = (of_char c :: nat) in (97 \<le> n \<and> n \<le> 122) \<or> (48 \<le> n \<and> n \<le> 57))"

definition id_char :: "char \<Rightarrow> bool" where
  "id_char c \<longleftrightarrow> id_alnum c \<or> c = CHR ''_'' \<or> c = CHR ''-''"

text \<open>\<open>VALID_ID_RE\<close>, case insensitive: letters are compared after folding \<open>A\<close>-\<open>Z\<close>.\<close>

definition fold_az :: "char \<Rightarrow> char" where
  "fold_az c = (let n = (of_char c :: nat) in if 65 \<le> n \<and> n \<le> 90 then char_of (n + 32) else c)"

definition id_char_ci :: "char \<Rightarrow> bool" where
  "id_char_ci c \<longleftrightarrow> id_char (fold_az c)"

definition valid_id :: "string \<Rightarrow> bool" where
  "valid_id s \<longleftrightarrow> (case s of [] \<Rightarrow> False
     | c # cs \<Rightarrow> id_alnum (fold_az c) \<and> length cs \<le> 63 \<and> list_all id_char_ci cs)"

definition strip_dashes :: "string \<Rightarrow> string" where
  "strip_dashes s = rev (dropWhile (\<lambda>c. c = CHR ''-'') (rev (dropWhile (\<lambda>c. c = CHR ''-'') s)))"

definition DEFAULT_AGENT_ID :: string where "DEFAULT_AGENT_ID = ''main''"
definition DEFAULT_MAIN_KEY :: string where "DEFAULT_MAIN_KEY = ''main''"
definition DEFAULT_ACCOUNT_ID :: string where "DEFAULT_ACCOUNT_ID = ''default''"

text \<open>Best-effort fallback of both normalisers: collapse invalid characters to a dash.\<close>

definition collapse_id :: "string \<Rightarrow> string" where
  "collapse_id normalized = take 64 (strip_dashes (replace_runs (\<lambda>c. \<not> id_char c) normalized))"

definition normalizeAgentId :: "string option \<Rightarrow> string" where
  "normalizeAgentId value =
     (let trimmed = js_trim (js_nullish value []) in
      if trimmed = [] then DEFAULT_AGENT_ID
      else let normalized = normalizeLowercaseStringOrEmpty (Some trimmed) in
        if valid_id trimmed then normalized
        else js_or (collapse_id normalized) DEFAULT_AGENT_ID)"

definition isValidAgentId :: "string option \<Rightarrow> bool" where
  "isValidAgentId value =
     (let trimmed = js_trim (js_nullish value []) in trimmed \<noteq> [] \<and> valid_id trimmed)"

definition sanitizeAgentId :: "string option \<Rightarrow> string" where
  "sanitizeAgentId value = normalizeAgentId value"

definition isBlockedObjectKey :: "string \<Rightarrow> bool" where
  "isBlockedObjectKey key \<longleftrightarrow> key \<in> {''__proto__'', ''prototype'', ''constructor''}"

definition canonicalizeAccountId :: "string \<Rightarrow> string" where
  "canonicalizeAccountId value =
     (let normalized = normalizeLowercaseStringOrEmpty (Some value) in
      if valid_id value then normalized else collapse_id normalized)"

definition normalizeCanonicalAccountId :: "string \<Rightarrow> string option" where
  "normalizeCanonicalAccountId value =
     (let canonical = canonicalizeAccountId value in
      if canonical = [] \<or> isBlockedObjectKey canonical then None else Some canonical)"

text \<open>The uncached functions, and the cached ones of the source.\<close>

definition pureAccountId :: "string option \<Rightarrow> string" where
  "pureAccountId value =
     (let trimmed = js_trim (js_nullish value []) in
      if trimmed = [] then DEFAULT_ACCOUNT_ID
      else js_nullish (normalizeCanonicalAccountId trimmed) DEFAULT_ACCOUNT_ID)"

definition pureOptionalAccountId :: "string option \<Rightarrow> string option" where
  "pureOptionalAccountId value =
     (let trimmed = js_trim (js_nullish value []) in
      if trimmed = [] then None else normalizeCanonicalAccountId trimmed)"

definition setNormalizeCache :: "(string, 'v) jsmap \<Rightarrow> string \<Rightarrow> 'v \<Rightarrow> (string, 'v) jsmap" where
  "setNormalizeCache cache key value =
     (let cache' = jm_set key value cache in
      if length cache' \<le> 512 then cache'
      else (case cache' of [] \<Rightarrow> cache' | (oldest, _) # _ \<Rightarrow> jm_delete oldest cache'))"

definition normalizeAccountId ::
    "(string, string) jsmap \<Rightarrow> string option \<Rightarrow> string \<times> (string, string) jsmap" where
  "normalizeAccountId cache value =
     (let trimmed = js_trim (js_nullish value []) in
      if trimmed = [] then (DEFAULT_ACCOUNT_ID, cache)
      else let cached = js_nullish (jm_get cache trimmed) [] in
        if cached \<noteq> [] then (cached, cache)
        else let normalized = js_or (js_nullish (normalizeCanonicalAccountId trimmed) []) DEFAULT_ACCOUNT_ID
             in (normalized, setNormalizeCache cache trimmed normalized))"

definition normalizeOptionalAccountId ::
    "(string, string option) jsmap \<Rightarrow> string option \<Rightarrow> string option \<times> (string, string option) jsmap" where
  "normalizeOptionalAccountId cache value =
     (let trimmed = js_trim (js_nullish value []) in
      if trimmed = [] then (None, cache)
      else (case jm_get cache trimmed of
          Some hit \<Rightarrow> (hit, cache)
        | None \<Rightarrow> (let normalized = normalizeCanonicalAccountId trimmed
                  in (normalized, setNormalizeCache cache trimmed normalized))))"

section \<open>Chat types\<close>

datatype chat_type = Direct | Group | Channel

definition chat_type_name :: "chat_type \<Rightarrow> string" where
  "chat_type_name t = (case t of Direct \<Rightarrow> ''direct'' | Group \<Rightarrow> ''group'' | Channel \<Rightarrow> ''channel'')"

definition normalizeChatType :: "string option \<Rightarrow> chat_type option" where
  "normalizeChatType raw = (case normalizeOptionalLowercaseString raw of
       None \<Rightarrow> None
     | Some value \<Rightarrow>
         if value = ''direct'' \<or> value = ''dm'' then Some Direct
         else if value = ''group'' then Some Group
         else if value = ''channel'' then Some Channel
         else None)"

section \<open>Parsing session keys\<close>

record parsed_agent_session_key =
  pk_agentId :: string
  pk_rest :: string

definition parseAgentSessionKey :: "string option \<Rightarrow> parsed_agent_session_key option" where
  "parseAgentSessionKey sessionKey = (case normalizeOptionalLowercaseString sessionKey of
       None \<Rightarrow> None
     | Some raw \<Rightarrow>
         (let parts = colon_parts raw in
          if length parts < 3 then None
          else if parts ! 0 \<noteq> ''agent'' then None
          else let agentId = normalizeOptionalString (Some (parts ! 1));
                   rest = join_colon (drop 2 parts)
               in (case agentId of
                     None \<Rightarrow> None
                   | Some a \<Rightarrow> if rest = [] then None else Some \<lparr>pk_agentId = a, pk_rest = rest\<rparr>)))"

definition isCronRunSessionKey :: "string option \<Rightarrow> bool" where
  "isCronRunSessionKey sessionKey = (case parseAgentSessionKey sessionKey of
       None \<Rightarrow> False
     | Some p \<Rightarrow> (case split_colon (pk_rest p) of
           [a, b, c, d] \<Rightarrow> a = ''cron'' \<and> b \<noteq> [] \<and> c = ''run'' \<and> d \<noteq> []
         | _ \<Rightarrow> False))"

definition opt_starts_with :: "string option \<Rightarrow> string \<Rightarrow> bool" where
  "opt_starts_with v p = (case v of None \<Rightarrow> False | Some s \<Rightarrow> js_starts_with s p)"

definition isCronSessionKey :: "string option \<Rightarrow> bool" where
  "isCronSessionKey sessionKey = (case parseAgentSessionKey sessionKey of
       None \<Rightarrow> False
     | Some p \<Rightarrow> opt_starts_with (normalizeOptionalLowercaseString (Some (pk_rest p))) ''cron:'')"

definition isSubagentSessionKey :: "string option \<Rightarrow> bool" where
  "isSubagentSessionKey sessionKey = (case normalizeOptionalString sessionKey of
       None \<Rightarrow> False
     | Some raw \<Rightarrow>
         if opt_starts_with (normalizeOptionalLowercaseString (Some raw)) ''subagent:'' then True
         else opt_starts_with
           (normalizeOptionalLowercaseString (map_option pk_rest (parseAgentSessionKey (Some raw))))
           ''subagent:'')"

definition getSubagentDepth :: "string option \<Rightarrow> nat" where
  "getSubagentDepth sessionKey = (case normalizeOptionalLowercaseString sessionKey of
       None \<Rightarrow> 0
     | Some raw \<Rightarrow> count_occurrences '':subagent:'' 0 raw)"

definition isAcpSessionKey :: "string option \<Rightarrow> bool" where
  "isAcpSessionKey sessionKey = (case normalizeOptionalString sessionKey of
       None \<Rightarrow> False
     | Some raw \<Rightarrow>
         if js_starts_with (normalizeLowercaseStringOrEmpty (Some raw)) ''acp:'' then True
         else opt_starts_with
           (normalizeOptionalLowercaseString (map_option pk_rest (parseAgentSessionKey (Some raw))))
           ''acp:'')"

definition parseThreadSessionSuffix :: "string option \<Rightarrow> string option \<times> string option" where
  "parseThreadSessionSuffix sessionKey = (case normalizeOptionalString sessionKey of
       None \<Rightarrow> (None, None)
     | Some raw \<Rightarrow>
         (let lowerRaw = normalizeLowercaseStringOrEmpty (Some raw) in
          case last_index_of '':thread:'' lowerRaw of
            None \<Rightarrow> (Some raw, normalizeOptionalString None)
          | Some i \<Rightarrow> (Some (take i raw), normalizeOptionalString (Some (drop (i + 8) raw)))))"

definition resolveThreadParentSessionKey :: "string option \<Rightarrow> string option" where
  "resolveThreadParentSessionKey sessionKey =
     (let (baseSessionKey, threadId) = parseThreadSessionSuffix sessionKey in
      if threadId = None then None else normalizeOptionalString baseSessionKey)"

record raw_conversation_ref =
  rc_channel :: string
  rc_kind :: chat_type
  rc_rawId :: string
  rc_prefix :: string

definition parseRawSessionConversationRef :: "string option \<Rightarrow> raw_conversation_ref option" where
  "parseRawSessionConversationRef sessionKey = (case normalizeOptionalString sessionKey of
       None \<Rightarrow> None
     | Some raw \<Rightarrow>
         (let rawParts = colon_parts raw;
              bodyStartIndex = (if length rawParts \<ge> 3 \<and>
                normalizeOptionalLowercaseString (Some (rawParts ! 0)) = Some ''agent'' then 2 else 0);
              parts = drop bodyStartIndex rawParts
          in if length parts < 3 then None
             else (case (normalizeOptionalLowercaseString (Some (parts ! 0)),
                         normalizeOptionalLowercaseString (Some (parts ! 1))) of
                 (Some channel, Some kind) \<Rightarrow>
                   if kind \<noteq> ''group'' \<and> kind \<noteq> ''channel'' then None
                   else (case (normalizeOptionalString (Some (join_colon (drop 2 parts))),
                               normalizeOptionalString (Some (join_colon (take (bodyStartIndex + 2) rawParts)))) of
                       (Some rawId, Some prefix) \<Rightarrow>
                         Some \<lparr>rc_channel = channel,
                               rc_kind = (if kind = ''group'' then Group else Channel),
                               rc_rawId = rawId, rc_prefix = prefix\<rparr>
                     | _ \<Rightarrow> None)
               | _ \<Rightarrow> None)))"

section \<open>Building session keys\<close>

datatype session_key_shape = ShapeMissing | ShapeAgent | ShapeLegacyOrAlias | ShapeMalformedAgent

datatype dm_scope = ScopeMain | ScopePerPeer | ScopePerChannelPeer | ScopePerAccountChannelPeer

definition normalizeMainKey :: "string option \<Rightarrow> string" where
  "normalizeMainKey value = js_or (normalizeLowercaseStringOrEmpty value) DEFAULT_MAIN_KEY"

definition toAgentRequestSessionKey :: "string option \<Rightarrow> string option" where
  "toAgentRequestSessionKey storeKey =
     (let raw = js_trim (js_nullish storeKey []) in
      if raw = [] then None
      else Some (js_nullish (map_option pk_rest (parseAgentSessionKey (Some raw))) raw))"

definition buildAgentMainSessionKey :: "string \<Rightarrow> string option \<Rightarrow> string" where
  "buildAgentMainSessionKey agentId mainKey =
     ''agent:'' @ normalizeAgentId (Some agentId) @ '':'' @ normalizeMainKey mainKey"

definition toAgentStoreSessionKey :: "string \<Rightarrow> string option \<Rightarrow> string option \<Rightarrow> string" where
  "toAgentStoreSessionKey agentId requestKey mainKey =
     (let raw = js_trim (js_nullish requestKey []);
          lowered = normalizeLowercaseStringOrEmpty (Some raw)
      in if raw = [] \<or> lowered = DEFAULT_MAIN_KEY then buildAgentMainSessionKey agentId mainKey
         else (case parseAgentSessionKey (Some raw) of
             Some p \<Rightarrow> ''agent:'' @ pk_agentId p @ '':'' @ pk_rest p
           | None \<Rightarrow> if js_starts_with lowered ''agent:'' then lowered
                     else ''agent:'' @ normalizeAgentId (Some agentId) @ '':'' @ lowered))"

definition resolveAgentIdFromSessionKey :: "string option \<Rightarrow> string" where
  "resolveAgentIdFromSessionKey sessionKey =
     normalizeAgentId (Some (js_nullish (map_option pk_agentId (parseAgentSessionKey sessionKey)) DEFAULT_AGENT_ID))"

definition classifySessionKeyShape :: "string option \<Rightarrow> session_key_shape" where
  "classifySessionKeyShape sessionKey =
     (let raw = js_trim (js_nullish sessionKey []) in
      if raw = [] then ShapeMissing
      else if parseAgentSessionKey (Some raw) \<noteq> None then ShapeAgent
      else if js_starts_with (normalizeLowercaseStringOrEmpty (Some raw)) ''agent:''
        then ShapeMalformedAgent else ShapeLegacyOrAlias)"

text \<open>\<open>resolveLinkedPeerId\<close>: the entries of \<open>identityLinks\<close> in property order.\<close>

definition resolveLinkedPeerId ::
    "(string \<times> string list) list option \<Rightarrow> string \<Rightarrow> string \<Rightarrow> string option" where
  "resolveLinkedPeerId identityLinks channel rawPeerId = (case identityLinks of
       None \<Rightarrow> None
     | Some links \<Rightarrow>
         (let peerId = js_trim rawPeerId in
          if peerId = [] then None
          else
            let rawCandidate = normalizeLowercaseStringOrEmpty (Some peerId);
                ch = normalizeLowercaseStringOrEmpty (Some channel);
                scoped = (if ch = [] then [] else normalizeLowercaseStringOrEmpty (Some (ch @ '':'' @ peerId)));
                candidates = filter (\<lambda>c. c \<noteq> []) [rawCandidate, scoped]
            in if candidates = [] then None
               else map_option (js_trim \<circ> fst)
                 (find (\<lambda>(canonical, ids). js_trim canonical \<noteq> [] \<and>
                    list_ex (\<lambda>i. let n = normalizeLowercaseStringOrEmpty (Some i)
                                 in n \<noteq> [] \<and> n \<in> set candidates) ids) links)))"

record peer_key_params =
  kp_agentId :: string
  kp_mainKey :: "string option"
  kp_channel :: string
  kp_accountId :: "string option"
  kp_peerKind :: "chat_type option"
  kp_peerId :: "string option"
  kp_identityLinks :: "(string \<times> string list) list option"
  kp_dmScope :: "dm_scope option"

text \<open>The peer id of a direct key: the linked identity when there is one, trimmed and lower-cased.\<close>

definition directPeerId :: "peer_key_params \<Rightarrow> string" where
  "directPeerId p =
     (let dmScope = js_nullish (kp_dmScope p) ScopeMain;
          peerId0 = js_trim (js_nullish (kp_peerId p) []);
          linkedPeerId = (if dmScope = ScopeMain then None
            else resolveLinkedPeerId (kp_identityLinks p) (kp_channel p) peerId0);
          peerId1 = (case linkedPeerId of Some l \<Rightarrow> if l = [] then peerId0 else l | None \<Rightarrow> peerId0)
      in normalizeLowercaseStringOrEmpty (Some peerId1))"

definition keyChannel :: "string \<Rightarrow> string" where
  "keyChannel ch = js_or (normalizeLowercaseStringOrEmpty (Some ch)) ''unknown''"

definition buildAgentPeerSessionKey :: "peer_key_params \<Rightarrow> string" where
  "buildAgentPeerSessionKey p =
     (let peerKind = js_nullish (kp_peerKind p) Direct;
          agent = ''agent:'' @ normalizeAgentId (Some (kp_agentId p)) @ '':'';
          channel = keyChannel (kp_channel p)
      in if peerKind = Direct then
           (let dmScope = js_nullish (kp_dmScope p) ScopeMain;
                peerId = directPeerId p
            in if dmScope = ScopePerAccountChannelPeer \<and> peerId \<noteq> [] then
                 agent @ channel @ '':'' @ pureAccountId (kp_accountId p) @ '':direct:'' @ peerId
               else if dmScope = ScopePerChannelPeer \<and> peerId \<noteq> [] then
                 agent @ channel @ '':direct:'' @ peerId
               else if dmScope = ScopePerPeer \<and> peerId \<noteq> [] then
                 agent @ ''direct:'' @ peerId
               else buildAgentMainSessionKey (kp_agentId p) (kp_mainKey p))
         else
           agent @ channel @ '':'' @ chat_type_name peerKind @ '':'' @
             js_or (normalizeLowercaseStringOrEmpty (kp_peerId p)) ''unknown'')"

definition buildGroupHistoryKey :: "string \<Rightarrow> string option \<Rightarrow> chat_type \<Rightarrow> string \<Rightarrow> string" where
  "buildGroupHistoryKey channel accountId peerKind peerId =
     keyChannel channel @ '':'' @
     pureAccountId accountId @ '':'' @ chat_type_name peerKind @ '':'' @
     js_or (normalizeLowercaseStringOrEmpty (Some peerId)) ''unknown''"

definition resolveThreadSessionKeys ::
    "string \<Rightarrow> string option \<Rightarrow> string option \<Rightarrow> bool option \<Rightarrow> (string \<Rightarrow> string) option
       \<Rightarrow> string \<times> string option" where
  "resolveThreadSessionKeys baseSessionKey rawThreadId parentSessionKey useSuffix normalizeThreadId =
     (let threadId = js_trim (js_nullish rawThreadId []) in
      if threadId = [] then (baseSessionKey, None)
      else
        let normalizedThread = (case normalizeThreadId of
              Some f \<Rightarrow> f threadId | None \<Rightarrow> normalizeLowercaseStringOrEmpty (Some threadId));
            sessionKey = (if js_nullish useSuffix True
              then baseSessionKey @ '':thread:'' @ normalizedThread else baseSessionKey)
        in (sessionKey, parentSessionKey))"


section \<open>Lemmas on strings\<close>

lemma id_char_ascii: "id_char c \<Longrightarrow> (of_char c :: nat) < 128"
  by (auto simp: id_char_def id_alnum_def Let_def)

lemma id_char_fold_lower: "id_char (fold_az c) \<Longrightarrow> id_char (js_lower_char c)"
  by (auto simp: id_char_def id_alnum_def fold_az_def js_lower_char_def Let_def split: if_splits)

lemma id_alnum_fold_lower: "id_alnum (fold_az c) \<Longrightarrow> id_alnum (js_lower_char c)"
  by (auto simp: id_alnum_def fold_az_def js_lower_char_def Let_def split: if_splits)

lemma id_char_lower: "id_char c \<Longrightarrow> js_lower_char c = c"
  by (auto simp: id_char_def id_alnum_def js_lower_char_def Let_def)

lemma id_char_not_ws: "id_char c \<Longrightarrow> \<not> js_ws c"
  by (auto simp: id_char_def id_alnum_def js_ws_def Let_def)

lemma id_char_not_colon: "id_char c \<Longrightarrow> c \<noteq> CHR '':''"
  by (auto simp: id_char_def id_alnum_def Let_def)

definition id_word :: "string \<Rightarrow> bool" where
  "id_word s \<longleftrightarrow> s \<noteq> [] \<and> length s \<le> 64 \<and> (\<forall>c \<in> set s. id_char c) \<and> hd s \<noteq> CHR ''-''"

lemma replace_runs_id: "c \<in> set (replace_runs (\<lambda>c. \<not> id_char c) s) \<Longrightarrow> id_char c"
  by (induction "\<lambda>c. \<not> id_char c" s rule: replace_runs.induct)
    (auto split: if_splits simp: id_char_def)

lemma dropWhile_rev_prefix: "\<exists>us. t = rev (dropWhile P (rev t)) @ us"
  by (metis rev_append rev_rev_ident takeWhile_dropWhile_id)

lemma set_strip_dashes: "set (strip_dashes s) \<subseteq> set s"
  by (auto simp: strip_dashes_def dest!: set_dropWhileD)

lemma hd_strip_dashes: "strip_dashes s \<noteq> [] \<Longrightarrow> hd (strip_dashes s) \<noteq> CHR ''-''"
proof -
  assume ne: "strip_dashes s \<noteq> []"
  let ?t = "dropWhile (\<lambda>c. c = CHR ''-'') s"
  obtain us where us: "?t = strip_dashes s @ us"
    using dropWhile_rev_prefix [of ?t] unfolding strip_dashes_def by blast
  with ne have "?t \<noteq> []" "hd ?t = hd (strip_dashes s)" by auto
  with hd_dropWhile [of "\<lambda>c. c = CHR ''-''" s] show ?thesis by auto
qed

lemma id_word_take:
  assumes "r \<noteq> []" "\<forall>c \<in> set r. id_char c" "hd r \<noteq> CHR ''-''"
  shows "id_word (take 64 r)"
  using assms by (auto simp: id_word_def hd_take dest: in_set_takeD)

lemma collapse_id_word: "collapse_id s = [] \<or> id_word (collapse_id s)"
proof (cases "strip_dashes (replace_runs (\<lambda>c. \<not> id_char c) s) = []")
  case False
  moreover have "\<forall>c \<in> set (strip_dashes (replace_runs (\<lambda>c. \<not> id_char c) s)). id_char c"
    using set_strip_dashes replace_runs_id by blast
  ultimately show ?thesis
    unfolding collapse_id_def by (intro disjI2 id_word_take hd_strip_dashes)
qed (simp add: collapse_id_def)

lemma valid_id_word: "valid_id s \<Longrightarrow> id_word (js_lower s)"
  by (auto simp: valid_id_def id_word_def js_lower_def list_all_iff id_char_ci_def id_char_fold_lower
      dest!: id_alnum_fold_lower split: list.splits)
    (auto simp: id_char_def id_alnum_def)

lemma id_word_main [simp]: "id_word ''main''" "id_word ''default''"
  by (auto simp: id_word_def id_char_def id_alnum_def)


lemma id_wordD:
  assumes "id_word s"
  shows "s \<noteq> []" "CHR '':'' \<notin> set s" "js_lower s = s" "\<forall>c \<in> set s. \<not> js_ws c" "js_trim s = s"
proof -
  from assms show "s \<noteq> []" by (simp add: id_word_def)
  from assms show "CHR '':'' \<notin> set s" using id_char_not_colon by (auto simp: id_word_def)
  from assms show "js_lower s = s"
    by (auto simp: id_word_def js_lower_def id_char_lower intro: map_idI)
  from assms show ws: "\<forall>c \<in> set s. \<not> js_ws c" using id_char_not_ws by (auto simp: id_word_def)
  have "dropWhile js_ws s = s"
    using ws by (cases s) auto
  moreover have "dropWhile js_ws (rev s) = rev s"
    using ws by (cases s rule: rev_cases) auto
  ultimately show "js_trim s = s" by (simp add: js_trim_def)
qed

lemma normalizeAgentId_word: "id_word (normalizeAgentId v)"
proof -
  have "js_or (collapse_id n) ''main'' = ''main'' \<or> id_word (js_or (collapse_id n) ''main'')" for n
    using collapse_id_word [of n] by (auto simp: js_or_def)
  then have "id_word (js_or (collapse_id n) ''main'')" for n
    by (metis id_word_main(1))
  then show ?thesis
    by (simp add: normalizeAgentId_def Let_def DEFAULT_AGENT_ID_def valid_id_word)
qed

lemma agent_id_colon: "CHR '':'' \<notin> set (normalizeAgentId v)"
  using normalizeAgentId_word by (rule id_wordD(2))

lemma canonicalizeAccountId_word:
  "js_trim v = v \<Longrightarrow> canonicalizeAccountId v = [] \<or> id_word (canonicalizeAccountId v)"
  using collapse_id_word by (simp add: canonicalizeAccountId_def Let_def valid_id_word)

lemma normalizeCanonicalAccountId_word:
  "js_trim v = v \<Longrightarrow> normalizeCanonicalAccountId v = Some a \<Longrightarrow> id_word a \<and> \<not> isBlockedObjectKey a"
  using canonicalizeAccountId_word by (auto simp: normalizeCanonicalAccountId_def Let_def split: if_splits)

lemma pureAccountId_word: "id_word (pureAccountId v) \<and> \<not> isBlockedObjectKey (pureAccountId v)"
proof (cases "normalizeCanonicalAccountId (js_trim (js_nullish v []))")
  case None
  then show ?thesis by (simp add: pureAccountId_def Let_def DEFAULT_ACCOUNT_ID_def isBlockedObjectKey_def)
next
  case (Some a)
  with normalizeCanonicalAccountId_word [OF js_trim_idem Some] show ?thesis
    by (simp add: pureAccountId_def Let_def DEFAULT_ACCOUNT_ID_def isBlockedObjectKey_def)
qed

lemma account_id_colon: "CHR '':'' \<notin> set (pureAccountId v)"
  using pureAccountId_word id_wordD(2) by blast

section \<open>The memo caches of account ids\<close>

text \<open>What every reachable cache satisfies: at most 512 entries, each a result of the function.\<close>

definition memo_ok :: "(string \<Rightarrow> 'v) \<Rightarrow> (string, 'v) jsmap \<Rightarrow> bool" where
  "memo_ok f cache \<longleftrightarrow> jm_ok cache \<and> length cache \<le> 512 \<and>
     (\<forall>k v. jm_get cache k = Some v \<longrightarrow> f k = v)"

lemma memo_ok_empty: "memo_ok f []"
  by (simp add: memo_ok_def)

lemma jm_set_length: "length (jm_set k v m) \<le> Suc (length m)"
  by (induction m) auto

lemma setNormalizeCache_ok:
  assumes "memo_ok f cache"
  shows "memo_ok f (setNormalizeCache cache k (f k))"
proof -
  have ok: "jm_ok (jm_set k (f k) cache)" "length (jm_set k (f k) cache) \<le> 513"
    "\<forall>k' v. jm_get (jm_set k (f k) cache) k' = Some v \<longrightarrow> f k' = v"
    using assms jm_set_length [of k "f k" cache] by (auto simp: memo_ok_def split: if_splits)
  show ?thesis
  proof (cases "jm_set k (f k) cache")
    case Nil
    with ok show ?thesis by (simp add: setNormalizeCache_def memo_ok_def)
  next
    case (Cons e rest)
    obtain k0 v0 where e: "e = (k0, v0)" by (cases e)
    from ok(1) Cons e have "jm_delete k0 ((k0, v0) # rest) = rest"
      by (simp add: AList.delete_idem)
    with ok Cons e show ?thesis
      by (auto simp: setNormalizeCache_def memo_ok_def Let_def map_of_eq_Some_iff split: if_splits)
  qed
qed

lemma normalizeAccountId_memo:
  assumes "memo_ok (\<lambda>k. pureAccountId (Some k)) cache"
  shows "fst (normalizeAccountId cache v) = pureAccountId v \<and>
    memo_ok (\<lambda>k. pureAccountId (Some k)) (snd (normalizeAccountId cache v))"
proof (cases "js_trim (js_nullish v []) = []")
  case True
  with assms show ?thesis by (simp add: normalizeAccountId_def pureAccountId_def)
next
  case False
  let ?k = "js_trim (js_nullish v [])"
  have pure: "pureAccountId v = pureAccountId (Some ?k)"
    by (simp add: pureAccountId_def)
  have ne: "pureAccountId (Some ?k) \<noteq> []"
    using pureAccountId_word id_wordD(1) by blast
  have norm: "js_or (js_nullish (normalizeCanonicalAccountId ?k) []) DEFAULT_ACCOUNT_ID = pureAccountId (Some ?k)"
    using False normalizeCanonicalAccountId_word [OF js_trim_idem] id_wordD(1)
    by (auto simp: pureAccountId_def js_or_def Let_def js_nullish_def split: option.splits)
  have hit: "pureAccountId (Some ?k) = c" if "jm_get cache ?k = Some c" for c
    using assms that by (simp add: memo_ok_def)
  have "normalizeAccountId cache v = (case jm_get cache ?k of
      Some c \<Rightarrow> (pureAccountId (Some ?k), cache)
    | None \<Rightarrow> (pureAccountId (Some ?k), setNormalizeCache cache ?k (pureAccountId (Some ?k))))"
    using False ne unfolding normalizeAccountId_def Let_def norm
    by (auto dest: hit split: option.split)
  with assms setNormalizeCache_ok [OF assms, of ?k] pure show ?thesis
    by (cases "jm_get cache ?k") simp_all
qed

interpretation account_memo: memoised "\<lambda>_. True" pureAccountId normalizeAccountId "[]"
  "memo_ok (\<lambda>k. pureAccountId (Some k))"
  by (rule memoised.intro) (simp_all add: memo_ok_empty normalizeAccountId_memo)

lemma normalizeOptionalAccountId_memo:
  assumes "memo_ok (\<lambda>k. pureOptionalAccountId (Some k)) cache"
  shows "fst (normalizeOptionalAccountId cache v) = pureOptionalAccountId v \<and>
    memo_ok (\<lambda>k. pureOptionalAccountId (Some k)) (snd (normalizeOptionalAccountId cache v))"
proof (cases "js_trim (js_nullish v []) = []")
  case True
  with assms show ?thesis by (simp add: normalizeOptionalAccountId_def pureOptionalAccountId_def)
next
  case False
  let ?k = "js_trim (js_nullish v [])"
  have pure: "pureOptionalAccountId v = normalizeCanonicalAccountId ?k"
    "pureOptionalAccountId (Some ?k) = normalizeCanonicalAccountId ?k"
    using False by (simp_all add: pureOptionalAccountId_def)
  have hit: "normalizeCanonicalAccountId ?k = c" if "jm_get cache ?k = Some c" for c
    using assms that pure by (simp add: memo_ok_def)
  have "normalizeOptionalAccountId cache v = (case jm_get cache ?k of
      Some c \<Rightarrow> (normalizeCanonicalAccountId ?k, cache)
    | None \<Rightarrow> (normalizeCanonicalAccountId ?k, setNormalizeCache cache ?k (normalizeCanonicalAccountId ?k)))"
    using False unfolding normalizeOptionalAccountId_def Let_def
    by (auto dest: hit split: option.split)
  with assms setNormalizeCache_ok [OF assms, of ?k] pure show ?thesis
    by (cases "jm_get cache ?k") simp_all
qed

interpretation optional_account_memo: memoised "\<lambda>_. True" pureOptionalAccountId normalizeOptionalAccountId "[]"
  "memo_ok (\<lambda>k. pureOptionalAccountId (Some k))"
  by (rule memoised.intro) (simp_all add: memo_ok_empty normalizeOptionalAccountId_memo)


section \<open>The structure of keys\<close>

lemma split_colon_ne [simp]: "split_colon s \<noteq> []"
  by (induction s rule: split_colon.induct) (auto split: list.splits)

lemma split_colon_free: "CHR '':'' \<notin> set w \<Longrightarrow> split_colon w = [w]"
  by (induction w) auto

lemma split_colon_cons: "CHR '':'' \<notin> set w \<Longrightarrow> split_colon (w @ CHR '':'' # s) = w # split_colon s"
  by (induction w) (auto split: list.splits)

lemma colon_parts_cons:
  "CHR '':'' \<notin> set w \<Longrightarrow> w \<noteq> [] \<Longrightarrow> colon_parts (w @ CHR '':'' # s) = w # colon_parts s"
  by (simp add: colon_parts_def split_colon_cons)

lemma split_colon_append: "\<exists>xs y z ys. split_colon s = xs @ [y] \<and> split_colon t = z # ys \<and>
   split_colon (s @ t) = xs @ [y @ z] @ ys"
proof (induction s)
  case Nil
  then show ?case by (cases "split_colon t") auto
next
  case (Cons c s)
  then obtain xs y z ys where IH: "split_colon s = xs @ [y]" "split_colon t = z # ys"
    "split_colon (s @ t) = xs @ [y @ z] @ ys" by blast
  show ?case
  proof (cases xs)
    case Nil
    with IH show ?thesis by (cases "c = CHR '':''") (auto intro: exI [of _ "[[]]"] exI [of _ "[]"])
  next
    case (Cons a as)
    with IH show ?thesis
      by (cases "c = CHR '':''") (auto intro: exI [of _ "[] # a # as"] exI [of _ "(c # a) # as"])
  qed
qed

lemma colon_parts_tail: "colon_parts t \<noteq> [] \<Longrightarrow> colon_parts (s @ t) \<noteq> []"
proof -
  assume ne: "colon_parts t \<noteq> []"
  obtain xs y z ys where "split_colon t = z # ys" "split_colon (s @ t) = xs @ [y @ z] @ ys"
    using split_colon_append [of s t] by blast
  with ne show ?thesis by (auto simp: colon_parts_def filter_empty_conv)
qed

lemma colon_free_eq:
  assumes "CHR '':'' \<notin> set a" "CHR '':'' \<notin> set b"
  shows "a @ CHR '':'' # s = b @ CHR '':'' # t \<longleftrightarrow> a = b \<and> s = t"
proof
  assume eq: "a @ CHR '':'' # s = b @ CHR '':'' # t"
  have "takeWhile (\<lambda>c. c \<noteq> CHR '':'') (a @ CHR '':'' # s) = a"
    "takeWhile (\<lambda>c. c \<noteq> CHR '':'') (b @ CHR '':'' # t) = b"
    using assms by (subst takeWhile_append2; auto)+
  with eq show "a = b \<and> s = t" by (metis append_eq_append_conv list.inject)
qed simp

text \<open>The tail of a key that parsing leaves alone: lower case, not ending in white space.\<close>

definition key_tail :: "string \<Rightarrow> bool" where
  "key_tail s \<longleftrightarrow> s \<noteq> [] \<and> js_lower s = s \<and> \<not> js_ws (last s)"

lemma key_tail_append: "js_lower s = s \<Longrightarrow> key_tail t \<Longrightarrow> key_tail (s @ t)"
  by (simp add: key_tail_def)

lemma key_tail_normalized:
  "normalizeLowercaseStringOrEmpty v \<noteq> [] \<Longrightarrow> key_tail (normalizeLowercaseStringOrEmpty v)"
proof (cases v)
  case (Some s)
  assume "normalizeLowercaseStringOrEmpty v \<noteq> []"
  with Some have "js_trim s \<noteq> []" by simp
  with js_trim_last [OF this] Some show ?thesis
    by (simp add: key_tail_def) (simp add: js_lower_def last_map)
qed simp

lemma key_tail_trim:
  assumes "key_tail s" "\<not> js_ws (hd s)"
  shows "js_trim s = s"
proof -
  have "dropWhile js_ws s = s" using assms by (cases s) (auto simp: key_tail_def)
  moreover have "dropWhile js_ws (rev s) = rev s"
    using assms by (cases s rule: rev_cases) (auto simp: key_tail_def)
  ultimately show ?thesis by (simp add: js_trim_def)
qed

lemma key_tail_norm:
  "key_tail k \<Longrightarrow> \<not> js_ws (hd k) \<Longrightarrow> normalizeOptionalLowercaseString (Some k) = Some k"
  by (simp add: normalizeOptionalLowercaseString_def key_tail_trim) (simp add: key_tail_def)

lemma join_colon_ne: "xs \<noteq> [] \<Longrightarrow> \<forall>x \<in> set xs. x \<noteq> [] \<Longrightarrow> join_colon xs \<noteq> []"
  by (induction xs rule: join_colon.induct) auto

lemma agent_key_tail:
  assumes "id_word a" "key_tail rest"
  shows "key_tail (''agent:'' @ a @ '':'' @ rest)"
proof -
  have "js_lower (''agent:'' @ a @ '':'') = ''agent:'' @ a @ '':''"
    using id_wordD(3) [OF assms(1)] by (simp add: js_lower_def js_lower_char_def)
  from key_tail_append [OF this assms(2)] show ?thesis by simp
qed

lemma parse_of_parts:
  assumes "normalizeOptionalLowercaseString (Some key) = Some key"
    and "colon_parts key = ''agent'' # a # ps" "a \<noteq> []" "js_trim a = a" "ps \<noteq> []" "\<forall>x \<in> set ps. x \<noteq> []"
  shows "parseAgentSessionKey (Some key) = Some \<lparr>pk_agentId = a, pk_rest = join_colon ps\<rparr>"
  using assms join_colon_ne [of ps] by (cases ps) (simp_all add: parseAgentSessionKey_def Let_def)

lemma parse_agent_key:
  assumes a: "id_word a" and rest: "key_tail rest" and parts: "colon_parts rest \<noteq> []"
  shows "parseAgentSessionKey (Some (''agent:'' @ a @ '':'' @ rest)) =
    Some \<lparr>pk_agentId = a, pk_rest = join_colon (colon_parts rest)\<rparr>"
proof -
  let ?key = "''agent:'' @ a @ '':'' @ rest"
  have norm: "normalizeOptionalLowercaseString (Some ?key) = Some ?key"
    by (rule key_tail_norm [OF agent_key_tail [OF a rest]]) (simp add: js_ws_def)
  have cp: "colon_parts ?key = ''agent'' # a # colon_parts rest"
    using colon_parts_cons [of "''agent''" "a @ '':'' @ rest"] colon_parts_cons [of a rest] id_wordD [OF a]
    by simp
  show ?thesis
    by (rule parse_of_parts [OF norm cp]) (use a parts in \<open>auto simp: id_wordD colon_parts_def\<close>)
qed

text \<open>What \<open>buildAgentPeerSessionKey\<close> puts after the agent prefix.\<close>

definition peer_key_rest :: "peer_key_params \<Rightarrow> string" where
  "peer_key_rest p = drop (length (''agent:'' @ normalizeAgentId (Some (kp_agentId p)) @ '':''))
     (buildAgentPeerSessionKey p)"

lemma peer_key_rest_eq:
  "peer_key_rest p = (let ch = keyChannel (kp_channel p); kind = js_nullish (kp_peerKind p) Direct;
       scope = js_nullish (kp_dmScope p) ScopeMain in
     if kind \<noteq> Direct then ch @ '':'' @ chat_type_name kind @ '':'' @
         js_or (normalizeLowercaseStringOrEmpty (kp_peerId p)) ''unknown''
     else if directPeerId p = [] \<or> scope = ScopeMain then normalizeMainKey (kp_mainKey p)
     else if scope = ScopePerAccountChannelPeer
       then ch @ '':'' @ pureAccountId (kp_accountId p) @ '':direct:'' @ directPeerId p
     else if scope = ScopePerChannelPeer then ch @ '':direct:'' @ directPeerId p
     else ''direct:'' @ directPeerId p)"
  by (cases "js_nullish (kp_dmScope p) ScopeMain")
    (simp_all add: peer_key_rest_def buildAgentPeerSessionKey_def buildAgentMainSessionKey_def Let_def)

lemma peer_key_split:
  "buildAgentPeerSessionKey p = ''agent:'' @ normalizeAgentId (Some (kp_agentId p)) @ '':'' @ peer_key_rest p"
  by (cases "js_nullish (kp_dmScope p) ScopeMain")
    (simp_all add: peer_key_rest_def buildAgentPeerSessionKey_def buildAgentMainSessionKey_def Let_def)

lemma keyChannel_lower: "js_lower (keyChannel ch) = keyChannel ch"
  by (simp add: keyChannel_def js_or_def) (simp add: js_lower_def js_lower_char_def)

lemma js_lower_char_colon: "js_lower_char c = CHR '':'' \<longleftrightarrow> c = CHR '':''"
proof
  assume "js_lower_char c = CHR '':''"
  then have "of_char (js_lower_char c) = (of_char CHR '':'' :: nat)" by simp
  moreover have "(of_char c :: nat) < 256" by simp
  ultimately have "(of_char c :: nat) = of_char CHR '':''"
    by (auto simp: js_lower_char_def Let_def split: if_splits)
  then show "c = CHR '':''" by (metis char_of_char)
qed (simp add: js_lower_char_def)

lemma keyChannel_colon: "CHR '':'' \<notin> set ch \<Longrightarrow> CHR '':'' \<notin> set (keyChannel ch)"
  by (auto simp: keyChannel_def js_or_def js_lower_def js_trim_def js_lower_char_colon
      dest!: set_dropWhileD sym [of "CHR '':''"])

lemma key_tail_or: "key_tail (js_or (normalizeLowercaseStringOrEmpty v) ''unknown'')"
  "key_tail (js_or (normalizeLowercaseStringOrEmpty v) ''main'')"
  using key_tail_normalized [of v]
  by (auto simp: js_or_def) (auto simp: key_tail_def js_lower_def js_lower_char_def js_ws_def)

lemma key_tail_peer: "directPeerId p \<noteq> [] \<Longrightarrow> key_tail (directPeerId p)"
  using key_tail_normalized unfolding directPeerId_def Let_def by blast

lemma js_lower_literals:
  "js_lower '':'' = '':''" "js_lower '':direct:'' = '':direct:''" "js_lower ''direct:'' = ''direct:''"
  "js_lower (chat_type_name t) = chat_type_name t"
  by (simp_all add: js_lower_def js_lower_char_def chat_type_name_def split: chat_type.split)

lemma peer_key_rest_tail: "key_tail (peer_key_rest p)"
proof -
  note tail = key_tail_append
  have acc: "js_lower (pureAccountId v) = pureAccountId v" for v
    using pureAccountId_word id_wordD(3) by blast
  show ?thesis
    unfolding peer_key_rest_eq Let_def normalizeMainKey_def DEFAULT_MAIN_KEY_def
    by (simp only: if_split)
      (intro conjI impI tail keyChannel_lower js_lower_literals acc key_tail_or; simp add: key_tail_peer)
qed

lemma peer_key_rest_parts:
  assumes "colon_parts (normalizeMainKey (kp_mainKey p)) \<noteq> []"
  shows "colon_parts (peer_key_rest p) \<noteq> []"
proof -
  have d: "colon_parts (x @ ''direct:'' @ y) \<noteq> []" for x y
    using colon_parts_tail [of "''direct:'' @ y" x] colon_parts_cons [of "''direct''" y] by simp
  have k: "colon_parts (x @ chat_type_name t @ '':'' @ y) \<noteq> []" for x y t
    using colon_parts_tail [of "chat_type_name t @ '':'' @ y" x] colon_parts_cons [of "chat_type_name t" y]
    by (cases t) (simp_all add: chat_type_name_def)
  show ?thesis
    using assms d [of "[]"] d [of "keyChannel (kp_channel p) @ '':''"]
      d [of "keyChannel (kp_channel p) @ '':'' @ pureAccountId (kp_accountId p) @ '':''"]
      k [of "keyChannel (kp_channel p) @ '':''"]
    by (simp add: peer_key_rest_eq Let_def)
qed

lemma last_index_of_append:
  "last_index_of sub s = Some i \<Longrightarrow> last_index_of sub (b @ s) = Some (length b + i)"
  by (induction b) auto

lemma thread_marker_none: "CHR '':'' \<notin> set t \<Longrightarrow> last_index_of '':thread:'' t = None"
  by (induction t) (auto simp: js_starts_with_def)

lemma thread_marker_last:
  assumes "CHR '':'' \<notin> set t"
  shows "last_index_of '':thread:'' ('':thread:'' @ t) = Some 0"
proof -
  have "\<not> js_starts_with (CHR '':'' # t) '':thread:''"
    using assms by (auto simp: js_starts_with_def) (metis in_set_takeD list.set_intros(1,2))
  then show ?thesis
    using thread_marker_none [OF assms] by (simp add: js_starts_with_def)
qed


lemma parse_thread_at:
  "js_trim key = key \<Longrightarrow> key \<noteq> [] \<Longrightarrow> last_index_of '':thread:'' (js_lower key) = Some i \<Longrightarrow>
   parseThreadSessionSuffix (Some key) = (Some (take i key), normalizeOptionalString (Some (drop (i + 8) key)))"
  by (simp add: parseThreadSessionSuffix_def Let_def)

lemma peer_key_tail: "key_tail (buildAgentPeerSessionKey p)"
  unfolding peer_key_split by (rule agent_key_tail [OF normalizeAgentId_word peer_key_rest_tail])

lemma peer_key_hd: "\<not> js_ws (hd (buildAgentPeerSessionKey p))"
  unfolding peer_key_split by (simp add: js_ws_def)

lemma parse_peer_key:
  assumes "colon_parts (normalizeMainKey (kp_mainKey p)) \<noteq> []"
  shows "parseAgentSessionKey (Some (buildAgentPeerSessionKey p)) =
    Some \<lparr>pk_agentId = normalizeAgentId (Some (kp_agentId p)),
          pk_rest = join_colon (colon_parts (peer_key_rest p))\<rparr>"
  unfolding peer_key_split
  by (rule parse_agent_key [OF normalizeAgentId_word peer_key_rest_tail peer_key_rest_parts [OF assms]])

section \<open>Properties\<close>

text \<open>C22: every agent id that \<open>normalizeAgentId\<close> produces and every account id that
  \<open>normalizeAccountId\<close> produces is non-empty, at most 64 characters long, made of
  \<open>[a-z0-9_-]\<close> and does not start with a dash, whatever the input; an account id is never one of the
  blocked object keys (so it can be used as a property name).\<close>

theorem normalized_ids_well_formed:
  "id_word (normalizeAgentId v) \<and> id_word (pureAccountId a) \<and> \<not> isBlockedObjectKey (pureAccountId a)"
  using normalizeAgentId_word pureAccountId_word by blast

text \<open>The two bounded memo caches of \<open>account-id.ts\<close> are invisible: any sequence of calls, starting
  from the empty caches, returns what the uncached functions return, and the caches never hold more than
  512 entries.\<close>

theorem account_id_caches_transparent:
  "fst (memo_calls normalizeAccountId [] vs) = map pureAccountId vs \<and>
   fst (memo_calls normalizeOptionalAccountId [] ws) = map pureOptionalAccountId ws \<and>
   length (snd (memo_calls normalizeAccountId [] vs)) \<le> 512 \<and>
   length (snd (memo_calls normalizeOptionalAccountId [] ws)) \<le> 512"
  using account_memo.calls_from_empty [of vs] optional_account_memo.calls_from_empty [of ws]
  by (simp add: memo_ok_def list.pred_True)

text \<open>C21: \<open>parseAgentSessionKey\<close> reads back every key that \<open>buildAgentPeerSessionKey\<close> builds: it
  returns the normalised agent id and the rest of the key (with empty segments dropped). The one
  exception is a main key consisting of colons only.\<close>

theorem peer_session_key_roundtrip:
  assumes "colon_parts (normalizeMainKey (kp_mainKey p)) \<noteq> []"
  shows "parseAgentSessionKey (Some (buildAgentPeerSessionKey p)) =
    Some \<lparr>pk_agentId = normalizeAgentId (Some (kp_agentId p)),
          pk_rest = join_colon (colon_parts (peer_key_rest p))\<rparr> \<and>
    classifySessionKeyShape (Some (buildAgentPeerSessionKey p)) = ShapeAgent"
  using parse_peer_key [OF assms] key_tail_trim [OF peer_key_tail peer_key_hd] peer_key_tail [of p]
  by (simp add: classifySessionKeyShape_def key_tail_def)

text \<open>Two sample addresses: the same direct peer, written differently.\<close>

definition sample_peer :: peer_key_params where
  "sample_peer = \<lparr>kp_agentId = ''Ops'', kp_mainKey = None, kp_channel = ''Slack'', kp_accountId = Some '' Work '',
     kp_peerKind = Some Direct, kp_peerId = Some ''U1:x'', kp_identityLinks = None,
     kp_dmScope = Some ScopePerAccountChannelPeer\<rparr>"

definition sample_peer' :: peer_key_params where
  "sample_peer' = sample_peer\<lparr>kp_agentId := ''ops'', kp_channel := ''slack '', kp_accountId := Some ''work'',
     kp_peerKind := None, kp_peerId := Some '' u1:X''\<rparr>"

theorem peer_session_key_roundtrip_witness:
  "parseAgentSessionKey (Some (buildAgentPeerSessionKey sample_peer)) =
     Some \<lparr>pk_agentId = normalizeAgentId (Some (kp_agentId sample_peer)),
          pk_rest = join_colon (colon_parts (peer_key_rest sample_peer))\<rparr>"
  by (rule peer_session_key_roundtrip [THEN conjunct1]) code_simp

text \<open>Session keys separate agents: two addresses with the same session key have the same
  normalised agent id, whatever their scope, channel, account and peer.\<close>

theorem peer_session_key_agent_isolation:
  assumes "buildAgentPeerSessionKey p = buildAgentPeerSessionKey q"
  shows "normalizeAgentId (Some (kp_agentId p)) = normalizeAgentId (Some (kp_agentId q))"
proof -
  have "normalizeAgentId (Some (kp_agentId p)) @ CHR '':'' # peer_key_rest p =
      normalizeAgentId (Some (kp_agentId q)) @ CHR '':'' # peer_key_rest q"
    using assms unfolding peer_key_split by simp
  then show ?thesis
    unfolding colon_free_eq [OF agent_id_colon agent_id_colon] by (rule conjunct1)
qed

theorem peer_session_key_agent_isolation_witness:
  "normalizeAgentId (Some (kp_agentId sample_peer)) = normalizeAgentId (Some (kp_agentId sample_peer'))"
  by (rule peer_session_key_agent_isolation) code_simp

text \<open>C20: direct conversations in the scope \<open>per-account-channel-peer\<close> are isolated: on channels whose
  id has no colon, two addresses with a peer share a session key only if they agree on the agent,
  the channel, the account and the peer (after normalisation and identity links).\<close>

theorem direct_session_key_isolation:
  assumes "js_nullish (kp_peerKind p) Direct = Direct" "js_nullish (kp_peerKind q) Direct = Direct"
    and "kp_dmScope p = Some ScopePerAccountChannelPeer" "kp_dmScope q = Some ScopePerAccountChannelPeer"
    and "directPeerId p \<noteq> []" "directPeerId q \<noteq> []"
    and "CHR '':'' \<notin> set (kp_channel p)" "CHR '':'' \<notin> set (kp_channel q)"
  shows "buildAgentPeerSessionKey p = buildAgentPeerSessionKey q \<longleftrightarrow>
    normalizeAgentId (Some (kp_agentId p)) = normalizeAgentId (Some (kp_agentId q)) \<and>
    keyChannel (kp_channel p) = keyChannel (kp_channel q) \<and>
    pureAccountId (kp_accountId p) = pureAccountId (kp_accountId q) \<and>
    directPeerId p = directPeerId q"
  unfolding peer_key_split using assms
  by (simp add: peer_key_rest_eq colon_free_eq agent_id_colon account_id_colon keyChannel_colon)

theorem direct_session_key_isolation_witness:
  "buildAgentPeerSessionKey sample_peer = buildAgentPeerSessionKey sample_peer' \<longleftrightarrow>
    normalizeAgentId (Some (kp_agentId sample_peer)) = normalizeAgentId (Some (kp_agentId sample_peer')) \<and>
    keyChannel (kp_channel sample_peer) = keyChannel (kp_channel sample_peer') \<and>
    pureAccountId (kp_accountId sample_peer) = pureAccountId (kp_accountId sample_peer') \<and>
    directPeerId sample_peer = directPeerId sample_peer'"
  by (rule direct_session_key_isolation) (simp_all add: sample_peer_def sample_peer'_def, code_simp+)

text \<open>a thread key reads back: for a trimmed base key and a thread id without colons, the key that
  \<open>resolveThreadSessionKeys\<close> builds parses to that base key and the normalised thread id, even when the base key
  itself contains a thread marker, and its parent is the base key.\<close>

theorem thread_session_key_roundtrip:
  assumes "base \<noteq> []" "js_trim base = base" "js_trim t \<noteq> []" "CHR '':'' \<notin> set t"
  shows "parseThreadSessionSuffix (Some (fst (resolveThreadSessionKeys base (Some t) parent None None))) =
      (Some base, Some (js_lower (js_trim t))) \<and>
    resolveThreadParentSessionKey (Some (fst (resolveThreadSessionKeys base (Some t) parent None None))) = Some base"
proof -
  let ?t = "js_lower (js_trim t)" let ?key = "base @ '':thread:'' @ ?t"
  have key: "fst (resolveThreadSessionKeys base (Some t) parent None None) = ?key"
    using assms by (simp add: resolveThreadSessionKeys_def Let_def)
  have "key_tail (js_lower (js_trim t))"
    using key_tail_normalized [of "Some t"] assms by simp
  then have last: "\<not> js_ws (last ?t)" "?t \<noteq> []" by (simp_all add: key_tail_def)
  have hd: "\<not> js_ws (hd base)" using js_trim_hd [of base] assms by simp
  have "dropWhile js_ws ?key = ?key" using hd assms(1) by (cases base) auto
  moreover have "dropWhile js_ws (rev ?key) = rev ?key"
    using last by (intro dropWhile_eq_self) (simp add: hd_rev)
  ultimately have trim: "js_trim ?key = ?key" by (metis js_trim_def rev_rev_ident)
  have free: "CHR '':'' \<notin> set ?t"
    using assms(4) by (auto simp: js_lower_def js_trim_def js_lower_char_colon
        dest!: set_dropWhileD sym [of "CHR '':''"])
  have "js_lower '':thread:'' = '':thread:''" by (simp add: js_lower_def js_lower_char_def)
  then have idx: "last_index_of '':thread:'' (js_lower ?key) = Some (length base)"
    using last_index_of_append [OF thread_marker_last [OF free], of "js_lower base"]
    by (simp only: js_lower_append js_lower_idem) simp
  have tt: "js_trim ?t = ?t" by (simp add: js_trim_lower)
  have parsed: "parseThreadSessionSuffix (Some ?key) = (Some base, Some ?t)"
    using parse_thread_at [OF trim _ idx] last tt assms(1) by simp
  with assms show ?thesis
    unfolding key resolveThreadParentSessionKey_def by simp
qed

theorem thread_session_key_roundtrip_witness:
  "parseThreadSessionSuffix (Some (fst (resolveThreadSessionKeys ''agent:main:main:thread:a'' (Some '' T9 '')
       None None None))) = (Some ''agent:main:main:thread:a'', Some (js_lower (js_trim '' T9 '')))"
  by (rule thread_session_key_roundtrip [THEN conjunct1]) code_simp+

end
