(* ===== verification/Routing.thy ===== *)
theory Routing
  imports SessionKey "HOL-Library.Char_ord" "HOL-Library.List_Lexorder"
begin

text \<open>
  Agent routing, \<open>src/routing/resolve-route.ts\<close>, with \<open>listRouteBindings\<close> of
  \<open>src/config/bindings.ts\<close> and the agent list of \<open>src/agents/agent-scope.ts\<close>: which agent and
  which session an inbound message belongs to. The detailed model keeps the indexes, the merge of the
  account buckets, the eight tiers and the three caches of the code; the specification is a search of
  the bindings in source order. Ids are strings (numeric ids are converted by \<open>String\<close> in the code);
  debug logging is left out. A configuration object holds its three sub-objects with their
  identities (\<open>_Ref\<close>), which is what the caches compare.
\<close>

section \<open>Configuration\<close>

record peer_match =
  pm_kind :: "string option"
  pm_id :: "string option"

record binding_match =
  bm_channel :: "string option"
  bm_accountId :: "string option"
  bm_peer :: "peer_match option"
  bm_guildId :: "string option"
  bm_teamId :: "string option"
  bm_roles :: "string list option"

record agent_binding =
  ab_acp :: bool
  ab_agentId :: string
  ab_match :: binding_match

record agent_entry =
  ae_id :: "string option"
  ae_default :: bool

record route_config =
  cf_bindingsRef :: nat
  cf_bindings :: "agent_binding list"
  cf_agentsRef :: nat
  cf_agents :: "agent_entry list"
  cf_sessionRef :: nat
  cf_dmScope :: "dm_scope option"
  cf_identityLinks :: "(string \<times> string list) list option"

definition isRouteBinding :: "agent_binding \<Rightarrow> bool" where
  "isRouteBinding b \<longleftrightarrow> \<not> ab_acp b"

definition listRouteBindings :: "route_config \<Rightarrow> agent_binding list" where
  "listRouteBindings cfg = filter isRouteBinding (cf_bindings cfg)"

definition listBindings :: "route_config \<Rightarrow> agent_binding list" where
  "listBindings cfg = listRouteBindings cfg"

definition resolveDefaultAgentId :: "route_config \<Rightarrow> string" where
  "resolveDefaultAgentId cfg = (case cf_agents cfg of
       [] \<Rightarrow> DEFAULT_AGENT_ID
     | first # _ \<Rightarrow>
         (let defaults = filter ae_default (cf_agents cfg);
              chosen = map_option js_trim (ae_id (case defaults of [] \<Rightarrow> first | d # _ \<Rightarrow> d))
          in normalizeAgentId (Some (js_or (js_nullish chosen []) DEFAULT_AGENT_ID))))"

definition normalizeId :: "string option \<Rightarrow> string" where
  "normalizeId value = js_trim (js_nullish value [])"

definition non_empty :: "string \<Rightarrow> string option" where
  "non_empty s = (if s = [] then None else Some s)"

section \<open>Agent lookup\<close>

record agent_lookup =
  al_agentsRef :: nat
  al_byNormalizedId :: "(string, string) jsmap"
  al_fallback :: string

definition agent_lookup_add :: "(string, string) jsmap \<Rightarrow> agent_entry \<Rightarrow> (string, string) jsmap" where
  "agent_lookup_add m agent = (case map_option js_trim (ae_id agent) of
       None \<Rightarrow> m
     | Some rawId \<Rightarrow> if rawId = [] then m
         else jm_set (normalizeAgentId (Some rawId)) (sanitizeAgentId (Some rawId)) m)"

definition buildAgentLookup :: "route_config \<Rightarrow> agent_lookup" where
  "buildAgentLookup cfg = \<lparr>al_agentsRef = cf_agentsRef cfg,
     al_byNormalizedId = foldl agent_lookup_add [] (cf_agents cfg),
     al_fallback = sanitizeAgentId (Some (resolveDefaultAgentId cfg))\<rparr>"

definition lookupAgentId :: "agent_lookup \<Rightarrow> string \<Rightarrow> string" where
  "lookupAgentId lookup agentId =
     (let trimmed = js_trim agentId in
      if trimmed = [] then al_fallback lookup
      else let normalized = normalizeAgentId (Some trimmed) in
        if al_byNormalizedId lookup = [] then sanitizeAgentId (Some trimmed)
        else js_or (js_nullish (jm_get (al_byNormalizedId lookup) normalized) []) (al_fallback lookup))"

section \<open>Bindings, normalised\<close>

datatype peer_constraint =
    PeerNone
  | PeerInvalid
  | PeerWildcardKind chat_type
  | PeerValid chat_type string

record normalized_match =
  nm_accountPattern :: string
  nm_peer :: peer_constraint
  nm_guildId :: "string option"
  nm_teamId :: "string option"
  nm_roles :: "string list option"

record evaluated_binding =
  eb_binding :: agent_binding
  eb_match :: normalized_match
  eb_order :: nat

record route_peer =
  rp_kind :: chat_type
  rp_id :: string

definition normalizePeerConstraint :: "peer_match option \<Rightarrow> peer_constraint" where
  "normalizePeerConstraint peer = (case peer of
       None \<Rightarrow> PeerNone
     | Some p \<Rightarrow>
         (let pid = normalizeId (pm_id p) in
          case normalizeChatType (pm_kind p) of
            None \<Rightarrow> PeerInvalid
          | Some kind \<Rightarrow> if pid = [] then PeerInvalid
              else if pid = ''*'' then PeerWildcardKind kind
              else PeerValid kind pid))"

definition normalizeBindingMatch :: "binding_match \<Rightarrow> normalized_match" where
  "normalizeBindingMatch m =
     \<lparr>nm_accountPattern = js_trim (js_nullish (bm_accountId m) []),
      nm_peer = normalizePeerConstraint (bm_peer m),
      nm_guildId = non_empty (normalizeId (bm_guildId m)),
      nm_teamId = non_empty (normalizeId (bm_teamId m)),
      nm_roles = (case bm_roles m of Some rs \<Rightarrow> (if rs = [] then None else Some rs) | None \<Rightarrow> None)\<rparr>"

definition resolveAccountPatternKey :: "string \<Rightarrow> string" where
  "resolveAccountPatternKey accountPattern =
     (if js_trim accountPattern = [] then DEFAULT_ACCOUNT_ID else pureAccountId (Some accountPattern))"

section \<open>Buckets by channel and account\<close>

record channel_bucket =
  cb_byAccount :: "(string, evaluated_binding list) jsmap"
  cb_byAnyAccount :: "evaluated_binding list"

type_synonym channel_map = "(string, channel_bucket) jsmap"

definition empty_bucket :: channel_bucket where
  "empty_bucket = \<lparr>cb_byAccount = [], cb_byAnyAccount = []\<rparr>"

definition add_to_bucket :: "evaluated_binding \<Rightarrow> channel_bucket \<Rightarrow> channel_bucket" where
  "add_to_bucket e bucket =
     (if nm_accountPattern (eb_match e) = ''*''
      then bucket\<lparr>cb_byAnyAccount := cb_byAnyAccount bucket @ [e]\<rparr>
      else let accountKey = resolveAccountPatternKey (nm_accountPattern (eb_match e)) in
        (case jm_get (cb_byAccount bucket) accountKey of
           Some existing \<Rightarrow> bucket\<lparr>cb_byAccount := jm_set accountKey (existing @ [e]) (cb_byAccount bucket)\<rparr>
         | None \<Rightarrow> bucket\<lparr>cb_byAccount := jm_set accountKey [e] (cb_byAccount bucket)\<rparr>))"

definition evaluate_step :: "channel_map \<times> nat \<Rightarrow> agent_binding \<Rightarrow> channel_map \<times> nat" where
  "evaluate_step st binding =
     (let (byChannel, ord) = st;
          channel = normalizeLowercaseStringOrEmpty (bm_channel (ab_match binding))
      in if channel = [] then st
         else let e = \<lparr>eb_binding = binding, eb_match = normalizeBindingMatch (ab_match binding), eb_order = ord\<rparr>;
                  bucket = js_nullish (jm_get byChannel channel) empty_bucket
              in (jm_set channel (add_to_bucket e bucket) byChannel, ord + 1))"

definition buildEvaluatedBindingsByChannel :: "route_config \<Rightarrow> channel_map" where
  "buildEvaluatedBindingsByChannel cfg = fst (foldl evaluate_step ([], 0) (listBindings cfg))"

fun mergeEvaluatedBindingsInSourceOrder ::
    "evaluated_binding list \<Rightarrow> evaluated_binding list \<Rightarrow> evaluated_binding list" where
  "mergeEvaluatedBindingsInSourceOrder [] anyAccount = anyAccount"
| "mergeEvaluatedBindingsInSourceOrder (a # as) [] = a # as"
| "mergeEvaluatedBindingsInSourceOrder (a # as) (b # bs) =
     (if eb_order a \<le> eb_order b then a # mergeEvaluatedBindingsInSourceOrder as (b # bs)
      else b # mergeEvaluatedBindingsInSourceOrder (a # as) bs)"

definition channelAccountBindings :: "channel_map \<Rightarrow> string \<Rightarrow> string \<Rightarrow> evaluated_binding list" where
  "channelAccountBindings byChannel channel accountId =
     (case jm_get byChannel channel of
        None \<Rightarrow> mergeEvaluatedBindingsInSourceOrder [] []
      | Some b \<Rightarrow> mergeEvaluatedBindingsInSourceOrder
          (js_nullish (jm_get (cb_byAccount b) accountId) []) (cb_byAnyAccount b))"

section \<open>The index\<close>

record bindings_index =
  ix_byPeer :: "(string, evaluated_binding list) jsmap"
  ix_byPeerWildcard :: "evaluated_binding list"
  ix_byGuildWithRoles :: "(string, evaluated_binding list) jsmap"
  ix_byGuild :: "(string, evaluated_binding list) jsmap"
  ix_byTeam :: "(string, evaluated_binding list) jsmap"
  ix_byAccount :: "evaluated_binding list"
  ix_byChannel :: "evaluated_binding list"

definition empty_index :: bindings_index where
  "empty_index = \<lparr>ix_byPeer = [], ix_byPeerWildcard = [], ix_byGuildWithRoles = [], ix_byGuild = [],
     ix_byTeam = [], ix_byAccount = [], ix_byChannel = []\<rparr>"

definition pushToIndexMap ::
    "(string, evaluated_binding list) jsmap \<Rightarrow> string \<Rightarrow> evaluated_binding \<Rightarrow> (string, evaluated_binding list) jsmap" where
  "pushToIndexMap m key e =
     (if key = [] then m
      else case jm_get m key of
          Some existing \<Rightarrow> jm_set key (existing @ [e]) m
        | None \<Rightarrow> jm_set key [e] m)"

definition peer_key :: "chat_type \<Rightarrow> string \<Rightarrow> string" where
  "peer_key kind i = chat_type_name kind @ CHR '':'' # i"

definition peerLookupKeys :: "chat_type \<Rightarrow> string \<Rightarrow> string list" where
  "peerLookupKeys kind i = (case kind of
       Group \<Rightarrow> [peer_key Group i, peer_key Channel i]
     | Channel \<Rightarrow> [peer_key Channel i, peer_key Group i]
     | Direct \<Rightarrow> [peer_key Direct i])"

definition index_add :: "bindings_index \<Rightarrow> evaluated_binding \<Rightarrow> bindings_index" where
  "index_add ix e =
     (let m = eb_match e in
      case nm_peer m of
        PeerValid kind i \<Rightarrow>
          ix\<lparr>ix_byPeer := foldl (\<lambda>bp key. pushToIndexMap bp key e) (ix_byPeer ix) (peerLookupKeys kind i)\<rparr>
      | PeerWildcardKind kind \<Rightarrow> ix\<lparr>ix_byPeerWildcard := ix_byPeerWildcard ix @ [e]\<rparr>
      | _ \<Rightarrow>
        (case (nm_guildId m, nm_roles m) of
           (Some g, Some _) \<Rightarrow> ix\<lparr>ix_byGuildWithRoles := pushToIndexMap (ix_byGuildWithRoles ix) g e\<rparr>
         | (Some g, None) \<Rightarrow> ix\<lparr>ix_byGuild := pushToIndexMap (ix_byGuild ix) g e\<rparr>
         | (None, _) \<Rightarrow>
           (case nm_teamId m of
              Some t \<Rightarrow> ix\<lparr>ix_byTeam := pushToIndexMap (ix_byTeam ix) t e\<rparr>
            | None \<Rightarrow>
                if nm_accountPattern m \<noteq> ''*'' then ix\<lparr>ix_byAccount := ix_byAccount ix @ [e]\<rparr>
                else ix\<lparr>ix_byChannel := ix_byChannel ix @ [e]\<rparr>)))"

definition buildEvaluatedBindingsIndex :: "evaluated_binding list \<Rightarrow> bindings_index" where
  "buildEvaluatedBindingsIndex bindings = foldl index_add empty_index bindings"

text \<open>\<open>seen\<close> holds binding objects; an object is identified by its \<open>order\<close>.\<close>

fun collect_unseen :: "nat list \<Rightarrow> evaluated_binding list \<Rightarrow> evaluated_binding list" where
  "collect_unseen seen [] = []"
| "collect_unseen seen (e # es) =
     (if eb_order e \<in> set seen then collect_unseen seen es
      else e # collect_unseen (eb_order e # seen) es)"

definition collectPeerIndexedBindings :: "bindings_index \<Rightarrow> route_peer option \<Rightarrow> evaluated_binding list" where
  "collectPeerIndexedBindings ix peer = (case peer of
       None \<Rightarrow> []
     | Some p \<Rightarrow> collect_unseen []
         (concat (map (\<lambda>key. js_nullish (jm_get (ix_byPeer ix) key) []) (peerLookupKeys (rp_kind p) (rp_id p)))))"

section \<open>Matching\<close>

record binding_scope =
  sc_peer :: "route_peer option"
  sc_guildId :: string
  sc_teamId :: string
  sc_memberRoleIds :: "string list"

definition peerKindMatches :: "chat_type \<Rightarrow> chat_type \<Rightarrow> bool" where
  "peerKindMatches bindingKind scopeKind \<longleftrightarrow> bindingKind = scopeKind \<or>
     (Group \<in> {bindingKind, scopeKind} \<and> Channel \<in> {bindingKind, scopeKind})"

definition peer_in_scope :: "peer_constraint \<Rightarrow> route_peer option \<Rightarrow> bool" where
  "peer_in_scope c peer = (case c of
       PeerInvalid \<Rightarrow> False
     | PeerNone \<Rightarrow> True
     | PeerValid kind i \<Rightarrow> (case peer of None \<Rightarrow> False
         | Some p \<Rightarrow> peerKindMatches kind (rp_kind p) \<and> rp_id p = i)
     | PeerWildcardKind kind \<Rightarrow> (case peer of None \<Rightarrow> False | Some p \<Rightarrow> peerKindMatches kind (rp_kind p)))"

definition matchesBindingScope :: "normalized_match \<Rightarrow> binding_scope \<Rightarrow> bool" where
  "matchesBindingScope m scope \<longleftrightarrow>
     peer_in_scope (nm_peer m) (sc_peer scope) \<and>
     (case nm_guildId m of Some g \<Rightarrow> g = sc_guildId scope | None \<Rightarrow> True) \<and>
     (case nm_teamId m of Some t \<Rightarrow> t = sc_teamId scope | None \<Rightarrow> True) \<and>
     (case nm_roles m of Some rs \<Rightarrow> list_ex (\<lambda>r. r \<in> set (sc_memberRoleIds scope)) rs | None \<Rightarrow> True)"

datatype matched_by =
    ByPeer | ByPeerParent | ByPeerWildcard | ByGuildRoles | ByGuild | ByTeam | ByAccount | ByChannel | ByDefault

record route_tier =
  ti_matchedBy :: matched_by
  ti_enabled :: bool
  ti_scopePeer :: "route_peer option"
  ti_candidates :: "evaluated_binding list"
  ti_predicate :: "evaluated_binding \<Rightarrow> bool"

section \<open>Resolving a route\<close>

record route_input =
  ri_channel :: string
  ri_accountId :: "string option"
  ri_peer :: "route_peer option"
  ri_parentPeer :: "route_peer option"
  ri_guildId :: "string option"
  ri_teamId :: "string option"
  ri_memberRoleIds :: "string list option"
  ri_verbose :: bool

datatype last_route_policy = PolicyMain | PolicySession

record agent_route =
  ar_agentId :: string
  ar_channel :: string
  ar_accountId :: string
  ar_sessionKey :: string
  ar_mainSessionKey :: string
  ar_lastRoutePolicy :: last_route_policy
  ar_matchedBy :: matched_by

definition deriveLastRoutePolicy :: "string \<Rightarrow> string \<Rightarrow> last_route_policy" where
  "deriveLastRoutePolicy sessionKey mainSessionKey =
     (if sessionKey = mainSessionKey then PolicyMain else PolicySession)"

definition resolveInboundLastRouteSessionKey :: "agent_route \<Rightarrow> string \<Rightarrow> string" where
  "resolveInboundLastRouteSessionKey route sessionKey =
     (if ar_lastRoutePolicy route = PolicyMain then ar_mainSessionKey route else sessionKey)"

definition buildAgentSessionKey ::
    "string \<Rightarrow> string \<Rightarrow> string option \<Rightarrow> route_peer option \<Rightarrow> dm_scope option
       \<Rightarrow> (string \<times> string list) list option \<Rightarrow> string" where
  "buildAgentSessionKey agentId channel accountId peer dmScope identityLinks =
     buildAgentPeerSessionKey
       \<lparr>kp_agentId = agentId, kp_mainKey = Some DEFAULT_MAIN_KEY,
        kp_channel = js_or (normalizeLowercaseStringOrEmpty (Some channel)) ''unknown'',
        kp_accountId = accountId,
        kp_peerKind = Some (case peer of Some p \<Rightarrow> rp_kind p | None \<Rightarrow> Direct),
        kp_peerId = (case peer of Some p \<Rightarrow> Some (js_or (normalizeId (Some (rp_id p))) ''unknown'') | None \<Rightarrow> None),
        kp_identityLinks = identityLinks, kp_dmScope = dmScope\<rparr>"

text \<open>The input after normalisation at the head of \<open>resolveAgentRoute\<close>.\<close>

record route_request =
  rq_channel :: string
  rq_accountId :: string
  rq_peer :: "route_peer option"
  rq_parentPeer :: "route_peer option"
  rq_guildId :: string
  rq_teamId :: string
  rq_memberRoleIds :: "string list"

definition normalizeRoutePeer :: "route_peer option \<Rightarrow> route_peer option" where
  "normalizeRoutePeer peer = map_option (\<lambda>p. \<lparr>rp_kind = js_nullish (normalizeChatType (Some (chat_type_name (rp_kind p)))) (rp_kind p),
     rp_id = normalizeId (Some (rp_id p))\<rparr>) peer"

definition normalizeRouteInput :: "route_input \<Rightarrow> route_request" where
  "normalizeRouteInput input =
     \<lparr>rq_channel = normalizeLowercaseStringOrEmpty (Some (ri_channel input)),
      rq_accountId = pureAccountId (ri_accountId input),
      rq_peer = normalizeRoutePeer (ri_peer input),
      rq_parentPeer = normalizeRoutePeer (ri_parentPeer input),
      rq_guildId = normalizeId (ri_guildId input),
      rq_teamId = normalizeId (ri_teamId input),
      rq_memberRoleIds = js_nullish (ri_memberRoleIds input) []\<rparr>"

definition parent_with_id :: "route_peer option \<Rightarrow> route_peer option" where
  "parent_with_id parent = (case parent of None \<Rightarrow> None | Some p \<Rightarrow> if rp_id p = [] then None else Some p)"

definition route_tiers :: "bindings_index \<Rightarrow> route_request \<Rightarrow> route_tier list" where
  "route_tiers ix rq =
     (let peer = rq_peer rq; parentPeer = rq_parentPeer rq; guildId = rq_guildId rq; teamId = rq_teamId rq in
      [\<lparr>ti_matchedBy = ByPeer, ti_enabled = (peer \<noteq> None), ti_scopePeer = peer,
        ti_candidates = collectPeerIndexedBindings ix peer,
        ti_predicate = (\<lambda>c. case nm_peer (eb_match c) of PeerValid _ _ \<Rightarrow> True | _ \<Rightarrow> False)\<rparr>,
       \<lparr>ti_matchedBy = ByPeerParent, ti_enabled = (parent_with_id parentPeer \<noteq> None),
        ti_scopePeer = parent_with_id parentPeer,
        ti_candidates = collectPeerIndexedBindings ix parentPeer,
        ti_predicate = (\<lambda>c. case nm_peer (eb_match c) of PeerValid _ _ \<Rightarrow> True | _ \<Rightarrow> False)\<rparr>,
       \<lparr>ti_matchedBy = ByPeerWildcard, ti_enabled = (peer \<noteq> None), ti_scopePeer = peer,
        ti_candidates = ix_byPeerWildcard ix,
        ti_predicate = (\<lambda>c. case nm_peer (eb_match c) of PeerWildcardKind _ \<Rightarrow> True | _ \<Rightarrow> False)\<rparr>,
       \<lparr>ti_matchedBy = ByGuildRoles, ti_enabled = (guildId \<noteq> [] \<and> rq_memberRoleIds rq \<noteq> []), ti_scopePeer = peer,
        ti_candidates = (if guildId = [] then [] else js_nullish (jm_get (ix_byGuildWithRoles ix) guildId) []),
        ti_predicate = (\<lambda>c. nm_guildId (eb_match c) \<noteq> None \<and> nm_roles (eb_match c) \<noteq> None)\<rparr>,
       \<lparr>ti_matchedBy = ByGuild, ti_enabled = (guildId \<noteq> []), ti_scopePeer = peer,
        ti_candidates = (if guildId = [] then [] else js_nullish (jm_get (ix_byGuild ix) guildId) []),
        ti_predicate = (\<lambda>c. nm_guildId (eb_match c) \<noteq> None \<and> nm_roles (eb_match c) = None)\<rparr>,
       \<lparr>ti_matchedBy = ByTeam, ti_enabled = (teamId \<noteq> []), ti_scopePeer = peer,
        ti_candidates = (if teamId = [] then [] else js_nullish (jm_get (ix_byTeam ix) teamId) []),
        ti_predicate = (\<lambda>c. nm_teamId (eb_match c) \<noteq> None)\<rparr>,
       \<lparr>ti_matchedBy = ByAccount, ti_enabled = True, ti_scopePeer = peer,
        ti_candidates = ix_byAccount ix,
        ti_predicate = (\<lambda>c. nm_accountPattern (eb_match c) \<noteq> ''*'')\<rparr>,
       \<lparr>ti_matchedBy = ByChannel, ti_enabled = True, ti_scopePeer = peer,
        ti_candidates = ix_byChannel ix,
        ti_predicate = (\<lambda>c. nm_accountPattern (eb_match c) = ''*'')\<rparr>])"

fun first_tier :: "route_request \<Rightarrow> route_tier list \<Rightarrow> (evaluated_binding \<times> matched_by) option" where
  "first_tier rq [] = None"
| "first_tier rq (tier # tiers) =
     (if \<not> ti_enabled tier then first_tier rq tiers
      else case find (\<lambda>c. ti_predicate tier c \<and> matchesBindingScope (eb_match c)
               \<lparr>sc_peer = ti_scopePeer tier, sc_guildId = rq_guildId rq, sc_teamId = rq_teamId rq,
                sc_memberRoleIds = rq_memberRoleIds rq\<rparr>) (ti_candidates tier) of
          Some matched \<Rightarrow> Some (matched, ti_matchedBy tier)
        | None \<Rightarrow> first_tier rq tiers)"

definition choose_route :: "route_config \<Rightarrow> agent_lookup \<Rightarrow> route_request \<Rightarrow> string \<Rightarrow> matched_by \<Rightarrow> agent_route" where
  "choose_route cfg lookup rq agentId matchedBy =
     (let dmScope = js_nullish (cf_dmScope cfg) ScopeMain;
          resolvedAgentId = lookupAgentId lookup agentId;
          sessionKey = normalizeLowercaseStringOrEmpty (Some (buildAgentSessionKey resolvedAgentId
            (rq_channel rq) (Some (rq_accountId rq)) (rq_peer rq) (Some dmScope) (cf_identityLinks cfg)));
          mainSessionKey = normalizeLowercaseStringOrEmpty
            (Some (buildAgentMainSessionKey resolvedAgentId (Some DEFAULT_MAIN_KEY)))
      in \<lparr>ar_agentId = resolvedAgentId, ar_channel = rq_channel rq, ar_accountId = rq_accountId rq,
          ar_sessionKey = sessionKey, ar_mainSessionKey = mainSessionKey,
          ar_lastRoutePolicy = deriveLastRoutePolicy sessionKey mainSessionKey,
          ar_matchedBy = matchedBy\<rparr>)"

definition route_with_index :: "route_config \<Rightarrow> agent_lookup \<Rightarrow> bindings_index \<Rightarrow> route_request \<Rightarrow> agent_route" where
  "route_with_index cfg lookup ix rq = (case first_tier rq (route_tiers ix rq) of
       Some (matched, matchedBy) \<Rightarrow> choose_route cfg lookup rq (ab_agentId (eb_binding matched)) matchedBy
     | None \<Rightarrow> choose_route cfg lookup rq (resolveDefaultAgentId cfg) ByDefault)"

section \<open>The caches of a configuration object\<close>

record eval_cache =
  ec_bindingsRef :: nat
  ec_byChannel :: channel_map
  ec_byChannelAccount :: "(string, evaluated_binding list) jsmap"
  ec_byChannelAccountIndex :: "(string, bindings_index) jsmap"

record route_cache =
  rc_bindingsRef :: nat
  rc_agentsRef :: nat
  rc_sessionRef :: nat
  rc_byKey :: "(string, agent_route) jsmap"

record route_state =
  rs_lookup :: "agent_lookup option"
  rs_eval :: "eval_cache option"
  rs_routes :: "route_cache option"

definition empty_route_state :: route_state where
  "empty_route_state = \<lparr>rs_lookup = None, rs_eval = None, rs_routes = None\<rparr>"

definition tab :: char where "tab = CHR 0x09"

definition resolveAgentLookupCache :: "route_state \<Rightarrow> route_config \<Rightarrow> agent_lookup \<times> route_state" where
  "resolveAgentLookupCache st cfg = (case rs_lookup st of
       Some existing \<Rightarrow> if al_agentsRef existing = cf_agentsRef cfg then (existing, st)
         else (buildAgentLookup cfg, st\<lparr>rs_lookup := Some (buildAgentLookup cfg)\<rparr>)
     | None \<Rightarrow> (buildAgentLookup cfg, st\<lparr>rs_lookup := Some (buildAgentLookup cfg)\<rparr>))"

definition pickFirstExistingAgentId :: "route_state \<Rightarrow> route_config \<Rightarrow> string \<Rightarrow> string \<times> route_state" where
  "pickFirstExistingAgentId st cfg agentId =
     (let (lookup, st1) = resolveAgentLookupCache st cfg in (lookupAgentId lookup agentId, st1))"

definition currentEvalCache :: "route_state \<Rightarrow> route_config \<Rightarrow> eval_cache" where
  "currentEvalCache st cfg =
     (let fresh = \<lparr>ec_bindingsRef = cf_bindingsRef cfg, ec_byChannel = buildEvaluatedBindingsByChannel cfg,
            ec_byChannelAccount = [], ec_byChannelAccountIndex = []\<rparr>
      in case rs_eval st of
           Some existing \<Rightarrow> if ec_bindingsRef existing = cf_bindingsRef cfg then existing else fresh
         | None \<Rightarrow> fresh)"

definition cacheChannelAccount :: "eval_cache \<Rightarrow> string \<Rightarrow> evaluated_binding list \<Rightarrow> eval_cache" where
  "cacheChannelAccount cache cacheKey evaluated =
     (let byCA = jm_set cacheKey evaluated (ec_byChannelAccount cache);
          byIx = jm_set cacheKey (buildEvaluatedBindingsIndex evaluated) (ec_byChannelAccountIndex cache)
      in if length byCA > 2000
         then cache\<lparr>ec_byChannelAccount := jm_set cacheKey evaluated [],
                    ec_byChannelAccountIndex := jm_set cacheKey (buildEvaluatedBindingsIndex evaluated) []\<rparr>
         else cache\<lparr>ec_byChannelAccount := byCA, ec_byChannelAccountIndex := byIx\<rparr>)"

definition getEvaluatedBindingsForChannelAccount ::
    "route_state \<Rightarrow> route_config \<Rightarrow> string \<Rightarrow> string \<Rightarrow> evaluated_binding list \<times> route_state" where
  "getEvaluatedBindingsForChannelAccount st cfg channel accountId =
     (let cache = currentEvalCache st cfg;
          cacheKey = channel @ tab # accountId
      in case jm_get (ec_byChannelAccount cache) cacheKey of
           Some hit \<Rightarrow> (hit, st\<lparr>rs_eval := Some cache\<rparr>)
         | None \<Rightarrow> (let evaluated = channelAccountBindings (ec_byChannel cache) channel accountId
                   in (evaluated, st\<lparr>rs_eval := Some (cacheChannelAccount cache cacheKey evaluated)\<rparr>)))"

definition getEvaluatedBindingIndexForChannelAccount ::
    "route_state \<Rightarrow> route_config \<Rightarrow> string \<Rightarrow> string \<Rightarrow> bindings_index \<times> route_state" where
  "getEvaluatedBindingIndexForChannelAccount st cfg channel accountId =
     (let (bindings, st1) = getEvaluatedBindingsForChannelAccount st cfg channel accountId;
          cacheKey = channel @ tab # accountId
      in case rs_eval st1 of
           None \<Rightarrow> (buildEvaluatedBindingsIndex bindings, st1)
         | Some cache \<Rightarrow> (case jm_get (ec_byChannelAccountIndex cache) cacheKey of
               Some indexed \<Rightarrow> (indexed, st1)
             | None \<Rightarrow> (let built = buildEvaluatedBindingsIndex bindings in
                 (built, st1\<lparr>rs_eval := Some (cache\<lparr>ec_byChannelAccountIndex :=
                    jm_set cacheKey built (ec_byChannelAccountIndex cache)\<rparr>)\<rparr>))))"

definition resolveRouteCacheForConfig :: "route_state \<Rightarrow> route_config \<Rightarrow> route_cache \<times> route_state" where
  "resolveRouteCacheForConfig st cfg =
     (let fresh = \<lparr>rc_bindingsRef = cf_bindingsRef cfg, rc_agentsRef = cf_agentsRef cfg,
            rc_sessionRef = cf_sessionRef cfg, rc_byKey = []\<rparr>
      in case rs_routes st of
           Some existing \<Rightarrow>
             if rc_bindingsRef existing = cf_bindingsRef cfg \<and> rc_agentsRef existing = cf_agentsRef cfg \<and>
                rc_sessionRef existing = cf_sessionRef cfg
             then (existing, st) else (fresh, st\<lparr>rs_routes := Some fresh\<rparr>)
         | None \<Rightarrow> (fresh, st\<lparr>rs_routes := Some fresh\<rparr>))"

definition formatRouteCachePeer :: "route_peer option \<Rightarrow> string" where
  "formatRouteCachePeer peer = (case peer of
       None \<Rightarrow> ''-''
     | Some p \<Rightarrow> if rp_id p = [] then ''-'' else chat_type_name (rp_kind p) @ CHR '':'' # rp_id p)"

fun join_comma :: "string list \<Rightarrow> string" where
  "join_comma [] = []"
| "join_comma [x] = x"
| "join_comma (x # y # ys) = x @ CHR '','' # join_comma (y # ys)"

text \<open>String order is by code unit; sorting one or two ids by hand gives the same list.\<close>

definition formatRoleIdsCacheKey :: "string list \<Rightarrow> string" where
  "formatRoleIdsCacheKey roleIds = (case roleIds of
       [] \<Rightarrow> ''-''
     | [r] \<Rightarrow> r
     | [first, second] \<Rightarrow> if first \<le> second then first @ CHR '','' # second else second @ CHR '','' # first
     | _ \<Rightarrow> join_comma (sort roleIds))"

definition dm_scope_name :: "dm_scope \<Rightarrow> string" where
  "dm_scope_name s = (case s of ScopeMain \<Rightarrow> ''main'' | ScopePerPeer \<Rightarrow> ''per-peer''
     | ScopePerChannelPeer \<Rightarrow> ''per-channel-peer'' | ScopePerAccountChannelPeer \<Rightarrow> ''per-account-channel-peer'')"

definition buildResolvedRouteCacheKey :: "route_request \<Rightarrow> dm_scope \<Rightarrow> string" where
  "buildResolvedRouteCacheKey rq dmScope =
     rq_channel rq @ tab # rq_accountId rq @ tab # formatRouteCachePeer (rq_peer rq) @ tab #
     formatRouteCachePeer (rq_parentPeer rq) @ tab # js_or (rq_guildId rq) ''-'' @ tab #
     js_or (rq_teamId rq) ''-'' @ tab # formatRoleIdsCacheKey (rq_memberRoleIds rq) @ tab # dm_scope_name dmScope"

definition storeRoute :: "route_cache \<Rightarrow> string \<Rightarrow> agent_route \<Rightarrow> route_cache" where
  "storeRoute cache key route =
     (let byKey = jm_set key route (rc_byKey cache)
      in cache\<lparr>rc_byKey := (if length byKey > 4000 then jm_set key route [] else byKey)\<rparr>)"

definition resolveAgentRoute :: "route_state \<Rightarrow> route_config \<times> route_input \<Rightarrow> agent_route \<times> route_state" where
  "resolveAgentRoute st arg =
     (let (cfg, input) = arg;
          rq = normalizeRouteInput input;
          useCache = (\<not> ri_verbose input \<and> cf_identityLinks cfg = None);
          (cache, st1) = (if useCache then map_prod Some id (resolveRouteCacheForConfig st cfg) else (None, st));
          key = buildResolvedRouteCacheKey rq (js_nullish (cf_dmScope cfg) ScopeMain)
      in case (case cache of None \<Rightarrow> None | Some c \<Rightarrow> jm_get (rc_byKey c) key) of
           Some cachedRoute \<Rightarrow> (cachedRoute, st1)
         | None \<Rightarrow>
             (let (_, st2) = getEvaluatedBindingsForChannelAccount st1 cfg (rq_channel rq) (rq_accountId rq);
                  (ix, st3) = getEvaluatedBindingIndexForChannelAccount st2 cfg (rq_channel rq) (rq_accountId rq);
                  (lookup, st4) = resolveAgentLookupCache st3 cfg;
                  route = route_with_index cfg lookup ix rq
              in (route, case cache of None \<Rightarrow> st4
                          | Some c \<Rightarrow> st4\<lparr>rs_routes := Some (storeRoute c key route)\<rparr>)))"


section \<open>The specification: search in source order\<close>

text \<open>The route bindings that name a channel, with their channel, in source order.\<close>

fun evaluate_from :: "nat \<Rightarrow> agent_binding list \<Rightarrow> (string \<times> evaluated_binding) list" where
  "evaluate_from n [] = []"
| "evaluate_from n (b # bs) =
     (let channel = normalizeLowercaseStringOrEmpty (bm_channel (ab_match b)) in
      if channel = [] then evaluate_from n bs
      else (channel, \<lparr>eb_binding = b, eb_match = normalizeBindingMatch (ab_match b), eb_order = n\<rparr>)
        # evaluate_from (n + 1) bs)"

definition any_account :: "evaluated_binding \<Rightarrow> bool" where
  "any_account e \<longleftrightarrow> nm_accountPattern (eb_match e) = ''*''"

definition for_account :: "string \<Rightarrow> evaluated_binding \<Rightarrow> bool" where
  "for_account acc e \<longleftrightarrow> \<not> any_account e \<and> resolveAccountPatternKey (nm_accountPattern (eb_match e)) = acc"

definition on_channel :: "route_config \<Rightarrow> string \<Rightarrow> evaluated_binding list" where
  "on_channel cfg ch = map snd (filter (\<lambda>p. fst p = ch) (evaluate_from 0 (listBindings cfg)))"

definition applicable :: "route_config \<Rightarrow> string \<Rightarrow> string \<Rightarrow> evaluated_binding list" where
  "applicable cfg ch acc = filter (\<lambda>e. for_account acc e \<or> any_account e) (on_channel cfg ch)"

text \<open>The tier a binding belongs to, from its own constraints.\<close>

definition binding_tier :: "normalized_match \<Rightarrow> matched_by" where
  "binding_tier m = (case nm_peer m of
       PeerValid _ _ \<Rightarrow> ByPeer
     | PeerWildcardKind _ \<Rightarrow> ByPeerWildcard
     | _ \<Rightarrow> if nm_guildId m \<noteq> None then (if nm_roles m \<noteq> None then ByGuildRoles else ByGuild)
           else if nm_teamId m \<noteq> None then ByTeam
           else if nm_accountPattern m \<noteq> ''*'' then ByAccount else ByChannel)"

definition request_scope :: "route_request \<Rightarrow> route_peer option \<Rightarrow> binding_scope" where
  "request_scope rq peer = \<lparr>sc_peer = peer, sc_guildId = rq_guildId rq, sc_teamId = rq_teamId rq,
     sc_memberRoleIds = rq_memberRoleIds rq\<rparr>"

definition spec_match :: "route_request \<Rightarrow> matched_by \<Rightarrow> evaluated_binding \<Rightarrow> bool" where
  "spec_match rq t e \<longleftrightarrow> (case t of
       ByDefault \<Rightarrow> False
     | ByPeerParent \<Rightarrow> binding_tier (eb_match e) = ByPeer \<and>
         matchesBindingScope (eb_match e) (request_scope rq (parent_with_id (rq_parentPeer rq)))
     | _ \<Rightarrow> binding_tier (eb_match e) = t \<and> matchesBindingScope (eb_match e) (request_scope rq (rq_peer rq)))"

definition tier_order :: "matched_by list" where
  "tier_order = [ByPeer, ByPeerParent, ByPeerWildcard, ByGuildRoles, ByGuild, ByTeam, ByAccount, ByChannel]"

fun spec_search :: "route_request \<Rightarrow> evaluated_binding list \<Rightarrow> matched_by list \<Rightarrow> (evaluated_binding \<times> matched_by) option" where
  "spec_search rq es [] = None"
| "spec_search rq es (t # ts) = (case find (spec_match rq t) es of
     Some e \<Rightarrow> Some (e, t) | None \<Rightarrow> spec_search rq es ts)"

definition spec_route :: "route_config \<Rightarrow> route_request \<Rightarrow> agent_route" where
  "spec_route cfg rq =
     (case spec_search rq (applicable cfg (rq_channel rq) (rq_accountId rq)) tier_order of
        Some (e, t) \<Rightarrow> choose_route cfg (buildAgentLookup cfg) rq (ab_agentId (eb_binding e)) t
      | None \<Rightarrow> choose_route cfg (buildAgentLookup cfg) rq (resolveDefaultAgentId cfg) ByDefault)"

section \<open>The buckets hold the bindings of their channel and account\<close>

definition bucket_any :: "channel_map \<Rightarrow> string \<Rightarrow> evaluated_binding list" where
  "bucket_any m ch = cb_byAnyAccount (js_nullish (jm_get m ch) empty_bucket)"

definition bucket_account :: "channel_map \<Rightarrow> string \<Rightarrow> string \<Rightarrow> evaluated_binding list" where
  "bucket_account m ch acc = js_nullish (jm_get (cb_byAccount (js_nullish (jm_get m ch) empty_bucket)) acc) []"

lemma add_to_bucket_any: "cb_byAnyAccount (add_to_bucket e b) = cb_byAnyAccount b @ (if any_account e then [e] else [])"
  by (simp add: add_to_bucket_def any_account_def Let_def split: option.split)

lemma add_to_bucket_account:
  "js_nullish (jm_get (cb_byAccount (add_to_bucket e b)) acc) [] =
   js_nullish (jm_get (cb_byAccount b) acc) [] @ (if for_account acc e then [e] else [])"
  by (auto simp: add_to_bucket_def any_account_def for_account_def Let_def split: option.split)

lemma buckets_foldl:
  "bucket_any (fst (foldl evaluate_step (m, n) bs)) ch =
     bucket_any m ch @ map snd (filter (\<lambda>p. fst p = ch \<and> any_account (snd p)) (evaluate_from n bs)) \<and>
   bucket_account (fst (foldl evaluate_step (m, n) bs)) ch acc =
     bucket_account m ch acc @ map snd (filter (\<lambda>p. fst p = ch \<and> for_account acc (snd p)) (evaluate_from n bs))"
proof (induction bs arbitrary: m n)
  case (Cons b bs)
  show ?case
  proof (cases "normalizeLowercaseStringOrEmpty (bm_channel (ab_match b)) = []")
    case True
    then show ?thesis using Cons.IH by (simp add: evaluate_step_def)
  next
    case False
    then show ?thesis
      using Cons.IH by (simp add: evaluate_step_def Let_def bucket_any_def bucket_account_def
          add_to_bucket_any add_to_bucket_account)
  qed
qed simp

lemma evaluate_from_order:
  "sorted_wrt (<) (map (eb_order \<circ> snd) (evaluate_from n bs)) \<and> (\<forall>p \<in> set (evaluate_from n bs). n \<le> eb_order (snd p))"
proof (induction bs arbitrary: n)
  case (Cons b bs)
  have "\<forall>p \<in> set (evaluate_from (Suc n) bs). n < eb_order (snd p)"
    using Cons.IH [of "Suc n"] by (auto simp: less_eq_Suc_le)
  with Cons.IH [of "Suc n"] Cons.IH [of n] show ?case
    by (auto simp: Let_def less_imp_le)
qed simp

lemma on_channel_sorted: "sorted_wrt (\<lambda>a b. eb_order a < eb_order b) (on_channel cfg ch)"
  using evaluate_from_order [of 0 "listBindings cfg"]
  by (auto simp: on_channel_def sorted_wrt_map intro!: sorted_wrt_filter)

lemma filter_hd_mem: "filter Q xs = q # qs \<Longrightarrow> q \<in> set xs"
  by (metis filter_is_subset list.set_intros(1) subsetD)

lemma merge_filters:
  assumes "sorted_wrt (\<lambda>a b. eb_order a < eb_order b) xs" "\<And>x. \<not> (P x \<and> Q x)"
  shows "mergeEvaluatedBindingsInSourceOrder (filter P xs) (filter Q xs) = filter (\<lambda>x. P x \<or> Q x) xs"
  using assms(1)
proof (induction xs)
  case (Cons x xs)
  then have IH: "mergeEvaluatedBindingsInSourceOrder (filter P xs) (filter Q xs) = filter (\<lambda>x. P x \<or> Q x) xs"
    and less: "\<forall>y \<in> set xs. eb_order x < eb_order y" by auto
  consider "P x" "\<not> Q x" | "Q x" "\<not> P x" | "\<not> P x" "\<not> Q x" using assms(2) by blast
  then show ?case
  proof cases
    case 1
    show ?thesis
    proof (cases "filter Q xs")
      case Nil
      with IH 1 show ?thesis
        by (cases "filter P xs") simp_all
    next
      case (Cons q qs)
      then have "q \<in> set xs" by (rule filter_hd_mem)
      with less Cons IH 1 show ?thesis by (auto simp: less_imp_le)
    qed
  next
    case 2
    show ?thesis
    proof (cases "filter P xs")
      case Nil
      with IH 2 show ?thesis by simp
    next
      case (Cons p ps)
      then have "p \<in> set xs" by (rule filter_hd_mem)
      with less Cons IH 2 show ?thesis by (auto simp: not_le)
    qed
  qed (use IH in simp)
qed simp

lemma channelAccountBindings_applicable:
  "channelAccountBindings (buildEvaluatedBindingsByChannel cfg) ch acc = applicable cfg ch acc"
proof -
  let ?m = "buildEvaluatedBindingsByChannel cfg"
  have "channelAccountBindings ?m ch acc =
      mergeEvaluatedBindingsInSourceOrder (bucket_account ?m ch acc) (bucket_any ?m ch)"
    by (simp add: channelAccountBindings_def bucket_account_def bucket_any_def empty_bucket_def split: option.split)
  moreover have "bucket_account ?m ch acc = filter (for_account acc) (on_channel cfg ch)"
    "bucket_any ?m ch = filter any_account (on_channel cfg ch)"
    using buckets_foldl [of "[]" 0 "listBindings cfg" ch acc]
    by (simp_all add: buildEvaluatedBindingsByChannel_def on_channel_def filter_map comp_def conj_commute
        bucket_any_def bucket_account_def empty_bucket_def)
  moreover have "mergeEvaluatedBindingsInSourceOrder (filter (for_account acc) (on_channel cfg ch))
      (filter any_account (on_channel cfg ch)) = applicable cfg ch acc"
    unfolding applicable_def by (rule merge_filters [OF on_channel_sorted]) (simp add: for_account_def)
  ultimately show ?thesis by simp
qed


section \<open>The index holds each binding in the bucket of its tier\<close>

abbreviation entries_at :: "(string, evaluated_binding list) jsmap \<Rightarrow> string \<Rightarrow> evaluated_binding list" where
  "entries_at m k \<equiv> js_nullish (jm_get m k) []"

lemma entries_push [simp]:
  "entries_at (pushToIndexMap m key e) k = entries_at m k @ (if k = key \<and> key \<noteq> [] then [e] else [])"
  by (auto simp: pushToIndexMap_def split: option.split)

lemma chat_type_name_colon [simp]: "CHR '':'' \<notin> set (chat_type_name k)"
  by (cases k) (simp_all add: chat_type_name_def)

lemma chat_type_name_inj [simp]: "chat_type_name k = chat_type_name k' \<longleftrightarrow> k = k'"
  by (cases k; cases k') (simp_all add: chat_type_name_def)

lemma peer_key_simps [simp]:
  "peer_key k i = peer_key k' i' \<longleftrightarrow> k = k' \<and> i = i'" "peer_key k i \<noteq> []"
  by (simp_all add: peer_key_def colon_free_eq)

lemma peerLookupKeys_mem:
  "peer_key k' i' \<in> set (peerLookupKeys k i) \<longleftrightarrow> i = i' \<and> peerKindMatches k k'"
  by (cases k; cases k') (auto simp: peerLookupKeys_def peerKindMatches_def)

definition valid_peer_at :: "string \<Rightarrow> evaluated_binding \<Rightarrow> bool" where
  "valid_peer_at key e \<longleftrightarrow> (case nm_peer (eb_match e) of
     PeerValid k i \<Rightarrow> key \<in> set (peerLookupKeys k i) | _ \<Rightarrow> False)"

lemma entries_push_peer:
  "entries_at (foldl (\<lambda>bp key. pushToIndexMap bp key e) m (peerLookupKeys k i)) key =
   entries_at m key @ (if key \<in> set (peerLookupKeys k i) then [e] else [])"
  by (cases k) (auto simp: peerLookupKeys_def)

text \<open>What a normalised binding satisfies: ids that are present are not empty.\<close>

definition normal_match :: "normalized_match \<Rightarrow> bool" where
  "normal_match m \<longleftrightarrow> nm_guildId m \<noteq> Some [] \<and> nm_teamId m \<noteq> Some []"

definition tier_at :: "matched_by \<Rightarrow> evaluated_binding \<Rightarrow> bool" where
  "tier_at t e \<longleftrightarrow> binding_tier (eb_match e) = t"

lemma index_add_fields:
  assumes "normal_match (eb_match e)"
  shows "entries_at (ix_byPeer (index_add ix e)) k = entries_at (ix_byPeer ix) k @ (if valid_peer_at k e then [e] else [])"
    and "ix_byPeerWildcard (index_add ix e) = ix_byPeerWildcard ix @ (if tier_at ByPeerWildcard e then [e] else [])"
    and "entries_at (ix_byGuildWithRoles (index_add ix e)) g = entries_at (ix_byGuildWithRoles ix) g @
      (if tier_at ByGuildRoles e \<and> nm_guildId (eb_match e) = Some g then [e] else [])"
    and "entries_at (ix_byGuild (index_add ix e)) g = entries_at (ix_byGuild ix) g @
      (if tier_at ByGuild e \<and> nm_guildId (eb_match e) = Some g then [e] else [])"
    and "entries_at (ix_byTeam (index_add ix e)) g = entries_at (ix_byTeam ix) g @
      (if tier_at ByTeam e \<and> nm_teamId (eb_match e) = Some g then [e] else [])"
    and "ix_byAccount (index_add ix e) = ix_byAccount ix @ (if tier_at ByAccount e then [e] else [])"
    and "ix_byChannel (index_add ix e) = ix_byChannel ix @ (if tier_at ByChannel e then [e] else [])"
  using assms
  by (auto simp: index_add_def Let_def tier_at_def binding_tier_def valid_peer_at_def entries_push_peer
      normal_match_def split: peer_constraint.split option.split)

lemma index_foldl:
  assumes "\<forall>e \<in> set es. normal_match (eb_match e)"
  shows "entries_at (ix_byPeer (foldl index_add ix es)) k = entries_at (ix_byPeer ix) k @ filter (valid_peer_at k) es \<and>
    ix_byPeerWildcard (foldl index_add ix es) = ix_byPeerWildcard ix @ filter (tier_at ByPeerWildcard) es \<and>
    entries_at (ix_byGuildWithRoles (foldl index_add ix es)) g = entries_at (ix_byGuildWithRoles ix) g @
      filter (\<lambda>e. tier_at ByGuildRoles e \<and> nm_guildId (eb_match e) = Some g) es \<and>
    entries_at (ix_byGuild (foldl index_add ix es)) g = entries_at (ix_byGuild ix) g @
      filter (\<lambda>e. tier_at ByGuild e \<and> nm_guildId (eb_match e) = Some g) es \<and>
    entries_at (ix_byTeam (foldl index_add ix es)) t = entries_at (ix_byTeam ix) t @
      filter (\<lambda>e. tier_at ByTeam e \<and> nm_teamId (eb_match e) = Some t) es \<and>
    ix_byAccount (foldl index_add ix es) = ix_byAccount ix @ filter (tier_at ByAccount) es \<and>
    ix_byChannel (foldl index_add ix es) = ix_byChannel ix @ filter (tier_at ByChannel) es"
  using assms
proof (induction es arbitrary: ix)
  case (Cons e es)
  then have "normal_match (eb_match e)" by simp
  note add = index_add_fields [OF this, of ix]
  show ?case
    using Cons.IH [of "index_add ix e"] Cons.prems by (simp add: add)
qed simp

lemma index_fields:
  assumes "\<forall>e \<in> set es. normal_match (eb_match e)"
  shows "entries_at (ix_byPeer (buildEvaluatedBindingsIndex es)) k = filter (valid_peer_at k) es"
    and "ix_byPeerWildcard (buildEvaluatedBindingsIndex es) = filter (tier_at ByPeerWildcard) es"
    and "entries_at (ix_byGuildWithRoles (buildEvaluatedBindingsIndex es)) g =
      filter (\<lambda>e. tier_at ByGuildRoles e \<and> nm_guildId (eb_match e) = Some g) es"
    and "entries_at (ix_byGuild (buildEvaluatedBindingsIndex es)) g =
      filter (\<lambda>e. tier_at ByGuild e \<and> nm_guildId (eb_match e) = Some g) es"
    and "entries_at (ix_byTeam (buildEvaluatedBindingsIndex es)) g =
      filter (\<lambda>e. tier_at ByTeam e \<and> nm_teamId (eb_match e) = Some g) es"
    and "ix_byAccount (buildEvaluatedBindingsIndex es) = filter (tier_at ByAccount) es"
    and "ix_byChannel (buildEvaluatedBindingsIndex es) = filter (tier_at ByChannel) es"
  using index_foldl [OF assms, of empty_index]
  by (simp_all add: buildEvaluatedBindingsIndex_def) (simp_all add: empty_index_def)

lemma collect_unseen_id:
  "distinct (map eb_order es) \<Longrightarrow> \<forall>e \<in> set es. eb_order e \<notin> set seen \<Longrightarrow>
   collect_unseen seen (es @ fs) = es @ collect_unseen (rev (map eb_order es) @ seen) fs"
proof (induction es arbitrary: seen)
  case (Cons a es)
  from Cons.prems have "\<forall>e \<in> set es. eb_order e \<notin> set (eb_order a # seen)"
    by (auto simp: image_iff)
  with Cons.IH [of "eb_order a # seen"] Cons.prems show ?case by simp
qed simp

lemma collect_unseen_seen: "\<forall>e \<in> set es. eb_order e \<in> set seen \<Longrightarrow> collect_unseen seen es = []"
  by (induction es) auto

lemma collect_unseen_twice: "distinct (map eb_order es) \<Longrightarrow> collect_unseen [] (es @ es) = es"
  "distinct (map eb_order es) \<Longrightarrow> collect_unseen [] es = es"
  using collect_unseen_id [of es "[]" es] collect_unseen_id [of es "[]" "[]"]
  by (simp_all add: collect_unseen_seen)

definition peer_candidate :: "route_peer \<Rightarrow> evaluated_binding \<Rightarrow> bool" where
  "peer_candidate p e \<longleftrightarrow> (case nm_peer (eb_match e) of
     PeerValid k i \<Rightarrow> i = rp_id p \<and> peerKindMatches k (rp_kind p) | _ \<Rightarrow> False)"

lemma distinct_map_filter': "distinct (map f xs) \<Longrightarrow> distinct (map f (filter P xs))"
  by (simp add: distinct_map_filter)

lemma collectPeer_candidates:
  assumes "\<forall>e \<in> set es. normal_match (eb_match e)" "distinct (map eb_order es)"
  shows "collectPeerIndexedBindings (buildEvaluatedBindingsIndex es) (Some p) = filter (peer_candidate p) es"
proof -
  have at: "filter (valid_peer_at (peer_key k (rp_id p))) es = filter (peer_candidate p) es"
    if "peerKindMatches k (rp_kind p)" for k
  proof -
    have "peerKindMatches k' k \<longleftrightarrow> peerKindMatches k' (rp_kind p)" for k'
      using that by (cases k; cases k'; cases "rp_kind p") (auto simp: peerKindMatches_def)
    then show ?thesis
      by (intro filter_cong) (auto simp: valid_peer_at_def peer_candidate_def peerLookupKeys_mem
          split: peer_constraint.split)
  qed
  have d: "distinct (map eb_order (filter (peer_candidate p) es))"
    by (rule distinct_map_filter' [OF assms(2)])
  show ?thesis
    by (cases "rp_kind p")
      (simp_all add: collectPeerIndexedBindings_def index_fields [OF assms(1)] peerLookupKeys_def at
        peerKindMatches_def collect_unseen_twice d)
qed

section \<open>The tiers\<close>

lemma find_filter: "find P (filter Q xs) = find (\<lambda>x. Q x \<and> P x) xs"
  by (induction xs) auto

definition tier_result :: "route_request \<Rightarrow> route_tier \<Rightarrow> evaluated_binding option" where
  "tier_result rq tier = (if ti_enabled tier then
     find (\<lambda>c. ti_predicate tier c \<and> matchesBindingScope (eb_match c) (request_scope rq (ti_scopePeer tier)))
       (ti_candidates tier) else None)"

lemma first_tier_spec:
  assumes "list_all2 (\<lambda>tier t. ti_matchedBy tier = t \<and> tier_result rq tier = find (spec_match rq t) es) tiers ts"
  shows "first_tier rq tiers = spec_search rq es ts"
  using assms
  by (induction rule: list_all2_induct)
    (auto simp: tier_result_def request_scope_def split: option.split if_splits)

lemma find_none: "\<forall>x \<in> set xs. \<not> P x \<Longrightarrow> find P xs = None"
  by (simp add: find_None_iff)

lemma peer_tier:
  assumes "\<forall>e \<in> set es. normal_match (eb_match e)" "distinct (map eb_order es)"
  shows "(case peer of None \<Rightarrow> None | Some p \<Rightarrow>
      find (\<lambda>c. (case nm_peer (eb_match c) of PeerValid _ _ \<Rightarrow> True | _ \<Rightarrow> False) \<and>
        matchesBindingScope (eb_match c) (request_scope rq peer))
      (collectPeerIndexedBindings (buildEvaluatedBindingsIndex es) (Some p))) =
    find (\<lambda>e. binding_tier (eb_match e) = ByPeer \<and> matchesBindingScope (eb_match e) (request_scope rq peer)) es"
proof (cases peer)
  case None
  have "\<not> (binding_tier m = ByPeer \<and> matchesBindingScope m (request_scope rq None))" for m
    by (cases "nm_peer m") (simp_all add: binding_tier_def matchesBindingScope_def request_scope_def peer_in_scope_def)
  then show ?thesis by (simp add: None find_none)
next
  case (Some p)
  have "(peer_candidate p e \<and> (case nm_peer (eb_match e) of PeerValid _ _ \<Rightarrow> True | _ \<Rightarrow> False) \<and>
      matchesBindingScope (eb_match e) (request_scope rq (Some p))) \<longleftrightarrow>
    binding_tier (eb_match e) = ByPeer \<and> matchesBindingScope (eb_match e) (request_scope rq (Some p))" for e
    by (cases "nm_peer (eb_match e)")
      (auto simp: peer_candidate_def binding_tier_def matchesBindingScope_def request_scope_def peer_in_scope_def)
  then show ?thesis by (simp add: Some collectPeer_candidates [OF assms] find_filter)
qed

lemma spec_match_peer_tiers:
  "t \<notin> {ByPeerParent, ByDefault} \<Longrightarrow> spec_match rq t e \<longleftrightarrow>
     tier_at t e \<and> matchesBindingScope (eb_match e) (request_scope rq (rq_peer rq))"
  by (cases t) (simp_all add: spec_match_def tier_at_def)

text \<open>A tier whose bucket is keyed by an id of the request: the key is implied by the match.\<close>

lemma keyed_tier:
  assumes "\<And>e. tier_at t e \<Longrightarrow> matchesBindingScope (eb_match e) (request_scope rq (rq_peer rq)) \<Longrightarrow>
      f (eb_match e) = Some k \<and> en \<and> pred e"
    and "\<And>e. e \<in> set es \<Longrightarrow> f (eb_match e) \<noteq> Some []"
    and "ents = filter (\<lambda>e. tier_at t e \<and> f (eb_match e) = Some k) es" "t \<notin> {ByPeerParent, ByDefault}"
  shows "tier_result rq \<lparr>ti_matchedBy = t, ti_enabled = (k \<noteq> [] \<and> en), ti_scopePeer = rq_peer rq,
      ti_candidates = (if k = [] then [] else ents), ti_predicate = pred\<rparr> = find (spec_match rq t) es"
proof (cases "k \<noteq> [] \<and> en")
  case True
  then show ?thesis
    using assms by (auto simp: tier_result_def find_filter spec_match_peer_tiers intro!: find_cong)
next
  case False
  have "\<not> spec_match rq t e" if "e \<in> set es" for e
    using assms(1) [of e] assms(2) [OF that] False assms(4) by (auto simp: spec_match_peer_tiers)
  with False show ?thesis by (auto simp: tier_result_def find_none)
qed

lemma plain_tier:
  assumes "\<And>e. tier_at t e \<Longrightarrow> matchesBindingScope (eb_match e) (request_scope rq (rq_peer rq)) \<Longrightarrow> en \<and> pred e"
    and "t \<notin> {ByPeerParent, ByDefault}"
  shows "tier_result rq \<lparr>ti_matchedBy = t, ti_enabled = en, ti_scopePeer = rq_peer rq,
      ti_candidates = filter (tier_at t) es, ti_predicate = pred\<rparr> = find (spec_match rq t) es"
proof (cases en)
  case True
  then show ?thesis
    using assms by (auto simp: tier_result_def find_filter spec_match_peer_tiers intro!: find_cong)
next
  case False
  have "\<not> spec_match rq t e" for e
    using assms(1) [of e] assms(2) False by (auto simp: spec_match_peer_tiers)
  with False show ?thesis by (simp add: tier_result_def find_none)
qed

lemma tier_at_simps:
  "tier_at ByPeerWildcard e \<Longrightarrow> \<exists>k. nm_peer (eb_match e) = PeerWildcardKind k"
  "tier_at ByGuildRoles e \<Longrightarrow> nm_guildId (eb_match e) \<noteq> None \<and> nm_roles (eb_match e) \<noteq> None"
  "tier_at ByGuild e \<Longrightarrow> nm_guildId (eb_match e) \<noteq> None \<and> nm_roles (eb_match e) = None"
  "tier_at ByTeam e \<Longrightarrow> nm_teamId (eb_match e) \<noteq> None"
  "tier_at ByAccount e \<Longrightarrow> nm_accountPattern (eb_match e) \<noteq> ''*''"
  "tier_at ByChannel e \<Longrightarrow> nm_accountPattern (eb_match e) = ''*''"
  by (auto simp: tier_at_def binding_tier_def split: peer_constraint.splits if_splits)

lemma matches_guild: "matchesBindingScope m (request_scope rq p) \<Longrightarrow> nm_guildId m \<noteq> None \<Longrightarrow>
    nm_guildId m = Some (rq_guildId rq)"
  by (auto simp: matchesBindingScope_def request_scope_def)

lemma matches_team: "matchesBindingScope m (request_scope rq p) \<Longrightarrow> nm_teamId m \<noteq> None \<Longrightarrow>
    nm_teamId m = Some (rq_teamId rq)"
  by (auto simp: matchesBindingScope_def request_scope_def)

lemma matches_roles: "matchesBindingScope m (request_scope rq p) \<Longrightarrow> nm_roles m \<noteq> None \<Longrightarrow>
    rq_memberRoleIds rq \<noteq> []"
  by (auto simp: matchesBindingScope_def request_scope_def list_ex_iff)

lemma matches_wildcard: "matchesBindingScope m (request_scope rq p) \<Longrightarrow> nm_peer m = PeerWildcardKind k \<Longrightarrow> p \<noteq> None"
  by (cases p) (simp_all add: matchesBindingScope_def request_scope_def peer_in_scope_def)

lemma tier_matches:
  assumes "matchesBindingScope (eb_match e) (request_scope rq p)"
  shows "tier_at ByPeerWildcard e \<Longrightarrow> p \<noteq> None \<and> (case nm_peer (eb_match e) of PeerWildcardKind _ \<Rightarrow> True | _ \<Rightarrow> False)"
    and "tier_at ByGuildRoles e \<Longrightarrow> nm_guildId (eb_match e) = Some (rq_guildId rq) \<and> rq_memberRoleIds rq \<noteq> [] \<and>
      nm_guildId (eb_match e) \<noteq> None \<and> nm_roles (eb_match e) \<noteq> None"
    and "tier_at ByGuild e \<Longrightarrow> nm_guildId (eb_match e) = Some (rq_guildId rq) \<and> True \<and>
      nm_guildId (eb_match e) \<noteq> None \<and> nm_roles (eb_match e) = None"
    and "tier_at ByTeam e \<Longrightarrow> nm_teamId (eb_match e) = Some (rq_teamId rq) \<and> True \<and> nm_teamId (eb_match e) \<noteq> None"
proof -
  note m = matches_guild [OF assms] matches_team [OF assms] matches_roles [OF assms] matches_wildcard [OF assms]
  show "tier_at ByPeerWildcard e \<Longrightarrow> p \<noteq> None \<and> (case nm_peer (eb_match e) of PeerWildcardKind _ \<Rightarrow> True | _ \<Rightarrow> False)"
    using tier_at_simps(1) [of e] m(4) by auto
  show "tier_at ByGuildRoles e \<Longrightarrow> nm_guildId (eb_match e) = Some (rq_guildId rq) \<and> rq_memberRoleIds rq \<noteq> [] \<and>
      nm_guildId (eb_match e) \<noteq> None \<and> nm_roles (eb_match e) \<noteq> None"
    using tier_at_simps(2) [of e] m(1,3) by simp
  show "tier_at ByGuild e \<Longrightarrow> nm_guildId (eb_match e) = Some (rq_guildId rq) \<and> True \<and>
      nm_guildId (eb_match e) \<noteq> None \<and> nm_roles (eb_match e) = None"
    using tier_at_simps(3) [of e] m(1) by simp
  show "tier_at ByTeam e \<Longrightarrow> nm_teamId (eb_match e) = Some (rq_teamId rq) \<and> True \<and> nm_teamId (eb_match e) \<noteq> None"
    using tier_at_simps(4) [of e] m(2) by simp
qed

lemma exact_peer_tiers:
  assumes "\<forall>e \<in> set es. normal_match (eb_match e)" "distinct (map eb_order es)"
    and "peer \<noteq> None \<Longrightarrow> peer0 = peer"
  shows "tier_result rq \<lparr>ti_matchedBy = t, ti_enabled = (peer \<noteq> None), ti_scopePeer = peer,
        ti_candidates = collectPeerIndexedBindings (buildEvaluatedBindingsIndex es) peer0,
        ti_predicate = (\<lambda>c. case nm_peer (eb_match c) of PeerValid _ _ \<Rightarrow> True | _ \<Rightarrow> False)\<rparr> =
    find (\<lambda>e. binding_tier (eb_match e) = ByPeer \<and> matchesBindingScope (eb_match e) (request_scope rq peer)) es"
  using assms(3) peer_tier [OF assms(1,2), where peer = peer and rq = rq] by (cases peer) (simp_all add: tier_result_def)

lemma route_tiers_spec:
  assumes "\<forall>e \<in> set es. normal_match (eb_match e)" "distinct (map eb_order es)"
  shows "first_tier rq (route_tiers (buildEvaluatedBindingsIndex es) rq) = spec_search rq es tier_order"
proof (rule first_tier_spec)
  note ix = index_fields [OF assms(1)]
  have normal: "nm_guildId (eb_match e) \<noteq> Some []" "nm_teamId (eb_match e) \<noteq> Some []" if "e \<in> set es" for e
    using assms(1) that by (auto simp: normal_match_def)
  have peer: "spec_match rq ByPeer =
      (\<lambda>e. binding_tier (eb_match e) = ByPeer \<and> matchesBindingScope (eb_match e) (request_scope rq (rq_peer rq)))"
    "spec_match rq ByPeerParent = (\<lambda>e. binding_tier (eb_match e) = ByPeer \<and>
         matchesBindingScope (eb_match e) (request_scope rq (parent_with_id (rq_parentPeer rq))))"
    by (simp_all add: spec_match_def fun_eq_iff)
  have parent: "parent_with_id p \<noteq> None \<Longrightarrow> p = parent_with_id p" for p
    by (auto simp: parent_with_id_def split: option.splits if_splits)
  have en: "P = (P \<and> True)" for P by simp
  show "list_all2 (\<lambda>tier t. ti_matchedBy tier = t \<and> tier_result rq tier = find (spec_match rq t) es)
      (route_tiers (buildEvaluatedBindingsIndex es) rq) tier_order"
    unfolding route_tiers_def tier_order_def Let_def list_all2_Cons list_all2_Nil ix
    apply (intro conjI)
    apply (simp_all only: route_tier.simps peer)
    apply (rule exact_peer_tiers [OF assms refl])
    apply (rule exact_peer_tiers [OF assms parent], assumption)
    apply (rule plain_tier, erule (1) tier_matches(1), simp)
    apply (rule keyed_tier [where f = nm_guildId], erule (1) tier_matches(2), erule normal, rule refl, simp)
    apply (subst en, rule keyed_tier [where f = nm_guildId], erule (1) tier_matches(3), erule normal, rule refl, simp)
    apply (subst en, rule keyed_tier [where f = nm_teamId], erule (1) tier_matches(4), erule normal, rule refl, simp)
    apply (rule plain_tier, simp add: tier_at_simps, simp)
    apply (rule plain_tier, simp add: tier_at_simps, simp)
    done
qed


lemma normal_evaluated: "p \<in> set (evaluate_from n bs) \<Longrightarrow> normal_match (eb_match (snd p))"
  by (induction bs arbitrary: n)
    (auto simp: Let_def normal_match_def normalizeBindingMatch_def non_empty_def split: if_splits)

lemma applicable_ok:
  "\<forall>e \<in> set (applicable cfg ch acc). normal_match (eb_match e)"
  "distinct (map eb_order (applicable cfg ch acc))"
proof -
  show "\<forall>e \<in> set (applicable cfg ch acc). normal_match (eb_match e)"
    using normal_evaluated by (fastforce simp: applicable_def on_channel_def)
  have "sorted_wrt (<) (map eb_order (on_channel cfg ch))"
    using on_channel_sorted by (simp add: sorted_wrt_map)
  then have "distinct (map eb_order (on_channel cfg ch))"
    by (simp add: strict_sorted_iff)
  then show "distinct (map eb_order (applicable cfg ch acc))"
    unfolding applicable_def by (rule distinct_map_filter')
qed

text \<open>The indexed search is the specification.\<close>

lemma route_with_index_spec:
  "route_with_index cfg (buildAgentLookup cfg)
     (buildEvaluatedBindingsIndex (applicable cfg (rq_channel rq) (rq_accountId rq))) rq = spec_route cfg rq"
  by (simp add: route_with_index_def spec_route_def route_tiers_spec [OF applicable_ok])

section \<open>Soundness of the caches\<close>

text \<open>
  \<open>hb\<close>, \<open>ha\<close> and \<open>hs\<close> give the contents of the configuration sub-objects: an object that
  a cache has seen is not mutated in place.
\<close>

definition config_ok ::
    "(nat \<Rightarrow> agent_binding list) \<Rightarrow> (nat \<Rightarrow> agent_entry list)
       \<Rightarrow> (nat \<Rightarrow> dm_scope option \<times> (string \<times> string list) list option) \<Rightarrow> route_config \<Rightarrow> bool" where
  "config_ok hb ha hs cfg \<longleftrightarrow> cf_bindings cfg = hb (cf_bindingsRef cfg) \<and> cf_agents cfg = ha (cf_agentsRef cfg) \<and>
     (cf_dmScope cfg, cf_identityLinks cfg) = hs (cf_sessionRef cfg)"

definition eval_cache_ok :: "(nat \<Rightarrow> agent_binding list) \<Rightarrow> eval_cache \<Rightarrow> bool" where
  "eval_cache_ok hb c \<longleftrightarrow>
     (\<forall>cfg. cf_bindings cfg = hb (ec_bindingsRef c) \<longrightarrow> ec_byChannel c = buildEvaluatedBindingsByChannel cfg) \<and>
     (\<forall>ch acc es. tab \<notin> set acc \<longrightarrow> jm_get (ec_byChannelAccount c) (ch @ tab # acc) = Some es \<longrightarrow>
        channelAccountBindings (ec_byChannel c) ch acc = es) \<and>
     (\<forall>ch acc ix. tab \<notin> set acc \<longrightarrow> jm_get (ec_byChannelAccountIndex c) (ch @ tab # acc) = Some ix \<longrightarrow>
        buildEvaluatedBindingsIndex (channelAccountBindings (ec_byChannel c) ch acc) = ix)"

lemma last_sep_eq:
  assumes "c \<notin> set a" "c \<notin> set b"
  shows "s @ c # a = t @ c # b \<longleftrightarrow> s = t \<and> a = b"
proof
  assume "s @ c # a = t @ c # b"
  then have "rev a @ c # rev s = rev b @ c # rev t" by (metis append_assoc append_Cons append_Nil rev.simps(2) rev_append)
  moreover have "takeWhile (\<lambda>x. x \<noteq> c) (rev a @ c # rev s) = rev a"
    "takeWhile (\<lambda>x. x \<noteq> c) (rev b @ c # rev t) = rev b"
    using assms by (subst takeWhile_append2; auto)+
  ultimately have "rev a = rev b" by metis
  with \<open>s @ c # a = t @ c # b\<close> show "s = t \<and> a = b" by simp
qed simp

lemma build_cong: "cf_bindings cfg = cf_bindings cfg' \<Longrightarrow>
    buildEvaluatedBindingsByChannel cfg = buildEvaluatedBindingsByChannel cfg'"
  by (simp add: buildEvaluatedBindingsByChannel_def listBindings_def listRouteBindings_def)

lemma currentEvalCache_ok:
  assumes "\<forall>c. rs_eval st = Some c \<longrightarrow> eval_cache_ok hb c" "config_ok hb ha hs cfg"
  shows "eval_cache_ok hb (currentEvalCache st cfg)"
    and "ec_byChannel (currentEvalCache st cfg) = buildEvaluatedBindingsByChannel cfg"
    and "ec_bindingsRef (currentEvalCache st cfg) = cf_bindingsRef cfg"
proof -
  show ok: "eval_cache_ok hb (currentEvalCache st cfg)"
    using assms build_cong by (auto simp: currentEvalCache_def Let_def eval_cache_ok_def config_ok_def split: option.split)
  show ref: "ec_bindingsRef (currentEvalCache st cfg) = cf_bindingsRef cfg"
    by (auto simp: currentEvalCache_def Let_def split: option.split)
  show "ec_byChannel (currentEvalCache st cfg) = buildEvaluatedBindingsByChannel cfg"
    using ok assms(2) ref by (simp add: eval_cache_ok_def config_ok_def)
qed

lemma cacheChannelAccount_ok:
  assumes "eval_cache_ok hb c" "tab \<notin> set acc" "es = channelAccountBindings (ec_byChannel c) ch acc"
  shows "eval_cache_ok hb (cacheChannelAccount c (ch @ tab # acc) es)"
  using assms by (auto simp: eval_cache_ok_def cacheChannelAccount_def Let_def last_sep_eq split: if_splits)

definition eval_state_ok :: "(nat \<Rightarrow> agent_binding list) \<Rightarrow> route_state \<Rightarrow> bool" where
  "eval_state_ok hb st \<longleftrightarrow> (\<forall>c. rs_eval st = Some c \<longrightarrow> eval_cache_ok hb c)"

lemma cacheChannelAccount_ref:
  "ec_bindingsRef (cacheChannelAccount c k es) = ec_bindingsRef c"
  "ec_byChannel (cacheChannelAccount c k es) = ec_byChannel c"
  by (simp_all add: cacheChannelAccount_def Let_def)

lemma getEvaluatedBindings_ok:
  assumes "eval_state_ok hb st" "config_ok hb ha hs cfg" "tab \<notin> set acc"
  obtains c where "getEvaluatedBindingsForChannelAccount st cfg ch acc = (applicable cfg ch acc, st\<lparr>rs_eval := Some c\<rparr>)"
    and "eval_cache_ok hb c" "ec_byChannel c = buildEvaluatedBindingsByChannel cfg"
    "ec_bindingsRef c = cf_bindingsRef cfg"
proof -
  let ?c = "currentEvalCache st cfg"
  note cur = currentEvalCache_ok [OF assms(1) [unfolded eval_state_ok_def] assms(2)]
  note app = channelAccountBindings_applicable [of cfg ch acc]
  show thesis
  proof (cases "jm_get (ec_byChannelAccount ?c) (ch @ tab # acc)")
    case None
    then have "getEvaluatedBindingsForChannelAccount st cfg ch acc =
        (applicable cfg ch acc, st\<lparr>rs_eval := Some (cacheChannelAccount ?c (ch @ tab # acc) (applicable cfg ch acc))\<rparr>)"
      by (simp add: getEvaluatedBindingsForChannelAccount_def Let_def cur app)
    then show thesis
      by (rule that) (use cur app in \<open>auto simp: cacheChannelAccount_ref intro!: cacheChannelAccount_ok assms(3)\<close>)
  next
    case (Some es)
    then have "es = applicable cfg ch acc"
      using cur app assms(3) unfolding eval_cache_ok_def by metis
    with Some have "getEvaluatedBindingsForChannelAccount st cfg ch acc = (applicable cfg ch acc, st\<lparr>rs_eval := Some ?c\<rparr>)"
      by (simp add: getEvaluatedBindingsForChannelAccount_def Let_def)
    then show thesis by (rule that) (rule cur)+
  qed
qed

lemma getEvaluatedBindingIndex_ok:
  assumes "eval_state_ok hb st" "config_ok hb ha hs cfg" "tab \<notin> set acc"
  obtains c where "getEvaluatedBindingIndexForChannelAccount st cfg ch acc =
      (buildEvaluatedBindingsIndex (applicable cfg ch acc), st\<lparr>rs_eval := Some c\<rparr>)"
    and "eval_cache_ok hb c"
proof -
  let ?ix = "buildEvaluatedBindingsIndex (applicable cfg ch acc)" and ?k = "ch @ tab # acc"
  obtain c where c: "getEvaluatedBindingsForChannelAccount st cfg ch acc = (applicable cfg ch acc, st\<lparr>rs_eval := Some c\<rparr>)"
    "eval_cache_ok hb c" "ec_byChannel c = buildEvaluatedBindingsByChannel cfg"
    by (rule getEvaluatedBindings_ok [OF assms])
  note app = channelAccountBindings_applicable [of cfg ch acc]
  show thesis
  proof (cases "jm_get (ec_byChannelAccountIndex c) ?k")
    case None
    let ?c = "c\<lparr>ec_byChannelAccountIndex := jm_set ?k ?ix (ec_byChannelAccountIndex c)\<rparr>"
    have "eval_cache_ok hb ?c"
      using c(2,3) assms(3) app by (auto simp: eval_cache_ok_def last_sep_eq)
    moreover have "getEvaluatedBindingIndexForChannelAccount st cfg ch acc = (?ix, st\<lparr>rs_eval := Some ?c\<rparr>)"
      using None c(1) by (simp add: getEvaluatedBindingIndexForChannelAccount_def Let_def)
    ultimately show thesis using that by blast
  next
    case (Some ix)
    then have "ix = ?ix" using c(2,3) app assms(3) unfolding eval_cache_ok_def by metis
    with Some c(1) have "getEvaluatedBindingIndexForChannelAccount st cfg ch acc = (?ix, st\<lparr>rs_eval := Some c\<rparr>)"
      by (simp add: getEvaluatedBindingIndexForChannelAccount_def Let_def)
    then show thesis using c(2) by (rule that)
  qed
qed


definition lookup_ok :: "(nat \<Rightarrow> agent_entry list) \<Rightarrow> route_state \<Rightarrow> bool" where
  "lookup_ok ha st \<longleftrightarrow> (\<forall>l cfg. rs_lookup st = Some l \<longrightarrow> cf_agentsRef cfg = al_agentsRef l \<longrightarrow>
     cf_agents cfg = ha (cf_agentsRef cfg) \<longrightarrow> buildAgentLookup cfg = l)"

lemma lookup_cong:
  "cf_agents cfg = cf_agents cfg' \<Longrightarrow> cf_agentsRef cfg = cf_agentsRef cfg' \<Longrightarrow> buildAgentLookup cfg = buildAgentLookup cfg'"
proof -
  assume eq: "cf_agents cfg = cf_agents cfg'" "cf_agentsRef cfg = cf_agentsRef cfg'"
  have "resolveDefaultAgentId cfg = resolveDefaultAgentId cfg'"
    unfolding resolveDefaultAgentId_def eq ..
  with eq show ?thesis by (simp add: buildAgentLookup_def)
qed

lemma resolveAgentLookupCache_ok:
  assumes "lookup_ok ha st" "config_ok hb ha hs cfg"
  obtains l where "resolveAgentLookupCache st cfg = (buildAgentLookup cfg, st\<lparr>rs_lookup := Some l\<rparr>)"
    and "lookup_ok ha (st\<lparr>rs_lookup := Some l\<rparr>)"
proof (cases "\<exists>l. rs_lookup st = Some l \<and> al_agentsRef l = cf_agentsRef cfg")
  case True
  then obtain l where l: "rs_lookup st = Some l" "al_agentsRef l = cf_agentsRef cfg" by blast
  then have "buildAgentLookup cfg = l"
    using assms by (simp add: lookup_ok_def config_ok_def)
  moreover have "st\<lparr>rs_lookup := Some l\<rparr> = st" using l by simp
  ultimately show thesis
    using l assms(1) by (intro that [of l]) (simp_all add: resolveAgentLookupCache_def, simp add: lookup_ok_def)
next
  case False
  have "lookup_ok ha (st\<lparr>rs_lookup := Some (buildAgentLookup cfg)\<rparr>)"
    using assms(2) lookup_cong
    by (simp add: lookup_ok_def config_ok_def) (simp add: buildAgentLookup_def)
  with False show thesis
    by (intro that [of "buildAgentLookup cfg"]) (auto simp: resolveAgentLookupCache_def split: option.split)
qed

section \<open>The route cache key\<close>

lemma sep_eq:
  assumes "c \<notin> set a" "c \<notin> set b"
  shows "a @ c # s = b @ c # t \<longleftrightarrow> a = b \<and> s = t"
proof
  assume eq: "a @ c # s = b @ c # t"
  have "takeWhile (\<lambda>x. x \<noteq> c) (a @ c # s) = a" "takeWhile (\<lambda>x. x \<noteq> c) (b @ c # t) = b"
    using assms by (subst takeWhile_append2; auto)+
  with eq show "a = b \<and> s = t" by (metis append_eq_append_conv list.inject)
qed simp

lemma join_comma_inj:
  "xs \<noteq> [] \<Longrightarrow> ys \<noteq> [] \<Longrightarrow> \<forall>x \<in> set xs \<union> set ys. CHR '','' \<notin> set x \<Longrightarrow>
   join_comma xs = join_comma ys \<Longrightarrow> xs = ys"
proof (induction xs arbitrary: ys rule: join_comma.induct)
  case (2 x)
  then show ?case by (cases ys rule: join_comma.cases) auto
next
  case (3 x y xs)
  then show ?case
  proof (cases ys rule: join_comma.cases)
    case (2 z)
    with 3 have "CHR '','' \<in> set z" by (metis in_set_conv_decomp join_comma.simps(2,3))
    with 3 2 show ?thesis by auto
  next
    case (3 z w zs)
    with "3.prems" have "x @ CHR '','' # join_comma (y # xs) = z @ CHR '','' # join_comma (w # zs)"
      and free: "CHR '','' \<notin> set x" "CHR '','' \<notin> set z" by auto
    then have "x = z" "join_comma (y # xs) = join_comma (w # zs)"
      unfolding sep_eq [OF free] by simp_all
    with "3.IH" [of "w # zs"] "3.prems" 3 show ?thesis by auto
  qed simp
qed simp

lemma formatRoleIds_sort:
  "formatRoleIdsCacheKey rs = (if rs = [] then ''-'' else join_comma (sort rs))"
  by (auto simp: formatRoleIdsCacheKey_def split: list.split)

text \<open>Requests whose ids cannot be confused by the key: no tab, no comma in a role id, and no id that is
  empty where it counts or a single dash.\<close>

definition clean_request :: "route_request \<Rightarrow> bool" where
  "clean_request rq \<longleftrightarrow> tab \<notin> set (rq_channel rq) \<and> tab \<notin> set (rq_accountId rq) \<and>
     (case rq_peer rq of None \<Rightarrow> True | Some p \<Rightarrow> rp_id p \<noteq> [] \<and> tab \<notin> set (rp_id p)) \<and>
     (case rq_parentPeer rq of None \<Rightarrow> True | Some p \<Rightarrow> tab \<notin> set (rp_id p)) \<and>
     tab \<notin> set (rq_guildId rq) \<and> rq_guildId rq \<noteq> ''-'' \<and> tab \<notin> set (rq_teamId rq) \<and> rq_teamId rq \<noteq> ''-'' \<and>
     (\<forall>r \<in> set (rq_memberRoleIds rq). tab \<notin> set r \<and> CHR '','' \<notin> set r \<and> r \<noteq> ''-'')"

definition same_request :: "route_request \<Rightarrow> route_request \<Rightarrow> bool" where
  "same_request a b \<longleftrightarrow> rq_channel a = rq_channel b \<and> rq_accountId a = rq_accountId b \<and>
     rq_peer a = rq_peer b \<and> parent_with_id (rq_parentPeer a) = parent_with_id (rq_parentPeer b) \<and>
     rq_guildId a = rq_guildId b \<and> rq_teamId a = rq_teamId b \<and>
     set (rq_memberRoleIds a) = set (rq_memberRoleIds b)"

lemma role_key_inj:
  assumes "\<forall>r \<in> set as. CHR '','' \<notin> set r \<and> r \<noteq> ''-''" "\<forall>r \<in> set bs. CHR '','' \<notin> set r \<and> r \<noteq> ''-''"
    and eq: "formatRoleIdsCacheKey as = formatRoleIdsCacheKey bs"
  shows "set as = set bs"
proof -
  have dash: "rs = []" if "formatRoleIdsCacheKey rs = ''-''" "\<forall>r \<in> set rs. CHR '','' \<notin> set r \<and> r \<noteq> ''-''" for rs
  proof (rule ccontr)
    assume "rs \<noteq> []"
    with that have "join_comma (sort rs) = join_comma [''-'']" by (simp add: formatRoleIds_sort)
    then have "sort rs = [''-'']"
      by (rule join_comma_inj [rotated 3]) (use that(2) \<open>rs \<noteq> []\<close> in \<open>auto simp flip: set_empty\<close>)
    then have "''-'' \<in> set rs" by (metis list.set_intros(1) set_sort)
    with that(2) show False by blast
  qed
  show ?thesis
  proof (cases "as = [] \<or> bs = []")
    case True
    have nil: "formatRoleIdsCacheKey [] = ''-''" by (simp add: formatRoleIds_sort)
    from True have "as = [] \<and> bs = []"
    proof
      assume "as = []"
      with eq nil have "formatRoleIdsCacheKey bs = ''-''" by simp
      from dash [OF this assms(2)] \<open>as = []\<close> show ?thesis by simp
    next
      assume "bs = []"
      with eq nil have "formatRoleIdsCacheKey as = ''-''" by simp
      from dash [OF this assms(1)] \<open>bs = []\<close> show ?thesis by simp
    qed
    then show ?thesis by simp
  next
    case False
    with eq have "join_comma (sort as) = join_comma (sort bs)" by (simp add: formatRoleIds_sort)
    then have "sort as = sort bs"
      by (rule join_comma_inj [rotated 3]) (use assms False in \<open>auto simp flip: set_empty\<close>)
    then show ?thesis by (metis set_sort)
  qed
qed

lemma join_comma_set: "set (join_comma xs) \<subseteq> insert (CHR '','') (\<Union> (set ` set xs))"
  by (induction xs rule: join_comma.induct) auto

lemma role_key_tab: "\<forall>r \<in> set rs. tab \<notin> set r \<Longrightarrow> tab \<notin> set (formatRoleIdsCacheKey rs)"
  using join_comma_set [of "sort rs"] by (auto simp: formatRoleIds_sort tab_def)

lemma peer_key_tab: "(case p of None \<Rightarrow> True | Some q \<Rightarrow> tab \<notin> set (rp_id q)) \<Longrightarrow> tab \<notin> set (formatRouteCachePeer p)"
proof -
  have "tab \<notin> set (chat_type_name k)" for k by (cases k) (simp_all add: chat_type_name_def tab_def)
  then show "?thesis" if "case p of None \<Rightarrow> True | Some q \<Rightarrow> tab \<notin> set (rp_id q)"
    using that by (auto simp: formatRouteCachePeer_def tab_def split: option.splits)
qed

lemma formatPeer_inj:
  "formatRouteCachePeer p = formatRouteCachePeer q \<longleftrightarrow> parent_with_id p = parent_with_id q"
proof -
  have form: "formatRouteCachePeer p = (case parent_with_id p of None \<Rightarrow> ''-''
      | Some r \<Rightarrow> chat_type_name (rp_kind r) @ CHR '':'' # rp_id r)" for p
    by (simp add: formatRouteCachePeer_def parent_with_id_def split: option.split)
  have "(case p of None \<Rightarrow> ''-'' | Some r \<Rightarrow> chat_type_name (rp_kind r) @ CHR '':'' # rp_id r) =
      (case q of None \<Rightarrow> ''-'' | Some r \<Rightarrow> chat_type_name (rp_kind r) @ CHR '':'' # rp_id r) \<longleftrightarrow> p = q" for p q :: "route_peer option"
    by (cases p; cases q) (auto simp: colon_free_eq append_eq_Cons_conv Cons_eq_append_conv)
  then show ?thesis unfolding form .
qed

lemma route_key_inj:
  assumes a: "clean_request a" and b: "clean_request b"
    and eq: "buildResolvedRouteCacheKey a s = buildResolvedRouteCacheKey b s'"
  shows "same_request a b"
proof -
  have or_tab: "tab \<notin> set (js_or x ''-'')" if "tab \<notin> set x" for x
    using that by (simp add: js_or_def tab_def)
  have or_eq: "js_or x ''-'' = js_or y ''-'' \<longleftrightarrow> x = y" if "x \<noteq> ''-''" "y \<noteq> ''-''" for x y
    using that by (auto simp: js_or_def)
  have tabs: "tab \<notin> set (rq_channel r)" "tab \<notin> set (rq_accountId r)"
    "tab \<notin> set (formatRouteCachePeer (rq_peer r))" "tab \<notin> set (formatRouteCachePeer (rq_parentPeer r))"
    "tab \<notin> set (js_or (rq_guildId r) ''-'')" "tab \<notin> set (js_or (rq_teamId r) ''-'')"
    "tab \<notin> set (formatRoleIdsCacheKey (rq_memberRoleIds r))" if "clean_request r" for r
    using that unfolding clean_request_def
    by (auto intro!: peer_key_tab role_key_tab or_tab split: option.splits)
  have fields: "rq_channel a = rq_channel b" "rq_accountId a = rq_accountId b"
    "parent_with_id (rq_peer a) = parent_with_id (rq_peer b)"
    "parent_with_id (rq_parentPeer a) = parent_with_id (rq_parentPeer b)"
    "js_or (rq_guildId a) ''-'' = js_or (rq_guildId b) ''-''" "js_or (rq_teamId a) ''-'' = js_or (rq_teamId b) ''-''"
    "formatRoleIdsCacheKey (rq_memberRoleIds a) = formatRoleIdsCacheKey (rq_memberRoleIds b)"
    using eq by (simp_all add: buildResolvedRouteCacheKey_def sep_eq tabs [OF a] tabs [OF b] formatPeer_inj)
  have peer: "parent_with_id (rq_peer r) = rq_peer r" if "clean_request r" for r
    using that by (cases "rq_peer r") (simp_all add: clean_request_def parent_with_id_def)
  have "rq_guildId a = rq_guildId b" "rq_teamId a = rq_teamId b"
    using fields(5,6) a b or_eq by (simp_all add: clean_request_def)
  moreover have "set (rq_memberRoleIds a) = set (rq_memberRoleIds b)"
    by (rule role_key_inj [OF _ _ fields(7)]) (use a b in \<open>auto simp: clean_request_def\<close>)
  ultimately show ?thesis
    using fields(1-4) peer [OF a] peer [OF b] by (simp add: same_request_def)
qed

lemma same_request_route:
  assumes "same_request a b"
  shows "spec_route cfg a = spec_route cfg b"
proof -
  have "matchesBindingScope m (request_scope a p) = matchesBindingScope m (request_scope b p)" for m p
    using assms by (simp add: same_request_def matchesBindingScope_def request_scope_def cong: option.case_cong)
  then have "spec_match a = spec_match b"
    using assms by (intro ext) (simp add: spec_match_def same_request_def split: matched_by.split)
  then have "spec_search a es ts = spec_search b es ts" for es ts
    by (induction ts) (simp_all split: option.split)
  moreover have "choose_route cfg l a i m = choose_route cfg l b i m" for l i m
    using assms by (simp add: choose_route_def same_request_def)
  ultimately show ?thesis
    using assms by (simp add: spec_route_def same_request_def split: option.split)
qed

section \<open>The memoised route\<close>

definition route_cache_ok ::
    "(nat \<Rightarrow> agent_binding list) \<Rightarrow> (nat \<Rightarrow> agent_entry list)
       \<Rightarrow> (nat \<Rightarrow> dm_scope option \<times> (string \<times> string list) list option) \<Rightarrow> route_cache \<Rightarrow> bool" where
  "route_cache_ok hb ha hs c \<longleftrightarrow> (\<forall>cfg rq r. config_ok hb ha hs cfg \<longrightarrow>
     rc_bindingsRef c = cf_bindingsRef cfg \<longrightarrow> rc_agentsRef c = cf_agentsRef cfg \<longrightarrow> rc_sessionRef c = cf_sessionRef cfg \<longrightarrow>
     clean_request rq \<longrightarrow>
     jm_get (rc_byKey c) (buildResolvedRouteCacheKey rq (js_nullish (cf_dmScope cfg) ScopeMain)) = Some r \<longrightarrow>
     spec_route cfg rq = r)"

definition route_state_ok ::
    "(nat \<Rightarrow> agent_binding list) \<Rightarrow> (nat \<Rightarrow> agent_entry list)
       \<Rightarrow> (nat \<Rightarrow> dm_scope option \<times> (string \<times> string list) list option) \<Rightarrow> route_state \<Rightarrow> bool" where
  "route_state_ok hb ha hs st \<longleftrightarrow> eval_state_ok hb st \<and> lookup_ok ha st \<and>
     (\<forall>c. rs_routes st = Some c \<longrightarrow> route_cache_ok hb ha hs c)"

definition route_arg_ok ::
    "(nat \<Rightarrow> agent_binding list) \<Rightarrow> (nat \<Rightarrow> agent_entry list)
       \<Rightarrow> (nat \<Rightarrow> dm_scope option \<times> (string \<times> string list) list option)
       \<Rightarrow> route_config \<times> route_input \<Rightarrow> bool" where
  "route_arg_ok hb ha hs arg \<longleftrightarrow> config_ok hb ha hs (fst arg) \<and> clean_request (normalizeRouteInput (snd arg))"

lemma resolveRouteCache_ok:
  assumes "\<forall>c. rs_routes st = Some c \<longrightarrow> route_cache_ok hb ha hs c"
  obtains c where "resolveRouteCacheForConfig st cfg = (c, st\<lparr>rs_routes := Some c\<rparr>)"
    and "route_cache_ok hb ha hs c"
    and "rc_bindingsRef c = cf_bindingsRef cfg" "rc_agentsRef c = cf_agentsRef cfg" "rc_sessionRef c = cf_sessionRef cfg"
proof (cases "\<exists>c. rs_routes st = Some c \<and> rc_bindingsRef c = cf_bindingsRef cfg \<and>
    rc_agentsRef c = cf_agentsRef cfg \<and> rc_sessionRef c = cf_sessionRef cfg")
  case True
  then obtain c where c: "rs_routes st = Some c" "rc_bindingsRef c = cf_bindingsRef cfg"
    "rc_agentsRef c = cf_agentsRef cfg" "rc_sessionRef c = cf_sessionRef cfg" by blast
  then have "st\<lparr>rs_routes := Some c\<rparr> = st" by simp
  with c assms show thesis by (intro that [of c]) (simp_all add: resolveRouteCacheForConfig_def)
next
  case False
  let ?c = "\<lparr>rc_bindingsRef = cf_bindingsRef cfg, rc_agentsRef = cf_agentsRef cfg,
      rc_sessionRef = cf_sessionRef cfg, rc_byKey = []\<rparr>"
  have "resolveRouteCacheForConfig st cfg = (?c, st\<lparr>rs_routes := Some ?c\<rparr>)"
    using False by (auto simp: resolveRouteCacheForConfig_def Let_def split: option.split)
  then show thesis by (rule that) (simp_all add: route_cache_ok_def)
qed

lemma config_eq:
  "config_ok hb ha hs cfg \<Longrightarrow> config_ok hb ha hs cfg' \<Longrightarrow> cf_bindingsRef cfg = cf_bindingsRef cfg' \<Longrightarrow>
   cf_agentsRef cfg = cf_agentsRef cfg' \<Longrightarrow> cf_sessionRef cfg = cf_sessionRef cfg' \<Longrightarrow>
   (cfg :: route_config) = cfg'"
  by (cases cfg; cases cfg') (simp add: config_ok_def prod_eq_iff)

lemma storeRoute_ok:
  assumes ok: "route_cache_ok hb ha hs c" and cfg: "config_ok hb ha hs cfg"
    and refs: "rc_bindingsRef c = cf_bindingsRef cfg" "rc_agentsRef c = cf_agentsRef cfg" "rc_sessionRef c = cf_sessionRef cfg"
    and rq: "clean_request rq" and key: "key = buildResolvedRouteCacheKey rq (js_nullish (cf_dmScope cfg) ScopeMain)"
  shows "route_cache_ok hb ha hs (storeRoute c key (spec_route cfg rq))"
proof -
  let ?c = "storeRoute c key (spec_route cfg rq)"
  have refs': "rc_bindingsRef ?c = rc_bindingsRef c" "rc_agentsRef ?c = rc_agentsRef c" "rc_sessionRef ?c = rc_sessionRef c"
    by (simp_all add: storeRoute_def Let_def)
  have get: "jm_get (rc_byKey ?c) k = Some r \<Longrightarrow> k = key \<and> r = spec_route cfg rq \<or> jm_get (rc_byKey c) k = Some r" for k r
    by (auto simp: storeRoute_def Let_def split: if_splits)
  show ?thesis
    unfolding route_cache_ok_def
  proof (intro allI impI)
    fix cfg' :: route_config and rq' :: route_request and r
    let ?k = "buildResolvedRouteCacheKey rq' (js_nullish (cf_dmScope cfg') ScopeMain)"
    assume cfg': "config_ok hb ha hs cfg'" and r: "rc_bindingsRef ?c = cf_bindingsRef cfg'"
      "rc_agentsRef ?c = cf_agentsRef cfg'" "rc_sessionRef ?c = cf_sessionRef cfg'"
      and rq': "clean_request rq'" and hit: "jm_get (rc_byKey ?c) ?k = Some r"
    have "cf_bindingsRef cfg' = cf_bindingsRef cfg" "cf_agentsRef cfg' = cf_agentsRef cfg"
      "cf_sessionRef cfg' = cf_sessionRef cfg"
      by (rule trans [OF r(1) [symmetric] trans [OF refs'(1) refs(1)]]
          trans [OF r(2) [symmetric] trans [OF refs'(2) refs(2)]]
          trans [OF r(3) [symmetric] trans [OF refs'(3) refs(3)]])+
    then have eq: "cfg' = cfg" by (rule config_eq [OF cfg' cfg])
    from get [OF hit] show "spec_route cfg' rq' = r"
    proof
      assume *: "?k = key \<and> r = spec_route cfg rq"
      then have "?k = buildResolvedRouteCacheKey rq (js_nullish (cf_dmScope cfg) ScopeMain)" using key by simp
      then have "same_request rq' rq" by (rule route_key_inj [OF rq' rq])
      from same_request_route [OF this] * eq show ?thesis by simp
    next
      assume "jm_get (rc_byKey c) ?k = Some r"
      with ok cfg' r rq' show ?thesis unfolding route_cache_ok_def refs' by blast
    qed
  qed
qed

text \<open>The uncached part of \<open>resolveAgentRoute\<close>, run in a sound state.\<close>

lemma route_miss_ok:
  assumes "eval_state_ok hb st" "lookup_ok ha st" "config_ok hb ha hs cfg" "tab \<notin> set (rq_accountId rq)"
    and "getEvaluatedBindingsForChannelAccount st cfg (rq_channel rq) (rq_accountId rq) = (es, st2)"
    and "getEvaluatedBindingIndexForChannelAccount st2 cfg (rq_channel rq) (rq_accountId rq) = (ix, st3)"
    and "resolveAgentLookupCache st3 cfg = (l, st4)"
  shows "route_with_index cfg l ix rq = spec_route cfg rq \<and> eval_state_ok hb st4 \<and> lookup_ok ha st4 \<and>
    rs_routes st4 = rs_routes st"
proof -
  obtain c where c: "st2 = st\<lparr>rs_eval := Some c\<rparr>" "eval_cache_ok hb c"
    by (rule getEvaluatedBindings_ok [OF assms(1,3,4), of "rq_channel rq"]) (use assms(5) in simp)
  then have st2: "eval_state_ok hb st2" "lookup_ok ha st2"
    using assms(2) by (simp_all add: eval_state_ok_def lookup_ok_def)
  obtain c' where c': "ix = buildEvaluatedBindingsIndex (applicable cfg (rq_channel rq) (rq_accountId rq))"
    "st3 = st2\<lparr>rs_eval := Some c'\<rparr>" "eval_cache_ok hb c'"
    by (rule getEvaluatedBindingIndex_ok [OF st2(1) assms(3,4), of "rq_channel rq"]) (use assms(6) in simp)
  then have st3: "eval_state_ok hb st3" "lookup_ok ha st3"
    using st2 by (simp_all add: eval_state_ok_def lookup_ok_def)
  obtain l' where l': "l = buildAgentLookup cfg" "st4 = st3\<lparr>rs_lookup := Some l'\<rparr>" "lookup_ok ha st4"
    by (rule resolveAgentLookupCache_ok [OF st3(2) assms(3)]) (use assms(7) in simp)
  then have "eval_state_ok hb st4" "rs_routes st4 = rs_routes st"
    using st3 c(1) c'(2) by (simp_all add: eval_state_ok_def)
  with l' c'(1) route_with_index_spec show ?thesis by simp
qed


lemma account_tab: "tab \<notin> set (pureAccountId v)"
proof -
  have "js_ws tab" by (simp add: js_ws_def tab_def)
  then show ?thesis
    using id_wordD(4) [of "pureAccountId v"] pureAccountId_word by auto
qed

lemma resolveAgentRoute_memo:
  assumes st: "route_state_ok hb ha hs st" and arg: "route_arg_ok hb ha hs arg"
  shows "fst (resolveAgentRoute st arg) = spec_route (fst arg) (normalizeRouteInput (snd arg)) \<and>
    route_state_ok hb ha hs (snd (resolveAgentRoute st arg))"
proof -
  obtain cfg input where a: "arg = (cfg, input)" by (cases arg)
  let ?rq = "normalizeRouteInput input"
  let ?key = "buildResolvedRouteCacheKey ?rq (js_nullish (cf_dmScope cfg) ScopeMain)"
  have cfg: "config_ok hb ha hs cfg" and rq: "clean_request ?rq"
    using arg a by (simp_all add: route_arg_ok_def)
  have acc: "tab \<notin> set (rq_accountId ?rq)" by (simp add: normalizeRouteInput_def account_tab)
  have ok: "eval_state_ok hb st" "lookup_ok ha st" "\<forall>c. rs_routes st = Some c \<longrightarrow> route_cache_ok hb ha hs c"
    using st by (simp_all add: route_state_ok_def)
  show ?thesis
  proof (cases "\<not> ri_verbose input \<and> cf_identityLinks cfg = None")
    case False
    obtain es st2 where g: "getEvaluatedBindingsForChannelAccount st cfg (rq_channel ?rq) (rq_accountId ?rq) = (es, st2)" by fastforce
    obtain ix st3 where i: "getEvaluatedBindingIndexForChannelAccount st2 cfg (rq_channel ?rq) (rq_accountId ?rq) = (ix, st3)" by fastforce
    obtain l st4 where l: "resolveAgentLookupCache st3 cfg = (l, st4)" by fastforce
    have "resolveAgentRoute st arg = (route_with_index cfg l ix ?rq, st4)"
      using False g i l by (auto simp: resolveAgentRoute_def a Let_def)
    with route_miss_ok [OF ok(1,2) cfg acc g i l] ok(3) a show ?thesis
      by (simp add: route_state_ok_def)
  next
    case True
    obtain c where c: "resolveRouteCacheForConfig st cfg = (c, st\<lparr>rs_routes := Some c\<rparr>)" "route_cache_ok hb ha hs c"
      "rc_bindingsRef c = cf_bindingsRef cfg" "rc_agentsRef c = cf_agentsRef cfg" "rc_sessionRef c = cf_sessionRef cfg"
      by (rule resolveRouteCache_ok [OF ok(3), of cfg])
    let ?st1 = "st\<lparr>rs_routes := Some c\<rparr>"
    have st1: "eval_state_ok hb ?st1" "lookup_ok ha ?st1" "route_state_ok hb ha hs ?st1"
      using ok c(2) by (simp_all add: eval_state_ok_def lookup_ok_def route_state_ok_def)
    show ?thesis
    proof (cases "jm_get (rc_byKey c) ?key")
      case (Some r)
      then have "spec_route cfg ?rq = r"
        using c(2-5) cfg rq unfolding route_cache_ok_def by blast
      moreover have "resolveAgentRoute st arg = (r, ?st1)"
        using True c(1) Some by (simp add: resolveAgentRoute_def a Let_def)
      ultimately show ?thesis using st1(3) a by simp
    next
      case None
      obtain es st2 where g: "getEvaluatedBindingsForChannelAccount ?st1 cfg (rq_channel ?rq) (rq_accountId ?rq) = (es, st2)" by fastforce
      obtain ix st3 where i: "getEvaluatedBindingIndexForChannelAccount st2 cfg (rq_channel ?rq) (rq_accountId ?rq) = (ix, st3)" by fastforce
      obtain l st4 where l: "resolveAgentLookupCache st3 cfg = (l, st4)" by fastforce
      note miss = route_miss_ok [OF st1(1,2) cfg acc g i l]
      have "resolveAgentRoute st arg = (spec_route cfg ?rq,
          st4\<lparr>rs_routes := Some (storeRoute c ?key (spec_route cfg ?rq))\<rparr>)"
        using True c(1) None g i l miss by (simp add: resolveAgentRoute_def a Let_def)
      moreover have "route_cache_ok hb ha hs (storeRoute c ?key (spec_route cfg ?rq))"
        by (rule storeRoute_ok [OF c(2) cfg c(3-5) rq refl])
      ultimately show ?thesis
        using miss a by (simp add: route_state_ok_def eval_state_ok_def lookup_ok_def)
    qed
  qed
qed

lemma empty_route_state_ok: "route_state_ok hb ha hs empty_route_state"
  by (simp add: route_state_ok_def empty_route_state_def eval_state_ok_def lookup_ok_def)

interpretation route_memo: memoised "route_arg_ok hb ha hs"
  "\<lambda>arg. spec_route (fst arg) (normalizeRouteInput (snd arg))"
  resolveAgentRoute empty_route_state "route_state_ok hb ha hs" for hb ha hs
  by (rule memoised.intro) (simp_all add: empty_route_state_ok resolveAgentRoute_memo)


section \<open>Facts about the resolved route\<close>

definition tier_rank :: "matched_by \<Rightarrow> nat" where
  "tier_rank t = (case t of ByPeer \<Rightarrow> 0 | ByPeerParent \<Rightarrow> 1 | ByPeerWildcard \<Rightarrow> 2 | ByGuildRoles \<Rightarrow> 3
     | ByGuild \<Rightarrow> 4 | ByTeam \<Rightarrow> 5 | ByAccount \<Rightarrow> 6 | ByChannel \<Rightarrow> 7 | ByDefault \<Rightarrow> 8)"

lemma spec_search_first:
  assumes "sorted_wrt (\<lambda>a b. tier_rank a < tier_rank b) ts"
  shows "case spec_search rq es ts of
      Some (e, t) \<Rightarrow> e \<in> set es \<and> t \<in> set ts \<and> spec_match rq t e \<and>
        (\<forall>e' \<in> set es. \<forall>t' \<in> set ts. spec_match rq t' e' \<longrightarrow> tier_rank t \<le> tier_rank t')
    | None \<Rightarrow> \<forall>e' \<in> set es. \<forall>t' \<in> set ts. \<not> spec_match rq t' e'"
  using assms
proof (induction ts)
  case (Cons t ts)
  show ?case
  proof (cases "find (spec_match rq t) es")
    case None
    then have "\<forall>e' \<in> set es. \<not> spec_match rq t e'" by (simp add: find_None_iff)
    with None Cons show ?thesis by (auto split: option.splits)
  next
    case (Some e)
    then have "e \<in> set es" "spec_match rq t e" by (auto simp: find_Some_iff)
    with Some Cons.prems show ?thesis by (auto simp: less_imp_le)
  qed
qed simp

lemma tier_order_sorted: "sorted_wrt (\<lambda>a b. tier_rank a < tier_rank b) tier_order"
  by (simp add: tier_order_def tier_rank_def)

lemma spec_route_fields:
  "ar_matchedBy (choose_route cfg l rq a t) = t"
  "ar_agentId (choose_route cfg l rq a t) = lookupAgentId l a"
  "ar_sessionKey (choose_route cfg l rq a t) = normalizeLowercaseStringOrEmpty (Some (buildAgentSessionKey
     (lookupAgentId l a) (rq_channel rq) (Some (rq_accountId rq)) (rq_peer rq)
     (Some (js_nullish (cf_dmScope cfg) ScopeMain)) (cf_identityLinks cfg)))"
  by (simp_all add: choose_route_def Let_def)

lemma spec_route_cases:
  obtains a t where "spec_route cfg rq = choose_route cfg (buildAgentLookup cfg) rq a t"
  by (cases "spec_search rq (applicable cfg (rq_channel rq) (rq_accountId rq)) tier_order")
    (auto simp: spec_route_def)

text \<open>In the empty state no cache can be hit, so nothing is asked of the request.\<close>

lemma resolveAgentRoute_fresh:
  "fst (resolveAgentRoute empty_route_state (cfg, input)) = spec_route cfg (normalizeRouteInput input)"
proof -
  let ?rq = "normalizeRouteInput input"
  define hb where "hb = (\<lambda>_::nat. cf_bindings cfg)"
  define ha where "ha = (\<lambda>_::nat. cf_agents cfg)"
  define hs where "hs = (\<lambda>_::nat. (cf_dmScope cfg, cf_identityLinks cfg))"
  have cfg: "config_ok hb ha hs cfg" by (simp add: config_ok_def hb_def ha_def hs_def)
  have acc: "tab \<notin> set (rq_accountId ?rq)" by (simp add: normalizeRouteInput_def account_tab)
  let ?useCache = "\<not> ri_verbose input \<and> cf_identityLinks cfg = None"
  obtain c st1 where r: "(if ?useCache then map_prod Some id (resolveRouteCacheForConfig empty_route_state cfg)
      else (None, empty_route_state)) = (c, st1)" by fastforce
  then have st1: "eval_state_ok hb st1" "lookup_ok ha st1" "\<And>x. c = Some x \<Longrightarrow> rc_byKey x = []"
    by (auto simp: resolveRouteCacheForConfig_def empty_route_state_def eval_state_ok_def lookup_ok_def
        Let_def split: if_splits)
  obtain es st2 where g: "getEvaluatedBindingsForChannelAccount st1 cfg (rq_channel ?rq) (rq_accountId ?rq) = (es, st2)" by fastforce
  obtain ix st3 where i: "getEvaluatedBindingIndexForChannelAccount st2 cfg (rq_channel ?rq) (rq_accountId ?rq) = (ix, st3)" by fastforce
  obtain l st4 where l: "resolveAgentLookupCache st3 cfg = (l, st4)" by fastforce
  have "(case c of None \<Rightarrow> None | Some x \<Rightarrow> jm_get (rc_byKey x) k) = None" for k
    using st1(3) by (cases c) simp_all
  with route_miss_ok [OF st1(1,2) cfg acc g i l] r g i l show ?thesis
    by (simp add: resolveAgentRoute_def Let_def)
qed

lemma agent_lookup_values:
  "jm_get (foldl agent_lookup_add m agents) k = Some v \<Longrightarrow>
   jm_get m k = Some v \<or> (\<exists>a \<in> set agents. ae_id a \<noteq> None \<and> v = normalizeAgentId (ae_id a))"
proof (induction agents arbitrary: m)
  case (Cons a agents)
  have "normalizeAgentId (Some (js_trim x)) = normalizeAgentId (Some x)" for x
    by (simp add: normalizeAgentId_def)
  then have add: "jm_get (agent_lookup_add m a) k = Some v \<Longrightarrow>
      jm_get m k = Some v \<or> ae_id a \<noteq> None \<and> v = normalizeAgentId (ae_id a)"
    by (auto simp: agent_lookup_add_def sanitizeAgentId_def split: option.splits if_splits)
  from Cons.IH [of "agent_lookup_add m a"] Cons.prems add show ?case by auto
qed simp

lemma agent_lookup_nonempty:
  "js_trim (js_nullish (ae_id a) []) \<noteq> [] \<Longrightarrow> foldl agent_lookup_add (agent_lookup_add m a) agents \<noteq> []"
proof -
  assume a: "js_trim (js_nullish (ae_id a) []) \<noteq> []"
  have set: "jm_set k v m \<noteq> []" for k v and m :: "(string, string) jsmap" by (cases m) auto
  have "m \<noteq> [] \<Longrightarrow> foldl agent_lookup_add m agents \<noteq> []" for m
    by (induction agents arbitrary: m) (auto simp: agent_lookup_add_def set split: option.split)
  moreover have "agent_lookup_add m a \<noteq> []"
    using a set by (cases "ae_id a") (auto simp: agent_lookup_add_def)
  ultimately show ?thesis .
qed

lemma buildAgentSessionKey_parse:
  "parseAgentSessionKey (Some (normalizeLowercaseStringOrEmpty (Some (buildAgentSessionKey agentId ch acc peer scope links)))) \<noteq> None \<and>
   pk_agentId (the (parseAgentSessionKey (Some (normalizeLowercaseStringOrEmpty
      (Some (buildAgentSessionKey agentId ch acc peer scope links)))))) = normalizeAgentId (Some agentId)"
proof -
  have norm: "normalizeLowercaseStringOrEmpty (Some (buildAgentPeerSessionKey p)) = buildAgentPeerSessionKey p" for p
    using key_tail_trim [OF peer_key_tail peer_key_hd] peer_key_tail [of p] by (simp add: key_tail_def)
  have "colon_parts (normalizeMainKey (Some DEFAULT_MAIN_KEY)) \<noteq> []"
    by code_simp
  then show ?thesis
    unfolding buildAgentSessionKey_def norm by (simp add: parse_peer_key)
qed

section \<open>Properties\<close>

text \<open>C23: \<open>resolveAgentRoute\<close>, with its account buckets, merge, index, candidate collection and tier
  switches, computes the specification: the tiers in order of specificity, and within a tier the first
  matching binding in source order among those of the channel that are for the account or for any account;
  the default agent when none matches.\<close>

theorem route_resolution_meets_spec:
  "fst (resolveAgentRoute empty_route_state (cfg, input)) = spec_route cfg (normalizeRouteInput input)"
  by (rule resolveAgentRoute_fresh)

text \<open>C24: the most specific binding wins: no binding of the channel and account that matches the request
  belongs to a more specific tier than the one reported in \<open>matchedBy\<close>, and unless the default was used the
  agent is that of a matching binding of the reported tier.\<close>

theorem route_most_specific_binding_wins:
  "let r = fst (resolveAgentRoute empty_route_state (cfg, input)); rq = normalizeRouteInput input;
       candidates = applicable cfg (rq_channel rq) (rq_accountId rq) in
    list_all (\<lambda>e. list_all (\<lambda>t. tier_rank (ar_matchedBy r) \<le> tier_rank t)
      (filter (\<lambda>t. spec_match rq t e) tier_order)) candidates \<and>
    (ar_matchedBy r = ByDefault \<or> (\<exists>e \<in> set candidates. spec_match rq (ar_matchedBy r) e \<and>
      ar_agentId r = lookupAgentId (buildAgentLookup cfg) (ab_agentId (eb_binding e))))"
  using spec_search_first [OF tier_order_sorted, where rq = "normalizeRouteInput input" and
      es = "applicable cfg (rq_channel (normalizeRouteInput input)) (rq_accountId (normalizeRouteInput input))"]
  by (auto simp: resolveAgentRoute_fresh spec_route_def spec_route_fields Let_def list_all_iff split: option.splits)

text \<open>A route's session key belongs to the route's agent: it parses as an agent session key, and its
  agent id is the (normalised) agent id of the route.\<close>

theorem route_session_key_names_agent:
  "let r = fst (resolveAgentRoute empty_route_state (cfg, input)) in
   \<exists>p. parseAgentSessionKey (Some (ar_sessionKey r)) = Some p \<and> pk_agentId p = normalizeAgentId (Some (ar_agentId r))"
proof -
  obtain a t where "spec_route cfg (normalizeRouteInput input) =
      choose_route cfg (buildAgentLookup cfg) (normalizeRouteInput input) a t"
    by (rule spec_route_cases)
  then show ?thesis
    using buildAgentSessionKey_parse by (fastforce simp: resolveAgentRoute_fresh spec_route_fields Let_def)
qed

text \<open>Every route goes to an agent of the configuration: when each configured agent has an id that is
  not blank, the route's agent id is the normalised id of a configured agent, whatever the bindings say
  (the hypothesis on the default agent excludes ids that change when normalised twice).\<close>

theorem route_agent_is_configured:
  assumes "cf_agents cfg \<noteq> []" "\<forall>a \<in> set (cf_agents cfg). js_trim (js_nullish (ae_id a) []) \<noteq> []"
    and "normalizeAgentId (Some (resolveDefaultAgentId cfg)) = resolveDefaultAgentId cfg"
  shows "\<exists>a \<in> set (cf_agents cfg).
    ar_agentId (fst (resolveAgentRoute empty_route_state (cfg, input))) = normalizeAgentId (ae_id a)"
proof -
  let ?l = "buildAgentLookup cfg"
  have default: "\<exists>a \<in> set (cf_agents cfg). al_fallback ?l = normalizeAgentId (ae_id a)"
  proof -
    have trim: "normalizeAgentId (Some (js_or (js_nullish (map_option js_trim (ae_id a)) []) DEFAULT_AGENT_ID)) =
        normalizeAgentId (ae_id a)" if "a \<in> set (cf_agents cfg)" for a
      using assms(2) that by (cases "ae_id a") (auto simp: js_or_def normalizeAgentId_def)
    obtain a as where cf: "cf_agents cfg = a # as" using assms(1) by (cases "cf_agents cfg") auto
    show ?thesis
    proof (cases "filter ae_default (cf_agents cfg)")
      case Nil
      with cf trim [of a] assms(3) show ?thesis
        by (auto simp: buildAgentLookup_def sanitizeAgentId_def resolveDefaultAgentId_def Let_def split: if_splits)
    next
      case (Cons d ds)
      then have "d \<in> set (cf_agents cfg)" by (rule filter_hd_mem)
      with Cons cf trim [of d] assms(3) show ?thesis
        by (auto simp: buildAgentLookup_def sanitizeAgentId_def resolveDefaultAgentId_def Let_def)
    qed
  qed
  have ne: "al_byNormalizedId ?l \<noteq> []"
    using assms(1,2) agent_lookup_nonempty by (cases "cf_agents cfg") (auto simp: buildAgentLookup_def)
  have "\<exists>a \<in> set (cf_agents cfg). lookupAgentId ?l i = normalizeAgentId (ae_id a)" for i
    using default ne agent_lookup_values [of "[]" "cf_agents cfg"]
    by (auto simp: lookupAgentId_def Let_def js_or_def buildAgentLookup_def js_nullish_def split: option.split)
  then show ?thesis
    by (metis resolveAgentRoute_fresh spec_route_cases spec_route_fields(2))
qed

definition sample_input :: route_input where
  "sample_input = \<lparr>ri_channel = ''Discord'', ri_accountId = None, ri_peer = Some \<lparr>rp_kind = Group, rp_id = ''g1''\<rparr>,
     ri_parentPeer = None, ri_guildId = Some ''42'', ri_teamId = None, ri_memberRoleIds = Some [''mod''],
     ri_verbose = False\<rparr>"

definition sample_bindings :: "agent_binding list" where
  "sample_bindings =
    [\<lparr>ab_acp = False, ab_agentId = ''guild-agent'', ab_match = \<lparr>bm_channel = Some ''discord'', bm_accountId = Some ''*'',
       bm_peer = None, bm_guildId = Some ''42'', bm_teamId = None, bm_roles = None\<rparr>\<rparr>,
     \<lparr>ab_acp = False, ab_agentId = ''group-agent'', ab_match = \<lparr>bm_channel = Some ''discord'', bm_accountId = None,
       bm_peer = Some \<lparr>pm_kind = Some ''channel'', pm_id = Some ''g1''\<rparr>, bm_guildId = None, bm_teamId = None,
       bm_roles = None\<rparr>\<rparr>]"

definition sample_config :: route_config where
  "sample_config = \<lparr>cf_bindingsRef = 0, cf_bindings = sample_bindings, cf_agentsRef = 0,
     cf_agents = [\<lparr>ae_id = Some ''Ops'', ae_default = False\<rparr>, \<lparr>ae_id = Some ''group-agent'', ae_default = False\<rparr>],
     cf_sessionRef = 0, cf_dmScope = None, cf_identityLinks = None\<rparr>"

theorem route_agent_is_configured_witness:
  "\<exists>a \<in> set (cf_agents sample_config).
     ar_agentId (fst (resolveAgentRoute empty_route_state (sample_config, sample_input))) = normalizeAgentId (ae_id a)"
  by (rule route_agent_is_configured) code_simp+

text \<open>C25: the caches are transparent: over any sequence of calls on a configuration object whose
  sub-objects are replaced and not mutated, and whose requests are clean (\<open>clean_request\<close>: no tab in an
  id, no comma in a role id, no peer with an empty id, no guild, team or role id that is a single dash),
  every call returns what the specification computes from the current configuration, whatever the
  bindings, agent and route caches hold and whenever they are evicted.\<close>

theorem route_caches_transparent:
  assumes "list_all (route_arg_ok hb ha hs) args"
  shows "fst (memo_calls resolveAgentRoute empty_route_state args) =
    map (\<lambda>arg. spec_route (fst arg) (normalizeRouteInput (snd arg))) args"
  using route_memo.calls_from_empty [OF assms] by blast

theorem route_caches_transparent_witness:
  "fst (memo_calls resolveAgentRoute empty_route_state
      [(sample_config, sample_input), (sample_config, sample_input\<lparr>ri_peer := None\<rparr>), (sample_config, sample_input)]) =
    map (\<lambda>arg. spec_route (fst arg) (normalizeRouteInput (snd arg)))
      [(sample_config, sample_input), (sample_config, sample_input\<lparr>ri_peer := None\<rparr>), (sample_config, sample_input)]"
  by (rule route_caches_transparent [where hb = "\<lambda>_. cf_bindings sample_config" and ha = "\<lambda>_. cf_agents sample_config"
        and hs = "\<lambda>_. (None, None)"]) code_simp

text \<open>
  Without the last condition the route cache is not transparent: a request without a peer and one whose
  peer has an empty id have the same key, but only the second can match a wildcard binding.
\<close>

definition wildcard_config :: route_config where
  "wildcard_config = sample_config\<lparr>cf_bindings :=
    [\<lparr>ab_acp = False, ab_agentId = ''group-agent'', ab_match = \<lparr>bm_channel = Some ''discord'', bm_accountId = None,
       bm_peer = Some \<lparr>pm_kind = Some ''direct'', pm_id = Some ''*''\<rparr>, bm_guildId = None, bm_teamId = None,
       bm_roles = None\<rparr>\<rparr>]\<rparr>"

lemma route_cache_empty_peer_collision:
  "map ar_agentId (fst (memo_calls resolveAgentRoute empty_route_state
      [(wildcard_config, sample_input\<lparr>ri_peer := None\<rparr>),
       (wildcard_config, sample_input\<lparr>ri_peer := Some \<lparr>rp_kind = Direct, rp_id = []\<rparr>\<rparr>)])) = [''ops'', ''ops''] \<and>
   ar_agentId (spec_route wildcard_config
      (normalizeRouteInput (sample_input\<lparr>ri_peer := Some \<lparr>rp_kind = Direct, rp_id = []\<rparr>\<rparr>))) = ''group-agent''"
  by (intro conjI) code_simp+

end
