(* ===== verification/RateLimit.thy ===== *)
theory RateLimit
  imports SessionKey
begin

text \<open>
  Rate limiting at the gateway: the fixed-window limiter of
  \<open>src/infra/fixed-window-rate-limit.ts\<close>, the control-plane write budget of
  \<open>src/gateway/control-plane-rate-limit.ts\<close>, the authentication limiter of
  \<open>src/gateway/auth-rate-limit.ts\<close> and the client address resolution of
  \<open>src/gateway/net.ts\<close> that keys it. Times are integers (milliseconds), the clock is an argument
  of each call. The address library (\<open>ipaddr.js\<close>, \<open>node:net\<close>) is a record of functions.
\<close>

section \<open>Fixed-window limiter\<close>

record limit_result =
  lr_allowed :: bool
  lr_retryAfterMs :: int
  lr_remaining :: int

record fixed_window =
  fw_count :: int
  fw_windowStartMs :: int

definition fixed_window_init :: fixed_window where
  "fixed_window_init = \<lparr>fw_count = 0, fw_windowStartMs = 0\<rparr>"

text \<open>\<open>Math.max(1, Math.floor(x))\<close>\<close>

definition clampLimit :: "rat \<Rightarrow> int" where
  "clampLimit x = max 1 \<lfloor>x\<rfloor>"

definition fixedWindowConsume :: "int \<Rightarrow> int \<Rightarrow> fixed_window \<Rightarrow> int \<Rightarrow> limit_result \<times> fixed_window" where
  "fixedWindowConsume maxRequests windowMs st nowMs =
     (let st1 = (if nowMs - fw_windowStartMs st \<ge> windowMs
                 then \<lparr>fw_count = 0, fw_windowStartMs = nowMs\<rparr> else st)
      in if fw_count st1 \<ge> maxRequests then
           (\<lparr>lr_allowed = False, lr_retryAfterMs = max 0 (fw_windowStartMs st1 + windowMs - nowMs), lr_remaining = 0\<rparr>, st1)
         else let st2 = st1\<lparr>fw_count := fw_count st1 + 1\<rparr> in
           (\<lparr>lr_allowed = True, lr_retryAfterMs = 0, lr_remaining = max 0 (maxRequests - fw_count st2)\<rparr>, st2))"

definition fixedWindowReset :: "fixed_window \<Rightarrow> fixed_window" where
  "fixedWindowReset st = \<lparr>fw_count = 0, fw_windowStartMs = 0\<rparr>"

section \<open>Control-plane write budget\<close>

record control_client =
  cc_deviceId :: "string option"
  cc_clientIp :: "string option"
  cc_connId :: "string option"

record control_bucket =
  cp_count :: int
  cp_windowStartMs :: int

definition normalizePart :: "string option \<Rightarrow> string \<Rightarrow> string" where
  "normalizePart value fallback = (case value of None \<Rightarrow> fallback
     | Some v \<Rightarrow> (let normalized = js_trim v in if length normalized > 0 then normalized else fallback))"

definition resolveControlPlaneRateLimitKey :: "control_client option \<Rightarrow> string" where
  "resolveControlPlaneRateLimitKey client =
     (let part = (\<lambda>f. case client of None \<Rightarrow> None | Some c \<Rightarrow> f c);
          deviceId = normalizePart (part cc_deviceId) ''unknown-device'';
          clientIp = normalizePart (part cc_clientIp) ''unknown-ip'';
          connId = normalizePart (part cc_connId) []
      in if deviceId = ''unknown-device'' \<and> clientIp = ''unknown-ip'' \<and> connId \<noteq> []
         then deviceId @ ''|'' @ clientIp @ ''|conn='' @ connId
         else deviceId @ ''|'' @ clientIp)"

definition CONTROL_PLANE_RATE_LIMIT_MAX_REQUESTS :: int where
  "CONTROL_PLANE_RATE_LIMIT_MAX_REQUESTS = 3"

definition CONTROL_PLANE_RATE_LIMIT_WINDOW_MS :: int where
  "CONTROL_PLANE_RATE_LIMIT_WINDOW_MS = 60000"

definition consumeControlPlaneWriteBudget ::
    "(string, control_bucket) jsmap \<Rightarrow> control_client option \<Rightarrow> int
       \<Rightarrow> limit_result \<times> (string, control_bucket) jsmap" where
  "consumeControlPlaneWriteBudget buckets client nowMs =
     (let key = resolveControlPlaneRateLimitKey client;
          opened = (\<lparr>lr_allowed = True, lr_retryAfterMs = 0,
             lr_remaining = CONTROL_PLANE_RATE_LIMIT_MAX_REQUESTS - 1\<rparr>,
             jm_set key \<lparr>cp_count = 1, cp_windowStartMs = nowMs\<rparr> buckets)
      in case jm_get buckets key of
           None \<Rightarrow> opened
         | Some bucket \<Rightarrow>
             if nowMs - cp_windowStartMs bucket \<ge> CONTROL_PLANE_RATE_LIMIT_WINDOW_MS then opened
             else if cp_count bucket \<ge> CONTROL_PLANE_RATE_LIMIT_MAX_REQUESTS then
               (\<lparr>lr_allowed = False,
                 lr_retryAfterMs = max 0 (cp_windowStartMs bucket + CONTROL_PLANE_RATE_LIMIT_WINDOW_MS - nowMs),
                 lr_remaining = 0\<rparr>, buckets)
             else
               (\<lparr>lr_allowed = True, lr_retryAfterMs = 0,
                 lr_remaining = max 0 (CONTROL_PLANE_RATE_LIMIT_MAX_REQUESTS - (cp_count bucket + 1))\<rparr>,
                jm_set key (bucket\<lparr>cp_count := cp_count bucket + 1\<rparr>) buckets))"

section \<open>Client addresses\<close>

text \<open>
  The address library: the canonical form of an address (\<open>None\<close> when it is not one), whether it is a
  loopback address, whether it lies in a CIDR range, and \<open>net.isIP\<close> (4, 6 or 0).
\<close>

record ip_ops =
  ip_normalize :: "string option \<Rightarrow> string option"
  ip_isLoopback :: "string option \<Rightarrow> bool"
  ip_inCidr :: "string \<Rightarrow> string \<Rightarrow> bool"
  ip_isIP :: "string \<Rightarrow> nat"

fun index_of :: "char \<Rightarrow> string \<Rightarrow> nat option" where
  "index_of c [] = None"
| "index_of c (d # ds) = (if d = c then Some 0 else map_option Suc (index_of c ds))"

fun split_at :: "char \<Rightarrow> string \<Rightarrow> string list" where
  "split_at sep [] = [[]]"
| "split_at sep (c # cs) = (if c = sep then [] # split_at sep cs
     else (case split_at sep cs of [] \<Rightarrow> [[c]] | w # ws \<Rightarrow> (c # w) # ws))"

definition stripOptionalPort :: "ip_ops \<Rightarrow> string \<Rightarrow> string" where
  "stripOptionalPort ops s =
     (let bracketed = (if js_starts_with s ''['' then index_of (CHR '']'') s else None) in
      case bracketed of
        Some e \<Rightarrow> take (e - 1) (drop 1 s)
      | None \<Rightarrow>
          if ip_isIP ops s \<noteq> 0 then s
          else (case last_index_of '':'' s of
              Some lastColon \<Rightarrow>
                if CHR ''.'' \<in> set s \<and> index_of (CHR '':'') s = Some lastColon
                   \<and> ip_isIP ops (take lastColon s) = 4
                then take lastColon s else s
            | None \<Rightarrow> s))"

definition parseIpLiteral :: "ip_ops \<Rightarrow> string option \<Rightarrow> string option" where
  "parseIpLiteral ops raw = (case map_option js_trim raw of
       None \<Rightarrow> None
     | Some trimmed \<Rightarrow>
         if trimmed = [] then None
         else (case ip_normalize ops (Some (stripOptionalPort ops trimmed)) of
             None \<Rightarrow> None
           | Some normalized \<Rightarrow>
               if normalized = [] \<or> ip_isIP ops normalized = 0 then None else Some normalized))"

definition isTrustedProxyAddress :: "ip_ops \<Rightarrow> string option \<Rightarrow> string list option \<Rightarrow> bool" where
  "isTrustedProxyAddress ops ip trustedProxies =
     (case (ip_normalize ops ip, trustedProxies) of
        (Some normalized, Some proxies) \<Rightarrow>
          normalized \<noteq> [] \<and> proxies \<noteq> [] \<and>
          list_ex (\<lambda>proxy. let candidate = js_trim proxy in candidate \<noteq> [] \<and> ip_inCidr ops normalized candidate) proxies
      | _ \<Rightarrow> False)"

text \<open>The walk from right to left: \<open>hops\<close> is the chain reversed.\<close>

fun first_untrusted_hop :: "ip_ops \<Rightarrow> string list option \<Rightarrow> string list \<Rightarrow> string option" where
  "first_untrusted_hop ops trustedProxies [] = None"
| "first_untrusted_hop ops trustedProxies (hop # hops) =
     (if ip_isLoopback ops (Some hop) then first_untrusted_hop ops trustedProxies hops
      else if \<not> isTrustedProxyAddress ops (Some hop) trustedProxies then Some hop
      else first_untrusted_hop ops trustedProxies hops)"

definition forwardedChain :: "ip_ops \<Rightarrow> string option \<Rightarrow> string list" where
  "forwardedChain ops forwardedFor = (case forwardedFor of None \<Rightarrow> []
     | Some header \<Rightarrow> List.map_filter (\<lambda>entry. parseIpLiteral ops (Some entry)) (split_at (CHR '','') header))"

definition resolveForwardedClientIp :: "ip_ops \<Rightarrow> string option \<Rightarrow> string list option \<Rightarrow> string option" where
  "resolveForwardedClientIp ops forwardedFor trustedProxies =
     (if js_nullish trustedProxies [] = [] then None
      else let chain = forwardedChain ops forwardedFor in
        if chain = [] then None else first_untrusted_hop ops trustedProxies (rev chain))"

record client_ip_params =
  ci_remoteAddr :: "string option"
  ci_forwardedFor :: "string option"
  ci_realIp :: "string option"
  ci_trustedProxies :: "string list option"
  ci_allowRealIpFallback :: bool

definition resolveClientIp :: "ip_ops \<Rightarrow> client_ip_params \<Rightarrow> string option" where
  "resolveClientIp ops p = (case ip_normalize ops (ci_remoteAddr p) of
       None \<Rightarrow> None
     | Some remote \<Rightarrow>
         if remote = [] then None
         else if \<not> isTrustedProxyAddress ops (Some remote) (ci_trustedProxies p) then Some remote
         else (case resolveForwardedClientIp ops (ci_forwardedFor p) (ci_trustedProxies p) of
             Some forwardedIp \<Rightarrow> Some forwardedIp
           | None \<Rightarrow> if ci_allowRealIpFallback p then parseIpLiteral ops (ci_realIp p) else None))"

section \<open>Authentication limiter\<close>

record auth_config =
  ac_maxAttempts :: nat
  ac_windowMs :: int
  ac_lockoutMs :: int
  ac_exemptLoopback :: bool

record auth_entry =
  ae_attempts :: "int list"
  ae_lockedUntil :: "int option"

type_synonym auth_state = "(string, auth_entry) jsmap"

definition normalizeRateLimitClientIp :: "ip_ops \<Rightarrow> string option \<Rightarrow> string" where
  "normalizeRateLimitClientIp ops ip =
     (if (case ip of Some s \<Rightarrow> js_starts_with s ''browser-origin:'' | None \<Rightarrow> False) then js_nullish ip []
      else js_nullish (resolveClientIp ops \<lparr>ci_remoteAddr = ip, ci_forwardedFor = None, ci_realIp = None,
        ci_trustedProxies = None, ci_allowRealIpFallback = False\<rparr>) ''unknown'')"

definition normalizeScope :: "string option \<Rightarrow> string" where
  "normalizeScope scope = js_or (js_trim (js_nullish scope ''default'')) ''default''"

definition authKey :: "ip_ops \<Rightarrow> string option \<Rightarrow> string option \<Rightarrow> string" where
  "authKey ops rawIp rawScope = normalizeScope rawScope @ '':'' @ normalizeRateLimitClientIp ops rawIp"

definition isExempt :: "ip_ops \<Rightarrow> auth_config \<Rightarrow> string option \<Rightarrow> bool" where
  "isExempt ops cfg rawIp \<longleftrightarrow> ac_exemptLoopback cfg \<and> ip_isLoopback ops (Some (normalizeRateLimitClientIp ops rawIp))"

definition slideWindow :: "auth_config \<Rightarrow> auth_entry \<Rightarrow> int \<Rightarrow> auth_entry" where
  "slideWindow cfg entry now =
     (let cutoff = now - ac_windowMs cfg
      in entry\<lparr>ae_attempts := filter (\<lambda>ts. ts > cutoff) (ae_attempts entry)\<rparr>)"

text \<open>\<open>entry.lockedUntil && now < entry.lockedUntil\<close>: zero is falsy.\<close>

definition locked_at :: "auth_entry \<Rightarrow> int \<Rightarrow> bool" where
  "locked_at entry now = (case ae_lockedUntil entry of None \<Rightarrow> False | Some u \<Rightarrow> u \<noteq> 0 \<and> now < u)"

definition lock_expired :: "auth_entry \<Rightarrow> int \<Rightarrow> bool" where
  "lock_expired entry now = (case ae_lockedUntil entry of None \<Rightarrow> False | Some u \<Rightarrow> u \<noteq> 0 \<and> now \<ge> u)"

definition authCheck :: "ip_ops \<Rightarrow> auth_config \<Rightarrow> auth_state \<Rightarrow> string option \<Rightarrow> string option \<Rightarrow> int
    \<Rightarrow> limit_result \<times> auth_state" where
  "authCheck ops cfg entries rawIp rawScope now =
     (let key = authKey ops rawIp rawScope;
          free = \<lparr>lr_allowed = True, lr_retryAfterMs = 0, lr_remaining = int (ac_maxAttempts cfg)\<rparr>
      in if isExempt ops cfg rawIp then (free, entries)
         else case jm_get entries key of
             None \<Rightarrow> (free, entries)
           | Some entry \<Rightarrow>
               if locked_at entry now then
                 (\<lparr>lr_allowed = False, lr_retryAfterMs = the (ae_lockedUntil entry) - now, lr_remaining = 0\<rparr>, entries)
               else
                 let entry1 = (if lock_expired entry now
                       then entry\<lparr>ae_lockedUntil := None, ae_attempts := []\<rparr> else entry);
                     entry2 = slideWindow cfg entry1 now;
                     remaining = max 0 (int (ac_maxAttempts cfg) - int (length (ae_attempts entry2)))
                 in (\<lparr>lr_allowed = remaining > 0, lr_retryAfterMs = 0, lr_remaining = remaining\<rparr>,
                     jm_set key entry2 entries))"

definition authRecordFailure :: "ip_ops \<Rightarrow> auth_config \<Rightarrow> auth_state \<Rightarrow> string option \<Rightarrow> string option \<Rightarrow> int
    \<Rightarrow> auth_state" where
  "authRecordFailure ops cfg entries rawIp rawScope now =
     (let key = authKey ops rawIp rawScope in
      if isExempt ops cfg rawIp then entries
      else let entry = js_nullish (jm_get entries key) \<lparr>ae_attempts = [], ae_lockedUntil = None\<rparr>;
               entries1 = jm_set key entry entries
        in if locked_at entry now then entries1
           else
             let entry1 = slideWindow cfg entry now;
                 entry2 = entry1\<lparr>ae_attempts := ae_attempts entry1 @ [now]\<rparr>;
                 entry3 = (if length (ae_attempts entry2) \<ge> ac_maxAttempts cfg
                   then entry2\<lparr>ae_lockedUntil := Some (now + ac_lockoutMs cfg)\<rparr> else entry2)
             in jm_set key entry3 entries1)"

definition authReset :: "ip_ops \<Rightarrow> auth_state \<Rightarrow> string option \<Rightarrow> string option \<Rightarrow> auth_state" where
  "authReset ops entries rawIp rawScope = jm_delete (authKey ops rawIp rawScope) entries"

fun authPrune :: "auth_config \<Rightarrow> auth_state \<Rightarrow> int \<Rightarrow> auth_state" where
  "authPrune cfg [] now = []"
| "authPrune cfg ((key, entry) # entries) now =
     (if locked_at entry now then (key, entry) # authPrune cfg entries now
      else let entry1 = slideWindow cfg entry now in
        if ae_attempts entry1 = [] then authPrune cfg entries now
        else (key, entry1) # authPrune cfg entries now)"

definition authDispose :: "auth_state \<Rightarrow> auth_state" where
  "authDispose entries = []"

datatype auth_event =
    AuthCheck "string option" "string option" int
  | AuthFailure "string option" "string option" int
  | AuthReset "string option" "string option"
  | AuthPrune int
  | AuthDispose

fun auth_step :: "ip_ops \<Rightarrow> auth_config \<Rightarrow> auth_state \<Rightarrow> auth_event \<Rightarrow> auth_state" where
  "auth_step ops cfg s (AuthCheck ip scope now) = snd (authCheck ops cfg s ip scope now)"
| "auth_step ops cfg s (AuthFailure ip scope now) = authRecordFailure ops cfg s ip scope now"
| "auth_step ops cfg s (AuthReset ip scope) = authReset ops s ip scope"
| "auth_step ops cfg s (AuthPrune now) = authPrune cfg s now"
| "auth_step ops cfg s AuthDispose = authDispose s"


section \<open>The contract of a windowed limiter\<close>

text \<open>The times at which the events of a run that are \<open>mine\<close> are granted, and how many fall in a span.\<close>

fun granted_times :: "('s \<Rightarrow> 'e \<Rightarrow> limit_result \<times> 's) \<Rightarrow> ('e \<Rightarrow> bool) \<Rightarrow> ('e \<Rightarrow> int) \<Rightarrow> 's \<Rightarrow> 'e list \<Rightarrow> int list" where
  "granted_times consume mine tm s [] = []"
| "granted_times consume mine tm s (e # es) =
     (if mine e \<and> lr_allowed (fst (consume s e)) then [tm e] else [])
       @ granted_times consume mine tm (snd (consume s e)) es"

definition in_span :: "int \<Rightarrow> int \<Rightarrow> int list \<Rightarrow> nat" where
  "in_span w t0 ts = length (filter (\<lambda>t. t0 \<le> t \<and> t < t0 + w) ts)"

lemma in_span_simps [simp]: "in_span w t0 [] = 0"
  "in_span w t0 (t # ts) = (if t0 \<le> t \<and> t < t0 + w then Suc (in_span w t0 ts) else in_span w t0 ts)"
  by (simp_all add: in_span_def)

text \<open>
  \<open>consume\<close> takes an event at a time; events that are not \<open>mine\<close> leave the view (start of the
  window, grants in it) alone. \<open>n\<close> is the budget of a window of \<open>w\<close> milliseconds.
\<close>

locale windowed_limiter =
  fixes consume :: "'s \<Rightarrow> 'e \<Rightarrow> limit_result \<times> 's"
    and mine :: "'e \<Rightarrow> bool"
    and tm :: "'e \<Rightarrow> int"
    and window_start :: "'s \<Rightarrow> int option"
    and used :: "'s \<Rightarrow> int"
    and n :: int and w :: int
  assumes budget_pos: "1 \<le> n" and window_pos: "0 < w"
    and other: "\<not> mine e \<Longrightarrow> window_start (snd (consume s e)) = window_start s \<and> used (snd (consume s e)) = used s"
    and opened: "mine e \<Longrightarrow> (case window_start s of None \<Rightarrow> True | Some t \<Rightarrow> w \<le> tm e - t) \<Longrightarrow>
      lr_allowed (fst (consume s e)) \<and> window_start (snd (consume s e)) = Some (tm e) \<and> used (snd (consume s e)) = 1"
    and granting: "mine e \<Longrightarrow> window_start s = Some t \<Longrightarrow> tm e - t < w \<Longrightarrow> used s < n \<Longrightarrow>
      lr_allowed (fst (consume s e)) \<and> window_start (snd (consume s e)) = Some t \<and> used (snd (consume s e)) = used s + 1"
    and denying: "mine e \<Longrightarrow> window_start s = Some t \<Longrightarrow> tm e - t < w \<Longrightarrow> n \<le> used s \<Longrightarrow>
      \<not> lr_allowed (fst (consume s e)) \<and> window_start (snd (consume s e)) = Some t \<and> used (snd (consume s e)) = used s \<and>
      lr_retryAfterMs (fst (consume s e)) = max 0 (t + w - tm e)"
begin

abbreviation grants :: "'s \<Rightarrow> 'e list \<Rightarrow> int list" where
  "grants \<equiv> granted_times consume mine tm"

lemma grants_times: "set (grants s es) \<subseteq> tm ` set es"
  by (induction es arbitrary: s) (auto split: if_splits)

lemma in_span_late: "\<forall>e \<in> set es. t0 + w \<le> tm e \<Longrightarrow> in_span w t0 (grants s es) = 0"
  using grants_times [of s es] by (fastforce simp: in_span_def filter_empty_conv)

lemma event_cases:
  assumes "mine e"
  obtains (opens) "lr_allowed (fst (consume s e))" "window_start (snd (consume s e)) = Some (tm e)"
      "used (snd (consume s e)) = 1" "\<And>t. window_start s = Some t \<Longrightarrow> t + w \<le> tm e"
  | (granted) t where "window_start s = Some t" "lr_allowed (fst (consume s e))" "used s < n"
      "window_start (snd (consume s e)) = Some t" "used (snd (consume s e)) = used s + 1"
  | (denies) t where "window_start s = Some t" "\<not> lr_allowed (fst (consume s e))"
      "window_start (snd (consume s e)) = Some t" "used (snd (consume s e)) = used s"
proof (cases "case window_start s of None \<Rightarrow> True | Some t \<Rightarrow> w \<le> tm e - t")
  case True
  show thesis
    by (rule opens) (use opened [OF assms True] True in auto)
next
  case False
  then obtain t where t: "window_start s = Some t" "tm e - t < w"
    by (cases "window_start s") auto
  show thesis
    using granting [OF assms t] denying [OF assms t] t granted denies by (cases "used s < n") auto
qed

text \<open>Grants in the window that is open at a time not before the interval.\<close>

lemma grants_inside:
  "window_start s = Some t \<Longrightarrow> t0 \<le> t \<Longrightarrow> sorted (map tm es) \<Longrightarrow> used s \<le> n \<Longrightarrow> int (in_span w t0 (grants s es)) \<le> n - used s"
proof (induction es arbitrary: s)
  case (Cons e es)
  show ?case
  proof (cases "mine e")
    case False
    with other [OF False, of s] Cons.IH [of "snd (consume s e)"] Cons.prems show ?thesis by simp
  next
    case True
    then show ?thesis
    proof (cases rule: event_cases [of e s])
      case opens
      have late: "t0 + w \<le> tm e" using opens(4) [OF Cons.prems(1)] Cons.prems(2) by simp
      then have "\<forall>e' \<in> set es. t0 + w \<le> tm e'" using Cons.prems(3) by auto
      with late Cons.prems(4) show ?thesis by (simp add: in_span_late)
    next
      case (granted t')
      with Cons.prems have "int (in_span w t0 (grants (snd (consume s e)) es)) \<le> n - (used s + 1)"
        using Cons.IH [of "snd (consume s e)"] by simp
      then show ?thesis by simp
    next
      case (denies t')
      with Cons.prems Cons.IH [of "snd (consume s e)"] show ?thesis by simp
    qed
  qed
qed simp

text \<open>Grants when the interval has begun and the open window began before it.\<close>

lemma grants_across:
  "\<forall>t. window_start s = Some t \<longrightarrow> t < t0 \<and> used s \<le> n \<Longrightarrow> \<forall>e \<in> set es. t0 \<le> tm e \<Longrightarrow> sorted (map tm es) \<Longrightarrow>
   int (in_span w t0 (grants s es)) \<le> (if window_start s = None then n else 2 * n - used s)"
proof (induction es arbitrary: s)
  case Nil
  then show ?case using budget_pos by (cases "window_start s") auto
next
  case (Cons e es)
  show ?case
  proof (cases "mine e")
    case False
    have "int (in_span w t0 (grants (snd (consume s e)) es)) \<le>
        (if window_start (snd (consume s e)) = None then n else 2 * n - used (snd (consume s e)))"
      using other [OF False, of s] Cons.prems by (intro Cons.IH) auto
    with other [OF False, of s] False show ?thesis by (auto split: if_splits)
  next
    case True
    then show ?thesis
    proof (cases rule: event_cases [of e s])
      case opens
      have "int (in_span w t0 (grants (snd (consume s e)) es)) \<le> n - used (snd (consume s e))"
        using opens Cons.prems budget_pos by (intro grants_inside [of _ "tm e"]) auto
      with opens Cons.prems(1) budget_pos show ?thesis by (cases "window_start s") auto
    next
      case (granted t')
      have "int (in_span w t0 (grants (snd (consume s e)) es)) \<le>
          (if window_start (snd (consume s e)) = None then n else 2 * n - used (snd (consume s e)))"
        using granted Cons.prems by (intro Cons.IH) auto
      with granted show ?thesis by simp
    next
      case (denies t')
      have "int (in_span w t0 (grants (snd (consume s e)) es)) \<le>
          (if window_start (snd (consume s e)) = None then n else 2 * n - used (snd (consume s e)))"
        using denies Cons.prems by (intro Cons.IH) auto
      with denies show ?thesis by simp
    qed
  qed
qed

definition view_ok :: "'s \<Rightarrow> bool" where
  "view_ok s \<longleftrightarrow> 0 \<le> used s \<and> (window_start s \<noteq> None \<longrightarrow> used s \<le> n)"

lemma view_ok_consume: "view_ok s \<Longrightarrow> view_ok (snd (consume s e))"
proof (cases "mine e")
  case True
  assume "view_ok s"
  with True budget_pos show ?thesis
    by (cases rule: event_cases [of e s]) (auto simp: view_ok_def)
qed (use other [of e s] in \<open>simp add: view_ok_def\<close>)

text \<open>Any half-open interval of the window's length sees at most twice the budget.\<close>

lemma grants_bound:
  "view_ok s \<Longrightarrow> sorted (map tm es) \<Longrightarrow> int (in_span w t0 (grants s es)) \<le> 2 * n"
proof (induction es arbitrary: s)
  case Nil
  then show ?case using budget_pos by simp
next
  case (Cons e es)
  show ?case
  proof (cases "tm e < t0")
    case True
    with Cons.IH [OF view_ok_consume [OF Cons.prems(1), of e]] Cons.prems(2) show ?thesis by simp
  next
    case False
    then have late: "\<forall>e' \<in> set (e # es). t0 \<le> tm e'" using Cons.prems(2) by auto
    show ?thesis
    proof (cases "\<exists>t. window_start s = Some t \<and> t0 \<le> t")
      case True
      then show ?thesis
        using grants_inside [OF _ _ Cons.prems(2), of s] Cons.prems(1) budget_pos
        by (fastforce simp: view_ok_def)
    next
      case False
      then show ?thesis
        using grants_across [OF _ late Cons.prems(2), of s] Cons.prems(1) budget_pos
        by (fastforce simp: view_ok_def split: if_splits)
    qed
  qed
qed

text \<open>A denied caller that comes back after \<open>retryAfterMs\<close> is granted, and it never waits more than a window.\<close>

lemma retry_after_honest:
  assumes "mine e" "mine e'" "\<not> lr_allowed (fst (consume s e))"
    and "tm e + lr_retryAfterMs (fst (consume s e)) \<le> tm e'"
    and "\<And>t. window_start s = Some t \<Longrightarrow> t \<le> tm e"
  shows "lr_allowed (fst (consume (snd (consume s e)) e')) \<and>
    0 < lr_retryAfterMs (fst (consume s e)) \<and> lr_retryAfterMs (fst (consume s e)) \<le> w"
  using assms(1)
proof (cases rule: event_cases [of e s])
  case (denies t)
  have open_window: "\<not> w \<le> tm e - t" using opened [OF assms(1), of s] denies(1,2) by auto
  moreover have "n \<le> used s" using granting [OF assms(1) denies(1)] denies(2) open_window by force
  ultimately have retry: "lr_retryAfterMs (fst (consume s e)) = t + w - tm e"
    using denying [OF assms(1) denies(1)] by simp
  have "w \<le> tm e' - t" using assms(4) retry by simp
  with opened [OF assms(2), of "snd (consume s e)"] denies(3) retry open_window assms(5) [OF denies(1)]
  show ?thesis by simp
qed (use assms(3) in simp_all)

end


section \<open>The limiters meet the contract\<close>

interpretation fixed_limiter: windowed_limiter "fixedWindowConsume (clampLimit maxRequests) (clampLimit windowMs)"
  "\<lambda>_. True" id "\<lambda>s. Some (fw_windowStartMs s)" fw_count "clampLimit maxRequests" "clampLimit windowMs"
  for maxRequests windowMs
  by unfold_locales (auto simp: fixedWindowConsume_def clampLimit_def Let_def)

definition control_consume ::
    "(string, control_bucket) jsmap \<Rightarrow> control_client option \<times> int \<Rightarrow> limit_result \<times> (string, control_bucket) jsmap" where
  "control_consume buckets e = consumeControlPlaneWriteBudget buckets (fst e) (snd e)"

definition control_mine :: "string \<Rightarrow> control_client option \<times> int \<Rightarrow> bool" where
  "control_mine key e \<longleftrightarrow> resolveControlPlaneRateLimitKey (fst e) = key"

interpretation control_limiter: windowed_limiter control_consume "control_mine key" snd
  "\<lambda>s. map_option cp_windowStartMs (jm_get s key)"
  "\<lambda>s. case jm_get s key of None \<Rightarrow> 0 | Some b \<Rightarrow> cp_count b"
  CONTROL_PLANE_RATE_LIMIT_MAX_REQUESTS CONTROL_PLANE_RATE_LIMIT_WINDOW_MS
  for key
  by unfold_locales
    (auto simp: control_consume_def control_mine_def consumeControlPlaneWriteBudget_def Let_def
      CONTROL_PLANE_RATE_LIMIT_MAX_REQUESTS_def CONTROL_PLANE_RATE_LIMIT_WINDOW_MS_def split: option.splits)

text \<open>neither window limiter can be beaten by timing: in every span of one window, however it is
  placed, a fixed-window limiter grants at most twice its (clamped) number of requests, and the
  control-plane budget grants any one client key at most six writes in any 60 seconds, whatever other
  clients do in between.\<close>

theorem window_limiters_bounded:
  assumes "sorted ts" "sorted (map snd calls)"
  shows "int (in_span (clampLimit windowMs) t0 (granted_times
      (fixedWindowConsume (clampLimit maxRequests) (clampLimit windowMs)) (\<lambda>_. True) id fixed_window_init ts))
      \<le> 2 * clampLimit maxRequests \<and>
    in_span 60000 t0 (granted_times control_consume (control_mine key) snd [] calls) \<le> 6"
proof
  have "fixed_limiter.view_ok maxRequests fixed_window_init"
    unfolding fixed_limiter.view_ok_def by (simp add: fixed_window_init_def clampLimit_def)
  from fixed_limiter.grants_bound [OF this, of ts windowMs t0] assms(1)
  show "int (in_span (clampLimit windowMs) t0 (granted_times
      (fixedWindowConsume (clampLimit maxRequests) (clampLimit windowMs)) (\<lambda>_. True) id fixed_window_init ts))
      \<le> 2 * clampLimit maxRequests" by simp
next
  have "control_limiter.view_ok key []"
    by (simp add: control_limiter.view_ok_def)
  from control_limiter.grants_bound [OF this assms(2), of t0]
  show "in_span 60000 t0 (granted_times control_consume (control_mine key) snd [] calls) \<le> 6"
    by (simp add: CONTROL_PLANE_RATE_LIMIT_MAX_REQUESTS_def CONTROL_PLANE_RATE_LIMIT_WINDOW_MS_def)
qed

theorem window_limiters_bounded_witness:
  "int (in_span (clampLimit 1000) 0 (granted_times
      (fixedWindowConsume (clampLimit 2) (clampLimit 1000)) (\<lambda>_. True) id fixed_window_init [0, 5, 9, 1200]))
      \<le> 2 * clampLimit 2 \<and>
    in_span 60000 0 (granted_times control_consume (control_mine ''d|ip'') snd []
      [(None, 1), (Some \<lparr>cc_deviceId = Some ''d'', cc_clientIp = Some ''ip'', cc_connId = None\<rparr>, 2)]) \<le> 6"
  by (rule window_limiters_bounded) simp_all

text \<open>\<open>retryAfterMs\<close> of the control-plane budget is honest: a denied client that calls again no sooner
  than \<open>retryAfterMs\<close> later, with no call of its key in between, is allowed; the wait is positive and at
  most the window.\<close>

theorem control_plane_retry_after:
  assumes "resolveControlPlaneRateLimitKey c' = resolveControlPlaneRateLimitKey c"
    and "\<not> lr_allowed (fst (consumeControlPlaneWriteBudget buckets c now))"
    and "now + lr_retryAfterMs (fst (consumeControlPlaneWriteBudget buckets c now)) \<le> now'"
    and "\<forall>b. jm_get buckets (resolveControlPlaneRateLimitKey c) = Some b \<longrightarrow> cp_windowStartMs b \<le> now"
  shows "lr_allowed (fst (consumeControlPlaneWriteBudget (snd (consumeControlPlaneWriteBudget buckets c now)) c' now')) \<and>
    0 < lr_retryAfterMs (fst (consumeControlPlaneWriteBudget buckets c now)) \<and>
    lr_retryAfterMs (fst (consumeControlPlaneWriteBudget buckets c now)) \<le> 60000"
  using control_limiter.retry_after_honest
    [of "resolveControlPlaneRateLimitKey c" "(c, now)" "(c', now')" buckets] assms
  by (auto simp: control_consume_def control_mine_def CONTROL_PLANE_RATE_LIMIT_WINDOW_MS_def)

definition sample_buckets :: "(string, control_bucket) jsmap" where
  "sample_buckets = [(''unknown-device|unknown-ip'', \<lparr>cp_count = 3, cp_windowStartMs = 100\<rparr>)]"

theorem control_plane_retry_after_witness:
  "lr_allowed (fst (consumeControlPlaneWriteBudget (snd (consumeControlPlaneWriteBudget sample_buckets None 500)) None 60100))"
  by (rule control_plane_retry_after [THEN conjunct1], code_simp, code_simp, code_simp)
    (auto simp: sample_buckets_def)


section \<open>The authentication limiter\<close>

lemma authPrune_get:
  "jm_ok s \<Longrightarrow> jm_get (authPrune cfg s now) k = (case jm_get s k of None \<Rightarrow> None
     | Some e \<Rightarrow> if locked_at e now then Some e
         else if ae_attempts (slideWindow cfg e now) = [] then None else Some (slideWindow cfg e now))"
proof (induction cfg s now rule: authPrune.induct)
  case (2 cfg key e s now)
  have none: "jm_get s key = None" using 2(4) by (simp add: map_of_eq_None_iff)
  have IH: "jm_get (authPrune cfg s now) k = (case jm_get s k of None \<Rightarrow> None
     | Some e \<Rightarrow> if locked_at e now then Some e
         else if ae_attempts (slideWindow cfg e now) = [] then None else Some (slideWindow cfg e now))"
    using 2 by (cases "locked_at e now"; cases "ae_attempts (slideWindow cfg e now) = []") simp_all
  have "jm_get (authPrune cfg s now) key = None" if "k = key"
    using IH none that by simp
  then show ?case
    by (cases "k = key") (simp_all add: IH none Let_def)
qed simp

lemma authPrune_keys: "set (map fst (authPrune cfg s now)) \<subseteq> set (map fst s)"
  by (induction cfg s now rule: authPrune.induct) (auto simp: Let_def split: if_splits)

lemma authPrune_ok: "jm_ok s \<Longrightarrow> jm_ok (authPrune cfg s now)"
proof (induction cfg s now rule: authPrune.induct)
  case (2 cfg key e s now)
  have "key \<notin> fst ` set (authPrune cfg s now)"
    using authPrune_keys [of cfg s now] 2(4) by auto
  with 2 show ?case by (simp add: Let_def)
qed simp

lemma auth_step_ok: "jm_ok s \<Longrightarrow> jm_ok (auth_step ops cfg s e)"
  by (cases e) (auto simp: authCheck_def authRecordFailure_def authReset_def authDispose_def authPrune_ok Let_def
      split: option.split)

lemma auth_run_ok: "jm_ok s \<Longrightarrow> jm_ok (foldl (auth_step ops cfg) s es)"
  by (induction es arbitrary: s) (auto simp: auth_step_ok)

text \<open>Events that cannot end a lock of \<open>key\<close> that runs until \<open>u\<close>: anything before \<open>u\<close> except a reset
  of the key and disposal of the limiter.\<close>

fun lock_kept_by :: "ip_ops \<Rightarrow> string \<Rightarrow> int \<Rightarrow> auth_event \<Rightarrow> bool" where
  "lock_kept_by ops key u (AuthCheck ip scope now) \<longleftrightarrow> now < u"
| "lock_kept_by ops key u (AuthFailure ip scope now) \<longleftrightarrow> now < u"
| "lock_kept_by ops key u (AuthReset ip scope) \<longleftrightarrow> authKey ops ip scope \<noteq> key"
| "lock_kept_by ops key u (AuthPrune now) \<longleftrightarrow> now < u"
| "lock_kept_by ops key u AuthDispose \<longleftrightarrow> False"

lemma lock_kept_step:
  assumes "jm_ok s" "jm_get s key = Some entry" "ae_lockedUntil entry = Some u" "u \<noteq> 0" "lock_kept_by ops key u e"
  shows "jm_get (auth_step ops cfg s e) key = Some entry"
proof -
  have locked: "now < u \<Longrightarrow> locked_at entry now" for now
    using assms(3,4) by (simp add: locked_at_def)
  show ?thesis
    using assms(1,2,5) locked
    by (cases e) (auto simp: authCheck_def authRecordFailure_def authReset_def authPrune_get Let_def
        split: option.split)
qed

lemma lock_kept_run:
  "jm_ok s \<Longrightarrow> jm_get s key = Some entry \<Longrightarrow> ae_lockedUntil entry = Some u \<Longrightarrow> u \<noteq> 0 \<Longrightarrow>
   list_all (lock_kept_by ops key u) es \<Longrightarrow> jm_get (foldl (auth_step ops cfg) s es) key = Some entry"
  by (induction es arbitrary: s) (auto simp: lock_kept_step auth_step_ok)

lemma authRecordFailure_locks:
  assumes "\<not> isExempt ops cfg ip" "key = authKey ops ip scope"
    and "entry = js_nullish (jm_get s key) \<lparr>ae_attempts = [], ae_lockedUntil = None\<rparr>" "\<not> locked_at entry now"
    and "ac_maxAttempts cfg \<le> Suc (length (filter (\<lambda>t. t > now - ac_windowMs cfg) (ae_attempts entry)))"
  obtains e where "jm_get (authRecordFailure ops cfg s ip scope now) key = Some e"
    "ae_lockedUntil e = Some (now + ac_lockoutMs cfg)"
  using assms that by (simp add: authRecordFailure_def Let_def slideWindow_def)

fun failure_of :: "ip_ops \<Rightarrow> string \<Rightarrow> auth_event \<Rightarrow> bool" where
  "failure_of ops key (AuthFailure ip scope now) \<longleftrightarrow> authKey ops ip scope = key"
| "failure_of ops key _ \<longleftrightarrow> False"

text \<open>While a key has had fewer failures than the limit, it holds no lock and no more attempts than failures.\<close>

lemma few_failures:
  assumes "length (filter (failure_of ops key) es) < ac_maxAttempts cfg"
    and "jm_get (foldl (auth_step ops cfg) [] es) key = Some entry"
  shows "ae_lockedUntil entry = None \<and> length (ae_attempts entry) \<le> length (filter (failure_of ops key) es)"
  using assms
proof (induction es arbitrary: entry rule: rev_induct)
  case (snoc e es)
  let ?s = "foldl (auth_step ops cfg) [] es" and ?n = "length (filter (failure_of ops key) es)"
  have few: "?n < ac_maxAttempts cfg" using snoc.prems(1) by (simp split: if_splits)
  have IH: "ae_lockedUntil en = None \<and> length (ae_attempts en) \<le> ?n" if "jm_get ?s key = Some en" for en
    using snoc.IH few that by blast
  have ok: "jm_ok ?s" by (rule auth_run_ok) simp
  have slide: "length (ae_attempts (slideWindow cfg en now)) \<le> length (ae_attempts en)"
    "ae_lockedUntil (slideWindow cfg en now) = ae_lockedUntil en" for en now
    by (simp_all add: slideWindow_def Let_def)
  from snoc.prems(2) have get: "jm_get (auth_step ops cfg ?s e) key = Some entry" by simp
  show ?case
  proof (cases e)
    case (AuthCheck ip scope now)
    have "jm_get ?s key = Some entry \<or> (\<exists>en. jm_get ?s key = Some en \<and> (entry = slideWindow cfg en now \<or>
        entry = slideWindow cfg (en\<lparr>ae_lockedUntil := None, ae_attempts := []\<rparr>) now))"
      using get AuthCheck by (auto simp: authCheck_def Let_def split: option.splits if_splits)
    then show ?thesis
      using IH slide(2) by (auto simp: AuthCheck intro!: order_trans [OF slide(1)])
  next
    case (AuthFailure ip scope now)
    show ?thesis
    proof (cases "authKey ops ip scope = key \<and> \<not> isExempt ops cfg ip")
      case False
      with AuthFailure get have "jm_get ?s key = Some entry"
        by (auto simp: authRecordFailure_def Let_def split: if_splits)
      from IH [OF this] show ?thesis by (auto simp: AuthFailure)
    next
      case True
      let ?e = "js_nullish (jm_get ?s key) \<lparr>ae_attempts = [], ae_lockedUntil = None\<rparr>"
      have e: "ae_lockedUntil ?e = None" "length (ae_attempts ?e) \<le> ?n"
        using IH by (cases "jm_get ?s key"; simp)+
      have n: "Suc ?n < ac_maxAttempts cfg" using snoc.prems(1) True AuthFailure by simp
      have len: "length (ae_attempts (slideWindow cfg ?e now)) \<le> ?n" using slide(1) [of ?e now] e(2) by linarith
      have "entry = (slideWindow cfg ?e now)\<lparr>ae_attempts := ae_attempts (slideWindow cfg ?e now) @ [now]\<rparr>"
        using get AuthFailure True e(1) len n by (simp add: authRecordFailure_def Let_def locked_at_def)
      with len e(1) slide(2) True AuthFailure show ?thesis by simp
    qed
  next
    case (AuthPrune now)
    have "jm_get ?s key = Some entry \<or> (\<exists>en. jm_get ?s key = Some en \<and> entry = slideWindow cfg en now)"
      using get AuthPrune by (auto simp: authPrune_get [OF ok] split: option.splits if_splits)
    then show ?thesis
      using IH slide(2) by (auto simp: AuthPrune intro!: order_trans [OF slide(1)])
  qed (use get IH in \<open>auto simp: authReset_def authDispose_def split: if_splits\<close>)
qed simp

text \<open>C26: lockout: when a failure brings the attempts of an address and scope inside the window to the
  limit, then, whatever happened before, every later check of that key before the lockout ends is denied
  with the exact remaining time, whatever other failures, checks and prunes happen in between (only a reset of
  the key or disposal of the limiter lifts it).\<close>

theorem auth_lockout_holds:
  assumes "\<not> isExempt ops cfg ip"
    and "entry = js_nullish (jm_get (foldl (auth_step ops cfg) [] history) (authKey ops ip scope))
        \<lparr>ae_attempts = [], ae_lockedUntil = None\<rparr>"
    and "\<not> locked_at entry now"
    and "ac_maxAttempts cfg \<le> Suc (length (filter (\<lambda>t. t > now - ac_windowMs cfg) (ae_attempts entry)))"
    and "now + ac_lockoutMs cfg \<noteq> 0"
    and "list_all (lock_kept_by ops (authKey ops ip scope) (now + ac_lockoutMs cfg)) later"
    and "now' < now + ac_lockoutMs cfg"
  shows "fst (authCheck ops cfg (foldl (auth_step ops cfg) [] (history @ [AuthFailure ip scope now] @ later)) ip scope now') =
    \<lparr>lr_allowed = False, lr_retryAfterMs = now + ac_lockoutMs cfg - now', lr_remaining = 0\<rparr>"
proof -
  let ?s = "foldl (auth_step ops cfg) [] history" and ?k = "authKey ops ip scope"
  obtain e where e: "jm_get (authRecordFailure ops cfg ?s ip scope now) ?k = Some e"
    "ae_lockedUntil e = Some (now + ac_lockoutMs cfg)"
    by (rule authRecordFailure_locks [OF assms(1) refl assms(2-4)])
  have "jm_ok (auth_step ops cfg ?s (AuthFailure ip scope now))"
    by (rule auth_step_ok, rule auth_run_ok) simp
  with lock_kept_run [OF _ _ e(2) assms(5,6), of "auth_step ops cfg ?s (AuthFailure ip scope now)"] e(1)
  have "jm_get (foldl (auth_step ops cfg) [] (history @ [AuthFailure ip scope now] @ later)) ?k = Some e"
    by simp
  then show ?thesis
    using assms(1,5,7) e(2) by (simp add: authCheck_def Let_def locked_at_def)
qed

definition sample_ops :: ip_ops where
  "sample_ops = \<lparr>ip_normalize = id, ip_isLoopback = (\<lambda>ip. ip = Some ''127.0.0.1''),
     ip_inCidr = (\<lambda>ip range. ip = range), ip_isIP = (\<lambda>ip. if ip = [] then 0 else 4)\<rparr>"

definition sample_auth :: auth_config where
  "sample_auth = \<lparr>ac_maxAttempts = 2, ac_windowMs = 60000, ac_lockoutMs = 300000, ac_exemptLoopback = True\<rparr>"

theorem auth_lockout_holds_witness:
  "fst (authCheck sample_ops sample_auth (foldl (auth_step sample_ops sample_auth) []
      ([AuthFailure (Some ''10.0.0.7'') None 1000] @ [AuthFailure (Some ''10.0.0.7'') None 2000] @
       [AuthPrune 3000, AuthReset (Some ''10.0.0.8'') None])) (Some ''10.0.0.7'') None 4000) =
    \<lparr>lr_allowed = False, lr_retryAfterMs = 2000 + ac_lockoutMs sample_auth - 4000, lr_remaining = 0\<rparr>"
  by (rule auth_lockout_holds [OF _ refl]) code_simp+

text \<open>No false lockout: a key that has had fewer failures than the limit since the limiter was created is
  allowed at any time, however the failures of other keys, checks, resets and prunes are interleaved.\<close>

theorem auth_no_false_lockout:
  assumes "length (filter (failure_of ops (authKey ops ip scope)) es) < ac_maxAttempts cfg"
  shows "lr_allowed (fst (authCheck ops cfg (foldl (auth_step ops cfg) [] es) ip scope now))"
proof (cases "jm_get (foldl (auth_step ops cfg) [] es) (authKey ops ip scope)")
  case None
  then show ?thesis by (simp add: authCheck_def Let_def)
next
  case (Some entry)
  with few_failures [OF assms Some] assms
  have "ae_lockedUntil entry = None" "length (ae_attempts entry) < ac_maxAttempts cfg" by auto
  moreover have "length (ae_attempts (slideWindow cfg entry now)) \<le> length (ae_attempts entry)"
    by (simp add: slideWindow_def Let_def)
  ultimately show ?thesis
    using Some by (simp add: authCheck_def Let_def locked_at_def lock_expired_def)
qed

theorem auth_no_false_lockout_witness:
  "lr_allowed (fst (authCheck sample_ops sample_auth (foldl (auth_step sample_ops sample_auth) []
     [AuthFailure (Some ''10.0.0.7'') None 1000, AuthFailure (Some ''10.0.0.9'') None 1001]) (Some ''10.0.0.7'') None 1002))"
  by (rule auth_no_false_lockout) code_simp

section \<open>Client addresses\<close>

text \<open>A hop that is a proxy of ours: loopback or trusted.\<close>

definition hop_trusted :: "ip_ops \<Rightarrow> string list option \<Rightarrow> string \<Rightarrow> bool" where
  "hop_trusted ops proxies hop \<longleftrightarrow> ip_isLoopback ops (Some hop) \<or> isTrustedProxyAddress ops (Some hop) proxies"

lemma first_untrusted_hop_split:
  "list_all (hop_trusted ops proxies) near \<Longrightarrow> \<not> hop_trusted ops proxies h \<Longrightarrow>
   first_untrusted_hop ops proxies (near @ h # far) = Some h"
  by (induction near) (auto simp: hop_trusted_def)

lemma first_untrusted_hop_none:
  "list_all (hop_trusted ops proxies) hops \<Longrightarrow> first_untrusted_hop ops proxies hops = None"
  by (induction hops) (auto simp: hop_trusted_def)

lemma trusted_needs_proxies: "isTrustedProxyAddress ops ip proxies \<Longrightarrow> js_nullish proxies [] \<noteq> []"
  by (auto simp: isTrustedProxyAddress_def Let_def split: option.splits if_splits)

lemma parseIpLiteral_ne: "parseIpLiteral ops raw = Some h \<Longrightarrow> h \<noteq> []"
  by (auto simp: parseIpLiteral_def split: option.splits if_splits)

text \<open>C27: the client address cannot be forged through headers. When the peer is not a trusted proxy, its own
  address is the result whatever the headers say. When it is, the result is exactly the rightmost hop of the forwarded
  chain that is neither loopback nor a trusted proxy: whatever a client writes to the left of it changes nothing.
  Only when every hop is one of ours is there no such hop, and then the result is none, or, where the operator
  switched the real-ip fallback on, the address of that header.\<close>

theorem client_ip_not_forgeable:
  assumes "ip_normalize ops (ci_remoteAddr p) = Some remote" "remote \<noteq> []"
  shows "if isTrustedProxyAddress ops (Some remote) (ci_trustedProxies p)
    then (\<forall>far h near. forwardedChain ops (ci_forwardedFor p) = far @ h # near \<and> \<not> hop_trusted ops (ci_trustedProxies p) h
             \<and> list_all (hop_trusted ops (ci_trustedProxies p)) near \<longrightarrow> resolveClientIp ops p = Some h) \<and>
      (list_all (hop_trusted ops (ci_trustedProxies p)) (forwardedChain ops (ci_forwardedFor p)) \<longrightarrow>
         resolveClientIp ops p = (if ci_allowRealIpFallback p then parseIpLiteral ops (ci_realIp p) else None))
    else resolveClientIp ops p = Some remote"
proof (cases "isTrustedProxyAddress ops (Some remote) (ci_trustedProxies p)")
  case True
  then have res: "resolveClientIp ops p = (case resolveForwardedClientIp ops (ci_forwardedFor p) (ci_trustedProxies p) of
      Some ip \<Rightarrow> Some ip | None \<Rightarrow> if ci_allowRealIpFallback p then parseIpLiteral ops (ci_realIp p) else None)"
    using assms by (simp add: resolveClientIp_def)
  have forwarded: "resolveForwardedClientIp ops (ci_forwardedFor p) (ci_trustedProxies p) =
      first_untrusted_hop ops (ci_trustedProxies p) (rev (forwardedChain ops (ci_forwardedFor p)))"
    using trusted_needs_proxies [OF True] by (simp add: resolveForwardedClientIp_def Let_def)
  show ?thesis
    using True by (auto simp: res forwarded first_untrusted_hop_split first_untrusted_hop_none)
next
  case False
  with assms show ?thesis by (simp add: resolveClientIp_def)
qed

definition proxied_request :: "string \<Rightarrow> client_ip_params" where
  "proxied_request header = \<lparr>ci_remoteAddr = Some ''10.0.0.1'', ci_forwardedFor = Some header, ci_realIp = Some ''6.6.6.6'',
     ci_trustedProxies = Some [''10.0.0.1'', ''10.0.0.2''], ci_allowRealIpFallback = False\<rparr>"

definition direct_request :: client_ip_params where
  "direct_request = (proxied_request ''1.2.3.4'')\<lparr>ci_remoteAddr := Some ''9.9.9.9''\<rparr>"

theorem client_ip_not_forgeable_witness:
  "resolveClientIp sample_ops (proxied_request ''1.2.3.4,9.9.9.9,10.0.0.2'') = Some ''9.9.9.9'' \<and>
   resolveClientIp sample_ops (proxied_request ''10.0.0.2'') = None \<and>
   resolveClientIp sample_ops direct_request = Some ''9.9.9.9''"
proof -
  let ?forged = "proxied_request ''1.2.3.4,9.9.9.9,10.0.0.2''" and ?ours = "proxied_request ''10.0.0.2''"
  have ne: "''10.0.0.1'' \<noteq> ([] :: string)" "''9.9.9.9'' \<noteq> ([] :: string)" by simp_all
  have norm: "ip_normalize sample_ops (ci_remoteAddr ?forged) = Some ''10.0.0.1''"
    "ip_normalize sample_ops (ci_remoteAddr ?ours) = Some ''10.0.0.1''"
    "ip_normalize sample_ops (ci_remoteAddr direct_request) = Some ''9.9.9.9''" by code_simp+
  have trust: "isTrustedProxyAddress sample_ops (Some ''10.0.0.1'') (ci_trustedProxies ?forged)"
    "isTrustedProxyAddress sample_ops (Some ''10.0.0.1'') (ci_trustedProxies ?ours)"
    "\<not> isTrustedProxyAddress sample_ops (Some ''9.9.9.9'') (ci_trustedProxies direct_request)" by code_simp+
  have chain: "forwardedChain sample_ops (ci_forwardedFor ?forged) = [''1.2.3.4''] @ ''9.9.9.9'' # [''10.0.0.2'']"
    "\<not> hop_trusted sample_ops (ci_trustedProxies ?forged) ''9.9.9.9''"
    "list_all (hop_trusted sample_ops (ci_trustedProxies ?forged)) [''10.0.0.2'']"
    "list_all (hop_trusted sample_ops (ci_trustedProxies ?ours)) (forwardedChain sample_ops (ci_forwardedFor ?ours))"
    "\<not> ci_allowRealIpFallback ?ours" by code_simp+
  have "resolveClientIp sample_ops ?forged = Some ''9.9.9.9''"
    using client_ip_not_forgeable [OF norm(1) ne(1), unfolded if_P [OF trust(1)], THEN conjunct1, rule_format,
        OF conjI [OF chain(1) conjI [OF chain(2,3)]]] .
  moreover have "resolveClientIp sample_ops ?ours = None"
    using client_ip_not_forgeable [OF norm(2) ne(1)] trust(2) chain(4,5) by simp
  moreover have "resolveClientIp sample_ops direct_request = Some ''9.9.9.9''"
    using client_ip_not_forgeable [OF norm(3) ne(2)] trust(3) by simp
  ultimately show ?thesis by simp
qed

end
