(* ===== verification/CronSchedule.thy ===== *)
theory CronSchedule
  imports SessionKey "HOL-Library.Word"
begin

text \<open>
  Cron jobs and their schedules: the data of \<open>src/cron/types.ts\<close>, the schedule arithmetic of
  \<open>src/cron/schedule.ts\<close>, \<open>stagger.ts\<close>, \<open>parse.ts\<close>, \<open>service/timeout-policy.ts\<close> and the
  next-run functions of \<open>service/jobs.ts\<close>. Times are integers (milliseconds); numbers that the code
  rounds are rationals, \<open>None\<close> standing for a missing or non-finite one. The cron expression
  engine (\<open>croner\<close>), \<open>Date.parse\<close>, the SHA-256 digest and the host time zone are functions of
  a \<open>cron_env\<close>; a call that throws is an \<open>Inl\<close>. The memo caches of parsed expressions and of
  stagger offsets are not modelled (they hold results of pure functions).
\<close>

section \<open>Jobs\<close>

datatype at_ms = AtMsNumber int | AtMsText string | AtMsMissing

datatype cron_schedule =
    SchedAt "string option" at_ms
  | SchedEvery "rat option" "rat option"
  | SchedCron "string option" "string option" "string option" "rat option"

text \<open>
  \<open>SchedAt at atMs\<close> (the second field is the legacy one), \<open>SchedEvery everyMs anchorMs\<close>,
  \<open>SchedCron expr cron tz staggerMs\<close> (the second field is the legacy name of \<open>expr\<close>).
\<close>

datatype run_status = StatusOk | StatusError | StatusSkipped

datatype delivery_status = Delivered | NotDelivered | DeliveryUnknown | NotRequested

datatype delivery_mode = ModeNone | ModeAnnounce | ModeWebhook

record failure_destination =
  fd_channel :: "string option"
  fd_to :: "string option"
  fd_accountId :: "string option"
  fd_mode :: "delivery_mode option"

record cron_delivery =
  cd_mode :: "delivery_mode option"
  cd_channel :: "string option"
  cd_to :: "string option"
  cd_threadId :: "string option"
  cd_accountId :: "string option"
  cd_bestEffort :: "bool option"
  cd_failureDestination :: "failure_destination option"

record agent_turn =
  at_message :: string
  at_model :: "string option"
  at_fallbacks :: "string list option"
  at_thinking :: "string option"
  at_timeoutSeconds :: "rat option"
  at_allowUnsafeExternalContent :: "bool option"
  at_externalContentSource :: "string option"
  at_lightContext :: "bool option"
  at_toolsAllow :: "string list option"

datatype cron_payload = SystemEvent string | AgentTurn agent_turn

record failure_alert =
  fa_after :: "rat option"
  fa_channel :: "string option"
  fa_to :: "string option"
  fa_cooldownMs :: "rat option"
  fa_mode :: "delivery_mode option"
  fa_accountId :: "string option"

datatype alert_setting = AlertUnset | AlertOff | AlertOn failure_alert

datatype wake_mode = WakeNextHeartbeat | WakeNow

record job_state =
  js_nextRunAtMs :: "int option"
  js_runningAtMs :: "int option"
  js_lastRunAtMs :: "int option"
  js_lastRunStatus :: "run_status option"
  js_lastStatus :: "run_status option"
  js_lastError :: "string option"
  js_lastErrorReason :: "string option"
  js_lastDurationMs :: "int option"
  js_consecutiveErrors :: "nat option"
  js_lastFailureAlertAtMs :: "int option"
  js_scheduleErrorCount :: "nat option"
  js_lastDeliveryStatus :: "delivery_status option"
  js_lastDeliveryError :: "string option"
  js_lastDelivered :: "bool option"

definition empty_job_state :: job_state where
  "empty_job_state = \<lparr>js_nextRunAtMs = None, js_runningAtMs = None, js_lastRunAtMs = None, js_lastRunStatus = None,
     js_lastStatus = None, js_lastError = None, js_lastErrorReason = None, js_lastDurationMs = None,
     js_consecutiveErrors = None, js_lastFailureAlertAtMs = None, js_scheduleErrorCount = None,
     js_lastDeliveryStatus = None, js_lastDeliveryError = None, js_lastDelivered = None\<rparr>"

record cron_job =
  cj_id :: string
  cj_agentId :: "string option"
  cj_sessionKey :: "string option"
  cj_name :: string
  cj_description :: "string option"
  cj_enabled :: "bool option"
  cj_deleteAfterRun :: "bool option"
  cj_createdAtMs :: "int option"
  cj_updatedAtMs :: int
  cj_schedule :: cron_schedule
  cj_sessionTarget :: string
  cj_wakeMode :: wake_mode
  cj_payload :: cron_payload
  cj_delivery :: "cron_delivery option"
  cj_failureAlert :: alert_setting
  cj_state :: job_state

section \<open>The environment\<close>

type_synonym 'a throwing = "string + 'a"

record cron_env =
  ce_dateParse :: "string \<Rightarrow> int option"
  ce_nextRun :: "string \<Rightarrow> string \<Rightarrow> int \<Rightarrow> int option throwing"
  ce_previousRun :: "string \<Rightarrow> string \<Rightarrow> int \<Rightarrow> int option throwing"
  ce_localTimeZone :: string
  ce_digest :: "string \<Rightarrow> 32 word"

definition and_then :: "'a throwing \<Rightarrow> ('a \<Rightarrow> 'b throwing) \<Rightarrow> 'b throwing" where
  "and_then r f = (case r of Inl e \<Rightarrow> Inl e | Inr a \<Rightarrow> f a)"

lemma and_then_simps [simp]: "and_then (Inl e) f = Inl e" "and_then (Inr a) f = f a"
  by (simp_all add: and_then_def)

lemma and_then_Inr: "and_then r f = Inr b \<longleftrightarrow> (\<exists>a. r = Inr a \<and> f a = Inr b)"
  by (cases r) auto

section \<open>Absolute times\<close>

definition digit :: "char \<Rightarrow> bool" where
  "digit c \<longleftrightarrow> (let n = (of_char c :: nat) in 48 \<le> n \<and> n \<le> 57)"

fun number_of :: "nat \<Rightarrow> string \<Rightarrow> nat" where
  "number_of acc [] = acc"
| "number_of acc (c # cs) = number_of (10 * acc + (of_char c - 48)) cs"

text \<open>\<open>/^\d{4}-\d{2}-\d{2}/\<close> on the first ten characters\<close>

definition iso_date_prefix :: "string \<Rightarrow> bool" where
  "iso_date_prefix s \<longleftrightarrow> 10 \<le> length s \<and> list_all digit (take 4 s) \<and> s ! 4 = CHR ''-'' \<and>
     list_all digit (take 2 (drop 5 s)) \<and> s ! 7 = CHR ''-'' \<and> list_all digit (take 2 (drop 8 s))"

text \<open>\<open>/(Z|[+-]\d{2}:?\d{2})$/i\<close>\<close>

definition iso_tz_suffix :: "string \<Rightarrow> bool" where
  "iso_tz_suffix s \<longleftrightarrow> (case rev s of
       [] \<Rightarrow> False
     | c # cs \<Rightarrow> c = CHR ''Z'' \<or> c = CHR ''z'' \<or>
         (case c # cs of
            d # e # f # g # h # rest \<Rightarrow>
              (digit d \<and> digit e \<and> digit f \<and> digit g \<and> (h = CHR ''+'' \<or> h = CHR ''-'')) \<or>
              (digit d \<and> digit e \<and> f = CHR '':'' \<and> digit g \<and> digit h \<and>
                 (case rest of i # _ \<Rightarrow> i = CHR ''+'' \<or> i = CHR ''-'' | [] \<Rightarrow> False))
          | _ \<Rightarrow> False))"

definition normalizeUtcIso :: "string \<Rightarrow> string" where
  "normalizeUtcIso raw =
     (if iso_tz_suffix raw then raw
      else if iso_date_prefix raw \<and> length raw = 10 then raw @ ''T00:00:00Z''
      else if iso_date_prefix raw \<and> 10 < length raw \<and> raw ! 10 = CHR ''T'' then raw @ ''Z''
      else raw)"

definition parseAbsoluteTimeMs :: "cron_env \<Rightarrow> string \<Rightarrow> int option" where
  "parseAbsoluteTimeMs env input =
     (let raw = js_trim input in
      if raw = [] then None
      else if list_all digit raw \<and> 0 < number_of 0 raw then Some (int (number_of 0 raw))
      else ce_dateParse env (normalizeUtcIso raw))"

section \<open>Next and previous runs of a schedule\<close>

definition resolveCronTimezone :: "cron_env \<Rightarrow> string option \<Rightarrow> string" where
  "resolveCronTimezone env tz = js_or (js_nullish (normalizeOptionalString tz) []) (ce_localTimeZone env)"

text \<open>\<open>resolveCronFromSchedule\<close>: the expression and zone of the engine, \<open>None\<close> for a blank expression.\<close>

definition resolveCronFromSchedule ::
    "cron_env \<Rightarrow> string option \<Rightarrow> string option \<Rightarrow> string option \<Rightarrow> (string \<times> string) option throwing" where
  "resolveCronFromSchedule env expr cron tz =
     (case (case expr of Some e \<Rightarrow> Some e | None \<Rightarrow> cron) of
        None \<Rightarrow> Inl ''invalid cron schedule: expr is required''
      | Some src \<Rightarrow> (let e = js_trim src in
          if e = [] then Inr None else Inr (Some (e, resolveCronTimezone env tz))))"

definition at_time :: "cron_env \<Rightarrow> string option \<Rightarrow> at_ms \<Rightarrow> int option" where
  "at_time env atText atMs =
     (case atMs of
        AtMsNumber n \<Rightarrow> if n > 0 then Some n
          else (case atText of Some s \<Rightarrow> parseAbsoluteTimeMs env s | None \<Rightarrow> None)
      | AtMsText s \<Rightarrow> parseAbsoluteTimeMs env s
      | AtMsMissing \<Rightarrow> (case atText of Some s \<Rightarrow> parseAbsoluteTimeMs env s | None \<Rightarrow> None))"

definition everyNext :: "int \<Rightarrow> int \<Rightarrow> int \<Rightarrow> int" where
  "everyNext everyMs anchor nowMs =
     (if nowMs < anchor then anchor
      else let elapsed = nowMs - anchor;
               steps = max 1 ((elapsed + everyMs - 1) div everyMs)
           in anchor + steps * everyMs)"

definition cronNext :: "cron_env \<Rightarrow> string \<Rightarrow> string \<Rightarrow> int \<Rightarrow> int option throwing" where
  "cronNext env expr tz nowMs =
     and_then (ce_nextRun env expr tz nowMs) (\<lambda>next. case next of
       None \<Rightarrow> Inr None
     | Some nextMs \<Rightarrow>
         if nextMs \<le> nowMs then
           (let nextSecondMs = nowMs div 1000 * 1000 + 1000;
                tomorrowMs = nowMs div 86400000 * 86400000 + 86400000
            in and_then (ce_nextRun env expr tz nextSecondMs) (\<lambda>retry.
                 if (case retry of Some r \<Rightarrow> r > nowMs | None \<Rightarrow> False) then Inr retry
                 else and_then (ce_nextRun env expr tz tomorrowMs) (\<lambda>retry2.
                   if (case retry2 of Some r \<Rightarrow> r > nowMs | None \<Rightarrow> False) then Inr retry2 else Inr None)))
         else Inr (Some nextMs))"

definition computeNextRunAtMs :: "cron_env \<Rightarrow> cron_schedule \<Rightarrow> int \<Rightarrow> int option throwing" where
  "computeNextRunAtMs env schedule nowMs = (case schedule of
       SchedAt atText atMs \<Rightarrow> (case at_time env atText atMs of
           None \<Rightarrow> Inr None
         | Some t \<Rightarrow> Inr (if t > nowMs then Some t else None))
     | SchedEvery everyMsRaw anchorRaw \<Rightarrow> (case everyMsRaw of
           None \<Rightarrow> Inr None
         | Some raw \<Rightarrow>
             (let everyMs = max 1 \<lfloor>raw\<rfloor>;
                  anchor = max 0 \<lfloor>js_nullish anchorRaw (of_int nowMs)\<rfloor>
              in Inr (Some (everyNext everyMs anchor nowMs))))
     | SchedCron expr cron tz _ \<Rightarrow>
         and_then (resolveCronFromSchedule env expr cron tz) (\<lambda>c. case c of
           None \<Rightarrow> Inr None
         | Some (e, zone) \<Rightarrow> cronNext env e zone nowMs))"

definition computePreviousRunAtMs :: "cron_env \<Rightarrow> cron_schedule \<Rightarrow> int \<Rightarrow> int option throwing" where
  "computePreviousRunAtMs env schedule nowMs = (case schedule of
       SchedCron expr cron tz _ \<Rightarrow>
         and_then (resolveCronFromSchedule env expr cron tz) (\<lambda>c. case c of
           None \<Rightarrow> Inr None
         | Some (e, zone) \<Rightarrow> and_then (ce_previousRun env e zone nowMs) (\<lambda>previous. case previous of
             None \<Rightarrow> Inr None
           | Some p \<Rightarrow> Inr (if p \<ge> nowMs then None else Some p)))
     | _ \<Rightarrow> Inr None)"

section \<open>Staggering\<close>

definition DEFAULT_TOP_OF_HOUR_STAGGER_MS :: int where
  "DEFAULT_TOP_OF_HOUR_STAGGER_MS = 5 * 60 * 1000"

text \<open>\<open>expr.trim().split(/\s+/).filter(Boolean)\<close>\<close>

fun split_ws :: "string \<Rightarrow> string list" where
  "split_ws [] = [[]]"
| "split_ws (c # cs) = (if js_ws c then [] # split_ws cs
     else (case split_ws cs of [] \<Rightarrow> [[c]] | w # ws \<Rightarrow> (c # w) # ws))"

definition parseCronFields :: "string \<Rightarrow> string list" where
  "parseCronFields expr = filter (\<lambda>w. w \<noteq> []) (split_ws (js_trim expr))"

definition isRecurringTopOfHourCronExpr :: "string \<Rightarrow> bool" where
  "isRecurringTopOfHourCronExpr expr = (case parseCronFields expr of
       [minuteField, hourField, _, _, _] \<Rightarrow> minuteField = ''0'' \<and> CHR ''*'' \<in> set hourField
     | [secondField, minuteField, hourField, _, _, _] \<Rightarrow>
         secondField = ''0'' \<and> minuteField = ''0'' \<and> CHR ''*'' \<in> set hourField
     | _ \<Rightarrow> False)"

definition normalizeCronStaggerMs :: "rat option \<Rightarrow> int option" where
  "normalizeCronStaggerMs raw = map_option (\<lambda>n. max 0 \<lfloor>n\<rfloor>) raw"

definition resolveDefaultCronStaggerMs :: "string \<Rightarrow> int option" where
  "resolveDefaultCronStaggerMs expr =
     (if isRecurringTopOfHourCronExpr expr then Some DEFAULT_TOP_OF_HOUR_STAGGER_MS else None)"

definition resolveCronStaggerMs :: "string option \<Rightarrow> rat option \<Rightarrow> int" where
  "resolveCronStaggerMs expr staggerMs = (case normalizeCronStaggerMs staggerMs of
       Some explicit \<Rightarrow> explicit
     | None \<Rightarrow> js_nullish (resolveDefaultCronStaggerMs (js_nullish expr [])) 0)"

definition resolveStableCronOffsetMs :: "cron_env \<Rightarrow> string \<Rightarrow> int \<Rightarrow> int" where
  "resolveStableCronOffsetMs env jobId staggerMs =
     (if staggerMs \<le> 1 then 0 else uint (ce_digest env jobId) mod staggerMs)"

text \<open>The loops of at most four attempts.\<close>

fun staggeredNextLoop :: "cron_env \<Rightarrow> cron_schedule \<Rightarrow> int \<Rightarrow> int \<Rightarrow> nat \<Rightarrow> int \<Rightarrow> int option throwing" where
  "staggeredNextLoop env schedule offsetMs nowMs 0 cursorMs = Inr None"
| "staggeredNextLoop env schedule offsetMs nowMs (Suc attempts) cursorMs =
     and_then (computeNextRunAtMs env schedule cursorMs) (\<lambda>baseNext. case baseNext of
       None \<Rightarrow> Inr None
     | Some b \<Rightarrow>
         if b + offsetMs > nowMs then Inr (Some (b + offsetMs))
         else staggeredNextLoop env schedule offsetMs nowMs attempts (max (cursorMs + 1) (b + 1000)))"

fun staggeredPreviousLoop :: "cron_env \<Rightarrow> cron_schedule \<Rightarrow> int \<Rightarrow> int \<Rightarrow> nat \<Rightarrow> int \<Rightarrow> int option throwing" where
  "staggeredPreviousLoop env schedule offsetMs nowMs 0 cursorMs = Inr None"
| "staggeredPreviousLoop env schedule offsetMs nowMs (Suc attempts) cursorMs =
     and_then (computePreviousRunAtMs env schedule cursorMs) (\<lambda>basePrevious. case basePrevious of
       None \<Rightarrow> Inr None
     | Some b \<Rightarrow>
         if b + offsetMs \<le> nowMs then Inr (Some (b + offsetMs))
         else staggeredPreviousLoop env schedule offsetMs nowMs attempts (max 0 (b - 1000)))"

definition computeStaggeredCronNextRunAtMs :: "cron_env \<Rightarrow> cron_job \<Rightarrow> int \<Rightarrow> int option throwing" where
  "computeStaggeredCronNextRunAtMs env job nowMs = (case cj_schedule job of
       SchedCron expr cron tz staggerMs \<Rightarrow>
         (let offsetMs = resolveStableCronOffsetMs env (cj_id job) (resolveCronStaggerMs expr staggerMs) in
          if offsetMs \<le> 0 then computeNextRunAtMs env (cj_schedule job) nowMs
          else staggeredNextLoop env (cj_schedule job) offsetMs nowMs 4 (max 0 (nowMs - offsetMs)))
     | _ \<Rightarrow> computeNextRunAtMs env (cj_schedule job) nowMs)"

definition computeStaggeredCronPreviousRunAtMs :: "cron_env \<Rightarrow> cron_job \<Rightarrow> int \<Rightarrow> int option throwing" where
  "computeStaggeredCronPreviousRunAtMs env job nowMs = (case cj_schedule job of
       SchedCron expr cron tz staggerMs \<Rightarrow>
         (let offsetMs = resolveStableCronOffsetMs env (cj_id job) (resolveCronStaggerMs expr staggerMs) in
          if offsetMs \<le> 0 then computePreviousRunAtMs env (cj_schedule job) nowMs
          else staggeredPreviousLoop env (cj_schedule job) offsetMs nowMs 4 (max 0 (nowMs - offsetMs)))
     | _ \<Rightarrow> Inr None)"

section \<open>Next and previous runs of a job\<close>

definition resolveEveryAnchorMs :: "rat option \<Rightarrow> int option \<Rightarrow> int" where
  "resolveEveryAnchorMs anchorMs fallbackAnchorMs = (case anchorMs of
       Some c \<Rightarrow> max 0 \<lfloor>c\<rfloor>
     | None \<Rightarrow> (case fallbackAnchorMs of Some f \<Rightarrow> max 0 f | None \<Rightarrow> 0))"

definition isJobEnabled :: "cron_job \<Rightarrow> bool" where
  "isJobEnabled job = js_nullish (cj_enabled job) True"

definition computeJobNextRunAtMs :: "cron_env \<Rightarrow> cron_job \<Rightarrow> int \<Rightarrow> int option throwing" where
  "computeJobNextRunAtMs env job nowMs =
     (if \<not> isJobEnabled job then Inr None
      else case cj_schedule job of
        SchedEvery everyMsRaw anchorRaw \<Rightarrow> (case everyMsRaw of
            None \<Rightarrow> Inr None
          | Some raw \<Rightarrow>
              (let everyMs = max 1 \<lfloor>raw\<rfloor>;
                   fromLastRun = map_option (\<lambda>l. l + everyMs) (js_lastRunAtMs (cj_state job))
               in if (case fromLastRun of Some n \<Rightarrow> n > nowMs | None \<Rightarrow> False) then Inr fromLastRun
                  else computeNextRunAtMs env (SchedEvery (Some (of_int everyMs))
                    (Some (of_int (resolveEveryAnchorMs anchorRaw
                       (Some (js_nullish (cj_createdAtMs job) nowMs)))))) nowMs))
      | SchedAt atText atMs \<Rightarrow>
          (let t = at_time env atText atMs; lastRun = js_nullish (js_lastRunAtMs (cj_state job)) 0 in
           if js_lastStatus (cj_state job) = Some StatusOk \<and> lastRun \<noteq> 0 then
             Inr (case t of Some a \<Rightarrow> (if a > lastRun then Some a else None) | None \<Rightarrow> None)
           else Inr t)
      | SchedCron _ _ _ _ \<Rightarrow>
          and_then (computeStaggeredCronNextRunAtMs env job nowMs) (\<lambda>next. case next of
            None \<Rightarrow> computeStaggeredCronNextRunAtMs env job (nowMs div 1000 * 1000 + 1000)
          | Some n \<Rightarrow> Inr (Some n)))"

definition computeJobPreviousRunAtMs :: "cron_env \<Rightarrow> cron_job \<Rightarrow> int \<Rightarrow> int option throwing" where
  "computeJobPreviousRunAtMs env job nowMs =
     (if \<not> isJobEnabled job \<or> (case cj_schedule job of SchedCron _ _ _ _ \<Rightarrow> False | _ \<Rightarrow> True) then Inr None
      else computeStaggeredCronPreviousRunAtMs env job nowMs)"

section \<open>Timeouts\<close>

definition DEFAULT_JOB_TIMEOUT_MS :: int where "DEFAULT_JOB_TIMEOUT_MS = 10 * 60000"
definition AGENT_TURN_SAFETY_TIMEOUT_MS :: int where "AGENT_TURN_SAFETY_TIMEOUT_MS = 60 * 60000"

definition resolveCronJobTimeoutMs :: "cron_job \<Rightarrow> int option" where
  "resolveCronJobTimeoutMs job = (case cj_payload job of
       SystemEvent _ \<Rightarrow> Some DEFAULT_JOB_TIMEOUT_MS
     | AgentTurn t \<Rightarrow> (case at_timeoutSeconds t of
           None \<Rightarrow> Some AGENT_TURN_SAFETY_TIMEOUT_MS
         | Some s \<Rightarrow> (let configured = \<lfloor>s * 1000\<rfloor> in if configured \<le> 0 then None else Some configured)))"


section \<open>Interval schedules\<close>

lemma everyNext_bounds:
  assumes "0 < every" "anchor \<le> now"
  shows "now \<le> everyNext every anchor now" "everyNext every anchor now \<le> now + every"
    "every dvd everyNext every anchor now - anchor" "anchor < everyNext every anchor now"
proof -
  let ?q = "(now - anchor + every - 1) div every"
  have "?q * every + (now - anchor + every - 1) mod every = now - anchor + every - 1"
    by (rule div_mult_mod_eq)
  moreover have "0 \<le> (now - anchor + every - 1) mod every" "(now - anchor + every - 1) mod every < every"
    using assms by simp_all
  ultimately have q: "now - anchor \<le> ?q * every" "?q * every < now - anchor + every" by linarith+
  have next_eq: "everyNext every anchor now = anchor + max 1 ?q * every"
    using assms by (simp add: everyNext_def Let_def)
  show "every dvd everyNext every anchor now - anchor" by (simp add: next_eq)
  show "anchor < everyNext every anchor now"
    using assms by (simp add: next_eq)
  show "now \<le> everyNext every anchor now"
  proof (cases "1 \<le> ?q")
    case False
    then have "?q * every \<le> 0" using assms by (simp add: mult_nonpos_nonneg)
    with q next_eq False assms show ?thesis by simp
  qed (use q next_eq in \<open>simp add: max_def\<close>)
  show "everyNext every anchor now \<le> now + every"
  proof (cases "1 \<le> ?q")
    case False
    then show ?thesis using assms next_eq by simp
  qed (use q next_eq in \<open>simp add: max_def\<close>)
qed

lemma everyNext_ge: "0 < every \<Longrightarrow> now \<le> everyNext every anchor now"
  using everyNext_bounds(1) by (cases "anchor \<le> now") (auto simp: everyNext_def)

section \<open>Cron schedules\<close>

text \<open>\<open>r\<close> is the first element of \<open>occ\<close> after \<open>t\<close>, if any.\<close>

definition first_after :: "int set \<Rightarrow> int \<Rightarrow> int option \<Rightarrow> bool" where
  "first_after occ t r \<longleftrightarrow> (case r of None \<Rightarrow> \<forall>x \<in> occ. x \<le> t
     | Some n \<Rightarrow> n \<in> occ \<and> t < n \<and> (\<forall>x \<in> occ. t < x \<longrightarrow> n \<le> x))"

text \<open>The documented behaviour of the engine on an expression: the next occurrence strictly after a time.\<close>

definition engine_exact :: "cron_env \<Rightarrow> string \<Rightarrow> string \<Rightarrow> int set \<Rightarrow> bool" where
  "engine_exact env expr zone occ \<longleftrightarrow> (\<forall>t. \<exists>r. ce_nextRun env expr zone t = Inr r \<and> first_after occ t r)"

lemma cronNext_exact:
  assumes "engine_exact env e zone occ"
  obtains r where "cronNext env e zone t = Inr r" "first_after occ t r"
proof -
  obtain r where "ce_nextRun env e zone t = Inr r" "first_after occ t r"
    using assms unfolding engine_exact_def by blast
  then show thesis
    by (intro that [of r]) (auto simp: cronNext_def first_after_def split: option.splits)
qed

lemma first_after_shift: "first_after occ (t - d) r \<Longrightarrow> first_after ((\<lambda>x. x + d) ` occ) t (map_option (\<lambda>n. n + d) r)"
  by (cases r) (auto simp: first_after_def)

definition job_offset :: "cron_env \<Rightarrow> cron_job \<Rightarrow> int" where
  "job_offset env job = (case cj_schedule job of
     SchedCron expr cron tz staggerMs \<Rightarrow> resolveStableCronOffsetMs env (cj_id job) (resolveCronStaggerMs expr staggerMs)
   | _ \<Rightarrow> 0)"

lemma job_offset_nonneg: "0 \<le> job_offset env job"
  by (simp add: job_offset_def resolveStableCronOffsetMs_def split: cron_schedule.split)

lemma job_offset_bound:
  "cj_schedule job = SchedCron expr cron tz st \<Longrightarrow> job_offset env job < max 1 (resolveCronStaggerMs expr st)"
  by (simp add: job_offset_def resolveStableCronOffsetMs_def)

lemma staggered_exact:
  assumes sched: "cj_schedule job = SchedCron expr cron tz st"
    and src: "resolveCronFromSchedule env expr cron tz = Inr (Some (e, zone))"
    and engine: "engine_exact env e zone occ" and late: "job_offset env job \<le> now"
  obtains r where "computeStaggeredCronNextRunAtMs env job now = Inr r"
    "first_after ((\<lambda>x. x + job_offset env job) ` occ) now r"
proof -
  let ?d = "job_offset env job"
  have d: "resolveStableCronOffsetMs env (cj_id job) (resolveCronStaggerMs expr st) = ?d"
    by (simp add: job_offset_def sched)
  have comp: "computeNextRunAtMs env (cj_schedule job) t = cronNext env e zone t" for t
    by (simp add: computeNextRunAtMs_def sched src)
  obtain r where r: "cronNext env e zone (now - ?d) = Inr r" "first_after occ (now - ?d) r"
    by (rule cronNext_exact [OF engine])
  have res: "computeStaggeredCronNextRunAtMs env job now = Inr (map_option (\<lambda>n. n + ?d) r)"
  proof (cases "?d \<le> 0")
    case True
    then have "?d = 0" using job_offset_nonneg [of env job] by simp
    then show ?thesis
      using r by (simp add: computeStaggeredCronNextRunAtMs_def sched d Let_def)
        (simp add: comp [unfolded sched] option.map_ident)
  next
    case False
    have "max 0 (now - ?d) = now - ?d" using late by simp
    then have "computeStaggeredCronNextRunAtMs env job now = staggeredNextLoop env (cj_schedule job) ?d now 4 (now - ?d)"
      using False by (simp add: computeStaggeredCronNextRunAtMs_def sched d Let_def)
    also have "\<dots> = Inr (map_option (\<lambda>n. n + ?d) r)"
      using r by (cases r) (auto simp: eval_nat_numeral comp first_after_def)
    finally show ?thesis .
  qed
  show thesis
    by (rule that [OF res first_after_shift [OF r(2)]])
qed

lemma first_after_none_later: "first_after occ t None \<Longrightarrow> t \<le> u \<Longrightarrow> first_after occ u r \<Longrightarrow> r = None"
  by (cases r) (auto simp: first_after_def)

section \<open>Properties\<close>

text \<open>C28: a cron job runs in exactly its own staggered slots: if the engine returns the next occurrence of an
  expression strictly after a time, then the next run of an enabled cron job is the first time after now in the
  set of occurrences shifted by the job's offset (or nothing, when there is none): no slot is skipped and none
  is repeated, and the offset is less than the stagger window.\<close>

theorem cron_job_next_run_exact:
  assumes "isJobEnabled job" "cj_schedule job = SchedCron expr cron tz st"
    and "resolveCronFromSchedule env expr cron tz = Inr (Some (e, zone))"
    and "engine_exact env e zone occ" "job_offset env job \<le> now"
  shows "\<exists>r. computeJobNextRunAtMs env job now = Inr r \<and>
    first_after ((\<lambda>x. x + job_offset env job) ` occ) now r \<and>
    0 \<le> job_offset env job \<and> job_offset env job < max 1 (resolveCronStaggerMs expr st)"
proof -
  obtain r where r: "computeStaggeredCronNextRunAtMs env job now = Inr r"
    "first_after ((\<lambda>x. x + job_offset env job) ` occ) now r"
    by (rule staggered_exact [OF assms(2-5)])
  let ?u = "now div 1000 * 1000 + 1000"
  have u: "now \<le> ?u" using div_mult_mod_eq [of now 1000] pos_mod_bound [of 1000 now] by linarith
  obtain r' where r': "computeStaggeredCronNextRunAtMs env job ?u = Inr r'"
    "first_after ((\<lambda>x. x + job_offset env job) ` occ) ?u r'"
    by (rule staggered_exact [OF assms(2-4), of ?u]) (use assms(5) u in auto)
  have "computeJobNextRunAtMs env job now = Inr r"
  proof (cases r)
    case None
    with first_after_none_later [OF _ u r'(2)] r(2) have "r' = None" by simp
    with None r r'(1) assms(1,2) show ?thesis by (simp add: computeJobNextRunAtMs_def)
  qed (use r assms(1,2) in \<open>simp add: computeJobNextRunAtMs_def\<close>)
  with r(2) job_offset_nonneg job_offset_bound [OF assms(2)] show ?thesis by blast
qed

definition sample_job :: cron_job where
  "sample_job = \<lparr>cj_id = ''j1'', cj_agentId = None, cj_sessionKey = None, cj_name = ''report'', cj_description = None,
     cj_enabled = Some True, cj_deleteAfterRun = None, cj_createdAtMs = Some 1000, cj_updatedAtMs = 1000,
     cj_schedule = SchedCron (Some ''0 * * * *'') None None None, cj_sessionTarget = ''isolated'', cj_wakeMode = WakeNow,
     cj_payload = SystemEvent ''hi'', cj_delivery = None, cj_failureAlert = AlertUnset, cj_state = empty_job_state\<rparr>"

text \<open>An engine whose every expression occurs on the hour.\<close>

definition hourly_env :: cron_env where
  "hourly_env = \<lparr>ce_dateParse = (\<lambda>_. None), ce_nextRun = (\<lambda>_ _ t. Inr (Some ((t div 3600000 + 1) * 3600000))),
     ce_previousRun = (\<lambda>_ _ t. Inr (Some ((t - 1) div 3600000 * 3600000))), ce_localTimeZone = ''UTC'',
     ce_digest = (\<lambda>_. 42)\<rparr>"

lemma hourly_exact: "engine_exact hourly_env e zone (range (\<lambda>k. k * 3600000))"
proof -
  have "first_after (range (\<lambda>k. k * 3600000)) t (Some ((t div 3600000 + 1) * 3600000))" for t :: int
  proof -
    have "t < (t div 3600000 + 1) * 3600000"
      using div_mult_mod_eq [of t 3600000] pos_mod_bound [of 3600000 t] by (simp add: distrib_right)
    moreover have "(t div 3600000 + 1) * 3600000 \<le> k * 3600000" if "t < k * 3600000" for k
    proof -
      have "t div 3600000 < k" using that by (simp add: div_less_iff_less_mult)
      then have "t div 3600000 + 1 \<le> k" by simp
      then show ?thesis by (rule mult_right_mono) simp
    qed
    moreover have "(t div 3600000 + 1) * 3600000 \<in> range (\<lambda>k. k * 3600000)" by (rule rangeI)
    ultimately show ?thesis by (auto simp: first_after_def)
  qed
  then show ?thesis by (simp add: engine_exact_def hourly_env_def)
qed

theorem cron_job_next_run_exact_witness:
  "\<exists>r. computeJobNextRunAtMs hourly_env sample_job 7200000 = Inr r \<and>
    first_after ((\<lambda>x. x + job_offset hourly_env sample_job) ` range (\<lambda>k. k * 3600000)) 7200000 r \<and>
    0 \<le> job_offset hourly_env sample_job \<and>
    job_offset hourly_env sample_job < max 1 (resolveCronStaggerMs (Some ''0 * * * *'') None)"
  by (rule cron_job_next_run_exact [OF _ _ _ hourly_exact, where cron = None and tz = None and e = "''0 * * * *''" and zone = "''UTC''"])
    (code_simp, simp add: sample_job_def, code_simp, code_simp)

text \<open>An interval job is never more than one interval away: the next run of an enabled \<open>every\<close> job
  is not before now, and at most one interval after the later of now, its last run and its anchor; while the
  interval since the last run has not passed it is exactly the last run plus the interval, and otherwise it
  stays on the grid of its anchor.\<close>

theorem every_job_next_run_bounds:
  assumes "isJobEnabled job" "cj_schedule job = SchedEvery (Some raw) anchorRaw"
    and "every = max 1 \<lfloor>raw\<rfloor>" "anchor = resolveEveryAnchorMs anchorRaw (Some (js_nullish (cj_createdAtMs job) now))"
  shows "\<exists>t. computeJobNextRunAtMs env job now = Inr (Some t) \<and> now \<le> t \<and>
    t \<le> max (max now anchor) (js_nullish (js_lastRunAtMs (cj_state job)) now) + every \<and>
    (case js_lastRunAtMs (cj_state job) of
       Some l \<Rightarrow> if now < l + every then t = l + every else every dvd t - anchor
     | None \<Rightarrow> every dvd t - anchor)"
proof -
  have e: "0 < every" and a: "0 \<le> anchor"
    using assms(3,4) by (auto simp: resolveEveryAnchorMs_def split: option.split)
  have grid: "every dvd everyNext every anchor now - anchor" "now \<le> everyNext every anchor now"
    "everyNext every anchor now \<le> max now anchor + every"
    using everyNext_bounds [OF e, of anchor now] everyNext_ge [OF e] e
    by (cases "anchor \<le> now"; simp add: everyNext_def)+
  have comp: "computeNextRunAtMs env (SchedEvery (Some (of_int every)) (Some (of_int anchor))) now =
      Inr (Some (everyNext every anchor now))"
    using e a by (simp add: computeNextRunAtMs_def Let_def)
  show ?thesis
  proof (cases "js_lastRunAtMs (cj_state job)")
    case None
    then show ?thesis
      using assms comp grid by (auto simp: computeJobNextRunAtMs_def Let_def)
  next
    case (Some l)
    show ?thesis
    proof (cases "now < l + every")
      case True
      then show ?thesis using Some assms by (auto simp: computeJobNextRunAtMs_def Let_def)
    next
      case False
      then have "computeJobNextRunAtMs env job now = Inr (Some (everyNext every anchor now))"
        using Some assms comp by (simp add: computeJobNextRunAtMs_def Let_def)
      with grid Some False e show ?thesis by auto
    qed
  qed
qed

definition every_job :: cron_job where
  "every_job = sample_job\<lparr>cj_schedule := SchedEvery (Some 60000) None,
     cj_state := empty_job_state\<lparr>js_lastRunAtMs := Some 120000\<rparr>\<rparr>"

theorem every_job_next_run_bounds_witness:
  "\<exists>t. computeJobNextRunAtMs hourly_env every_job 150000 = Inr (Some t) \<and> 150000 \<le> t \<and>
    t \<le> max (max 150000 1000) (js_nullish (js_lastRunAtMs (cj_state every_job)) 150000) + 60000 \<and>
    (case js_lastRunAtMs (cj_state every_job) of
       Some l \<Rightarrow> if 150000 < l + 60000 then t = l + 60000 else 60000 dvd t - 1000
     | None \<Rightarrow> 60000 dvd t - 1000)"
  by (rule every_job_next_run_bounds [where raw = 60000 and anchorRaw = None])
    (simp_all add: every_job_def sample_job_def isJobEnabled_def resolveEveryAnchorMs_def)

end
