(* ===== verification/CronService.thy ===== *)
theory CronService
  imports CronSchedule
begin

text \<open>
  The cron service of \<open>src/cron/service/jobs.ts\<close> and \<open>src/cron/service/timer.ts\<close>, with the delivery
  plan of \<open>src/cron/delivery-plan.ts\<close>: how jobs become due, what the result of a run does to a job,
  the restart catch-up, and the timer loop. Operations on a job return the job and the effects
  they cause (notifications, alerts, events); the clock is an argument. The store file is an argument of
  the events that reload it. Logging, the session reaper and the task ledger are left out.
\<close>

section \<open>Dependencies and effects\<close>

record retry_config =
  rt_maxAttempts :: "int option"
  rt_backoffMs :: "int list option"
  rt_retryOn :: "string list option"

record alert_config =
  ga_enabled :: "bool option"
  ga_after :: "rat option"
  ga_cooldownMs :: "rat option"
  ga_mode :: "delivery_mode option"
  ga_accountId :: "string option"

record cron_deps =
  dp_env :: cron_env
  dp_cronEnabled :: bool
  dp_maxConcurrentRuns :: "rat option"
  dp_retry :: "retry_config option"
  dp_failureAlert :: "alert_config option"
  dp_hasAlertSender :: bool
  dp_maxMissedJobsPerRestart :: "int option"
  dp_missedJobStaggerMs :: "int option"
  dp_failoverReason :: "string \<Rightarrow> string option"

datatype cron_effect =
    NotifyAutoDisabled string string nat string
  | HeartbeatAutoDisabled string
  | SendFailureAlert string string nat string "string option" "delivery_mode option" "string option"
  | EnqueueFailureAlert string string nat "string option"
  | HeartbeatFailureAlert string
  | EmitStarted string int
  | EmitFinished string run_status
  | EmitRemoved string

section \<open>Schedule errors\<close>

definition MAX_SCHEDULE_ERRORS :: nat where "MAX_SCHEDULE_ERRORS = 3"

definition recordScheduleComputeError :: "cron_job \<Rightarrow> string \<Rightarrow> cron_job \<times> cron_effect list" where
  "recordScheduleComputeError job err =
     (let errorCount = js_nullish (js_scheduleErrorCount (cj_state job)) 0 + 1;
          job1 = job\<lparr>cj_state := (cj_state job)\<lparr>js_scheduleErrorCount := Some errorCount, js_nextRunAtMs := None,
                  js_lastError := Some (''schedule error: '' @ err)\<rparr>\<rparr>
      in if errorCount \<ge> MAX_SCHEDULE_ERRORS
         then (job1\<lparr>cj_enabled := Some False\<rparr>,
               [NotifyAutoDisabled (cj_id job) (cj_name job) errorCount err, HeartbeatAutoDisabled (cj_id job)])
         else (job1, []))"

section \<open>Maintenance\<close>

definition STUCK_RUN_MS :: int where "STUCK_RUN_MS = 2 * 60 * 60 * 1000"

definition normalize_anchor :: "cron_job \<Rightarrow> int \<Rightarrow> cron_job \<times> bool" where
  "normalize_anchor job nowMs = (case cj_schedule job of
       SchedEvery everyMs anchorMs \<Rightarrow>
         (let normalized = of_int (resolveEveryAnchorMs anchorMs (Some (js_nullish (cj_createdAtMs job) nowMs)))
          in if anchorMs \<noteq> Some normalized
             then (job\<lparr>cj_schedule := SchedEvery everyMs (Some normalized)\<rparr>, True) else (job, False))
     | _ \<Rightarrow> (job, False))"

text \<open>Result: the job, \<open>changed\<close> and \<open>skip\<close>.\<close>

definition normalizeJobTickState :: "cron_job \<Rightarrow> int \<Rightarrow> cron_job \<times> bool \<times> bool" where
  "normalizeJobTickState job0 nowMs =
     (let (job, changed0) = normalize_anchor job0 nowMs; st = cj_state job in
      if \<not> isJobEnabled job then
        (job\<lparr>cj_state := st\<lparr>js_nextRunAtMs := None, js_runningAtMs := None\<rparr>\<rparr>,
         changed0 \<or> js_nextRunAtMs st \<noteq> None \<or> js_runningAtMs st \<noteq> None, True)
      else case js_runningAtMs st of
          Some runningAt \<Rightarrow>
            if nowMs - runningAt > STUCK_RUN_MS
            then (job\<lparr>cj_state := st\<lparr>js_runningAtMs := None\<rparr>\<rparr>, True, False)
            else (job, changed0, False)
        | None \<Rightarrow> (job, changed0, False))"

definition recomputeJobNextRunAtMs :: "cron_deps \<Rightarrow> cron_job \<Rightarrow> int \<Rightarrow> cron_job \<times> bool \<times> cron_effect list" where
  "recomputeJobNextRunAtMs deps job nowMs = (case computeJobNextRunAtMs (dp_env deps) job nowMs of
       Inr newNext \<Rightarrow>
         (job\<lparr>cj_state := (cj_state job)\<lparr>js_nextRunAtMs := newNext,
             js_scheduleErrorCount := (if js_nullish (js_scheduleErrorCount (cj_state job)) 0 = 0
               then js_scheduleErrorCount (cj_state job) else None)\<rparr>\<rparr>,
          js_nextRunAtMs (cj_state job) \<noteq> newNext \<or> js_nullish (js_scheduleErrorCount (cj_state job)) 0 \<noteq> 0, [])
     | Inl err \<Rightarrow> (let (job1, effs) = recordScheduleComputeError job err in (job1, True, effs)))"

text \<open>\<open>walkSchedulableJobs\<close>: every job is normalised, the enabled ones are handed to \<open>f\<close>.\<close>

definition walk_job ::
    "(cron_job \<Rightarrow> int \<Rightarrow> cron_job \<times> bool \<times> cron_effect list) \<Rightarrow> int \<Rightarrow> cron_job \<Rightarrow> cron_job \<times> bool \<times> cron_effect list" where
  "walk_job f nowMs job =
     (let (job1, changed1, skip) = normalizeJobTickState job nowMs in
      if skip then (job1, changed1, [])
      else let (job2, changed2, effs) = f job1 nowMs in (job2, changed1 \<or> changed2, effs))"

definition walkSchedulableJobs ::
    "(cron_job \<Rightarrow> int \<Rightarrow> cron_job \<times> bool \<times> cron_effect list) \<Rightarrow> cron_job list \<Rightarrow> int
       \<Rightarrow> cron_job list \<times> bool \<times> cron_effect list" where
  "walkSchedulableJobs f jobs nowMs =
     (map (\<lambda>j. fst (walk_job f nowMs j)) jobs,
      list_ex (\<lambda>j. fst (snd (walk_job f nowMs j))) jobs,
      concat (map (\<lambda>j. snd (snd (walk_job f nowMs j))) jobs))"

definition recompute_if_due :: "cron_deps \<Rightarrow> cron_job \<Rightarrow> int \<Rightarrow> cron_job \<times> bool \<times> cron_effect list" where
  "recompute_if_due deps job now =
     (if (case js_nextRunAtMs (cj_state job) of None \<Rightarrow> True | Some nextRun \<Rightarrow> now \<ge> nextRun)
      then recomputeJobNextRunAtMs deps job now else (job, False, []))"

definition recomputeNextRuns :: "cron_deps \<Rightarrow> cron_job list \<Rightarrow> int \<Rightarrow> cron_job list \<times> bool \<times> cron_effect list" where
  "recomputeNextRuns deps jobs now = walkSchedulableJobs (recompute_if_due deps) jobs now"

definition maintain_job :: "cron_deps \<Rightarrow> bool \<Rightarrow> cron_job \<Rightarrow> int \<Rightarrow> cron_job \<times> bool \<times> cron_effect list" where
  "maintain_job deps recomputeExpired job now =
     (case js_nextRunAtMs (cj_state job) of
        None \<Rightarrow> recomputeJobNextRunAtMs deps job now
      | Some nextRun \<Rightarrow>
          if recomputeExpired \<and> now \<ge> nextRun \<and> js_runningAtMs (cj_state job) = None
             \<and> (case js_lastRunAtMs (cj_state job) of Some lastRun \<Rightarrow> lastRun \<ge> nextRun | None \<Rightarrow> False)
          then recomputeJobNextRunAtMs deps job now else (job, False, []))"

definition recomputeNextRunsForMaintenance ::
    "cron_deps \<Rightarrow> bool \<Rightarrow> cron_job list \<Rightarrow> int \<Rightarrow> cron_job list \<times> bool \<times> cron_effect list" where
  "recomputeNextRunsForMaintenance deps recomputeExpired jobs now =
     walkSchedulableJobs (maintain_job deps recomputeExpired) jobs now"

definition nextWakeAtMs :: "cron_job list \<Rightarrow> int option" where
  "nextWakeAtMs jobs =
     (case List.map_filter (\<lambda>j. if cj_enabled j = Some True then js_nextRunAtMs (cj_state j) else None) jobs of
        [] \<Rightarrow> None
      | first # rest \<Rightarrow> Some (foldl min first (first # rest)))"

section \<open>Which jobs are due\<close>

definition DEFAULT_BACKOFF_SCHEDULE_MS :: "int list" where
  "DEFAULT_BACKOFF_SCHEDULE_MS = [30000, 60000, 5 * 60000, 15 * 60000, 60 * 60000]"

definition errorBackoffMs :: "nat \<Rightarrow> int list \<Rightarrow> int" where
  "errorBackoffMs consecutiveErrors scheduleMs = scheduleMs ! min (consecutiveErrors - 1) (length scheduleMs - 1)"

definition is_at :: "cron_job \<Rightarrow> bool" where
  "is_at job \<longleftrightarrow> (case cj_schedule job of SchedAt _ _ \<Rightarrow> True | _ \<Rightarrow> False)"

definition is_every :: "cron_job \<Rightarrow> bool" where
  "is_every job \<longleftrightarrow> (case cj_schedule job of SchedEvery _ _ \<Rightarrow> True | _ \<Rightarrow> False)"

definition is_cron :: "cron_job \<Rightarrow> bool" where
  "is_cron job \<longleftrightarrow> (case cj_schedule job of SchedCron _ _ _ _ \<Rightarrow> True | _ \<Rightarrow> False)"

definition isErrorBackoffPending :: "cron_job \<Rightarrow> int \<Rightarrow> bool" where
  "isErrorBackoffPending job nowMs =
     (if is_at job \<or> js_lastStatus (cj_state job) \<noteq> Some StatusError then False
      else case js_lastRunAtMs (cj_state job) of
          None \<Rightarrow> False
        | Some lastRun \<Rightarrow>
            (let consecutiveErrors = (case js_consecutiveErrors (cj_state job) of Some n \<Rightarrow> max 1 n | None \<Rightarrow> 1)
             in nowMs < lastRun + errorBackoffMs consecutiveErrors DEFAULT_BACKOFF_SCHEDULE_MS))"

record runnable_opts =
  ro_skipJobIds :: "string list"
  ro_skipAtIfAlreadyRan :: bool
  ro_allowCronMissedRunByLastRun :: bool

definition tick_opts :: runnable_opts where
  "tick_opts = \<lparr>ro_skipJobIds = [], ro_skipAtIfAlreadyRan = False, ro_allowCronMissedRunByLastRun = False\<rparr>"

definition missed_slot :: "cron_deps \<Rightarrow> cron_job \<Rightarrow> int \<Rightarrow> bool" where
  "missed_slot deps job nowMs = (case computeJobPreviousRunAtMs (dp_env deps) job nowMs of
       Inl _ \<Rightarrow> False
     | Inr None \<Rightarrow> False
     | Inr (Some previousRun) \<Rightarrow> (case js_lastRunAtMs (cj_state job) of
           None \<Rightarrow> False | Some lastRun \<Rightarrow> previousRun > lastRun))"

definition isRunnableJob :: "cron_deps \<Rightarrow> runnable_opts \<Rightarrow> cron_job \<Rightarrow> int \<Rightarrow> bool" where
  "isRunnableJob deps opts job nowMs =
     (let st = cj_state job in
      if \<not> isJobEnabled job then False
      else if cj_id job \<in> set (ro_skipJobIds opts) then False
      else if js_runningAtMs st \<noteq> None then False
      else if ro_skipAtIfAlreadyRan opts \<and> is_at job \<and> js_lastStatus st \<noteq> None then
        (case (js_nextRunAtMs st, js_lastRunAtMs st) of
           (Some nextRun, Some lastRun) \<Rightarrow>
             if js_lastStatus st = Some StatusError \<and> nextRun > lastRun then nowMs \<ge> nextRun else False
         | _ \<Rightarrow> False)
      else if (case js_nextRunAtMs st of Some n \<Rightarrow> nowMs \<ge> n | None \<Rightarrow> False) then True
      else if (case js_nextRunAtMs st of Some n \<Rightarrow> n > nowMs | None \<Rightarrow> False) \<and> isErrorBackoffPending job nowMs then False
      else if \<not> ro_allowCronMissedRunByLastRun opts \<or> \<not> is_cron job then False
      else missed_slot deps job nowMs)"

definition collectRunnableJobs :: "cron_deps \<Rightarrow> runnable_opts \<Rightarrow> cron_job list \<Rightarrow> int \<Rightarrow> cron_job list" where
  "collectRunnableJobs deps opts jobs nowMs = filter (\<lambda>j. isRunnableJob deps opts j nowMs) jobs"

definition isJobDue :: "cron_job \<Rightarrow> int \<Rightarrow> bool \<Rightarrow> bool" where
  "isJobDue job nowMs forced =
     (if js_runningAtMs (cj_state job) \<noteq> None then False
      else if forced then True
      else isJobEnabled job \<and> (case js_nextRunAtMs (cj_state job) of Some n \<Rightarrow> nowMs \<ge> n | None \<Rightarrow> False))"

section \<open>Transient errors\<close>

text \<open>Substring and whole-word search in a lower-cased error text (the patterns ignore case).\<close>

fun contains :: "string \<Rightarrow> string \<Rightarrow> bool" where
  "contains [] sub \<longleftrightarrow> sub = []"
| "contains (c # cs) sub \<longleftrightarrow> js_starts_with (c # cs) sub \<or> contains cs sub"

definition word_char :: "char \<Rightarrow> bool" where
  "word_char c \<longleftrightarrow> id_alnum (fold_az c) \<or> c = CHR ''_''"

text \<open>\<open>\bw\b\<close>: \<open>before\<close> says whether the character before the text is a word character.\<close>

fun contains_word :: "bool \<Rightarrow> string \<Rightarrow> (string \<Rightarrow> nat option) \<Rightarrow> bool" where
  "contains_word before [] match \<longleftrightarrow> False"
| "contains_word before (c # cs) match \<longleftrightarrow>
     (\<not> before \<and> (case match (c # cs) of
        Some n \<Rightarrow> (case drop n (c # cs) of [] \<Rightarrow> True | d # _ \<Rightarrow> \<not> word_char d) | None \<Rightarrow> False))
     \<or> contains_word (word_char c) cs match"

definition literal :: "string \<Rightarrow> string \<Rightarrow> nat option" where
  "literal w s = (if js_starts_with s w then Some (length w) else None)"

definition status_5xx :: "string \<Rightarrow> nat option" where
  "status_5xx s = (case s of a # b # c # _ \<Rightarrow> if a = CHR ''5'' \<and> digit b \<and> digit c then Some 3 else None | _ \<Rightarrow> None)"

definition transientPattern :: "string \<Rightarrow> string \<Rightarrow> bool" where
  "transientPattern key err =
     (let e = js_lower err in
      if key = ''rate_limit'' then list_ex (contains e) [''rate_limit'', ''rate limit'', ''too many requests'', ''429'',
           ''resource has been exhausted'', ''cloudflare'', ''tokens per day'']
      else if key = ''overloaded'' then contains_word False e (literal ''529'') \<or>
           contains_word False e (literal ''overloaded'') \<or> contains_word False e (literal ''overloaded_error'') \<or>
           list_ex (contains e) [''high demand'', ''temporarily overloaded'', ''temporary overloaded'', ''capacity exceeded'']
      else if key = ''network'' then list_ex (contains e) [''network'', ''econnreset'', ''econnrefused'', ''fetch failed'', ''socket'']
      else if key = ''timeout'' then list_ex (contains e) [''timeout'', ''etimedout'']
      else if key = ''server_error'' then contains_word False e status_5xx
      else False)"

definition isTransientCronError :: "string option \<Rightarrow> string list option \<Rightarrow> bool" where
  "isTransientCronError err retryOn = (case err of
       None \<Rightarrow> False
     | Some e \<Rightarrow>
         e \<noteq> [] \<and> list_ex (\<lambda>k. transientPattern k e)
           (if js_nullish retryOn [] = [] then [''rate_limit'', ''overloaded'', ''network'', ''timeout'', ''server_error'']
            else js_nullish retryOn []))"

definition retryMaxAttempts :: "cron_deps \<Rightarrow> int" where
  "retryMaxAttempts deps = js_nullish (Option.bind (dp_retry deps) rt_maxAttempts) 3"

definition retryBackoffMs :: "cron_deps \<Rightarrow> int list" where
  "retryBackoffMs deps =
     (let b = js_nullish (Option.bind (dp_retry deps) rt_backoffMs) [] in
      if b = [] then take 3 DEFAULT_BACKOFF_SCHEDULE_MS else b)"

definition retryOn :: "cron_deps \<Rightarrow> string list option" where
  "retryOn deps = (case dp_retry deps of None \<Rightarrow> None
     | Some r \<Rightarrow> (if js_nullish (rt_retryOn r) [] = [] then None else rt_retryOn r))"

section \<open>Delivery\<close>

record delivery_plan =
  pl_mode :: delivery_mode
  pl_channel :: "string option"
  pl_to :: "string option"
  pl_threadId :: "string option"
  pl_accountId :: "string option"
  pl_requested :: bool

definition isolated_like :: "string \<Rightarrow> bool" where
  "isolated_like target \<longleftrightarrow> target = ''isolated'' \<or> target = ''current'' \<or> js_starts_with target ''session:''"

definition resolveCronDeliveryPlan :: "cron_job \<Rightarrow> delivery_plan" where
  "resolveCronDeliveryPlan job = (case cj_delivery job of
       Some delivery \<Rightarrow>
         (let resolvedMode = js_nullish (cd_mode delivery) ModeAnnounce;
              channel = js_nullish (normalizeOptionalLowercaseString (cd_channel delivery)) ''last''
          in \<lparr>pl_mode = resolvedMode,
              pl_channel = (if resolvedMode = ModeAnnounce then Some channel else None),
              pl_to = normalizeOptionalString (cd_to delivery),
              pl_threadId = (if resolvedMode = ModeAnnounce then normalizeOptionalString (cd_threadId delivery) else None),
              pl_accountId = normalizeOptionalString (cd_accountId delivery),
              pl_requested = (resolvedMode = ModeAnnounce)\<rparr>)
     | None \<Rightarrow>
         (let isIsolatedAgentTurn = ((case cj_payload job of AgentTurn _ \<Rightarrow> True | _ \<Rightarrow> False)
                \<and> isolated_like (cj_sessionTarget job));
              resolvedMode = (if isIsolatedAgentTurn then ModeAnnounce else ModeNone)
          in \<lparr>pl_mode = resolvedMode, pl_channel = (if resolvedMode = ModeAnnounce then Some ''last'' else None),
              pl_to = None, pl_threadId = None, pl_accountId = None, pl_requested = (resolvedMode = ModeAnnounce)\<rparr>))"

definition resolveDeliveryStatus :: "cron_job \<Rightarrow> bool option \<Rightarrow> delivery_status" where
  "resolveDeliveryStatus job delivered = (case delivered of
       Some True \<Rightarrow> Delivered
     | Some False \<Rightarrow> NotDelivered
     | None \<Rightarrow> if pl_requested (resolveCronDeliveryPlan job) then DeliveryUnknown else NotRequested)"

section \<open>Failure alerts\<close>

record failure_alert_plan =
  fp_after :: int
  fp_cooldownMs :: int
  fp_channel :: string
  fp_to :: "string option"
  fp_mode :: "delivery_mode option"
  fp_accountId :: "string option"

definition clampPositiveInt :: "rat option \<Rightarrow> int \<Rightarrow> int" where
  "clampPositiveInt value fallback = (case value of None \<Rightarrow> fallback
     | Some v \<Rightarrow> if \<lfloor>v\<rfloor> \<ge> 1 then \<lfloor>v\<rfloor> else fallback)"

definition clampNonNegativeInt :: "rat option \<Rightarrow> int \<Rightarrow> int" where
  "clampNonNegativeInt value fallback = (case value of None \<Rightarrow> fallback
     | Some v \<Rightarrow> if \<lfloor>v\<rfloor> \<ge> 0 then \<lfloor>v\<rfloor> else fallback)"

definition normalizeTo :: "string option \<Rightarrow> string option" where
  "normalizeTo input = (case input of None \<Rightarrow> None
     | Some s \<Rightarrow> (let t = js_trim s in if t = [] then None else Some t))"

text \<open>\<open>x?.field\<close> is \<open>Option.bind x field\<close>.\<close>

definition resolveFailureAlert :: "cron_deps \<Rightarrow> cron_job \<Rightarrow> failure_alert_plan option" where
  "resolveFailureAlert deps job =
     (let jobConfig = (case cj_failureAlert job of AlertOn a \<Rightarrow> Some a | _ \<Rightarrow> None);
          global = dp_failureAlert deps;
          mode = or_else (Option.bind jobConfig fa_mode) (Option.bind global ga_mode);
          explicitTo = normalizeTo (Option.bind jobConfig fa_to)
      in if cj_failureAlert job = AlertOff then None
         else if jobConfig = None \<and> Option.bind global ga_enabled \<noteq> Some True then None
         else Some \<lparr>fp_after = clampPositiveInt
                      (or_else (Option.bind jobConfig fa_after) (Option.bind global ga_after)) 2,
                    fp_cooldownMs = clampNonNegativeInt
                      (or_else (Option.bind jobConfig fa_cooldownMs) (Option.bind global ga_cooldownMs)) (60 * 60000),
                    fp_channel = js_nullish (or_else
                      (normalizeOptionalLowercaseString (Option.bind jobConfig fa_channel))
                      (normalizeOptionalLowercaseString (Option.bind (cj_delivery job) cd_channel))) ''last'',
                    fp_to = (if mode = Some ModeWebhook then explicitTo
                      else or_else explicitTo (normalizeTo (Option.bind (cj_delivery job) cd_to))),
                    fp_mode = mode,
                    fp_accountId = or_else (Option.bind jobConfig fa_accountId) (Option.bind global ga_accountId)\<rparr>)"

definition emitFailureAlert ::
    "cron_deps \<Rightarrow> cron_job \<Rightarrow> string option \<Rightarrow> nat \<Rightarrow> failure_alert_plan \<Rightarrow> cron_effect list" where
  "emitFailureAlert deps job err consecutiveErrors plan =
     (let truncatedError = take 200 (js_or (js_trim (js_nullish err [])) ''unknown error'') in
      if dp_hasAlertSender deps then
        [SendFailureAlert (js_or (cj_name job) (cj_id job)) truncatedError consecutiveErrors
           (fp_channel plan) (fp_to plan) (fp_mode plan) (fp_accountId plan)]
      else EnqueueFailureAlert (js_or (cj_name job) (cj_id job)) truncatedError consecutiveErrors (cj_agentId job)
        # (if cj_wakeMode job = WakeNow then [HeartbeatFailureAlert (cj_id job)] else []))"

section \<open>The result of a run\<close>

record run_result =
  rr_status :: run_status
  rr_error :: "string option"
  rr_delivered :: "bool option"
  rr_startedAt :: int
  rr_endedAt :: int

definition record_outcome :: "cron_deps \<Rightarrow> cron_job \<Rightarrow> run_result \<Rightarrow> cron_job" where
  "record_outcome deps job r =
     (let deliveryStatus = resolveDeliveryStatus job (rr_delivered r) in
      job\<lparr>cj_updatedAtMs := rr_endedAt r,
          cj_state := (cj_state job)\<lparr>
            js_runningAtMs := None, js_lastRunAtMs := Some (rr_startedAt r),
            js_lastRunStatus := Some (rr_status r), js_lastStatus := Some (rr_status r),
            js_lastDurationMs := Some (max 0 (rr_endedAt r - rr_startedAt r)),
            js_lastError := rr_error r,
            js_lastErrorReason := (if rr_status r = StatusError then
               (case rr_error r of Some e \<Rightarrow> dp_failoverReason deps e | None \<Rightarrow> None) else None),
            js_lastDelivered := rr_delivered r,
            js_lastDeliveryStatus := Some deliveryStatus,
            js_lastDeliveryError := (if deliveryStatus = NotDelivered \<and> js_nullish (rr_error r) [] \<noteq> []
               then rr_error r else None)\<rparr>\<rparr>)"

text \<open>Consecutive errors and the failure alert; \<open>now\<close> is the clock when an alert is considered.\<close>

definition track_errors :: "cron_deps \<Rightarrow> cron_job \<Rightarrow> run_result \<Rightarrow> int \<Rightarrow> cron_job \<times> cron_effect list" where
  "track_errors deps job r now =
     (if rr_status r = StatusError then
        (let errors = js_nullish (js_consecutiveErrors (cj_state job)) 0 + 1;
             job1 = job\<lparr>cj_state := (cj_state job)\<lparr>js_consecutiveErrors := Some errors\<rparr>\<rparr>
         in case resolveFailureAlert deps job1 of
              None \<Rightarrow> (job1, [])
            | Some plan \<Rightarrow>
                if int errors \<ge> fp_after plan
                   \<and> Option.bind (cj_delivery job) cd_bestEffort \<noteq> Some True
                   \<and> \<not> (case js_lastFailureAlertAtMs (cj_state job) of
                          Some lastAlert \<Rightarrow> now - lastAlert < max 0 (fp_cooldownMs plan) | None \<Rightarrow> False)
                then (job1\<lparr>cj_state := (cj_state job1)\<lparr>js_lastFailureAlertAtMs := Some now\<rparr>\<rparr>,
                      emitFailureAlert deps job1 (rr_error r) errors plan)
                else (job1, []))
      else (job\<lparr>cj_state := (cj_state job)\<lparr>js_consecutiveErrors := Some 0, js_lastFailureAlertAtMs := None\<rparr>\<rparr>, []))"

text \<open>\<open>computeNextWithPreservedLastRun\<close> and the plain computation, with the schedule error recorded.\<close>

definition natural_next ::
    "cron_deps \<Rightarrow> cron_job \<Rightarrow> int option \<Rightarrow> bool \<Rightarrow> int \<Rightarrow> int option \<times> cron_job \<times> cron_effect list" where
  "natural_next deps job prevLastRunAtMs preserveSchedule nowMs =
     (case (if preserveSchedule \<and> is_every job
            then computeJobNextRunAtMs (dp_env deps)
              (job\<lparr>cj_state := (cj_state job)\<lparr>js_lastRunAtMs := prevLastRunAtMs\<rparr>\<rparr>) nowMs
            else computeJobNextRunAtMs (dp_env deps) job nowMs) of
        Inr n \<Rightarrow> (n, job, [])
      | Inl err \<Rightarrow> (let (job1, effs) = recordScheduleComputeError job err in (None, job1, effs)))"

definition set_next :: "int option \<Rightarrow> cron_job \<Rightarrow> cron_job" where
  "set_next n job = job\<lparr>cj_state := (cj_state job)\<lparr>js_nextRunAtMs := n\<rparr>\<rparr>"

definition MIN_REFIRE_GAP_MS :: int where "MIN_REFIRE_GAP_MS = 2000"

definition one_shot_next :: "cron_deps \<Rightarrow> cron_job \<Rightarrow> run_result \<Rightarrow> cron_job" where
  "one_shot_next deps job r =
     (if rr_status r = StatusOk \<or> rr_status r = StatusSkipped then
        set_next None (job\<lparr>cj_enabled := Some False\<rparr>)
      else let consecutive = js_nullish (js_consecutiveErrors (cj_state job)) 0 in
        if isTransientCronError (rr_error r) (retryOn deps) \<and> int consecutive \<le> retryMaxAttempts deps
        then set_next (Some (rr_endedAt r + errorBackoffMs consecutive (retryBackoffMs deps))) job
        else set_next None (job\<lparr>cj_enabled := Some False\<rparr>))"

definition recurring_next ::
    "cron_deps \<Rightarrow> cron_job \<Rightarrow> run_result \<Rightarrow> int option \<Rightarrow> bool \<Rightarrow> cron_job \<times> cron_effect list" where
  "recurring_next deps job r prevLastRunAtMs preserveSchedule =
     (if \<not> isJobEnabled job then (set_next None job, [])
      else let (next, job1, effs) = natural_next deps job prevLastRunAtMs preserveSchedule (rr_endedAt r) in
        if rr_status r = StatusError then
          let backoffNext = rr_endedAt r
                + errorBackoffMs (js_nullish (js_consecutiveErrors (cj_state job)) 1) DEFAULT_BACKOFF_SCHEDULE_MS
          in (set_next (Some (case next of Some n \<Rightarrow> max n backoffNext | None \<Rightarrow> backoffNext)) job1, effs)
        else if is_cron job then
          let minNext = rr_endedAt r + MIN_REFIRE_GAP_MS
          in (set_next (Some (case next of Some n \<Rightarrow> max n minNext | None \<Rightarrow> minNext)) job1, effs)
        else (set_next next job1, effs))"

definition shouldDelete :: "cron_job \<Rightarrow> run_result \<Rightarrow> bool" where
  "shouldDelete job r \<longleftrightarrow> is_at job \<and> cj_deleteAfterRun job = Some True \<and> rr_status r = StatusOk"

definition applyJobResult ::
    "cron_deps \<Rightarrow> cron_job \<Rightarrow> run_result \<Rightarrow> bool \<Rightarrow> int \<Rightarrow> cron_job \<times> cron_effect list \<times> bool" where
  "applyJobResult deps job r preserveSchedule now =
     (let prevLastRunAtMs = js_lastRunAtMs (cj_state job);
          job1 = record_outcome deps job r;
          (job2, effs1) = track_errors deps job1 r now
      in if shouldDelete job2 r then (job2, effs1, True)
         else if is_at job2 then (one_shot_next deps job2 r, effs1, False)
         else let (job3, effs2) = recurring_next deps job2 r prevLastRunAtMs preserveSchedule
              in (job3, effs1 @ effs2, False))"

section \<open>The timer loop\<close>

text \<open>
  A tick in progress: the ids that are due, the next index a worker takes, the indices whose run is in flight
  with its start time, and the outcomes so far by index. \<open>Promise.all\<close> over the workers ends when no index is left
  and none is in flight.
\<close>

record tick =
  tk_due :: "string list"
  tk_cursor :: nat
  tk_inFlight :: "(nat \<times> int) list"
  tk_outcomes :: "(nat \<times> string \<times> run_result) list"

record cron_state =
  cs_store :: "cron_job list option"
  cs_running :: bool
  cs_timer :: "int option"
  cs_tick :: "tick option"
  cs_active :: "string list"
  cs_effects :: "cron_effect list"

definition cron_init :: cron_state where
  "cron_init = \<lparr>cs_store = None, cs_running = False, cs_timer = None, cs_tick = None, cs_active = [], cs_effects = []\<rparr>"

definition MAX_TIMER_DELAY_MS :: int where "MAX_TIMER_DELAY_MS = 60000"

definition jobs_of :: "cron_state \<Rightarrow> cron_job list" where
  "jobs_of s = js_nullish (cs_store s) []"

text \<open>\<open>armTimer\<close>: the delay of the pending timer, if one is set; a wake time of zero is falsy.\<close>

definition timer_delay :: "cron_deps \<Rightarrow> cron_job list \<Rightarrow> int \<Rightarrow> int option" where
  "timer_delay deps jobs now =
     (if \<not> dp_cronEnabled deps then None
      else case nextWakeAtMs jobs of
          None \<Rightarrow> None
        | Some nextAt \<Rightarrow>
            if nextAt = 0 then None
            else let delay = max (nextAt - now) 0;
                     flooredDelay = (if delay = 0 then MIN_REFIRE_GAP_MS else delay)
                 in Some (min flooredDelay MAX_TIMER_DELAY_MS))"

definition armTimer :: "cron_deps \<Rightarrow> cron_state \<Rightarrow> int \<Rightarrow> cron_state" where
  "armTimer deps s now = s\<lparr>cs_timer := timer_delay deps (jobs_of s) now\<rparr>"

definition armRunningRecheckTimer :: "cron_state \<Rightarrow> cron_state" where
  "armRunningRecheckTimer s = s\<lparr>cs_timer := Some MAX_TIMER_DELAY_MS\<rparr>"

definition stopTimer :: "cron_state \<Rightarrow> cron_state" where
  "stopTimer s = s\<lparr>cs_timer := None\<rparr>"

definition resolveRunConcurrency :: "cron_deps \<Rightarrow> nat" where
  "resolveRunConcurrency deps = (case dp_maxConcurrentRuns deps of None \<Rightarrow> 1 | Some raw \<Rightarrow> nat (max 1 \<lfloor>raw\<rfloor>))"

definition mark_running :: "string list \<Rightarrow> int \<Rightarrow> cron_job list \<Rightarrow> cron_job list" where
  "mark_running ids now jobs = map (\<lambda>j. if cj_id j \<in> set ids
     then j\<lparr>cj_state := (cj_state j)\<lparr>js_runningAtMs := Some now, js_lastError := None\<rparr>\<rparr> else j) jobs"

text \<open>The first locked section of \<open>onTimer\<close> after a reload that yields \<open>jobs\<close>.\<close>

definition begin_tick :: "cron_deps \<Rightarrow> cron_state \<Rightarrow> int \<Rightarrow> cron_job list \<Rightarrow> cron_state" where
  "begin_tick deps s now jobs =
     (let due = collectRunnableJobs deps tick_opts jobs now; ids = map cj_id due in
      if due = [] then
        (let (jobs1, _, effs) = recomputeNextRunsForMaintenance deps True jobs now in
         s\<lparr>cs_store := Some jobs1, cs_effects := cs_effects s @ effs,
           cs_tick := Some \<lparr>tk_due = [], tk_cursor = 0, tk_inFlight = [], tk_outcomes = []\<rparr>\<rparr>)
      else s\<lparr>cs_store := Some (mark_running ids now jobs),
             cs_tick := Some \<lparr>tk_due = ids, tk_cursor = 0, tk_inFlight = [], tk_outcomes = []\<rparr>\<rparr>)"

definition onTimer :: "cron_deps \<Rightarrow> cron_state \<Rightarrow> int \<Rightarrow> cron_job list \<Rightarrow> cron_state" where
  "onTimer deps s now jobs =
     (if cs_running s then armRunningRecheckTimer s
      else begin_tick deps (armRunningRecheckTimer (s\<lparr>cs_running := True\<rparr>)) now jobs)"

text \<open>A worker takes the next due job.\<close>

definition startRun :: "cron_state \<Rightarrow> int \<Rightarrow> cron_state" where
  "startRun s now = (case cs_tick s of
       None \<Rightarrow> s
     | Some t \<Rightarrow>
         (let i = tk_cursor t; jid = tk_due t ! i in
          s\<lparr>cs_store := map_option (map (\<lambda>j. if cj_id j = jid
              then j\<lparr>cj_state := (cj_state j)\<lparr>js_runningAtMs := Some now\<rparr>\<rparr> else j)) (cs_store s),
            cs_tick := Some (t\<lparr>tk_cursor := Suc i, tk_inFlight := tk_inFlight t @ [(i, now)]\<rparr>),
            cs_active := (if jid = [] then cs_active s else List.insert jid (cs_active s)),
            cs_effects := cs_effects s @ [EmitStarted jid now]\<rparr>))"

definition endRun :: "cron_state \<Rightarrow> nat \<Rightarrow> run_status \<Rightarrow> string option \<Rightarrow> bool option \<Rightarrow> int \<Rightarrow> cron_state" where
  "endRun s i status err delivered now = (case cs_tick s of
       None \<Rightarrow> s
     | Some t \<Rightarrow>
         s\<lparr>cs_tick := Some (t\<lparr>tk_inFlight := filter (\<lambda>p. fst p \<noteq> i) (tk_inFlight t),
             tk_outcomes := tk_outcomes t @ [(i, tk_due t ! i, \<lparr>rr_status = status, rr_error = err, rr_delivered = delivered,
               rr_startedAt = js_nullish (map_of (tk_inFlight t) i) now, rr_endedAt = now\<rparr>)]\<rparr>)\<rparr>)"

definition replace_job :: "cron_job \<Rightarrow> cron_job list \<Rightarrow> cron_job list" where
  "replace_job job jobs = (case find (\<lambda>j. cj_id j = cj_id job) jobs of None \<Rightarrow> jobs
     | Some _ \<Rightarrow> takeWhile (\<lambda>j. cj_id j \<noteq> cj_id job) jobs @ job # tl (dropWhile (\<lambda>j. cj_id j \<noteq> cj_id job) jobs))"

definition applyOutcomeToStoredJob ::
    "cron_deps \<Rightarrow> cron_state \<Rightarrow> string \<times> run_result \<Rightarrow> int \<Rightarrow> cron_state" where
  "applyOutcomeToStoredJob deps s0 outcome now =
     (let (jid, r) = outcome;
          s = s0\<lparr>cs_active := (if jid = [] then cs_active s0 else remove1 jid (cs_active s0))\<rparr>
      in case cs_store s of
           None \<Rightarrow> s
         | Some jobs \<Rightarrow> (case find (\<lambda>j. cj_id j = jid) jobs of
               None \<Rightarrow> s
             | Some job \<Rightarrow>
                 (let (job1, effs, del) = applyJobResult deps job r False now in
                  s\<lparr>cs_store := Some (if del then filter (\<lambda>j. cj_id j \<noteq> jid) jobs else replace_job job1 jobs),
                    cs_effects := cs_effects s @ effs @ [EmitFinished jid (rr_status r)]
                      @ (if del then [EmitRemoved jid] else [])\<rparr>)))"

text \<open>The second locked section (when something ran) and the \<open>finally\<close> block.\<close>

definition finish_tick :: "cron_deps \<Rightarrow> cron_state \<Rightarrow> int \<Rightarrow> cron_job list \<Rightarrow> cron_state" where
  "finish_tick deps s now jobs = (case cs_tick s of
       None \<Rightarrow> s
     | Some t \<Rightarrow>
         (let s1 = (if tk_outcomes t = [] then s
            else let s2 = foldl (\<lambda>st oc. applyOutcomeToStoredJob deps st oc now) (s\<lparr>cs_store := Some jobs\<rparr>)
                       (map snd (sort_key fst (tk_outcomes t)));
                     (jobs1, _, effs) = recomputeNextRunsForMaintenance deps False (jobs_of s2) now
                 in s2\<lparr>cs_store := Some jobs1, cs_effects := cs_effects s2 @ effs\<rparr>)
          in armTimer deps (s1\<lparr>cs_running := False, cs_tick := None\<rparr>) now))"

text \<open>A tick whose locked section throws (the store cannot be read or written), leaving some jobs in memory:
  only the \<open>finally\<close> block runs.\<close>

definition abort_tick :: "cron_deps \<Rightarrow> cron_state \<Rightarrow> int \<Rightarrow> cron_job list \<Rightarrow> cron_state" where
  "abort_tick deps s now jobs =
     armTimer deps (s\<lparr>cs_store := Some jobs, cs_running := False, cs_tick := None\<rparr>) now"

text \<open>
  Events: the pending timer fires (with the jobs read from the store), a worker starts the next due run, a run
  ends, the tick ends or throws, an operation of the service replaces the jobs and re-arms the timer
  (\<open>start\<close>, \<open>add\<close>, \<open>update\<close>, \<open>remove\<close>, the end of a manual run), an operation leaves other jobs in memory without
  arming it (the read path \<open>ensureLoadedForRead\<close>, the preflight and the reservation of a manual run, an operation
  that throws), and \<open>stop\<close>.
\<close>

datatype cron_event =
    TimerFires int "cron_job list"
  | RunStarts int
  | RunEnds nat run_status "string option" "bool option" int
  | TickEnds int "cron_job list"
  | TickThrows int "cron_job list"
  | JobsChange "cron_job list" int
  | JobsLeft "cron_job list"
  | CronStop

fun cron_step :: "cron_deps \<Rightarrow> cron_state \<Rightarrow> cron_event \<Rightarrow> cron_state" where
  "cron_step deps s (TimerFires now jobs) = onTimer deps (s\<lparr>cs_timer := None\<rparr>) now jobs"
| "cron_step deps s (RunStarts now) = startRun s now"
| "cron_step deps s (RunEnds i status err delivered now) = endRun s i status err delivered now"
| "cron_step deps s (TickEnds now jobs) = finish_tick deps s now jobs"
| "cron_step deps s (TickThrows now jobs) = abort_tick deps s now jobs"
| "cron_step deps s (JobsChange jobs now) = armTimer deps (s\<lparr>cs_store := Some jobs\<rparr>) now"
| "cron_step deps s (JobsLeft jobs) = s\<lparr>cs_store := Some jobs\<rparr>"
| "cron_step deps s CronStop = stopTimer s"

fun cron_enabled :: "cron_deps \<Rightarrow> cron_state \<Rightarrow> cron_event \<Rightarrow> bool" where
  "cron_enabled deps s (TimerFires now jobs) \<longleftrightarrow> cs_timer s \<noteq> None"
| "cron_enabled deps s (RunStarts now) \<longleftrightarrow> (case cs_tick s of None \<Rightarrow> False
     | Some t \<Rightarrow> tk_cursor t < length (tk_due t) \<and>
         length (tk_inFlight t) < min (resolveRunConcurrency deps) (max 1 (length (tk_due t))))"
| "cron_enabled deps s (RunEnds i status err delivered now) \<longleftrightarrow> (case cs_tick s of None \<Rightarrow> False
     | Some t \<Rightarrow> i \<in> fst ` set (tk_inFlight t))"
| "cron_enabled deps s (TickEnds now jobs) \<longleftrightarrow> (case cs_tick s of None \<Rightarrow> False
     | Some t \<Rightarrow> tk_cursor t = length (tk_due t) \<and> tk_inFlight t = [])"
| "cron_enabled deps s (TickThrows now jobs) \<longleftrightarrow> (case cs_tick s of None \<Rightarrow> False
     | Some t \<Rightarrow> tk_inFlight t = [] \<and> (tk_cursor t = 0 \<or> tk_cursor t = length (tk_due t)))"
| "cron_enabled deps s (JobsChange jobs now) \<longleftrightarrow> True"
| "cron_enabled deps s (JobsLeft jobs) \<longleftrightarrow> True"
| "cron_enabled deps s CronStop \<longleftrightarrow> True"

section \<open>Catch-up after a restart\<close>

definition DEFAULT_MISSED_JOB_STAGGER_MS :: int where "DEFAULT_MISSED_JOB_STAGGER_MS = 5000"
definition DEFAULT_MAX_MISSED_JOBS_PER_RESTART :: int where "DEFAULT_MAX_MISSED_JOBS_PER_RESTART = 5"

text \<open>Result: the jobs to run now, the ids deferred, and the store with the former marked running.\<close>

definition planStartupCatchup ::
    "cron_deps \<Rightarrow> string list \<Rightarrow> cron_job list \<Rightarrow> int \<Rightarrow> cron_job list \<times> string list \<times> cron_job list" where
  "planStartupCatchup deps skipJobIds jobs now =
     (let maxImmediate = nat (max 0 (js_nullish (dp_maxMissedJobsPerRestart deps) DEFAULT_MAX_MISSED_JOBS_PER_RESTART));
          missed = collectRunnableJobs deps \<lparr>ro_skipJobIds = skipJobIds, ro_skipAtIfAlreadyRan = True,
            ro_allowCronMissedRunByLastRun = True\<rparr> jobs now
      in if missed = [] then ([], [], jobs)
         else let sorted = sort_key (\<lambda>j. js_nullish (js_nextRunAtMs (cj_state j)) 0) missed;
                  candidates = take maxImmediate sorted;
                  deferred = drop maxImmediate sorted
              in (candidates, map cj_id deferred, mark_running (map cj_id candidates) now jobs))"

text \<open>Deferred jobs get slots one stagger apart.\<close>

fun defer_jobs :: "int \<Rightarrow> int \<Rightarrow> int \<Rightarrow> string list \<Rightarrow> cron_job list \<Rightarrow> cron_job list" where
  "defer_jobs baseNow offset stagger [] jobs = jobs"
| "defer_jobs baseNow offset stagger (jid # ids) jobs =
     (case find (\<lambda>j. cj_id j = jid) jobs of
        None \<Rightarrow> defer_jobs baseNow offset stagger ids jobs
      | Some job \<Rightarrow>
          if \<not> isJobEnabled job then defer_jobs baseNow offset stagger ids jobs
          else defer_jobs baseNow (offset + stagger) stagger ids
            (replace_job (set_next (Some (baseNow + offset)) job) jobs))"

definition applyStartupCatchupOutcomes ::
    "cron_deps \<Rightarrow> cron_state \<Rightarrow> string list \<Rightarrow> (string \<times> run_result) list \<Rightarrow> int \<Rightarrow> cron_state" where
  "applyStartupCatchupOutcomes deps s deferredJobIds outcomes now =
     (let staggerMs = max 0 (js_nullish (dp_missedJobStaggerMs deps) DEFAULT_MISSED_JOB_STAGGER_MS) in
      if cs_store s = None then s
      else let s1 = foldl (\<lambda>st oc. applyOutcomeToStoredJob deps st oc now) s outcomes;
               jobs1 = defer_jobs now staggerMs staggerMs deferredJobIds (jobs_of s1);
               (jobs2, _, effs) = recomputeNextRunsForMaintenance deps False jobs1 now
           in s1\<lparr>cs_store := Some jobs2, cs_effects := cs_effects s1 @ effs\<rparr>)"


section \<open>The timer loop never goes silent\<close>

definition no_wake :: "cron_job list \<Rightarrow> bool" where
  "no_wake jobs \<longleftrightarrow> nextWakeAtMs jobs = None \<or> nextWakeAtMs jobs = Some 0"

lemma timer_delay_none: "dp_cronEnabled deps \<Longrightarrow> timer_delay deps jobs now = None \<longleftrightarrow> no_wake jobs"
  by (auto simp: timer_delay_def no_wake_def Let_def split: option.split)

definition tick_ok :: "cron_deps \<Rightarrow> tick \<Rightarrow> bool" where
  "tick_ok deps t \<longleftrightarrow> tk_cursor t \<le> length (tk_due t) \<and>
     mset (map fst (tk_inFlight t)) + mset (map fst (tk_outcomes t)) = mset [0 ..< tk_cursor t] \<and>
     length (tk_inFlight t) \<le> resolveRunConcurrency deps \<and>
     list_all (\<lambda>(i, jid, _). jid = tk_due t ! i) (tk_outcomes t)"

definition tick_inv :: "cron_deps \<Rightarrow> cron_state \<Rightarrow> bool" where
  "tick_inv deps s \<longleftrightarrow> (cs_running s \<longleftrightarrow> cs_tick s \<noteq> None) \<and> (\<forall>t. cs_tick s = Some t \<longrightarrow> tick_ok deps t)"

lemma armTimer_live: "dp_cronEnabled deps \<Longrightarrow> cs_timer (armTimer deps s now) \<noteq> None \<or> no_wake (jobs_of (armTimer deps s now))"
  using timer_delay_none [of deps "jobs_of s" now] by (auto simp: armTimer_def jobs_of_def)

lemma armTimer_fields [simp]:
  "cs_running (armTimer deps s now) = cs_running s" "cs_tick (armTimer deps s now) = cs_tick s"
  "cs_store (armTimer deps s now) = cs_store s"
  by (simp_all add: armTimer_def)

lemma applyOutcome_fields [simp]:
  "cs_running (applyOutcomeToStoredJob deps s oc now) = cs_running s"
  "cs_tick (applyOutcomeToStoredJob deps s oc now) = cs_tick s"
  by (auto simp: applyOutcomeToStoredJob_def Let_def split: prod.split option.split)

lemma finish_tick_fields: "cs_tick s \<noteq> None \<Longrightarrow>
  cs_running (finish_tick deps s now jobs) = False \<and> cs_tick (finish_tick deps s now jobs) = None"
  by (auto simp: finish_tick_def Let_def split: option.split prod.split)

lemma finish_tick_live: "dp_cronEnabled deps \<Longrightarrow> cs_tick s \<noteq> None \<Longrightarrow>
  cs_timer (finish_tick deps s now jobs) \<noteq> None \<or> no_wake (jobs_of (finish_tick deps s now jobs))"
proof -
  assume en: "dp_cronEnabled deps" and t: "cs_tick s \<noteq> None"
  from t obtain s' where "finish_tick deps s now jobs = armTimer deps s' now"
    by (auto simp: finish_tick_def Let_def)
  with armTimer_live [OF en, of s' now] show ?thesis by simp
qed

lemma concurrency_pos: "1 \<le> resolveRunConcurrency deps"
  by (auto simp: resolveRunConcurrency_def nat_le_iff le_nat_iff split: option.split)

lemma begin_tick_fields:
  "cs_running (begin_tick deps s now jobs) = cs_running s"
  "\<exists>t. cs_tick (begin_tick deps s now jobs) = Some t \<and> tick_ok deps t \<and> tk_cursor t = 0"
  by (auto simp: begin_tick_def Let_def tick_ok_def split: prod.split)

lemma filter_neq_mset: "i \<in> fst ` set xs \<Longrightarrow> distinct (map fst xs) \<Longrightarrow>
  mset (map fst (filter (\<lambda>p. fst p \<noteq> i) xs)) = mset (map fst xs) - {#i#}"
proof (induction xs)
  case (Cons x xs)
  show ?case
  proof (cases "fst x = i")
    case True
    with Cons.prems have "i \<notin> fst ` set xs" by auto
    then have "filter (\<lambda>p. fst p \<noteq> i) xs = xs" by (induction xs) auto
    with True show ?thesis by simp
  next
    case False
    with Cons show ?thesis by auto
  qed
qed simp

lemma tick_ok_distinct:
  assumes "tick_ok deps t"
  shows "distinct (map fst (tk_inFlight t))" "set (map fst (tk_inFlight t)) \<subseteq> {..< tk_cursor t}"
proof -
  have eq: "mset (map fst (tk_inFlight t) @ map fst (tk_outcomes t)) = mset [0 ..< tk_cursor t]"
    using assms by (simp add: tick_ok_def)
  then have "distinct (map fst (tk_inFlight t) @ map fst (tk_outcomes t))"
    by (metis distinct_upt mset_eq_imp_distinct_iff)
  then show "distinct (map fst (tk_inFlight t))" by simp
  have "set (map fst (tk_inFlight t) @ map fst (tk_outcomes t)) = set [0 ..< tk_cursor t]"
    by (rule mset_eq_setD [OF eq])
  then have "fst ` set (tk_inFlight t) \<subseteq> {0..<tk_cursor t}"
    by (simp only: set_append set_map set_upt) blast
  then show "set (map fst (tk_inFlight t)) \<subseteq> {..< tk_cursor t}"
    by (simp add: lessThan_atLeast0)
qed

lemma startRun_ok:
  assumes "tick_ok deps t" "tk_cursor t < length (tk_due t)" "length (tk_inFlight t) < resolveRunConcurrency deps"
  shows "tick_ok deps (t\<lparr>tk_cursor := Suc (tk_cursor t), tk_inFlight := tk_inFlight t @ [(tk_cursor t, now)]\<rparr>)"
  using assms by (simp add: tick_ok_def)

lemma endRun_ok:
  assumes "tick_ok deps t" "i \<in> fst ` set (tk_inFlight t)"
  shows "tick_ok deps (t\<lparr>tk_inFlight := filter (\<lambda>p. fst p \<noteq> i) (tk_inFlight t),
    tk_outcomes := tk_outcomes t @ [(i, tk_due t ! i, r)]\<rparr>)"
proof -
  have m: "mset (map fst (filter (\<lambda>p. fst p \<noteq> i) (tk_inFlight t))) = mset (map fst (tk_inFlight t)) - {#i#}"
    by (rule filter_neq_mset [OF assms(2) tick_ok_distinct(1) [OF assms(1)]])
  have i: "i \<in># mset (map fst (tk_inFlight t))" using assms(2) by simp
  have "mset (map fst (filter (\<lambda>p. fst p \<noteq> i) (tk_inFlight t))) + add_mset i (mset (map fst (tk_outcomes t)))
      = mset [0 ..< tk_cursor t]"
    using assms(1) insert_DiffM [OF i] unfolding m tick_ok_def by (metis union_mset_add_mset_left union_mset_add_mset_right)
  moreover have "length (filter (\<lambda>p. fst p \<noteq> i) (tk_inFlight t)) \<le> resolveRunConcurrency deps"
    by (rule order_trans [OF length_filter_le]) (use assms(1) in \<open>simp add: tick_ok_def\<close>)
  ultimately show ?thesis
    using assms(1) unfolding tick_ok_def by (simp del: mset_map mset_upt)
qed

lemma tick_inv_step:
  assumes "tick_inv deps s" "cron_enabled deps s e"
  shows "tick_inv deps (cron_step deps s e)"
proof (cases e)
  case (TimerFires now jobs)
  show ?thesis
  proof (cases "cs_running s")
    case True
    with assms(1) show ?thesis
      by (simp add: TimerFires onTimer_def armRunningRecheckTimer_def tick_inv_def)
  next
    case False
    obtain t where "cs_tick (begin_tick deps (armRunningRecheckTimer (s\<lparr>cs_timer := None, cs_running := True\<rparr>)) now jobs) = Some t"
      "tick_ok deps t" using begin_tick_fields(2) by blast
    with False show ?thesis
      by (simp add: TimerFires onTimer_def tick_inv_def begin_tick_fields(1)) (simp add: armRunningRecheckTimer_def)
  qed
next
  case (RunStarts now)
  with assms obtain t where t: "cs_tick s = Some t" "tick_ok deps t" "tk_cursor t < length (tk_due t)"
    "length (tk_inFlight t) < resolveRunConcurrency deps" "cs_running s"
    by (auto simp: tick_inv_def split: option.splits)
  with startRun_ok [OF t(2-4), of now] show ?thesis
    by (simp add: RunStarts startRun_def tick_inv_def Let_def)
next
  case (RunEnds i status err delivered now)
  with assms obtain t where t: "cs_tick s = Some t" "tick_ok deps t" "i \<in> fst ` set (tk_inFlight t)" "cs_running s"
    by (auto simp: tick_inv_def split: option.splits)
  with endRun_ok [OF t(2,3)] show ?thesis
    by (simp add: RunEnds endRun_def tick_inv_def)
next
  case (TickEnds now jobs)
  with assms have "cs_tick s \<noteq> None" by (auto split: option.splits)
  then show ?thesis
    using finish_tick_fields [of s deps now jobs] by (auto simp: TickEnds tick_inv_def)
qed (use assms(1) in \<open>simp_all add: tick_inv_def abort_tick_def stopTimer_def\<close>)

lemma begin_tick_running [simp]: "cs_running s \<Longrightarrow> cs_running (begin_tick deps s now jobs)"
  by (simp add: begin_tick_fields)

text \<open>Every event but \<open>stop\<close> and one that leaves jobs without arming ends in a tick, an armed timer or jobs without a wake.\<close>

definition unarmed :: "cron_event \<Rightarrow> bool" where
  "unarmed e \<longleftrightarrow> (case e of JobsLeft _ \<Rightarrow> True | _ \<Rightarrow> False)"

lemma armed_step:
  assumes "tick_inv deps s" "cron_enabled deps s e" "e \<noteq> CronStop" "\<not> unarmed e" "dp_cronEnabled deps"
  shows "cs_running (cron_step deps s e) \<or> cs_timer (cron_step deps s e) \<noteq> None \<or> no_wake (jobs_of (cron_step deps s e))"
proof (cases e)
  case (TimerFires now jobs)
  then show ?thesis
    by (simp add: onTimer_def armRunningRecheckTimer_def begin_tick_running)
next
  case (TickEnds now jobs)
  with assms have "cs_tick s \<noteq> None" by (auto split: option.splits)
  then show ?thesis
    using finish_tick_live [OF assms(5), of s now jobs] by (auto simp: TickEnds)
next
  case (TickThrows now jobs)
  show ?thesis
    using armTimer_live [OF assms(5), of "s\<lparr>cs_store := Some jobs, cs_running := False, cs_tick := None\<rparr>" now]
    by (auto simp: TickThrows abort_tick_def)
next
  case (JobsChange jobs now)
  with armTimer_live [OF assms(5), of "s\<lparr>cs_store := Some jobs\<rparr>" now] show ?thesis by auto
qed (use assms in \<open>auto simp: tick_inv_def unarmed_def startRun_def endRun_def Let_def split: option.splits\<close>)

lemma unarmed_step:
  assumes "unarmed e"
  shows "cs_running (cron_step deps s e) = cs_running s" "cs_timer (cron_step deps s e) = cs_timer s"
  using assms by (cases e; simp add: unarmed_def)+

lemma tick_inv_init: "tick_inv deps cron_init"
  by (simp add: tick_inv_def cron_init_def)

interpretation tick_machine: event_machine cron_init "cron_enabled deps" "cron_step deps" "tick_inv deps" for deps
  by (rule event_machine.intro) (rule tick_inv_init, rule tick_inv_step)

section \<open>Outcomes of a tick\<close>

lemma sort_outcomes:
  assumes "tick_ok deps t" "tk_cursor t = length (tk_due t)" "tk_inFlight t = []"
  shows "map fst (map snd (sort_key fst (tk_outcomes t))) = tk_due t"
proof -
  let ?o = "sort_key fst (tk_outcomes t)"
  have "mset (map fst ?o) = mset [0 ..< length (tk_due t)]"
    using assms by (simp add: tick_ok_def)
  then have idx: "map fst ?o = [0 ..< length (tk_due t)]"
    using properties_for_sort [of "map fst ?o" "[0 ..< length (tk_due t)]"]
      properties_for_sort [OF refl sorted_upt, of 0 "length (tk_due t)"] by simp
  have "list_all (\<lambda>(i, jid, _). jid = tk_due t ! i) ?o"
    using assms(1) by (simp add: tick_ok_def list_all_iff)
  then have "map fst (map snd ?o) = map ((!) (tk_due t)) (map fst ?o)"
    by (auto simp: list_all_iff)
  then show ?thesis by (simp only: idx map_nth)
qed


text \<open>C30: a tick runs each due job exactly once and respects the concurrency limit: in every reachable state
  (also when \<open>stop\<close> interleaves) at most the configured number of runs is in flight, every due index a worker
  has taken is either in flight or has exactly one outcome, and once all runs are over, the results that are
  applied to the store are, in order, one for each job that was due.\<close>

theorem cron_tick_runs_each_due_job_once:
  assumes "reach cron_init (cron_enabled deps) (cron_step deps) s" "cs_tick s = Some t"
  shows "length (tk_inFlight t) \<le> resolveRunConcurrency deps \<and>
    mset (map fst (tk_inFlight t)) + mset (map fst (tk_outcomes t)) = mset [0 ..< tk_cursor t] \<and>
    (if tk_cursor t = length (tk_due t) \<and> tk_inFlight t = []
     then map fst (map snd (sort_key fst (tk_outcomes t))) = tk_due t else tk_cursor t \<le> length (tk_due t))"
proof -
  have ok: "tick_ok deps t"
    using tick_machine.inv_reach [OF assms(1)] assms(2) by (simp add: tick_inv_def)
  then show ?thesis
    using sort_outcomes [OF ok] by (simp add: tick_ok_def del: map_map)
qed

lemma run_ok_append: "run_ok en step s (xs @ ys) \<longleftrightarrow> run_ok en step s xs \<and> run_ok en step (foldl step s xs) ys"
  by (induction xs arbitrary: s) auto

text \<open>C29: the scheduler is never silent: over every sequence of events without \<open>stop\<close>, if cron is enabled, then a tick is
  in progress, or a timer is armed, or there was nothing to wake up for when the timer was last set: since then only
  operations that do not arm it took place (reads, refused or throwing operations, reservations), and no enabled
  job had a next run at that time (a wake time of zero counts as none). In particular nothing that arms the timer
  (an edit that succeeds, the end of a run or of a tick, a tick that throws) leaves a store with a wake time
  without a timer.\<close>

theorem cron_timer_never_lost:
  assumes "run_ok (cron_enabled deps) (cron_step deps) cron_init es" "CronStop \<notin> set es" "dp_cronEnabled deps"
  shows "let s = foldl (cron_step deps) cron_init es in
    cs_running s \<or> cs_timer s \<noteq> None \<or>
    (\<exists>before since. es = before @ since \<and> list_all unarmed since \<and>
       no_wake (jobs_of (foldl (cron_step deps) cron_init before)))"
  using assms(1,2)
proof (induction es rule: rev_induct)
  case Nil
  have "no_wake (jobs_of cron_init)"
    by (simp add: cron_init_def no_wake_def jobs_of_def nextWakeAtMs_def List.map_filter_def)
  then show ?case by simp
next
  case (snoc e es)
  let ?s = "foldl (cron_step deps) cron_init es"
  from snoc.prems have ok: "run_ok (cron_enabled deps) (cron_step deps) cron_init es" "cron_enabled deps ?s e"
    by (simp_all add: run_ok_append)
  have inv: "tick_inv deps ?s" by (rule tick_machine.inv_reach [OF reach_from_init [OF ok(1)]])
  show ?case
  proof (cases "unarmed e")
    case True
    from snoc.IH [OF ok(1)] snoc.prems(2)
    consider "cs_running ?s \<or> cs_timer ?s \<noteq> None"
      | before since where "es = before @ since" "list_all unarmed since" "no_wake (jobs_of (foldl (cron_step deps) cron_init before))"
      by (auto simp: Let_def)
    then show ?thesis
    proof cases
      case 1
      with unarmed_step [OF True, of deps ?s]
      have "cs_running (foldl (cron_step deps) cron_init (es @ [e])) \<or> cs_timer (foldl (cron_step deps) cron_init (es @ [e])) \<noteq> None"
        by simp
      then show ?thesis unfolding Let_def by blast
    next
      case 2
      then have "es @ [e] = before @ (since @ [e]) \<and> list_all unarmed (since @ [e])" using True by simp
      with 2(3) show ?thesis unfolding Let_def by blast
    qed
  next
    case False
    have "e \<noteq> CronStop" using snoc.prems(2) by auto
    from armed_step [OF inv ok(2) this False assms(3)]
    have "cs_running (foldl (cron_step deps) cron_init (es @ [e])) \<or> cs_timer (foldl (cron_step deps) cron_init (es @ [e])) \<noteq> None
        \<or> no_wake (jobs_of (foldl (cron_step deps) cron_init (es @ [e])))" by simp
    moreover have "es @ [e] = (es @ [e]) @ [] \<and> list_all unarmed []" by simp
    ultimately show ?thesis unfolding Let_def by blast
  qed
qed


text \<open>A deployment with one hourly job and default settings, and a tick that runs it.\<close>

definition sample_deps :: cron_deps where
  "sample_deps = \<lparr>dp_env = hourly_env, dp_cronEnabled = True, dp_maxConcurrentRuns = None, dp_retry = None,
     dp_failureAlert = None, dp_hasAlertSender = False, dp_maxMissedJobsPerRestart = None,
     dp_missedJobStaggerMs = None, dp_failoverReason = (\<lambda>_. None)\<rparr>"

definition ready_job :: cron_job where
  "ready_job = set_next (Some 7200000) sample_job"

definition sample_tick :: "cron_event list" where
  "sample_tick = [JobsChange [ready_job] 7000000, TimerFires 7200005 [ready_job], RunStarts 7200006,
     RunEnds 0 StatusOk None None 7200900]"

theorem cron_tick_runs_each_due_job_once_witness:
  "cs_tick (foldl (cron_step sample_deps) cron_init sample_tick) =
     Some \<lparr>tk_due = [''j1''], tk_cursor = 1, tk_inFlight = [], tk_outcomes = [(0, ''j1'',
       \<lparr>rr_status = StatusOk, rr_error = None, rr_delivered = None, rr_startedAt = 7200006, rr_endedAt = 7200900\<rparr>)]\<rparr>
   \<and> length (tk_inFlight (the (cs_tick (foldl (cron_step sample_deps) cron_init sample_tick)))) \<le> 1"
proof -
  have t: "cs_tick (foldl (cron_step sample_deps) cron_init sample_tick) =
     Some \<lparr>tk_due = [''j1''], tk_cursor = 1, tk_inFlight = [], tk_outcomes = [(0, ''j1'',
       \<lparr>rr_status = StatusOk, rr_error = None, rr_delivered = None, rr_startedAt = 7200006, rr_endedAt = 7200900\<rparr>)]\<rparr>"
    by code_simp
  have "reach cron_init (cron_enabled sample_deps) (cron_step sample_deps)
      (foldl (cron_step sample_deps) cron_init sample_tick)"
    by (rule reach_from_init) code_simp
  from cron_tick_runs_each_due_job_once [OF this t] t show ?thesis
    by (simp add: resolveRunConcurrency_def sample_deps_def)
qed

theorem cron_timer_never_lost_witness:
  "cs_timer (foldl (cron_step sample_deps) cron_init (sample_tick @ [TickEnds 7201000 [ready_job], JobsLeft [ready_job]])) \<noteq> None"
proof -
  let ?es = "sample_tick @ [TickEnds 7201000 [ready_job], JobsLeft [ready_job]]"
  have run: "run_ok (cron_enabled sample_deps) (cron_step sample_deps) cron_init ?es" "CronStop \<notin> set ?es"
    "dp_cronEnabled sample_deps" by code_simp+
  have idle: "\<not> cs_running (foldl (cron_step sample_deps) cron_init ?es)" by code_simp
  have wakes: "\<not> no_wake (jobs_of (foldl (cron_step sample_deps) cron_init (take n ?es)))" if "n \<in> {5, 6}" for n
    using that by (elim insertE emptyE; hypsubst; code_simp)
  have "list_all (\<lambda>n. \<not> list_all unarmed (drop n ?es)) [0..<5]" by code_simp
  then have armed: "\<not> list_all unarmed (drop n ?es)" if "n < 5" for n using that by (auto simp: list_all_iff)
  have "\<not> (\<exists>before since. ?es = before @ since \<and> list_all unarmed since \<and>
       no_wake (jobs_of (foldl (cron_step sample_deps) cron_init before)))"
  proof (intro notI, elim exE conjE)
    fix before since
    assume split: "?es = before @ since" and quiet: "list_all unarmed since"
      and silent: "no_wake (jobs_of (foldl (cron_step sample_deps) cron_init before))"
    define n where "n = length before"
    have parts: "before = take n ?es" "since = drop n ?es" by (simp_all add: split n_def)
    have "length ?es = 6" by (simp add: sample_tick_def)
    then have "n \<le> 6" using arg_cong [OF split, of length] by (simp add: n_def)
    moreover have "\<not> n < 5" using armed [of n] quiet [unfolded parts(2)] by blast
    ultimately have "n \<in> {5, 6}" by auto
    from wakes [OF this] silent [unfolded parts(1)] show False by blast
  qed
  with cron_timer_never_lost [OF run] idle show ?thesis by (simp add: Let_def)
qed

text \<open>
  A read of a store without a wake time can give it its first one without arming the timer: the job is due, and
  nothing fires.
\<close>

definition unscheduled_job :: cron_job where
  "unscheduled_job = set_next None ready_job"

lemma read_can_leave_silence:
  "let s = foldl (cron_step sample_deps) cron_init
         [JobsChange [unscheduled_job] 7000000,
          JobsLeft (fst (recomputeNextRunsForMaintenance sample_deps False [unscheduled_job] 7000001))]
   in \<not> cs_running s \<and> cs_timer s = None \<and> \<not> no_wake (jobs_of s)"
  by code_simp

section \<open>When the timer fires\<close>

lemma foldl_min_le:
  fixes a :: int
  shows "foldl min a xs \<le> a \<and> list_all (\<lambda>x. foldl min a xs \<le> x) xs"
proof (induction xs arbitrary: a)
  case (Cons x xs)
  from Cons [of "min a x"] show ?case by simp
qed simp

lemma nextWakeAtMs_le:
  assumes "job \<in> set jobs" "cj_enabled job = Some True" "js_nextRunAtMs (cj_state job) = Some n"
  shows "\<exists>w. nextWakeAtMs jobs = Some w \<and> w \<le> n"
proof -
  let ?f = "\<lambda>j. if cj_enabled j = Some True then js_nextRunAtMs (cj_state j) else None"
  have m: "n \<in> set (List.map_filter ?f jobs)"
    using assms by (force simp: List.map_filter_def)
  then obtain a as where as: "List.map_filter ?f jobs = a # as" by (cases "List.map_filter ?f jobs") auto
  with m foldl_min_le [of a "a # as"] show ?thesis by (auto simp: nextWakeAtMs_def list_all_iff)
qed

text \<open>the timer covers every job: when cron is enabled and the wake time is not zero, arming the timer for
  a store with an enabled job whose next run is \<open>n\<close> gives a delay of at least one millisecond and at most a
  minute that ends no later than \<open>n\<close>, or two seconds from now when a job is overdue.\<close>

theorem cron_timer_covers_every_job:
  assumes "dp_cronEnabled deps" "job \<in> set jobs" "cj_enabled job = Some True"
    and "js_nextRunAtMs (cj_state job) = Some n" "nextWakeAtMs jobs \<noteq> Some 0"
  shows "\<exists>d. timer_delay deps jobs now = Some d \<and> 0 < d \<and> d \<le> 60000 \<and> now + d \<le> max n (now + 2000)"
proof -
  obtain w where "nextWakeAtMs jobs = Some w" "w \<le> n"
    using nextWakeAtMs_le [OF assms(2-4)] by blast
  with assms show ?thesis
    by (auto simp: timer_delay_def Let_def MIN_REFIRE_GAP_MS_def MAX_TIMER_DELAY_MS_def)
qed

theorem cron_timer_covers_every_job_witness:
  "\<exists>d. timer_delay sample_deps [sample_job, ready_job] 7199000 = Some d \<and> 0 < d \<and> d \<le> 60000 \<and>
    7199000 + d \<le> max 7200000 (7199000 + 2000)"
  by (rule cron_timer_covers_every_job [where job = ready_job]) code_simp+

section \<open>Backoff after an error\<close>

lemma errorBackoff_bounds:
  "30000 \<le> errorBackoffMs n DEFAULT_BACKOFF_SCHEDULE_MS" "errorBackoffMs n DEFAULT_BACKOFF_SCHEDULE_MS \<le> 3600000"
proof -
  have "min (n - 1) 4 \<in> {0, 1, 2, 3, 4}" by auto
  then show "30000 \<le> errorBackoffMs n DEFAULT_BACKOFF_SCHEDULE_MS"
    "errorBackoffMs n DEFAULT_BACKOFF_SCHEDULE_MS \<le> 3600000"
    by (auto simp: errorBackoffMs_def DEFAULT_BACKOFF_SCHEDULE_MS_def eval_nat_numeral)
qed

lemma set_next_simps [simp]:
  "js_nextRunAtMs (cj_state (set_next n job)) = n" "cj_enabled (set_next n job) = cj_enabled job"
  "cj_schedule (set_next n job) = cj_schedule job" "cj_id (set_next n job) = cj_id job"
  "js_consecutiveErrors (cj_state (set_next n job)) = js_consecutiveErrors (cj_state job)"
  "js_runningAtMs (cj_state (set_next n job)) = js_runningAtMs (cj_state job)"
  "js_lastRunAtMs (cj_state (set_next n job)) = js_lastRunAtMs (cj_state job)"
  "isJobEnabled (set_next n job) = isJobEnabled job"
  by (simp_all add: set_next_def isJobEnabled_def)

lemma record_outcome_simps [simp]:
  "cj_enabled (record_outcome deps job r) = cj_enabled job" "cj_schedule (record_outcome deps job r) = cj_schedule job"
  "cj_id (record_outcome deps job r) = cj_id job"
  "cj_deleteAfterRun (record_outcome deps job r) = cj_deleteAfterRun job"
  "js_runningAtMs (cj_state (record_outcome deps job r)) = None"
  "js_lastRunAtMs (cj_state (record_outcome deps job r)) = Some (rr_startedAt r)"
  "js_lastStatus (cj_state (record_outcome deps job r)) = Some (rr_status r)"
  "js_consecutiveErrors (cj_state (record_outcome deps job r)) = js_consecutiveErrors (cj_state job)"
  by (simp_all add: record_outcome_def Let_def)

text \<open>What counting errors keeps.\<close>

lemma track_errors_fields:
  assumes "track_errors deps job r now = (job1, effs)"
  shows "cj_enabled job1 = cj_enabled job" "cj_schedule job1 = cj_schedule job" "cj_id job1 = cj_id job"
    "cj_deleteAfterRun job1 = cj_deleteAfterRun job"
    "js_runningAtMs (cj_state job1) = js_runningAtMs (cj_state job)"
    "js_lastRunAtMs (cj_state job1) = js_lastRunAtMs (cj_state job)"
    "js_lastStatus (cj_state job1) = js_lastStatus (cj_state job)"
    "js_consecutiveErrors (cj_state job1) = Some (if rr_status r = StatusError
       then js_nullish (js_consecutiveErrors (cj_state job)) 0 + 1 else 0)"
  using assms by (auto simp: track_errors_def Let_def split: if_splits option.splits)

lemma recordScheduleComputeError_fields:
  assumes "recordScheduleComputeError job err = (job1, effs)"
  shows "cj_id job1 = cj_id job" "cj_schedule job1 = cj_schedule job"
    "js_runningAtMs (cj_state job1) = js_runningAtMs (cj_state job)"
    "js_consecutiveErrors (cj_state job1) = js_consecutiveErrors (cj_state job)"
    "js_lastRunAtMs (cj_state job1) = js_lastRunAtMs (cj_state job)"
  using assms by (auto simp: recordScheduleComputeError_def Let_def split: if_splits)

lemma natural_next_fields:
  assumes "natural_next deps job prev keep now = (n, job1, effs)"
  shows "cj_id job1 = cj_id job" "cj_schedule job1 = cj_schedule job"
    "js_runningAtMs (cj_state job1) = js_runningAtMs (cj_state job)"
    "js_consecutiveErrors (cj_state job1) = js_consecutiveErrors (cj_state job)"
    "js_lastRunAtMs (cj_state job1) = js_lastRunAtMs (cj_state job)"
  using assms by (auto simp: natural_next_def Let_def dest: recordScheduleComputeError_fields
      split: sum.splits prod.splits)

lemma is_at_cong: "cj_schedule a = cj_schedule b \<Longrightarrow> is_at a = is_at b"
  by (simp add: is_at_def)

lemma isJobEnabled_cong: "cj_enabled a = cj_enabled b \<Longrightarrow> isJobEnabled a = isJobEnabled b"
  by (simp add: isJobEnabled_def)

text \<open>C31: a recurring job that fails backs off: when the run of an enabled interval or cron job ends with an
  error, the job is kept, its error count goes up by one, its running marker is cleared, and its next run is not
  before the end of the run plus the backoff of the new count (between 30 seconds and an hour), so that no timer
  tick before that time takes it.\<close>

theorem cron_error_backs_off:
  assumes "applyJobResult deps job r keep now = (job1, effs, del)"
    and "rr_status r = StatusError" "isJobEnabled job" "\<not> is_at job"
  shows "let errors = js_nullish (js_consecutiveErrors (cj_state job)) 0 + 1;
             backoff = errorBackoffMs errors DEFAULT_BACKOFF_SCHEDULE_MS in
    \<not> del \<and> js_consecutiveErrors (cj_state job1) = Some errors \<and> js_runningAtMs (cj_state job1) = None \<and>
    30000 \<le> backoff \<and> backoff \<le> 3600000 \<and>
    (\<exists>n. js_nextRunAtMs (cj_state job1) = Some n \<and> rr_endedAt r + backoff \<le> n) \<and>
    (\<forall>t < rr_endedAt r + backoff. \<not> isRunnableJob deps tick_opts job1 t)"
proof -
  define errors where "errors = js_nullish (js_consecutiveErrors (cj_state job)) 0 + 1"
  obtain job2 effs2 where t: "track_errors deps (record_outcome deps job r) r now = (job2, effs2)"
    by (cases "track_errors deps (record_outcome deps job r) r now")
  note f = track_errors_fields [OF t]
  have at: "\<not> is_at job2" "isJobEnabled job2"
    using f(1,2) assms(3,4) is_at_cong [of job2 job] isJobEnabled_cong [of job2 job] by simp_all
  obtain n job3 effs3 where nn: "natural_next deps job2 (js_lastRunAtMs (cj_state job)) keep (rr_endedAt r) = (n, job3, effs3)"
    by (cases "natural_next deps job2 (js_lastRunAtMs (cj_state job)) keep (rr_endedAt r)")
  note g = natural_next_fields [OF nn]
  let ?b = "rr_endedAt r + errorBackoffMs errors DEFAULT_BACKOFF_SCHEDULE_MS"
  have e: "js_consecutiveErrors (cj_state job2) = Some errors" using f(8) assms(2) by (simp add: errors_def)
  have eq: "job1 = set_next (Some (case n of Some n \<Rightarrow> max n ?b | None \<Rightarrow> ?b)) job3" "\<not> del"
    using assms(1,2) at t nn e
    by (auto simp: applyJobResult_def recurring_next_def shouldDelete_def Let_def)
  have "js_runningAtMs (cj_state job1) = None" "js_consecutiveErrors (cj_state job1) = Some errors"
    using eq(1) g(3,4) f(5) e by simp_all
  moreover have "\<exists>m. js_nextRunAtMs (cj_state job1) = Some m \<and> ?b \<le> m"
    using eq(1) by (auto split: option.split)
  moreover from this have "\<forall>t < ?b. \<not> isRunnableJob deps tick_opts job1 t"
    by (auto simp: isRunnableJob_def tick_opts_def Let_def)
  ultimately show ?thesis
    using eq(2) errorBackoff_bounds [of errors] unfolding Let_def errors_def by blast
qed


definition failed_run :: run_result where
  "failed_run = \<lparr>rr_status = StatusError, rr_error = Some ''socket hang up'', rr_delivered = None,
     rr_startedAt = 7200006, rr_endedAt = 7200900\<rparr>"

theorem cron_error_backs_off_witness:
  "let job1 = fst (applyJobResult sample_deps ready_job failed_run False 7200950) in
   js_consecutiveErrors (cj_state job1) = Some 1 \<and> (\<exists>n. js_nextRunAtMs (cj_state job1) = Some n \<and> 7200900 + 30000 \<le> n)"
proof -
  obtain job1 effs del where a: "applyJobResult sample_deps ready_job failed_run False 7200950 = (job1, effs, del)"
    by (cases "applyJobResult sample_deps ready_job failed_run False 7200950")
  have "rr_status failed_run = StatusError" "isJobEnabled ready_job" "\<not> is_at ready_job" by code_simp+
  note b = cron_error_backs_off [OF a this, unfolded Let_def]
  have "js_nullish (js_consecutiveErrors (cj_state ready_job)) 0 + 1 = 1" "rr_endedAt failed_run = 7200900"
    "30000 \<le> errorBackoffMs 1 DEFAULT_BACKOFF_SCHEDULE_MS"
    by code_simp+
  with b show ?thesis unfolding a Let_def fst_conv by fastforce
qed

section \<open>One-shot jobs\<close>

text \<open>The runs of a job one after the other, each with the clock when its result is applied.\<close>

definition apply_results :: "cron_deps \<Rightarrow> cron_job \<Rightarrow> (run_result \<times> int) list \<Rightarrow> cron_job" where
  "apply_results deps job rs = foldl (\<lambda>j (r, now). fst (applyJobResult deps j r False now)) job rs"

definition errors_of :: "cron_job \<Rightarrow> nat" where
  "errors_of job = js_nullish (js_consecutiveErrors (cj_state job)) 0"

lemma one_shot_error:
  assumes "is_at job" "rr_status r = StatusError" and job1: "fst (applyJobResult deps job r False now) = job1"
  shows "is_at job1" "errors_of job1 = errors_of job + 1"
    "retryMaxAttempts deps < int (errors_of job) + 1 \<Longrightarrow> \<not> isJobEnabled job1 \<and> js_nextRunAtMs (cj_state job1) = None"
    "isJobEnabled job1 \<Longrightarrow> js_nextRunAtMs (cj_state job1) =
      Some (rr_endedAt r + errorBackoffMs (errors_of job + 1) (retryBackoffMs deps))"
proof -
  obtain job2 effs2 where t: "track_errors deps (record_outcome deps job r) r now = (job2, effs2)"
    by (cases "track_errors deps (record_outcome deps job r) r now")
  note f = track_errors_fields [OF t]
  have at: "is_at job2" using f(2) assms(1) is_at_cong [of job2 job] by simp
  have e: "js_consecutiveErrors (cj_state job2) = Some (errors_of job + 1)"
    using f(8) assms(2) by (simp add: errors_of_def)
  have eq: "job1 = one_shot_next deps job2 r"
    using t at assms(2) by (simp add: job1 [symmetric] applyJobResult_def shouldDelete_def)
  show "is_at job1" using at eq assms(2) by (simp add: one_shot_next_def Let_def is_at_def set_next_def)
  show "errors_of job1 = errors_of job + 1"
    using eq e assms(2) by (simp add: one_shot_next_def Let_def errors_of_def set_next_def)
  show "retryMaxAttempts deps < int (errors_of job) + 1 \<Longrightarrow> \<not> isJobEnabled job1 \<and> js_nextRunAtMs (cj_state job1) = None"
    using eq e assms(2) by (simp add: one_shot_next_def Let_def set_next_def isJobEnabled_def)
  show "isJobEnabled job1 \<Longrightarrow> js_nextRunAtMs (cj_state job1) =
      Some (rr_endedAt r + errorBackoffMs (errors_of job + 1) (retryBackoffMs deps))"
    using eq e assms(2) by (auto simp: one_shot_next_def Let_def set_next_def isJobEnabled_def split: if_splits)
qed

lemma apply_results_errors:
  assumes "is_at job" "list_all (\<lambda>(r, now). rr_status r = StatusError) rs"
  shows "is_at (apply_results deps job rs) \<and> errors_of (apply_results deps job rs) = errors_of job + length rs"
  using assms
proof (induction rs arbitrary: job)
  case (Cons p rs)
  obtain r now where p: "p = (r, now)" by (cases p)
  from Cons.prems p have "rr_status r = StatusError" by simp
  with Cons.IH [OF one_shot_error(1) [OF Cons.prems(1) _ refl]] one_shot_error(2) [OF Cons.prems(1) _ refl] Cons.prems(2) p
  show ?case by (simp add: apply_results_def)
qed (simp add: apply_results_def)

text \<open>C32: retries of a one-shot job end: after more failed runs in a row than the configured maximum of retries,
  whatever the errors were and however they are spaced, an \<open>at\<close> job is disabled and has no next run, so no tick
  or catch-up takes it again; and while it is still enabled after an error, its retry waits the configured backoff.\<close>

theorem one_shot_retries_terminate:
  assumes "is_at job" "list_all (\<lambda>(r, now). rr_status r = StatusError) (rs @ [(r, now)])"
  shows "let job1 = apply_results deps job (rs @ [(r, now)]) in
    (if retryMaxAttempts deps < int (errors_of job + length rs) + 1
     then \<not> isJobEnabled job1 \<and> js_nextRunAtMs (cj_state job1) = None \<and> (\<forall>t opts. \<not> isRunnableJob deps opts job1 t)
     else \<not> isJobEnabled job1 \<or> js_nextRunAtMs (cj_state job1) =
       Some (rr_endedAt r + errorBackoffMs (errors_of job + length rs + 1) (retryBackoffMs deps)))"
proof -
  have rs: "is_at (apply_results deps job rs)" "errors_of (apply_results deps job rs) = errors_of job + length rs"
    "rr_status r = StatusError"
    using apply_results_errors [of job rs] assms by simp_all
  have split: "apply_results deps job (rs @ [(r, now)]) = fst (applyJobResult deps (apply_results deps job rs) r False now)"
    by (simp add: apply_results_def)
  show ?thesis
    using one_shot_error(3,4) [OF rs(1,3) refl, of deps now] rs(2)
    by (auto simp: split Let_def isRunnableJob_def)
qed

theorem one_shot_retries_terminate_witness:
  "let job1 = apply_results sample_deps (ready_job\<lparr>cj_schedule := SchedAt None (AtMsNumber 7200000)\<rparr>)
       [(failed_run, 1), (failed_run, 2), (failed_run, 3), (failed_run, 4)] in
   \<not> isJobEnabled job1 \<and> js_nextRunAtMs (cj_state job1) = None"
proof -
  let ?j = "ready_job\<lparr>cj_schedule := SchedAt None (AtMsNumber 7200000)\<rparr>"
  have "is_at ?j" "list_all (\<lambda>(r, now). rr_status r = StatusError)
      ([(failed_run, 1), (failed_run, 2), (failed_run, 3)] @ [(failed_run, 4)])"
    by (simp_all add: is_at_def failed_run_def)
  note b = one_shot_retries_terminate [OF this, of sample_deps, unfolded Let_def]
  have "retryMaxAttempts sample_deps < int (errors_of ?j + length [(failed_run, 1 :: int), (failed_run, 2), (failed_run, 3)]) + 1"
    by code_simp
  with b show ?thesis unfolding Let_def by simp
qed


section \<open>Maintenance\<close>

lemma normalize_anchor_state: "normalize_anchor job now = (job1, ch) \<Longrightarrow>
  cj_state job1 = cj_state job \<and> cj_enabled job1 = cj_enabled job \<and> cj_id job1 = cj_id job"
  by (auto simp: normalize_anchor_def Let_def split: cron_schedule.splits if_splits)

lemma normalizeJobTickState_enabled:
  assumes "isJobEnabled job" "normalizeJobTickState job now = (job1, ch, skip)"
  shows "\<not> skip" "cj_enabled job1 = cj_enabled job" "cj_id job1 = cj_id job"
    "js_nextRunAtMs (cj_state job1) = js_nextRunAtMs (cj_state job)"
    "js_lastRunAtMs (cj_state job1) = js_lastRunAtMs (cj_state job)"
    "js_scheduleErrorCount (cj_state job1) = js_scheduleErrorCount (cj_state job)"
proof -
  obtain job0 ch0 where n: "normalize_anchor job now = (job0, ch0)" by (cases "normalize_anchor job now")
  note s = normalize_anchor_state [OF n]
  have en: "isJobEnabled job0" using s assms(1) isJobEnabled_cong [of job0 job] by simp
  show "\<not> skip" "cj_enabled job1 = cj_enabled job" "cj_id job1 = cj_id job"
    "js_nextRunAtMs (cj_state job1) = js_nextRunAtMs (cj_state job)"
    "js_lastRunAtMs (cj_state job1) = js_lastRunAtMs (cj_state job)"
    "js_scheduleErrorCount (cj_state job1) = js_scheduleErrorCount (cj_state job)"
    using assms(2) en s by (auto simp: normalizeJobTickState_def n Let_def split: option.splits if_splits)
qed

lemma maintain_job_keeps:
  assumes "js_nextRunAtMs (cj_state job) = Some n"
    and "case js_lastRunAtMs (cj_state job) of Some lastRun \<Rightarrow> lastRun < n | None \<Rightarrow> True"
  shows "maintain_job deps recomputeExpired job now = (job, False, [])"
  using assms by (auto simp: maintain_job_def split: option.splits)

lemma walk_job_keeps:
  assumes "isJobEnabled job" "js_nextRunAtMs (cj_state job) = Some n"
    and "case js_lastRunAtMs (cj_state job) of Some lastRun \<Rightarrow> lastRun < n | None \<Rightarrow> True"
  shows "js_nextRunAtMs (cj_state (fst (walk_job (maintain_job deps recomputeExpired) now job))) = Some n \<and>
    isJobEnabled (fst (walk_job (maintain_job deps recomputeExpired) now job)) \<and>
    snd (snd (walk_job (maintain_job deps recomputeExpired) now job)) = []"
proof -
  obtain job1 ch skip where nz: "normalizeJobTickState job now = (job1, ch, skip)"
    by (cases "normalizeJobTickState job now")
  note f = normalizeJobTickState_enabled [OF assms(1) nz]
  have "maintain_job deps recomputeExpired job1 now = (job1, False, [])"
    by (rule maintain_job_keeps [of _ n]) (use f assms in \<open>simp_all split: option.splits\<close>)
  then show ?thesis
    using f assms(1,2) isJobEnabled_cong [of job1 job] by (simp add: walk_job_def nz)
qed

text \<open>maintenance never skips a run: the recomputation after a tick, with or without expired slots, leaves
  the next run of every enabled job that has not run since that slot as it is, also when the slot is past due, so
  that the next tick still takes it; no job is added, dropped or reordered.\<close>

theorem maintenance_keeps_unexecuted_slots:
  assumes "i < length jobs" "isJobEnabled (jobs ! i)" "js_nextRunAtMs (cj_state (jobs ! i)) = Some n"
    and "case js_lastRunAtMs (cj_state (jobs ! i)) of Some lastRun \<Rightarrow> lastRun < n | None \<Rightarrow> True"
    and "recomputeNextRunsForMaintenance deps recomputeExpired jobs now = (jobs1, changed, effs)"
  shows "length jobs1 = length jobs \<and> isJobEnabled (jobs1 ! i) \<and> js_nextRunAtMs (cj_state (jobs1 ! i)) = Some n"
  using walk_job_keeps [OF assms(2-4), of deps recomputeExpired now] assms(1,5)
  by (auto simp: recomputeNextRunsForMaintenance_def walkSchedulableJobs_def)

theorem maintenance_keeps_unexecuted_slots_witness:
  "let jobs1 = fst (recomputeNextRunsForMaintenance sample_deps True [sample_job, ready_job] 7300000)
   in length jobs1 = 2 \<and> js_nextRunAtMs (cj_state (jobs1 ! 1)) = Some 7200000"
proof -
  obtain jobs1 ch effs where m: "recomputeNextRunsForMaintenance sample_deps True [sample_job, ready_job] 7300000 = (jobs1, ch, effs)"
    by (cases "recomputeNextRunsForMaintenance sample_deps True [sample_job, ready_job] 7300000")
  have "1 < length [sample_job, ready_job]" "isJobEnabled ([sample_job, ready_job] ! 1)"
    "js_nextRunAtMs (cj_state ([sample_job, ready_job] ! 1)) = Some 7200000"
    "case js_lastRunAtMs (cj_state ([sample_job, ready_job] ! 1)) of Some lastRun \<Rightarrow> lastRun < 7200000 | None \<Rightarrow> True"
    by code_simp+
  from maintenance_keeps_unexecuted_slots [OF this m] show ?thesis by (simp add: m)
qed

section \<open>Jobs whose schedule cannot be computed\<close>

text \<open>Passes of the maintenance over one job, with the effects in order.\<close>

definition maintenance_passes :: "cron_deps \<Rightarrow> cron_job \<Rightarrow> int list \<Rightarrow> cron_job \<times> cron_effect list" where
  "maintenance_passes deps job nows = foldl (\<lambda>(j, effs) now.
     let (jobs1, _, effs1) = recomputeNextRunsForMaintenance deps False [j] now in (hd jobs1, effs @ effs1)) (job, []) nows"

definition schedule_broken :: "cron_env \<Rightarrow> cron_job \<Rightarrow> string \<Rightarrow> bool" where
  "schedule_broken env job err \<longleftrightarrow> is_cron job \<and> (\<forall>st now. computeJobNextRunAtMs env (job\<lparr>cj_state := st\<rparr>) now = Inl err)"

lemma passes_Nil: "maintenance_passes deps job [] = (job, [])"
  by (simp add: maintenance_passes_def)

lemma passes_snoc: "maintenance_passes deps job (nows @ [now]) =
  (let (j, effs) = maintenance_passes deps job nows; (j1, _, effs1) = walk_job (maintain_job deps False) now j in (j1, effs @ effs1))"
  by (simp add: maintenance_passes_def recomputeNextRunsForMaintenance_def walkSchedulableJobs_def
      split: prod.split)

lemma normalize_anchor_cron: "is_cron job \<Longrightarrow> normalize_anchor job now = (job, False)"
  by (auto simp: normalize_anchor_def is_cron_def split: cron_schedule.splits)

lemma walk_disabled:
  assumes "cj_enabled job = Some False" "is_cron job" "js_nextRunAtMs (cj_state job) = None"
  shows "\<exists>ch. walk_job (maintain_job deps False) now job = (job\<lparr>cj_state := (cj_state job)\<lparr>js_runningAtMs := None\<rparr>\<rparr>, ch, [])"
  using assms by (simp add: walk_job_def normalizeJobTickState_def normalize_anchor_cron isJobEnabled_def Let_def)


lemma job_state_same: "job\<lparr>cj_state := cj_state job\<rparr> = job"
  by simp

lemma walk_broken:
  assumes "schedule_broken (dp_env deps) job err" "isJobEnabled job" "js_nextRunAtMs (cj_state job) = None"
  shows "\<exists>st. js_scheduleErrorCount st = js_scheduleErrorCount (cj_state job) \<and> js_nextRunAtMs st = None \<and>
    walk_job (maintain_job deps False) now job =
      (let (job1, effs) = recordScheduleComputeError (job\<lparr>cj_state := st\<rparr>) err in (job1, True, effs))"
proof -
  have cron: "is_cron job" and broken: "computeJobNextRunAtMs (dp_env deps) (job\<lparr>cj_state := st\<rparr>) now = Inl err" for st
    using assms(1) by (simp_all add: schedule_broken_def)
  have same: "computeJobNextRunAtMs (dp_env deps) job now = Inl err"
    using broken [of "cj_state job"] by simp
  show ?thesis
  proof (cases "case js_runningAtMs (cj_state job) of Some t \<Rightarrow> now - t > STUCK_RUN_MS | None \<Rightarrow> False")
    case True
    then show ?thesis
      using assms(2,3) broken
      by (intro exI [of _ "(cj_state job)\<lparr>js_runningAtMs := None\<rparr>"])
        (auto simp: walk_job_def normalizeJobTickState_def normalize_anchor_cron [OF cron] maintain_job_def
          recomputeJobNextRunAtMs_def Let_def split: option.splits prod.split)
  next
    case False
    then show ?thesis
      using assms(2,3) same
      by (intro exI [of _ "cj_state job"])
        (auto simp: walk_job_def normalizeJobTickState_def normalize_anchor_cron [OF cron] maintain_job_def
          recomputeJobNextRunAtMs_def Let_def split: option.splits prod.split)
  qed
qed

lemma passes_broken:
  assumes "schedule_broken (dp_env deps) job err" "isJobEnabled job" "js_nextRunAtMs (cj_state job) = None"
    and "js_scheduleErrorCount (cj_state job) = None"
  shows "\<exists>st. js_nextRunAtMs st = None \<and> js_nullish (js_scheduleErrorCount st) 0 = min 3 (length nows) \<and>
    maintenance_passes deps job nows = (if length nows < 3 then (job\<lparr>cj_state := st\<rparr>, [])
      else (job\<lparr>cj_state := st, cj_enabled := Some False\<rparr>,
        [NotifyAutoDisabled (cj_id job) (cj_name job) 3 err, HeartbeatAutoDisabled (cj_id job)]))"
proof (induction nows rule: rev_induct)
  case Nil
  then show ?case using assms(3,4) by (intro exI [of _ "cj_state job"]) (simp add: passes_Nil)
next
  case (snoc now nows)
  then obtain st where st: "js_nextRunAtMs st = None" "js_nullish (js_scheduleErrorCount st) 0 = min 3 (length nows)"
    "maintenance_passes deps job nows = (if length nows < 3 then (job\<lparr>cj_state := st\<rparr>, [])
      else (job\<lparr>cj_state := st, cj_enabled := Some False\<rparr>,
        [NotifyAutoDisabled (cj_id job) (cj_name job) 3 err, HeartbeatAutoDisabled (cj_id job)]))"
    by blast
  show ?case
  proof (cases "length nows < 3")
    case True
    have "schedule_broken (dp_env deps) (job\<lparr>cj_state := st\<rparr>) err" "isJobEnabled (job\<lparr>cj_state := st\<rparr>)"
      using assms(1,2) by (simp_all add: schedule_broken_def is_cron_def isJobEnabled_def)
    from walk_broken [OF this, of now] st obtain st' where st':
      "js_scheduleErrorCount st' = js_scheduleErrorCount st" "js_nextRunAtMs st' = None"
      "walk_job (maintain_job deps False) now (job\<lparr>cj_state := st\<rparr>) =
        (let (job1, effs) = recordScheduleComputeError (job\<lparr>cj_state := st'\<rparr>) err in (job1, True, effs))"
      by auto
    have count: "js_nullish (js_scheduleErrorCount st') 0 = length nows"
      using st(2) True by (simp add: st'(1))
    define st'' where "st'' = st'\<lparr>js_scheduleErrorCount := Some (length nows + 1), js_nextRunAtMs := None,
      js_lastError := Some (''schedule error: '' @ err)\<rparr>"
    have rec: "recordScheduleComputeError (job\<lparr>cj_state := st'\<rparr>) err =
      (if 3 \<le> length nows + 1 then (job\<lparr>cj_state := st'', cj_enabled := Some False\<rparr>,
          [NotifyAutoDisabled (cj_id job) (cj_name job) (length nows + 1) err, HeartbeatAutoDisabled (cj_id job)])
       else (job\<lparr>cj_state := st''\<rparr>, []))"
      by (simp add: recordScheduleComputeError_def MAX_SCHEDULE_ERRORS_def Let_def count st''_def)
    have passes: "maintenance_passes deps job (nows @ [now]) = recordScheduleComputeError (job\<lparr>cj_state := st'\<rparr>) err"
      using True by (simp add: passes_snoc st(3) st'(3) Let_def split: prod.split)
    have "js_nextRunAtMs st'' = None" "js_nullish (js_scheduleErrorCount st'') 0 = length nows + 1"
      by (simp_all add: st''_def)
    moreover have "length nows = 2 \<or> length nows + 1 < 3" using True by linarith
    ultimately show ?thesis
      unfolding passes rec by (intro exI [of _ st'']) auto
  next
    case False
    have "is_cron (job\<lparr>cj_state := st, cj_enabled := Some False\<rparr>)"
      using assms(1) by (simp add: schedule_broken_def is_cron_def)
    from walk_disabled [OF _ this, of deps now] False st show ?thesis
      by (intro exI [of _ "st\<lparr>js_runningAtMs := None\<rparr>"]) (auto simp: passes_snoc)
  qed
qed

text \<open>a job whose schedule cannot be computed is switched off, and the service goes on: when every
  computation of the next run of an enabled cron job throws, each maintenance pass counts one schedule error and
  leaves the job without a next run, the third disables it, and however many passes follow, the owner is notified
  exactly once.\<close>

theorem schedule_errors_disable_job:
  assumes "schedule_broken (dp_env deps) job err" "isJobEnabled job" "js_nextRunAtMs (cj_state job) = None"
    and "js_scheduleErrorCount (cj_state job) = None"
  shows "let (job1, effs) = maintenance_passes deps job nows in
    js_nextRunAtMs (cj_state job1) = None \<and>
    js_nullish (js_scheduleErrorCount (cj_state job1)) 0 = min 3 (length nows) \<and>
    (isJobEnabled job1 \<longleftrightarrow> length nows < 3) \<and>
    effs = (if length nows < 3 then []
      else [NotifyAutoDisabled (cj_id job) (cj_name job) 3 err, HeartbeatAutoDisabled (cj_id job)])"
  using passes_broken [OF assms, of nows] assms(2) by (auto simp: isJobEnabled_def)

text \<open>A cron job without an expression is such a job for every engine.\<close>

lemma missing_expr_broken:
  "cj_schedule job = SchedCron None None tz stagger \<Longrightarrow> isJobEnabled job \<Longrightarrow>
   schedule_broken env job ''invalid cron schedule: expr is required''"
  by (simp add: schedule_broken_def is_cron_def isJobEnabled_def computeJobNextRunAtMs_def numeral_eq_Suc
      computeStaggeredCronNextRunAtMs_def computeNextRunAtMs_def resolveCronFromSchedule_def Let_def)

theorem schedule_errors_disable_job_witness:
  "let (job1, effs) = maintenance_passes sample_deps (sample_job\<lparr>cj_schedule := SchedCron None None None None\<rparr>) [1, 2, 3, 4] in
   \<not> isJobEnabled job1 \<and> length effs = 2"
proof -
  let ?j = "sample_job\<lparr>cj_schedule := SchedCron None None None None\<rparr>"
  have "isJobEnabled ?j" by code_simp
  then have "schedule_broken (dp_env sample_deps) ?j ''invalid cron schedule: expr is required''"
    by (rule missing_expr_broken [rotated]) simp
  moreover have "js_nextRunAtMs (cj_state ?j) = None" "js_scheduleErrorCount (cj_state ?j) = None"
    by code_simp+
  ultimately show ?thesis
    using schedule_errors_disable_job [OF _ \<open>isJobEnabled ?j\<close>, of sample_deps _ "[1, 2, 3, 4]"]
    by (fastforce split: prod.splits)
qed


section \<open>Stopping\<close>

text \<open>Between ticks \<open>stop\<close> is final: no timer is left, and none comes back until an operation changes the
  jobs. During a tick it is not: the \<open>finally\<close> block of \<open>onTimer\<close> arms the timer again.\<close>

definition no_operation :: "cron_event \<Rightarrow> bool" where
  "no_operation e \<longleftrightarrow> (case e of JobsChange _ _ \<Rightarrow> False | _ \<Rightarrow> True)"

lemma stopped_stays_stopped:
  assumes "\<not> cs_running s" "cs_tick s = None" "cs_timer s = None" "run_ok (cron_enabled deps) (cron_step deps) s es"
    and "list_all no_operation es"
  shows "cs_timer (foldl (cron_step deps) s es) = None"
  using assms
proof (induction es arbitrary: s)
  case (Cons e es)
  show ?case
  proof (cases e)
    case CronStop
    with Cons show ?thesis by (simp add: stopTimer_def)
  qed (use Cons in \<open>auto simp: no_operation_def\<close>)
qed simp

lemma stop_during_tick_rearms:
  assumes "cs_tick s = Some t" "tk_cursor t = length (tk_due t)" "tk_inFlight t = []" "tk_outcomes t = []"
    and "dp_cronEnabled deps" "\<not> no_wake (jobs_of s)"
  shows "cs_timer (cron_step deps (cron_step deps s CronStop) (TickEnds now jobs)) \<noteq> None"
proof -
  have "finish_tick deps (stopTimer s) now jobs =
      armTimer deps ((stopTimer s)\<lparr>cs_running := False, cs_tick := None\<rparr>) now"
    using assms(1,4) by (simp add: finish_tick_def stopTimer_def)
  then show ?thesis
    using armTimer_live [OF assms(5), of "(stopTimer s)\<lparr>cs_running := False, cs_tick := None\<rparr>" now] assms(6)
    by (simp add: jobs_of_def stopTimer_def)
qed

end
