(* ===== verification/CronJobs.thy ===== *)
theory CronJobs
  imports CronService
begin

text \<open>
  Cron jobs as their owners edit them: creating, patching and validating a job (\<open>src/cron/service/jobs.ts\<close>,
  \<open>service/normalize.ts\<close>, \<open>service/initial-delivery.ts\<close>, \<open>session-target.ts\<close>, \<open>webhook-url.ts\<close>) and the
  operations of the service on its store (\<open>service/ops.ts\<close>, \<open>service/store.ts\<close>): \<open>add\<close>, \<open>update\<close>, \<open>remove\<close>,
  \<open>start\<close>, and the manual run in its three locked sections. A throw is an \<open>Inl\<close>; where the code has
  already written to the stored job when it throws, the definition returns the job as written together with the
  error. A field of a patch is absent (\<open>None\<close>), present without a usable value (\<open>Some None\<close>) or set. The
  URL parser, the default agent and the scheduler's dependencies are fields of a \<open>jobs_env\<close>; the random job id
  and the clock are arguments. The store file is part of the state: writing it does not fail, and the repair of
  legacy job ids when it is read is left out.
\<close>

section \<open>Environment, input and patches\<close>

record jobs_env =
  je_deps :: cron_deps
  je_defaultAgentId :: "string option"
  je_urlProtocol :: "string \<Rightarrow> string option"

record job_create =
  jc_agentId :: "string option"
  jc_sessionKey :: "string option"
  jc_name :: "string option"
  jc_description :: "string option"
  jc_enabled :: "bool option"
  jc_deleteAfterRun :: "bool option"
  jc_schedule :: cron_schedule
  jc_sessionTarget :: string
  jc_wakeMode :: wake_mode
  jc_payload :: cron_payload
  jc_delivery :: "cron_delivery option"
  jc_failureAlert :: alert_setting
  jc_state :: job_state

record turn_patch =
  tp_message :: "string option"
  tp_model :: "string option"
  tp_fallbacks :: "string list option"
  tp_thinking :: "string option"
  tp_timeoutSeconds :: "rat option"
  tp_allowUnsafeExternalContent :: "bool option"
  tp_lightContext :: "bool option"
  tp_toolsAllow :: "string list option option"

datatype payload_patch = PatchSystemEvent "string option" | PatchAgentTurn turn_patch

text \<open>\<open>mode\<close> of a delivery patch may be the legacy \<open>"deliver"\<close>.\<close>

datatype mode_patch = LegacyDeliver | PatchMode delivery_mode

record destination_patch =
  dq_channel :: "string option option"
  dq_to :: "string option option"
  dq_accountId :: "string option option"
  dq_mode :: "string option option"

record delivery_patch =
  dq_deliveryMode :: "mode_patch option"
  dq_deliveryChannel :: "string option option"
  dq_deliveryTo :: "string option option"
  dq_threadId :: "string option option"
  dq_deliveryAccountId :: "string option option"
  dq_bestEffort :: "bool option"
  dq_failureDestination :: "destination_patch option option"

record alert_patch =
  ap_after :: "rat option option"
  ap_channel :: "string option option"
  ap_to :: "string option option"
  ap_cooldownMs :: "rat option option"
  ap_mode :: "string option option"
  ap_accountId :: "string option option"

datatype alert_setting_patch = PatchAlertUndefined | PatchAlertOff | PatchAlert alert_patch

text \<open>The state of a patch is spread over the state of the job: the fields it has win.\<close>

record state_patch =
  sp_nextRunAtMs :: "int option option"
  sp_runningAtMs :: "int option option"
  sp_lastRunAtMs :: "int option option"
  sp_lastRunStatus :: "run_status option option"
  sp_lastStatus :: "run_status option option"
  sp_lastError :: "string option option"
  sp_lastErrorReason :: "string option option"
  sp_lastDurationMs :: "int option option"
  sp_consecutiveErrors :: "nat option option"
  sp_lastFailureAlertAtMs :: "int option option"
  sp_scheduleErrorCount :: "nat option option"
  sp_lastDeliveryStatus :: "delivery_status option option"
  sp_lastDeliveryError :: "string option option"
  sp_lastDelivered :: "bool option option"

record job_patch =
  cp_name :: "string option option"
  cp_description :: "string option option"
  cp_enabled :: "bool option"
  cp_deleteAfterRun :: "bool option"
  cp_schedule :: "cron_schedule option"
  cp_sessionTarget :: "string option"
  cp_wakeMode :: "wake_mode option"
  cp_payload :: "payload_patch option"
  cp_delivery :: "delivery_patch option"
  cp_failureAlert :: "alert_setting_patch option"
  cp_state :: "state_patch option"
  cp_agentId :: "string option option"
  cp_sessionKey :: "string option option"

section \<open>Normalising the fields\<close>

definition normalizeRequiredName :: "string option \<Rightarrow> string throwing" where
  "normalizeRequiredName raw = (case raw of
       None \<Rightarrow> Inl ''cron job name is required''
     | Some r \<Rightarrow> (let name = js_trim r in
         if name = [] then Inl ''cron job name is required'' else Inr name))"

definition normalizeOptionalAgentId :: "string option \<Rightarrow> string option" where
  "normalizeOptionalAgentId raw = (case normalizeOptionalString raw of
       None \<Rightarrow> None | Some trimmed \<Rightarrow> Some (normalizeAgentId (Some trimmed)))"

definition assertSafeCronSessionTargetId :: "string \<Rightarrow> string throwing" where
  "assertSafeCronSessionTargetId sessionId =
     (let trimmed = js_trim sessionId in
      if trimmed = [] then Inl ''invalid cron sessionTarget session id''
      else if CHR ''/'' \<in> set trimmed \<or> CHR 0x5C \<in> set trimmed \<or> CHR 0x00 \<in> set trimmed
      then Inl ''invalid cron sessionTarget session id''
      else Inr trimmed)"

definition isAllowedWebhookProtocol :: "string \<Rightarrow> bool" where
  "isAllowedWebhookProtocol protocol \<longleftrightarrow> protocol = ''http:'' \<or> protocol = ''https:''"

definition normalizeHttpWebhookUrl :: "jobs_env \<Rightarrow> string option \<Rightarrow> string option" where
  "normalizeHttpWebhookUrl E value = (case value of
       None \<Rightarrow> None
     | Some v \<Rightarrow> (let trimmed = js_trim v in
         if trimmed = [] then None
         else case je_urlProtocol E trimmed of
             None \<Rightarrow> None
           | Some protocol \<Rightarrow> (if isAllowedWebhookProtocol protocol then Some trimmed else None)))"

definition resolveInitialCronDelivery :: "job_create \<Rightarrow> cron_delivery option" where
  "resolveInitialCronDelivery input = (case jc_delivery input of
       Some d \<Rightarrow> Some d
     | None \<Rightarrow>
         if jc_sessionTarget input = ''isolated'' \<and> (case jc_payload input of AgentTurn _ \<Rightarrow> True | _ \<Rightarrow> False)
         then Some \<lparr>cd_mode = Some ModeAnnounce, cd_channel = None, cd_to = None, cd_threadId = None,
                cd_accountId = None, cd_bestEffort = None, cd_failureDestination = None\<rparr>
         else None)"

section \<open>Validating a job\<close>

text \<open>Session targets: \<open>main\<close>, \<open>isolated\<close>, \<open>current\<close> and \<open>session:<id>\<close>.\<close>

definition assertSupportedJobSpec :: "cron_job \<Rightarrow> unit throwing" where
  "assertSupportedJobSpec job =
     (let target = cj_sessionTarget job; isIsolatedLike = isolated_like target;
          isSystemEvent = (case cj_payload job of SystemEvent _ \<Rightarrow> True | AgentTurn _ \<Rightarrow> False)
      in and_then (if js_starts_with target ''session:'' then assertSafeCronSessionTargetId (drop 8 target) else Inr [])
           (\<lambda>_. if target = ''main'' \<and> \<not> isSystemEvent
                then Inl ''main cron jobs require payload.kind=\"systemEvent\"''
                else if isIsolatedLike \<and> isSystemEvent
                then Inl ''isolated/current/session cron jobs require payload.kind=\"agentTurn\"''
                else Inr ()))"

definition assertMainSessionAgentId :: "jobs_env \<Rightarrow> cron_job \<Rightarrow> unit throwing" where
  "assertMainSessionAgentId E job =
     (if cj_sessionTarget job \<noteq> ''main'' then Inr ()
      else case cj_agentId job of
          None \<Rightarrow> Inr ()
        | Some agentId \<Rightarrow>
            if agentId = [] then Inr ()
            else if normalizeAgentId (Some agentId) \<noteq> normalizeAgentId (je_defaultAgentId E)
            then Inl (''cron: sessionTarget \"main\" is only valid for the default agent. Use sessionTarget \"isolated\" with payload.kind \"agentTurn\" for non-default agents (agentId: '' @ agentId @ '')'')
            else Inr ())"

text \<open>The delivery checks write the trimmed URL back into the job.\<close>

definition assertDeliverySupport :: "jobs_env \<Rightarrow> cron_job \<Rightarrow> cron_job throwing" where
  "assertDeliverySupport E job = (case cj_delivery job of
       None \<Rightarrow> Inr job
     | Some delivery \<Rightarrow>
         if cd_mode delivery = Some ModeNone then Inr job
         else if cd_mode delivery = Some ModeWebhook then
           (case normalizeHttpWebhookUrl E (cd_to delivery) of
              None \<Rightarrow> Inl ''cron webhook delivery requires delivery.to to be a valid http(s) URL''
            | Some target \<Rightarrow> Inr (job\<lparr>cj_delivery := Some (delivery\<lparr>cd_to := Some target\<rparr>)\<rparr>))
         else if \<not> isolated_like (cj_sessionTarget job)
         then Inl ''cron channel delivery config is only supported for sessionTarget=\"isolated\"''
         else Inr job)"

definition failure_destination_error :: string where
  "failure_destination_error = ''cron delivery.failureDestination is only supported for sessionTarget=\"isolated\" unless delivery.mode=\"webhook\"''"

definition assertFailureDestinationSupport :: "jobs_env \<Rightarrow> cron_job \<Rightarrow> cron_job throwing" where
  "assertFailureDestinationSupport E job = (case cj_delivery job of
       None \<Rightarrow> Inr job
     | Some delivery \<Rightarrow> (case cd_failureDestination delivery of
         None \<Rightarrow> Inr job
       | Some fd \<Rightarrow>
           if cj_sessionTarget job = ''main'' \<and> cd_mode delivery \<noteq> Some ModeWebhook
           then Inl failure_destination_error
           else if fd_mode fd = Some ModeWebhook then
             (case normalizeHttpWebhookUrl E (fd_to fd) of
                None \<Rightarrow> Inl ''cron failure destination webhook requires delivery.failureDestination.to to be a valid http(s) URL''
              | Some target \<Rightarrow>
                  Inr (job\<lparr>cj_delivery := Some (delivery\<lparr>cd_failureDestination := Some (fd\<lparr>fd_to := Some target\<rparr>)\<rparr>)\<rparr>))
           else Inr job))"

text \<open>The four checks, in the order in which \<open>createJob\<close> and \<open>applyJobPatch\<close> make them: the job as the
  checks leave it, and the error if one throws.\<close>

definition assert_job :: "jobs_env \<Rightarrow> cron_job \<Rightarrow> cron_job \<times> string option" where
  "assert_job E job = (case assertSupportedJobSpec job of
       Inl e \<Rightarrow> (job, Some e)
     | Inr _ \<Rightarrow> (case assertMainSessionAgentId E job of
         Inl e \<Rightarrow> (job, Some e)
       | Inr _ \<Rightarrow> (case assertDeliverySupport E job of
           Inl e \<Rightarrow> (job, Some e)
         | Inr job1 \<Rightarrow> (case assertFailureDestinationSupport E job1 of
             Inl e \<Rightarrow> (job1, Some e)
           | Inr job2 \<Rightarrow> (job2, None)))))"

section \<open>Creating a job\<close>

text \<open>\<open>resolveDefaultCronStaggerMs\<close> trims the expression, which throws when there is none.\<close>

definition default_stagger :: "string option \<Rightarrow> int option throwing" where
  "default_stagger expr = (case expr of None \<Rightarrow> Inl ''TypeError'' | Some e \<Rightarrow> Inr (resolveDefaultCronStaggerMs e))"

definition create_schedule :: "cron_schedule \<Rightarrow> int \<Rightarrow> cron_schedule throwing" where
  "create_schedule schedule now = (case schedule of
       SchedEvery everyMs anchorMs \<Rightarrow>
         Inr (SchedEvery everyMs (Some (of_int (resolveEveryAnchorMs anchorMs (Some now)))))
     | SchedCron expr legacy tz staggerMs \<Rightarrow>
         (case normalizeCronStaggerMs staggerMs of
            Some explicitStaggerMs \<Rightarrow> Inr (SchedCron expr legacy tz (Some (of_int explicitStaggerMs)))
          | None \<Rightarrow> and_then (default_stagger expr) (\<lambda>d.
              Inr (SchedCron expr legacy tz (case d of Some ms \<Rightarrow> Some (of_int ms) | None \<Rightarrow> staggerMs))))
     | SchedAt atText atMs \<Rightarrow> Inr (SchedAt atText atMs))"

definition new_job :: "string \<Rightarrow> int \<Rightarrow> job_create \<Rightarrow> cron_schedule \<Rightarrow> string \<Rightarrow> cron_job" where
  "new_job jid now input schedule name =
     \<lparr>cj_id = jid, cj_agentId = normalizeOptionalAgentId (jc_agentId input),
      cj_sessionKey = normalizeOptionalString (jc_sessionKey input), cj_name = name,
      cj_description = normalizeOptionalString (jc_description input),
      cj_enabled = Some (js_nullish (jc_enabled input) True),
      cj_deleteAfterRun = (case jc_deleteAfterRun input of Some b \<Rightarrow> Some b
         | None \<Rightarrow> (case schedule of SchedAt _ _ \<Rightarrow> Some True | _ \<Rightarrow> None)),
      cj_createdAtMs = Some now, cj_updatedAtMs = now, cj_schedule = schedule,
      cj_sessionTarget = jc_sessionTarget input, cj_wakeMode = jc_wakeMode input,
      cj_payload = jc_payload input, cj_delivery = resolveInitialCronDelivery input,
      cj_failureAlert = jc_failureAlert input, cj_state = jc_state input\<rparr>"

definition createJob :: "jobs_env \<Rightarrow> string \<Rightarrow> int \<Rightarrow> job_create \<Rightarrow> cron_job throwing" where
  "createJob E jid now input =
     and_then (create_schedule (jc_schedule input) now) (\<lambda>schedule.
     and_then (normalizeRequiredName (jc_name input)) (\<lambda>name.
       (case assert_job E (new_job jid now input schedule name) of
          (_, Some e) \<Rightarrow> Inl e
        | (job, None) \<Rightarrow> and_then (computeJobNextRunAtMs (dp_env (je_deps E)) job now) (\<lambda>next.
            Inr (job\<lparr>cj_state := (cj_state job)\<lparr>js_nextRunAtMs := next\<rparr>\<rparr>)))))"

section \<open>Merging a patch\<close>

definition buildPayloadFromPatch :: "payload_patch \<Rightarrow> cron_payload throwing" where
  "buildPayloadFromPatch patch = (case patch of
       PatchSystemEvent text \<Rightarrow>
         (if js_nullish text [] = [] then Inl ''cron.update payload.kind=\"systemEvent\" requires text''
          else Inr (SystemEvent (js_nullish text [])))
     | PatchAgentTurn p \<Rightarrow>
         (if js_nullish (tp_message p) [] = [] then Inl ''cron.update payload.kind=\"agentTurn\" requires message''
          else Inr (AgentTurn \<lparr>at_message = js_nullish (tp_message p) [], at_model = tp_model p,
            at_fallbacks = tp_fallbacks p, at_thinking = tp_thinking p, at_timeoutSeconds = tp_timeoutSeconds p,
            at_allowUnsafeExternalContent = tp_allowUnsafeExternalContent p, at_externalContentSource = None,
            at_lightContext = tp_lightContext p, at_toolsAllow = js_nullish (tp_toolsAllow p) None\<rparr>)))"

definition mergeCronPayload :: "cron_payload \<Rightarrow> payload_patch \<Rightarrow> cron_payload throwing" where
  "mergeCronPayload existing patch = (case (existing, patch) of
       (SystemEvent old, PatchSystemEvent text) \<Rightarrow> Inr (SystemEvent (js_nullish text old))
     | (AgentTurn t, PatchAgentTurn p) \<Rightarrow>
         Inr (AgentTurn (t\<lparr>at_message := js_nullish (tp_message p) (at_message t),
           at_model := or_else (tp_model p) (at_model t), at_fallbacks := or_else (tp_fallbacks p) (at_fallbacks t),
           at_toolsAllow := js_nullish (tp_toolsAllow p) (at_toolsAllow t),
           at_thinking := or_else (tp_thinking p) (at_thinking t),
           at_timeoutSeconds := or_else (tp_timeoutSeconds p) (at_timeoutSeconds t),
           at_lightContext := or_else (tp_lightContext p) (at_lightContext t),
           at_allowUnsafeExternalContent := or_else (tp_allowUnsafeExternalContent p) (at_allowUnsafeExternalContent t)\<rparr>))
     | _ \<Rightarrow> buildPayloadFromPatch patch)"

text \<open>A text field that is present in a patch replaces the old value by its trimmed one.\<close>

definition merge_text :: "string option option \<Rightarrow> string option \<Rightarrow> string option" where
  "merge_text patch old = (case patch of None \<Rightarrow> old | Some v \<Rightarrow> normalizeOptionalString v)"

definition merge_mode :: "string option option \<Rightarrow> delivery_mode option \<Rightarrow> delivery_mode option" where
  "merge_mode patch old = (case patch of
       None \<Rightarrow> old
     | Some v \<Rightarrow> (let mode = js_nullish (normalizeOptionalString v) [] in
         if mode = ''announce'' then Some ModeAnnounce else if mode = ''webhook'' then Some ModeWebhook else None))"

definition empty_destination :: failure_destination where
  "empty_destination = \<lparr>fd_channel = None, fd_to = None, fd_accountId = None, fd_mode = None\<rparr>"

definition merge_destination :: "failure_destination option \<Rightarrow> destination_patch \<Rightarrow> failure_destination" where
  "merge_destination existing p =
     (let fd = js_nullish existing empty_destination in
      \<lparr>fd_channel = merge_text (dq_channel p) (fd_channel fd), fd_to = merge_text (dq_to p) (fd_to fd),
       fd_accountId = merge_text (dq_accountId p) (fd_accountId fd), fd_mode = merge_mode (dq_mode p) (fd_mode fd)\<rparr>)"

definition mergeCronDelivery :: "cron_delivery option \<Rightarrow> delivery_patch \<Rightarrow> cron_delivery" where
  "mergeCronDelivery existing patch =
     \<lparr>cd_mode = (case dq_deliveryMode patch of
          None \<Rightarrow> Some (js_nullish (Option.bind existing cd_mode) ModeNone)
        | Some LegacyDeliver \<Rightarrow> Some ModeAnnounce
        | Some (PatchMode m) \<Rightarrow> Some m),
      cd_channel = merge_text (dq_deliveryChannel patch) (Option.bind existing cd_channel),
      cd_to = merge_text (dq_deliveryTo patch) (Option.bind existing cd_to),
      cd_threadId = merge_text (dq_threadId patch) (Option.bind existing cd_threadId),
      cd_accountId = merge_text (dq_deliveryAccountId patch) (Option.bind existing cd_accountId),
      cd_bestEffort = or_else (dq_bestEffort patch) (Option.bind existing cd_bestEffort),
      cd_failureDestination = (case dq_failureDestination patch of
          None \<Rightarrow> Option.bind existing cd_failureDestination
        | Some None \<Rightarrow> None
        | Some (Some p) \<Rightarrow> Some (merge_destination (Option.bind existing cd_failureDestination) p))\<rparr>"

definition empty_alert :: failure_alert where
  "empty_alert = \<lparr>fa_after = None, fa_channel = None, fa_to = None, fa_cooldownMs = None, fa_mode = None, fa_accountId = None\<rparr>"

definition mergeCronFailureAlert :: "alert_setting \<Rightarrow> alert_setting_patch \<Rightarrow> alert_setting" where
  "mergeCronFailureAlert existing patch = (case patch of
       PatchAlertOff \<Rightarrow> AlertOff
     | PatchAlertUndefined \<Rightarrow> existing
     | PatchAlert p \<Rightarrow>
         (let base = (case existing of AlertOn a \<Rightarrow> a | _ \<Rightarrow> empty_alert) in
          AlertOn \<lparr>fa_after = (case ap_after p of None \<Rightarrow> fa_after base
                | Some v \<Rightarrow> (let after = js_nullish v 0 in if after > 0 then Some (of_int \<lfloor>after\<rfloor>) else None)),
              fa_channel = merge_text (ap_channel p) (fa_channel base),
              fa_to = merge_text (ap_to p) (fa_to base),
              fa_cooldownMs = (case ap_cooldownMs p of None \<Rightarrow> fa_cooldownMs base
                | Some v \<Rightarrow> (let cooldownMs = js_nullish v (- 1) in
                    if cooldownMs \<ge> 0 then Some (of_int \<lfloor>cooldownMs\<rfloor>) else None)),
              fa_mode = merge_mode (ap_mode p) (fa_mode base),
              fa_accountId = merge_text (ap_accountId p) (fa_accountId base)\<rparr>))"

definition merge_state :: "job_state \<Rightarrow> state_patch \<Rightarrow> job_state" where
  "merge_state st p = \<lparr>js_nextRunAtMs = js_nullish (sp_nextRunAtMs p) (js_nextRunAtMs st),
     js_runningAtMs = js_nullish (sp_runningAtMs p) (js_runningAtMs st),
     js_lastRunAtMs = js_nullish (sp_lastRunAtMs p) (js_lastRunAtMs st),
     js_lastRunStatus = js_nullish (sp_lastRunStatus p) (js_lastRunStatus st),
     js_lastStatus = js_nullish (sp_lastStatus p) (js_lastStatus st),
     js_lastError = js_nullish (sp_lastError p) (js_lastError st),
     js_lastErrorReason = js_nullish (sp_lastErrorReason p) (js_lastErrorReason st),
     js_lastDurationMs = js_nullish (sp_lastDurationMs p) (js_lastDurationMs st),
     js_consecutiveErrors = js_nullish (sp_consecutiveErrors p) (js_consecutiveErrors st),
     js_lastFailureAlertAtMs = js_nullish (sp_lastFailureAlertAtMs p) (js_lastFailureAlertAtMs st),
     js_scheduleErrorCount = js_nullish (sp_scheduleErrorCount p) (js_scheduleErrorCount st),
     js_lastDeliveryStatus = js_nullish (sp_lastDeliveryStatus p) (js_lastDeliveryStatus st),
     js_lastDeliveryError = js_nullish (sp_lastDeliveryError p) (js_lastDeliveryError st),
     js_lastDelivered = js_nullish (sp_lastDelivered p) (js_lastDelivered st)\<rparr>"

definition merge_schedule :: "cron_schedule \<Rightarrow> cron_schedule \<Rightarrow> cron_schedule throwing" where
  "merge_schedule old new = (case new of
       SchedCron expr legacy tz staggerMs \<Rightarrow>
         (case normalizeCronStaggerMs staggerMs of
            Some explicitStaggerMs \<Rightarrow> Inr (SchedCron expr legacy tz (Some (of_int explicitStaggerMs)))
          | None \<Rightarrow> (case old of
              SchedCron _ _ _ oldStagger \<Rightarrow> Inr (SchedCron expr legacy tz oldStagger)
            | _ \<Rightarrow> and_then (default_stagger expr) (\<lambda>d.
                Inr (SchedCron expr legacy tz (case d of Some ms \<Rightarrow> Some (of_int ms) | None \<Rightarrow> staggerMs)))))
     | _ \<Rightarrow> Inr new)"

section \<open>Applying a patch\<close>

text \<open>\<open>applyJobPatch\<close> writes to the stored job as it goes: a step returns the job and the error that stops the
  following ones.\<close>

type_synonym mutation = "cron_job \<times> string option"

definition and_also :: "mutation \<Rightarrow> (cron_job \<Rightarrow> mutation) \<Rightarrow> mutation" where
  "and_also m f = (case m of (job, None) \<Rightarrow> f job | (job, Some e) \<Rightarrow> (job, Some e))"

text \<open>\<open>job.field = value\<close>, the right-hand side being absent or throwing.\<close>

definition assign :: "('a \<Rightarrow> cron_job \<Rightarrow> cron_job) \<Rightarrow> 'a throwing option \<Rightarrow> cron_job \<Rightarrow> mutation" where
  "assign upd rhs job = (case rhs of
       None \<Rightarrow> (job, None)
     | Some (Inl e) \<Rightarrow> (job, Some e)
     | Some (Inr v) \<Rightarrow> (upd v job, None))"

definition patch_head :: "job_patch \<Rightarrow> cron_job \<Rightarrow> mutation" where
  "patch_head p job =
     and_also (assign (\<lambda>v j. j\<lparr>cj_name := v\<rparr>) (map_option normalizeRequiredName (cp_name p)) job) (\<lambda>j.
     assign (\<lambda>v j. j\<lparr>cj_schedule := v\<rparr>) (map_option (merge_schedule (cj_schedule j)) (cp_schedule p))
       (j\<lparr>cj_description := merge_text (cp_description p) (cj_description j),
          cj_enabled := or_else (cp_enabled p) (cj_enabled j),
          cj_deleteAfterRun := or_else (cp_deleteAfterRun p) (cj_deleteAfterRun j)\<rparr>))"

definition patch_payload :: "job_patch \<Rightarrow> cron_job \<Rightarrow> mutation" where
  "patch_payload p job =
     assign (\<lambda>v j. j\<lparr>cj_payload := v\<rparr>) (map_option (mergeCronPayload (cj_payload job)) (cp_payload p))
       (job\<lparr>cj_sessionTarget := js_or (js_nullish (cp_sessionTarget p) []) (cj_sessionTarget job),
            cj_wakeMode := js_nullish (cp_wakeMode p) (cj_wakeMode job)\<rparr>)"

definition patch_delivery :: "job_patch \<Rightarrow> cron_job \<Rightarrow> mutation" where
  "patch_delivery p job0 =
     (let job = job0\<lparr>cj_delivery := (case cp_delivery p of None \<Rightarrow> cj_delivery job0
                | Some d \<Rightarrow> Some (mergeCronDelivery (cj_delivery job0) d)),
              cj_failureAlert := (case cp_failureAlert p of None \<Rightarrow> cj_failureAlert job0
                | Some a \<Rightarrow> mergeCronFailureAlert (cj_failureAlert job0) a)\<rparr>;
          notWebhookMain = (cj_sessionTarget job = ''main''
            \<and> Option.bind (cj_delivery job) cd_mode \<noteq> Some ModeWebhook)
      in if notWebhookMain \<and> Option.bind (cj_delivery job) cd_failureDestination \<noteq> None
         then (job, Some failure_destination_error)
         else (if notWebhookMain then job\<lparr>cj_delivery := None\<rparr> else job, None))"

definition patch_rest :: "job_patch \<Rightarrow> cron_job \<Rightarrow> cron_job" where
  "patch_rest p job =
     job\<lparr>cj_state := (case cp_state p of None \<Rightarrow> cj_state job | Some sp \<Rightarrow> merge_state (cj_state job) sp),
         cj_agentId := (case cp_agentId p of None \<Rightarrow> cj_agentId job | Some v \<Rightarrow> normalizeOptionalAgentId v),
         cj_sessionKey := merge_text (cp_sessionKey p) (cj_sessionKey job)\<rparr>"

definition applyJobPatch :: "jobs_env \<Rightarrow> cron_job \<Rightarrow> job_patch \<Rightarrow> mutation" where
  "applyJobPatch E job p =
     and_also (patch_head p job) (\<lambda>j1.
     and_also (patch_payload p j1) (\<lambda>j2.
     and_also (patch_delivery p j2) (\<lambda>j3.
     assert_job E (patch_rest p j3))))"

section \<open>The service's store\<close>

datatype job_event =
    JobAdded string "int option"
  | JobUpdated string "int option"
  | JobStarted string int
  | JobFinished string run_status
  | JobRemoved string

record ops_state =
  os_cron :: cron_state
  os_file :: "cron_job list"
  os_events :: "job_event list"

definition ops_jobs :: "ops_state \<Rightarrow> cron_job list" where
  "ops_jobs s = jobs_of (os_cron s)"

definition put_jobs :: "cron_job list \<Rightarrow> ops_state \<Rightarrow> ops_state" where
  "put_jobs jobs s = s\<lparr>os_cron := (os_cron s)\<lparr>cs_store := Some jobs\<rparr>\<rparr>"

definition add_effects :: "cron_effect list \<Rightarrow> ops_state \<Rightarrow> ops_state" where
  "add_effects effs s = s\<lparr>os_cron := (os_cron s)\<lparr>cs_effects := cs_effects (os_cron s) @ effs\<rparr>\<rparr>"

definition emit :: "job_event list \<Rightarrow> ops_state \<Rightarrow> ops_state" where
  "emit evs s = s\<lparr>os_events := os_events s @ evs\<rparr>"

definition persist :: "ops_state \<Rightarrow> ops_state" where
  "persist s = (case cs_store (os_cron s) of None \<Rightarrow> s | Some jobs \<Rightarrow> s\<lparr>os_file := jobs\<rparr>)"

definition arm :: "jobs_env \<Rightarrow> int \<Rightarrow> ops_state \<Rightarrow> ops_state" where
  "arm E now s = s\<lparr>os_cron := armTimer (je_deps E) (os_cron s) now\<rparr>"

definition recompute :: "jobs_env \<Rightarrow> int \<Rightarrow> ops_state \<Rightarrow> ops_state" where
  "recompute E now s =
     (let (jobs, _, effs) = recomputeNextRuns (je_deps E) (ops_jobs s) now in add_effects effs (put_jobs jobs s))"

definition maintain :: "jobs_env \<Rightarrow> bool \<Rightarrow> int \<Rightarrow> ops_state \<Rightarrow> ops_state" where
  "maintain E recomputeExpired now s =
     (let (jobs, _, effs) = recomputeNextRunsForMaintenance (je_deps E) recomputeExpired (ops_jobs s) now
      in add_effects effs (put_jobs jobs s))"

definition load_file :: "ops_state \<Rightarrow> ops_state" where
  "load_file s = put_jobs (map (\<lambda>j. j\<lparr>cj_enabled := Some (js_nullish (cj_enabled j) True)\<rparr>) (os_file s)) s"

definition ensureLoaded :: "jobs_env \<Rightarrow> bool \<Rightarrow> bool \<Rightarrow> int \<Rightarrow> ops_state \<Rightarrow> ops_state" where
  "ensureLoaded E forceReload skipRecompute now s =
     (if cs_store (os_cron s) \<noteq> None \<and> \<not> forceReload then s
      else if skipRecompute then load_file s else recompute E now (load_file s))"

definition findJobOrThrow :: "ops_state \<Rightarrow> string \<Rightarrow> cron_job throwing" where
  "findJobOrThrow s jid = (case find (\<lambda>j. cj_id j = jid) (ops_jobs s) of
       None \<Rightarrow> Inl (''unknown cron job id: '' @ jid) | Some job \<Rightarrow> Inr job)"

text \<open>Writing to the stored job object that was found.\<close>

definition write_job :: "cron_job \<Rightarrow> ops_state \<Rightarrow> ops_state" where
  "write_job job s = put_jobs (replace_job job (ops_jobs s)) s"

section \<open>Adding, updating and removing jobs\<close>

definition add :: "jobs_env \<Rightarrow> string \<Rightarrow> int \<Rightarrow> job_create \<Rightarrow> ops_state \<Rightarrow> ops_state \<times> cron_job throwing" where
  "add E jid now input s0 =
     (let s = ensureLoaded E False False now s0 in
      case createJob E jid now input of
        Inl e \<Rightarrow> (s, Inl e)
      | Inr job0 \<Rightarrow>
          (let s1 = recompute E now (put_jobs (ops_jobs s @ [job0]) s); job = last (ops_jobs s1)
           in (emit [JobAdded (cj_id job) (js_nextRunAtMs (cj_state job))] (arm E now (persist s1)), Inr job)))"

definition update_anchor :: "job_patch \<Rightarrow> int \<Rightarrow> cron_job \<Rightarrow> cron_job" where
  "update_anchor p now job = (case cj_schedule job of
       SchedEvery everyMs None \<Rightarrow>
         (let fallbackAnchorMs = (case cp_schedule p of
                Some (SchedEvery _ _) \<Rightarrow> now | _ \<Rightarrow> js_nullish (cj_createdAtMs job) now)
          in job\<lparr>cj_schedule := SchedEvery everyMs (Some (of_int (max 0 fallbackAnchorMs)))\<rparr>)
     | _ \<Rightarrow> job)"

definition update_next :: "jobs_env \<Rightarrow> job_patch \<Rightarrow> int \<Rightarrow> cron_job \<Rightarrow> mutation" where
  "update_next E p now job =
     (let set = (\<lambda>next j. j\<lparr>cj_state := (cj_state j)\<lparr>js_nextRunAtMs := next\<rparr>\<rparr>);
          next = computeJobNextRunAtMs (dp_env (je_deps E)) job now
      in if cp_schedule p \<noteq> None \<or> cp_enabled p \<noteq> None then
           (if isJobEnabled job then assign set (Some next) job
            else (job\<lparr>cj_state := (cj_state job)\<lparr>js_nextRunAtMs := None, js_runningAtMs := None\<rparr>\<rparr>, None))
         else if isJobEnabled job \<and> js_nextRunAtMs (cj_state job) = None then assign set (Some next) job
         else (job, None))"

definition edit_job :: "jobs_env \<Rightarrow> job_patch \<Rightarrow> int \<Rightarrow> cron_job \<Rightarrow> mutation" where
  "edit_job E p now job =
     and_also (applyJobPatch E job p) (\<lambda>j. update_next E p now ((update_anchor p now j)\<lparr>cj_updatedAtMs := now\<rparr>))"

definition update :: "jobs_env \<Rightarrow> string \<Rightarrow> job_patch \<Rightarrow> int \<Rightarrow> ops_state \<Rightarrow> ops_state \<times> cron_job throwing" where
  "update E jid p now s0 =
     (let s = ensureLoaded E False True now s0 in
      case findJobOrThrow s jid of
        Inl e \<Rightarrow> (s, Inl e)
      | Inr job0 \<Rightarrow> (case edit_job E p now job0 of
          (job, Some e) \<Rightarrow> (write_job job s, Inl e)
        | (job, None) \<Rightarrow>
            (emit [JobUpdated jid (js_nextRunAtMs (cj_state job))] (arm E now (persist (write_job job s))), Inr job)))"

definition remove :: "jobs_env \<Rightarrow> string \<Rightarrow> int \<Rightarrow> ops_state \<Rightarrow> ops_state \<times> bool" where
  "remove E jid now s0 =
     (let s = ensureLoaded E False False now s0;
          jobs = filter (\<lambda>j. cj_id j \<noteq> jid) (ops_jobs s);
          removed = (length jobs \<noteq> length (ops_jobs s))
      in (emit (if removed then [JobRemoved jid] else []) (arm E now (persist (put_jobs jobs s))), removed))"

section \<open>Starting the service\<close>

text \<open>The first locked section of \<open>start\<close>: stale running markers are cleared; result: the one-shot jobs among them.\<close>

definition clear_running :: "cron_job \<Rightarrow> cron_job" where
  "clear_running job = job\<lparr>cj_state := (cj_state job)\<lparr>js_runningAtMs := None\<rparr>\<rparr>"

definition start_clear :: "jobs_env \<Rightarrow> int \<Rightarrow> ops_state \<Rightarrow> ops_state \<times> string list" where
  "start_clear E now s0 =
     (let s = ensureLoaded E False True now s0;
          stale = filter (\<lambda>j. js_runningAtMs (cj_state j) \<noteq> None) (ops_jobs s);
          s1 = put_jobs (map clear_running (ops_jobs s)) s
      in (if stale = [] then s else persist s1, map cj_id (filter is_at stale)))"

text \<open>\<open>runMissedJobs\<close>; \<open>runs\<close> gives the outcomes of running the chosen jobs.\<close>

definition runMissedJobs ::
    "jobs_env \<Rightarrow> (cron_job list \<Rightarrow> (string \<times> run_result) list) \<Rightarrow> string list \<Rightarrow> int \<Rightarrow> int \<Rightarrow> ops_state \<Rightarrow> ops_state" where
  "runMissedJobs E runs skipJobIds now endNow s0 =
     (let s = ensureLoaded E False True now s0;
          (candidates, deferredJobIds, jobs) = planStartupCatchup (je_deps E) skipJobIds (ops_jobs s) now
      in if candidates = [] \<and> deferredJobIds = [] then s
         else let s1 = persist (put_jobs jobs s);
                  c = applyStartupCatchupOutcomes (je_deps E) (os_cron s1) deferredJobIds (runs candidates) endNow
              in persist (s1\<lparr>os_cron := c\<rparr>))"

definition start ::
    "jobs_env \<Rightarrow> (cron_job list \<Rightarrow> (string \<times> run_result) list) \<Rightarrow> int \<Rightarrow> int \<Rightarrow> int \<Rightarrow> ops_state \<Rightarrow> ops_state" where
  "start E runs now endNow armNow s0 =
     (if \<not> dp_cronEnabled (je_deps E) then s0
      else let (s1, interrupted) = start_clear E now s0;
               s2 = runMissedJobs E runs interrupted now endNow s1;
               s3 = ensureLoaded E False True armNow s2;
               (_, changed, _) = recomputeNextRuns (je_deps E) (ops_jobs s3) armNow;
               s4 = recompute E armNow s3
           in arm E armNow (if changed then persist s4 else s4))"

definition stop :: "ops_state \<Rightarrow> ops_state" where
  "stop s = s\<lparr>os_cron := stopTimer (os_cron s)\<rparr>"

section \<open>Manual runs\<close>

datatype run_reply = AlreadyRunning | NotDue | InvalidSpec | Runnable | RunPrepared cron_job

definition apply_run_result :: "jobs_env \<Rightarrow> cron_job \<Rightarrow> run_result \<Rightarrow> bool \<Rightarrow> int \<Rightarrow> ops_state \<Rightarrow> ops_state \<times> cron_job \<times> bool" where
  "apply_run_result E job r preserveSchedule now s =
     (let (job1, effs, shouldDelete) = applyJobResult (je_deps E) job r preserveSchedule now;
          s1 = emit [JobFinished (cj_id job) (rr_status r)] (add_effects effs (write_job job1 s))
      in (if shouldDelete
          then emit [JobRemoved (cj_id job)] (put_jobs (filter (\<lambda>j. cj_id j \<noteq> cj_id job) (ops_jobs s1)) s1)
          else s1, job1, shouldDelete))"

definition skipInvalidPersistedManualRun ::
    "jobs_env \<Rightarrow> cron_job \<Rightarrow> bool \<Rightarrow> string \<Rightarrow> int \<Rightarrow> ops_state \<Rightarrow> ops_state" where
  "skipInvalidPersistedManualRun E job force err now s =
     (let (s1, _, _) = apply_run_result E job \<lparr>rr_status = StatusSkipped, rr_error = Some err, rr_delivered = None,
            rr_startedAt = now, rr_endedAt = now\<rparr> force now s
      in arm E now (persist (maintain E True now s1)))"

definition inspectManualRunPreflight ::
    "jobs_env \<Rightarrow> string \<Rightarrow> bool \<Rightarrow> int \<Rightarrow> ops_state \<Rightarrow> ops_state \<times> run_reply throwing" where
  "inspectManualRunPreflight E jid force now s0 =
     (let s = maintain E False now (ensureLoaded E False True now s0) in
      case findJobOrThrow s jid of
        Inl e \<Rightarrow> (s, Inl e)
      | Inr job \<Rightarrow> (case assertSupportedJobSpec job of
          Inl e \<Rightarrow> (skipInvalidPersistedManualRun E job force (''Error: '' @ e) now s, Inr InvalidSpec)
        | Inr _ \<Rightarrow>
            if js_runningAtMs (cj_state job) \<noteq> None then (s, Inr AlreadyRunning)
            else if \<not> isJobDue job now force then (s, Inr NotDue)
            else (s, Inr Runnable)))"

text \<open>The second locked section: the run is reserved.\<close>

definition reserve_run :: "string \<Rightarrow> int \<Rightarrow> ops_state \<Rightarrow> ops_state \<times> run_reply throwing" where
  "reserve_run jid now s = (case findJobOrThrow s jid of
       Inl e \<Rightarrow> (s, Inl e)
     | Inr job \<Rightarrow>
         if js_runningAtMs (cj_state job) \<noteq> None then (s, Inr AlreadyRunning)
         else let job1 = job\<lparr>cj_state := (cj_state job)\<lparr>js_runningAtMs := Some now, js_lastError := None\<rparr>\<rparr>
              in (emit [JobStarted jid now] (persist (write_job job1 s)), Inr (RunPrepared job1)))"

definition prepareManualRun ::
    "jobs_env \<Rightarrow> string \<Rightarrow> bool \<Rightarrow> int \<Rightarrow> ops_state \<Rightarrow> ops_state \<times> run_reply throwing" where
  "prepareManualRun E jid force now s = (case inspectManualRunPreflight E jid force now s of
       (s1, Inr Runnable) \<Rightarrow> reserve_run jid now s1
     | (s1, reply) \<Rightarrow> (s1, reply))"

definition mergeManualRunSnapshotAfterReload :: "cron_job \<Rightarrow> bool \<Rightarrow> ops_state \<Rightarrow> ops_state" where
  "mergeManualRunSnapshotAfterReload snapshot removed s =
     (if removed then put_jobs (filter (\<lambda>j. cj_id j \<noteq> cj_id snapshot) (ops_jobs s)) s
      else case findJobOrThrow s (cj_id snapshot) of
          Inl _ \<Rightarrow> s
        | Inr reloaded \<Rightarrow> write_job (reloaded\<lparr>cj_enabled := cj_enabled snapshot, cj_updatedAtMs := cj_updatedAtMs snapshot,
              cj_state := cj_state snapshot\<rparr>) s)"

text \<open>The last locked section: the result of the run that was prepared.\<close>

definition finishPreparedManualRun ::
    "jobs_env \<Rightarrow> string \<Rightarrow> bool \<Rightarrow> run_result \<Rightarrow> int \<Rightarrow> ops_state \<Rightarrow> ops_state" where
  "finishPreparedManualRun E jid force r now s0 =
     (let s = ensureLoaded E False True now s0 in
      case findJobOrThrow s jid of
        Inl _ \<Rightarrow> s
      | Inr job \<Rightarrow>
          (let (s1, job1, removed) = apply_run_result E job r force now s;
               s2 = mergeManualRunSnapshotAfterReload job1 removed (ensureLoaded E True True now s1)
           in arm E now (persist (maintain E True now s2))))"

section \<open>Reading the store\<close>

definition ensureLoadedForRead :: "jobs_env \<Rightarrow> int \<Rightarrow> ops_state \<Rightarrow> ops_state" where
  "ensureLoadedForRead E now s0 =
     (let s = ensureLoaded E False True now s0;
          (_, changed, _) = recomputeNextRunsForMaintenance (je_deps E) False (ops_jobs s) now;
          s1 = maintain E False now s
      in if changed then persist s1 else s1)"

definition list_jobs :: "jobs_env \<Rightarrow> bool \<Rightarrow> int \<Rightarrow> ops_state \<Rightarrow> ops_state \<times> cron_job list" where
  "list_jobs E includeDisabled now s0 =
     (let s = ensureLoadedForRead E now s0 in
      (s, sort_key (\<lambda>j. js_nullish (js_nextRunAtMs (cj_state j)) 0)
            (filter (\<lambda>j. includeDisabled \<or> isJobEnabled j) (ops_jobs s))))"

text \<open>
  \<open>listPage\<close>: the collation of names and of ids (\<open>localeCompare\<close>) is a parameter; \<open>toSorted\<close> is stable.
  Limits and offsets are numbers; the query is matched in the lower-cased name, description and agent id.
\<close>

datatype enabled_filter = FilterAll | FilterEnabled | FilterDisabled

datatype sort_by = SortNextRun | SortUpdated | SortName

record page_opts =
  po_includeDisabled :: "bool option"
  po_limit :: "rat option"
  po_offset :: "rat option"
  po_query :: "string option"
  po_enabled :: "enabled_filter option"
  po_sortBy :: "sort_by option"
  po_descending :: bool

record page =
  pg_jobs :: "cron_job list"
  pg_total :: int
  pg_offset :: int
  pg_limit :: int
  pg_hasMore :: bool
  pg_nextOffset :: "int option"

record collation =
  co_name :: "string \<Rightarrow> string \<Rightarrow> int"
  co_id :: "string \<Rightarrow> string \<Rightarrow> int"

definition resolveEnabledFilter :: "page_opts \<Rightarrow> enabled_filter" where
  "resolveEnabledFilter opts = js_nullish (po_enabled opts)
     (if js_nullish (po_includeDisabled opts) False then FilterAll else FilterEnabled)"

definition compare_jobs :: "collation \<Rightarrow> sort_by \<Rightarrow> bool \<Rightarrow> cron_job \<Rightarrow> cron_job \<Rightarrow> int" where
  "compare_jobs co sortBy descending a b =
     (let dir = (if descending then - 1 else 1);
          cmp = (case sortBy of
              SortName \<Rightarrow> co_name co (cj_name a) (cj_name b)
            | SortUpdated \<Rightarrow> cj_updatedAtMs a - cj_updatedAtMs b
            | SortNextRun \<Rightarrow> (case (js_nextRunAtMs (cj_state a), js_nextRunAtMs (cj_state b)) of
                (Some aNext, Some bNext) \<Rightarrow> aNext - bNext
              | (Some _, None) \<Rightarrow> - 1
              | (None, Some _) \<Rightarrow> 1
              | (None, None) \<Rightarrow> 0))
      in if cmp \<noteq> 0 then cmp * dir else co_id co (cj_id a) (cj_id b))"

definition sortJobs :: "collation \<Rightarrow> cron_job list \<Rightarrow> sort_by \<Rightarrow> bool \<Rightarrow> cron_job list" where
  "sortJobs co jobs sortBy descending = to_sorted (\<lambda>a b. compare_jobs co sortBy descending a b \<le> 0) jobs"

definition page_match :: "enabled_filter \<Rightarrow> string \<Rightarrow> cron_job \<Rightarrow> bool" where
  "page_match enabledFilter query job \<longleftrightarrow>
     \<not> (enabledFilter = FilterEnabled \<and> \<not> isJobEnabled job) \<and>
     \<not> (enabledFilter = FilterDisabled \<and> isJobEnabled job) \<and>
     (query = [] \<or> contains (normalizeLowercaseStringOrEmpty (Some (cj_name job @ '' '' @
        js_nullish (cj_description job) [] @ '' '' @ js_nullish (cj_agentId job) []))) query)"

definition page_of :: "page_opts \<Rightarrow> cron_job list \<Rightarrow> page" where
  "page_of opts found =
     (let total = int (length found);
          offset = max 0 (min total \<lfloor>js_nullish (po_offset opts) 0\<rfloor>);
          defaultLimit = (if total = 0 then 50 else total);
          limit = max 1 (min 200 \<lfloor>js_nullish (po_limit opts) (of_int defaultLimit)\<rfloor>);
          jobs = take (nat limit) (drop (nat offset) found);
          nextOffset = offset + int (length jobs)
      in \<lparr>pg_jobs = jobs, pg_total = total, pg_offset = offset, pg_limit = limit, pg_hasMore = (nextOffset < total),
          pg_nextOffset = (if nextOffset < total then Some nextOffset else None)\<rparr>)"

definition listPage :: "jobs_env \<Rightarrow> collation \<Rightarrow> page_opts \<Rightarrow> int \<Rightarrow> ops_state \<Rightarrow> ops_state \<times> page" where
  "listPage E co opts now s0 =
     (let s = ensureLoadedForRead E now s0;
          filtered = filter (page_match (resolveEnabledFilter opts) (normalizeLowercaseStringOrEmpty (po_query opts)))
            (ops_jobs s)
      in (s, page_of opts (sortJobs co filtered (js_nullish (po_sortBy opts) SortNextRun) (po_descending opts))))"

definition status_jobs :: "jobs_env \<Rightarrow> int \<Rightarrow> ops_state \<Rightarrow> ops_state \<times> bool \<times> nat \<times> int option" where
  "status_jobs E now s0 =
     (let s = ensureLoadedForRead E now s0; enabled = dp_cronEnabled (je_deps E)
      in (s, enabled, length (ops_jobs s), if enabled then nextWakeAtMs (ops_jobs s) else None))"

section \<open>What the checks establish\<close>

definition opt_all :: "('a \<Rightarrow> bool) \<Rightarrow> 'a option \<Rightarrow> bool" where
  "opt_all P x = (case x of None \<Rightarrow> True | Some v \<Rightarrow> P v)"

lemma opt_all_simps [simp]: "opt_all P None" "opt_all P (Some v) = P v"
  by (simp_all add: opt_all_def)

definition webhook_url :: "jobs_env \<Rightarrow> string option \<Rightarrow> bool" where
  "webhook_url E url = (case url of None \<Rightarrow> False
     | Some u \<Rightarrow> u \<noteq> [] \<and> js_trim u = u \<and>
         (je_urlProtocol E u = Some ''http:'' \<or> je_urlProtocol E u = Some ''https:''))"

definition target_ok :: "string \<Rightarrow> bool" where
  "target_ok target \<longleftrightarrow> \<not> js_starts_with target ''session:'' \<or>
     (let sid = js_trim (drop 8 target) in sid \<noteq> [] \<and> CHR ''/'' \<notin> set sid \<and> CHR 0x5C \<notin> set sid \<and> CHR 0x00 \<notin> set sid)"

definition payload_ok :: "string \<Rightarrow> cron_payload \<Rightarrow> bool" where
  "payload_ok target payload = (case payload of
     SystemEvent _ \<Rightarrow> \<not> isolated_like target | AgentTurn _ \<Rightarrow> target \<noteq> ''main'')"

definition agent_ok :: "jobs_env \<Rightarrow> string \<Rightarrow> string option \<Rightarrow> bool" where
  "agent_ok E target agentId \<longleftrightarrow> target \<noteq> ''main'' \<or> agentId = None \<or> agentId = Some [] \<or>
     normalizeAgentId agentId = normalizeAgentId (je_defaultAgentId E)"

definition destination_ok :: "jobs_env \<Rightarrow> string \<Rightarrow> delivery_mode option \<Rightarrow> failure_destination \<Rightarrow> bool" where
  "destination_ok E target mode fd \<longleftrightarrow> (target \<noteq> ''main'' \<or> mode = Some ModeWebhook) \<and>
     (fd_mode fd \<noteq> Some ModeWebhook \<or> webhook_url E (fd_to fd))"

definition delivery_ok :: "jobs_env \<Rightarrow> string \<Rightarrow> cron_delivery \<Rightarrow> bool" where
  "delivery_ok E target d \<longleftrightarrow>
     (if cd_mode d = Some ModeWebhook then webhook_url E (cd_to d)
      else cd_mode d = Some ModeNone \<or> isolated_like target) \<and>
     opt_all (destination_ok E target (cd_mode d)) (cd_failureDestination d)"

definition job_spec_ok :: "jobs_env \<Rightarrow> cron_job \<Rightarrow> bool" where
  "job_spec_ok E job \<longleftrightarrow> target_ok (cj_sessionTarget job) \<and> payload_ok (cj_sessionTarget job) (cj_payload job) \<and>
     agent_ok E (cj_sessionTarget job) (cj_agentId job) \<and>
     opt_all (delivery_ok E (cj_sessionTarget job)) (cj_delivery job)"

text \<open>Webhook addresses are stored trimmed.\<close>

definition trim_destination :: "failure_destination \<Rightarrow> failure_destination" where
  "trim_destination fd = (if fd_mode fd = Some ModeWebhook then fd\<lparr>fd_to := map_option js_trim (fd_to fd)\<rparr> else fd)"

definition trim_delivery :: "cron_delivery \<Rightarrow> cron_delivery" where
  "trim_delivery d = d\<lparr>cd_to := (if cd_mode d = Some ModeWebhook then map_option js_trim (cd_to d) else cd_to d),
     cd_failureDestination := map_option trim_destination (cd_failureDestination d)\<rparr>"

definition trim_urls :: "cron_job \<Rightarrow> cron_job" where
  "trim_urls job = job\<lparr>cj_delivery := map_option trim_delivery (cj_delivery job)\<rparr>"

lemma normalizeHttpWebhookUrl_eq:
  "normalizeHttpWebhookUrl E url =
     (if webhook_url E (map_option js_trim url) then map_option js_trim url else None)"
  by (auto simp: normalizeHttpWebhookUrl_def webhook_url_def isAllowedWebhookProtocol_def Let_def
    split: option.splits)

lemma webhook_url_None [simp]: "\<not> webhook_url E None"
  by (simp add: webhook_url_def)

lemma isolated_like_main [simp]: "\<not> isolated_like ''main''"
  by (simp add: isolated_like_def js_starts_with_def)

lemma assertSupportedJobSpec_iff:
  "assertSupportedJobSpec job = Inr () \<longleftrightarrow>
     target_ok (cj_sessionTarget job) \<and> payload_ok (cj_sessionTarget job) (cj_payload job)"
  by (auto simp: assertSupportedJobSpec_def assertSafeCronSessionTargetId_def target_ok_def payload_ok_def Let_def
    split: cron_payload.splits if_splits)

lemma assertMainSessionAgentId_iff:
  "assertMainSessionAgentId E job = Inr () \<longleftrightarrow> agent_ok E (cj_sessionTarget job) (cj_agentId job)"
  by (auto simp: assertMainSessionAgentId_def agent_ok_def split: option.splits)

definition main_delivery_ok :: "jobs_env \<Rightarrow> string \<Rightarrow> cron_delivery \<Rightarrow> bool" where
  "main_delivery_ok E target d \<longleftrightarrow>
     (if cd_mode d = Some ModeWebhook then webhook_url E (cd_to d)
      else cd_mode d = Some ModeNone \<or> isolated_like target)"

definition trim_to :: "cron_delivery \<Rightarrow> cron_delivery" where
  "trim_to d = d\<lparr>cd_to := (if cd_mode d = Some ModeWebhook then map_option js_trim (cd_to d) else cd_to d)\<rparr>"

lemma assertDeliverySupport_cases:
  assumes "cj_delivery job = Some d"
  shows "(\<exists>e. assertDeliverySupport E job = Inl e) \<and> \<not> main_delivery_ok E (cj_sessionTarget job) (trim_to d) \<or>
    assertDeliverySupport E job = Inr (job\<lparr>cj_delivery := Some (trim_to d)\<rparr>) \<and>
      main_delivery_ok E (cj_sessionTarget job) (trim_to d)"
proof (cases "cd_mode d = Some ModeWebhook")
  case True
  show ?thesis
    by (cases "cd_to d")
      (auto simp: assertDeliverySupport_def main_delivery_ok_def trim_to_def assms True normalizeHttpWebhookUrl_eq)
next
  case False
  then have "trim_to d = d" by (simp add: trim_to_def)
  moreover have "job\<lparr>cj_delivery := Some d\<rparr> = job" using assms by (cases job) simp
  ultimately show ?thesis
    using False by (auto simp: assertDeliverySupport_def main_delivery_ok_def assms)
qed

lemma assertFailureDestinationSupport_cases:
  assumes "cj_delivery job = Some d" "cd_failureDestination d = Some fd"
  shows "(\<exists>e. assertFailureDestinationSupport E job = Inl e) \<and>
      \<not> destination_ok E (cj_sessionTarget job) (cd_mode d) (trim_destination fd) \<or>
    assertFailureDestinationSupport E job =
      Inr (job\<lparr>cj_delivery := Some (d\<lparr>cd_failureDestination := Some (trim_destination fd)\<rparr>)\<rparr>) \<and>
      destination_ok E (cj_sessionTarget job) (cd_mode d) (trim_destination fd)"
proof (cases "fd_mode fd = Some ModeWebhook")
  case True
  show ?thesis
    by (cases "fd_to fd")
      (auto simp: assertFailureDestinationSupport_def destination_ok_def trim_destination_def assms True
        normalizeHttpWebhookUrl_eq)
next
  case False
  then have "trim_destination fd = fd" by (simp add: trim_destination_def)
  moreover have "job\<lparr>cj_delivery := Some (d\<lparr>cd_failureDestination := Some fd\<rparr>)\<rparr> = job"
    using assms by (cases job, cases d) simp
  ultimately show ?thesis
    using False by (auto simp: assertFailureDestinationSupport_def destination_ok_def assms)
qed

lemma assert_delivery_cases:
  "(case assertDeliverySupport E job of Inl e \<Rightarrow> None
     | Inr j \<Rightarrow> (case assertFailureDestinationSupport E j of Inl e \<Rightarrow> None | Inr j' \<Rightarrow> Some j')) =
   (if opt_all (delivery_ok E (cj_sessionTarget job)) (cj_delivery (trim_urls job)) then Some (trim_urls job) else None)"
proof (cases "cj_delivery job")
  case None
  then show ?thesis
    by (cases job) (simp add: assertDeliverySupport_def assertFailureDestinationSupport_def trim_urls_def)
next
  case (Some d)
  have td: "trim_delivery d = (trim_to d)\<lparr>cd_failureDestination := map_option trim_destination (cd_failureDestination d)\<rparr>"
    by (simp add: trim_delivery_def trim_to_def)
  have ok: "delivery_ok E t (trim_delivery d) \<longleftrightarrow> main_delivery_ok E t (trim_to d) \<and>
      opt_all (destination_ok E t (cd_mode d)) (map_option trim_destination (cd_failureDestination d))" for t
    by (simp add: delivery_ok_def main_delivery_ok_def trim_delivery_def trim_to_def)
  let ?j = "job\<lparr>cj_delivery := Some (trim_to d)\<rparr>"
  have mode: "cd_mode (trim_to d) = cd_mode d" "cd_failureDestination (trim_to d) = cd_failureDestination d"
    by (simp_all add: trim_to_def)
  show ?thesis
  proof (cases "cd_failureDestination d")
    case None
    then have "assertFailureDestinationSupport E ?j = Inr ?j"
      by (simp add: assertFailureDestinationSupport_def mode)
    moreover have td': "trim_delivery d = trim_to d"
      using None by (cases d) (simp add: trim_to_def trim_delivery_def)
    moreover have "delivery_ok E t (trim_to d) = main_delivery_ok E t (trim_to d)" for t
      using ok [of t] None by (simp add: td')
    ultimately show ?thesis
      using assertDeliverySupport_cases [OF Some, of E]
      by (auto simp: trim_urls_def Some)
  next
    case (Some fd)
    then show ?thesis
      using assertDeliverySupport_cases [OF \<open>cj_delivery job = Some d\<close>, of E]
        assertFailureDestinationSupport_cases [of ?j "trim_to d" fd E]
      by (auto simp: trim_urls_def \<open>cj_delivery job = Some d\<close> ok, auto simp: td mode)
  qed
qed

lemma assert_job_eq:
  "(if snd (assert_job E job) = None then Some (fst (assert_job E job)) else None) =
   (if job_spec_ok E (trim_urls job) then Some (trim_urls job) else None)"
  using assertSupportedJobSpec_iff [of job] assertMainSessionAgentId_iff [of E job] assert_delivery_cases [of E job]
  by (auto simp: assert_job_def job_spec_ok_def trim_urls_def split: sum.splits if_splits option.splits)

lemma assert_job_accepts:
  "assert_job E job = (job1, None) \<longleftrightarrow> job1 = trim_urls job \<and> job_spec_ok E (trim_urls job)"
  using assert_job_eq [of E job] by (cases "assert_job E job") (auto split: if_splits)

section \<open>Creating and patching\<close>

text \<open>The inputs that a job can be created from.\<close>

definition create_ok :: "jobs_env \<Rightarrow> string \<Rightarrow> int \<Rightarrow> job_create \<Rightarrow> bool" where
  "create_ok E jid now input =
     (case (create_schedule (jc_schedule input) now, normalizeRequiredName (jc_name input)) of
        (Inr schedule, Inr name) \<Rightarrow>
          (let job = trim_urls (new_job jid now input schedule name)
           in job_spec_ok E job \<and> \<not> isl (computeJobNextRunAtMs (dp_env (je_deps E)) job now))
      | _ \<Rightarrow> False)"

lemma job_spec_ok_state [simp]:
  "job_spec_ok E (job\<lparr>cj_state := st\<rparr>) = job_spec_ok E job"
  "job_spec_ok E (job\<lparr>cj_schedule := sch\<rparr>) = job_spec_ok E job"
  "job_spec_ok E (job\<lparr>cj_updatedAtMs := t\<rparr>) = job_spec_ok E job"
  by (simp_all add: job_spec_ok_def)

lemma trim_urls_fields [simp]: "cj_id (trim_urls job) = cj_id job"
  by (simp add: trim_urls_def)

lemma createJob_cases:
  "(\<exists>e. createJob E jid now input = Inl e) \<and> \<not> create_ok E jid now input \<or>
   (\<exists>job. createJob E jid now input = Inr job \<and> job_spec_ok E job \<and> cj_id job = jid) \<and> create_ok E jid now input"
proof (cases "create_schedule (jc_schedule input) now")
  case (Inl e)
  then show ?thesis by (simp add: createJob_def create_ok_def)
next
  case sch: (Inr schedule)
  show ?thesis
  proof (cases "normalizeRequiredName (jc_name input)")
    case (Inl e)
    with sch show ?thesis by (simp add: createJob_def create_ok_def)
  next
    case nm: (Inr name)
    let ?job = "new_job jid now input schedule name"
    have jid: "cj_id ?job = jid" by (simp add: new_job_def)
    show ?thesis
    proof (cases "job_spec_ok E (trim_urls ?job)")
      case True
      then have a: "assert_job E ?job = (trim_urls ?job, None)" by (simp add: assert_job_accepts)
      show ?thesis
        by (cases "computeJobNextRunAtMs (dp_env (je_deps E)) (trim_urls ?job) now")
          (simp_all add: createJob_def create_ok_def sch nm a True jid Let_def)
    next
      case False
      then obtain j e where a: "assert_job E ?job = (j, Some e)"
        using assert_job_eq [of E ?job] by (cases "assert_job E ?job") (auto split: if_splits)
      show ?thesis
        by (simp add: createJob_def create_ok_def sch nm a False Let_def)
    qed
  qed
qed

lemma and_also_simps [simp]: "and_also (job, None) f = f job" "and_also (job, Some e) f = (job, Some e)"
  by (simp_all add: and_also_def)

lemma and_also_None: "and_also m f = (job, None) \<longleftrightarrow> (\<exists>j. m = (j, None) \<and> f j = (job, None))"
  by (cases m; cases "snd m") auto

lemma and_also_preserves:
  "P (fst m) \<Longrightarrow> (\<And>j. P j \<Longrightarrow> P (fst (f j))) \<Longrightarrow> P (fst (and_also m f))"
  by (cases m; cases "snd m") auto

lemma assign_preserves: "P job \<Longrightarrow> (\<And>v. P (upd v job)) \<Longrightarrow> P (fst (assign upd rhs job))"
  by (auto simp: assign_def split: option.split sum.split)

lemma applyJobPatch_spec: "applyJobPatch E job p = (job1, None) \<Longrightarrow> job_spec_ok E job1"
  by (auto simp: applyJobPatch_def and_also_None assert_job_accepts)

lemma assertDeliverySupport_id: "assertDeliverySupport E job = Inr j \<Longrightarrow> cj_id j = cj_id job"
  by (auto simp: assertDeliverySupport_def split: option.splits if_splits)

lemma assertFailureDestinationSupport_id: "assertFailureDestinationSupport E job = Inr j \<Longrightarrow> cj_id j = cj_id job"
  by (auto simp: assertFailureDestinationSupport_def split: option.splits if_splits)

lemma assert_job_id: "cj_id (fst (assert_job E job)) = cj_id job"
  unfolding assert_job_def
  by (simp split: sum.split add: assertDeliverySupport_id assertFailureDestinationSupport_id)

lemma applyJobPatch_id: "cj_id (fst (applyJobPatch E job p)) = cj_id job"
proof -
  have h: "cj_id (fst (patch_head p j)) = cj_id j" for j
    unfolding patch_head_def
    by (rule and_also_preserves [where P = "\<lambda>x. cj_id x = cj_id j"]; rule assign_preserves [where P = "\<lambda>x. cj_id x = cj_id j"]) simp_all
  have pl: "cj_id (fst (patch_payload p j)) = cj_id j" for j
    unfolding patch_payload_def by (rule assign_preserves [where P = "\<lambda>x. cj_id x = cj_id j"]) simp_all
  have d: "cj_id (fst (patch_delivery p j)) = cj_id j" for j
    by (simp add: patch_delivery_def Let_def)
  have r: "cj_id (patch_rest p j) = cj_id j" for j
    by (simp add: patch_rest_def)
  show ?thesis
    unfolding applyJobPatch_def
    by (intro and_also_preserves [where P = "\<lambda>x. cj_id x = cj_id job"]) (simp_all add: h pl d r assert_job_id)
qed

lemma update_anchor_fields [simp]:
  "cj_id (update_anchor p now job) = cj_id job" "job_spec_ok E (update_anchor p now job) = job_spec_ok E job"
  by (simp_all add: update_anchor_def Let_def split: cron_schedule.split option.split)

lemma update_next_fields:
  "cj_id (fst (update_next E p now job)) = cj_id job"
  "job_spec_ok E (fst (update_next E p now job)) = job_spec_ok E job"
  "cj_updatedAtMs (fst (update_next E p now job)) = cj_updatedAtMs job"
  by (auto simp: update_next_def assign_def Let_def split: sum.split)

lemma edit_job_id: "cj_id (fst (edit_job E p now job)) = cj_id job"
  unfolding edit_job_def
  by (rule and_also_preserves [where P = "\<lambda>x. cj_id x = cj_id job"]) (simp_all add: applyJobPatch_id update_next_fields)

lemma edit_job_ok:
  assumes "edit_job E p now job = (job1, None)"
  shows "job_spec_ok E job1 \<and> cj_updatedAtMs job1 = now"
proof -
  from assms obtain j where a: "applyJobPatch E job p = (j, None)"
    and u: "update_next E p now ((update_anchor p now j)\<lparr>cj_updatedAtMs := now\<rparr>) = (job1, None)"
    by (auto simp: edit_job_def and_also_None)
  have "job1 = fst (update_next E p now ((update_anchor p now j)\<lparr>cj_updatedAtMs := now\<rparr>))" using u by simp
  then show ?thesis
    using applyJobPatch_spec [OF a] by (simp add: update_next_fields)
qed

section \<open>Replacing a job\<close>

lemma replace_job_Nil [simp]: "replace_job job [] = []"
  by (simp add: replace_job_def)

lemma replace_job_Cons [simp]:
  "replace_job job (j # js) = (if cj_id j = cj_id job then job # js else j # replace_job job js)"
  by (simp add: replace_job_def split: option.split)

lemma replace_job_others: "cj_id job = jid \<Longrightarrow> filter (\<lambda>j. cj_id j \<noteq> jid) (replace_job job js) = filter (\<lambda>j. cj_id j \<noteq> jid) js"
  by (induction js) auto

lemma replace_job_ids: "map cj_id (replace_job job js) = map cj_id js"
  by (induction js) auto

lemma find_replace_job: "find (\<lambda>j. cj_id j = jid) js = Some old \<Longrightarrow> cj_id job = jid \<Longrightarrow>
    find (\<lambda>j. cj_id j = jid) (replace_job job js) = Some job"
  by (induction js) (auto split: if_splits)

lemma find_id: "find (\<lambda>j. cj_id j = jid) js = Some job \<Longrightarrow> cj_id job = jid \<and> job \<in> set js"
  by (auto simp: find_Some_iff)

section \<open>What maintenance leaves alone\<close>

definition same_spec :: "cron_job \<Rightarrow> cron_job \<Rightarrow> bool" where
  "same_spec j k \<longleftrightarrow> cj_id j = cj_id k \<and> cj_agentId j = cj_agentId k \<and> cj_sessionTarget j = cj_sessionTarget k \<and>
     cj_payload j = cj_payload k \<and> cj_delivery j = cj_delivery k"

lemma same_spec_ok: "same_spec j k \<Longrightarrow> job_spec_ok E j = job_spec_ok E k"
  by (simp add: same_spec_def job_spec_ok_def)

lemma same_spec_trans: "same_spec j k \<Longrightarrow> same_spec k l \<Longrightarrow> same_spec j l"
  by (simp add: same_spec_def)

lemma same_spec_refl [simp]: "same_spec j j"
  by (simp add: same_spec_def)

lemma normalizeJobTickState_spec: "same_spec (fst (normalizeJobTickState job now)) job"
proof -
  have "same_spec (fst (normalize_anchor job now)) job"
    by (simp add: normalize_anchor_def same_spec_def Let_def split: cron_schedule.split)
  then show ?thesis
    by (auto simp: normalizeJobTickState_def same_spec_def Let_def split: prod.split option.split)
qed

lemma recomputeJobNextRunAtMs_spec: "same_spec (fst (recomputeJobNextRunAtMs deps job now)) job"
  by (simp add: recomputeJobNextRunAtMs_def recordScheduleComputeError_def same_spec_def Let_def split: sum.split prod.split)

lemma recompute_if_due_spec: "same_spec (fst (recompute_if_due deps job now)) job"
  using recomputeJobNextRunAtMs_spec by (simp add: recompute_if_due_def)

lemma maintain_job_spec: "same_spec (fst (maintain_job deps b job now)) job"
  using recomputeJobNextRunAtMs_spec by (simp add: maintain_job_def split: option.split)

lemma walk_job_spec:
  assumes "\<And>j. same_spec (fst (f j now)) j"
  shows "same_spec (fst (walk_job f now job)) job"
proof -
  obtain job1 ch skip where n: "normalizeJobTickState job now = (job1, ch, skip)"
    by (cases "normalizeJobTickState job now")
  obtain job2 ch2 effs where f: "f job1 now = (job2, ch2, effs)"
    by (cases "f job1 now")
  have "same_spec job1 job" using normalizeJobTickState_spec [of job now] by (simp add: n)
  moreover have "same_spec job2 job1" using assms [of job1] by (simp add: f)
  ultimately show ?thesis
    by (auto simp: walk_job_def n f intro: same_spec_trans)
qed

text \<open>Both passes over the store act job by job.\<close>

definition pass :: "(cron_job \<Rightarrow> int \<Rightarrow> cron_job \<times> bool \<times> cron_effect list) \<Rightarrow> int \<Rightarrow> cron_job list \<Rightarrow> cron_job list" where
  "pass f now jobs = map (\<lambda>j. fst (walk_job f now j)) jobs"

lemma ops_jobs_simps [simp]:
  "ops_jobs (put_jobs jobs s) = jobs" "ops_jobs (add_effects effs s) = ops_jobs s" "ops_jobs (emit evs s) = ops_jobs s"
  "ops_jobs (persist s) = ops_jobs s" "ops_jobs (arm E now s) = ops_jobs s"
  by (simp_all add: ops_jobs_def put_jobs_def jobs_of_def add_effects_def emit_def persist_def arm_def armTimer_def
    split: option.split)

lemma recompute_jobs [simp]: "ops_jobs (recompute E now s) = pass (recompute_if_due (je_deps E)) now (ops_jobs s)"
  by (simp add: recompute_def recomputeNextRuns_def walkSchedulableJobs_def pass_def)

lemma maintain_jobs [simp]: "ops_jobs (maintain E b now s) = pass (maintain_job (je_deps E) b) now (ops_jobs s)"
  by (simp add: maintain_def recomputeNextRunsForMaintenance_def walkSchedulableJobs_def pass_def)

lemma pass_ids:
  assumes "\<And>j. same_spec (fst (f j now)) j"
  shows "map cj_id (pass f now jobs) = map cj_id jobs"
  using walk_job_spec [of f now] assms by (simp add: pass_def same_spec_def)

lemma pass_last [simp]: "last (pass f now (jobs @ [job])) = fst (walk_job f now job)"
  by (simp add: pass_def)

lemma loaded_store: "cs_store (os_cron s) \<noteq> None \<Longrightarrow> os_file (persist s) = ops_jobs s"
  by (auto simp: persist_def ops_jobs_def jobs_of_def)

lemma store_simps [simp]:
  "cs_store (os_cron (put_jobs jobs s)) = Some jobs" "cs_store (os_cron (recompute E now s)) \<noteq> None"
  "cs_store (os_cron (maintain E b now s)) \<noteq> None" "cs_store (os_cron (write_job job s)) \<noteq> None"
  "cs_store (os_cron (ensureLoaded E fr sk now s)) \<noteq> None"
  by (auto simp: put_jobs_def recompute_def maintain_def write_job_def add_effects_def load_file_def
    ensureLoaded_def split: prod.split)

lemma os_file_simps [simp]:
  "os_file (put_jobs jobs s) = os_file s" "os_file (add_effects effs s) = os_file s" "os_file (emit evs s) = os_file s"
  "os_file (arm E now s) = os_file s" "os_file (recompute E now s) = os_file s" "os_file (maintain E b now s) = os_file s"
  "os_file (load_file s) = os_file s" "os_file (ensureLoaded E fr sk now s) = os_file s"
  "os_file (write_job job s) = os_file s"
  by (simp_all add: put_jobs_def add_effects_def emit_def arm_def recompute_def maintain_def load_file_def
    ensureLoaded_def write_job_def split: prod.split)

lemma write_job_jobs [simp]: "ops_jobs (write_job job s) = replace_job job (ops_jobs s)"
  by (simp add: write_job_def)

lemma findJobOrThrow_Inr: "findJobOrThrow s jid = Inr job \<longleftrightarrow> find (\<lambda>j. cj_id j = jid) (ops_jobs s) = Some job"
  by (simp add: findJobOrThrow_def split: option.split)

section \<open>Edits of the store are validated\<close>

lemma add_ok:
  assumes "createJob E jid now input = Inr job0" "job_spec_ok E job0" "cj_id job0 = jid"
  shows "let (s', r) = add E jid now input s; s0 = ensureLoaded E False False now s
    in r = Inr (last (ops_jobs s')) \<and> job_spec_ok E (last (ops_jobs s')) \<and>
       map cj_id (ops_jobs s') = map cj_id (ops_jobs s0) @ [jid] \<and> os_file s' = ops_jobs s'"
proof -
  let ?s0 = "ensureLoaded E False False now s"
  let ?f = "recompute_if_due (je_deps E)"
  let ?s1 = "recompute E now (put_jobs (ops_jobs ?s0 @ [job0]) ?s0)"
  have "job_spec_ok E (fst (walk_job ?f now job0))"
    using same_spec_ok [OF walk_job_spec [of ?f, OF recompute_if_due_spec]] assms(2) by simp
  moreover have "map cj_id (ops_jobs ?s1) = map cj_id (ops_jobs ?s0) @ [jid]"
    using pass_ids [of ?f now "ops_jobs ?s0 @ [job0]", OF recompute_if_due_spec] assms(3) by simp
  moreover have "os_file (persist ?s1) = ops_jobs ?s1"
    by (rule loaded_store) simp
  ultimately show ?thesis
    unfolding add_def Let_def assms(1) by simp
qed

lemma update_cases:
  fixes E jid p now s
  defines "s0 \<equiv> ensureLoaded E False True now s"
  shows "(\<exists>s' e. update E jid p now s = (s', Inl e) \<and> os_file s' = os_file s \<and> os_events s' = os_events s0 \<and>
      cs_timer (os_cron s') = cs_timer (os_cron s0) \<and>
      filter (\<lambda>j. cj_id j \<noteq> jid) (ops_jobs s') = filter (\<lambda>j. cj_id j \<noteq> jid) (ops_jobs s0)) \<or>
    (\<exists>s' job. update E jid p now s = (s', Inr job) \<and> job_spec_ok E job \<and> cj_updatedAtMs job = now \<and>
      find (\<lambda>j. cj_id j = jid) (ops_jobs s') = Some job \<and> os_file s' = ops_jobs s' \<and>
      filter (\<lambda>j. cj_id j \<noteq> jid) (ops_jobs s') = filter (\<lambda>j. cj_id j \<noteq> jid) (ops_jobs s0))"
proof (cases "findJobOrThrow s0 jid")
  case (Inl e)
  then show ?thesis by (simp add: update_def s0_def)
next
  case (Inr old)
  then have f: "find (\<lambda>j. cj_id j = jid) (ops_jobs s0) = Some old" by (simp add: findJobOrThrow_Inr)
  obtain job err where e: "edit_job E p now old = (job, err)" by (cases "edit_job E p now old")
  have jid: "cj_id job = jid" using edit_job_id [of E p now old] find_id [OF f] by (simp add: e)
  show ?thesis
  proof (cases err)
    case (Some x)
    with e show ?thesis
      using Inr replace_job_others [OF jid, of "ops_jobs s0"]
      by (simp add: update_def s0_def Let_def write_job_def put_jobs_def ops_jobs_def jobs_of_def)
  next
    case None
    let ?s1 = "write_job job s0"
    have "os_file (persist ?s1) = ops_jobs ?s1" by (rule loaded_store) simp
    then show ?thesis
      using Inr e None edit_job_ok [of E p now old job] replace_job_others [OF jid, of "ops_jobs s0"]
        find_replace_job [OF f jid]
      by (simp add: update_def s0_def [symmetric])
  qed
qed

text \<open>C39: edits of the cron store are validated. \<open>add\<close> succeeds exactly for the inputs a job can be created from (a
  name, a schedule that resolves, and a specification that holds after webhook addresses are trimmed); the job it
  stores then meets the specification - a safe session target, a payload that fits it, the default agent for
  \<open>main\<close>, a delivery with valid webhook addresses - is appended under its id and the file is written; otherwise
  the store stays as it was loaded. An \<open>update\<close> that succeeds stores a job that meets the specification and
  leaves all other jobs alone; one that throws writes no file, emits nothing and leaves the timer and all other jobs.\<close>

theorem cron_edits_validated:
  "(case add E jid now input s of
      (s', Inr job) \<Rightarrow> create_ok E jid now input \<and> job_spec_ok E job \<and> job = last (ops_jobs s') \<and>
        map cj_id (ops_jobs s') = map cj_id (ops_jobs (ensureLoaded E False False now s)) @ [jid] \<and>
        os_file s' = ops_jobs s'
    | (s', Inl e) \<Rightarrow> \<not> create_ok E jid now input \<and> s' = ensureLoaded E False False now s) \<and>
   (case update E jid p now s of
      (s', Inr job) \<Rightarrow> job_spec_ok E job \<and> cj_updatedAtMs job = now \<and>
        find (\<lambda>j. cj_id j = jid) (ops_jobs s') = Some job \<and> os_file s' = ops_jobs s' \<and>
        filter (\<lambda>j. cj_id j \<noteq> jid) (ops_jobs s') = filter (\<lambda>j. cj_id j \<noteq> jid) (ops_jobs (ensureLoaded E False True now s))
    | (s', Inl e) \<Rightarrow> os_file s' = os_file s \<and> os_events s' = os_events (ensureLoaded E False True now s) \<and>
        cs_timer (os_cron s') = cs_timer (os_cron (ensureLoaded E False True now s)) \<and>
        filter (\<lambda>j. cj_id j \<noteq> jid) (ops_jobs s') = filter (\<lambda>j. cj_id j \<noteq> jid) (ops_jobs (ensureLoaded E False True now s)))"
proof (rule conjI)
  show "case add E jid now input s of
      (s', Inr job) \<Rightarrow> create_ok E jid now input \<and> job_spec_ok E job \<and> job = last (ops_jobs s') \<and>
        map cj_id (ops_jobs s') = map cj_id (ops_jobs (ensureLoaded E False False now s)) @ [jid] \<and>
        os_file s' = ops_jobs s'
    | (s', Inl e) \<Rightarrow> \<not> create_ok E jid now input \<and> s' = ensureLoaded E False False now s"
  proof (cases "createJob E jid now input")
    case (Inl e)
    with createJob_cases [of E jid now input] show ?thesis by (simp add: add_def Let_def)
  next
    case (Inr job)
    with createJob_cases [of E jid now input] have j: "job_spec_ok E job" "cj_id job = jid" "create_ok E jid now input"
      by auto
    from add_ok [OF Inr j(1,2), of s] j(3) show ?thesis
      by (cases "add E jid now input s") (simp add: Let_def)
  qed
qed (use update_cases [of E jid p now s] in \<open>elim disjE exE conjE; simp\<close>)

section \<open>Manual runs are exclusive\<close>

lemma find_pass:
  assumes "\<And>j. same_spec (fst (f j now)) j"
  shows "find (\<lambda>j. cj_id j = jid) (pass f now js) = map_option (\<lambda>j. fst (walk_job f now j)) (find (\<lambda>j. cj_id j = jid) js)"
  using walk_job_spec [of f now] assms by (induction js) (auto simp: pass_def same_spec_def)

lemma recomputeJobNextRunAtMs_running [simp]:
  "js_runningAtMs (cj_state (fst (recomputeJobNextRunAtMs deps job now))) = js_runningAtMs (cj_state job)"
  by (simp add: recomputeJobNextRunAtMs_def recordScheduleComputeError_def Let_def split: sum.split prod.split)

lemma maintain_job_running [simp]:
  "js_runningAtMs (cj_state (fst (maintain_job deps b job now))) = js_runningAtMs (cj_state job)"
  by (simp add: maintain_job_def split: option.split)

lemma normalizeJobTickState_running:
  assumes "isJobEnabled job" "js_runningAtMs (cj_state job) = Some t" "now \<le> t + STUCK_RUN_MS"
  shows "js_runningAtMs (cj_state (fst (normalizeJobTickState job now))) = Some t"
proof -
  obtain job1 ch where a: "normalize_anchor job now = (job1, ch)" by (cases "normalize_anchor job now")
  then have "isJobEnabled job1 = isJobEnabled job" "cj_state job1 = cj_state job"
    by (auto simp: normalize_anchor_def isJobEnabled_def Let_def split: cron_schedule.splits if_splits)
  with assms show ?thesis
    by (simp add: normalizeJobTickState_def a Let_def)
qed

text \<open>Maintenance releases a marker only when it is stuck - or when the job is disabled.\<close>

lemma walk_job_running:
  assumes "isJobEnabled job" "js_runningAtMs (cj_state job) = Some t" "now \<le> t + STUCK_RUN_MS"
  shows "js_runningAtMs (cj_state (fst (walk_job (maintain_job deps b) now job))) = Some t"
proof -
  obtain job1 ch skip where n: "normalizeJobTickState job now = (job1, ch, skip)"
    by (cases "normalizeJobTickState job now")
  obtain job2 ch2 effs where m: "maintain_job deps b job1 now = (job2, ch2, effs)"
    by (cases "maintain_job deps b job1 now")
  have "js_runningAtMs (cj_state job1) = Some t"
    using normalizeJobTickState_running [OF assms] by (simp add: n)
  with maintain_job_running [of deps b job1 now] show ?thesis
    by (simp add: walk_job_def n m)
qed

lemma assertSupportedJobSpec_same: "same_spec j k \<Longrightarrow> assertSupportedJobSpec j = assertSupportedJobSpec k"
  by (simp add: same_spec_def assertSupportedJobSpec_def)

lemma preflight_running:
  assumes "cs_store (os_cron s) \<noteq> None" "find (\<lambda>j. cj_id j = jid) (ops_jobs s) = Some job"
    and "assertSupportedJobSpec job = Inr ()" "isJobEnabled job" "js_runningAtMs (cj_state job) = Some t"
    and "now \<le> t + STUCK_RUN_MS"
  shows "snd (prepareManualRun E jid force now s) = Inr AlreadyRunning"
proof -
  let ?job = "fst (walk_job (maintain_job (je_deps E) False) now job)"
  have s: "ensureLoaded E False True now s = s" using assms(1) by (simp add: ensureLoaded_def)
  have "findJobOrThrow (maintain E False now s) jid = Inr ?job"
    using assms(2) find_pass [of "maintain_job (je_deps E) False", OF maintain_job_spec] by (simp add: findJobOrThrow_Inr)
  moreover have "assertSupportedJobSpec ?job = Inr ()"
    using assertSupportedJobSpec_same [OF walk_job_spec [of "maintain_job (je_deps E) False", OF maintain_job_spec]] assms(3)
    by metis
  moreover have "js_runningAtMs (cj_state ?job) = Some t"
    by (rule walk_job_running) (use assms in simp_all)
  ultimately show ?thesis
    by (simp add: prepareManualRun_def inspectManualRunPreflight_def s Let_def)
qed

lemma prepareManualRun_prepared:
  assumes "prepareManualRun E jid force now s = (s1, Inr (RunPrepared job))"
  obtains old where "isJobDue old now force" "assertSupportedJobSpec old = Inr ()"
    "job = old\<lparr>cj_state := (cj_state old)\<lparr>js_runningAtMs := Some now, js_lastError := None\<rparr>\<rparr>"
    "cs_store (os_cron s1) \<noteq> None" "find (\<lambda>j. cj_id j = jid) (ops_jobs s1) = Some job" "os_file s1 = ops_jobs s1"
proof -
  let ?s = "maintain E False now (ensureLoaded E False True now s)"
  from assms obtain old where f: "findJobOrThrow ?s jid = Inr old" and sp: "assertSupportedJobSpec old = Inr ()"
    and due: "isJobDue old now force"
    and r: "reserve_run jid now ?s = (s1, Inr (RunPrepared job))"
    by (auto simp: prepareManualRun_def inspectManualRunPreflight_def Let_def split: sum.splits if_splits)
  let ?job = "old\<lparr>cj_state := (cj_state old)\<lparr>js_runningAtMs := Some now, js_lastError := None\<rparr>\<rparr>"
  from r f have j: "job = ?job" and s1: "s1 = emit [JobStarted jid now] (persist (write_job ?job ?s))"
    by (auto simp: reserve_run_def Let_def split: if_splits)
  have f': "find (\<lambda>j. cj_id j = jid) (ops_jobs ?s) = Some old" using f by (simp only: findJobOrThrow_Inr)
  have "cs_store (os_cron s1) \<noteq> None"
    by (simp add: s1 emit_def persist_def write_job_def put_jobs_def split: option.split)
  moreover have "os_file (persist (write_job ?job ?s)) = ops_jobs (write_job ?job ?s)"
    by (rule loaded_store) simp
  then have "os_file s1 = ops_jobs s1" unfolding s1 by (simp only: os_file_simps ops_jobs_simps)
  moreover have "find (\<lambda>j. cj_id j = jid) (ops_jobs s1) = Some ?job"
    unfolding s1 using find_replace_job [OF f', of ?job] find_id [OF f'] by simp
  ultimately show thesis using that [OF due sp] j by simp
qed

text \<open>Maintenance enables no job, so an enabled job that was prepared had no marker, or a stuck one.\<close>

lemma walk_job_enables_none:
  assumes "isJobEnabled (fst (walk_job (maintain_job deps b) now job))"
  shows "isJobEnabled job"
proof (rule ccontr)
  assume off: "\<not> isJobEnabled job"
  obtain job1 ch where a: "normalize_anchor job now = (job1, ch)" by (cases "normalize_anchor job now")
  then have "isJobEnabled job1 = isJobEnabled job"
    by (auto simp: normalize_anchor_def isJobEnabled_def Let_def split: cron_schedule.splits if_splits)
  with off assms a show False
    by (simp add: walk_job_def normalizeJobTickState_def Let_def isJobEnabled_def)
qed

lemma prepared_was_free:
  assumes "prepareManualRun E jid force now s = (s1, Inr (RunPrepared job))" "isJobEnabled job"
  obtains old where "find (\<lambda>j. cj_id j = jid) (ops_jobs (ensureLoaded E False True now s)) = Some old" "isJobEnabled old"
    "js_runningAtMs (cj_state old) = None \<or> the (js_runningAtMs (cj_state old)) + STUCK_RUN_MS < now"
proof -
  let ?loaded = "ensureLoaded E False True now s"
  let ?s = "maintain E False now ?loaded"
  from assms(1) obtain cleared where f: "findJobOrThrow ?s jid = Inr cleared" and free: "js_runningAtMs (cj_state cleared) = None"
    and r: "reserve_run jid now ?s = (s1, Inr (RunPrepared job))"
    by (auto simp: prepareManualRun_def inspectManualRunPreflight_def Let_def split: sum.splits if_splits)
  from r f free have j: "job = cleared\<lparr>cj_state := (cj_state cleared)\<lparr>js_runningAtMs := Some now, js_lastError := None\<rparr>\<rparr>"
    by (auto simp: reserve_run_def Let_def)
  note pass = find_pass [where f = "maintain_job (je_deps E) False" and jid = jid and now = now and js = "ops_jobs ?loaded",
      OF maintain_job_spec]
  from f have "find (\<lambda>j. cj_id j = jid) (pass (maintain_job (je_deps E) False) now (ops_jobs ?loaded)) = Some cleared"
    by (simp add: findJobOrThrow_Inr)
  then obtain old where old: "find (\<lambda>j. cj_id j = jid) (ops_jobs ?loaded) = Some old"
    and cleared: "cleared = fst (walk_job (maintain_job (je_deps E) False) now old)"
    unfolding pass by blast
  have "isJobEnabled cleared" using assms(2) by (simp add: j isJobEnabled_def)
  then have on: "isJobEnabled old" unfolding cleared by (rule walk_job_enables_none)
  have "js_runningAtMs (cj_state old) = None \<or> the (js_runningAtMs (cj_state old)) + STUCK_RUN_MS < now"
  proof (rule ccontr)
    assume "\<not> (js_runningAtMs (cj_state old) = None \<or> the (js_runningAtMs (cj_state old)) + STUCK_RUN_MS < now)"
    then obtain t where "js_runningAtMs (cj_state old) = Some t" "now \<le> t + STUCK_RUN_MS" by auto
    from walk_job_running [OF on this] free show False by (simp add: cleared)
  qed
  with old on show thesis by (rule that)
qed

text \<open>C40: manual runs of enabled jobs are exclusive: a run is prepared only for a job that has no run in progress (no
  running marker in the loaded store, or one that is stuck, more than two hours old), has a supported specification
  and is due or forced; the marker is in memory and in the store file before the run begins, and while it
  is not stuck a second manual run of the job, forced or not, is answered that it is already running, and no
  tick or catch-up that reads the file takes the job.\<close>

theorem cron_manual_run_exclusive:
  assumes "prepareManualRun E jid force now s = (s1, Inr (RunPrepared job))"
    and "isJobEnabled job" "later \<le> now + STUCK_RUN_MS"
  shows "(\<exists>old. find (\<lambda>j. cj_id j = jid) (ops_jobs (ensureLoaded E False True now s)) = Some old \<and> isJobEnabled old \<and>
       (js_runningAtMs (cj_state old) = None \<or> the (js_runningAtMs (cj_state old)) + STUCK_RUN_MS < now)) \<and>
    target_ok (cj_sessionTarget job) \<and> payload_ok (cj_sessionTarget job) (cj_payload job) \<and>
    (force \<or> opt_all (\<lambda>n. n \<le> now) (js_nextRunAtMs (cj_state job)) \<and> js_nextRunAtMs (cj_state job) \<noteq> None) \<and>
    js_runningAtMs (cj_state job) = Some now \<and> find (\<lambda>j. cj_id j = jid) (os_file s1) = Some job \<and>
    snd (prepareManualRun E jid force2 later s1) = Inr AlreadyRunning \<and>
    \<not> isRunnableJob deps opts job later"
proof -
  from assms(1) obtain old where due: "isJobDue old now force" and sp: "assertSupportedJobSpec old = Inr ()"
    and j: "job = old\<lparr>cj_state := (cj_state old)\<lparr>js_runningAtMs := Some now, js_lastError := None\<rparr>\<rparr>"
    and st: "cs_store (os_cron s1) \<noteq> None" and f: "find (\<lambda>j. cj_id j = jid) (ops_jobs s1) = Some job"
    and fl: "os_file s1 = ops_jobs s1"
    by (rule prepareManualRun_prepared)
  have run: "js_runningAtMs (cj_state job) = Some now" by (simp add: j)
  have sp': "assertSupportedJobSpec job = Inr ()"
    using sp assertSupportedJobSpec_same [of job old] by (simp add: j same_spec_def)
  have again: "snd (prepareManualRun E jid force2 later s1) = Inr AlreadyRunning"
    by (rule preflight_running [OF st f sp' assms(2) run assms(3)])
  have tick: "\<not> isRunnableJob deps opts job later"
    by (simp add: isRunnableJob_def Let_def run)
  from prepared_was_free [OF assms(1,2)] have free: "\<exists>old. find (\<lambda>j. cj_id j = jid)
      (ops_jobs (ensureLoaded E False True now s)) = Some old \<and> isJobEnabled old \<and>
      (js_runningAtMs (cj_state old) = None \<or> the (js_runningAtMs (cj_state old)) + STUCK_RUN_MS < now)"
    by blast
  have spec: "target_ok (cj_sessionTarget job) \<and> payload_ok (cj_sessionTarget job) (cj_payload job)"
    using sp' by (simp add: assertSupportedJobSpec_iff)
  have "force \<or> opt_all (\<lambda>n. n \<le> now) (js_nextRunAtMs (cj_state job)) \<and> js_nextRunAtMs (cj_state job) \<noteq> None"
    using due by (auto simp: isJobDue_def j split: option.splits if_splits)
  with free spec run f again tick show ?thesis by (simp add: fl)
qed

text \<open>An isolated hourly job, in memory and in the file, and an engine that rejects the expression \<open>bad\<close>.\<close>

definition report_turn :: agent_turn where
  "report_turn = \<lparr>at_message = ''report'', at_model = None, at_fallbacks = None, at_thinking = None, at_timeoutSeconds = None,
     at_allowUnsafeExternalContent = None, at_externalContentSource = None, at_lightContext = None, at_toolsAllow = None\<rparr>"

definition report_job :: cron_job where
  "report_job = ready_job\<lparr>cj_payload := AgentTurn report_turn\<rparr>"

definition edit_env :: jobs_env where
  "edit_env = \<lparr>je_deps = sample_deps\<lparr>dp_env := hourly_env\<lparr>ce_nextRun := (\<lambda>e z t. if e = ''bad'' then Inl ''TypeError''
        else ce_nextRun hourly_env e z t)\<rparr>\<rparr>,
     je_defaultAgentId = None, je_urlProtocol = (\<lambda>u. if js_starts_with u ''https:'' then Some ''https:'' else None)\<rparr>"

definition one_job_state :: "cron_job \<Rightarrow> ops_state" where
  "one_job_state job = \<lparr>os_cron = cron_init\<lparr>cs_store := Some [job]\<rparr>, os_file = [job], os_events = []\<rparr>"

definition running_report :: cron_job where
  "running_report = report_job\<lparr>cj_state := (cj_state report_job)\<lparr>js_runningAtMs := Some 7100000, js_lastError := None\<rparr>\<rparr>"

theorem cron_manual_run_exclusive_witness:
  "let s = fst (prepareManualRun edit_env ''j1'' True 7100000 (one_job_state report_job)) in
   find (\<lambda>j. cj_id j = ''j1'') (os_file s) = Some running_report \<and>
   snd (prepareManualRun edit_env ''j1'' True 7200000 s) = Inr AlreadyRunning \<and>
   \<not> isRunnableJob sample_deps tick_opts running_report 7200000"
proof -
  let ?s = "fst (prepareManualRun edit_env ''j1'' True 7100000 (one_job_state report_job))"
  have p: "prepareManualRun edit_env ''j1'' True 7100000 (one_job_state report_job) = (?s, Inr (RunPrepared running_report))"
    by code_simp
  have en: "isJobEnabled running_report" by code_simp
  have t: "(7200000 :: int) \<le> 7100000 + STUCK_RUN_MS" by (simp add: STUCK_RUN_MS_def)
  from cron_manual_run_exclusive [OF p en t, of True sample_deps tick_opts] show ?thesis
    by (simp add: Let_def)
qed

text \<open>The guard is not there for a disabled job: maintenance, which every preflight and every read runs first,
  clears its marker, so that a second forced run starts while the first is still going.\<close>

lemma disabled_job_runs_twice:
  "let job = report_job\<lparr>cj_enabled := Some False\<rparr>;
       (s1, r1) = prepareManualRun edit_env ''j1'' True 7100000 (one_job_state job);
       (s2, r2) = prepareManualRun edit_env ''j1'' True 7100001 s1
   in os_events s2 = [JobStarted ''j1'' 7100000, JobStarted ''j1'' 7100001]"
  by code_simp

section \<open>A rejected update\<close>

definition empty_patch :: job_patch where
  "empty_patch = \<lparr>cp_name = None, cp_description = None, cp_enabled = None, cp_deleteAfterRun = None, cp_schedule = None,
     cp_sessionTarget = None, cp_wakeMode = None, cp_payload = None, cp_delivery = None, cp_failureAlert = None,
     cp_state = None, cp_agentId = None, cp_sessionKey = None\<rparr>"

definition bad_schedule :: cron_schedule where
  "bad_schedule = SchedCron (Some ''bad'') None None None"

text \<open>An update that throws has already written to the job in memory: the next operation that persists saves the
  rejected schedule (or a target that does not fit the payload), although its caller was told it failed.\<close>

lemma rejected_update_is_kept:
  assumes "update E jid p now s = (s', Inl e)" "findJobOrThrow (ensureLoaded E False True now s) jid = Inr job"
  shows "find (\<lambda>j. cj_id j = jid) (ops_jobs s') = Some (fst (edit_job E p now job))"
proof -
  let ?s0 = "ensureLoaded E False True now s"
  have f: "find (\<lambda>j. cj_id j = jid) (ops_jobs ?s0) = Some job" using assms(2) by (simp only: findJobOrThrow_Inr)
  from assms have "s' = write_job (fst (edit_job E p now job)) ?s0"
    by (auto simp: update_def Let_def split: prod.splits option.splits)
  then show ?thesis
    using find_replace_job [OF f, of "fst (edit_job E p now job)"] edit_job_id [of E p now job] find_id [OF f] by simp
qed

lemma rejected_update_is_saved:
  "let (s1, r) = update edit_env ''j1'' (empty_patch\<lparr>cp_schedule := Some bad_schedule\<rparr>) 7100000 (one_job_state report_job);
       s2 = fst (remove edit_env ''other'' 7100001 s1)
   in isl r \<and> map cj_schedule (os_file s1) = [cj_schedule report_job] \<and> map cj_schedule (os_file s2) = [bad_schedule]"
  by code_simp

lemma rejected_update_breaks_the_spec:
  "let (s1, r) = update edit_env ''j1'' (empty_patch\<lparr>cp_sessionTarget := Some ''main''\<rparr>) 7100000 (one_job_state report_job);
       s2 = fst (remove edit_env ''other'' 7100001 s1)
   in isl r \<and> job_spec_ok edit_env (hd (os_file s1)) \<and> \<not> job_spec_ok edit_env (hd (os_file s2))"
  by code_simp

section \<open>Operations re-arm the timer\<close>

text \<open>To the scheduler an operation that succeeds is the event \<open>JobsChange\<close> with the jobs it leaves.\<close>

definition scheduler_view :: "cron_state \<Rightarrow> cron_job list option \<times> bool \<times> int option \<times> tick option" where
  "scheduler_view c = (cs_store c, cs_running c, cs_timer c, cs_tick c)"

lemma ops_running [simp]:
  "cs_running (os_cron (put_jobs jobs s)) = cs_running (os_cron s)" "cs_tick (os_cron (put_jobs jobs s)) = cs_tick (os_cron s)"
  "cs_running (os_cron (add_effects effs s)) = cs_running (os_cron s)" "cs_tick (os_cron (add_effects effs s)) = cs_tick (os_cron s)"
  "os_cron (emit evs s) = os_cron s" "os_cron (persist s) = os_cron s"
  by (simp_all add: put_jobs_def add_effects_def emit_def persist_def split: option.split)

lemma scheduler_view_arm:
  assumes "cs_store (os_cron s) \<noteq> None" "cs_running (os_cron s) = cs_running c" "cs_tick (os_cron s) = cs_tick c"
  shows "scheduler_view (os_cron (emit evs (arm E now (persist s)))) = 
    scheduler_view (cron_step (je_deps E) c (JobsChange (ops_jobs (emit evs (arm E now (persist s)))) now))"
  using assms by (auto simp: scheduler_view_def arm_def armTimer_def ops_jobs_def jobs_of_def)

lemma ops_running_steps [simp]:
  "cs_running (os_cron (recompute E now s)) = cs_running (os_cron s)" "cs_tick (os_cron (recompute E now s)) = cs_tick (os_cron s)"
  "cs_running (os_cron (write_job job s)) = cs_running (os_cron s)" "cs_tick (os_cron (write_job job s)) = cs_tick (os_cron s)"
  "cs_running (os_cron (load_file s)) = cs_running (os_cron s)" "cs_tick (os_cron (load_file s)) = cs_tick (os_cron s)"
  by (simp_all add: recompute_def write_job_def load_file_def split: prod.split)

lemma ops_running_loaded [simp]:
  "cs_running (os_cron (ensureLoaded E fr sk now s)) = cs_running (os_cron s)"
  "cs_tick (os_cron (ensureLoaded E fr sk now s)) = cs_tick (os_cron s)"
  by (simp_all add: ensureLoaded_def)

lemma add_is_jobs_change:
  assumes "add E jid now input s = (s', Inr job)"
  shows "scheduler_view (os_cron s') = scheduler_view (cron_step (je_deps E) (os_cron s) (JobsChange (ops_jobs s') now))"
proof -
  from assms obtain job0 where s': "s' = emit [JobAdded (cj_id job) (js_nextRunAtMs (cj_state job))] (arm E now
      (persist (recompute E now (put_jobs (ops_jobs (ensureLoaded E False False now s) @ [job0]) (ensureLoaded E False False now s)))))"
    by (auto simp: add_def Let_def simp del: recompute_jobs split: sum.splits)
  show ?thesis unfolding s' by (rule scheduler_view_arm) simp_all
qed

lemma update_is_jobs_change:
  assumes "update E jid p now s = (s', Inr job)"
  shows "scheduler_view (os_cron s') = scheduler_view (cron_step (je_deps E) (os_cron s) (JobsChange (ops_jobs s') now))"
proof -
  from assms have s': "s' = emit [JobUpdated jid (js_nextRunAtMs (cj_state job))] (arm E now
      (persist (write_job job (ensureLoaded E False True now s))))"
    by (auto simp: update_def Let_def split: sum.splits prod.splits option.splits)
  show ?thesis unfolding s' by (rule scheduler_view_arm) simp_all
qed

lemma remove_is_jobs_change:
  assumes "remove E jid now s = (s', removed)"
  shows "scheduler_view (os_cron s') = scheduler_view (cron_step (je_deps E) (os_cron s) (JobsChange (ops_jobs s') now))"
    and "jid \<notin> set (map cj_id (ops_jobs s'))" "os_file s' = ops_jobs s'"
proof -
  let ?s = "ensureLoaded E False False now s"
  let ?s1 = "put_jobs (filter (\<lambda>j. cj_id j \<noteq> jid) (ops_jobs ?s)) ?s"
  from assms obtain evs where s': "s' = emit evs (arm E now (persist ?s1))"
    by (auto simp: remove_def Let_def)
  show "scheduler_view (os_cron s') = scheduler_view (cron_step (je_deps E) (os_cron s) (JobsChange (ops_jobs s') now))"
    unfolding s' by (rule scheduler_view_arm) simp_all
  show "jid \<notin> set (map cj_id (ops_jobs s'))" by (auto simp: s')
  have "os_file (persist ?s1) = ops_jobs ?s1" by (rule loaded_store) simp
  then show "os_file s' = ops_jobs s'" by (simp add: s')
qed

text \<open>
  A read, a preflight that refuses, a reservation and an update that throws leave the jobs they wrote without arming
  the timer: the event \<open>JobsLeft\<close>.
\<close>

lemma ops_timer [simp]:
  "cs_timer (os_cron (put_jobs jobs s)) = cs_timer (os_cron s)"
  "cs_timer (os_cron (add_effects effs s)) = cs_timer (os_cron s)"
  "cs_timer (os_cron (recompute E now s)) = cs_timer (os_cron s)"
  "cs_timer (os_cron (maintain E b now s)) = cs_timer (os_cron s)"
  "cs_timer (os_cron (write_job job s)) = cs_timer (os_cron s)"
  "cs_timer (os_cron (ensureLoaded E f k now s)) = cs_timer (os_cron s)"
  by (simp_all add: put_jobs_def add_effects_def recompute_def maintain_def write_job_def ensureLoaded_def load_file_def
      split: prod.split)

lemma maintain_view [simp]:
  "cs_running (os_cron (maintain E b now s)) = cs_running (os_cron s)" "cs_tick (os_cron (maintain E b now s)) = cs_tick (os_cron s)"
  "\<exists>jobs. cs_store (os_cron (maintain E b now s)) = Some jobs"
  by (simp_all add: maintain_def put_jobs_def add_effects_def split: prod.split)

lemma loaded_view [simp]:
  "\<exists>jobs. cs_store (os_cron (ensureLoaded E f True now s)) = Some jobs"
  "\<exists>jobs. cs_store (os_cron (write_job job s)) = Some jobs"
  by (auto simp: ensureLoaded_def load_file_def write_job_def put_jobs_def)

lemma scheduler_view_left:
  assumes "cs_store (os_cron s') \<noteq> None" "cs_running (os_cron s') = cs_running c" "cs_tick (os_cron s') = cs_tick c"
    and "cs_timer (os_cron s') = cs_timer c"
  shows "scheduler_view (os_cron s') = scheduler_view (cron_step deps c (JobsLeft (ops_jobs s')))"
  using assms by (auto simp: scheduler_view_def ops_jobs_def jobs_of_def)

lemma read_is_jobs_left:
  "scheduler_view (os_cron (ensureLoadedForRead E now s)) =
     scheduler_view (cron_step deps (os_cron s) (JobsLeft (ops_jobs (ensureLoadedForRead E now s))))"
  by (rule scheduler_view_left) (simp_all add: ensureLoadedForRead_def Let_def split: prod.split)

lemma rejected_update_is_jobs_left:
  assumes "update E jid p now s = (s', Inl e)"
  shows "scheduler_view (os_cron s') = scheduler_view (cron_step deps (os_cron s) (JobsLeft (ops_jobs s')))"
  using assms by (intro scheduler_view_left) (auto simp: update_def Let_def split: sum.splits prod.splits option.splits)

lemma manual_run_is_jobs_left:
  assumes "prepareManualRun E jid force now s = (s', r)" "r \<noteq> Inr InvalidSpec"
  shows "scheduler_view (os_cron s') = scheduler_view (cron_step deps (os_cron s) (JobsLeft (ops_jobs s')))"
  using assms
  by (intro scheduler_view_left)
    (auto simp: prepareManualRun_def inspectManualRunPreflight_def reserve_run_def Let_def
      split: sum.splits prod.splits if_splits)

text \<open>
  An update that throws after enabling the only job, followed by a read: the job has a next run, in memory and in the
  file, and no timer.
\<close>

lemma rejected_update_then_read_is_silent:
  "let job = report_job\<lparr>cj_enabled := Some False, cj_state := (cj_state report_job)\<lparr>js_nextRunAtMs := None\<rparr>\<rparr>;
       (s1, r) = update edit_env ''j1'' (empty_patch\<lparr>cp_enabled := Some True, cp_sessionTarget := Some ''main''\<rparr>) 7100000
         (one_job_state job);
       s2 = ensureLoadedForRead edit_env 7100001 s1
   in isl r \<and> cs_timer (os_cron s2) = None \<and> \<not> no_wake (os_file s2)"
  by code_simp

section \<open>A manual run is released\<close>

lemma applyJobResult_release:
  assumes "applyJobResult deps job r keep now = (job1, effs, del)"
  shows "js_runningAtMs (cj_state job1) = None \<and> cj_id job1 = cj_id job"
proof -
  obtain job2 effs1 where t: "track_errors deps (record_outcome deps job r) r now = (job2, effs1)"
    by (cases "track_errors deps (record_outcome deps job r) r now")
  note f = track_errors_fields [OF t]
  obtain n j3 e3 where nn: "natural_next deps job2 (js_lastRunAtMs (cj_state job)) keep (rr_endedAt r) = (n, j3, e3)"
    by (cases "natural_next deps job2 (js_lastRunAtMs (cj_state job)) keep (rr_endedAt r)")
  have "js_runningAtMs (cj_state (fst (recurring_next deps job2 r (js_lastRunAtMs (cj_state job)) keep))) = None \<and>
      cj_id (fst (recurring_next deps job2 r (js_lastRunAtMs (cj_state job)) keep)) = cj_id job"
    using f natural_next_fields [OF nn] by (simp add: recurring_next_def nn Let_def)
  moreover have "js_runningAtMs (cj_state (one_shot_next deps job2 r)) = None \<and> cj_id (one_shot_next deps job2 r) = cj_id job"
    using f by (simp add: one_shot_next_def Let_def)
  ultimately show ?thesis
    using assms f by (auto simp: applyJobResult_def t Let_def split: if_splits prod.splits)
qed

lemma walk_job_released:
  assumes "js_runningAtMs (cj_state job) = None"
  shows "js_runningAtMs (cj_state (fst (walk_job (maintain_job deps b) now job))) = None"
proof -
  obtain job1 ch skip where n: "normalizeJobTickState job now = (job1, ch, skip)"
    by (cases "normalizeJobTickState job now")
  obtain job2 ch2 effs where m: "maintain_job deps b job1 now = (job2, ch2, effs)"
    by (cases "maintain_job deps b job1 now")
  have "cj_state (fst (normalize_anchor job now)) = cj_state job"
    by (simp add: normalize_anchor_def Let_def split: cron_schedule.split)
  then have "js_runningAtMs (cj_state job1) = None"
    using assms n by (auto simp: normalizeJobTickState_def Let_def split: prod.splits if_splits option.splits)
  with maintain_job_running [of deps b job1 now] show ?thesis
    by (simp add: walk_job_def n m)
qed

text \<open>However the run ended, and whatever another service wrote to the file meanwhile, the marker is gone from the
  file once its result is applied (or the job is).\<close>

lemma manual_run_released:
  assumes "find (\<lambda>j. cj_id j = jid) (ops_jobs (ensureLoaded E False True now s)) = Some job"
  shows "opt_all (\<lambda>j. js_runningAtMs (cj_state j) = None)
    (find (\<lambda>j. cj_id j = jid) (os_file (finishPreparedManualRun E jid force r now s)))"
proof -
  let ?s = "ensureLoaded E False True now s"
  have f: "findJobOrThrow ?s jid = Inr job" using assms by (simp only: findJobOrThrow_Inr)
  obtain s1 job1 del where a: "apply_run_result E job r force now ?s = (s1, job1, del)"
    by (cases "apply_run_result E job r force now ?s")
  have r: "js_runningAtMs (cj_state job1) = None" "cj_id job1 = jid"
    using a applyJobResult_release [of "je_deps E" job r force now] find_id [OF assms]
    by (auto simp: apply_run_result_def Let_def split: prod.splits)
  let ?s2 = "ensureLoaded E True True now s1"
  let ?s3 = "mergeManualRunSnapshotAfterReload job1 del ?s2"
  have m: "opt_all (\<lambda>j. js_runningAtMs (cj_state j) = None) (find (\<lambda>j. cj_id j = jid) (ops_jobs ?s3))"
  proof (cases "del")
    case True
    then have "find (\<lambda>j. cj_id j = jid) (ops_jobs ?s3) = None"
      using r(2) by (simp add: mergeManualRunSnapshotAfterReload_def find_None_iff)
    then show ?thesis by simp
  next
    case False
    show ?thesis
    proof (cases "find (\<lambda>j. cj_id j = jid) (ops_jobs ?s2)")
      case None
      then have "findJobOrThrow ?s2 (cj_id job1) = Inl (''unknown cron job id: '' @ jid)"
        by (simp add: findJobOrThrow_def r(2))
      then have "?s3 = ?s2" using False by (simp add: mergeManualRunSnapshotAfterReload_def)
      with None show ?thesis by simp
    next
      case (Some old)
      let ?new = "old\<lparr>cj_enabled := cj_enabled job1, cj_updatedAtMs := cj_updatedAtMs job1, cj_state := cj_state job1\<rparr>"
      have "findJobOrThrow ?s2 (cj_id job1) = Inr old" using Some r(2) by (simp only: findJobOrThrow_Inr)
      then have "?s3 = write_job ?new ?s2" using False by (simp add: mergeManualRunSnapshotAfterReload_def)
      then show ?thesis
        using find_replace_job [OF Some, of ?new] find_id [OF Some] r(1) by simp
    qed
  qed
  have "os_file (finishPreparedManualRun E jid force r now s) = pass (maintain_job (je_deps E) True) now (ops_jobs ?s3)"
    using loaded_store [of "maintain E True now ?s3"] by (simp add: finishPreparedManualRun_def f a)
  then show ?thesis
    using m find_pass [of "maintain_job (je_deps E) True" now jid "ops_jobs ?s3", OF maintain_job_spec] walk_job_released
    by (cases "find (\<lambda>j. cj_id j = jid) (ops_jobs ?s3)") simp_all
qed

section \<open>Restart\<close>

text \<open>After the first section of \<open>start\<close> no job is marked running, and the one-shot jobs that a crash
  interrupted are not caught up.\<close>

lemma start_clear_releases:
  assumes "start_clear E now s = (s1, ids)"
  shows "list_all (\<lambda>j. js_runningAtMs (cj_state j) = None) (ops_jobs s1)"
proof -
  let ?s = "ensureLoaded E False True now s"
  show ?thesis
  proof (cases "filter (\<lambda>j. js_runningAtMs (cj_state j) \<noteq> None) (ops_jobs ?s) = []")
    case True
    with assms have "s1 = ?s" by (simp add: start_clear_def Let_def)
    moreover have "\<forall>j \<in> set (ops_jobs ?s). js_runningAtMs (cj_state j) = None"
      using True by (simp only: filter_empty_conv) simp
    ultimately show ?thesis by (simp only: list_all_iff)
  next
    case False
    with assms have "s1 = persist (put_jobs (map clear_running (ops_jobs ?s)) ?s)" by (simp add: start_clear_def Let_def)
    then have "ops_jobs s1 = map clear_running (ops_jobs ?s)" by simp
    then show ?thesis by (simp add: list_all_iff clear_running_def)
  qed
qed

lemma interrupted_not_caught_up:
  assumes "planStartupCatchup deps skipJobIds jobs now = (candidates, deferred, jobs')"
  shows "set (map cj_id candidates) \<inter> set skipJobIds = {}" "set deferred \<inter> set skipJobIds = {}"
proof -
  let ?opts = "\<lparr>ro_skipJobIds = skipJobIds, ro_skipAtIfAlreadyRan = True, ro_allowCronMissedRunByLastRun = True\<rparr>"
  have run: "cj_id j \<notin> set skipJobIds" if "j \<in> set (collectRunnableJobs deps ?opts jobs now)" for j
    using that by (auto simp: collectRunnableJobs_def isRunnableJob_def Let_def split: if_splits)
  let ?s = "sort_key (\<lambda>j. js_nullish (js_nextRunAtMs (cj_state j)) 0) (collectRunnableJobs deps ?opts jobs now)"
  have "(\<exists>n. candidates = take n ?s \<and> deferred = map cj_id (drop n ?s)) \<or> candidates = [] \<and> deferred = []"
    using assms unfolding planStartupCatchup_def Let_def by (simp split: if_splits) blast
  then have sub: "set candidates \<subseteq> set (collectRunnableJobs deps ?opts jobs now)"
      "set deferred \<subseteq> cj_id ` set (collectRunnableJobs deps ?opts jobs now)"
    using set_take_subset [of _ ?s] set_drop_subset [of _ ?s] by (auto simp del: set_take_subset set_drop_subset) force+
  show "set (map cj_id candidates) \<inter> set skipJobIds = {}" "set deferred \<inter> set skipJobIds = {}"
    using run sub by auto
qed

section \<open>Pages\<close>

text \<open>Following \<open>nextOffset\<close> from the first page, every job is listed exactly once: a page continues where the
  previous ones ended, and the last one ends the list.\<close>

lemma page_of_bounds:
  "0 \<le> pg_offset (page_of opts found)" "pg_offset (page_of opts found) \<le> int (length found)"
  "1 \<le> pg_limit (page_of opts found)" "pg_limit (page_of opts found) \<le> 200"
  by (simp_all add: page_of_def Let_def)

lemma page_of_parts:
  "pg_jobs (page_of opts found) =
     take (nat (pg_limit (page_of opts found))) (drop (nat (pg_offset (page_of opts found))) found)"
  "pg_nextOffset (page_of opts found) =
     (if pg_offset (page_of opts found) + int (length (pg_jobs (page_of opts found))) < int (length found)
      then Some (pg_offset (page_of opts found) + int (length (pg_jobs (page_of opts found)))) else None)"
  by (simp_all only: page_of_def Let_def page.simps)

fun follow_pages :: "nat \<Rightarrow> page_opts \<Rightarrow> cron_job list \<Rightarrow> cron_job list" where
  "follow_pages 0 opts found = []"
| "follow_pages (Suc n) opts found =
     (let p = page_of opts found in pg_jobs p @ (case pg_nextOffset p of None \<Rightarrow> []
        | Some o' \<Rightarrow> follow_pages n (opts\<lparr>po_offset := Some (of_int o')\<rparr>) found))"

lemma page_of_at:
  assumes "k \<le> length found"
  shows "\<exists>m \<ge> 1. pg_jobs (page_of (opts\<lparr>po_offset := Some (of_int (int k))\<rparr>) found) = take m (drop k found) \<and>
    pg_nextOffset (page_of (opts\<lparr>po_offset := Some (of_int (int k))\<rparr>) found) =
      (if k + m < length found then Some (int (k + m)) else None)"
proof -
  let ?p = "page_of (opts\<lparr>po_offset := Some (of_int (int k))\<rparr>) found"
  let ?m = "nat (pg_limit ?p)"
  have l: "1 \<le> pg_limit ?p" by (rule page_of_bounds)
  have off: "pg_offset ?p = int k" using assms by (simp add: page_of_def Let_def)
  have j: "pg_jobs ?p = take ?m (drop k found)"
    using page_of_parts(1) [of "opts\<lparr>po_offset := Some (of_int (int k))\<rparr>" found] by (simp only: off nat_int)
  have n: "pg_nextOffset ?p = (if int k + int (length (pg_jobs ?p)) < int (length found)
      then Some (int k + int (length (pg_jobs ?p))) else None)"
    using page_of_parts(2) [of "opts\<lparr>po_offset := Some (of_int (int k))\<rparr>" found] by (simp only: off)
  have len: "length (pg_jobs ?p) = min (length found - k) ?m" by (simp only: j length_take length_drop min.commute)
  have "pg_nextOffset ?p = (if k + ?m < length found then Some (int (k + ?m)) else None)"
  proof (cases "length found - k \<le> ?m")
    case True
    then show ?thesis unfolding n len using assms by (simp only: min.absorb1) (simp add: of_nat_diff)
  next
    case False
    then have "min (length found - k) ?m = ?m" by (simp only: min_def if_False)
    moreover have "k + ?m < length found" using False by linarith
    ultimately show ?thesis unfolding n len by (simp only: of_nat_less_iff if_True flip: of_nat_add)
  qed
  with j l show ?thesis by (intro exI [of _ ?m]) simp
qed

lemma follow_pages_from:
  assumes "k \<le> length found" "length found - k < n"
  shows "follow_pages n (opts\<lparr>po_offset := Some (of_int (int k))\<rparr>) found = drop k found"
  using assms
proof (induction n arbitrary: k opts)
  case (Suc n)
  obtain m where m: "1 \<le> m" "pg_jobs (page_of (opts\<lparr>po_offset := Some (of_int (int k))\<rparr>) found) = take m (drop k found)"
    "pg_nextOffset (page_of (opts\<lparr>po_offset := Some (of_int (int k))\<rparr>) found) =
      (if k + m < length found then Some (int (k + m)) else None)"
    using page_of_at [OF Suc.prems(1), of opts] by auto
  show ?case
  proof (cases "k + m < length found")
    case True
    then have "follow_pages n ((opts\<lparr>po_offset := Some (of_int (int k))\<rparr>)\<lparr>po_offset := Some (of_int (int (k + m)))\<rparr>) found
        = drop (k + m) found"
      using Suc.prems m(1) by (intro Suc.IH) simp_all
    with True m(2,3) show ?thesis
      using append_take_drop_id [of m "drop k found"] by (simp add: Let_def add.commute)
  next
    case False
    with m(2,3) show ?thesis by (simp add: Let_def)
  qed
qed simp

lemma pages_list_every_job_once:
  "mset (follow_pages (Suc (length jobs)) (opts\<lparr>po_offset := Some 0\<rparr>) (sortJobs co jobs sortBy descending)) = mset jobs"
proof -
  let ?s = "sortJobs co jobs sortBy descending"
  have len: "length ?s = length jobs"
    by (simp add: sortJobs_def flip: size_mset)
  have "follow_pages (Suc (length jobs)) (opts\<lparr>po_offset := Some (of_int (int 0))\<rparr>) ?s = drop 0 ?s"
    by (rule follow_pages_from) (simp_all add: len)
  then show ?thesis by (simp add: sortJobs_def)
qed

end
