(* ===== verification/DedupeCache.thy ===== *)
theory DedupeCache
  imports SessionKey
begin

text \<open>
  The duplicate filter of \<open>src/infra/dedupe.ts\<close> with \<open>src/infra/map-size.ts\<close>, and its use on
  inbound messages in \<open>src/auto-reply/reply/inbound-dedupe.ts\<close>. The cache is a \<open>Map\<close> from keys to
  the time they were last checked, oldest first; it is refined against the history of checks: a key is a
  duplicate when its last check is within the time to live and fewer than \<open>maxSize\<close> other keys were
  checked since.
\<close>

section \<open>The cache\<close>

type_synonym dedupe_cache = "(string, int) jsmap"

record dedupe_options =
  dd_ttlMs :: int
  dd_maxSize :: rat

definition dd_ttl :: "dedupe_options \<Rightarrow> int" where
  "dd_ttl opts = max 0 (dd_ttlMs opts)"

definition dd_max :: "dedupe_options \<Rightarrow> int" where
  "dd_max opts = max 0 \<lfloor>dd_maxSize opts\<rfloor>"

text \<open>The \<open>while\<close> loop of \<open>pruneMapToMaxSize\<close>: delete the oldest key as long as the map is too big.\<close>

fun dropOldest :: "int \<Rightarrow> ('k, 'v) jsmap \<Rightarrow> ('k, 'v) jsmap" where
  "dropOldest limit [] = []"
| "dropOldest limit (e # m) = (if int (length (e # m)) > limit then dropOldest limit m else e # m)"

definition pruneMapToMaxSize :: "('k, 'v) jsmap \<Rightarrow> rat \<Rightarrow> ('k, 'v) jsmap" where
  "pruneMapToMaxSize m maxSize =
     (let limit = max 0 \<lfloor>maxSize\<rfloor> in if limit \<le> 0 then [] else dropOldest limit m)"

definition touch :: "string \<Rightarrow> int \<Rightarrow> dedupe_cache \<Rightarrow> dedupe_cache" where
  "touch key now cache = jm_set key now (jm_delete key cache)"

definition dd_prune :: "dedupe_options \<Rightarrow> int \<Rightarrow> dedupe_cache \<Rightarrow> dedupe_cache" where
  "dd_prune opts now cache =
     (let cache1 = (if dd_ttl opts > 0 then filter (\<lambda>(_, entryTs). \<not> entryTs < now - dd_ttl opts) cache else cache)
      in if dd_max opts \<le> 0 then [] else pruneMapToMaxSize cache1 (of_int (dd_max opts)))"

definition hasUnexpired :: "dedupe_options \<Rightarrow> dedupe_cache \<Rightarrow> string \<Rightarrow> int \<Rightarrow> bool \<Rightarrow> bool \<times> dedupe_cache" where
  "hasUnexpired opts cache key now touchOnRead = (case jm_get cache key of
       None \<Rightarrow> (False, cache)
     | Some existing \<Rightarrow>
         if dd_ttl opts > 0 \<and> now - existing \<ge> dd_ttl opts then (False, jm_delete key cache)
         else (True, if touchOnRead then touch key now cache else cache))"

definition dd_check :: "dedupe_options \<Rightarrow> dedupe_cache \<Rightarrow> string option \<Rightarrow> int \<Rightarrow> bool \<times> dedupe_cache" where
  "dd_check opts cache key now = (case key of
       None \<Rightarrow> (False, cache)
     | Some k \<Rightarrow> if k = [] then (False, cache)
         else let (found, cache1) = hasUnexpired opts cache k now True in
           if found then (True, cache1) else (False, dd_prune opts now (touch k now cache1)))"

definition dd_peek :: "dedupe_options \<Rightarrow> dedupe_cache \<Rightarrow> string option \<Rightarrow> int \<Rightarrow> bool \<times> dedupe_cache" where
  "dd_peek opts cache key now = (case key of
       None \<Rightarrow> (False, cache)
     | Some k \<Rightarrow> if k = [] then (False, cache) else hasUnexpired opts cache k now False)"

definition dd_delete :: "dedupe_cache \<Rightarrow> string option \<Rightarrow> dedupe_cache" where
  "dd_delete cache key = (case key of None \<Rightarrow> cache | Some k \<Rightarrow> if k = [] then cache else jm_delete k cache)"

section \<open>Inbound messages\<close>

text \<open>The fields of \<open>MsgContext\<close> that matter; the thread id is given as its text.\<close>

record msg_context =
  mc_OriginatingTo :: "string option"
  mc_To :: "string option"
  mc_From :: "string option"
  mc_SessionKey :: "string option"
  mc_CommandSource :: "string option"
  mc_CommandTargetSessionKey :: "string option"
  mc_OriginatingChannel :: "string option"
  mc_Provider :: "string option"
  mc_Surface :: "string option"
  mc_MessageSid :: "string option"
  mc_AccountId :: "string option"
  mc_MessageThreadId :: "string option"

definition first_some :: "'a option \<Rightarrow> 'a option \<Rightarrow> 'a option" where
  "first_some a b = (case a of Some x \<Rightarrow> Some x | None \<Rightarrow> b)"

definition resolveInboundPeerId :: "msg_context \<Rightarrow> string option" where
  "resolveInboundPeerId ctx =
     first_some (mc_OriginatingTo ctx) (first_some (mc_To ctx) (first_some (mc_From ctx) (mc_SessionKey ctx)))"

definition inbound_session_key :: "msg_context \<Rightarrow> string" where
  "inbound_session_key ctx =
     js_or (js_nullish (if mc_CommandSource ctx = Some ''native''
                        then normalizeOptionalString (mc_CommandTargetSessionKey ctx) else None) [])
       (js_nullish (normalizeOptionalString (mc_SessionKey ctx)) [])"

definition resolveInboundDedupeSessionScope :: "msg_context \<Rightarrow> string" where
  "resolveInboundDedupeSessionScope ctx =
     (let sessionKey = inbound_session_key ctx in
      if sessionKey = [] then []
      else case parseAgentSessionKey (Some sessionKey) of
          None \<Rightarrow> sessionKey
        | Some p \<Rightarrow> ''agent:'' @ pk_agentId p)"

fun join_bar :: "string list \<Rightarrow> string" where
  "join_bar [] = []"
| "join_bar [x] = x"
| "join_bar (x # y # xs) = x @ ''|'' @ join_bar (y # xs)"

definition buildInboundDedupeKey :: "msg_context \<Rightarrow> string option" where
  "buildInboundDedupeKey ctx =
     (let provider = js_nullish (normalizeOptionalLowercaseString
            (first_some (mc_OriginatingChannel ctx) (first_some (mc_Provider ctx) (mc_Surface ctx)))) [];
          messageId = js_nullish (normalizeOptionalString (mc_MessageSid ctx)) []
      in if provider = [] \<or> messageId = [] then None
         else let peerId = js_nullish (resolveInboundPeerId ctx) [] in
           if peerId = [] then None
           else Some (join_bar (filter (\<lambda>s. s \<noteq> [])
             [provider, js_nullish (normalizeOptionalString (mc_AccountId ctx)) [],
              resolveInboundDedupeSessionScope ctx, peerId, js_nullish (mc_MessageThreadId ctx) [], messageId])))"

definition inbound_options :: dedupe_options where
  "inbound_options = \<lparr>dd_ttlMs = 20 * 60000, dd_maxSize = 5000\<rparr>"

definition shouldSkipDuplicateInbound :: "dedupe_options \<Rightarrow> dedupe_cache \<Rightarrow> msg_context \<Rightarrow> int \<Rightarrow> bool \<times> dedupe_cache" where
  "shouldSkipDuplicateInbound opts cache ctx now = (case buildInboundDedupeKey ctx of
       None \<Rightarrow> (False, cache)
     | Some key \<Rightarrow> if key = [] then (False, cache) else dd_check opts cache (Some key) now)"

section \<open>The history of checks\<close>

text \<open>
  The abstract view: the checks so far, newest first. A key is remembered at \<open>now\<close> when its last check is
  within the time to live and fewer than the limit of other keys were checked after it.
\<close>

type_synonym check_history = "(string \<times> int) list"

definition fresh_at :: "dedupe_options \<Rightarrow> int \<Rightarrow> string \<times> int \<Rightarrow> bool" where
  "fresh_at opts now p \<longleftrightarrow> dd_ttl opts = 0 \<or> now - snd p < dd_ttl opts"

definition checked_since :: "check_history \<Rightarrow> string \<Rightarrow> string set" where
  "checked_since h k = fst ` set (takeWhile (\<lambda>p. fst p \<noteq> k) h)"

definition remembered :: "dedupe_options \<Rightarrow> check_history \<Rightarrow> string \<Rightarrow> int \<Rightarrow> bool" where
  "remembered opts h k now \<longleftrightarrow> (case jm_get h k of
       None \<Rightarrow> False
     | Some t \<Rightarrow> fresh_at opts now (k, t) \<and> int (card (checked_since h k)) < dd_max opts)"

text \<open>The last check of each key, newest first.\<close>

fun recency :: "check_history \<Rightarrow> check_history" where
  "recency [] = []"
| "recency (p # h) = p # filter (\<lambda>q. fst q \<noteq> fst p) (recency h)"

definition newest_first :: "(string \<times> int) list \<Rightarrow> bool" where
  "newest_first xs \<longleftrightarrow> sorted_wrt (\<lambda>a b. snd b \<le> snd a) xs"

lemma keys_filter_neq: "fst ` set (filter (\<lambda>q. fst q \<noteq> k) xs) = fst ` set xs - {k}"
  by auto

lemma recency_keys: "fst ` set (recency h) = fst ` set h"
  by (induction h) (simp_all only: recency.simps list.set(2) image_insert keys_filter_neq insert_Diff_single list.set(1))

lemma recency_subset: "set (recency h) \<subseteq> set h"
  by (induction h) auto

lemma recency_distinct: "distinct (map fst (recency h))"
  by (induction h) (auto simp: distinct_map_filter)

lemma recency_newest: "newest_first h \<Longrightarrow> newest_first (recency h)"
  using recency_subset by (induction h) (fastforce simp: newest_first_def sorted_wrt_filter)+

lemma map_of_filter_neq: "k \<noteq> k' \<Longrightarrow> map_of (filter (\<lambda>q. fst q \<noteq> k') xs) k = map_of xs k"
  by (induction xs) auto

lemma recency_get: "jm_get (recency h) k = jm_get h k"
  by (induction h) (auto simp: map_of_filter_neq)

lemma takeWhile_filter_neq: "k \<noteq> k' \<Longrightarrow>
  fst ` set (takeWhile (\<lambda>p. fst p \<noteq> k) (filter (\<lambda>q. fst q \<noteq> k') xs)) = fst ` set (takeWhile (\<lambda>p. fst p \<noteq> k) xs) - {k'}"
  by (induction xs) auto

lemma checked_since_Cons: "checked_since (p # h) k = (if fst p = k then {} else insert (fst p) (checked_since h k))"
  unfolding checked_since_def by auto

lemma checked_since_filter: "k \<noteq> k' \<Longrightarrow> checked_since (filter (\<lambda>q. fst q \<noteq> k') xs) k = checked_since xs k - {k'}"
  unfolding checked_since_def by (rule takeWhile_filter_neq)

lemma checked_since_recency: "checked_since (recency h) k = checked_since h k"
proof (induction h)
  case (Cons p h)
  show ?case
  proof (cases "fst p = k")
    case False
    then have "k \<noteq> fst p" by simp
    from checked_since_filter [OF this, of "recency h"] Cons False show ?thesis
      by (simp add: checked_since_Cons)
  qed (simp add: checked_since_Cons)
qed simp

lemma card_checked_since: "card (checked_since h k) = length (takeWhile (\<lambda>p. fst p \<noteq> k) (recency h))"
proof -
  have "distinct (map fst (takeWhile (\<lambda>p. fst p \<noteq> k) (recency h)))"
    using recency_distinct [of h] takeWhile_dropWhile_id [of "\<lambda>p. fst p \<noteq> k" "recency h"]
    by (metis distinct_append map_append)
  from distinct_card [OF this] have "card (checked_since (recency h) k) = length (takeWhile (\<lambda>p. fst p \<noteq> k) (recency h))"
    unfolding checked_since_def by simp
  then show ?thesis by (simp only: checked_since_recency)
qed


section \<open>Refinement\<close>

lemma newest_first_Cons: "newest_first (p # xs) \<longleftrightarrow> list_all (\<lambda>q. snd q \<le> snd p) xs \<and> newest_first xs"
  by (auto simp: newest_first_def list_all_iff)

lemma newest_first_filter: "newest_first xs \<Longrightarrow> newest_first (filter P xs)"
  by (simp add: newest_first_def sorted_wrt_filter)

lemma newest_first_take: "newest_first xs \<Longrightarrow> newest_first (take n xs)"
  by (simp add: newest_first_def sorted_wrt_take)

lemma fresh_later: "fresh_at opts now' p \<Longrightarrow> now \<le> now' \<Longrightarrow> fresh_at opts now p"
  by (auto simp: fresh_at_def)

lemma fresh_antimono: "\<not> fresh_at opts now p \<Longrightarrow> snd q \<le> snd p \<Longrightarrow> \<not> fresh_at opts now q"
  by (auto simp: fresh_at_def)

text \<open>What has expired is a suffix, so expiry and truncation commute.\<close>

lemma filter_fresh_none: "newest_first (p # xs) \<Longrightarrow> \<not> fresh_at opts now p \<Longrightarrow> filter (fresh_at opts now) xs = []"
  using fresh_antimono by (fastforce simp: newest_first_Cons list_all_iff filter_empty_conv)

lemma filter_fresh_take: "newest_first xs \<Longrightarrow>
  filter (fresh_at opts now) (take n xs) = take n (filter (fresh_at opts now) xs)"
proof (induction xs arbitrary: n)
  case (Cons p xs)
  show ?case
  proof (cases n)
    case (Suc m)
    show ?thesis
    proof (cases "fresh_at opts now p")
      case True
      with Cons Suc show ?thesis by (simp add: newest_first_Cons)
    next
      case False
      from filter_fresh_none [OF Cons.prems False] have "filter (fresh_at opts now) (take m xs) = []"
        by (metis append_Nil filter_append filter_is_subset append_is_Nil_conv append_take_drop_id)
      with False filter_fresh_none [OF Cons.prems False] Suc show ?thesis by simp
    qed
  qed simp
qed simp

lemma filter_fresh_later: "now \<le> now' \<Longrightarrow>
  filter (fresh_at opts now') (filter (fresh_at opts now) xs) = filter (fresh_at opts now') xs"
  by (auto simp: fresh_later intro!: filter_cong [OF refl])

text \<open>Removing one key and truncating.\<close>

lemma take_without:
  assumes "distinct (map fst xs)" "k \<in> fst ` set (take n xs)"
  shows "filter (\<lambda>q. fst q \<noteq> k) (take n xs) = take (n - 1) (filter (\<lambda>q. fst q \<noteq> k) xs)"
  using assms
proof (induction xs arbitrary: n)
  case (Cons p xs)
  then obtain m where m: "n = Suc m" by (cases n) auto
  show ?case
  proof (cases "fst p = k")
    case True
    with Cons.prems(1) have "k \<notin> fst ` set xs" by auto
    then have "filter (\<lambda>q. fst q \<noteq> k) xs = xs" "filter (\<lambda>q. fst q \<noteq> k) (take m xs) = take m xs"
      by (force intro!: filter_True dest: in_set_takeD)+
    with True m show ?thesis by simp
  next
    case False
    with Cons.prems m have k: "k \<in> fst ` set (take m xs)" by auto
    then obtain j where j: "m = Suc j" by (cases m) auto
    from Cons.IH [OF _ k] Cons.prems(1) have
      "filter (\<lambda>q. fst q \<noteq> k) (take m xs) = take (m - 1) (filter (\<lambda>q. fst q \<noteq> k) xs)" by simp
    with False m j show ?thesis by simp
  qed
qed simp

lemma take_absent:
  "k \<notin> fst ` set (take n xs) \<Longrightarrow> take n (filter (\<lambda>q. fst q \<noteq> k) xs) = take n xs"
proof (induction xs arbitrary: n)
  case (Cons p xs)
  then show ?case by (cases n) auto
qed simp


text \<open>The cache abstracts to a history: its unexpired entries are the \<open>maxSize\<close> most recently checked
  unexpired keys.\<close>

definition dd_limit :: "dedupe_options \<Rightarrow> nat" where
  "dd_limit opts = nat (dd_max opts)"

definition dedupe_rel :: "dedupe_options \<Rightarrow> int \<Rightarrow> check_history \<Rightarrow> dedupe_cache \<Rightarrow> bool" where
  "dedupe_rel opts now h c \<longleftrightarrow> jm_ok c \<and> newest_first (rev c) \<and> newest_first h \<and>
     list_all (\<lambda>p. snd p \<le> now) (h @ c) \<and>
     filter (fresh_at opts now) (rev c) = take (dd_limit opts) (filter (fresh_at opts now) (recency h))"

lemma dedupe_rel_empty: "dedupe_rel opts now [] []"
  by (simp add: dedupe_rel_def newest_first_def)

lemma dedupe_rel_later:
  assumes "dedupe_rel opts now h c" "now \<le> now'"
  shows "dedupe_rel opts now' h c"
proof -
  have "filter (fresh_at opts now') (rev c) =
      filter (fresh_at opts now') (take (dd_limit opts) (filter (fresh_at opts now) (recency h)))"
    using assms filter_fresh_later [OF assms(2)] by (metis dedupe_rel_def)
  also have "\<dots> = take (dd_limit opts) (filter (fresh_at opts now') (recency h))"
    using assms by (simp add: filter_fresh_take newest_first_filter recency_newest dedupe_rel_def
        filter_fresh_later [OF assms(2)] del: filter_filter)
  finally have "filter (fresh_at opts now') (rev c) = take (dd_limit opts) (filter (fresh_at opts now') (recency h))" .
  moreover have "list_all (\<lambda>p. snd p \<le> now') (h @ c)"
    using assms by (auto simp: dedupe_rel_def list_all_iff intro: order_trans)
  ultimately show ?thesis
    using assms by (simp add: dedupe_rel_def)
qed

lemma prefix_position:
  assumes "newest_first xs" "distinct (map fst xs)"
  shows "k \<in> fst ` set (take n (filter (fresh_at opts now) xs)) \<longleftrightarrow>
    (case jm_get xs k of None \<Rightarrow> False | Some t \<Rightarrow> fresh_at opts now (k, t) \<and> length (takeWhile (\<lambda>p. fst p \<noteq> k) xs) < n)"
  using assms
proof (induction xs arbitrary: n)
  case (Cons p xs)
  have nf: "newest_first xs" using Cons.prems(1) by (simp add: newest_first_Cons)
  show ?case
  proof (cases "fresh_at opts now p")
    case True
    show ?thesis
    proof (cases n)
      case (Suc m)
      from Cons.IH [OF nf, of m] Cons.prems(2) True Suc show ?thesis
        by (cases p; cases "fst p = k") (auto split: option.splits)
    qed (simp split: option.split)
  next
    case False
    from filter_fresh_none [OF Cons.prems(1) False] False have none: "filter (fresh_at opts now) (p # xs) = []" by simp
    have "\<not> fresh_at opts now (k, t)" if "jm_get (p # xs) k = Some t" for t
    proof -
      have "\<forall>q \<in> set (p # xs). \<not> fresh_at opts now q" using none by (simp only: filter_empty_conv)
      with map_of_SomeD [OF that] show ?thesis by blast
    qed
    then show ?thesis unfolding none by (auto split: option.split)
  qed
qed simp

lemma remembered_iff:
  assumes "newest_first h"
  shows "remembered opts h k now \<longleftrightarrow> k \<in> fst ` set (take (dd_limit opts) (filter (fresh_at opts now) (recency h)))"
  unfolding prefix_position [OF recency_newest [OF assms] recency_distinct] recency_get remembered_def card_checked_since
    dd_limit_def by (auto split: option.split simp: zless_nat_eq_int_zless)

lemma fresh_in_cache: "jm_ok c \<Longrightarrow>
  k \<in> fst ` set (filter (fresh_at opts now) (rev c)) \<longleftrightarrow> (\<exists>t. jm_get c k = Some t \<and> fresh_at opts now (k, t))"
  by (force simp: jm_get_iff [symmetric])


lemma touch_rev: "jm_ok c \<Longrightarrow> rev (touch k now c) = (k, now) # filter (\<lambda>q. fst q \<noteq> k) (rev c)"
proof -
  have "jm_get (jm_delete k c) k = None" by simp
  moreover have "jm_delete k c = filter (\<lambda>q. fst q \<noteq> k) c"
    by (auto simp: AList.delete_eq intro!: filter_cong)
  ultimately show ?thesis
    by (simp add: touch_def jm_set_new rev_filter)
qed

lemma dropOldest_rev: "rev (dropOldest limit m) = take (nat limit) (rev m)"
  by (induction m) (auto simp: nat_le_iff)

lemma dd_prune_rev: "0 < dd_max opts \<Longrightarrow> rev (dd_prune opts now c) =
  take (dd_limit opts) (if dd_ttl opts > 0 then filter (\<lambda>p. now - dd_ttl opts \<le> snd p) (rev c) else rev c)"
  by (simp add: dd_prune_def pruneMapToMaxSize_def dropOldest_rev dd_limit_def rev_filter case_prod_unfold not_less)

lemma not_pruned_fresh: "dd_ttl opts > 0 \<Longrightarrow>
  filter (fresh_at opts now) (filter (\<lambda>p. now - dd_ttl opts \<le> snd p) xs) = filter (fresh_at opts now) xs"
  by (auto simp: fresh_at_def intro!: filter_cong)

lemma fresh_now [simp]: "fresh_at opts now (k, now)"
  by (auto simp: fresh_at_def dd_ttl_def)


lemma check_step:
  assumes "dedupe_rel opts now h c" "k \<noteq> []"
  shows "fst (dd_check opts c (Some k) now) = remembered opts h k now \<and>
    dedupe_rel opts now ((k, now) # h) (snd (dd_check opts c (Some k) now))"
proof -
  let ?N = "dd_limit opts" and ?U = "filter (fresh_at opts now) (recency h)" and ?no = "filter (\<lambda>q. fst q \<noteq> k)"
  have ok: "jm_ok c" "newest_first (rev c)" "newest_first h" "list_all (\<lambda>p. snd p \<le> now) (h @ c)"
    and rel: "filter (fresh_at opts now) (rev c) = take ?N ?U"
    using assms(1) by (simp_all add: dedupe_rel_def)
  have rem: "remembered opts h k now \<longleftrightarrow> k \<in> fst ` set (take ?N ?U)"
    by (rule remembered_iff [OF ok(3)])
  also have "\<dots> \<longleftrightarrow> (\<exists>t. jm_get c k = Some t \<and> fresh_at opts now (k, t))"
    using fresh_in_cache [OF ok(1), of k opts now] rel by simp
  finally have hit: "remembered opts h k now \<longleftrightarrow> (\<exists>t. jm_get c k = Some t \<and> fresh_at opts now (k, t))" .
  have U: "filter (fresh_at opts now) (recency ((k, now) # h)) = (k, now) # ?no ?U"
    by (simp add: conj_commute)
  have distU: "distinct (map fst ?U)" using recency_distinct by (simp add: distinct_map_filter)
  have okt: "jm_ok (touch k now c)" using ok(1) by (simp add: touch_def)
  have revt: "rev (touch k now c) = (k, now) # ?no (rev c)" by (rule touch_rev [OF ok(1)])
  have nft: "newest_first (rev (touch k now c))"
    using ok(2,4) by (auto simp: revt newest_first_Cons newest_first_filter list_all_iff)
  have fresht: "filter (fresh_at opts now) (rev (touch k now c)) = (k, now) # ?no (take ?N ?U)"
    unfolding revt rel [symmetric] by (simp add: conj_commute)
  have sub: "set (touch k now c) \<subseteq> insert (k, now) (set c)"
    using arg_cong [OF revt, of set] by auto
  show ?thesis
  proof (cases "remembered opts h k now")
    case True
    then obtain t where "jm_get c k = Some t" "fresh_at opts now (k, t)" using hit by blast
    then have ck: "dd_check opts c (Some k) now = (True, touch k now c)"
      using assms(2) by (auto simp: dd_check_def hasUnexpired_def fresh_at_def)
    obtain m where m: "?N = Suc m" using True rem by (cases ?N) auto
    have "?no (take ?N ?U) = take m (?no ?U)"
      using take_without [OF distU, of k ?N] True rem m by simp
    then have "filter (fresh_at opts now) (rev (touch k now c)) = take ?N ((k, now) # ?no ?U)"
      using fresht m by simp
    then show ?thesis
      using True ck okt nft ok(3,4) sub U by (auto simp: dedupe_rel_def newest_first_Cons list_all_iff)
  next
    case False
    have touch_del: "touch k now (jm_delete k c) = touch k now c" by (simp add: touch_def AList.delete_eq)
    have ck: "dd_check opts c (Some k) now = (False, dd_prune opts now (touch k now c))"
      using False hit assms(2) touch_del
      by (auto simp: dd_check_def hasUnexpired_def fresh_at_def dd_ttl_def split: option.split)
    have absent: "?no (take ?N ?U) = take ?N ?U"
      using False rem by (force intro!: filter_True)
    let ?c' = "dd_prune opts now (touch k now c)"
    have keep: "set ?c' \<subseteq> set (touch k now c) \<and> jm_ok ?c' \<and> newest_first (rev ?c') \<and>
      filter (fresh_at opts now) (rev ?c') = take ?N ((k, now) # ?no ?U)"
    proof (cases "0 < dd_max opts")
      case True
      then obtain m where m: "?N = Suc m" by (cases ?N) (auto simp: dd_limit_def)
      let ?cut = "if dd_ttl opts > 0 then filter (\<lambda>p. now - dd_ttl opts \<le> snd p) (rev (touch k now c)) else rev (touch k now c)"
      have rev: "rev ?c' = take ?N ?cut" by (rule dd_prune_rev [OF True])
      have nfc: "newest_first ?cut" using nft by (simp add: newest_first_filter)
      have "set (rev ?c') \<subseteq> set ?cut" unfolding rev by (rule set_take_subset)
      also have "\<dots> \<subseteq> set (touch k now c)" by auto
      finally have s: "set ?c' \<subseteq> set (touch k now c)" by simp
      have "distinct (map fst ?cut)"
        using okt by (simp add: distinct_map_filter flip: rev_map)
      then have "distinct (map fst (rev ?c'))" unfolding rev by (metis take_map distinct_take)
      then have d: "jm_ok ?c'" by (metis distinct_rev rev_map)
      have n: "newest_first (rev ?c')" unfolding rev by (rule newest_first_take [OF nfc])
      have cut: "filter (fresh_at opts now) ?cut = filter (fresh_at opts now) (rev (touch k now c))"
        using not_pruned_fresh [of opts now "rev (touch k now c)"] by (cases "dd_ttl opts > 0") simp_all
      have "filter (fresh_at opts now) (rev ?c') = take ?N (filter (fresh_at opts now) ?cut)"
        unfolding rev by (rule filter_fresh_take [OF nfc])
      also have "\<dots> = take ?N ((k, now) # take ?N ?U)"
        unfolding cut fresht absent ..
      also have "\<dots> = take ?N ((k, now) # ?no ?U)"
      proof -
        have "take ?N (?no ?U) = take ?N ?U" by (rule take_absent) (use False rem in simp)
        then have "take m (take ?N (?no ?U)) = take m (take ?N ?U)" by (rule arg_cong)
        then show ?thesis by (simp add: m)
      qed
      finally show ?thesis using s d n by simp
    next
      case False
      then have "?c' = []" "?N = 0" by (simp_all add: dd_prune_def dd_limit_def)
      then show ?thesis by (simp add: newest_first_def)
    qed
    have "list_all (\<lambda>p. snd p \<le> now) (((k, now) # h) @ ?c')"
      using ok(4) keep sub by (auto simp: list_all_iff)
    moreover have "newest_first ((k, now) # h)"
      using ok(3,4) by (simp add: newest_first_Cons)
    ultimately show ?thesis
      using False ck keep U by (simp add: dedupe_rel_def)
  qed
qed


lemma peek_step:
  assumes "dedupe_rel opts now h c" "k \<noteq> []"
  shows "fst (dd_peek opts c (Some k) now) = remembered opts h k now \<and>
    dedupe_rel opts now h (snd (dd_peek opts c (Some k) now))"
proof -
  have ok: "jm_ok c" "newest_first (rev c)" "newest_first h" "list_all (\<lambda>p. snd p \<le> now) (h @ c)"
    and rel: "filter (fresh_at opts now) (rev c) = take (dd_limit opts) (filter (fresh_at opts now) (recency h))"
    using assms(1) by (simp_all add: dedupe_rel_def)
  have hit: "remembered opts h k now \<longleftrightarrow> (\<exists>t. jm_get c k = Some t \<and> fresh_at opts now (k, t))"
    using fresh_in_cache [OF ok(1), of k opts now] rel remembered_iff [OF ok(3)] by simp
  show ?thesis
  proof (cases "remembered opts h k now \<or> jm_get c k = None")
    case True
    then have "dd_peek opts c (Some k) now = (remembered opts h k now, c)"
      using hit assms(2) by (auto simp: dd_peek_def hasUnexpired_def fresh_at_def split: option.split)
    with assms(1) show ?thesis by simp
  next
    case False
    then obtain t where t: "jm_get c k = Some t" "\<not> fresh_at opts now (k, t)" using hit by auto
    then have ck: "dd_peek opts c (Some k) now = (False, jm_delete k c)"
      using assms(2) by (auto simp: dd_peek_def hasUnexpired_def fresh_at_def dd_ttl_def)
    have del: "jm_delete k c = filter (\<lambda>q. fst q \<noteq> k) c"
      by (auto simp: AList.delete_eq intro!: filter_cong)
    have "filter (fresh_at opts now) (rev (jm_delete k c)) = filter (fresh_at opts now) (rev c)"
      using t jm_get_iff [OF ok(1)] by (auto simp: del rev_filter [symmetric] intro!: filter_cong)
    with False ck ok rel show ?thesis
      by (auto simp: dedupe_rel_def del newest_first_filter list_all_iff rev_filter distinct_map_filter)
  qed
qed

section \<open>Clients of a duplicate filter\<close>

text \<open>What a client may rely on: some relation between the history of checks and the filter, kept by each
  check, under which the answer is that of the history.\<close>

locale duplicate_filter =
  fixes empty :: "'c"
    and check :: "'c \<Rightarrow> string option \<Rightarrow> int \<Rightarrow> bool \<times> 'c"
    and known :: "check_history \<Rightarrow> string \<Rightarrow> int \<Rightarrow> bool"
    and rel :: "int \<Rightarrow> check_history \<Rightarrow> 'c \<Rightarrow> bool"
  assumes rel_empty: "rel now [] empty"
    and rel_later: "rel now h c \<Longrightarrow> now \<le> now' \<Longrightarrow> rel now' h c"
    and check_result: "rel now h c \<Longrightarrow> k \<noteq> [] \<Longrightarrow> fst (check c (Some k) now) = known h k now"
    and check_keeps: "rel now h c \<Longrightarrow> k \<noteq> [] \<Longrightarrow> rel now ((k, now) # h) (snd (check c (Some k) now))"
begin

fun checks :: "'c \<Rightarrow> (string \<times> int) list \<Rightarrow> 'c" where
  "checks c [] = c"
| "checks c ((k, now) # ks) = checks (snd (check c (Some k) now)) ks"

lemma checks_rel: "rel t0 h c \<Longrightarrow> sorted (t0 # map snd ks) \<Longrightarrow> list_all (\<lambda>p. fst p \<noteq> []) ks \<Longrightarrow>
  rel (last (t0 # map snd ks)) (rev ks @ h) (checks c ks)"
proof (induction ks arbitrary: t0 h c)
  case (Cons p ks)
  obtain k now where p: "p = (k, now)" by (cases p)
  have "rel now h c" using Cons.prems p by (auto intro: rel_later)
  from check_keeps [OF this, of k] Cons.prems(3) p have "rel now ((k, now) # h) (snd (check c (Some k) now))" by simp
  from Cons.IH [OF this] Cons.prems p show ?case by simp
qed simp

lemma answer_after:
  assumes "sorted (map snd ks @ [now])" "list_all (\<lambda>p. fst p \<noteq> []) ks" "k \<noteq> []"
  shows "fst (check (checks empty ks) (Some k) now) = known (rev ks) k now"
proof (cases ks)
  case Nil
  then show ?thesis using check_result [OF rel_empty assms(3)] by simp
next
  case (Cons p ks')
  let ?ts = "snd p # map snd ks"
  have le: "t \<le> now" if "t \<in> set ?ts" for t
    using assms(1) that Cons by (auto simp: sorted_append)
  have "sorted ?ts" using assms(1) Cons by (simp add: sorted_append)
  from checks_rel [OF rel_empty this assms(2)] have "rel (last ?ts) (rev ks @ []) (checks empty ks)" .
  then have "rel now (rev ks) (checks empty ks)"
    using rel_later le [OF last_in_set] by simp
  from check_result [OF this assms(3)] show ?thesis .
qed

end

interpretation dedupe: duplicate_filter "[]" "dd_check opts" "remembered opts" "dedupe_rel opts" for opts
  by unfold_locales (auto intro: dedupe_rel_empty dedupe_rel_later simp: check_step)


section \<open>Runs of the cache\<close>

datatype dedupe_event =
    DCheck "string option" int
  | DPeek "string option" int
  | DClear int

fun dd_time :: "dedupe_event \<Rightarrow> int" where
  "dd_time (DCheck key now) = now"
| "dd_time (DPeek key now) = now"
| "dd_time (DClear now) = now"

fun dd_run :: "dedupe_options \<Rightarrow> dedupe_cache \<Rightarrow> dedupe_event list \<Rightarrow> bool list" where
  "dd_run opts c [] = []"
| "dd_run opts c (DCheck key now # es) = (let (b, c1) = dd_check opts c key now in b # dd_run opts c1 es)"
| "dd_run opts c (DPeek key now # es) = (let (b, c1) = dd_peek opts c key now in b # dd_run opts c1 es)"
| "dd_run opts c (DClear now # es) = dd_run opts [] es"

text \<open>The specification answers from the history alone.\<close>

definition spec_answer :: "dedupe_options \<Rightarrow> check_history \<Rightarrow> string option \<Rightarrow> int \<Rightarrow> bool" where
  "spec_answer opts h key now = (case key of None \<Rightarrow> False | Some k \<Rightarrow> k \<noteq> [] \<and> remembered opts h k now)"

definition spec_note :: "string option \<Rightarrow> int \<Rightarrow> check_history \<Rightarrow> check_history" where
  "spec_note key now h = (case key of None \<Rightarrow> h | Some k \<Rightarrow> if k = [] then h else (k, now) # h)"

fun spec_run :: "dedupe_options \<Rightarrow> check_history \<Rightarrow> dedupe_event list \<Rightarrow> bool list" where
  "spec_run opts h [] = []"
| "spec_run opts h (DCheck key now # es) = spec_answer opts h key now # spec_run opts (spec_note key now h) es"
| "spec_run opts h (DPeek key now # es) = spec_answer opts h key now # spec_run opts h es"
| "spec_run opts h (DClear now # es) = spec_run opts [] es"

lemma check_any_step:
  assumes "dedupe_rel opts now h c"
  shows "fst (dd_check opts c key now) = spec_answer opts h key now \<and>
    dedupe_rel opts now (spec_note key now h) (snd (dd_check opts c key now))"
  using check_step [OF assms] assms
  by (cases key) (auto simp: spec_answer_def spec_note_def dd_check_def)

lemma peek_any_step:
  assumes "dedupe_rel opts now h c"
  shows "fst (dd_peek opts c key now) = spec_answer opts h key now \<and> dedupe_rel opts now h (snd (dd_peek opts c key now))"
  using peek_step [OF assms] assms
  by (cases key) (auto simp: spec_answer_def dd_peek_def)

lemma run_refines: "dedupe_rel opts tm h c \<Longrightarrow> sorted (tm # map dd_time es) \<Longrightarrow> dd_run opts c es = spec_run opts h es"
proof (induction es arbitrary: tm h c)
  case (Cons e es)
  have later: "dedupe_rel opts (dd_time e) h c" using Cons.prems by (auto intro: dedupe_rel_later)
  have srt: "sorted (dd_time e # map dd_time es)" using Cons.prems by simp
  show ?case
  proof (cases e)
    case (DCheck key now)
    obtain b c1 where c1: "dd_check opts c key now = (b, c1)" by (cases "dd_check opts c key now")
    from check_any_step [of opts now h c key] later DCheck c1
    have "b = spec_answer opts h key now" "dedupe_rel opts now (spec_note key now h) c1" by simp_all
    with Cons.IH [OF this(2)] srt DCheck c1 show ?thesis by simp
  next
    case (DPeek key now)
    obtain b c1 where c1: "dd_peek opts c key now = (b, c1)" by (cases "dd_peek opts c key now")
    from peek_any_step [of opts now h c key] later DPeek c1
    have "b = spec_answer opts h key now" "dedupe_rel opts now h c1" by simp_all
    with Cons.IH [OF this(2)] srt DPeek c1 show ?thesis by simp
  next
    case (DClear now)
    with Cons.IH [where tm = now and h = "[]" and c = "[]"] dedupe_rel_empty srt show ?thesis by simp
  qed
qed simp

text \<open>C33: the duplicate filter implements its specification: for every time to live and size limit and every
  sequence of checks, peeks and clears whose clock does not go back, the answers of the pruned cache are those
  computed from the whole history: a key is a duplicate exactly when its last check is within the time to live
  (a zero time to live never expires) and fewer than the size limit of other keys were checked since.\<close>

theorem dedupe_cache_refines_history:
  assumes "sorted (map dd_time es)"
  shows "dd_run opts [] es = spec_run opts [] es"
  using run_refines [where tm = "dd_time (hd es)" and h = "[]" and c = "[]"] dedupe_rel_empty assms
  by (cases es) (simp_all del: dd_run.simps(2-4) spec_run.simps(2-4))

theorem dedupe_cache_refines_history_witness:
  "dd_run \<lparr>dd_ttlMs = 100, dd_maxSize = 2\<rparr> [] [DCheck (Some ''a'') 0, DCheck (Some ''b'') 10, DCheck (Some ''a'') 50,
     DCheck (Some ''c'') 60, DPeek (Some ''b'') 61, DPeek (Some ''a'') 140, DPeek (Some ''a'') 150] =
   [False, False, True, False, False, True, False]"
proof -
  let ?es = "[DCheck (Some ''a'') 0, DCheck (Some ''b'') 10, DCheck (Some ''a'') 50,
     DCheck (Some ''c'') 60, DPeek (Some ''b'') 61, DPeek (Some ''a'') 140, DPeek (Some ''a'') 150]"
  have "sorted (map dd_time ?es)" by simp
  from dedupe_cache_refines_history [OF this, of "\<lparr>dd_ttlMs = 100, dd_maxSize = 2\<rparr>"] show ?thesis
    by (simp add: spec_answer_def spec_note_def remembered_def fresh_at_def checked_since_def dd_ttl_def dd_max_def)
qed


section \<open>Inbound messages are handled once\<close>

text \<open>The cache after a sequence of messages.\<close>

definition inbound_run :: "dedupe_options \<Rightarrow> dedupe_cache \<Rightarrow> (msg_context \<times> int) list \<Rightarrow> dedupe_cache" where
  "inbound_run opts c ms = foldl (\<lambda>c (ctx, now). snd (shouldSkipDuplicateInbound opts c ctx now)) c ms"

text \<open>The same provider message, possibly routed to another session of the same agent.\<close>

definition same_inbound :: "msg_context \<Rightarrow> msg_context \<Rightarrow> bool" where
  "same_inbound a b \<longleftrightarrow>
     first_some (mc_OriginatingChannel a) (first_some (mc_Provider a) (mc_Surface a)) =
       first_some (mc_OriginatingChannel b) (first_some (mc_Provider b) (mc_Surface b)) \<and>
     mc_MessageSid a = mc_MessageSid b \<and> mc_AccountId a = mc_AccountId b \<and>
     mc_MessageThreadId a = mc_MessageThreadId b \<and> resolveInboundPeerId a = resolveInboundPeerId b \<and>
     map_option pk_agentId (parseAgentSessionKey (Some (inbound_session_key a))) =
       map_option pk_agentId (parseAgentSessionKey (Some (inbound_session_key b))) \<and>
     parseAgentSessionKey (Some (inbound_session_key a)) \<noteq> None"

lemma parse_empty: "parseAgentSessionKey (Some []) = None"
  by (simp add: parseAgentSessionKey_def normalizeOptionalLowercaseString_def)

lemma same_inbound_key: "same_inbound a b \<Longrightarrow> buildInboundDedupeKey a = buildInboundDedupeKey b"
  by (auto simp: same_inbound_def buildInboundDedupeKey_def resolveInboundDedupeSessionScope_def Let_def parse_empty
      split: option.splits)

definition message_keys :: "(msg_context \<times> int) list \<Rightarrow> (string \<times> int) list" where
  "message_keys ms = List.map_filter (\<lambda>(ctx, now). case buildInboundDedupeKey ctx of
     None \<Rightarrow> None | Some key \<Rightarrow> if key = [] then None else Some (key, now)) ms"

lemma message_keys_simps [simp]: "message_keys [] = []"
  "message_keys ((ctx, now) # ms) = (case buildInboundDedupeKey ctx of None \<Rightarrow> message_keys ms
     | Some key \<Rightarrow> if key = [] then message_keys ms else (key, now) # message_keys ms)"
  by (auto simp: message_keys_def List.map_filter_def split: option.split)

lemma message_keys_append: "message_keys (xs @ ys) = message_keys xs @ message_keys ys"
  by (simp add: message_keys_def List.map_filter_def)

lemma length_message_keys: "length (message_keys ms) \<le> length ms"
  by (induction ms) (auto split: option.split)

lemma inbound_run_checks: "inbound_run opts c ms = dedupe.checks opts c (message_keys ms)"
  by (induction ms arbitrary: c) (auto simp: inbound_run_def shouldSkipDuplicateInbound_def split: option.split)

lemma message_keys_ok: "list_all (\<lambda>p. fst p \<noteq> []) (message_keys ms)"
  by (induction ms) (auto split: option.split)

lemma message_keys_time: "p \<in> set (message_keys ms) \<Longrightarrow> snd p \<in> snd ` set ms"
  by (induction ms) (auto split: option.splits if_splits)

lemma message_keys_sorted: "sorted (map snd ms @ [t]) \<Longrightarrow> sorted (map snd (message_keys ms) @ [t])"
proof (induction ms)
  case (Cons m ms)
  obtain ctx now where m: "m = (ctx, now)" by (cases m)
  show ?case using Cons message_keys_time [of _ ms] m by (fastforce simp: sorted_append split: option.split)
qed simp

text \<open>A key that was checked recently enough is remembered.\<close>

lemma remembered_after:
  assumes "newest_first (h' @ (k, t) # h)" "list_all (\<lambda>p. snd p \<le> now) h'"
    and "dd_ttl opts = 0 \<or> now - t < dd_ttl opts" "int (length h') < dd_max opts"
  shows "remembered opts (h' @ (k, t) # h) k now"
proof -
  have fresh: "fresh_at opts now (k, t')" if "t \<le> t'" for t'
    using assms(3) that by (auto simp: fresh_at_def)
  have "\<exists>t'. jm_get (h' @ (k, t) # h) k = Some t' \<and> t \<le> t'"
    using assms(1) by (induction h') (auto simp: newest_first_Cons)
  then obtain t' where t': "jm_get (h' @ (k, t) # h) k = Some t'" "t \<le> t'" by blast
  have "card (checked_since (h' @ (k, t) # h) k) \<le> length h'"
  proof -
    have "length (takeWhile (\<lambda>p. fst p \<noteq> k) (h' @ (k, t) # h)) \<le> length h'"
      by (induction h') auto
    then show ?thesis
      unfolding checked_since_def by (metis card_image_le card_length finite_set le_trans)
  qed
  with t' fresh assms(4) show ?thesis by (auto simp: remembered_def)
qed


lemma newest_first_rev: "sorted (map snd ks) \<Longrightarrow> newest_first (rev ks)"
  by (simp add: newest_first_def sorted_wrt_rev sorted_map)

lemma join_bar_Nil_iff: "join_bar xs = [] \<longleftrightarrow> xs = [] \<or> xs = [[]]"
  by (induction xs rule: join_bar.induct) auto

lemma inbound_key_nonempty: "buildInboundDedupeKey ctx = Some key \<Longrightarrow> key \<noteq> []"
  by (auto simp: buildInboundDedupeKey_def Let_def join_bar_Nil_iff split: if_splits)

text \<open>an inbound message is handled once: after a message with a dedupe key was seen, the same provider
  message delivered again within 20 minutes and with fewer than 5000 messages in between is skipped, also when it
  is routed to another session of the same agent, whatever other messages came before and in between.\<close>

theorem inbound_duplicate_skipped:
  assumes "same_inbound ctx ctx'" "buildInboundDedupeKey ctx \<noteq> None"
    and "sorted (map snd (before @ (ctx, t) # between) @ [t'])" "t' - t < 20 * 60000" "length between < 5000"
  shows "fst (shouldSkipDuplicateInbound inbound_options
    (inbound_run inbound_options [] (before @ (ctx, t) # between)) ctx' t')"
proof -
  obtain key where key: "buildInboundDedupeKey ctx = Some key" "key \<noteq> []"
    using assms(2) inbound_key_nonempty by auto
  have key': "buildInboundDedupeKey ctx' = Some key" using same_inbound_key [OF assms(1)] key(1) by simp
  let ?ks = "message_keys (before @ (ctx, t) # between)" and ?h' = "rev (message_keys between)"
  have ks: "?ks = message_keys before @ (key, t) # message_keys between"
    using key by (simp add: message_keys_append)
  have srt: "sorted (map snd ?ks @ [t'])" by (rule message_keys_sorted) (use assms(3) in simp)
  have rev: "rev ?ks = ?h' @ (key, t) # rev (message_keys before)" by (simp add: ks)
  have "remembered inbound_options (rev ?ks) key t'"
    unfolding rev
  proof (rule remembered_after)
    show "newest_first (?h' @ (key, t) # rev (message_keys before))"
      using newest_first_rev [of ?ks] srt by (simp add: rev sorted_append)
    show "list_all (\<lambda>p. snd p \<le> t') ?h'"
      using srt by (auto simp: ks sorted_append list_all_iff)
    show "dd_ttl inbound_options = 0 \<or> t' - t < dd_ttl inbound_options"
      using assms(4) by (simp add: dd_ttl_def inbound_options_def)
    show "int (length ?h') < dd_max inbound_options"
      using assms(5) length_message_keys [of between] by (simp add: dd_max_def inbound_options_def)
  qed
  then show ?thesis
    using dedupe.answer_after [OF srt message_keys_ok key(2), of inbound_options] key key'
    by (simp add: shouldSkipDuplicateInbound_def inbound_run_checks)
qed

definition sample_message :: "string \<Rightarrow> msg_context" where
  "sample_message sessionKey = \<lparr>mc_OriginatingTo = Some ''+15550001'', mc_To = None, mc_From = None,
     mc_SessionKey = Some sessionKey, mc_CommandSource = None, mc_CommandTargetSessionKey = None,
     mc_OriginatingChannel = Some ''WhatsApp'', mc_Provider = None, mc_Surface = None, mc_MessageSid = Some ''m1'',
     mc_AccountId = None, mc_MessageThreadId = None\<rparr>"

theorem inbound_duplicate_skipped_witness:
  "fst (shouldSkipDuplicateInbound inbound_options (inbound_run inbound_options []
     [(sample_message ''agent:main:main'', 1000)]) (sample_message ''agent:main:direct:+15550001'') 2000)"
proof -
  have "same_inbound (sample_message ''agent:main:main'') (sample_message ''agent:main:direct:+15550001'')"
    by code_simp
  moreover have "buildInboundDedupeKey (sample_message ''agent:main:main'') \<noteq> None" by code_simp
  ultimately show ?thesis
    using inbound_duplicate_skipped [where before = "[]" and between = "[]" and t = 1000 and t' = 2000] by simp
qed

text \<open>Empty parts are dropped from the key, so two different messages can share it: one of account \<open>u1\<close>
  without a thread to peer \<open>u2\<close>, and one of the default account to peer \<open>u1\<close> in thread \<open>u2\<close>.\<close>

lemma inbound_key_collision:
  fixes base :: msg_context
  defines "base \<equiv> \<lparr>mc_OriginatingTo = None, mc_To = None, mc_From = None, mc_SessionKey = None,
     mc_CommandSource = None, mc_CommandTargetSessionKey = None, mc_OriginatingChannel = Some ''slack'',
     mc_Provider = None, mc_Surface = None, mc_MessageSid = Some ''m1'', mc_AccountId = None, mc_MessageThreadId = None\<rparr>"
  shows "buildInboundDedupeKey (base\<lparr>mc_AccountId := Some ''u1'', mc_OriginatingTo := Some ''u2''\<rparr>) =
    buildInboundDedupeKey (base\<lparr>mc_OriginatingTo := Some ''u1'', mc_MessageThreadId := Some ''u2''\<rparr>)"
    "buildInboundDedupeKey (base\<lparr>mc_AccountId := Some ''u1'', mc_OriginatingTo := Some ''u2''\<rparr>) \<noteq> None"
  unfolding base_def by code_simp+

end
