(* ===== verification/ExecApproval.thy ===== *)
theory ExecApproval
  imports JsPrelude
begin

text \<open>
  The approval manager of \<open>src/gateway/exec-approval-manager.ts\<close>: pending approvals in a \<open>Map\<close>, each with
  a promise, an expiry timer and, once resolved, a grace period during which its entry stays. An entry object
  is identified by its promise, numbered in the order of registration; the log of settled promises and of
  consumed approvals is ghost state. Clock readings and \<open>randomUUID\<close> are arguments.
\<close>

section \<open>Records and state\<close>

datatype approval_decision = AllowOnce | AllowAlways | Deny

record 'p approval_record =
  ap_id :: string
  ap_request :: 'p
  ap_createdAtMs :: int
  ap_expiresAtMs :: int
  ap_resolvedAtMs :: "int option"
  ap_decision :: "approval_decision option"
  ap_resolvedBy :: "string option"

record 'p pending_entry =
  pe_record :: "'p approval_record"
  pe_promise :: nat

text \<open>\<open>em_timers\<close> holds the armed expiry timers (promise and record id), \<open>em_grace\<close> the pending deletions.\<close>

record 'p approvals =
  em_pending :: "(string, 'p pending_entry) jsmap"
  em_next :: nat
  em_timers :: "(nat \<times> string) list"
  em_grace :: "(string \<times> nat) list"
  em_settled :: "(nat \<times> approval_decision option) list"
  em_consumed :: "nat list"

definition no_approvals :: "'p approvals" where
  "no_approvals = \<lparr>em_pending = [], em_next = 0, em_timers = [], em_grace = [], em_settled = [], em_consumed = []\<rparr>"

section \<open>Operations\<close>

definition createApproval :: "'p \<Rightarrow> int \<Rightarrow> string option \<Rightarrow> string \<Rightarrow> int \<Rightarrow> 'p approval_record" where
  "createApproval request timeoutMs explicitId uuid now =
     \<lparr>ap_id = (case explicitId of Some i \<Rightarrow> if i \<noteq> [] \<and> js_trim i \<noteq> [] then js_trim i else uuid | None \<Rightarrow> uuid),
      ap_request = request, ap_createdAtMs = now, ap_expiresAtMs = now + timeoutMs, ap_resolvedAtMs = None,
      ap_decision = None, ap_resolvedBy = None\<rparr>"

text \<open>A registration returns a promise or throws.\<close>

definition registerApproval :: "'p approval_record \<Rightarrow> 'p approvals \<Rightarrow> (string + nat) \<times> 'p approvals" where
  "registerApproval rec s = (case jm_get (em_pending s) (ap_id rec) of
       Some existing \<Rightarrow>
         if ap_resolvedAtMs (pe_record existing) = None then (Inr (pe_promise existing), s)
         else (Inl (''approval id '' @ ap_id rec @ '' already resolved''), s)
     | None \<Rightarrow>
         (let promise = em_next s in
          (Inr promise,
           s\<lparr>em_next := Suc promise, em_timers := em_timers s @ [(promise, ap_id rec)],
             em_pending := jm_set (ap_id rec) \<lparr>pe_record = rec, pe_promise = promise\<rparr> (em_pending s)\<rparr>)))"

text \<open>What \<open>resolve\<close> and \<open>expire\<close> share: the decision is written, the timer cleared, the promise settled
  and the deletion scheduled.\<close>

definition settleApproval ::
    "string \<Rightarrow> approval_decision option \<Rightarrow> string option \<Rightarrow> int \<Rightarrow> 'p approvals \<Rightarrow> bool \<times> 'p approvals" where
  "settleApproval recordId decision resolvedBy now s = (case jm_get (em_pending s) recordId of
       None \<Rightarrow> (False, s)
     | Some e \<Rightarrow>
         if ap_resolvedAtMs (pe_record e) \<noteq> None then (False, s)
         else (True,
           s\<lparr>em_timers := filter (\<lambda>t. fst t \<noteq> pe_promise e) (em_timers s),
             em_pending := jm_set recordId (e\<lparr>pe_record := (pe_record e)\<lparr>ap_resolvedAtMs := Some now,
               ap_decision := decision, ap_resolvedBy := resolvedBy\<rparr>\<rparr>) (em_pending s),
             em_settled := em_settled s @ [(pe_promise e, decision)],
             em_grace := em_grace s @ [(recordId, pe_promise e)]\<rparr>))"

definition resolveApproval ::
    "string \<Rightarrow> approval_decision \<Rightarrow> string option \<Rightarrow> int \<Rightarrow> 'p approvals \<Rightarrow> bool \<times> 'p approvals" where
  "resolveApproval recordId decision resolvedBy now s = settleApproval recordId (Some decision) resolvedBy now s"

definition expireApproval :: "string \<Rightarrow> string option \<Rightarrow> int \<Rightarrow> 'p approvals \<Rightarrow> bool \<times> 'p approvals" where
  "expireApproval recordId resolvedBy now s = settleApproval recordId None resolvedBy now s"

definition getSnapshot :: "string \<Rightarrow> 'p approvals \<Rightarrow> 'p approval_record option" where
  "getSnapshot recordId s = map_option pe_record (jm_get (em_pending s) recordId)"

definition listPendingRecords :: "'p approvals \<Rightarrow> 'p approval_record list" where
  "listPendingRecords s = filter (\<lambda>r. ap_resolvedAtMs r = None) (map (pe_record \<circ> snd) (em_pending s))"

definition consumeAllowOnce :: "string \<Rightarrow> 'p approvals \<Rightarrow> bool \<times> 'p approvals" where
  "consumeAllowOnce recordId s = (case jm_get (em_pending s) recordId of
       None \<Rightarrow> (False, s)
     | Some e \<Rightarrow>
         if ap_decision (pe_record e) \<noteq> Some AllowOnce then (False, s)
         else (True,
           s\<lparr>em_pending := jm_set recordId (e\<lparr>pe_record := (pe_record e)\<lparr>ap_decision := None\<rparr>\<rparr>) (em_pending s),
             em_consumed := em_consumed s @ [pe_promise e]\<rparr>))"

definition awaitDecision :: "string \<Rightarrow> 'p approvals \<Rightarrow> nat option" where
  "awaitDecision recordId s = map_option pe_promise (jm_get (em_pending s) recordId)"

datatype id_lookup = LookupExact string | LookupPrefix string | LookupAmbiguous "string list" | LookupNone

definition prefix_matches :: "string \<Rightarrow> 'p approvals \<Rightarrow> string list" where
  "prefix_matches lowerPrefix s = map fst (filter (\<lambda>(i, e). ap_resolvedAtMs (pe_record e) = None \<and>
     js_starts_with (normalizeLowercaseStringOrEmpty (Some i)) lowerPrefix) (em_pending s))"

definition lookupPendingId :: "string \<Rightarrow> 'p approvals \<Rightarrow> id_lookup" where
  "lookupPendingId input s =
     (let normalized = js_trim input in
      if normalized = [] then LookupNone
      else case jm_get (em_pending s) normalized of
          Some exact \<Rightarrow> if ap_resolvedAtMs (pe_record exact) = None then LookupExact normalized else LookupNone
        | None \<Rightarrow> (case prefix_matches (normalizeLowercaseStringOrEmpty (Some normalized)) s of
              [] \<Rightarrow> LookupNone
            | [i] \<Rightarrow> LookupPrefix i
            | is \<Rightarrow> LookupAmbiguous is))"

section \<open>Events\<close>

text \<open>Timers: an armed expiry timer fires once; a grace timer deletes the entry if it is still the same.\<close>

definition timerFires :: "nat \<Rightarrow> string \<Rightarrow> int \<Rightarrow> 'p approvals \<Rightarrow> 'p approvals" where
  "timerFires promise recordId now s =
     snd (expireApproval recordId None now (s\<lparr>em_timers := filter (\<lambda>t. fst t \<noteq> promise) (em_timers s)\<rparr>))"

definition graceEnds :: "string \<Rightarrow> nat \<Rightarrow> 'p approvals \<Rightarrow> 'p approvals" where
  "graceEnds recordId promise s =
     (let s1 = s\<lparr>em_grace := remove1 (recordId, promise) (em_grace s)\<rparr> in
      if map_option pe_promise (jm_get (em_pending s) recordId) = Some promise
      then s1\<lparr>em_pending := jm_delete recordId (em_pending s)\<rparr> else s1)"

datatype 'p approval_event =
    Register "'p approval_record"
  | Resolve string approval_decision "string option" int
  | Expire string "string option" int
  | TimerFired nat string int
  | GraceEnded string nat
  | Consume string

fun approval_step :: "'p approvals \<Rightarrow> 'p approval_event \<Rightarrow> 'p approvals" where
  "approval_step s (Register rec) = snd (registerApproval rec s)"
| "approval_step s (Resolve i d by now) = snd (resolveApproval i d by now s)"
| "approval_step s (Expire i by now) = snd (expireApproval i by now s)"
| "approval_step s (TimerFired p i now) = timerFires p i now s"
| "approval_step s (GraceEnded i p) = graceEnds i p s"
| "approval_step s (Consume i) = snd (consumeAllowOnce i s)"

text \<open>Callers register what \<open>create\<close> made: a record without a decision.\<close>

fun approval_enabled :: "'p approvals \<Rightarrow> 'p approval_event \<Rightarrow> bool" where
  "approval_enabled s (Register rec) \<longleftrightarrow> ap_resolvedAtMs rec = None \<and> ap_decision rec = None"
| "approval_enabled s (TimerFired p i now) \<longleftrightarrow> (p, i) \<in> set (em_timers s)"
| "approval_enabled s (GraceEnded i p) \<longleftrightarrow> (i, p) \<in> set (em_grace s)"
| "approval_enabled s e \<longleftrightarrow> True"


section \<open>Invariant\<close>

abbreviation unresolved :: "'p pending_entry \<Rightarrow> bool" where
  "unresolved e \<equiv> ap_resolvedAtMs (pe_record e) = None"

definition entries_ok :: "'p approvals \<Rightarrow> bool" where
  "entries_ok s \<longleftrightarrow> jm_ok (em_pending s) \<and>
     (\<forall>i e. jm_get (em_pending s) i = Some e \<longrightarrow> pe_promise e < em_next s) \<and>
     (\<forall>i j e f. jm_get (em_pending s) i = Some e \<longrightarrow> jm_get (em_pending s) j = Some f \<longrightarrow>
        pe_promise e = pe_promise f \<longrightarrow> i = j)"

definition timers_ok :: "'p approvals \<Rightarrow> bool" where
  "timers_ok s \<longleftrightarrow> distinct (em_timers s) \<and>
     (\<forall>p i. (p, i) \<in> set (em_timers s) \<longleftrightarrow>
        (\<exists>e. jm_get (em_pending s) i = Some e \<and> pe_promise e = p \<and> unresolved e))"

definition promises_ok :: "'p approvals \<Rightarrow> bool" where
  "promises_ok s \<longleftrightarrow> distinct (map fst (em_settled s)) \<and>
     set (map fst (em_settled s)) = {p. p < em_next s \<and> p \<notin> fst ` set (em_timers s)}"

definition consumed_ok :: "'p approvals \<Rightarrow> bool" where
  "consumed_ok s \<longleftrightarrow> distinct (em_consumed s) \<and>
     (\<forall>p \<in> set (em_consumed s). (p, Some AllowOnce) \<in> set (em_settled s)) \<and>
     (\<forall>i e. jm_get (em_pending s) i = Some e \<longrightarrow> ap_decision (pe_record e) = Some AllowOnce \<longrightarrow>
        \<not> unresolved e \<and> (pe_promise e, Some AllowOnce) \<in> set (em_settled s) \<and> pe_promise e \<notin> set (em_consumed s)) \<and>
     (\<forall>i e. jm_get (em_pending s) i = Some e \<longrightarrow> unresolved e \<longrightarrow> ap_decision (pe_record e) = None)"

definition grace_ok :: "'p approvals \<Rightarrow> bool" where
  "grace_ok s \<longleftrightarrow> snd ` set (em_grace s) \<subseteq> fst ` set (em_settled s) \<and>
     (\<forall>i e. jm_get (em_pending s) i = Some e \<longrightarrow> \<not> unresolved e \<longrightarrow> (i, pe_promise e) \<in> set (em_grace s))"

definition approval_inv :: "'p approvals \<Rightarrow> bool" where
  "approval_inv s \<longleftrightarrow> entries_ok s \<and> timers_ok s \<and> promises_ok s \<and> consumed_ok s \<and> grace_ok s"

lemmas approval_inv_defs = approval_inv_def entries_ok_def timers_ok_def promises_ok_def consumed_ok_def grace_ok_def

lemma approval_inv_init: "approval_inv no_approvals"
  by (simp add: approval_inv_defs no_approvals_def)

lemma timer_promise_fresh: "approval_inv s \<Longrightarrow> p \<in> fst ` set (em_timers s) \<Longrightarrow> p < em_next s"
  by (auto simp: approval_inv_def timers_ok_def entries_ok_def)

lemma settled_promise_fresh: "promises_ok s \<Longrightarrow> (p, d) \<in> set (em_settled s) \<Longrightarrow> p < em_next s \<and> p \<notin> fst ` set (em_timers s)"
proof -
  assume ok: "promises_ok s" and m: "(p, d) \<in> set (em_settled s)"
  from m have "p \<in> set (map fst (em_settled s))" by force
  then show ?thesis using ok unfolding promises_ok_def by auto
qed

lemma register_inv:
  assumes inv: "approval_inv s" and new: "jm_get (em_pending s) (ap_id rec) = None"
    and rec: "ap_resolvedAtMs rec = None" "ap_decision rec = None"
  shows "approval_inv (snd (registerApproval rec s))"
proof -
  let ?n = "em_next s" and ?e = "\<lparr>pe_record = rec, pe_promise = em_next s\<rparr>"
  let ?s = "s\<lparr>em_next := Suc ?n, em_timers := em_timers s @ [(?n, ap_id rec)],
     em_pending := jm_set (ap_id rec) ?e (em_pending s)\<rparr>"
  have less: "pe_promise e < ?n" if "jm_get (em_pending s) i = Some e" for i e
    using inv that by (auto simp: approval_inv_def entries_ok_def)
  have fresh: "?n \<notin> fst ` set (em_timers s)" using timer_promise_fresh [OF inv] by auto
  have "entries_ok ?s"
    using inv less by (fastforce simp: approval_inv_def entries_ok_def less_Suc_eq)
  moreover have "timers_ok ?s"
    using inv less new rec fresh unfolding approval_inv_def timers_ok_def
    by (auto simp: image_iff)
  moreover have "promises_ok ?s"
    using inv fresh by (auto simp: approval_inv_def promises_ok_def)
  moreover have "consumed_ok ?s"
    using inv rec by (auto simp: approval_inv_def consumed_ok_def)
  moreover have "grace_ok ?s"
    using inv rec by (auto simp: approval_inv_def grace_ok_def)
  ultimately show ?thesis
    by (simp add: approval_inv_def registerApproval_def new Let_def)
qed


lemma settle_approval_inv:
  assumes inv: "approval_inv s" shows "approval_inv (snd (settleApproval i d by now s))"
proof (cases "\<exists>e. jm_get (em_pending s) i = Some e \<and> unresolved e")
  case True
  then obtain e where e: "jm_get (em_pending s) i = Some e" "unresolved e" by blast
  let ?p = "pe_promise e"
  let ?e = "e\<lparr>pe_record := (pe_record e)\<lparr>ap_resolvedAtMs := Some now, ap_decision := d, ap_resolvedBy := by\<rparr>\<rparr>"
  let ?s = "s\<lparr>em_timers := filter (\<lambda>t. fst t \<noteq> ?p) (em_timers s), em_pending := jm_set i ?e (em_pending s),
     em_settled := em_settled s @ [(?p, d)], em_grace := em_grace s @ [(i, ?p)]\<rparr>"
  have same: "j = i" if "jm_get (em_pending s) j = Some f" "pe_promise f = ?p" for j f
    using inv e that unfolding approval_inv_def entries_ok_def by blast
  have armed: "(?p, i) \<in> set (em_timers s)" using inv e by (auto simp: approval_inv_def timers_ok_def)
  then have unsettled: "(?p, d') \<notin> set (em_settled s)" for d'
    using inv settled_promise_fresh by (force simp: approval_inv_def)
  have less: "?p < em_next s" using inv e by (auto simp: approval_inv_def entries_ok_def)
  have "entries_ok ?s"
    using inv same e less by (auto simp: approval_inv_def entries_ok_def split: if_splits)
  moreover have "timers_ok ?s"
  proof -
    have T: "(p, j) \<in> set (em_timers s) \<longleftrightarrow> (\<exists>f. jm_get (em_pending s) j = Some f \<and> pe_promise f = p \<and> unresolved f)" for p j
      using inv by (simp add: approval_inv_def timers_ok_def)
    have "(p, j) \<in> set (em_timers ?s) \<longleftrightarrow> (\<exists>f. jm_get (em_pending ?s) j = Some f \<and> pe_promise f = p \<and> unresolved f)" for p j
    proof (cases "j = i")
      case True
      with e show ?thesis by (simp add: T)
    next
      case False
      with same show ?thesis by (auto simp: T)
    qed
    moreover have "distinct (em_timers ?s)" using inv by (simp add: approval_inv_def timers_ok_def)
    ultimately show ?thesis unfolding timers_ok_def by blast
  qed
  moreover have "promises_ok ?s"
  proof -
    have T: "fst ` set (filter (\<lambda>t. fst t \<noteq> ?p) (em_timers s)) = fst ` set (em_timers s) - {?p}" by auto
    have "fst ` set (em_settled s) = {p. p < em_next s \<and> p \<notin> fst ` set (em_timers s)}"
      using inv by (simp add: approval_inv_def promises_ok_def)
    then have "insert ?p (fst ` set (em_settled s)) = {p. p < em_next s \<and> p \<notin> fst ` set (em_timers s) - {?p}}"
      using less by auto
    moreover have "?p \<notin> fst ` set (em_settled s)" using unsettled by auto
    ultimately show ?thesis
      using inv by (simp add: promises_ok_def approval_inv_def T del: set_filter)
  qed
  moreover have "consumed_ok ?s"
    using inv same unsettled by (auto simp: approval_inv_def consumed_ok_def split: if_splits)
  moreover have "grace_ok ?s"
    using inv by (auto simp: approval_inv_def grace_ok_def)
  ultimately show ?thesis
    using e by (simp add: approval_inv_def settleApproval_def)
next
  case False
  with inv show ?thesis by (auto simp: settleApproval_def split: option.split)
qed

lemma timerFires_expire:
  assumes "approval_inv s" "(p, i) \<in> set (em_timers s)"
  shows "timerFires p i now s = snd (expireApproval i None now s)"
proof -
  from assms obtain e where "jm_get (em_pending s) i = Some e" "pe_promise e = p" "unresolved e"
    by (auto simp: approval_inv_def timers_ok_def)
  then show ?thesis by (simp add: timerFires_def expireApproval_def settleApproval_def)
qed

lemma consume_inv:
  assumes inv: "approval_inv s" shows "approval_inv (snd (consumeAllowOnce i s))"
proof (cases "\<exists>e. jm_get (em_pending s) i = Some e \<and> ap_decision (pe_record e) = Some AllowOnce")
  case True
  then obtain e where e: "jm_get (em_pending s) i = Some e" "ap_decision (pe_record e) = Some AllowOnce" by blast
  let ?e = "e\<lparr>pe_record := (pe_record e)\<lparr>ap_decision := None\<rparr>\<rparr>"
  let ?s = "s\<lparr>em_pending := jm_set i ?e (em_pending s), em_consumed := em_consumed s @ [pe_promise e]\<rparr>"
  have c: "\<not> unresolved e" "(pe_promise e, Some AllowOnce) \<in> set (em_settled s)" "pe_promise e \<notin> set (em_consumed s)"
    using inv e by (auto simp: approval_inv_def consumed_ok_def)
  have same: "j = i" if "jm_get (em_pending s) j = Some f" "pe_promise f = pe_promise e" for j f
    using inv e that unfolding approval_inv_def entries_ok_def by blast
  have "entries_ok ?s"
    using inv same e by (auto simp: approval_inv_def entries_ok_def split: if_splits)
  moreover have "timers_ok ?s"
    using inv c e by (auto simp: approval_inv_def timers_ok_def)
  moreover have "promises_ok ?s" using inv by (simp add: approval_inv_def promises_ok_def)
  moreover have "consumed_ok ?s"
    using inv same c by (auto simp: approval_inv_def consumed_ok_def split: if_splits)
  moreover have "grace_ok ?s"
    using inv e by (auto simp: approval_inv_def grace_ok_def)
  ultimately show ?thesis
    using e by (simp add: approval_inv_def consumeAllowOnce_def)
next
  case False
  with inv show ?thesis by (auto simp: consumeAllowOnce_def split: option.split)
qed


lemma less_grace: "approval_inv s \<Longrightarrow> snd ` set (remove1 g (em_grace s)) \<subseteq> fst ` set (em_settled s)"
  unfolding approval_inv_def grace_ok_def by (meson image_mono order_trans set_remove1_subset)

lemma grace_inv:
  assumes inv: "approval_inv s" and due: "(i, p) \<in> set (em_grace s)" shows "approval_inv (graceEnds i p s)"
proof (cases "\<exists>e. jm_get (em_pending s) i = Some e \<and> pe_promise e = p")
  case True
  then obtain e where e: "jm_get (em_pending s) i = Some e" "pe_promise e = p" by blast
  have "p \<in> fst ` set (em_settled s)" using inv due by (force simp: approval_inv_def grace_ok_def)
  then have "p \<notin> fst ` set (em_timers s)" using inv settled_promise_fresh by (force simp: approval_inv_def)
  then have res: "\<not> unresolved e" using inv e by (force simp: approval_inv_def timers_ok_def)
  let ?s = "s\<lparr>em_grace := remove1 (i, p) (em_grace s), em_pending := jm_delete i (em_pending s)\<rparr>"
  have "entries_ok ?s"
    using inv by (auto simp: approval_inv_def entries_ok_def split: if_splits)
  moreover have "timers_ok ?s"
    using inv res e by (auto simp: approval_inv_def timers_ok_def)
  moreover have "promises_ok ?s" using inv by (simp add: approval_inv_def promises_ok_def)
  moreover have "consumed_ok ?s"
    using inv by (auto simp: approval_inv_def consumed_ok_def split: if_splits)
  moreover have "grace_ok ?s"
    using inv less_grace [OF inv] by (auto simp: approval_inv_def grace_ok_def split: if_splits)
  ultimately show ?thesis
    using e by (simp add: approval_inv_def graceEnds_def Let_def)
next
  case False
  let ?s = "s\<lparr>em_grace := remove1 (i, p) (em_grace s)\<rparr>"
  have "grace_ok ?s"
    unfolding grace_ok_def
  proof (intro conjI allI impI)
    fix j f assume f: "jm_get (em_pending ?s) j = Some f" "\<not> unresolved f"
    then have "(j, pe_promise f) \<noteq> (i, p)" using False by auto
    moreover have "(j, pe_promise f) \<in> set (em_grace s)"
      using inv f unfolding approval_inv_def grace_ok_def by simp
    ultimately show "(j, pe_promise f) \<in> set (em_grace ?s)" by simp
  qed (use less_grace [OF inv] in simp)
  with inv have "approval_inv ?s"
    by (simp add: approval_inv_def entries_ok_def timers_ok_def promises_ok_def consumed_ok_def)
  moreover have "graceEnds i p s = ?s"
    using False by (auto simp: graceEnds_def Let_def)
  ultimately show ?thesis by simp
qed

lemma register_existing: "jm_get (em_pending s) (ap_id rec) \<noteq> None \<Longrightarrow> snd (registerApproval rec s) = s"
  by (auto simp: registerApproval_def)

lemma approval_inv_step: "approval_inv s \<Longrightarrow> approval_enabled s e \<Longrightarrow> approval_inv (approval_step s e)"
proof (cases e)
  case (Register rec)
  assume "approval_inv s" "approval_enabled s e"
  then show ?thesis
    using register_inv [of s rec] register_existing [of s rec]
    by (cases "jm_get (em_pending s) (ap_id rec)") (simp_all add: Register)
qed (auto intro: settle_approval_inv consume_inv grace_inv simp: resolveApproval_def expireApproval_def timerFires_expire)

interpretation approval_machine: event_machine no_approvals approval_enabled approval_step approval_inv
  by (rule event_machine.intro) (rule approval_inv_init, rule approval_inv_step)


section \<open>Properties\<close>

text \<open>A run: one approval is allowed once and consumed, another expires, a third is still pending.\<close>

definition sample_approval :: "string \<Rightarrow> unit approval_record" where
  "sample_approval i = createApproval () 1000 (Some i) ''uuid'' 0"

definition sample_events :: "unit approval_event list" where
  "sample_events = [Register (sample_approval ''ab12''), Register (sample_approval ''ab34''), Register (sample_approval ''Ab56''),
     Resolve ''ab12'' AllowOnce None 10, Consume ''ab12'', TimerFired 1 ''ab34'' 1000, Resolve ''ab34'' AllowAlways None 1001]"

definition sample_approvals :: "unit approvals" where
  "sample_approvals = foldl approval_step no_approvals sample_events"

lemma sample_approvals_reach: "reach no_approvals approval_enabled approval_step sample_approvals"
  unfolding sample_approvals_def by (rule reach_from_init) code_simp

text \<open>C34: an approval for one command is used at most once: in every reachable state the consumed approvals
  are pairwise distinct and each was resolved with \<open>allow-once\<close>, and right after an approval was consumed, neither
  another consumption nor another resolution of the same id is accepted.\<close>

theorem approval_allow_once_single_use:
  assumes "reach no_approvals approval_enabled approval_step s"
  shows "distinct (em_consumed s) \<and> (\<forall>p \<in> set (em_consumed s). (p, Some AllowOnce) \<in> set (em_settled s)) \<and>
    (let (consumed, s1) = consumeAllowOnce i s in
       consumed \<longrightarrow> \<not> fst (consumeAllowOnce i s1) \<and> \<not> fst (resolveApproval i d by now s1))"
proof -
  have inv: "approval_inv s" by (rule approval_machine.inv_reach [OF assms])
  then have c: "consumed_ok s" by (simp add: approval_inv_def)
  have "\<not> fst (consumeAllowOnce i s1) \<and> \<not> fst (resolveApproval i d by now s1)"
    if "consumeAllowOnce i s = (True, s1)" for s1
    using that c by (auto simp: consumeAllowOnce_def resolveApproval_def settleApproval_def consumed_ok_def
        split: option.splits if_splits)
  with c show ?thesis by (auto simp: consumed_ok_def split: prod.split)
qed

theorem approval_allow_once_single_use_witness:
  "em_consumed sample_approvals = [0] \<and> (\<exists>p. p \<in> set (em_consumed sample_approvals) \<and> (p, Some AllowOnce) \<in> set (em_settled sample_approvals))"
proof -
  have "em_consumed sample_approvals = [0]" by code_simp
  with approval_allow_once_single_use [OF sample_approvals_reach] show ?thesis by auto
qed

text \<open>C35: every waiter gets exactly one answer: in every reachable state a promise handed out is settled
  exactly once if its expiry timer is no longer armed and not yet otherwise, its timer is armed exactly while its
  record is registered and undecided, and every decided record still registered has its removal scheduled.\<close>

theorem approval_promise_settles_once:
  assumes "reach no_approvals approval_enabled approval_step s" "p < em_next s"
  shows "count_list (map fst (em_settled s)) p = (if p \<in> fst ` set (em_timers s) then 0 else 1) \<and>
    ((p, i) \<in> set (em_timers s) \<longleftrightarrow> (\<exists>e. jm_get (em_pending s) i = Some e \<and> pe_promise e = p \<and>
       ap_resolvedAtMs (pe_record e) = None)) \<and>
    (case jm_get (em_pending s) i of None \<Rightarrow> True
     | Some e \<Rightarrow> ap_resolvedAtMs (pe_record e) = None \<or> (i, pe_promise e) \<in> set (em_grace s))"
proof -
  have inv: "approval_inv s" by (rule approval_machine.inv_reach [OF assms(1)])
  then have p: "promises_ok s" and t: "timers_ok s" and g: "grace_ok s" by (simp_all add: approval_inv_def)
  have "count_list (map fst (em_settled s)) p = (if p \<in> set (map fst (em_settled s)) then 1 else 0)"
    using p by (simp add: promises_ok_def distinct_count_atmost_1 count_mset [symmetric])
  moreover have "p \<in> set (map fst (em_settled s)) \<longleftrightarrow> p \<notin> fst ` set (em_timers s)"
    using p assms(2) unfolding promises_ok_def by simp
  ultimately show ?thesis
    using t g by (auto simp: timers_ok_def grace_ok_def split: option.split)
qed

theorem approval_promise_settles_once_witness:
  "count_list (map fst (em_settled sample_approvals)) 1 = 1 \<and> (1 :: nat) < em_next sample_approvals"
proof -
  have a: "1 < em_next sample_approvals" "fst ` set (em_timers sample_approvals) = {2}" by code_simp+
  with approval_promise_settles_once [OF sample_approvals_reach a(1)] show ?thesis by simp
qed

text \<open>an approval id typed by a person names at most one pending approval: an exact id wins, a prefix is
  taken only when it is a case-insensitive prefix of exactly one undecided id, every undecided id with that prefix
  is reported when there are more, and a decided approval is never found.\<close>

theorem approval_lookup_unambiguous:
  assumes "reach no_approvals approval_enabled approval_step s"
  shows "let n = js_trim input;
      pendingId = (\<lambda>i. \<exists>e. jm_get (em_pending s) i = Some e \<and> ap_resolvedAtMs (pe_record e) = None);
      matching = {i. pendingId i \<and> js_starts_with (js_lower (js_trim i)) (js_lower n)} in
    case lookupPendingId input s of
      LookupExact i \<Rightarrow> i = n \<and> pendingId i
    | LookupPrefix i \<Rightarrow> matching = {i} \<and> jm_get (em_pending s) n = None
    | LookupAmbiguous is \<Rightarrow> set is = matching \<and> distinct is \<and> 2 \<le> length is
    | LookupNone \<Rightarrow> n = [] \<or> matching = {} \<or> jm_get (em_pending s) n \<noteq> None \<and> \<not> pendingId n"
proof -
  have ok: "jm_ok (em_pending s)"
    using approval_machine.inv_reach [OF assms] by (simp add: approval_inv_def entries_ok_def)
  let ?m = "prefix_matches (js_lower (js_trim input)) s"
  have m: "set ?m = {i. (\<exists>e. jm_get (em_pending s) i = Some e \<and> ap_resolvedAtMs (pe_record e) = None) \<and>
      js_starts_with (js_lower (js_trim i)) (js_lower (js_trim input))}"
    using jm_get_iff [OF ok] by (force simp: prefix_matches_def)
  have d: "distinct ?m" using ok by (simp add: prefix_matches_def distinct_map_filter)
  show ?thesis
    unfolding Let_def m [symmetric]
    using d by (auto simp: lookupPendingId_def Let_def split: option.split list.split)
qed

theorem approval_lookup_unambiguous_witness:
  "lookupPendingId '' AB5 '' sample_approvals = LookupPrefix ''Ab56'' \<and>
   {i. (\<exists>e. jm_get (em_pending sample_approvals) i = Some e \<and> ap_resolvedAtMs (pe_record e) = None) \<and>
      js_starts_with (js_lower (js_trim i)) (js_lower (js_trim '' AB5 ''))} = {''Ab56''}"
proof -
  have l: "lookupPendingId '' AB5 '' sample_approvals = LookupPrefix ''Ab56''" by code_simp
  from approval_lookup_unambiguous [OF sample_approvals_reach, of "'' AB5 ''"] show ?thesis
    unfolding l Let_def id_lookup.case by blast
qed

end
