(* ===== verification/ExecAllowlist.thy ===== *)
theory ExecAllowlist
  imports JsPrelude
begin

text \<open>
  Allowlist patterns of host commands: \<open>infra/exec-allowlist-pattern.ts\<close>, \<open>expandHomePrefix\<close> of
  \<open>infra/home-dir.ts\<close>, and \<open>matchArgPattern\<close> and \<open>matchAllowlist\<close> of
  \<open>infra/exec-command-resolution.ts\<close>. A glob is compiled to a regular expression, which is cached; the
  meaning of a glob is the inductive relation \<open>glob\<close>, and the first lemmas show that the compiled
  expression accepts exactly that. \<open>matchAllowlist\<close> scans the entries once; it is proved equal to a
  choice between the declarative predicates \<open>bare_wildcard\<close>, \<open>args_grant\<close> and \<open>path_grant\<close>.

  Parameters: \<open>realpath\<close> is \<open>fs.realpathSync\<close> (\<open>None\<close> when it throws), \<open>regex\<close> is
  \<open>RegExp(pattern).test\<close> on a pattern of the configuration (\<open>None\<close> when the pattern does not parse), the
  home directory is the result of \<open>resolveEffectiveHomeDir\<close>.
\<close>

abbreviation slash :: char where "slash \<equiv> CHR ''/''"
abbreviation bslash :: char where "bslash \<equiv> CHR 0x5C"
abbreviation star :: char where "star \<equiv> CHR ''*''"
abbreviation qmark :: char where "qmark \<equiv> CHR ''?''"

record exec_env =
  env_platform :: string
  env_home :: "string option"
  env_realpath :: "string \<Rightarrow> string option"

definition is_win32 :: "exec_env \<Rightarrow> bool" where
  "is_win32 env \<longleftrightarrow> env_platform env = ''win32''"

section \<open>Globs\<close>

definition expandHomePrefix :: "string option \<Rightarrow> string \<Rightarrow> string" where
  "expandHomePrefix home input =
     (if \<not> js_starts_with input ''~'' then input
      else case home of None \<Rightarrow> input
        | Some h \<Rightarrow> if tl input = [] \<or> hd (tl input) = bslash \<or> hd (tl input) = slash then h @ tl input else input)"

fun replace_double_backslash :: "string \<Rightarrow> string" where
  "replace_double_backslash (a # b # r) =
     (if a = bslash \<and> b = bslash then slash # replace_double_backslash r else a # replace_double_backslash (b # r))"
| "replace_double_backslash s = s"

definition replace_backslash :: "string \<Rightarrow> string" where
  "replace_backslash s = map (\<lambda>c. if c = bslash then slash else c) s"

definition strip_device_prefix :: "string \<Rightarrow> string" where
  "strip_device_prefix v =
     (if take 4 v \<in> {[bslash, bslash, qmark, bslash], [bslash, bslash, CHR ''.'', bslash]} then drop 4 v else v)"

definition normalizeMatchTarget :: "exec_env \<Rightarrow> string \<Rightarrow> string" where
  "normalizeMatchTarget env v =
     (if is_win32 env then normalizeLowercaseStringOrEmpty (Some (replace_backslash (strip_device_prefix v)))
      else replace_double_backslash v)"

text \<open>The pieces of the compiled expression: \<open>.*\<close>, \<open>[^/]*\<close>, \<open>[^/]\<close> and an escaped literal.\<close>

datatype rx = AnyStar | SegStar | SegChar | Lit char

function globRegex :: "string \<Rightarrow> rx list" where
  "globRegex [] = []"
| "globRegex (c # r) =
     (if c = star then (if r \<noteq> [] \<and> hd r = star then AnyStar # globRegex (tl r) else SegStar # globRegex r)
      else if c = qmark then SegChar # globRegex r
      else Lit c # globRegex r)"
  by pat_completeness auto
termination by (relation "measure length") auto

definition GLOB_REGEX_CACHE_LIMIT :: nat where "GLOB_REGEX_CACHE_LIMIT = 512"

definition compileGlobRegex ::
  "exec_env \<Rightarrow> (string, rx list) jsmap \<Rightarrow> string \<Rightarrow> rx list \<times> (string, rx list) jsmap" where
  "compileGlobRegex env cache pattern =
     (let cacheKey = env_platform env @ '':'' @ pattern in
      case jm_get cache cacheKey of
        Some cached \<Rightarrow> (cached, cache)
      | None \<Rightarrow>
          (let compiled = globRegex pattern;
               cache1 = (if GLOB_REGEX_CACHE_LIMIT \<le> length cache then [] else cache)
           in (compiled, jm_set cacheKey compiled cache1)))"

text \<open>
  What \<open>RegExp.test\<close> does with \<open>^...$\<close> without the flag \<open>m\<close>: the pieces consume the whole string.
  The dot matches no line terminator; the flag \<open>i\<close> compares without case.
\<close>

definition char_eq :: "bool \<Rightarrow> char \<Rightarrow> char \<Rightarrow> bool" where
  "char_eq ci c d \<longleftrightarrow> (if ci then js_lower_char c = js_lower_char d else c = d)"

definition line_end :: "char \<Rightarrow> bool" where
  "line_end c \<longleftrightarrow> c = CHR 0x0A \<or> c = CHR 0x0D"

fun rx_test :: "bool \<Rightarrow> rx list \<Rightarrow> string \<Rightarrow> bool" where
  "rx_test ci [] s \<longleftrightarrow> s = []"
| "rx_test ci (Lit c # r) [] \<longleftrightarrow> False"
| "rx_test ci (Lit c # r) (x # s) \<longleftrightarrow> char_eq ci c x \<and> rx_test ci r s"
| "rx_test ci (SegChar # r) [] \<longleftrightarrow> False"
| "rx_test ci (SegChar # r) (x # s) \<longleftrightarrow> x \<noteq> slash \<and> rx_test ci r s"
| "rx_test ci (SegStar # r) [] \<longleftrightarrow> rx_test ci r []"
| "rx_test ci (SegStar # r) (x # s) \<longleftrightarrow> rx_test ci r (x # s) \<or> x \<noteq> slash \<and> rx_test ci (SegStar # r) s"
| "rx_test ci (AnyStar # r) [] \<longleftrightarrow> rx_test ci r []"
| "rx_test ci (AnyStar # r) (x # s) \<longleftrightarrow> rx_test ci r (x # s) \<or> \<not> line_end x \<and> rx_test ci (AnyStar # r) s"

definition matchesExecAllowlistPattern :: "exec_env \<Rightarrow> string \<Rightarrow> string \<Rightarrow> bool" where
  "matchesExecAllowlistPattern env pattern target =
     (let trimmed = js_trim pattern in
      if trimmed = [] then False
      else
        let expanded = (if js_starts_with trimmed ''~'' then expandHomePrefix (env_home env) trimmed else trimmed);
            hasWildcard = list_ex (\<lambda>c. c = star \<or> c = qmark) expanded;
            real = is_win32 env \<and> \<not> hasWildcard;
            pattern1 = (if real then js_nullish (env_realpath env expanded) expanded else expanded);
            target1 = (if real then js_nullish (env_realpath env target) target else target)
        in rx_test (is_win32 env) (globRegex (normalizeMatchTarget env pattern1)) (normalizeMatchTarget env target1))"

subsection \<open>The meaning of a glob\<close>

inductive glob :: "bool \<Rightarrow> string \<Rightarrow> string \<Rightarrow> bool" for ci :: bool where
  glob_end: "glob ci [] []"
| glob_lit: "c \<noteq> star \<Longrightarrow> c \<noteq> qmark \<Longrightarrow> char_eq ci c x \<Longrightarrow> glob ci p s \<Longrightarrow> glob ci (c # p) (x # s)"
| glob_one: "x \<noteq> slash \<Longrightarrow> glob ci p s \<Longrightarrow> glob ci (qmark # p) (x # s)"
| glob_seg: "slash \<notin> set u \<Longrightarrow> p = [] \<or> hd p \<noteq> star \<Longrightarrow> glob ci p s \<Longrightarrow> glob ci (star # p) (u @ s)"
| glob_any: "\<not> list_ex line_end u \<Longrightarrow> glob ci p s \<Longrightarrow> glob ci (star # star # p) (u @ s)"

lemma rx_seg_star: "rx_test ci (SegStar # r) s \<longleftrightarrow> (\<exists>u v. s = u @ v \<and> slash \<notin> set u \<and> rx_test ci r v)"
proof (induction s)
  case (Cons x s)
  show ?case
  proof
    assume "rx_test ci (SegStar # r) (x # s)"
    then consider "rx_test ci r (x # s)" | "x \<noteq> slash" "rx_test ci (SegStar # r) s" by auto
    then show "\<exists>u v. x # s = u @ v \<and> slash \<notin> set u \<and> rx_test ci r v"
    proof cases
      case 1
      then show ?thesis by (intro exI [of _ "[]"] exI [of _ "x # s"]) simp
    next
      case 2
      then obtain u v where "s = u @ v" "slash \<notin> set u" "rx_test ci r v" using Cons.IH by auto
      with 2 show ?thesis by (intro exI [of _ "x # u"] exI [of _ v]) auto
    qed
  next
    assume "\<exists>u v. x # s = u @ v \<and> slash \<notin> set u \<and> rx_test ci r v"
    then obtain u v where uv: "x # s = u @ v" "slash \<notin> set u" "rx_test ci r v" by auto
    then show "rx_test ci (SegStar # r) (x # s)"
      using Cons.IH by (cases u) auto
  qed
qed simp

lemma rx_any_star: "rx_test ci (AnyStar # r) s \<longleftrightarrow> (\<exists>u v. s = u @ v \<and> \<not> list_ex line_end u \<and> rx_test ci r v)"
proof (induction s)
  case (Cons x s)
  show ?case
  proof
    assume "rx_test ci (AnyStar # r) (x # s)"
    then consider "rx_test ci r (x # s)" | "\<not> line_end x" "rx_test ci (AnyStar # r) s" by auto
    then show "\<exists>u v. x # s = u @ v \<and> \<not> list_ex line_end u \<and> rx_test ci r v"
    proof cases
      case 1
      then show ?thesis by (intro exI [of _ "[]"] exI [of _ "x # s"]) simp
    next
      case 2
      then obtain u v where "s = u @ v" "\<not> list_ex line_end u" "rx_test ci r v" using Cons.IH by auto
      with 2 show ?thesis by (intro exI [of _ "x # u"] exI [of _ v]) auto
    qed
  next
    assume "\<exists>u v. x # s = u @ v \<and> \<not> list_ex line_end u \<and> rx_test ci r v"
    then obtain u v where "x # s = u @ v" "\<not> list_ex line_end u" "rx_test ci r v" by auto
    then show "rx_test ci (AnyStar # r) (x # s)"
      using Cons.IH by (cases u) auto
  qed
qed simp

lemma rx_lit: "rx_test ci (Lit c # r) s \<longleftrightarrow> (\<exists>x t. s = x # t \<and> char_eq ci c x \<and> rx_test ci r t)"
  by (cases s) auto

lemma rx_seg_char: "rx_test ci (SegChar # r) s \<longleftrightarrow> (\<exists>x t. s = x # t \<and> x \<noteq> slash \<and> rx_test ci r t)"
  by (cases s) auto

inductive_cases glob_NilE: "glob ci [] s"
inductive_cases glob_ConsE: "glob ci (c # p) s"

lemma glob_regex_complete: "glob ci p s \<Longrightarrow> rx_test ci (globRegex p) s"
proof (induction rule: glob.induct)
  case (glob_seg u p s)
  then have "globRegex (star # p) = SegStar # globRegex p" by auto
  with glob_seg show ?case by (auto simp: rx_seg_star simp del: globRegex.simps)
next
  case (glob_any u p s)
  then show ?case by (auto simp: rx_any_star)
qed (simp_all add: rx_lit rx_seg_char)

lemma glob_regex_sound: "rx_test ci (globRegex p) s \<Longrightarrow> glob ci p s"
proof (induction p arbitrary: s rule: globRegex.induct)
  case 1
  then show ?case by (simp add: glob_end)
next
  case (2 c r)
  consider (any) r' where "c = star" "r = star # r'" | (seg) "c = star" "r = [] \<or> hd r \<noteq> star"
    | (one) "c = qmark" | (lit) "c \<noteq> star" "c \<noteq> qmark"
    by (cases r) auto
  then show ?case
  proof cases
    case any
    then have "rx_test ci (AnyStar # globRegex r') s" using "2.prems" by simp
    then obtain u v where "s = u @ v" "\<not> list_ex line_end u" "rx_test ci (globRegex r') v"
      by (auto simp: rx_any_star)
    with any "2.IH"(1) show ?thesis by (auto intro: glob_any)
  next
    case seg
    then have "rx_test ci (SegStar # globRegex r) s" using "2.prems" by auto
    then obtain u v where "s = u @ v" "slash \<notin> set u" "rx_test ci (globRegex r) v"
      by (auto simp: rx_seg_star)
    with seg "2.IH"(2) show ?thesis by (auto intro: glob_seg)
  next
    case one
    with "2.prems" have "rx_test ci (SegChar # globRegex r) s" by simp
    with one "2.IH"(3) show ?thesis by (auto simp: rx_seg_char intro: glob_one)
  next
    case lit
    with "2.prems" have "rx_test ci (Lit c # globRegex r) s" by simp
    with lit "2.IH"(4) show ?thesis by (auto simp: rx_lit intro: glob_lit)
  qed
qed

lemma glob_regex_correct: "rx_test ci (globRegex p) s \<longleftrightarrow> glob ci p s"
  using glob_regex_sound glob_regex_complete by blast

text \<open>Without \<open>**\<close> a glob fixes the number of path separators.\<close>

lemma lower_slash: "js_lower_char x = slash \<longleftrightarrow> x = slash"
  by (auto simp: js_lower_char_def Let_def split: if_splits
      dest!: arg_cong [of _ _ "of_char :: char \<Rightarrow> nat"])

lemma char_eq_slash: "char_eq ci c x \<Longrightarrow> c = slash \<longleftrightarrow> x = slash"
  by (metis char_eq_def lower_slash)

fun has_double_star :: "string \<Rightarrow> bool" where
  "has_double_star (a # b # r) \<longleftrightarrow> a = star \<and> b = star \<or> has_double_star (b # r)"
| "has_double_star s \<longleftrightarrow> False"

lemma has_double_star_tl: "has_double_star p \<Longrightarrow> has_double_star (c # p)"
  by (cases p) auto

lemma glob_same_depth: "glob ci p s \<Longrightarrow> \<not> has_double_star p \<Longrightarrow> count_list s slash = count_list p slash"
proof (induction rule: glob.induct)
  case (glob_lit c x p s)
  then show ?case using char_eq_slash [of ci c x] has_double_star_tl [of p c] by auto
next
  case (glob_seg u p s)
  then show ?case using has_double_star_tl [of p star] by (auto simp: count_notin)
qed (auto dest: has_double_star_tl)

subsection \<open>The cache\<close>

definition glob_cache_ok :: "exec_env \<Rightarrow> (string, rx list) jsmap \<Rightarrow> bool" where
  "glob_cache_ok env cache \<longleftrightarrow> length cache \<le> GLOB_REGEX_CACHE_LIMIT \<and>
     (\<forall>pattern r. jm_get cache (env_platform env @ '':'' @ pattern) = Some r \<longrightarrow> r = globRegex pattern)"

lemma compileGlobRegex_result:
  assumes "glob_cache_ok env cache"
  shows "fst (compileGlobRegex env cache pattern) = globRegex pattern"
  using assms by (auto simp: compileGlobRegex_def glob_cache_ok_def Let_def split: option.splits)

lemma compileGlobRegex_keeps:
  assumes "glob_cache_ok env cache"
  shows "glob_cache_ok env (snd (compileGlobRegex env cache pattern))"
proof (cases "jm_get cache (env_platform env @ '':'' @ pattern)")
  case None
  have len: "length (jm_set k v m) \<le> Suc (length m)" for k v and m :: "(string, rx list) jsmap"
    by (induction m) auto
  let ?c = "if GLOB_REGEX_CACHE_LIMIT \<le> length cache then [] else cache"
  have "length ?c < GLOB_REGEX_CACHE_LIMIT" using assms by (auto simp: GLOB_REGEX_CACHE_LIMIT_def)
  then have "length (jm_set k v ?c) \<le> GLOB_REGEX_CACHE_LIMIT" for k v
    using len [of k v ?c] by linarith
  moreover have "\<forall>p r. jm_get ?c (env_platform env @ '':'' @ p) = Some r \<longrightarrow> r = globRegex p"
    using assms by (auto simp: glob_cache_ok_def)
  ultimately show ?thesis
    using None by (auto simp: compileGlobRegex_def glob_cache_ok_def Let_def)
next
  case (Some r)
  with assms show ?thesis by (simp add: compileGlobRegex_def)
qed

interpretation glob_cache: memoised "\<lambda>_. True" globRegex "compileGlobRegex env" "[]" "glob_cache_ok env" for env
  by unfold_locales
    (simp_all add: compileGlobRegex_result compileGlobRegex_keeps, simp add: glob_cache_ok_def GLOB_REGEX_CACHE_LIMIT_def)

section \<open>Argument patterns\<close>

definition trim_end :: "string \<Rightarrow> string" where
  "trim_end s = rev (dropWhile js_ws (rev s))"

definition redirection_tokens :: "string list" where
  "redirection_tokens = [''1>&1'', ''1>&2'', ''2>&1'', ''2>&2'', ''1>/dev/null'', ''2>/dev/null'']"

definition ends_with_redirection :: "string \<Rightarrow> string \<Rightarrow> bool" where
  "ends_with_redirection t tok \<longleftrightarrow> length tok < length t \<and> drop (length t - length tok) t = tok
     \<and> js_ws (t ! (length t - length tok - 1))"

text \<open>One \<open>replace(TRAILING_SHELL_REDIRECTIONS_RE, "")\<close>: the white space before the token goes too.\<close>

definition strip_redirection :: "string \<Rightarrow> string" where
  "strip_redirection s = (let t = trim_end s in
     case find (ends_with_redirection t) redirection_tokens of
       None \<Rightarrow> s
     | Some tok \<Rightarrow> trim_end (take (length t - length tok) t))"

lemma length_trim_end: "length (trim_end s) \<le> length s"
  by (simp add: trim_end_def) (metis length_dropWhile_le length_rev)

lemma strip_redirection_shorter: "strip_redirection s \<noteq> s \<Longrightarrow> length (strip_redirection s) < length s"
proof -
  assume "strip_redirection s \<noteq> s"
  then obtain tok where tok: "find (ends_with_redirection (trim_end s)) redirection_tokens = Some tok"
    and eq: "strip_redirection s = trim_end (take (length (trim_end s) - length tok) (trim_end s))"
    by (auto simp: strip_redirection_def Let_def split: option.splits)
  from tok have "tok \<in> set redirection_tokens" "ends_with_redirection (trim_end s) tok"
    by (auto simp: find_Some_iff)
  then have "0 < length tok" "length tok < length (trim_end s)"
    by (auto simp: redirection_tokens_def ends_with_redirection_def)
  then show ?thesis
    using length_trim_end [of s] length_trim_end [of "take (length (trim_end s) - length tok) (trim_end s)"]
    unfolding eq length_take by linarith
qed

function stripTrailingRedirections :: "string \<Rightarrow> string" where
  "stripTrailingRedirections prev =
     (let next_value = strip_redirection prev in
      if next_value = prev then next_value else stripTrailingRedirections next_value)"
  by pat_completeness auto
termination by (relation "measure length") (auto simp: strip_redirection_shorter)

declare stripTrailingRedirections.simps [simp del]

definition is_windows_target :: "exec_env \<Rightarrow> string option \<Rightarrow> bool" where
  "is_windows_target env platform \<longleftrightarrow>
     js_starts_with (normalizeLowercaseStringOrEmpty (Some (js_nullish platform (env_platform env)))) ''win''"

definition matchArgPattern ::
  "exec_env \<Rightarrow> (string \<Rightarrow> (string \<Rightarrow> bool) option) \<Rightarrow> string \<Rightarrow> string list \<Rightarrow> string option \<Rightarrow> bool" where
  "matchArgPattern env regex argPattern argv platform =
     (let nul = CHR 0x00 \<in> set argPattern;
          argsSlice = drop 1 argv;
          argsString = (if nul then (if argsSlice = [] then [CHR 0x00, CHR 0x00]
                                     else join_with [CHR 0x00] argsSlice @ [CHR 0x00])
                        else join_with '' '' argsSlice);
          normalized = map (\<lambda>c. if c = slash then bslash else c) argsString;
          stripped = stripTrailingRedirections argsString
      in case regex argPattern of
           None \<Rightarrow> False
         | Some test \<Rightarrow>
             if test argsString then True
             else if is_windows_target env platform \<and> normalized \<noteq> argsString \<and> test normalized then True
             else \<not> nul \<and> stripped \<noteq> argsString \<and> test stripped)"

section \<open>Matching an executable against the allowlist\<close>

record allow_entry =
  al_id :: "string option"
  al_pattern :: string
  al_source :: "string option"
  al_commandText :: "string option"
  al_argPattern :: "string option"
  al_lastUsedAt :: "int option"
  al_lastUsedCommand :: "string option"
  al_lastResolvedPath :: "string option"

record exec_resolution =
  rawExecutable :: string
  executableName :: string
  resolvedPath :: "string option"

definition unrestricted_args :: "allow_entry \<Rightarrow> bool" where
  "unrestricted_args e \<longleftrightarrow> js_nullish (al_argPattern e) [] = []"

definition has_path :: "string \<Rightarrow> bool" where
  "has_path pattern \<longleftrightarrow> slash \<in> set pattern \<or> bslash \<in> set pattern \<or> CHR ''~'' \<in> set pattern"

fun scan_entries ::
  "exec_env \<Rightarrow> (string \<Rightarrow> (string \<Rightarrow> bool) option) \<Rightarrow> string \<Rightarrow> string list option \<Rightarrow> string option \<Rightarrow>
    allow_entry option \<Rightarrow> allow_entry list \<Rightarrow> allow_entry option" where
  "scan_entries env regex path argv platform pathOnlyMatch [] = pathOnlyMatch"
| "scan_entries env regex path argv platform pathOnlyMatch (entry # entries) =
     (let pattern = js_trim (al_pattern entry) in
      if pattern = [] then scan_entries env regex path argv platform pathOnlyMatch entries
      else if \<not> has_path pattern then scan_entries env regex path argv platform pathOnlyMatch entries
      else if \<not> matchesExecAllowlistPattern env pattern path
        then scan_entries env regex path argv platform pathOnlyMatch entries
      else if \<not> is_windows_target env platform then Some entry
      else if unrestricted_args entry
        then scan_entries env regex path argv platform
               (if pathOnlyMatch = None then Some entry else pathOnlyMatch) entries
      else case argv of
          Some av \<Rightarrow> if matchArgPattern env regex (js_nullish (al_argPattern entry) []) av platform then Some entry
                     else scan_entries env regex path argv platform pathOnlyMatch entries
        | None \<Rightarrow> scan_entries env regex path argv platform pathOnlyMatch entries)"

definition bare_wildcard :: "allow_entry \<Rightarrow> bool" where
  "bare_wildcard e \<longleftrightarrow> js_trim (al_pattern e) = [star] \<and> unrestricted_args e"

definition matchAllowlist ::
  "exec_env \<Rightarrow> (string \<Rightarrow> (string \<Rightarrow> bool) option) \<Rightarrow> allow_entry list \<Rightarrow> exec_resolution option \<Rightarrow>
    string list option \<Rightarrow> string option \<Rightarrow> allow_entry option" where
  "matchAllowlist env regex entries resolution argv platform =
     (if entries = [] then None
      else case (find bare_wildcard entries, resolution) of
        (Some bareWild, Some _) \<Rightarrow> Some bareWild
      | _ \<Rightarrow>
          (let path = (case resolution of None \<Rightarrow> [] | Some r \<Rightarrow> js_nullish (resolvedPath r) []) in
           if path = [] then None else scan_entries env regex path argv platform None entries))"

subsection \<open>Which entries match\<close>

text \<open>The pattern with its home directory and the target as they are compared, and the glob between them.\<close>

definition glob_covers_at :: "bool \<Rightarrow> exec_env \<Rightarrow> string \<Rightarrow> string \<Rightarrow> bool" where
  "glob_covers_at ci env pattern target \<longleftrightarrow>
     (let expanded = expandHomePrefix (env_home env) pattern;
          real = is_win32 env \<and> \<not> list_ex (\<lambda>c. c = star \<or> c = qmark) expanded;
          resolve = (\<lambda>p. if real then js_nullish (env_realpath env p) p else p)
      in glob ci (normalizeMatchTarget env (resolve expanded)) (normalizeMatchTarget env (resolve target)))"

definition glob_covers :: "exec_env \<Rightarrow> string \<Rightarrow> string \<Rightarrow> bool" where
  "glob_covers env = glob_covers_at (is_win32 env) env"

lemma matches_iff_glob:
  "matchesExecAllowlistPattern env pattern target \<longleftrightarrow> js_trim pattern \<noteq> [] \<and> glob_covers env (js_trim pattern) target"
  by (simp add: matchesExecAllowlistPattern_def glob_covers_def glob_covers_at_def Let_def glob_regex_correct expandHomePrefix_def)

lemma glob_covers_posix:
  "\<not> is_win32 env \<Longrightarrow> glob_covers env pattern target \<longleftrightarrow>
     glob False (replace_double_backslash (expandHomePrefix (env_home env) pattern)) (replace_double_backslash target)"
  by (simp add: glob_covers_def glob_covers_at_def normalizeMatchTarget_def)

definition path_grant :: "exec_env \<Rightarrow> string \<Rightarrow> allow_entry \<Rightarrow> bool" where
  "path_grant env path e \<longleftrightarrow> (let p = js_trim (al_pattern e) in has_path p \<and> glob_covers env p path)"

definition args_grant ::
  "exec_env \<Rightarrow> (string \<Rightarrow> (string \<Rightarrow> bool) option) \<Rightarrow> string list option \<Rightarrow> string option \<Rightarrow> allow_entry \<Rightarrow> bool" where
  "args_grant env regex argv platform e \<longleftrightarrow> \<not> unrestricted_args e \<and>
     (case argv of None \<Rightarrow> False | Some av \<Rightarrow> matchArgPattern env regex (js_nullish (al_argPattern e) []) av platform)"

lemma scan_entries_eq:
  "scan_entries env regex path argv platform po entries =
     (if \<not> is_windows_target env platform then or_else (find (path_grant env path) entries) po
      else or_else (find (\<lambda>e. path_grant env path e \<and> args_grant env regex argv platform e) entries)
             (or_else po (find (\<lambda>e. path_grant env path e \<and> unrestricted_args e) entries)))"
proof (induction entries arbitrary: po)
  case (Cons e entries)
  have grant: "path_grant env path e \<longleftrightarrow> js_trim (al_pattern e) \<noteq> [] \<and> has_path (js_trim (al_pattern e))
      \<and> matchesExecAllowlistPattern env (js_trim (al_pattern e)) path"
    by (auto simp: path_grant_def matches_iff_glob has_path_def Let_def)
  show ?case
  proof (cases "path_grant env path e")
    case False
    then have "scan_entries env regex path argv platform po (e # entries) =
        scan_entries env regex path argv platform po entries"
      using grant by (auto simp: Let_def)
    with False Cons.IH show ?thesis by simp
  next
    case True
    with grant Cons.IH show ?thesis
      by (auto simp: Let_def args_grant_def split: option.splits)
  qed
qed (simp add: or_else_def split: option.split)

lemma matchAllowlist_eq:
  "matchAllowlist env regex entries resolution argv platform =
     (case resolution of None \<Rightarrow> None
      | Some r \<Rightarrow> or_else (find bare_wildcard entries)
          (let path = js_nullish (resolvedPath r) [] in
           if path = [] then None
           else if \<not> is_windows_target env platform then find (path_grant env path) entries
           else or_else (find (\<lambda>e. path_grant env path e \<and> args_grant env regex argv platform e) entries)
                  (find (\<lambda>e. path_grant env path e \<and> unrestricted_args e) entries)))"
  by (cases "entries = []"; cases resolution; cases "find bare_wildcard entries")
    (auto simp: matchAllowlist_def scan_entries_eq Let_def or_else_def split: option.splits)

definition entry_grants ::
  "exec_env \<Rightarrow> (string \<Rightarrow> (string \<Rightarrow> bool) option) \<Rightarrow> string option \<Rightarrow> string list option \<Rightarrow> string option \<Rightarrow>
    allow_entry \<Rightarrow> bool" where
  "entry_grants env regex path argv platform e \<longleftrightarrow>
     bare_wildcard e \<or>
     (case path of None \<Rightarrow> False
      | Some p \<Rightarrow> p \<noteq> [] \<and> path_grant env p e \<and>
          (if is_windows_target env platform
           then unrestricted_args e \<or> args_grant env regex argv platform e else True))"

lemma find_None_iff_bex: "find P xs \<noteq> None \<longleftrightarrow> (\<exists>x\<in>set xs. P x)"
  by (auto simp: find_None_iff)

lemma find_SomeD: "find P xs = Some x \<Longrightarrow> x \<in> set xs \<and> P x"
  by (auto simp: find_Some_iff)

lemma or_else_None_iff: "or_else a b = None \<longleftrightarrow> a = None \<and> b = None"
  by (cases a) auto

lemma or_else_SomeD: "or_else a b = Some x \<Longrightarrow> a = Some x \<or> b = Some x"
  by (cases a) auto

lemma matchAllowlist_sound:
  assumes "matchAllowlist env regex entries (Some r) argv platform = Some e"
  shows "e \<in> set entries" "entry_grants env regex (resolvedPath r) argv platform e"
  using assms
  by (auto simp: matchAllowlist_eq entry_grants_def Let_def split: if_splits option.splits
      dest!: or_else_SomeD find_SomeD)

lemma matchAllowlist_complete:
  assumes "e \<in> set entries" "entry_grants env regex (resolvedPath r) argv platform e"
  shows "matchAllowlist env regex entries (Some r) argv platform \<noteq> None"
  using assms
  by (auto simp: matchAllowlist_eq entry_grants_def Let_def or_else_None_iff find_None_iff
      split: if_splits option.splits)

subsection \<open>The documented reading\<close>

text \<open>
  The documentation calls patterns case-insensitive; outside Windows the code compares with case. The grants of an
  entry when case is ignored include those when it is respected.
\<close>

lemma glob_ignoring_case: "glob ci p s \<Longrightarrow> glob True p s"
  by (induction rule: glob.induct) (auto intro: glob.intros simp: char_eq_def split: if_splits)

definition documented_grants ::
  "exec_env \<Rightarrow> (string \<Rightarrow> (string \<Rightarrow> bool) option) \<Rightarrow> string option \<Rightarrow> string list option \<Rightarrow> string option \<Rightarrow>
    allow_entry \<Rightarrow> bool" where
  "documented_grants env regex path argv platform e \<longleftrightarrow>
     bare_wildcard e \<or>
     (case path of None \<Rightarrow> False
      | Some p \<Rightarrow> p \<noteq> [] \<and> has_path (js_trim (al_pattern e)) \<and> glob_covers_at True env (js_trim (al_pattern e)) p \<and>
          (if is_windows_target env platform
           then unrestricted_args e \<or> args_grant env regex argv platform e else True))"

lemma entry_grants_documented:
  "entry_grants env regex path argv platform e \<Longrightarrow> documented_grants env regex path argv platform e"
  using glob_ignoring_case
  by (auto simp: entry_grants_def documented_grants_def path_grant_def glob_covers_def glob_covers_at_def Let_def
      split: option.splits)

lemma documented_grants_windows:
  "is_win32 env \<Longrightarrow> documented_grants env = entry_grants env"
  by (intro ext) (simp add: documented_grants_def entry_grants_def path_grant_def glob_covers_def Let_def
      conj_assoc cong: option.case_cong)

text \<open>C19: The allowlist grants no more than the documentation says and no less than its entries spell out: the entry a
  match reports is one of the list and grants the executable under the documented case-insensitive reading (the
  bare wildcard, or an entry with a path whose glob covers the resolved path and, for a Windows target, whose
  argument pattern accepts the arguments), and without a match no entry grants it as it is written, with case
  (without case on Windows).
\<close>

theorem allowlist_match_exact:
  "case matchAllowlist env regex entries (Some r) argv platform of
     None \<Rightarrow> \<not> list_ex (entry_grants env regex (resolvedPath r) argv platform) entries
   | Some e \<Rightarrow> e \<in> set entries \<and> documented_grants env regex (resolvedPath r) argv platform e"
proof (cases "matchAllowlist env regex entries (Some r) argv platform")
  case None
  have "\<not> entry_grants env regex (resolvedPath r) argv platform e" if "e \<in> set entries" for e
    using matchAllowlist_complete [OF that, of env regex r argv platform] None by blast
  with None show ?thesis by (auto simp: list_ex_iff)
next
  case (Some e)
  from matchAllowlist_sound [OF Some] entry_grants_documented show ?thesis by (auto simp: Some)
qed

lemma unresolved_command_not_matched: "matchAllowlist env regex entries None argv platform = None"
  by (simp add: matchAllowlist_eq)

text \<open>
  On a POSIX host an entry without \<open>**\<close> reaches no deeper than its own pattern, as long as the path has no double
  backslash.
\<close>

definition plain_path :: "string \<Rightarrow> bool" where
  "plain_path s \<longleftrightarrow> replace_double_backslash s = s"

lemma path_grant_same_depth:
  assumes "\<not> is_win32 env" "path_grant env path e" "plain_path path"
    and "plain_path (expandHomePrefix (env_home env) (js_trim (al_pattern e)))"
    and "\<not> has_double_star (expandHomePrefix (env_home env) (js_trim (al_pattern e)))"
  shows "count_list path slash = count_list (expandHomePrefix (env_home env) (js_trim (al_pattern e))) slash"
  using assms glob_same_depth by (fastforce simp: path_grant_def glob_covers_posix plain_path_def Let_def)

subsection \<open>What goes wrong\<close>

definition posix_env :: exec_env where
  "posix_env = \<lparr>env_platform = ''linux'', env_home = Some ''/home/u'', env_realpath = (\<lambda>_. None)\<rparr>"

definition pattern_entry :: "string \<Rightarrow> allow_entry" where
  "pattern_entry p = \<lparr>al_id = None, al_pattern = p, al_source = None, al_commandText = None, al_argPattern = None,
     al_lastUsedAt = None, al_lastUsedCommand = None, al_lastResolvedPath = None\<rparr>"

text \<open>
  On POSIX a backslash is an ordinary character of a file name, but \<open>normalizeMatchTarget\<close> reads two of them as a
  separator: a file of \<open>/home/u\<close> named \<open>bin\\x\<close> passes for one of \<open>/home/u/bin\<close>.
\<close>

lemma double_backslash_escapes_directory:
  "matchesExecAllowlistPattern posix_env ''/home/u/bin/*'' (''/home/u/bin'' @ [bslash, bslash] @ ''x'')"
  by code_simp

text \<open>Patterns are compared with case outside Windows.\<close>

lemma posix_patterns_case_sensitive:
  "\<not> matchesExecAllowlistPattern posix_env ''/usr/bin/RG'' ''/usr/bin/rg''"
  by code_simp

lemma allowlist_match_samples:
  "matchAllowlist posix_env (\<lambda>_. None) [pattern_entry ''rg'', pattern_entry ''~/bin/*'']
     (Some \<lparr>rawExecutable = ''t'', executableName = ''t'', resolvedPath = Some ''/home/u/bin/t''\<rparr>) None None
     = Some (pattern_entry ''~/bin/*'')"
  "\<not> matchesExecAllowlistPattern posix_env ''/home/u/bin/*'' ''/home/u/bin/sub/t''"
  "matchesExecAllowlistPattern posix_env ''/home/u/**'' ''/home/u/bin/sub/t''"
  by code_simp+

end
