(* ===== verification/ExecPolicy.thy ===== *)
theory ExecPolicy
  imports ExecAllowlist SessionKey ExecApproval
begin

text \<open>
  The exec approvals file and the policy it yields: \<open>infra/exec-approvals.ts\<close> and
  \<open>infra/exec-approvals-effective.ts\<close>. Security modes and ask modes are linear orders; the policy that is
  enforced is the minimum of requested and host security and the maximum of the ask modes. A field of the file
  is the JSON value it holds, so that malformed values are modelled; normalising the file drops them.
  Operations on the allowlist return the file they save.

  Parameters: \<open>uuid\<close> stands for \<open>crypto.randomUUID\<close> (the value drawn for an entry of an agent),
  \<open>digest\<close> for the first 16 hexadecimal digits of SHA-256, \<open>home\<close> for the effective home directory.
\<close>

section \<open>Modes\<close>

datatype ExecSecurity = SecDeny | SecAllowlist | SecFull
datatype ExecAsk = AskOff | AskOnMiss | AskAlways
datatype exec_host = HostSandbox | HostGateway | HostNode
datatype exec_target = TargetAuto | Target exec_host

fun security_rank :: "ExecSecurity \<Rightarrow> nat" where
  "security_rank SecDeny = 0" | "security_rank SecAllowlist = 1" | "security_rank SecFull = 2"

fun ask_rank :: "ExecAsk \<Rightarrow> nat" where
  "ask_rank AskOff = 0" | "ask_rank AskOnMiss = 1" | "ask_rank AskAlways = 2"

definition minSecurity :: "ExecSecurity \<Rightarrow> ExecSecurity \<Rightarrow> ExecSecurity" where
  "minSecurity a b = (if security_rank a \<le> security_rank b then a else b)"

definition maxAsk :: "ExecAsk \<Rightarrow> ExecAsk \<Rightarrow> ExecAsk" where
  "maxAsk a b = (if ask_rank b \<le> ask_rank a then a else b)"

fun security_name :: "ExecSecurity \<Rightarrow> string" where
  "security_name SecDeny = ''deny''" | "security_name SecAllowlist = ''allowlist''" | "security_name SecFull = ''full''"

fun ask_name :: "ExecAsk \<Rightarrow> string" where
  "ask_name AskOff = ''off''" | "ask_name AskOnMiss = ''on-miss''" | "ask_name AskAlways = ''always''"

definition read_security :: "string \<Rightarrow> ExecSecurity option" where
  "read_security s = (if s = ''deny'' then Some SecDeny else if s = ''allowlist'' then Some SecAllowlist
     else if s = ''full'' then Some SecFull else None)"

definition read_ask :: "string \<Rightarrow> ExecAsk option" where
  "read_ask s = (if s = ''off'' then Some AskOff else if s = ''on-miss'' then Some AskOnMiss
     else if s = ''always'' then Some AskAlways else None)"

definition normalizeExecHost :: "string option \<Rightarrow> exec_host option" where
  "normalizeExecHost v = (case normalizeOptionalLowercaseString v of None \<Rightarrow> None
     | Some s \<Rightarrow> if s = ''sandbox'' then Some HostSandbox else if s = ''gateway'' then Some HostGateway
                 else if s = ''node'' then Some HostNode else None)"

definition normalizeExecTarget :: "string option \<Rightarrow> exec_target option" where
  "normalizeExecTarget v = (let normalized = normalizeOptionalLowercaseString v in
     if normalized = Some ''auto'' then Some TargetAuto else map_option Target (normalizeExecHost normalized))"

definition normalizeExecSecurity :: "string option \<Rightarrow> ExecSecurity option" where
  "normalizeExecSecurity v = Option.bind (normalizeOptionalLowercaseString v) read_security"

definition normalizeExecAsk :: "string option \<Rightarrow> ExecAsk option" where
  "normalizeExecAsk v = Option.bind (normalizeOptionalLowercaseString v) read_ask"

instantiation ExecSecurity :: linorder
begin
definition less_eq_ExecSecurity :: "ExecSecurity \<Rightarrow> ExecSecurity \<Rightarrow> bool" where
  "less_eq_ExecSecurity a b \<longleftrightarrow> security_rank a \<le> security_rank b"
definition less_ExecSecurity :: "ExecSecurity \<Rightarrow> ExecSecurity \<Rightarrow> bool" where
  "less_ExecSecurity a b \<longleftrightarrow> security_rank a < security_rank b"
instance
proof
  fix a b :: ExecSecurity
  show "a \<le> b \<Longrightarrow> b \<le> a \<Longrightarrow> a = b"
    by (cases a; cases b) (simp_all add: less_eq_ExecSecurity_def)
qed (auto simp: less_eq_ExecSecurity_def less_ExecSecurity_def)
end

instantiation ExecAsk :: linorder
begin
definition less_eq_ExecAsk :: "ExecAsk \<Rightarrow> ExecAsk \<Rightarrow> bool" where
  "less_eq_ExecAsk a b \<longleftrightarrow> ask_rank a \<le> ask_rank b"
definition less_ExecAsk :: "ExecAsk \<Rightarrow> ExecAsk \<Rightarrow> bool" where
  "less_ExecAsk a b \<longleftrightarrow> ask_rank a < ask_rank b"
instance
proof
  fix a b :: ExecAsk
  show "a \<le> b \<Longrightarrow> b \<le> a \<Longrightarrow> a = b"
    by (cases a; cases b) (simp_all add: less_eq_ExecAsk_def)
qed (auto simp: less_eq_ExecAsk_def less_ExecAsk_def)
end

lemma minSecurity_min: "minSecurity a b = min a b"
  by (simp add: minSecurity_def min_def less_eq_ExecSecurity_def)

lemma maxAsk_max: "maxAsk a b = max a b"
  by (cases a; cases b) (simp_all add: maxAsk_def max_def less_eq_ExecAsk_def)

lemma security_deny_least [simp]: "SecDeny \<le> a"
  by (simp add: less_eq_ExecSecurity_def)

lemma security_le_deny [simp]: "a \<le> SecDeny \<longleftrightarrow> a = SecDeny"
  by (cases a) (simp_all add: less_eq_ExecSecurity_def)

lemma ask_le_always [simp]: "a \<le> AskAlways"
  by (cases a) (simp_all add: less_eq_ExecAsk_def)

lemma read_security_name [simp]: "read_security (security_name a) = Some a"
  by (cases a) (simp_all add: read_security_def)

lemma read_ask_name [simp]: "read_ask (ask_name a) = Some a"
  by (cases a) (simp_all add: read_ask_def)

section \<open>The approvals file\<close>

text \<open>A field as \<open>JSON.parse\<close> leaves it; \<open>JOther\<close> is a value that is neither a string nor \<open>null\<close>.\<close>

datatype json_field = JUndef | JNull | JStr string | JOther

fun readStringValue :: "json_field \<Rightarrow> string option" where
  "readStringValue (JStr s) = Some s" | "readStringValue _ = None"

text \<open>An item of an allowlist: a bare string, an object with a string pattern, anything else.\<close>

datatype allow_item = BareItem string | EntryItem allow_entry | OtherItem

record exec_policy =
  ep_security :: json_field
  ep_ask :: json_field
  ep_askFallback :: json_field
  ep_autoAllowSkills :: "bool option"

record exec_agent = exec_policy +
  ea_allowlist :: "allow_item list option"

record exec_file =
  ef_socket_path :: "string option"
  ef_socket_token :: "string option"
  ef_defaults :: exec_policy
  ef_agents :: "(string, exec_agent) jsmap"

definition empty_policy :: exec_policy where
  "empty_policy = \<lparr>ep_security = JUndef, ep_ask = JUndef, ep_askFallback = JUndef, ep_autoAllowSkills = None\<rparr>"

definition empty_agent :: exec_agent where
  "empty_agent = \<lparr>ep_security = JUndef, ep_ask = JUndef, ep_askFallback = JUndef, ep_autoAllowSkills = None,
     ea_allowlist = None\<rparr>"

definition empty_file :: exec_file where
  "empty_file = \<lparr>ef_socket_path = None, ef_socket_token = None, ef_defaults = empty_policy, ef_agents = []\<rparr>"

definition isExecSecurity :: "json_field \<Rightarrow> ExecSecurity option" where
  "isExecSecurity v = Option.bind (readStringValue v) read_security"

definition isExecAsk :: "json_field \<Rightarrow> ExecAsk option" where
  "isExecAsk v = Option.bind (readStringValue v) read_ask"

text \<open>\<open>x != null\<close> and \<open>x ?? y\<close>.\<close>

definition json_present :: "json_field \<Rightarrow> bool" where
  "json_present v \<longleftrightarrow> v \<noteq> JUndef \<and> v \<noteq> JNull"

definition jf_or :: "json_field \<Rightarrow> json_field \<Rightarrow> json_field" where
  "jf_or a b = (if json_present a then a else b)"

subsection \<open>Normalisation\<close>

definition normalizeAllowlistPattern :: "string \<Rightarrow> string option" where
  "normalizeAllowlistPattern v = (let trimmed = js_nullish (normalizeOptionalString (Some v)) [] in
     if trimmed = [] then None else Some (normalizeLowercaseStringOrEmpty (Some trimmed)))"

definition legacy_key :: "allow_entry \<Rightarrow> string option" where
  "legacy_key e = map_option (\<lambda>patternKey. patternKey @ [CHR 0x00] @ js_trim (js_nullish (al_argPattern e) []))
     (normalizeAllowlistPattern (al_pattern e))"

text \<open>\<open>pushEntry\<close>: an item without a string pattern has no key and is dropped here.\<close>

fun push_entries :: "string list \<Rightarrow> allow_item list \<Rightarrow> allow_item list" where
  "push_entries seen [] = []"
| "push_entries seen (EntryItem e # items) =
     (case legacy_key e of
        None \<Rightarrow> push_entries seen items
      | Some key \<Rightarrow> if key \<in> set seen then push_entries seen items
                     else EntryItem e # push_entries (key # seen) items)"
| "push_entries seen (_ # items) = push_entries seen items"

definition mergeLegacyAgent :: "exec_agent \<Rightarrow> exec_agent \<Rightarrow> exec_agent" where
  "mergeLegacyAgent current legacy =
     (let allowlist = push_entries [] (js_nullish (ea_allowlist current) [] @ js_nullish (ea_allowlist legacy) [])
      in \<lparr>ep_security = jf_or (ep_security current) (ep_security legacy),
          ep_ask = jf_or (ep_ask current) (ep_ask legacy),
          ep_askFallback = jf_or (ep_askFallback current) (ep_askFallback legacy),
          ep_autoAllowSkills = or_else (ep_autoAllowSkills current) (ep_autoAllowSkills legacy),
          ea_allowlist = (if allowlist = [] then None else Some allowlist)\<rparr>)"

fun coerce_item :: "allow_item \<Rightarrow> allow_item option" where
  "coerce_item (BareItem s) = (let trimmed = js_trim s in
     if trimmed = [] then None else Some (EntryItem \<lparr>al_id = None, al_pattern = trimmed, al_source = None,
       al_commandText = None, al_argPattern = None, al_lastUsedAt = None, al_lastUsedCommand = None,
       al_lastResolvedPath = None\<rparr>))"
| "coerce_item (EntryItem e) = (if js_trim (al_pattern e) = [] then None else Some (EntryItem e))"
| "coerce_item OtherItem = None"

definition coerceAllowlistEntries :: "allow_item list option \<Rightarrow> allow_item list option" where
  "coerceAllowlistEntries allowlist =
     (case allowlist of None \<Rightarrow> None
      | Some items \<Rightarrow> if items = [] then Some []
          else let result = List.map_filter coerce_item items in if result = [] then None else Some result)"

fun ensure_id :: "string \<Rightarrow> allow_item \<Rightarrow> allow_item" where
  "ensure_id new (EntryItem e) = EntryItem (if js_nullish (al_id e) [] = [] then e\<lparr>al_id := Some new\<rparr> else e)"
| "ensure_id new item = item"

definition ensureAllowlistIds :: "(nat \<Rightarrow> string) \<Rightarrow> allow_item list option \<Rightarrow> allow_item list option" where
  "ensureAllowlistIds uuid allowlist =
     map_option (\<lambda>items. map (\<lambda>(i, item). ensure_id (uuid i) item) (enumerate 0 items)) allowlist"

fun strip_command_text :: "allow_item \<Rightarrow> allow_item" where
  "strip_command_text (EntryItem e) = EntryItem (e\<lparr>al_commandText := None\<rparr>)"
| "strip_command_text item = item"

definition stripAllowlistCommandText :: "allow_item list option \<Rightarrow> allow_item list option" where
  "stripAllowlistCommandText allowlist = map_option (map strip_command_text) allowlist"

definition sanitize_security :: "json_field \<Rightarrow> json_field" where
  "sanitize_security v = (case Option.bind (map_option js_trim (readStringValue v)) read_security of
     None \<Rightarrow> JUndef | Some m \<Rightarrow> JStr (security_name m))"

definition sanitize_ask :: "json_field \<Rightarrow> json_field" where
  "sanitize_ask v = (case Option.bind (map_option js_trim (readStringValue v)) read_ask of
     None \<Rightarrow> JUndef | Some m \<Rightarrow> JStr (ask_name m))"

definition sanitizeExecApprovalPolicy :: "'a exec_policy_scheme \<Rightarrow> 'a exec_policy_scheme" where
  "sanitizeExecApprovalPolicy policy = policy\<lparr>ep_security := sanitize_security (ep_security policy),
     ep_ask := sanitize_ask (ep_ask policy), ep_askFallback := sanitize_security (ep_askFallback policy)\<rparr>"

definition migrate_default :: "(string, exec_agent) jsmap \<Rightarrow> (string, exec_agent) jsmap" where
  "migrate_default agents =
     (case jm_get agents ''default'' of
        None \<Rightarrow> agents
      | Some legacyDefault \<Rightarrow>
          jm_delete ''default'' (jm_set DEFAULT_AGENT_ID
            (case jm_get agents DEFAULT_AGENT_ID of
               Some main \<Rightarrow> mergeLegacyAgent main legacyDefault
             | None \<Rightarrow> legacyDefault) agents))"

definition normalize_agent :: "(nat \<Rightarrow> string) \<Rightarrow> exec_agent \<Rightarrow> exec_agent" where
  "normalize_agent uuid agent =
     (sanitizeExecApprovalPolicy agent)
       \<lparr>ea_allowlist := stripAllowlistCommandText (ensureAllowlistIds uuid (coerceAllowlistEntries (ea_allowlist agent)))\<rparr>"

definition trim_field :: "string option \<Rightarrow> string option" where
  "trim_field v = (case map_option js_trim v of None \<Rightarrow> None | Some s \<Rightarrow> if s = [] then None else Some s)"

definition normalizeExecApprovals :: "(string \<Rightarrow> nat \<Rightarrow> string) \<Rightarrow> exec_file \<Rightarrow> exec_file" where
  "normalizeExecApprovals uuid file =
     \<lparr>ef_socket_path = trim_field (ef_socket_path file),
      ef_socket_token = trim_field (ef_socket_token file),
      ef_defaults = sanitizeExecApprovalPolicy (ef_defaults file),
      ef_agents = map (\<lambda>(key, agent). (key, normalize_agent (uuid key) agent)) (migrate_default (ef_agents file))\<rparr>"

definition mergeExecApprovalsSocketDefaults :: "string option \<Rightarrow> exec_file \<Rightarrow> exec_file option \<Rightarrow> exec_file" where
  "mergeExecApprovalsSocketDefaults home normalized current =
     (let currentSocketPath = map_option js_trim (Option.bind current ef_socket_path);
          currentToken = map_option js_trim (Option.bind current ef_socket_token)
      in normalized
        \<lparr>ef_socket_path := Some (js_nullish (or_else (map_option js_trim (ef_socket_path normalized)) currentSocketPath)
            (expandHomePrefix home ''~/.openclaw/exec-approvals.sock'')),
         ef_socket_token := Some (js_nullish (or_else (map_option js_trim (ef_socket_token normalized)) currentToken) [])\<rparr>)"

text \<open>
  The file on disk is \<open>None\<close> when it is missing, unreadable, malformed or of another version; all four load as
  the empty file.
\<close>

definition loadExecApprovals :: "(string \<Rightarrow> nat \<Rightarrow> string) \<Rightarrow> exec_file option \<Rightarrow> exec_file" where
  "loadExecApprovals uuid disk = normalizeExecApprovals uuid (js_nullish disk empty_file)"

text \<open>The file it returns is also the one it saves.\<close>

definition ensureExecApprovals ::
  "(string \<Rightarrow> nat \<Rightarrow> string) \<Rightarrow> string \<Rightarrow> string option \<Rightarrow> exec_file option \<Rightarrow> exec_file" where
  "ensureExecApprovals uuid newToken home disk =
     (let file = normalizeExecApprovals uuid (loadExecApprovals uuid disk)
      in file\<lparr>ef_socket_path := Some (js_nullish (trim_field (ef_socket_path file))
                (expandHomePrefix home ''~/.openclaw/exec-approvals.sock'')),
              ef_socket_token := Some (js_nullish (trim_field (ef_socket_token file)) newToken)\<rparr>)"

section \<open>Resolving the policy of an agent\<close>

definition DEFAULT_SECURITY :: ExecSecurity where "DEFAULT_SECURITY = SecFull"
definition DEFAULT_ASK :: ExecAsk where "DEFAULT_ASK = AskOff"
definition DEFAULT_EXEC_APPROVAL_ASK_FALLBACK :: ExecSecurity where "DEFAULT_EXEC_APPROVAL_ASK_FALLBACK = SecFull"
definition DEFAULT_AUTO_ALLOW_SKILLS :: bool where "DEFAULT_AUTO_ALLOW_SKILLS = False"

record exec_overrides =
  ov_security :: "ExecSecurity option"
  ov_ask :: "ExecAsk option"
  ov_askFallback :: "ExecSecurity option"
  ov_autoAllowSkills :: "bool option"

record exec_resolved_policy =
  rp_security :: ExecSecurity
  rp_ask :: ExecAsk
  rp_askFallback :: ExecSecurity
  rp_autoAllowSkills :: bool

text \<open>The paths and the token of the socket, which the record also carries, are left out.\<close>

record exec_resolved =
  er_defaults :: exec_resolved_policy
  er_agent :: exec_resolved_policy
  er_security_source :: "string option"
  er_ask_source :: "string option"
  er_askFallback_source :: "string option"
  er_allowlist :: "allow_entry list"
  er_file :: exec_file

text \<open>
  The resolution of one field, for a reader \<open>valid\<close> (\<open>isExecSecurity\<close> or \<open>isExecAsk\<close>) and its name: a
  value the agent or the wildcard holds in the raw file masks what comes after it, also when it is not valid.
\<close>

definition resolveDefaultField ::
  "(json_field \<Rightarrow> 'v option) \<Rightarrow> string \<Rightarrow> json_field \<Rightarrow> 'v \<Rightarrow> 'v \<times> string option" where
  "resolveDefaultField valid field value fallback =
     (case valid value of Some v \<Rightarrow> (v, Some (''defaults.'' @ field)) | None \<Rightarrow> (fallback, None))"

definition resolveAgentField ::
  "(json_field \<Rightarrow> 'v option) \<Rightarrow> string \<Rightarrow> string \<Rightarrow> json_field \<Rightarrow> json_field \<Rightarrow> json_field \<Rightarrow> json_field \<Rightarrow>
    json_field \<Rightarrow> 'v \<Rightarrow> 'v \<times> string option" where
  "resolveAgentField valid field agentKey defaultValue agent rawAgent wildcard rawWildcard fallback =
     (let fallbackField = resolveDefaultField valid field defaultValue fallback in
      if json_present rawAgent
      then (case valid agent of
              Some v \<Rightarrow> (v, Some (''agents.'' @ agentKey @ ''.'' @ field))
            | None \<Rightarrow> fallbackField)
      else if json_present rawWildcard
      then (case valid wildcard of
              Some v \<Rightarrow> (v, Some (''agents.*.'' @ field))
            | None \<Rightarrow> fallbackField)
      else fallbackField)"

fun entry_items :: "allow_item list \<Rightarrow> allow_entry list" where
  "entry_items [] = []"
| "entry_items (EntryItem e # items) = e # entry_items items"
| "entry_items (_ # items) = entry_items items"

definition agent_entries :: "exec_agent \<Rightarrow> allow_entry list" where
  "agent_entries a = entry_items (js_nullish (ea_allowlist a) [])"

definition agent_of :: "(string, exec_agent) jsmap \<Rightarrow> string \<Rightarrow> exec_agent" where
  "agent_of agents key = js_nullish (jm_get agents key) empty_agent"

definition resolveExecApprovalsFromFile ::
  "(string \<Rightarrow> nat \<Rightarrow> string) \<Rightarrow> exec_file \<Rightarrow> string option \<Rightarrow> exec_overrides \<Rightarrow> exec_resolved" where
  "resolveExecApprovalsFromFile uuid rawFile agentId overrides =
     (let file = normalizeExecApprovals uuid rawFile;
          defaults = ef_defaults file;
          agentKey = js_nullish agentId DEFAULT_AGENT_ID;
          agent = agent_of (ef_agents file) agentKey;
          wildcard = agent_of (ef_agents file) ''*'';
          rawAgent = agent_of (ef_agents rawFile) agentKey;
          rawWildcard = agent_of (ef_agents rawFile) ''*'';
          fallbackSecurity = js_nullish (ov_security overrides) DEFAULT_SECURITY;
          fallbackAsk = js_nullish (ov_ask overrides) DEFAULT_ASK;
          fallbackAskFallback = js_nullish (ov_askFallback overrides) DEFAULT_EXEC_APPROVAL_ASK_FALLBACK;
          fallbackAutoAllowSkills = js_nullish (ov_autoAllowSkills overrides) DEFAULT_AUTO_ALLOW_SKILLS;
          resolvedDefaults = \<lparr>rp_security = js_nullish (isExecSecurity (ep_security defaults)) fallbackSecurity,
            rp_ask = js_nullish (isExecAsk (ep_ask defaults)) fallbackAsk,
            rp_askFallback = js_nullish (isExecSecurity (ep_askFallback defaults)) fallbackAskFallback,
            rp_autoAllowSkills = js_nullish (ep_autoAllowSkills defaults) fallbackAutoAllowSkills\<rparr>;
          security = resolveAgentField isExecSecurity ''security'' agentKey (ep_security defaults)
            (ep_security agent) (ep_security rawAgent) (ep_security wildcard) (ep_security rawWildcard)
            (rp_security resolvedDefaults);
          ask = resolveAgentField isExecAsk ''ask'' agentKey (ep_ask defaults)
            (ep_ask agent) (ep_ask rawAgent) (ep_ask wildcard) (ep_ask rawWildcard) (rp_ask resolvedDefaults);
          askFallback = resolveAgentField isExecSecurity ''askFallback'' agentKey (ep_askFallback defaults)
            (ep_askFallback agent) (ep_askFallback rawAgent) (ep_askFallback wildcard) (ep_askFallback rawWildcard)
            (rp_askFallback resolvedDefaults)
      in \<lparr>er_defaults = resolvedDefaults,
          er_agent = \<lparr>rp_security = fst security, rp_ask = fst ask, rp_askFallback = fst askFallback,
            rp_autoAllowSkills = js_nullish (or_else (ep_autoAllowSkills agent) (ep_autoAllowSkills wildcard))
              (rp_autoAllowSkills resolvedDefaults)\<rparr>,
          er_security_source = snd security, er_ask_source = snd ask, er_askFallback_source = snd askFallback,
          er_allowlist = agent_entries wildcard @ agent_entries agent,
          er_file = file\<rparr>)"

definition resolveExecApprovals ::
  "(string \<Rightarrow> nat \<Rightarrow> string) \<Rightarrow> string \<Rightarrow> string option \<Rightarrow> exec_file option \<Rightarrow> string option \<Rightarrow> exec_overrides \<Rightarrow>
    exec_resolved" where
  "resolveExecApprovals uuid newToken home disk agentId overrides =
     resolveExecApprovalsFromFile uuid (ensureExecApprovals uuid newToken home disk) agentId overrides"

definition policy_overrides :: "ExecSecurity \<Rightarrow> ExecAsk \<Rightarrow> exec_overrides" where
  "policy_overrides security ask =
     \<lparr>ov_security = Some security, ov_ask = Some ask, ov_askFallback = None, ov_autoAllowSkills = None\<rparr>"

subsection \<open>What is enforced\<close>

text \<open>\<open>resolveExecHostApprovalContext\<close> of \<open>agents/bash-tools.exec-host-shared.ts\<close>.\<close>

record exec_context =
  xc_approvals :: exec_resolved
  xc_security :: ExecSecurity
  xc_ask :: ExecAsk
  xc_askFallback :: ExecSecurity

fun host_name :: "exec_host \<Rightarrow> string" where
  "host_name HostSandbox = ''sandbox''" | "host_name HostGateway = ''gateway''" | "host_name HostNode = ''node''"

definition resolveExecHostApprovalContext ::
  "(string \<Rightarrow> nat \<Rightarrow> string) \<Rightarrow> string \<Rightarrow> string option \<Rightarrow> exec_file option \<Rightarrow> string option \<Rightarrow> ExecSecurity \<Rightarrow>
    ExecAsk \<Rightarrow> exec_host \<Rightarrow> string + exec_context" where
  "resolveExecHostApprovalContext uuid newToken home disk agentId security ask host =
     (let approvals = resolveExecApprovals uuid newToken home disk agentId (policy_overrides security ask);
          hostSecurity = minSecurity security (rp_security (er_agent approvals));
          hostAsk = maxAsk ask (rp_ask (er_agent approvals));
          askFallback = minSecurity hostSecurity (rp_askFallback (er_agent approvals))
      in if hostSecurity = SecDeny then Inl (''exec denied: host='' @ host_name host @ '' security=deny'')
         else Inr \<lparr>xc_approvals = approvals, xc_security = hostSecurity, xc_ask = hostAsk, xc_askFallback = askFallback\<rparr>)"

subsection \<open>What a call requests\<close>

text \<open>
  The start of \<open>execute\<close> in \<open>agents/bash-tools.exec.ts\<close>: the elevated mode, the host and the modes of a call,
  from the defaults of the tool, the arguments of the call and the defaults of the approvals file. The defaults of
  the tool come from \<open>tools.exec\<close> of the agent, else of the configuration, unless the session overrides them
  (\<open>agents/pi-tools.ts\<close>).
\<close>

record exec_config =
  xcfg_security :: "ExecSecurity option"
  xcfg_ask :: "ExecAsk option"

definition config_field :: "(exec_config \<Rightarrow> 'v option) \<Rightarrow> exec_config option \<Rightarrow> 'v option" where
  "config_field field config = Option.bind config field"

definition resolveExecConfig :: "exec_config option \<Rightarrow> exec_config option \<Rightarrow> exec_config" where
  "resolveExecConfig agentExec globalExec =
     \<lparr>xcfg_security = or_else (config_field xcfg_security agentExec) (config_field xcfg_security globalExec),
      xcfg_ask = or_else (config_field xcfg_ask agentExec) (config_field xcfg_ask globalExec)\<rparr>"

definition exec_tool_config :: "exec_config option \<Rightarrow> exec_config \<Rightarrow> exec_config" where
  "exec_tool_config override execConfig =
     \<lparr>xcfg_security = or_else (config_field xcfg_security override) (xcfg_security execConfig),
      xcfg_ask = or_else (config_field xcfg_ask override) (xcfg_ask execConfig)\<rparr>"

datatype elevated_mode = ElevatedOff | ElevatedAsk | ElevatedFull

record elevated_defaults =
  el_enabled :: bool
  el_allowed :: bool
  el_defaultLevel :: string

record exec_tool_defaults =
  xd_config :: exec_config
  xd_host :: "exec_target option"
  xd_elevated :: "elevated_defaults option"
  xd_sandbox :: bool
  xd_messageProvider :: "string option"
  xd_sessionKey :: "string option"

record exec_call =
  xl_command :: string
  xl_host :: "string option"
  xl_security :: "string option"
  xl_ask :: "string option"
  xl_elevated :: "bool option"

definition elevated_available :: "exec_tool_defaults \<Rightarrow> bool" where
  "elevated_available d = (case xd_elevated d of None \<Rightarrow> False | Some e \<Rightarrow> el_enabled e \<and> el_allowed e)"

definition elevated_default_mode :: "exec_tool_defaults \<Rightarrow> elevated_mode" where
  "elevated_default_mode d =
     (let level = map_option el_defaultLevel (xd_elevated d) in
      if level = Some ''full'' then ElevatedFull
      else if level = Some ''ask'' then ElevatedAsk
      else if level = Some ''on'' then ElevatedAsk
      else ElevatedOff)"

definition elevated_unavailable_message :: "exec_tool_defaults \<Rightarrow> string" where
  "elevated_unavailable_message d =
     (let gate = (if map_option el_enabled (xd_elevated d) \<noteq> Some True
            then ''enabled (tools.elevated.enabled / agents.list[].tools.elevated.enabled)''
            else ''allowFrom (tools.elevated.allowFrom.<provider> / agents.list[].tools.elevated.allowFrom.<provider>)'');
          context = (case normalizeOptionalString (xd_messageProvider d) of None \<Rightarrow> [] | Some p \<Rightarrow> [''provider='' @ p])
            @ (case normalizeOptionalString (xd_sessionKey d) of None \<Rightarrow> [] | Some k \<Rightarrow> [''session='' @ k])
      in join_with [CHR 0x0A]
        ([''elevated is not available right now (runtime='' @ (if xd_sandbox d then ''sandboxed'' else ''direct'') @ '').'',
          ''Failing gates: '' @ gate]
         @ (if context = [] then [] else [''Context: '' @ join_with '' '' context])
         @ [''Fix-it keys:'', ''- tools.elevated.enabled'', ''- tools.elevated.allowFrom.<provider>'',
            ''- agents.list[].tools.elevated.enabled'', ''- agents.list[].tools.elevated.allowFrom.<provider>'']))"

definition elevated_mode_of :: "exec_tool_defaults \<Rightarrow> exec_call \<Rightarrow> string + elevated_mode" where
  "elevated_mode_of d call =
     (let effectiveDefaultMode = (if elevated_available d then elevated_default_mode d else ElevatedOff);
          mode = (case xl_elevated call of
              Some True \<Rightarrow> if elevated_default_mode d = ElevatedFull then ElevatedFull else ElevatedAsk
            | Some False \<Rightarrow> ElevatedOff
            | None \<Rightarrow> effectiveDefaultMode)
      in if mode \<noteq> ElevatedOff \<and> \<not> elevated_available d then Inl (elevated_unavailable_message d) else Inr mode)"

fun target_name :: "exec_target \<Rightarrow> string" where
  "target_name TargetAuto = ''auto''"
| "target_name (Target h) = host_name h"

definition isRequestedExecTargetAllowed :: "exec_target \<Rightarrow> exec_target \<Rightarrow> bool \<Rightarrow> bool" where
  "isRequestedExecTargetAllowed configuredTarget requestedTarget sandboxAvailable =
     (if requestedTarget = configuredTarget then True
      else if configuredTarget = TargetAuto then \<not> (sandboxAvailable \<and> requestedTarget = Target HostGateway)
      else False)"

text \<open>The selected target and the effective host.\<close>

definition resolveExecTarget ::
  "exec_target option \<Rightarrow> exec_target option \<Rightarrow> bool \<Rightarrow> bool \<Rightarrow> string + exec_target \<times> exec_host" where
  "resolveExecTarget configured requestedTarget elevatedRequested sandboxAvailable =
     (let configuredTarget = js_nullish configured TargetAuto;
          refused = (case requestedTarget of None \<Rightarrow> False
            | Some t \<Rightarrow> \<not> isRequestedExecTargetAllowed configuredTarget t sandboxAvailable)
      in if refused
         then (let t = js_nullish requestedTarget TargetAuto;
                   allowedConfig = join_with '' or '' (remdups
                     [if t = Target HostGateway \<and> \<not> sandboxAvailable then ''gateway'' else target_name t, ''auto''])
               in Inl (''exec host not allowed (requested '' @ target_name t @ ''; configured host is ''
                   @ target_name configuredTarget @ ''; set tools.exec.host='' @ allowedConfig
                   @ '' to allow this override).''))
         else (let selectedTarget = js_nullish requestedTarget configuredTarget;
                   resolvedTarget = (if elevatedRequested
                     then (if selectedTarget = Target HostNode then Target HostNode else Target HostGateway)
                     else selectedTarget)
               in Inr (resolvedTarget, case resolvedTarget of
                     TargetAuto \<Rightarrow> if sandboxAvailable then HostSandbox else HostGateway
                   | Target h \<Rightarrow> h)))"

text \<open>The configured modes of a host, with the defaults of the approvals file where \<open>tools.exec\<close> sets none.\<close>

definition configured_modes :: "exec_config \<Rightarrow> exec_policy \<Rightarrow> exec_host \<Rightarrow> ExecSecurity \<times> ExecAsk" where
  "configured_modes config approvalDefaults host =
     (js_nullish (or_else (xcfg_security config) (isExecSecurity (ep_security approvalDefaults)))
        (if host = HostSandbox then SecDeny else SecFull),
      js_nullish (or_else (xcfg_ask config) (isExecAsk (ep_ask approvalDefaults))) AskOff)"

definition exec_modes ::
  "exec_tool_defaults \<Rightarrow> exec_policy \<Rightarrow> exec_host \<Rightarrow> elevated_mode \<Rightarrow> exec_call \<Rightarrow> ExecSecurity \<times> ExecAsk" where
  "exec_modes d approvalDefaults host mode call =
     (let (configuredSecurity, configuredAsk) = configured_modes (xd_config d) approvalDefaults host;
          security = minSecurity configuredSecurity (js_nullish (normalizeExecSecurity (xl_security call)) configuredSecurity);
          ask = maxAsk configuredAsk (js_nullish (normalizeExecAsk (xl_ask call)) configuredAsk)
      in if mode = ElevatedFull then (SecFull, AskOff) else (security, ask))"

lemma exec_modes_stricter:
  assumes "mode \<noteq> ElevatedFull"
  shows "fst (exec_modes d ad host mode call) \<le> fst (configured_modes (xd_config d) ad host)"
    and "snd (configured_modes (xd_config d) ad host) \<le> snd (exec_modes d ad host mode call)"
  using assms by (simp_all add: exec_modes_def minSecurity_min maxAsk_max split: prod.split)

lemma elevated_full_needs:
  assumes "elevated_mode_of d call = Inr ElevatedFull"
  shows "\<exists>e. xd_elevated d = Some e \<and> el_enabled e \<and> el_allowed e \<and> el_defaultLevel e = ''full'' \<and> xl_elevated call \<noteq> Some False"
  using assms
  by (auto simp: elevated_mode_of_def elevated_available_def elevated_default_mode_def Let_def
      split: option.splits if_splits bool.splits)

subsection \<open>What is reported\<close>

text \<open>\<open>scope\<close> is the configuration of a scope, \<open>tools.exec\<close> or the \<open>tools.exec\<close> of an agent.\<close>

definition DEFAULT_EXEC_APPROVAL_DECISIONS :: "approval_decision list" where
  "DEFAULT_EXEC_APPROVAL_DECISIONS = [AllowOnce, AllowAlways, Deny]"

definition resolveExecApprovalAllowedDecisions :: "string option \<Rightarrow> approval_decision list" where
  "resolveExecApprovalAllowedDecisions ask =
     (if normalizeExecAsk ask = Some AskAlways then [AllowOnce, Deny] else DEFAULT_EXEC_APPROVAL_DECISIONS)"

definition read_choice :: "string \<Rightarrow> approval_decision option" where
  "read_choice s = (if s = ''allow-once'' then Some AllowOnce else if s = ''allow-always'' then Some AllowAlways
     else if s = ''deny'' then Some Deny else None)"

definition resolveExecApprovalRequestAllowedDecisions ::
  "string option \<Rightarrow> string list option \<Rightarrow> approval_decision list" where
  "resolveExecApprovalRequestAllowedDecisions ask allowedDecisions =
     (let explicit = List.map_filter read_choice (js_nullish allowedDecisions [])
      in if explicit \<noteq> [] then explicit else resolveExecApprovalAllowedDecisions ask)"

definition isExecApprovalDecisionAllowed :: "approval_decision \<Rightarrow> string option \<Rightarrow> bool" where
  "isExecApprovalDecisionAllowed decision ask \<longleftrightarrow> decision \<in> set (resolveExecApprovalAllowedDecisions ask)"

definition resolveRequestedField ::
  "(exec_config \<Rightarrow> 'v option) \<Rightarrow> 'v \<Rightarrow> exec_config option \<Rightarrow> exec_config option \<Rightarrow> 'v \<times> string" where
  "resolveRequestedField field defaultValue scopeExecConfig globalExecConfig =
     (case config_field field scopeExecConfig of
        Some v \<Rightarrow> (v, ''scope'')
      | None \<Rightarrow> (case config_field field globalExecConfig of
          Some v \<Rightarrow> (v, ''tools.exec'')
        | None \<Rightarrow> (defaultValue, ''__default__'')))"

definition formatRequestedSource :: "string \<Rightarrow> string \<Rightarrow> string \<Rightarrow> string" where
  "formatRequestedSource sourcePath field defaultValue =
     (if sourcePath = ''__default__'' then ''OpenClaw default ('' @ defaultValue @ '')''
      else sourcePath @ ''.'' @ field)"

definition formatHostFieldSource :: "string \<Rightarrow> string \<Rightarrow> string option \<Rightarrow> string" where
  "formatHostFieldSource hostPath field sourceSuffix =
     (if js_nullish sourceSuffix [] \<noteq> [] then hostPath @ '' '' @ js_nullish sourceSuffix []
      else if field = ''askFallback''
      then ''OpenClaw default ('' @ security_name DEFAULT_EXEC_APPROVAL_ASK_FALLBACK @ '')''
      else ''inherits requested tool policy'')"

record 'v policy_field_summary =
  pf_requested :: 'v
  pf_requestedSource :: string
  pf_host :: 'v
  pf_hostSource :: string
  pf_effective :: 'v
  pf_note :: string

record exec_snapshot =
  sn_scopeLabel :: string
  sn_configPath :: string
  sn_agentId :: "string option"
  sn_security :: "ExecSecurity policy_field_summary"
  sn_ask :: "ExecAsk policy_field_summary"
  sn_askFallback :: ExecSecurity
  sn_askFallback_source :: string
  sn_allowedDecisions :: "approval_decision list"

definition resolveExecPolicyScopeSnapshot ::
  "(string \<Rightarrow> nat \<Rightarrow> string) \<Rightarrow> exec_file \<Rightarrow> exec_config option \<Rightarrow> exec_config option \<Rightarrow> string \<Rightarrow> string \<Rightarrow>
    string option \<Rightarrow> string option \<Rightarrow> exec_snapshot" where
  "resolveExecPolicyScopeSnapshot uuid approvals scopeExecConfig globalExecConfig configPath scopeLabel agentId hostPath =
     (let requestedSecurity = resolveRequestedField xcfg_security SecFull scopeExecConfig globalExecConfig;
          requestedAsk = resolveRequestedField xcfg_ask AskOff scopeExecConfig globalExecConfig;
          resolved = resolveExecApprovalsFromFile uuid approvals agentId
            (policy_overrides (fst requestedSecurity) (fst requestedAsk));
          host = js_nullish hostPath ''~/.openclaw/exec-approvals.json'';
          effectiveSecurity = minSecurity (fst requestedSecurity) (rp_security (er_agent resolved));
          effectiveAsk = maxAsk (fst requestedAsk) (rp_ask (er_agent resolved));
          source = (\<lambda>path. if path = ''scope'' then configPath else path)
      in \<lparr>sn_scopeLabel = scopeLabel, sn_configPath = configPath,
          sn_agentId = (if js_nullish agentId [] = [] then None else agentId),
          sn_security = \<lparr>pf_requested = fst requestedSecurity,
            pf_requestedSource = formatRequestedSource (source (snd requestedSecurity)) ''security'' (security_name SecFull),
            pf_host = rp_security (er_agent resolved),
            pf_hostSource = formatHostFieldSource host ''security'' (er_security_source resolved),
            pf_effective = effectiveSecurity,
            pf_note = (if effectiveSecurity = fst requestedSecurity then ''requested security applies''
                       else ''stricter host security wins'')\<rparr>,
          sn_ask = \<lparr>pf_requested = fst requestedAsk,
            pf_requestedSource = formatRequestedSource (source (snd requestedAsk)) ''ask'' (ask_name AskOff),
            pf_host = rp_ask (er_agent resolved),
            pf_hostSource = formatHostFieldSource host ''ask'' (er_ask_source resolved),
            pf_effective = effectiveAsk,
            pf_note = (if effectiveAsk = fst requestedAsk then ''requested ask applies''
                       else ''more aggressive ask wins'')\<rparr>,
          sn_askFallback = minSecurity effectiveSecurity (rp_askFallback (er_agent resolved)),
          sn_askFallback_source = formatHostFieldSource host ''askFallback'' (er_askFallback_source resolved),
          sn_allowedDecisions = resolveExecApprovalAllowedDecisions (Some (ask_name effectiveAsk))\<rparr>)"

section \<open>Normalised files\<close>

lemma sanitize_security_cases:
  obtains (none) "sanitize_security v = JUndef" | (some) m where "sanitize_security v = JStr (security_name m)"
  by (cases "Option.bind (map_option js_trim (readStringValue v)) read_security") (auto simp: sanitize_security_def)

lemma sanitize_ask_cases:
  obtains (none) "sanitize_ask v = JUndef" | (some) m where "sanitize_ask v = JStr (ask_name m)"
  by (cases "Option.bind (map_option js_trim (readStringValue v)) read_ask") (auto simp: sanitize_ask_def)

lemma trim_security_name [simp]: "js_trim (security_name m) = security_name m"
  by (induction m) code_simp+

lemma trim_ask_name [simp]: "js_trim (ask_name a) = ask_name a"
  by (induction a) code_simp+

lemma sanitize_simps [simp]:
  "sanitize_security JUndef = JUndef" "sanitize_security (JStr (security_name m)) = JStr (security_name m)"
  "sanitize_ask JUndef = JUndef" "sanitize_ask (JStr (ask_name a)) = JStr (ask_name a)"
  by (simp_all add: sanitize_security_def sanitize_ask_def)

lemma sanitize_idem [simp]:
  "sanitize_security (sanitize_security v) = sanitize_security v"
  "sanitize_ask (sanitize_ask v) = sanitize_ask v"
   apply (cases v rule: sanitize_security_cases; simp)
  apply (cases v rule: sanitize_ask_cases; simp)
  done

lemma isExec_sanitized:
  "json_present (sanitize_security v) \<longleftrightarrow> isExecSecurity (sanitize_security v) \<noteq> None"
  "json_present (sanitize_ask v) \<longleftrightarrow> isExecAsk (sanitize_ask v) \<noteq> None"
   apply (cases v rule: sanitize_security_cases; simp add: json_present_def isExecSecurity_def)
  apply (cases v rule: sanitize_ask_cases; simp add: json_present_def isExecAsk_def)
  done

lemma sanitize_policy_idem [simp]:
  "sanitizeExecApprovalPolicy (sanitizeExecApprovalPolicy p) = sanitizeExecApprovalPolicy p"
  by (simp add: sanitizeExecApprovalPolicy_def)

lemma sanitize_policy_simps [simp]:
  "ep_security (sanitizeExecApprovalPolicy p) = sanitize_security (ep_security p)"
  "ep_ask (sanitizeExecApprovalPolicy p) = sanitize_ask (ep_ask p)"
  "ep_askFallback (sanitizeExecApprovalPolicy p) = sanitize_security (ep_askFallback p)"
  "ep_autoAllowSkills (sanitizeExecApprovalPolicy p) = ep_autoAllowSkills p"
  by (simp_all add: sanitizeExecApprovalPolicy_def)

lemma normalize_agent_simps [simp]:
  "ep_security (normalize_agent uuid a) = sanitize_security (ep_security a)"
  "ep_ask (normalize_agent uuid a) = sanitize_ask (ep_ask a)"
  "ep_askFallback (normalize_agent uuid a) = sanitize_security (ep_askFallback a)"
  "ep_autoAllowSkills (normalize_agent uuid a) = ep_autoAllowSkills a"
  "ea_allowlist (normalize_agent uuid a) =
     stripAllowlistCommandText (ensureAllowlistIds uuid (coerceAllowlistEntries (ea_allowlist a)))"
  by (simp_all add: normalize_agent_def sanitizeExecApprovalPolicy_def)

subsection \<open>Allowlists\<close>

definition entry_normal :: "allow_entry \<Rightarrow> bool" where
  "entry_normal e \<longleftrightarrow> js_trim (al_pattern e) \<noteq> [] \<and> js_nullish (al_id e) [] \<noteq> [] \<and> al_commandText e = None"

fun item_normal :: "allow_item \<Rightarrow> bool" where
  "item_normal (EntryItem e) \<longleftrightarrow> entry_normal e"
| "item_normal _ \<longleftrightarrow> False"

definition normalize_allowlist :: "(nat \<Rightarrow> string) \<Rightarrow> allow_item list option \<Rightarrow> allow_item list option" where
  "normalize_allowlist uuid allowlist =
     stripAllowlistCommandText (ensureAllowlistIds uuid (coerceAllowlistEntries allowlist))"

lemma coerce_item_normal: "item_normal x \<Longrightarrow> coerce_item x = Some x"
  by (cases x) (auto simp: entry_normal_def)

lemma ensure_id_normal: "item_normal x \<Longrightarrow> ensure_id new x = x"
  by (cases x) (auto simp: entry_normal_def)

lemma strip_normal: "item_normal x \<Longrightarrow> strip_command_text x = x"
  by (cases x) (auto simp: entry_normal_def)

lemma normalize_item_normal:
  "coerce_item x = Some y \<Longrightarrow> new \<noteq> [] \<Longrightarrow> item_normal (strip_command_text (ensure_id new y))"
  by (cases x) (auto simp: entry_normal_def Let_def split: if_splits)

lemma map_filter_normal: "list_all item_normal xs \<Longrightarrow> List.map_filter coerce_item xs = xs"
  by (induction xs) (auto simp: map_filter_simps coerce_item_normal)

lemma normalize_allowlist_fixed:
  assumes "pred_option (list_all item_normal) allowlist"
  shows "normalize_allowlist uuid allowlist = allowlist"
proof (cases allowlist)
  case (Some xs)
  with assms have normal: "list_all item_normal xs" by simp
  have ids: "map (\<lambda>(i, item). ensure_id (uuid i) item) (enumerate n xs) = xs" for n
    using normal by (induction xs arbitrary: n) (auto simp: ensure_id_normal)
  have strip: "map strip_command_text xs = xs"
    using normal by (induction xs) (auto simp: strip_normal)
  show ?thesis
    using Some normal ids strip
    by (auto simp: normalize_allowlist_def coerceAllowlistEntries_def map_filter_normal Let_def
        ensureAllowlistIds_def stripAllowlistCommandText_def)
qed (simp add: normalize_allowlist_def coerceAllowlistEntries_def ensureAllowlistIds_def stripAllowlistCommandText_def)

lemma normalize_allowlist_normal:
  assumes "\<And>i. uuid i \<noteq> []"
  shows "pred_option (list_all item_normal) (normalize_allowlist uuid allowlist)"
proof (cases "coerceAllowlistEntries allowlist")
  case (Some ys)
  have coerced: "\<exists>x. coerce_item x = Some y" if "y \<in> set ys" for y
    using Some that
    by (auto simp: coerceAllowlistEntries_def Let_def List.map_filter_def split: option.splits if_splits; blast)
  have "list_all item_normal (map strip_command_text (map (\<lambda>(i, item). ensure_id (uuid i) item) (enumerate 0 ys)))"
    unfolding list_all_length
  proof (intro allI impI)
    fix i
    assume "i < length (map strip_command_text (map (\<lambda>(i, item). ensure_id (uuid i) item) (enumerate 0 ys)))"
    then have i: "i < length ys" by simp
    obtain x where "coerce_item x = Some (ys ! i)" using coerced i nth_mem by blast
    from normalize_item_normal [OF this assms] i
    show "item_normal (map strip_command_text (map (\<lambda>(i, item). ensure_id (uuid i) item) (enumerate 0 ys)) ! i)"
      by (simp add: nth_enumerate_eq)
  qed
  with Some show ?thesis
    by (simp add: normalize_allowlist_def ensureAllowlistIds_def stripAllowlistCommandText_def)
qed (simp add: normalize_allowlist_def ensureAllowlistIds_def stripAllowlistCommandText_def)

subsection \<open>Files\<close>

lemma migrate_default_none [simp]: "jm_get (migrate_default agents) ''default'' = None"
  by (auto simp: migrate_default_def DEFAULT_AGENT_ID_def split: option.splits)

lemma migrate_default_fixed: "jm_get agents ''default'' = None \<Longrightarrow> migrate_default agents = agents"
  by (simp add: migrate_default_def)

lemma normalized_agent [simp]:
  "jm_get (ef_agents (normalizeExecApprovals uuid file)) key =
     map_option (normalize_agent (uuid key)) (jm_get (migrate_default (ef_agents file)) key)"
  by (simp add: normalizeExecApprovals_def jm_get_map)

lemma normalized_defaults [simp]:
  "ef_defaults (normalizeExecApprovals uuid file) = sanitizeExecApprovalPolicy (ef_defaults file)"
  by (simp add: normalizeExecApprovals_def)

definition agent_normal :: "exec_agent \<Rightarrow> bool" where
  "agent_normal a \<longleftrightarrow> sanitizeExecApprovalPolicy a = a \<and> pred_option (list_all item_normal) (ea_allowlist a)"

definition file_normal :: "exec_file \<Rightarrow> bool" where
  "file_normal f \<longleftrightarrow> sanitizeExecApprovalPolicy (ef_defaults f) = ef_defaults f \<and>
     jm_get (ef_agents f) ''default'' = None \<and> list_all (\<lambda>(_, a). agent_normal a) (ef_agents f)"

lemma normalize_agent_normal: "(\<And>i. uuid i \<noteq> []) \<Longrightarrow> agent_normal (normalize_agent uuid a)"
  using normalize_allowlist_normal [of uuid "ea_allowlist a"]
  by (simp add: agent_normal_def normalize_allowlist_def)
    (simp add: normalize_agent_def sanitizeExecApprovalPolicy_def)

lemma normalize_agent_fixed: "agent_normal a \<Longrightarrow> normalize_agent uuid a = a"
  using normalize_allowlist_fixed [of "ea_allowlist a" uuid]
  by (simp add: normalize_agent_def agent_normal_def normalize_allowlist_def)

lemma file_normal_normalize:
  assumes "\<And>k i. uuid k i \<noteq> []"
  shows "file_normal (normalizeExecApprovals uuid f)"
proof -
  have "jm_get (ef_agents (normalizeExecApprovals uuid f)) ''default'' = None" by simp
  moreover have "list_all (\<lambda>(_, a). agent_normal a) (ef_agents (normalizeExecApprovals uuid f))"
    using assms by (auto simp: normalizeExecApprovals_def list_all_iff intro: normalize_agent_normal)
  ultimately show ?thesis by (simp add: file_normal_def)
qed

lemma normalize_file_normal:
  assumes "file_normal f"
  shows "ef_defaults (normalizeExecApprovals uuid f) = ef_defaults f"
    and "ef_agents (normalizeExecApprovals uuid f) = ef_agents f"
proof -
  show "ef_defaults (normalizeExecApprovals uuid f) = ef_defaults f"
    using assms by (simp add: file_normal_def)
  have "map (\<lambda>(key, a). (key, normalize_agent (uuid key) a)) (ef_agents f) = ef_agents f"
    using assms by (intro map_idI) (auto simp: file_normal_def list_all_iff normalize_agent_fixed)
  then show "ef_agents (normalizeExecApprovals uuid f) = ef_agents f"
    using assms by (simp add: normalizeExecApprovals_def migrate_default_fixed file_normal_def)
qed

subsection \<open>The policy of a normalised file\<close>

text \<open>Agent, then wildcard, then defaults, then the requested value.\<close>

definition policy_chain :: "('a exec_policy_scheme \<Rightarrow> 'v option) \<Rightarrow> (exec_policy \<Rightarrow> 'v option) \<Rightarrow> 'a exec_policy_scheme \<Rightarrow>
    'a exec_policy_scheme \<Rightarrow> exec_policy \<Rightarrow> 'v \<Rightarrow> 'v" where
  "policy_chain agent_value default_value agent wildcard defaults fallback =
     js_nullish (or_else (agent_value agent) (or_else (agent_value wildcard) (default_value defaults))) fallback"

definition chain_policy :: "exec_file \<Rightarrow> string option \<Rightarrow> ExecSecurity \<Rightarrow> ExecAsk \<Rightarrow> ExecSecurity \<times> ExecAsk \<times> ExecSecurity" where
  "chain_policy file agentId security ask =
     (let agent = agent_of (ef_agents file) (js_nullish agentId DEFAULT_AGENT_ID);
          wildcard = agent_of (ef_agents file) ''*''
      in (policy_chain (isExecSecurity \<circ> ep_security) (isExecSecurity \<circ> ep_security) agent wildcard (ef_defaults file) security,
          policy_chain (isExecAsk \<circ> ep_ask) (isExecAsk \<circ> ep_ask) agent wildcard (ef_defaults file) ask,
          policy_chain (isExecSecurity \<circ> ep_askFallback) (isExecSecurity \<circ> ep_askFallback) agent wildcard
            (ef_defaults file) SecFull))"

lemma resolveAgentField_chain:
  assumes "json_present a \<longleftrightarrow> valid a \<noteq> None" "json_present w \<longleftrightarrow> valid w \<noteq> None"
  shows "fst (resolveAgentField valid field key d a a w w (js_nullish (valid d) fallback)) =
     js_nullish (or_else (valid a) (or_else (valid w) (valid d))) fallback"
  using assms
  by (auto simp: resolveAgentField_def resolveDefaultField_def or_else_def split: option.splits)

lemma agent_of_normalized:
  obtains b where "agent_of (ef_agents (normalizeExecApprovals uuid f)) key = sanitizeExecApprovalPolicy b"
proof (cases "jm_get (migrate_default (ef_agents f)) key")
  case None
  have "empty_agent = sanitizeExecApprovalPolicy empty_agent"
    by (simp add: empty_agent_def sanitizeExecApprovalPolicy_def)
  with None that show ?thesis by (simp add: agent_of_def)
next
  case (Some a)
  have "normalize_agent (uuid key) a = sanitizeExecApprovalPolicy (normalize_agent (uuid key) a)"
    by (simp add: normalize_agent_def sanitizeExecApprovalPolicy_def)
  with Some that show ?thesis by (simp add: agent_of_def)
qed

text \<open>The policy part of an agent is not changed by normalising twice, whatever the ids drawn.\<close>

definition same_policy :: "exec_agent \<Rightarrow> exec_agent \<Rightarrow> bool" where
  "same_policy a b \<longleftrightarrow> ep_security a = ep_security b \<and> ep_ask a = ep_ask b \<and> ep_askFallback a = ep_askFallback b
     \<and> ep_autoAllowSkills a = ep_autoAllowSkills b"

lemma agent_of_normalized_twice:
  "same_policy (agent_of (ef_agents (normalizeExecApprovals uuid' (normalizeExecApprovals uuid f))) key)
     (agent_of (ef_agents (normalizeExecApprovals uuid f)) key)"
  by (auto simp: same_policy_def agent_of_def migrate_default_fixed split: option.splits)
    (cases "jm_get (migrate_default (ef_agents f)) key"; simp)+

definition policy_of :: "exec_resolved_policy \<Rightarrow> ExecSecurity \<times> ExecAsk \<times> ExecSecurity" where
  "policy_of p = (rp_security p, rp_ask p, rp_askFallback p)"

lemma resolve_normalized:
  "policy_of (er_agent (resolveExecApprovalsFromFile uuid' (normalizeExecApprovals uuid f) agentId
      (policy_overrides security ask))) = chain_policy (normalizeExecApprovals uuid f) agentId security ask"
proof -
  let ?g = "normalizeExecApprovals uuid f"
  let ?key = "js_nullish agentId DEFAULT_AGENT_ID"
  obtain a where a: "agent_of (ef_agents ?g) ?key = sanitizeExecApprovalPolicy a" by (rule agent_of_normalized)
  obtain w where w: "agent_of (ef_agents ?g) ''*'' = sanitizeExecApprovalPolicy w" by (rule agent_of_normalized)
  note same = agent_of_normalized_twice [of uuid' uuid f, unfolded same_policy_def]
  show ?thesis
    unfolding policy_of_def chain_policy_def policy_chain_def resolveExecApprovalsFromFile_def policy_overrides_def
    by (simp add: Let_def same a w isExec_sanitized resolveAgentField_chain
        DEFAULT_EXEC_APPROVAL_ASK_FALLBACK_def del: normalized_agent)
qed

lemma resolved_policy_chain:
  "policy_of (er_agent (resolveExecApprovals uuid newToken home disk agentId (policy_overrides security ask))) =
     chain_policy (normalizeExecApprovals uuid (js_nullish disk empty_file)) agentId security ask"
proof -
  let ?g = "normalizeExecApprovals uuid (js_nullish disk empty_file)"
  let ?h = "ensureExecApprovals uuid newToken home disk"
  have fields: "ef_agents ?h = ef_agents (normalizeExecApprovals uuid ?g)"
    "ef_defaults ?h = ef_defaults (normalizeExecApprovals uuid ?g)"
    by (simp_all add: ensureExecApprovals_def loadExecApprovals_def Let_def)
  have cong: "policy_of (er_agent (resolveExecApprovalsFromFile uuid f agentId ov)) =
      policy_of (er_agent (resolveExecApprovalsFromFile uuid f' agentId ov))"
    if "ef_agents f = ef_agents f'" "ef_defaults f = ef_defaults f'" for f f' ov
    using that by (simp add: resolveExecApprovalsFromFile_def policy_of_def Let_def normalizeExecApprovals_def)
  have "policy_of (er_agent (resolveExecApprovals uuid newToken home disk agentId (policy_overrides security ask))) =
      policy_of (er_agent (resolveExecApprovalsFromFile uuid (normalizeExecApprovals uuid ?g) agentId
        (policy_overrides security ask)))"
    unfolding resolveExecApprovals_def by (rule cong [OF fields])
  also have "\<dots> = chain_policy (normalizeExecApprovals uuid ?g) agentId security ask"
    by (rule resolve_normalized)
  also have "\<dots> = chain_policy ?g agentId security ask"
    using agent_of_normalized_twice [of uuid uuid "js_nullish disk empty_file", unfolded same_policy_def]
    by (simp add: chain_policy_def policy_chain_def Let_def del: normalized_agent)
  finally show ?thesis .
qed

lemma reported_policy_chain:
  "policy_of (er_agent (resolveExecApprovalsFromFile uuid (loadExecApprovals uuid disk) agentId
      (policy_overrides security ask))) =
     chain_policy (normalizeExecApprovals uuid (js_nullish disk empty_file)) agentId security ask"
  by (simp add: loadExecApprovals_def resolve_normalized)

lemma policy_of_eq: "policy_of p = (s, a, f) \<longleftrightarrow> rp_security p = s \<and> rp_ask p = a \<and> rp_askFallback p = f"
  by (auto simp: policy_of_def)

text \<open>The snapshot as a function of the policy of the file.\<close>

lemma snapshot_effective:
  fixes scope globalc :: "exec_config option"
  defines "security \<equiv> fst (resolveRequestedField xcfg_security SecFull scope globalc)"
    and "ask \<equiv> fst (resolveRequestedField xcfg_ask AskOff scope globalc)"
  assumes "chain_policy (normalizeExecApprovals uuid (js_nullish disk empty_file)) agentId security ask = (s, a, f)"
  shows "pf_requested (sn_security (resolveExecPolicyScopeSnapshot uuid (loadExecApprovals uuid disk) scope globalc
            path label agentId hostPath)) = security"
    and "pf_effective (sn_security (resolveExecPolicyScopeSnapshot uuid (loadExecApprovals uuid disk) scope globalc
            path label agentId hostPath)) = min security s"
    and "pf_requested (sn_ask (resolveExecPolicyScopeSnapshot uuid (loadExecApprovals uuid disk) scope globalc
            path label agentId hostPath)) = ask"
    and "pf_effective (sn_ask (resolveExecPolicyScopeSnapshot uuid (loadExecApprovals uuid disk) scope globalc
            path label agentId hostPath)) = max ask a"
    and "sn_askFallback (resolveExecPolicyScopeSnapshot uuid (loadExecApprovals uuid disk) scope globalc
            path label agentId hostPath) = min (min security s) f"
proof -
  have "policy_of (er_agent (resolveExecApprovalsFromFile uuid (loadExecApprovals uuid disk) agentId
      (policy_overrides security ask))) = (s, a, f)"
    using assms by (simp add: reported_policy_chain)
  then have "rp_security (er_agent (resolveExecApprovalsFromFile uuid (loadExecApprovals uuid disk) agentId
        (policy_overrides security ask))) = s"
    "rp_ask (er_agent (resolveExecApprovalsFromFile uuid (loadExecApprovals uuid disk) agentId
        (policy_overrides security ask))) = a"
    "rp_askFallback (er_agent (resolveExecApprovalsFromFile uuid (loadExecApprovals uuid disk) agentId
        (policy_overrides security ask))) = f"
    by (simp_all add: policy_of_eq)
  note facts = this [unfolded security_def ask_def]
  show "pf_requested (sn_security (resolveExecPolicyScopeSnapshot uuid (loadExecApprovals uuid disk) scope globalc
            path label agentId hostPath)) = security"
    "pf_effective (sn_security (resolveExecPolicyScopeSnapshot uuid (loadExecApprovals uuid disk) scope globalc
            path label agentId hostPath)) = min security s"
    "pf_requested (sn_ask (resolveExecPolicyScopeSnapshot uuid (loadExecApprovals uuid disk) scope globalc
            path label agentId hostPath)) = ask"
    "pf_effective (sn_ask (resolveExecPolicyScopeSnapshot uuid (loadExecApprovals uuid disk) scope globalc
            path label agentId hostPath)) = max ask a"
    "sn_askFallback (resolveExecPolicyScopeSnapshot uuid (loadExecApprovals uuid disk) scope globalc
            path label agentId hostPath) = min (min security s) f"
    by (simp_all add: resolveExecPolicyScopeSnapshot_def Let_def minSecurity_min maxAsk_max security_def ask_def facts)
qed

lemma context_effective:
  assumes "chain_policy (normalizeExecApprovals uuid (js_nullish disk empty_file)) agentId security ask = (s, a, f)"
  shows "min security s = SecDeny \<Longrightarrow> resolveExecHostApprovalContext uuid newToken home disk agentId security ask host =
      Inl (''exec denied: host='' @ host_name host @ '' security=deny'')"
    and "min security s \<noteq> SecDeny \<Longrightarrow> \<exists>c. resolveExecHostApprovalContext uuid newToken home disk agentId security ask host =
      Inr c \<and> xc_security c = min security s \<and> xc_ask c = max ask a \<and> xc_askFallback c = min (min security s) f"
proof -
  have "policy_of (er_agent (resolveExecApprovals uuid newToken home disk agentId (policy_overrides security ask))) = (s, a, f)"
    using assms by (simp add: resolved_policy_chain)
  then have facts: "rp_security (er_agent (resolveExecApprovals uuid newToken home disk agentId (policy_overrides security ask))) = s"
    "rp_ask (er_agent (resolveExecApprovals uuid newToken home disk agentId (policy_overrides security ask))) = a"
    "rp_askFallback (er_agent (resolveExecApprovals uuid newToken home disk agentId (policy_overrides security ask))) = f"
    by (simp_all add: policy_of_eq)
  show "min security s = SecDeny \<Longrightarrow> resolveExecHostApprovalContext uuid newToken home disk agentId security ask host =
      Inl (''exec denied: host='' @ host_name host @ '' security=deny'')"
    by (simp add: resolveExecHostApprovalContext_def Let_def facts minSecurity_min)
  show "min security s \<noteq> SecDeny \<Longrightarrow> \<exists>c. resolveExecHostApprovalContext uuid newToken home disk agentId security ask host =
      Inr c \<and> xc_security c = min security s \<and> xc_ask c = max ask a \<and> xc_askFallback c = min (min security s) f"
    by (simp add: resolveExecHostApprovalContext_def Let_def facts minSecurity_min maxAsk_max)
qed

lemma chain_policy_mono:
  assumes "chain_policy file agentId security ask = (s, a, f)" "chain_policy file agentId security' ask' = (s', a', f')"
    and "security' \<le> security" "ask \<le> ask'"
  shows "min security' s' \<le> min security s" "max ask a \<le> max ask' a'" "min (min security' s') f' \<le> min (min security s) f"
proof -
  let ?agent = "agent_of (ef_agents file) (js_nullish agentId DEFAULT_AGENT_ID)"
  let ?wild = "agent_of (ef_agents file) ''*''"
  obtain S A F where chain: "\<And>sec k. chain_policy file agentId sec k = (js_nullish S sec, js_nullish A k, F)"
    by (simp add: chain_policy_def policy_chain_def Let_def)
  with assms(1,2) have eqs: "s = js_nullish S security" "s' = js_nullish S security'" "a = js_nullish A ask"
    "a' = js_nullish A ask'" "f = F" "f' = F" by auto
  show sec: "min security' s' \<le> min security s"
    using assms(3) by (cases S) (auto simp: eqs min_le_iff_disj)
  show "max ask a \<le> max ask' a'"
    using assms(4) by (cases A) (auto simp: eqs le_max_iff_disj)
  show "min (min security' s') f' \<le> min (min security s) f"
    using sec by (simp add: eqs(5,6) min.coboundedI1)
qed

text \<open>What the report takes as requested is what a run has configured, where the file's defaults do not speak first.\<close>

definition defaults_silent :: "exec_policy \<Rightarrow> exec_config \<Rightarrow> bool" where
  "defaults_silent approvalDefaults config \<longleftrightarrow>
     (xcfg_security config = None \<longrightarrow> isExecSecurity (ep_security approvalDefaults) = None) \<and>
     (xcfg_ask config = None \<longrightarrow> isExecAsk (ep_ask approvalDefaults) = None)"

lemma configured_is_requested:
  assumes "defaults_silent ad (resolveExecConfig scope globalc)" "host \<noteq> HostSandbox"
  shows "configured_modes (resolveExecConfig scope globalc) ad host =
     (fst (resolveRequestedField xcfg_security SecFull scope globalc), fst (resolveRequestedField xcfg_ask AskOff scope globalc))"
  using assms
  by (auto simp: defaults_silent_def configured_modes_def resolveExecConfig_def resolveRequestedField_def split: option.splits)


section \<open>The allowlist operations\<close>

definition existing_items :: "exec_file \<Rightarrow> string \<Rightarrow> allow_item list" where
  "existing_items approvals target = js_nullish (ea_allowlist (agent_of (ef_agents approvals) target)) []"

definition store_items :: "exec_file \<Rightarrow> string \<Rightarrow> allow_item list \<Rightarrow> exec_file" where
  "store_items approvals target items =
     approvals\<lparr>ef_agents := jm_set target ((agent_of (ef_agents approvals) target)\<lparr>ea_allowlist := Some items\<rparr>)
       (ef_agents approvals)\<rparr>"

fun map_entry :: "(allow_entry \<Rightarrow> allow_entry) \<Rightarrow> allow_item \<Rightarrow> allow_item" where
  "map_entry f (EntryItem e) = EntryItem (f e)"
| "map_entry f item = item"

definition recordAllowlistUse ::
  "string \<Rightarrow> int \<Rightarrow> exec_file \<Rightarrow> string option \<Rightarrow> allow_entry \<Rightarrow> string \<Rightarrow> string option \<Rightarrow> exec_file" where
  "recordAllowlistUse new now approvals agentId entry command resolved =
     (let target = js_nullish agentId DEFAULT_AGENT_ID
      in store_items approvals target
           (map (map_entry (\<lambda>item.
              if al_pattern item = al_pattern entry \<and> al_argPattern item = al_argPattern entry
              then item\<lparr>al_id := Some (js_nullish (al_id item) new), al_lastUsedAt := Some now,
                        al_lastUsedCommand := Some command, al_lastResolvedPath := resolved\<rparr>
              else item)) (existing_items approvals target)))"

definition buildAllowlistEntryMatchKey :: "allow_entry \<Rightarrow> string" where
  "buildAllowlistEntryMatchKey entry = al_pattern entry @ [CHR 0x00] @ js_trim (js_nullish (al_argPattern entry) [])"

fun recordAllowlistMatchesUse ::
  "string \<Rightarrow> int \<Rightarrow> string list \<Rightarrow> exec_file \<Rightarrow> string option \<Rightarrow> allow_entry list \<Rightarrow> string \<Rightarrow> string option \<Rightarrow> exec_file" where
  "recordAllowlistMatchesUse new now seen approvals agentId [] command resolved = approvals"
| "recordAllowlistMatchesUse new now seen approvals agentId (m # matches) command resolved =
     (if al_pattern m = [] then recordAllowlistMatchesUse new now seen approvals agentId matches command resolved
      else let key = buildAllowlistEntryMatchKey m in
        if key \<in> set seen then recordAllowlistMatchesUse new now seen approvals agentId matches command resolved
        else recordAllowlistMatchesUse new now (key # seen)
               (recordAllowlistUse new now approvals agentId m command resolved) agentId matches command resolved)"

fun item_is :: "string \<Rightarrow> string option \<Rightarrow> allow_item \<Rightarrow> bool" where
  "item_is pattern arg (EntryItem e) \<longleftrightarrow> al_pattern e = pattern \<and> al_argPattern e = arg"
| "item_is pattern arg _ \<longleftrightarrow> False"

fun item_source :: "allow_item \<Rightarrow> string option" where
  "item_source (EntryItem e) = al_source e"
| "item_source _ = None"

definition addAllowlistEntry ::
  "string \<Rightarrow> int \<Rightarrow> exec_file \<Rightarrow> string option \<Rightarrow> string \<Rightarrow> string option \<Rightarrow> string option \<Rightarrow> exec_file" where
  "addAllowlistEntry new now approvals agentId pattern argPattern source =
     (let target = js_nullish agentId DEFAULT_AGENT_ID;
          allowlist = existing_items approvals target;
          trimmed = js_trim pattern
      in if trimmed = [] then approvals
         else let trimmedArgPattern = normalizeOptionalString argPattern in
           case find (item_is trimmed trimmedArgPattern) allowlist of
             Some existingEntry \<Rightarrow>
               if js_nullish source [] = [] \<or> item_source existingEntry = source then approvals
               else store_items approvals target
                 (map (map_entry (\<lambda>entry.
                    if al_pattern entry = trimmed
                    then entry\<lparr>al_argPattern := trimmedArgPattern, al_source := or_else source (al_source entry),
                               al_lastUsedAt := Some now\<rparr>
                    else entry)) allowlist)
           | None \<Rightarrow> store_items approvals target (allowlist @
               [EntryItem \<lparr>al_id = Some new, al_pattern = trimmed, al_source = source, al_commandText = None,
                  al_argPattern = trimmedArgPattern, al_lastUsedAt = Some now, al_lastUsedCommand = None,
                  al_lastResolvedPath = None\<rparr>]))"

definition buildDurableCommandApprovalPattern :: "(string \<Rightarrow> string) \<Rightarrow> string \<Rightarrow> string" where
  "buildDurableCommandApprovalPattern digest commandText = ''=command:'' @ digest commandText"

definition addDurableCommandApproval ::
  "(string \<Rightarrow> string) \<Rightarrow> string \<Rightarrow> int \<Rightarrow> exec_file \<Rightarrow> string option \<Rightarrow> string \<Rightarrow> exec_file" where
  "addDurableCommandApproval digest new now approvals agentId commandText =
     (let normalized = js_trim commandText in
      if normalized = [] then approvals
      else addAllowlistEntry new now approvals agentId (buildDurableCommandApprovalPattern digest normalized) None
             (Some ''allow-always''))"

text \<open>\<open>patterns\<close> is the result of \<open>resolveAllowAlwaysPatternEntries\<close>: executables with argument patterns.\<close>

definition persistAllowAlwaysPatterns ::
  "string \<Rightarrow> int \<Rightarrow> exec_file \<Rightarrow> string option \<Rightarrow> (string \<times> string option) list \<Rightarrow> exec_file" where
  "persistAllowAlwaysPatterns new now approvals agentId patterns =
     foldl (\<lambda>file (pattern, argPattern). if pattern = [] then file
              else addAllowlistEntry new now file agentId pattern argPattern (Some ''allow-always'')) approvals patterns"

section \<open>Durable approvals and the need to ask\<close>

definition requiresExecApproval :: "ExecAsk \<Rightarrow> ExecSecurity \<Rightarrow> bool \<Rightarrow> bool \<Rightarrow> bool \<Rightarrow> bool" where
  "requiresExecApproval ask security analysisOk allowlistSatisfied durableApprovalSatisfied =
     (if ask = AskAlways then True
      else if durableApprovalSatisfied then False
      else ask = AskOnMiss \<and> security = SecAllowlist \<and> (\<not> analysisOk \<or> \<not> allowlistSatisfied))"

definition hasExactCommandDurableExecApproval :: "(string \<Rightarrow> string) \<Rightarrow> allow_entry list \<Rightarrow> string option \<Rightarrow> bool" where
  "hasExactCommandDurableExecApproval digest allowlist commandText =
     (let normalizedCommand = js_trim (js_nullish commandText []) in
      if normalizedCommand = [] then False
      else list_ex (\<lambda>entry. al_source entry = Some ''allow-always'' \<and>
             (al_pattern entry = buildDurableCommandApprovalPattern digest normalizedCommand \<or>
              map_option js_trim (al_commandText entry) = Some normalizedCommand)) allowlist)"

definition hasSegmentDurableExecApproval :: "bool \<Rightarrow> allow_entry option list \<Rightarrow> bool" where
  "hasSegmentDurableExecApproval analysisOk segmentAllowlistEntries \<longleftrightarrow>
     analysisOk \<and> segmentAllowlistEntries \<noteq> [] \<and>
     list_all (\<lambda>e. Option.bind e al_source = Some ''allow-always'') segmentAllowlistEntries"

definition hasDurableExecApproval ::
  "(string \<Rightarrow> string) \<Rightarrow> bool \<Rightarrow> allow_entry option list \<Rightarrow> allow_entry list \<Rightarrow> string option \<Rightarrow> bool" where
  "hasDurableExecApproval digest analysisOk segmentAllowlistEntries allowlist commandText \<longleftrightarrow>
     hasExactCommandDurableExecApproval digest allowlist commandText \<or>
     hasSegmentDurableExecApproval analysisOk segmentAllowlistEntries"

subsection \<open>The file after an operation\<close>

lemma entry_items_append [simp]: "entry_items (xs @ ys) = entry_items xs @ entry_items ys"
  by (induction xs rule: entry_items.induct) auto

lemma existing_items_entries: "entry_items (existing_items f target) = agent_entries (agent_of (ef_agents f) target)"
  by (simp add: existing_items_def agent_entries_def)

lemma agent_of_store [simp]:
  "agent_of (ef_agents (store_items f target items)) key =
     (if key = target then (agent_of (ef_agents f) target)\<lparr>ea_allowlist := Some items\<rparr> else agent_of (ef_agents f) key)"
  by (simp add: store_items_def agent_of_def)

lemma set_jm_set: "set (jm_set k v m) \<subseteq> insert (k, v) (set m)"
  by (induction m) auto

lemma empty_agent_normal: "agent_normal empty_agent"
  by (simp add: agent_normal_def empty_agent_def sanitizeExecApprovalPolicy_def)

lemma agent_of_normal: "file_normal f \<Longrightarrow> agent_normal (agent_of (ef_agents f) key)"
  by (cases "jm_get (ef_agents f) key")
    (auto simp: agent_of_def empty_agent_normal file_normal_def list_all_iff dest!: map_of_SomeD)

lemma existing_items_normal: "file_normal f \<Longrightarrow> list_all item_normal (existing_items f target)"
  using agent_of_normal [of f target]
  by (cases "ea_allowlist (agent_of (ef_agents f) target)") (simp_all add: existing_items_def agent_normal_def)

lemma store_items_normal:
  assumes "file_normal f" "target \<noteq> ''default''" "list_all item_normal items"
  shows "file_normal (store_items f target items)"
proof -
  have "sanitizeExecApprovalPolicy (agent_of (ef_agents f) target) = agent_of (ef_agents f) target"
    using agent_of_normal [OF assms(1)] by (simp add: agent_normal_def)
  then have "agent_normal ((agent_of (ef_agents f) target)\<lparr>ea_allowlist := Some items\<rparr>)"
    using assms(3) by (auto simp: agent_normal_def sanitizeExecApprovalPolicy_def
        intro!: exec_policy.equality dest: arg_cong [of _ _ ep_security] arg_cong [of _ _ ep_ask]
          arg_cong [of _ _ ep_askFallback])
  with assms(1,2) show ?thesis
    using set_jm_set [of target _ "ef_agents f"]
    by (fastforce simp: file_normal_def store_items_def list_all_iff)
qed

lemma map_entry_normal:
  assumes "\<And>e. entry_normal e \<Longrightarrow> entry_normal (f e)" "list_all item_normal xs"
  shows "list_all item_normal (map (map_entry f) xs)"
proof -
  have "item_normal x \<Longrightarrow> item_normal (map_entry f x)" for x
    using assms(1) by (cases x) auto
  with assms(2) show ?thesis by (auto simp: list_all_iff)
qed

lemma entry_items_map: "list_all item_normal xs \<Longrightarrow> entry_items (map (map_entry f) xs) = map f (entry_items xs)"
  by (induction xs rule: entry_items.induct) auto

lemma addAllowlistEntry_cases:
  obtains (kept) "addAllowlistEntry new now f agentId pattern arg source = f" "js_trim pattern \<noteq> []"
      "\<exists>x\<in>set (existing_items f (js_nullish agentId DEFAULT_AGENT_ID)).
         item_is (js_trim pattern) (normalizeOptionalString arg) x \<and>
         (js_nullish source [] = [] \<or> item_source x = source)"
  | (blank) "addAllowlistEntry new now f agentId pattern arg source = f" "js_trim pattern = []"
  | (rewritten) "addAllowlistEntry new now f agentId pattern arg source =
        store_items f (js_nullish agentId DEFAULT_AGENT_ID)
          (map (map_entry (\<lambda>entry. if al_pattern entry = js_trim pattern
              then entry\<lparr>al_argPattern := normalizeOptionalString arg, al_source := or_else source (al_source entry),
                         al_lastUsedAt := Some now\<rparr>
              else entry)) (existing_items f (js_nullish agentId DEFAULT_AGENT_ID)))"
      "js_trim pattern \<noteq> []"
      "\<exists>x\<in>set (existing_items f (js_nullish agentId DEFAULT_AGENT_ID)).
         item_is (js_trim pattern) (normalizeOptionalString arg) x"
  | (added) "addAllowlistEntry new now f agentId pattern arg source =
        store_items f (js_nullish agentId DEFAULT_AGENT_ID)
          (existing_items f (js_nullish agentId DEFAULT_AGENT_ID) @
           [EntryItem \<lparr>al_id = Some new, al_pattern = js_trim pattern, al_source = source, al_commandText = None,
              al_argPattern = normalizeOptionalString arg, al_lastUsedAt = Some now, al_lastUsedCommand = None,
              al_lastResolvedPath = None\<rparr>])"
      "js_trim pattern \<noteq> []"
proof (cases "js_trim pattern = []")
  case True
  then show ?thesis using blank by (simp add: addAllowlistEntry_def Let_def)
next
  case False
  let ?items = "existing_items f (js_nullish agentId DEFAULT_AGENT_ID)"
  let ?arg = "normalizeOptionalString arg"
  show ?thesis
  proof (cases "find (item_is (js_trim pattern) ?arg) ?items")
    case None
    with False show ?thesis using added by (simp add: addAllowlistEntry_def Let_def)
  next
    case (Some x)
    from find_SomeD [OF this] have x: "x \<in> set ?items" "item_is (js_trim pattern) ?arg x" by auto
    show ?thesis
    proof (cases "js_nullish source [] = [] \<or> item_source x = source")
      case True
      with False Some x show ?thesis using kept by (auto simp: addAllowlistEntry_def Let_def)
    next
      case no: False
      with False Some x show ?thesis using rewritten by (auto simp: addAllowlistEntry_def Let_def)
    qed
  qed
qed

lemma addAllowlistEntry_normal:
  assumes "file_normal f" "js_nullish agentId DEFAULT_AGENT_ID \<noteq> ''default''" "new \<noteq> []"
  shows "file_normal (addAllowlistEntry new now f agentId pattern arg source)"
proof (cases rule: addAllowlistEntry_cases [of new now f agentId pattern arg source])
  case rewritten
  show ?thesis
    unfolding rewritten(1)
    by (intro store_items_normal assms map_entry_normal existing_items_normal) (auto simp: entry_normal_def)
next
  case added
  have "list_all item_normal (existing_items f (js_nullish agentId DEFAULT_AGENT_ID))"
    by (rule existing_items_normal [OF assms(1)])
  with added(2) assms(3) show ?thesis
    unfolding added(1) by (intro store_items_normal assms) (simp add: entry_normal_def)
qed (simp_all add: assms)

lemma item_is_entry: "item_is p a x \<Longrightarrow> x \<in> set xs \<Longrightarrow>
    \<exists>e\<in>set (entry_items xs). x = EntryItem e \<and> al_pattern e = p \<and> al_argPattern e = a"
  by (induction xs rule: entry_items.induct) auto

text \<open>The entry is there afterwards, with the source that was asked for.\<close>

lemma addAllowlistEntry_adds:
  assumes "file_normal f" "js_trim pattern \<noteq> []" "src \<noteq> []"
  shows "\<exists>e\<in>set (agent_entries (agent_of (ef_agents (addAllowlistEntry new now f agentId pattern arg (Some src)))
            (js_nullish agentId DEFAULT_AGENT_ID))).
     al_pattern e = js_trim pattern \<and> al_argPattern e = normalizeOptionalString arg \<and> al_source e = Some src"
proof (cases rule: addAllowlistEntry_cases [of new now f agentId pattern arg "Some src"])
  case kept
  then obtain x where "x \<in> set (existing_items f (js_nullish agentId DEFAULT_AGENT_ID))"
    "item_is (js_trim pattern) (normalizeOptionalString arg) x" "item_source x = Some src"
    using assms(3) by auto
  from item_is_entry [OF this(2,1)] this(3) show ?thesis
    unfolding kept(1) existing_items_entries [symmetric] by auto
next
  case rewritten
  then obtain x where "x \<in> set (existing_items f (js_nullish agentId DEFAULT_AGENT_ID))"
    "item_is (js_trim pattern) (normalizeOptionalString arg) x" by auto
  from item_is_entry [OF this(2,1)] obtain e where
    "e \<in> set (entry_items (existing_items f (js_nullish agentId DEFAULT_AGENT_ID)))" "al_pattern e = js_trim pattern"
    by auto
  then show ?thesis
    unfolding rewritten(1)
    by (intro bexI [of _ "e\<lparr>al_argPattern := normalizeOptionalString arg, al_source := Some src, al_lastUsedAt := Some now\<rparr>"])
      (auto simp: agent_entries_def entry_items_map existing_items_normal [OF assms(1)] intro!: image_eqI [of _ _ e])
next
  case added
  then show ?thesis by (simp add: agent_entries_def)
qed (use assms in simp)

lemma addAllowlistEntry_other:
  "key \<noteq> js_nullish agentId DEFAULT_AGENT_ID \<Longrightarrow>
   agent_of (ef_agents (addAllowlistEntry new now f agentId pattern arg source)) key = agent_of (ef_agents f) key"
  by (cases rule: addAllowlistEntry_cases [of new now f agentId pattern arg source]) simp_all

subsection \<open>The allowlist of a later run\<close>

lemma ensured_agents:
  "ef_agents (ensureExecApprovals uuid newToken home disk) =
     ef_agents (normalizeExecApprovals uuid (normalizeExecApprovals uuid (js_nullish disk empty_file)))"
  by (simp add: ensureExecApprovals_def loadExecApprovals_def Let_def)

lemma normalize_agents_cong: "ef_agents f = ef_agents g \<Longrightarrow>
    ef_agents (normalizeExecApprovals uuid f) = ef_agents (normalizeExecApprovals uuid g)"
  by (simp add: normalizeExecApprovals_def)

lemma resolved_agents:
  assumes "\<And>k i. uuid k i \<noteq> []"
  shows "ef_agents (er_file (resolveExecApprovals uuid newToken home disk agentId ov)) =
     ef_agents (normalizeExecApprovals uuid (js_nullish disk empty_file))"
proof -
  note normal = file_normal_normalize [where uuid = uuid, OF assms]
  have "ef_agents (er_file (resolveExecApprovals uuid newToken home disk agentId ov)) =
      ef_agents (normalizeExecApprovals uuid (ensureExecApprovals uuid newToken home disk))"
    by (simp add: resolveExecApprovals_def resolveExecApprovalsFromFile_def Let_def)
  also have "\<dots> = ef_agents (normalizeExecApprovals uuid
      (normalizeExecApprovals uuid (normalizeExecApprovals uuid (js_nullish disk empty_file))))"
    by (rule normalize_agents_cong [OF ensured_agents])
  finally show ?thesis by (simp only: normalize_file_normal(2) [OF normal])
qed

lemma resolved_allowlist:
  "er_allowlist (resolveExecApprovals uuid newToken home disk agentId ov) =
     (let agents = ef_agents (er_file (resolveExecApprovals uuid newToken home disk agentId ov))
      in agent_entries (agent_of agents ''*'') @ agent_entries (agent_of agents (js_nullish agentId DEFAULT_AGENT_ID)))"
  by (simp add: resolveExecApprovals_def resolveExecApprovalsFromFile_def Let_def)

lemma resolved_file_normal:
  assumes "\<And>k i. uuid k i \<noteq> []"
  shows "file_normal (er_file (resolveExecApprovals uuid newToken home disk agentId ov))"
  by (simp add: resolveExecApprovals_def resolveExecApprovalsFromFile_def Let_def file_normal_normalize assms)

lemma resolved_agents_normal:
  assumes "\<And>k i. uuid k i \<noteq> []" "file_normal f"
  shows "ef_agents (er_file (resolveExecApprovals uuid newToken home (Some f) agentId ov)) = ef_agents f"
  by (simp add: resolved_agents [where uuid = uuid, OF assms(1)] normalize_file_normal [OF assms(2)])

definition hex_digit :: "char \<Rightarrow> bool" where
  "hex_digit c \<longleftrightarrow> c \<in> set ''0123456789abcdef''"

lemma js_trim_solid: "xs \<noteq> [] \<Longrightarrow> \<not> js_ws (hd xs) \<Longrightarrow> \<not> js_ws (last xs) \<Longrightarrow> js_trim xs = xs"
  by (simp add: js_trim_def dropWhile_eq_self hd_rev)

lemma durable_pattern_trim:
  assumes "list_all hex_digit (digest t)"
  shows "js_trim (buildDurableCommandApprovalPattern digest t) = buildDurableCommandApprovalPattern digest t"
proof (rule js_trim_solid)
  have hex: "\<not> js_ws c" if "hex_digit c" for c
    using that by (auto simp: hex_digit_def js_ws_def Let_def)
  show "\<not> js_ws (last (buildDurableCommandApprovalPattern digest t))"
  proof (cases "digest t = []")
    case True
    then show ?thesis by (simp add: buildDurableCommandApprovalPattern_def js_ws_def Let_def)
  next
    case False
    with assms hex show ?thesis
      by (simp add: buildDurableCommandApprovalPattern_def list_all_iff)
  qed
qed (simp_all add: buildDurableCommandApprovalPattern_def js_ws_def Let_def)

lemma durable_command_matches:
  assumes "e \<in> set allowlist" "al_pattern e = buildDurableCommandApprovalPattern digest (js_trim cmd)"
    and "al_source e = Some ''allow-always''" "js_trim cmd \<noteq> []"
  shows "hasExactCommandDurableExecApproval digest allowlist (Some cmd)"
  using assms by (auto simp: hasExactCommandDurableExecApproval_def list_ex_iff Let_def)

section \<open>What goes wrong\<close>

definition plain_uuid :: "string \<Rightarrow> nat \<Rightarrow> string" where
  "plain_uuid k i = ''u''"

definition policy_agent :: "json_field \<Rightarrow> exec_agent" where
  "policy_agent security = empty_agent\<lparr>ep_security := security\<rparr>"

definition masked_file :: exec_file where
  "masked_file = empty_file
     \<lparr>ef_defaults := empty_policy\<lparr>ep_security := JStr ''deny''\<rparr>,
      ef_agents := [(''main'', policy_agent (JStr ''none'')), (''*'', policy_agent (JStr ''full''))]\<rparr>"

text \<open>
  An invalid mode of an agent is meant to mask the wildcard, so that the defaults apply; but what is enforced
  resolves the file after it was normalised, where the invalid mode is gone and the wildcard wins.
\<close>

lemma invalid_mode_masks_raw:
  "rp_security (er_agent (resolveExecApprovalsFromFile plain_uuid masked_file (Some ''main'')
     (policy_overrides SecFull AskOff))) = SecDeny"
  by code_simp

lemma invalid_mode_not_masked_when_enforced:
  "rp_security (er_agent (resolveExecApprovals plain_uuid ''t'' None (Some masked_file) (Some ''main'')
     (policy_overrides SecFull AskOff))) = SecFull"
  by code_simp

text \<open>A file that does not parse leaves no restriction, and is replaced by an empty one.\<close>

lemma unreadable_file_allows_all:
  "rp_security (er_agent (resolveExecApprovals plain_uuid ''t'' None None (Some ''main'')
     (policy_overrides SecFull AskOff))) = SecFull"
  "rp_askFallback (er_agent (resolveExecApprovals plain_uuid ''t'' None None (Some ''main'')
     (policy_overrides SecFull AskOff))) = SecFull"
  by code_simp+

definition args_entry :: "string \<Rightarrow> string option \<Rightarrow> string option \<Rightarrow> allow_entry" where
  "args_entry p arg src = \<lparr>al_id = Some ''i'', al_pattern = p, al_source = src, al_commandText = None,
     al_argPattern = arg, al_lastUsedAt = None, al_lastUsedCommand = None, al_lastResolvedPath = None\<rparr>"

definition args_file :: exec_file where
  "args_file = empty_file\<lparr>ef_agents := [(''main'', empty_agent\<lparr>ea_allowlist := Some
     [EntryItem (args_entry ''/bin/git'' (Some ''a'') (Some ''allow-always'')),
      EntryItem (args_entry ''/bin/git'' (Some ''b'') None)]\<rparr>)]\<rparr>"

text \<open>
  Approving \<open>git\<close> with arguments \<open>b\<close> for good, where that entry was there by hand, overwrites the arguments of
  every other entry of \<open>git\<close>: the approval for \<open>a\<close> is lost.
\<close>

lemma allow_always_overwrites_siblings:
  "map (\<lambda>e. (al_argPattern e, al_source e)) (agent_entries (agent_of (ef_agents
     (addAllowlistEntry ''n'' 1 args_file None ''/bin/git'' (Some ''b'') (Some ''allow-always''))) ''main'')) =
   [(Some ''b'', Some ''allow-always''), (Some ''b'', Some ''allow-always'')]"
  by code_simp

text \<open>
  Where \<open>tools.exec\<close> sets no mode, the report takes full and off as requested and a run takes the defaults of the
  approvals file: with defaults deny and an agent with allowlist (an example of the documentation), the report
  says allowlist and every run is refused.
\<close>

definition plain_tool :: "exec_config \<Rightarrow> exec_tool_defaults" where
  "plain_tool config = \<lparr>xd_config = config, xd_host = Some (Target HostGateway), xd_elevated = None, xd_sandbox = False,
     xd_messageProvider = None, xd_sessionKey = None\<rparr>"

definition plain_call :: "string \<Rightarrow> exec_call" where
  "plain_call command = \<lparr>xl_command = command, xl_host = None, xl_security = None, xl_ask = None, xl_elevated = None\<rparr>"

definition documented_file :: exec_file where
  "documented_file = empty_file
     \<lparr>ef_defaults := empty_policy\<lparr>ep_security := JStr ''deny''\<rparr>,
      ef_agents := [(''main'', policy_agent (JStr ''allowlist''))]\<rparr>"

definition allowlist_config :: exec_config where
  "allowlist_config = \<lparr>xcfg_security = Some SecAllowlist, xcfg_ask = Some AskOnMiss\<rparr>"

lemma unset_config_report_differs:
  "pf_effective (sn_security (resolveExecPolicyScopeSnapshot plain_uuid (loadExecApprovals plain_uuid (Some documented_file))
     None None ''tools.exec'' ''tools.exec'' (Some ''main'') None)) = SecAllowlist"
  "(let modes = exec_modes (plain_tool (resolveExecConfig None None))
        (ef_defaults (loadExecApprovals plain_uuid (Some documented_file))) HostGateway ElevatedOff (plain_call ''ls'')
    in resolveExecHostApprovalContext plain_uuid ''t'' None (Some documented_file) (Some ''main'') (fst modes) (snd modes)
         HostGateway) = Inl ''exec denied: host=gateway security=deny''"
  by code_simp+


lemma exec_policy_report_sample:
  "pf_effective (sn_security (resolveExecPolicyScopeSnapshot plain_uuid (loadExecApprovals plain_uuid (Some masked_file))
     (Some \<lparr>xcfg_security = Some SecAllowlist, xcfg_ask = None\<rparr>) None ''tools.exec'' ''tools.exec'' (Some ''other'') None))
   = SecAllowlist"
  by code_simp

end
