(* ===== verification/ExecHost.thy ===== *)
theory ExecHost
  imports ExecPolicy
begin

text \<open>
  Running a command on a host: \<open>agents/bash-tools.exec-host-shared.ts\<close>, the decision part of
  \<open>agents/bash-tools.exec-host-gateway.ts\<close> and \<open>agents/bash-tools.exec-host-node.ts\<close>, and the policy phase of
  the node, \<open>node-host/exec-policy.ts\<close> and \<open>node-host/invoke-system-run.ts\<close>.

  A call is split where it waits for the approval: \<open>processGatewayAllowlist\<close> runs, refuses or asks, and
  \<open>gateway_followup\<close> is the continuation with the decision. A decision is a string of the protocol or \<open>null\<close>
  (nobody answered in time). The analysis of the shell command is the argument \<open>shell\<close>, a function of the
  allowlist to what \<open>evaluateShellAllowlist\<close>, \<open>buildEnforcedShellCommand\<close> and
  \<open>resolveAllowAlwaysPatternEntries\<close> return for the command.
\<close>

section \<open>Decisions\<close>

record base_decision =
  bd_approvedByAsk :: bool
  bd_deniedReason :: "string option"
  bd_timedOut :: bool

definition resolveBaseExecApprovalDecision :: "string option \<Rightarrow> ExecSecurity \<Rightarrow> base_decision" where
  "resolveBaseExecApprovalDecision decision askFallback =
     (if decision = Some ''deny''
      then \<lparr>bd_approvedByAsk = False, bd_deniedReason = Some ''user-denied'', bd_timedOut = False\<rparr>
      else if js_nullish decision [] = []
      then (if askFallback = SecFull
            then \<lparr>bd_approvedByAsk = True, bd_deniedReason = None, bd_timedOut = True\<rparr>
            else if askFallback = SecDeny
            then \<lparr>bd_approvedByAsk = False, bd_deniedReason = Some ''approval-timeout'', bd_timedOut = True\<rparr>
            else \<lparr>bd_approvedByAsk = False, bd_deniedReason = None, bd_timedOut = True\<rparr>)
      else \<lparr>bd_approvedByAsk = False, bd_deniedReason = None, bd_timedOut = False\<rparr>)"

definition enforceStrictInlineEvalApprovalBoundary ::
  "base_decision \<Rightarrow> bool \<Rightarrow> string option \<Rightarrow> bool \<Rightarrow> bool \<times> string option" where
  "enforceStrictInlineEvalApprovalBoundary baseDecision approvedByAsk deniedReason requiresInlineEvalApproval =
     (if \<not> bd_timedOut baseDecision \<or> \<not> requiresInlineEvalApproval \<or> \<not> approvedByAsk
      then (approvedByAsk, deniedReason)
      else (False, Some (js_nullish deniedReason ''approval-timeout'')))"

datatype initiating_surface = SurfaceEnabled | SurfaceDisabled | SurfaceUnsupported
datatype unavailable_reason = NoApprovalRoute | PlatformDisabled | PlatformUnsupported

text \<open>A decision that registration already yields: \<open>undefined\<close>, \<open>null\<close> or a string.\<close>

type_synonym pre_decision = "string option option"

definition resolveExecApprovalUnavailableState :: "initiating_surface \<Rightarrow> pre_decision \<Rightarrow> unavailable_reason option" where
  "resolveExecApprovalUnavailableState surface preResolvedDecision =
     (if preResolvedDecision = Some None then Some NoApprovalRoute
      else if surface = SurfaceDisabled then Some PlatformDisabled
      else if surface = SurfaceUnsupported then Some PlatformUnsupported
      else None)"

definition isHeadlessExecTrigger :: "string option \<Rightarrow> bool" where
  "isHeadlessExecTrigger trigger \<longleftrightarrow> trigger = Some ''cron''"

definition shouldResolveExecApprovalUnavailableInline ::
  "string option \<Rightarrow> unavailable_reason option \<Rightarrow> pre_decision \<Rightarrow> bool" where
  "shouldResolveExecApprovalUnavailableInline trigger unavailableReason preResolvedDecision \<longleftrightarrow>
     isHeadlessExecTrigger trigger \<and> unavailableReason = Some NoApprovalRoute \<and> preResolvedDecision = Some None"

definition buildHeadlessExecApprovalDeniedMessage ::
  "string option \<Rightarrow> ExecSecurity \<Rightarrow> ExecAsk \<Rightarrow> ExecSecurity \<Rightarrow> string" where
  "buildHeadlessExecApprovalDeniedMessage trigger security ask askFallback =
     (let runLabel = (if trigger = Some ''cron'' then ''Cron runs'' else ''Headless runs'') in
      join_with [CHR 0x0A]
        [''exec denied: '' @ runLabel @ '' cannot wait for interactive exec approval.'',
         ''Effective host exec policy: security='' @ security_name security @ '' ask='' @ ask_name ask
           @ '' askFallback='' @ security_name askFallback,
         ''Stricter values from tools.exec and ~/.openclaw/exec-approvals.json both apply.'',
         ''Fix one of these:'',
         ''- align both files to security=\"full\" and ask=\"off\" for trusted local automation'',
         ''- keep allowlist mode and add an explicit allowlist entry for this command'',
         ''- enable Web UI, terminal UI, or chat exec approvals and rerun interactively'',
         ''Tip: run \"openclaw doctor\" and \"openclaw approvals get --gateway\" to inspect the effective policy.''])"

text \<open>The decision the continuation works with; \<open>None\<close> when the request for it failed.\<close>

definition final_decision :: "pre_decision \<Rightarrow> string option option \<Rightarrow> string option option" where
  "final_decision preResolvedDecision answer = (case preResolvedDecision of Some d \<Rightarrow> Some d | None \<Rightarrow> answer)"

section \<open>The gateway host\<close>

record shell_eval =
  sh_analysisOk :: bool
  sh_allowlistSatisfied :: bool
  sh_matches :: "allow_entry list"
  sh_segmentEntries :: "allow_entry option list"
  sh_inlineEval :: bool
  sh_heredoc :: bool
  sh_enforced :: "string option"
  sh_patterns :: "(string \<times> string option) list"
  sh_auditPath :: "string option"

record gateway_check =
  gc_allowlistSatisfied :: bool
  gc_durable :: bool
  gc_enforced :: "string option"
  gc_inlineEval :: bool
  gc_requiresAsk :: bool

definition hasGatewayAllowlistMiss :: "ExecSecurity \<Rightarrow> bool \<Rightarrow> bool \<Rightarrow> bool \<Rightarrow> bool" where
  "hasGatewayAllowlistMiss hostSecurity analysisOk allowlistSatisfied durableApprovalSatisfied \<longleftrightarrow>
     hostSecurity = SecAllowlist \<and> (\<not> analysisOk \<or> \<not> allowlistSatisfied) \<and> \<not> durableApprovalSatisfied"

definition gateway_check_of :: "(string \<Rightarrow> string) \<Rightarrow> exec_context \<Rightarrow> shell_eval \<Rightarrow> bool \<Rightarrow> string \<Rightarrow> gateway_check" where
  "gateway_check_of digest ctx ev strictInlineEval command =
     (let hostSecurity = xc_security ctx;
          analysisOk = sh_analysisOk ev;
          allowlistSatisfied = (if hostSecurity = SecAllowlist \<and> analysisOk then sh_allowlistSatisfied ev else False);
          durable = hasDurableExecApproval digest analysisOk (sh_segmentEntries ev)
            (er_allowlist (xc_approvals ctx)) (Some command);
          inlineEvalHit = strictInlineEval \<and> sh_inlineEval ev;
          listed = hostSecurity = SecAllowlist \<and> analysisOk \<and> allowlistSatisfied;
          enforcedCommand = (if listed then sh_enforced ev else None);
          requiresAllowlistPlanApproval = listed \<and> enforcedCommand = None;
          requiresHeredocApproval = listed \<and> sh_heredoc ev
      in \<lparr>gc_allowlistSatisfied = allowlistSatisfied, gc_durable = durable, gc_enforced = enforcedCommand,
          gc_inlineEval = inlineEvalHit,
          gc_requiresAsk =
            requiresExecApproval (xc_ask ctx) hostSecurity analysisOk allowlistSatisfied durable
            \<or> requiresAllowlistPlanApproval \<or> requiresHeredocApproval \<or> inlineEvalHit\<rparr>)"

text \<open>
  A run names the command that replaces the requested one, if any, and the approvals file it leaves. The pending
  result shown to the user, and the advice that follows the reason of a refusal, are left out.
\<close>

datatype gateway_result =
    GatewayThrows string
  | GatewayRuns "string option" exec_file
  | GatewayAsks
  | GatewayDenied string

definition record_matches :: "string \<Rightarrow> int \<Rightarrow> string option \<Rightarrow> shell_eval \<Rightarrow> string \<Rightarrow> exec_file \<Rightarrow> exec_file" where
  "record_matches new now agentId ev command file =
     recordAllowlistMatchesUse new now [] file agentId (sh_matches ev) command (sh_auditPath ev)"

definition processGatewayAllowlist ::
  "(string \<Rightarrow> string) \<Rightarrow> string \<Rightarrow> int \<Rightarrow> exec_context \<Rightarrow> shell_eval \<Rightarrow> bool \<Rightarrow> string option \<Rightarrow> string \<Rightarrow>
    string option \<Rightarrow> initiating_surface \<Rightarrow> pre_decision \<Rightarrow> gateway_result" where
  "processGatewayAllowlist digest new now ctx ev strictInlineEval agentId command trigger surface preResolvedDecision =
     (let check = gateway_check_of digest ctx ev strictInlineEval command in
      if gc_requiresAsk check
      then (if shouldResolveExecApprovalUnavailableInline trigger
                 (resolveExecApprovalUnavailableState surface preResolvedDecision) preResolvedDecision
            then (let base = resolveBaseExecApprovalDecision (js_nullish preResolvedDecision None) (xc_askFallback ctx);
                      strict = enforceStrictInlineEvalApprovalBoundary base (bd_approvedByAsk base)
                        (bd_deniedReason base) (gc_inlineEval check)
                  in if snd strict \<noteq> None \<or> \<not> fst strict
                     then GatewayThrows (buildHeadlessExecApprovalDeniedMessage trigger (xc_security ctx) (xc_ask ctx)
                            (xc_askFallback ctx))
                     else GatewayRuns (gc_enforced check)
                            (record_matches new now agentId ev command (er_file (xc_approvals ctx))))
            else GatewayAsks)
      else if hasGatewayAllowlistMiss (xc_security ctx) (sh_analysisOk ev) (gc_allowlistSatisfied check) (gc_durable check)
      then GatewayThrows (''exec denied: allowlist miss (security mode '' @ security_name (xc_security ctx) @ '')'')
      else GatewayRuns (gc_enforced check)
             (record_matches new now agentId ev command (er_file (xc_approvals ctx))))"

definition persist_allow_always ::
  "(string \<Rightarrow> string) \<Rightarrow> string \<Rightarrow> int \<Rightarrow> string option \<Rightarrow> shell_eval \<Rightarrow> string \<Rightarrow> exec_file \<Rightarrow> exec_file" where
  "persist_allow_always digest new now agentId ev command file =
     (if sh_patterns ev = []
      then addDurableCommandApproval digest new now (persistAllowAlwaysPatterns new now file agentId []) agentId command
      else persistAllowAlwaysPatterns new now file agentId (sh_patterns ev))"

definition gateway_verdict ::
  "exec_context \<Rightarrow> shell_eval \<Rightarrow> gateway_check \<Rightarrow> string option \<Rightarrow> bool \<times> string option" where
  "gateway_verdict ctx ev check decision =
     (let base = resolveBaseExecApprovalDecision decision (xc_askFallback ctx);
          (approved, denied) =
            (if bd_timedOut base \<and> xc_askFallback ctx = SecAllowlist
             then (if \<not> sh_analysisOk ev \<or> \<not> gc_allowlistSatisfied check
                   then (bd_approvedByAsk base, Some ''approval-timeout (allowlist-miss)'')
                   else (True, bd_deniedReason base))
             else if decision = Some ''allow-once'' then (True, bd_deniedReason base)
             else if decision = Some ''allow-always'' then (True, bd_deniedReason base)
             else (bd_approvedByAsk base, bd_deniedReason base));
          (approved1, denied1) = enforceStrictInlineEvalApprovalBoundary base approved denied (gc_inlineEval check)
      in (approved1,
          if \<not> approved1 \<and> hasGatewayAllowlistMiss (xc_security ctx) (sh_analysisOk ev) (gc_allowlistSatisfied check)
               (gc_durable check)
          then Some (js_nullish denied1 ''allowlist-miss'') else denied1))"

definition gateway_followup ::
  "(string \<Rightarrow> string) \<Rightarrow> string \<Rightarrow> int \<Rightarrow> exec_context \<Rightarrow> shell_eval \<Rightarrow> bool \<Rightarrow> string option \<Rightarrow> string \<Rightarrow>
    string option option \<Rightarrow> gateway_result" where
  "gateway_followup digest new now ctx ev strictInlineEval agentId command resolved =
     (case resolved of
        None \<Rightarrow> GatewayDenied ''approval-request-failed''
      | Some decision \<Rightarrow>
          (let check = gateway_check_of digest ctx ev strictInlineEval command;
               base = resolveBaseExecApprovalDecision decision (xc_askFallback ctx);
               file = (if \<not> (bd_timedOut base \<and> xc_askFallback ctx = SecAllowlist)
                          \<and> decision = Some ''allow-always'' \<and> \<not> gc_inlineEval check
                       then persist_allow_always digest new now agentId ev command (er_file (xc_approvals ctx))
                       else er_file (xc_approvals ctx))
           in case snd (gateway_verdict ctx ev check decision) of
                Some reason \<Rightarrow> GatewayDenied reason
              | None \<Rightarrow> GatewayRuns (gc_enforced check) (record_matches new now agentId ev command file)))"

text \<open>The whole exchange: the context, the immediate part and, where it asks, the continuation.\<close>

definition gateway_exec ::
  "(string \<Rightarrow> nat \<Rightarrow> string) \<Rightarrow> string \<Rightarrow> string option \<Rightarrow> (string \<Rightarrow> string) \<Rightarrow> string \<Rightarrow> int \<Rightarrow> exec_file option \<Rightarrow>
    (allow_entry list \<Rightarrow> shell_eval) \<Rightarrow> string option \<Rightarrow> ExecSecurity \<Rightarrow> ExecAsk \<Rightarrow> bool \<Rightarrow> string \<Rightarrow> string option \<Rightarrow>
    initiating_surface \<Rightarrow> pre_decision \<Rightarrow> string option option \<Rightarrow> gateway_result" where
  "gateway_exec uuid newToken home digest new now disk shell agentId security ask strictInlineEval command trigger
      surface preResolvedDecision answer =
     (case resolveExecHostApprovalContext uuid newToken home disk agentId security ask HostGateway of
        Inl msg \<Rightarrow> GatewayThrows msg
      | Inr ctx \<Rightarrow>
          (let ev = shell (er_allowlist (xc_approvals ctx));
               first = processGatewayAllowlist digest new now ctx ev strictInlineEval agentId command trigger surface
                 preResolvedDecision
           in if first = GatewayAsks
              then gateway_followup digest new now ctx ev strictInlineEval agentId command
                     (final_decision preResolvedDecision answer)
              else first))"

subsection \<open>What a run on the gateway rests on\<close>

text \<open>The decisions of the approval protocol.\<close>

definition protocol_decision :: "string option \<Rightarrow> bool" where
  "protocol_decision d \<longleftrightarrow> d \<in> {None, Some ''allow-once'', Some ''allow-always'', Some ''deny''}"

definition user_allows :: "string option option \<Rightarrow> bool" where
  "user_allows d \<longleftrightarrow> d = Some (Some ''allow-once'') \<or> d = Some (Some ''allow-always'')"

text \<open>The policy lets the command run without a question.\<close>

definition policy_allows :: "exec_context \<Rightarrow> shell_eval \<Rightarrow> gateway_check \<Rightarrow> bool" where
  "policy_allows ctx ev check \<longleftrightarrow> xc_ask ctx \<noteq> AskAlways \<and> \<not> gc_inlineEval check \<and>
     (xc_security ctx = SecFull \<or> gc_durable check
      \<or> sh_analysisOk ev \<and> sh_allowlistSatisfied ev \<and> \<not> sh_heredoc ev \<and> gc_enforced check \<noteq> None)"

text \<open>Nobody answered, and the fallback lets it run.\<close>

definition fallback_allows :: "exec_context \<Rightarrow> shell_eval \<Rightarrow> gateway_check \<Rightarrow> string option option \<Rightarrow> bool" where
  "fallback_allows ctx ev check d \<longleftrightarrow> d = Some None \<and> \<not> gc_inlineEval check \<and>
     (xc_askFallback ctx = SecFull \<or>
      xc_askFallback ctx = SecAllowlist \<and> sh_analysisOk ev \<and> sh_allowlistSatisfied ev)"

lemma base_decision_simps:
  "resolveBaseExecApprovalDecision None f =
     \<lparr>bd_approvedByAsk = (f = SecFull), bd_deniedReason = (if f = SecDeny then Some ''approval-timeout'' else None),
      bd_timedOut = True\<rparr>"
  "resolveBaseExecApprovalDecision (Some ''deny'') f =
     \<lparr>bd_approvedByAsk = False, bd_deniedReason = Some ''user-denied'', bd_timedOut = False\<rparr>"
  "resolveBaseExecApprovalDecision (Some ''allow-once'') f =
     \<lparr>bd_approvedByAsk = False, bd_deniedReason = None, bd_timedOut = False\<rparr>"
  "resolveBaseExecApprovalDecision (Some ''allow-always'') f =
     \<lparr>bd_approvedByAsk = False, bd_deniedReason = None, bd_timedOut = False\<rparr>"
  by (cases f; simp add: resolveBaseExecApprovalDecision_def)+

lemma verdict_none:
  assumes "snd (gateway_verdict ctx ev check decision) = None" "protocol_decision decision"
    and "gc_allowlistSatisfied check \<Longrightarrow> sh_allowlistSatisfied ev"
  shows "user_allows (Some decision) \<or> fallback_allows ctx ev check (Some decision)"
proof -
  consider "decision = None" | "decision = Some ''deny''" | "user_allows (Some decision)"
    using assms(2) by (auto simp: protocol_decision_def user_allows_def)
  then show ?thesis
  proof cases
    case 1
    with assms show ?thesis
      by (cases "xc_askFallback ctx")
        (auto simp: gateway_verdict_def base_decision_simps enforceStrictInlineEvalApprovalBoundary_def
          fallback_allows_def Let_def split: if_splits)
  next
    case 2
    with assms show ?thesis
      by (auto simp: gateway_verdict_def base_decision_simps enforceStrictInlineEvalApprovalBoundary_def Let_def
          split: if_splits)
  qed simp
qed

lemma gateway_check_satisfied: "gc_allowlistSatisfied (gateway_check_of digest ctx ev strict command) \<Longrightarrow> sh_allowlistSatisfied ev"
  by (auto simp: gateway_check_of_def Let_def split: if_splits)

lemma gateway_not_asked:
  assumes "\<not> gc_requiresAsk (gateway_check_of digest ctx ev strict command)"
    and "\<not> hasGatewayAllowlistMiss (xc_security ctx) (sh_analysisOk ev)
           (gc_allowlistSatisfied (gateway_check_of digest ctx ev strict command))
           (gc_durable (gateway_check_of digest ctx ev strict command))"
    and "xc_security ctx \<noteq> SecDeny"
  shows "policy_allows ctx ev (gateway_check_of digest ctx ev strict command)"
  using assms
  by (cases "xc_security ctx")
    (auto simp: gateway_check_of_def Let_def hasGatewayAllowlistMiss_def policy_allows_def requiresExecApproval_def
      split: if_splits)

lemma gateway_inline_runs:
  assumes "processGatewayAllowlist digest new now ctx ev strict agentId command trigger surface pre = GatewayRuns cmd f"
    and "gc_requiresAsk (gateway_check_of digest ctx ev strict command)"
  shows "fallback_allows ctx ev (gateway_check_of digest ctx ev strict command) (Some None)" "pre = Some None"
  using assms
  by (auto simp: processGatewayAllowlist_def Let_def base_decision_simps enforceStrictInlineEvalApprovalBoundary_def
      shouldResolveExecApprovalUnavailableInline_def fallback_allows_def split: if_splits)

lemma resolved_context:
  assumes "resolveExecHostApprovalContext uuid newToken home disk agentId security ask host = Inr ctx"
  shows "xc_security ctx \<noteq> SecDeny" "xc_security ctx \<le> security" "ask \<le> xc_ask ctx"
    "xc_askFallback ctx \<le> xc_security ctx"
  using assms
  by (auto simp: resolveExecHostApprovalContext_def Let_def minSecurity_min maxAsk_max min_le_iff_disj le_max_iff_disj
      split: if_splits)

lemma gateway_exec_authorised:
  assumes runs: "gateway_exec uuid newToken home digest new now disk shell agentId security ask strict command trigger
      surface pre answer = GatewayRuns cmd file"
    and protocol: "pred_option protocol_decision (final_decision pre answer)"
  shows "\<exists>ctx. resolveExecHostApprovalContext uuid newToken home disk agentId security ask HostGateway = Inr ctx \<and>
     xc_security ctx \<noteq> SecDeny \<and> xc_security ctx \<le> security \<and> ask \<le> xc_ask ctx \<and>
     (let ev = shell (er_allowlist (xc_approvals ctx));
          check = gateway_check_of digest ctx ev strict command
      in user_allows (final_decision pre answer) \<or> policy_allows ctx ev check
         \<or> fallback_allows ctx ev check (final_decision pre answer))"
proof -
  from runs obtain ctx where
    ctx: "resolveExecHostApprovalContext uuid newToken home disk agentId security ask HostGateway = Inr ctx"
    by (auto simp: gateway_exec_def split: sum.splits)
  note deny = resolved_context [OF ctx]
  let ?ev = "shell (er_allowlist (xc_approvals ctx))"
  let ?check = "gateway_check_of digest ctx ?ev strict command"
  let ?first = "processGatewayAllowlist digest new now ctx ?ev strict agentId command trigger surface pre"
  have "user_allows (final_decision pre answer) \<or> policy_allows ctx ?ev ?check
      \<or> fallback_allows ctx ?ev ?check (final_decision pre answer)"
  proof (cases "?first = GatewayAsks")
    case True
    with runs ctx obtain d where d: "final_decision pre answer = Some d"
      and v: "snd (gateway_verdict ctx ?ev ?check d) = None"
      by (auto simp: gateway_exec_def gateway_followup_def Let_def split: option.splits)
    from verdict_none [OF v] protocol d gateway_check_satisfied show ?thesis by (auto simp: d)
  next
    case first: False
    with runs ctx have run: "?first = GatewayRuns cmd file" by (simp add: gateway_exec_def Let_def)
    show ?thesis
    proof (cases "gc_requiresAsk ?check")
      case True
      from gateway_inline_runs [OF run True] show ?thesis by (simp add: final_decision_def)
    next
      case False
      moreover from run False
      have "\<not> hasGatewayAllowlistMiss (xc_security ctx) (sh_analysisOk ?ev) (gc_allowlistSatisfied ?check) (gc_durable ?check)"
        by (auto simp: processGatewayAllowlist_def Let_def split: if_splits)
      ultimately show ?thesis using gateway_not_asked deny(1) by blast
    qed
  qed
  with ctx deny show ?thesis by (auto simp: Let_def)
qed

subsection \<open>The exec tool\<close>

text \<open>
  \<open>execute\<close> of \<open>agents/bash-tools.exec.ts\<close> up to the start of the process: the elevated mode, the host, the modes and
  the route of the command. The checks of the command text, the working directory, the environment and script
  files, which can only refuse, are left out. An elevated call in mode full skips the approvals.
\<close>

datatype exec_outcome =
    ExecThrows string
  | ExecSandbox
  | ExecBypass
  | ExecGateway gateway_result
  | ExecNode ExecSecurity ExecAsk

definition exec_route ::
  "(string \<Rightarrow> nat \<Rightarrow> string) \<Rightarrow> string \<Rightarrow> string option \<Rightarrow> (string \<Rightarrow> string) \<Rightarrow> string \<Rightarrow> int \<Rightarrow> exec_file option \<Rightarrow>
    (allow_entry list \<Rightarrow> shell_eval) \<Rightarrow> string option \<Rightarrow> exec_call \<Rightarrow> bool \<Rightarrow> string option \<Rightarrow> initiating_surface \<Rightarrow>
    pre_decision \<Rightarrow> string option option \<Rightarrow> elevated_mode \<Rightarrow> exec_host \<Rightarrow> ExecSecurity \<Rightarrow> ExecAsk \<Rightarrow> exec_outcome" where
  "exec_route uuid newToken home digest new now disk shell agentId call strictInlineEval trigger surface preResolvedDecision
      answer mode host security ask =
     (if host = HostNode then ExecNode security ask
      else if host = HostGateway \<and> mode \<noteq> ElevatedFull
      then ExecGateway (gateway_exec uuid newToken home digest new now disk shell agentId security ask strictInlineEval
             (xl_command call) trigger surface preResolvedDecision answer)
      else if host = HostGateway then ExecBypass
      else ExecSandbox)"

definition exec_tool ::
  "(string \<Rightarrow> nat \<Rightarrow> string) \<Rightarrow> string \<Rightarrow> string option \<Rightarrow> (string \<Rightarrow> string) \<Rightarrow> string \<Rightarrow> int \<Rightarrow> exec_file option \<Rightarrow>
    (allow_entry list \<Rightarrow> shell_eval) \<Rightarrow> string option \<Rightarrow> exec_tool_defaults \<Rightarrow> exec_call \<Rightarrow> bool \<Rightarrow> string option \<Rightarrow>
    initiating_surface \<Rightarrow> pre_decision \<Rightarrow> string option option \<Rightarrow> exec_outcome" where
  "exec_tool uuid newToken home digest new now disk shell agentId d call strictInlineEval trigger surface
      preResolvedDecision answer =
     (if xl_command call = [] then ExecThrows ''Provide a command to start.''
      else case elevated_mode_of d call of
        Inl msg \<Rightarrow> ExecThrows msg
      | Inr mode \<Rightarrow>
          (case resolveExecTarget (xd_host d) (normalizeExecTarget (xl_host call)) (mode \<noteq> ElevatedOff) (xd_sandbox d) of
             Inl msg \<Rightarrow> ExecThrows msg
           | Inr (selectedTarget, host) \<Rightarrow>
               (let (security, ask) = exec_modes d (ef_defaults (loadExecApprovals uuid disk)) host mode call in
                if selectedTarget = Target HostSandbox \<and> \<not> xd_sandbox d
                then ExecThrows (join_with [CHR 0x0A]
                  [''exec host=sandbox requires a sandbox runtime for this session.'',
                   ''Enable sandbox mode (`agents.defaults.sandbox.mode=\"non-main\"` or `\"all\"`) or use host=auto/gateway/node.''])
                else exec_route uuid newToken home digest new now disk shell agentId call strictInlineEval trigger surface
                       preResolvedDecision answer mode host security ask)))"

definition runs_on_gateway :: "exec_outcome \<Rightarrow> bool" where
  "runs_on_gateway out = (case out of
       ExecBypass \<Rightarrow> True
     | ExecGateway r \<Rightarrow> (case r of GatewayRuns _ _ \<Rightarrow> True | _ \<Rightarrow> False)
     | _ \<Rightarrow> False)"

text \<open>The configuration lets commands run on the gateway: an elevated call, or the host as configured.\<close>

definition gateway_selectable :: "exec_tool_defaults \<Rightarrow> exec_call \<Rightarrow> bool" where
  "gateway_selectable d call \<longleftrightarrow> elevated_available d \<and> elevated_mode_of d call \<noteq> Inr ElevatedOff
     \<or> xd_host d = Some (Target HostGateway)
     \<or> js_nullish (xd_host d) TargetAuto = TargetAuto \<and> \<not> xd_sandbox d"

lemma resolveExecTarget_gateway:
  assumes "resolveExecTarget configured requested False sandbox = Inr (sel, HostGateway)"
  shows "configured = Some (Target HostGateway) \<or> js_nullish configured TargetAuto = TargetAuto \<and> \<not> sandbox"
  using assms
  by (cases configured; cases requested)
    (auto simp: resolveExecTarget_def isRequestedExecTargetAllowed_def Let_def split: if_splits exec_target.splits)

lemma elevated_mode_available: "elevated_mode_of d call = Inr mode \<Longrightarrow> mode \<noteq> ElevatedOff \<Longrightarrow> elevated_available d"
  by (auto simp: elevated_mode_of_def Let_def split: if_splits)

text \<open>C15: A command runs on the gateway only with authority. The host is one the configuration lets a call reach. Unless
  elevated execution is enabled, allowed for the sender and set to full (then approvals are skipped, as documented, and
  only a call that turns elevation off keeps them), the effective security is not deny and never above the
  configured one, the ask mode is never below it, and either the user allowed this command, or the policy lets it run
  without a question, or nobody answered and the fallback covers it. Inline evaluation in strict mode then runs
  only when the user allowed it.
\<close>

theorem gateway_run_authorised:
  assumes runs: "runs_on_gateway (exec_tool uuid newToken home digest new now disk shell agentId d call strict trigger
      surface pre answer)"
    and protocol: "pred_option protocol_decision (final_decision pre answer)"
    and modes: "(security, ask) = configured_modes (xd_config d) (ef_defaults (loadExecApprovals uuid disk)) HostGateway"
  shows "gateway_selectable d call \<and>
     ((\<exists>e. xd_elevated d = Some e \<and> el_enabled e \<and> el_allowed e \<and> el_defaultLevel e = ''full'' \<and>
           xl_elevated call \<noteq> Some False) \<or>
      (\<exists>s k ctx. s \<le> security \<and> ask \<le> k \<and>
         resolveExecHostApprovalContext uuid newToken home disk agentId s k HostGateway = Inr ctx \<and>
         xc_security ctx \<noteq> SecDeny \<and> xc_security ctx \<le> s \<and> k \<le> xc_ask ctx \<and>
         (let ev = shell (er_allowlist (xc_approvals ctx));
              check = gateway_check_of digest ctx ev strict (xl_command call)
          in user_allows (final_decision pre answer) \<or> policy_allows ctx ev check
             \<or> fallback_allows ctx ev check (final_decision pre answer))))"
proof -
  let ?ad = "ef_defaults (loadExecApprovals uuid disk)"
  from runs obtain mode sel where mode: "elevated_mode_of d call = Inr mode"
    and target: "resolveExecTarget (xd_host d) (normalizeExecTarget (xl_host call)) (mode \<noteq> ElevatedOff) (xd_sandbox d)
      = Inr (sel, HostGateway)"
    and route: "mode = ElevatedFull \<or> (\<exists>cmd file. gateway_exec uuid newToken home digest new now disk shell agentId
      (fst (exec_modes d ?ad HostGateway mode call)) (snd (exec_modes d ?ad HostGateway mode call)) strict
      (xl_command call) trigger surface pre answer = GatewayRuns cmd file)"
    by (auto simp: exec_tool_def exec_route_def runs_on_gateway_def split: if_splits sum.splits prod.splits exec_host.splits
        gateway_result.splits)
  have selectable: "gateway_selectable d call"
  proof (cases "mode = ElevatedOff")
    case True
    with target resolveExecTarget_gateway [of "xd_host d"] show ?thesis by (auto simp: gateway_selectable_def)
  next
    case False
    with mode elevated_mode_available [OF mode] show ?thesis by (simp add: gateway_selectable_def)
  qed
  show ?thesis
  proof (cases "mode = ElevatedFull")
    case True
    with elevated_full_needs mode selectable show ?thesis by blast
  next
    case False
    with route obtain cmd saved where run: "gateway_exec uuid newToken home digest new now disk shell agentId
      (fst (exec_modes d ?ad HostGateway mode call)) (snd (exec_modes d ?ad HostGateway mode call)) strict
      (xl_command call) trigger surface pre answer = GatewayRuns cmd saved" by blast
    from exec_modes_stricter [OF False, of d ?ad HostGateway call] modes [symmetric]
    have "fst (exec_modes d ?ad HostGateway mode call) \<le> security" "ask \<le> snd (exec_modes d ?ad HostGateway mode call)"
      by simp_all
    with gateway_exec_authorised [OF run protocol] selectable show ?thesis by blast
  qed
qed

text \<open>The same as liveness: a command that the user allows runs, and one the policy allows runs at once.\<close>

lemma user_allowed_runs:
  assumes "decision = Some ''allow-once'' \<or> decision = Some ''allow-always''"
  shows "\<exists>file. gateway_followup digest new now ctx ev strict agentId command (Some decision) =
     GatewayRuns (gc_enforced (gateway_check_of digest ctx ev strict command)) file"
  using assms
  by (auto simp: gateway_followup_def gateway_verdict_def base_decision_simps Let_def
      enforceStrictInlineEvalApprovalBoundary_def)

lemma user_denied_never_runs:
  "gateway_followup digest new now ctx ev strict agentId command (Some (Some ''deny'')) = GatewayDenied ''user-denied''"
  by (auto simp: gateway_followup_def gateway_verdict_def base_decision_simps Let_def
      enforceStrictInlineEvalApprovalBoundary_def)

subsection \<open>What an allow-always decision leaves\<close>

text \<open>An operation on the allowlist of \<open>target\<close> keeps its allow-always grants and the other agents.\<close>

definition has_grant :: "exec_file \<Rightarrow> string \<Rightarrow> string \<Rightarrow> bool" where
  "has_grant f target p \<longleftrightarrow>
     (\<exists>e\<in>set (agent_entries (agent_of (ef_agents f) target)). al_pattern e = p \<and> al_source e = Some ''allow-always'')"

definition keeps_grants :: "string \<Rightarrow> exec_file \<Rightarrow> exec_file \<Rightarrow> bool" where
  "keeps_grants target f g \<longleftrightarrow> file_normal g \<and> (\<forall>p. has_grant f target p \<longrightarrow> has_grant g target p) \<and>
     (\<forall>key. key \<noteq> target \<longrightarrow> agent_of (ef_agents g) key = agent_of (ef_agents f) key)"

lemma keeps_grants_refl: "file_normal f \<Longrightarrow> keeps_grants target f f"
  by (simp add: keeps_grants_def)

lemma keeps_grants_trans: "keeps_grants target f g \<Longrightarrow> keeps_grants target g h \<Longrightarrow> keeps_grants target f h"
  by (simp add: keeps_grants_def)

lemma keeps_grants_map:
  assumes "file_normal f" "target \<noteq> ''default''"
    and "\<And>e. entry_normal e \<Longrightarrow> entry_normal (h e)"
    and "\<And>e. al_pattern (h e) = al_pattern e \<and> (al_source e = Some ''allow-always'' \<longrightarrow> al_source (h e) = Some ''allow-always'')"
  shows "keeps_grants target f (store_items f target (map (map_entry h) (existing_items f target)))"
proof -
  have "file_normal (store_items f target (map (map_entry h) (existing_items f target)))"
    by (intro store_items_normal map_entry_normal existing_items_normal assms)
  moreover have "agent_entries (agent_of (ef_agents (store_items f target (map (map_entry h) (existing_items f target)))) target)
      = map h (agent_entries (agent_of (ef_agents f) target))"
    by (simp add: agent_entries_def entry_items_map existing_items_normal [OF assms(1)])
      (simp add: existing_items_def)
  ultimately show ?thesis using assms(4) by (auto simp: keeps_grants_def has_grant_def)
qed

lemma addAllowlistEntry_keeps:
  assumes "file_normal f" "js_nullish agentId DEFAULT_AGENT_ID \<noteq> ''default''" "new \<noteq> []"
  shows "keeps_grants (js_nullish agentId DEFAULT_AGENT_ID) f
     (addAllowlistEntry new now f agentId pattern arg (Some ''allow-always''))"
proof (cases rule: addAllowlistEntry_cases [of new now f agentId pattern arg "Some ''allow-always''"])
  case rewritten
  show ?thesis
    unfolding rewritten(1) by (rule keeps_grants_map [OF assms(1,2)]) (auto simp: entry_normal_def)
next
  case added
  have "file_normal (addAllowlistEntry new now f agentId pattern arg (Some ''allow-always''))"
    by (rule addAllowlistEntry_normal [OF assms])
  then show ?thesis
    unfolding added(1) by (auto simp: keeps_grants_def has_grant_def agent_entries_def existing_items_def)
qed (simp_all add: keeps_grants_refl assms)

lemma recordAllowlistUse_keeps:
  assumes "file_normal f" "js_nullish agentId DEFAULT_AGENT_ID \<noteq> ''default''" "new \<noteq> []"
  shows "keeps_grants (js_nullish agentId DEFAULT_AGENT_ID) f (recordAllowlistUse new now f agentId entry command resolved)"
  unfolding recordAllowlistUse_def Let_def
  by (rule keeps_grants_map [OF assms(1,2)]) (auto simp: entry_normal_def assms js_nullish_def split: option.splits)

lemma recordAllowlistMatchesUse_keeps:
  assumes "file_normal f" "js_nullish agentId DEFAULT_AGENT_ID \<noteq> ''default''" "new \<noteq> []"
  shows "keeps_grants (js_nullish agentId DEFAULT_AGENT_ID) f
     (recordAllowlistMatchesUse new now seen f agentId matches command resolved)"
  using assms(1)
proof (induction matches arbitrary: f seen)
  case (Cons m matches)
  note step = recordAllowlistUse_keeps [OF Cons.prems assms(2,3), of now m command resolved]
  then have "file_normal (recordAllowlistUse new now f agentId m command resolved)" by (simp add: keeps_grants_def)
  from keeps_grants_trans [OF step Cons.IH [OF this]] Cons.IH [OF Cons.prems] show ?case by (simp add: Let_def)
qed (simp add: keeps_grants_refl)

lemma persistAllowAlwaysPatterns_keeps:
  assumes "file_normal f" "js_nullish agentId DEFAULT_AGENT_ID \<noteq> ''default''" "new \<noteq> []"
  shows "keeps_grants (js_nullish agentId DEFAULT_AGENT_ID) f (persistAllowAlwaysPatterns new now f agentId patterns) \<and>
     list_all (\<lambda>(p, arg). js_trim p = [] \<or> has_grant (persistAllowAlwaysPatterns new now f agentId patterns)
       (js_nullish agentId DEFAULT_AGENT_ID) (js_trim p)) patterns"
  using assms(1)
proof (induction patterns arbitrary: f)
  case (Cons p patterns)
  obtain pat arg where p: "p = (pat, arg)" by fastforce
  define g where "g = (if pat = [] then f else addAllowlistEntry new now f agentId pat arg (Some ''allow-always''))"
  have step: "keeps_grants (js_nullish agentId DEFAULT_AGENT_ID) f g"
    using addAllowlistEntry_keeps [OF Cons.prems assms(2,3)] keeps_grants_refl [OF Cons.prems] by (simp add: g_def)
  then have normal: "file_normal g" by (simp add: keeps_grants_def)
  have rest: "persistAllowAlwaysPatterns new now f agentId (p # patterns) = persistAllowAlwaysPatterns new now g agentId patterns"
    by (simp add: persistAllowAlwaysPatterns_def p g_def)
  have granted: "js_trim pat = [] \<or> has_grant g (js_nullish agentId DEFAULT_AGENT_ID) (js_trim pat)"
    using addAllowlistEntry_adds [OF Cons.prems, of pat "''allow-always''" new now agentId arg]
    by (auto simp: g_def has_grant_def js_trim_def)
  from Cons.IH [OF normal] step granted show ?case
    unfolding rest by (auto simp: p keeps_grants_def)
qed (simp add: keeps_grants_refl persistAllowAlwaysPatterns_def)

lemma persist_allow_always_keeps:
  assumes "file_normal f" "js_nullish agentId DEFAULT_AGENT_ID \<noteq> ''default''" "new \<noteq> []"
    and digest: "\<And>t. list_all hex_digit (digest t)"
  shows "keeps_grants (js_nullish agentId DEFAULT_AGENT_ID) f (persist_allow_always digest new now agentId ev command f) \<and>
     list_all (\<lambda>(p, arg). js_trim p = [] \<or> has_grant (persist_allow_always digest new now agentId ev command f)
       (js_nullish agentId DEFAULT_AGENT_ID) (js_trim p)) (sh_patterns ev) \<and>
     (sh_patterns ev \<noteq> [] \<or> js_trim command = [] \<or>
      has_grant (persist_allow_always digest new now agentId ev command f) (js_nullish agentId DEFAULT_AGENT_ID)
        (buildDurableCommandApprovalPattern digest (js_trim command)))"
proof (cases "sh_patterns ev = []")
  case True
  let ?p = "buildDurableCommandApprovalPattern digest (js_trim command)"
  have "js_trim ?p = ?p" "?p \<noteq> []"
    by (rule durable_pattern_trim [of digest, OF digest]) (simp add: buildDurableCommandApprovalPattern_def)
  with True addAllowlistEntry_keeps [OF assms(1-3), of now ?p None] keeps_grants_refl [OF assms(1)]
    addAllowlistEntry_adds [OF assms(1), of ?p "''allow-always''" new now agentId None]
  show ?thesis
    by (auto simp: persist_allow_always_def persistAllowAlwaysPatterns_def addDurableCommandApproval_def has_grant_def Let_def)
next
  case False
  with persistAllowAlwaysPatterns_keeps [OF assms(1-3)] show ?thesis by (simp add: persist_allow_always_def)
qed

lemma has_grant_resolved:
  assumes "\<And>k i. uuid k i \<noteq> []" "file_normal saved" "has_grant saved (js_nullish agentId DEFAULT_AGENT_ID) p"
  shows "\<exists>e\<in>set (er_allowlist (resolveExecApprovals uuid newToken home (Some saved) agentId ov)).
     al_pattern e = p \<and> al_source e = Some ''allow-always''"
  using assms(3) by (auto simp: has_grant_def resolved_allowlist Let_def
      resolved_agents_normal [where uuid = uuid, OF assms(1,2)])


section \<open>Sending a command to a node\<close>

text \<open>
  The decision part of \<open>executeNodeHostCommand\<close>, from the resolved context on. \<open>base\<close> analyses the command
  against no allowlist; \<open>remote\<close> is the approvals file the node returned (\<open>None\<close> when it could not be fetched).
  The invocation carries the flag \<open>approved\<close> and the decision; the node applies its own policy to them.
\<close>

datatype node_send =
    NodeThrows string
  | NodeInvokes bool "approval_decision option"
  | NodeAsks
  | NodeDenied string

record node_check =
  nk_inlineEval :: bool
  nk_requiresAsk :: bool

definition node_check_of ::
  "(string \<Rightarrow> nat \<Rightarrow> string) \<Rightarrow> (string \<Rightarrow> string) \<Rightarrow> exec_context \<Rightarrow> shell_eval \<Rightarrow> (allow_entry list \<Rightarrow> shell_eval) \<Rightarrow>
    exec_file option \<Rightarrow> bool \<Rightarrow> string option \<Rightarrow> string \<Rightarrow> node_check" where
  "node_check_of uuid digest ctx base shell remote strictInlineEval agentId rawCommand =
     (let inlineEvalHit = strictInlineEval \<and> sh_inlineEval base;
          (analysisOk, allowlistSatisfied, durable) =
            (if (xc_ask ctx = AskAlways \<or> xc_security ctx = SecAllowlist) \<and> sh_analysisOk base
             then case remote of
                 None \<Rightarrow> (sh_analysisOk base, False, False)
               | Some file \<Rightarrow>
                   (let resolved = resolveExecApprovalsFromFile uuid file agentId
                          \<lparr>ov_security = Some SecFull, ov_ask = None, ov_askFallback = None, ov_autoAllowSkills = None\<rparr>;
                        ev = shell (er_allowlist resolved)
                    in (sh_analysisOk ev, sh_allowlistSatisfied ev,
                        hasDurableExecApproval digest (sh_analysisOk ev) (sh_segmentEntries ev) (er_allowlist resolved)
                          (Some rawCommand)))
             else (sh_analysisOk base, False, False))
      in \<lparr>nk_inlineEval = inlineEvalHit,
          nk_requiresAsk = requiresExecApproval (xc_ask ctx) (xc_security ctx) analysisOk allowlistSatisfied durable
            \<or> inlineEvalHit\<rparr>)"

definition buildInvokeParams :: "bool \<Rightarrow> approval_decision option \<Rightarrow> bool \<Rightarrow> node_send" where
  "buildInvokeParams approvedByAsk approvalDecision inlineEvalHit =
     NodeInvokes approvedByAsk
       (if approvalDecision = Some AllowAlways \<and> inlineEvalHit then Some AllowOnce else approvalDecision)"

definition executeNodeHostCommand ::
  "exec_context \<Rightarrow> node_check \<Rightarrow> string option \<Rightarrow> initiating_surface \<Rightarrow> pre_decision \<Rightarrow> node_send" where
  "executeNodeHostCommand ctx check trigger surface preResolvedDecision =
     (if nk_requiresAsk check
      then (if shouldResolveExecApprovalUnavailableInline trigger
                 (resolveExecApprovalUnavailableState surface preResolvedDecision) preResolvedDecision
            then (let base = resolveBaseExecApprovalDecision (js_nullish preResolvedDecision None) (xc_askFallback ctx);
                      strict = enforceStrictInlineEvalApprovalBoundary base (bd_approvedByAsk base)
                        (bd_deniedReason base) (nk_inlineEval check)
                  in if snd strict \<noteq> None \<or> \<not> fst strict
                     then NodeThrows (buildHeadlessExecApprovalDeniedMessage trigger (xc_security ctx) (xc_ask ctx)
                            (xc_askFallback ctx))
                     else buildInvokeParams (fst strict) (if fst strict then Some AllowOnce else None) (nk_inlineEval check))
            else NodeAsks)
      else buildInvokeParams False None (nk_inlineEval check))"

definition node_followup :: "exec_context \<Rightarrow> node_check \<Rightarrow> string option option \<Rightarrow> node_send" where
  "node_followup ctx check resolved =
     (case resolved of
        None \<Rightarrow> NodeDenied ''approval-request-failed''
      | Some decision \<Rightarrow>
          (let base = resolveBaseExecApprovalDecision decision (xc_askFallback ctx);
               (approved, approvalDecision) =
                 (if bd_timedOut base \<and> xc_askFallback ctx = SecFull \<and> bd_approvedByAsk base
                  then (bd_approvedByAsk base, Some AllowOnce)
                  else if decision = Some ''allow-once'' then (True, Some AllowOnce)
                  else if decision = Some ''allow-always'' then (True, Some AllowAlways)
                  else (bd_approvedByAsk base, None));
               (approved1, denied) = enforceStrictInlineEvalApprovalBoundary base approved (bd_deniedReason base)
                 (nk_inlineEval check)
           in case denied of
                Some reason \<Rightarrow> NodeDenied reason
              | None \<Rightarrow> buildInvokeParams approved1 approvalDecision (nk_inlineEval check)))"

text \<open>An invocation carries an approval only when the user gave one or nobody answered under fallback full.\<close>

lemma node_invocation_approved:
  assumes "node_followup ctx check (Some decision) = NodeInvokes approved choice" "protocol_decision decision"
    and "approved \<or> choice \<noteq> None"
  shows "user_allows (Some decision) \<or> decision = None \<and> xc_askFallback ctx = SecFull \<and> \<not> nk_inlineEval check"
proof -
  consider "decision = None" | "decision = Some ''deny''" | "user_allows (Some decision)"
    using assms(2) by (auto simp: protocol_decision_def user_allows_def)
  then show ?thesis
  proof cases
    case 1
    with assms show ?thesis
      by (cases "xc_askFallback ctx")
        (auto simp: node_followup_def base_decision_simps enforceStrictInlineEvalApprovalBoundary_def buildInvokeParams_def
          Let_def split: if_splits)
  next
    case 2
    with assms show ?thesis
      by (auto simp: node_followup_def base_decision_simps enforceStrictInlineEvalApprovalBoundary_def Let_def)
  qed simp
qed

lemma node_user_denied: "node_followup ctx check (Some (Some ''deny'')) = NodeDenied ''user-denied''"
  by (simp add: node_followup_def base_decision_simps enforceStrictInlineEvalApprovalBoundary_def Let_def)

section \<open>What goes wrong\<close>

definition plain_eval :: shell_eval where
  "plain_eval = \<lparr>sh_analysisOk = True, sh_allowlistSatisfied = True, sh_matches = [], sh_segmentEntries = [],
     sh_inlineEval = False, sh_heredoc = False, sh_enforced = Some ''/bin/ls'', sh_patterns = [], sh_auditPath = None\<rparr>"

definition host_file :: "ExecSecurity \<Rightarrow> ExecAsk \<Rightarrow> ExecSecurity \<Rightarrow> exec_file" where
  "host_file s a f = empty_file\<lparr>ef_defaults := \<lparr>ep_security = JStr (security_name s), ep_ask = JStr (ask_name a),
     ep_askFallback = JStr (security_name f), ep_autoAllowSkills = None\<rparr>\<rparr>"

definition run_gateway :: "exec_file \<Rightarrow> shell_eval \<Rightarrow> bool \<Rightarrow> string option \<Rightarrow> pre_decision \<Rightarrow> string option option \<Rightarrow> gateway_result" where
  "run_gateway file ev strict trigger pre answer =
     gateway_exec plain_uuid ''t'' None (\<lambda>_. ''0a'') ''n'' 5 (Some file) (\<lambda>_. ev) (Some ''main'') SecFull AskOff strict ''ls''
       trigger SurfaceEnabled pre answer"

text \<open>
  Fallback allowlist, an allowlisted command, nobody answers. A chat run is allowed; a cron run of the same command
  is refused; and under security full even a chat run is refused, because the allowlist is only consulted in
  allowlist mode.
\<close>

definition gateway_ran :: "gateway_result \<Rightarrow> bool" where
  "gateway_ran r = (case r of GatewayRuns _ _ \<Rightarrow> True | _ \<Rightarrow> False)"

lemma fallback_allowlist_chat:
  "gateway_ran (run_gateway (host_file SecAllowlist AskAlways SecAllowlist) plain_eval False None None (Some None))"
  by code_simp

lemma fallback_allowlist_cron_refused:
  "\<not> gateway_ran (run_gateway (host_file SecAllowlist AskAlways SecAllowlist) plain_eval False (Some ''cron'') (Some None) None)"
  by code_simp

lemma fallback_allowlist_full_refused:
  "run_gateway (host_file SecFull AskAlways SecAllowlist) plain_eval False None None (Some None)
     = GatewayDenied ''approval-timeout (allowlist-miss)''"
  by code_simp

text \<open>
  On a node the same timeout is sent on unapproved, whatever the command: strict inline evaluation required an
  explicit approval, none was given, and a node whose own policy is full and off runs the command.
\<close>

definition node_context :: exec_context where
  "node_context = \<lparr>xc_approvals = resolveExecApprovals plain_uuid ''t'' None None None (policy_overrides SecFull AskOff),
     xc_security = SecFull, xc_ask = AskOff, xc_askFallback = SecAllowlist\<rparr>"

definition inline_eval :: shell_eval where
  "inline_eval = plain_eval\<lparr>sh_inlineEval := True, sh_allowlistSatisfied := False\<rparr>"

lemma node_timeout_sent_unapproved:
  "executeNodeHostCommand node_context \<lparr>nk_inlineEval = True, nk_requiresAsk = True\<rparr> None SurfaceEnabled None = NodeAsks"
  "node_followup node_context \<lparr>nk_inlineEval = True, nk_requiresAsk = True\<rparr> (Some None) = NodeInvokes False None"
  by code_simp+

text \<open>Elevation to full skips what the approvals file says, and only where it is available.\<close>

definition elevated_tool :: "bool \<Rightarrow> exec_tool_defaults" where
  "elevated_tool allowed = (plain_tool (resolveExecConfig None None))
     \<lparr>xd_elevated := Some \<lparr>el_enabled = True, el_allowed = allowed, el_defaultLevel = ''full''\<rparr>\<rparr>"

definition run_tool :: "exec_file \<Rightarrow> exec_tool_defaults \<Rightarrow> exec_call \<Rightarrow> string option option \<Rightarrow> exec_outcome" where
  "run_tool file d call answer =
     exec_tool plain_uuid ''t'' None (\<lambda>_. ''0a'') ''n'' 5 (Some file) (\<lambda>_. plain_eval) (Some ''main'') d call False None
       SurfaceEnabled None answer"

lemma elevated_full_bypasses:
  "run_tool (host_file SecDeny AskAlways SecDeny) (elevated_tool True) (plain_call ''ls'') None = ExecBypass"
  "run_tool (host_file SecDeny AskAlways SecDeny) (elevated_tool False) (plain_call ''ls'') None
     = ExecGateway (GatewayThrows ''exec denied: host=gateway security=deny'')"
  by code_simp+

theorem gateway_run_authorised_witness:
  "\<exists>s k ctx. s \<le> SecAllowlist \<and> AskAlways \<le> k \<and>
     resolveExecHostApprovalContext plain_uuid ''t'' None (Some (host_file SecAllowlist AskAlways SecDeny)) (Some ''main'')
       s k HostGateway = Inr ctx \<and> xc_security ctx \<noteq> SecDeny"
proof -
  let ?file = "host_file SecAllowlist AskAlways SecDeny" and ?d = "plain_tool (resolveExecConfig None None)"
  have run: "runs_on_gateway (run_tool ?file ?d (plain_call ''ls'') (Some (Some ''allow-once'')))"
    by code_simp
  have modes: "(SecAllowlist, AskAlways) =
      configured_modes (xd_config ?d) (ef_defaults (loadExecApprovals plain_uuid (Some ?file))) HostGateway" by code_simp
  from gateway_run_authorised [OF run [unfolded run_tool_def] _ modes]
  show ?thesis by (auto simp: final_decision_def protocol_decision_def plain_tool_def)
qed


end
