(* ===== verification/NodeRun.thy ===== *)
theory NodeRun
  imports ExecHost
begin

text \<open>
  Running a command on a node: \<open>node-host/exec-policy.ts\<close>, \<open>node-host/invoke-system-run.ts\<close>,
  \<open>node-host/invoke-system-run-allowlist.ts\<close> and the checks of \<open>node-host/invoke-system-run-plan.ts\<close> that an approved
  run makes of its directory, its executable and its script.

  \<open>system.run\<close> goes through two phases with time between them: the policy phase decides and fixes what will run,
  the execution phase checks that the directory and the script are still what was approved and starts the process. The
  file system is a record of what its calls return, one for each phase, so it may change in between. The
  analysis of the command (segments, allowlist matches, the executable a command resolves to, the script operand
  of an interpreter) is a parameter; the parsing of the request, which only refuses, is left out.
\<close>

section \<open>The policy of a node\<close>

record system_run_policy =
  sr_denied :: "(string \<times> string) option"
  sr_analysisOk :: bool
  sr_allowlistSatisfied :: bool
  sr_shellWrapperBlocked :: bool
  sr_windowsShellWrapperBlocked :: bool
  sr_requiresAsk :: bool
  sr_approvalDecision :: "approval_decision option"
  sr_approvedByAsk :: bool

definition resolveExecApprovalDecision :: "string option \<Rightarrow> approval_decision option" where
  "resolveExecApprovalDecision v = (if v = Some ''allow-once'' then Some AllowOnce
     else if v = Some ''allow-always'' then Some AllowAlways else None)"

definition formatSystemRunAllowlistMissMessage :: "bool \<Rightarrow> bool \<Rightarrow> string" where
  "formatSystemRunAllowlistMissMessage shellWrapperBlocked windowsShellWrapperBlocked =
     (if windowsShellWrapperBlocked
      then ''SYSTEM_RUN_DENIED: allowlist miss (Windows shell wrappers like cmd.exe /c require approval; ''
           @ ''approve once/always or run with --ask on-miss|always)''
      else if shellWrapperBlocked
      then ''SYSTEM_RUN_DENIED: allowlist miss (shell wrappers like sh/bash/zsh -c require approval; ''
           @ ''approve once/always or run with --ask on-miss|always)''
      else ''SYSTEM_RUN_DENIED: allowlist miss'')"

definition evaluateSystemRunPolicy ::
  "ExecSecurity \<Rightarrow> ExecAsk \<Rightarrow> bool \<Rightarrow> bool \<Rightarrow> bool \<Rightarrow> approval_decision option \<Rightarrow> bool \<Rightarrow> bool \<Rightarrow> bool \<Rightarrow> bool \<Rightarrow>
    system_run_policy" where
  "evaluateSystemRunPolicy security ask analysisOk0 allowlistSatisfied0 durableApprovalSatisfied approvalDecision approved
      isWindows cmdInvocation shellWrapperInvocation =
     (let windowsBlocked = security = SecAllowlist \<and> shellWrapperInvocation \<and> isWindows \<and> cmdInvocation;
          blocked = windowsBlocked;
          analysisOk = (if blocked then False else analysisOk0);
          allowlistSatisfied = (if blocked then False else allowlistSatisfied0);
          approvedByAsk = approvalDecision \<noteq> None \<or> approved;
          requiresAsk = requiresExecApproval ask security analysisOk allowlistSatisfied durableApprovalSatisfied;
          verdict = (\<lambda>denied asks. \<lparr>sr_denied = denied, sr_analysisOk = analysisOk,
            sr_allowlistSatisfied = allowlistSatisfied, sr_shellWrapperBlocked = blocked,
            sr_windowsShellWrapperBlocked = windowsBlocked, sr_requiresAsk = asks,
            sr_approvalDecision = approvalDecision, sr_approvedByAsk = approvedByAsk\<rparr>)
      in if security = SecDeny then verdict (Some (''security=deny'', ''SYSTEM_RUN_DISABLED: security=deny'')) False
         else if requiresAsk \<and> \<not> approvedByAsk
         then verdict (Some (''approval-required'', ''SYSTEM_RUN_DENIED: approval required'')) requiresAsk
         else if security = SecAllowlist \<and> (\<not> analysisOk \<or> \<not> allowlistSatisfied) \<and> \<not> approvedByAsk
         then (if durableApprovalSatisfied then verdict None requiresAsk
               else verdict (Some (''allowlist-miss'', formatSystemRunAllowlistMissMessage blocked windowsBlocked)) requiresAsk)
         else verdict None requiresAsk)"

section \<open>The file system\<close>

record file_stat =
  st_dev :: int
  st_ino :: int
  st_isDirectory :: bool
  st_isSymbolicLink :: bool

text \<open>\<open>None\<close> where the call throws. \<open>fs_resolve\<close> is \<open>path.resolve\<close> from a directory, or from the working directory of the process.\<close>

record node_fs =
  fs_platform :: string
  fs_resolve :: "string option \<Rightarrow> string \<Rightarrow> string"
  fs_dirname :: "string \<Rightarrow> string"
  fs_lstat :: "string \<Rightarrow> file_stat option"
  fs_stat :: "string \<Rightarrow> file_stat option"
  fs_realpath :: "string \<Rightarrow> string option"
  fs_writable :: "string \<Rightarrow> bool"
  fs_sha256 :: "string \<Rightarrow> string option"

definition sameFileIdentity :: "node_fs \<Rightarrow> file_stat \<Rightarrow> file_stat \<Rightarrow> bool" where
  "sameFileIdentity fs left right =
     (if st_ino left \<noteq> st_ino right then False
      else if st_dev left = st_dev right then True
      else fs_platform fs = ''win32'' \<and> (st_dev left = 0 \<or> st_dev right = 0))"

text \<open>
  The components of a path from the root; the fuel is the length of the absolute path, whose directory is shorter
  until the root.
\<close>

fun path_components :: "node_fs \<Rightarrow> nat \<Rightarrow> string \<Rightarrow> string list \<Rightarrow> string list" where
  "path_components fs 0 cursor parts = cursor # parts"
| "path_components fs (Suc n) cursor parts =
     (let parent = fs_dirname fs cursor in
      if parent = cursor then cursor # parts else path_components fs n parent (cursor # parts))"

definition pathComponentsFromRootSync :: "node_fs \<Rightarrow> string \<Rightarrow> string list" where
  "pathComponentsFromRootSync fs targetPath =
     (let absolute = fs_resolve fs None targetPath in path_components fs (length absolute) absolute [])"

definition hasMutableSymlinkPathComponentSync :: "node_fs \<Rightarrow> string \<Rightarrow> bool" where
  "hasMutableSymlinkPathComponentSync fs targetPath =
     list_ex (\<lambda>component. case fs_lstat fs component of
         None \<Rightarrow> True
       | Some st \<Rightarrow> st_isSymbolicLink st \<and> fs_writable fs (fs_dirname fs component))
       (pathComponentsFromRootSync fs targetPath)"

type_synonym cwd_snapshot = "string \<times> file_stat"

definition resolveCanonicalApprovalCwdSync :: "node_fs \<Rightarrow> string \<Rightarrow> string + cwd_snapshot" where
  "resolveCanonicalApprovalCwdSync fs cwd =
     (let requestedCwd = fs_resolve fs None cwd in
      case (fs_lstat fs requestedCwd, fs_stat fs requestedCwd, fs_realpath fs requestedCwd) of
        (Some cwdLstat, Some cwdStat, Some cwdReal) \<Rightarrow>
          (case fs_stat fs cwdReal of
             None \<Rightarrow> Inl ''SYSTEM_RUN_DENIED: approval requires an existing canonical cwd''
           | Some cwdRealStat \<Rightarrow>
               if \<not> st_isDirectory cwdStat
               then Inl ''SYSTEM_RUN_DENIED: approval requires cwd to be a directory''
               else if hasMutableSymlinkPathComponentSync fs requestedCwd
               then Inl ''SYSTEM_RUN_DENIED: approval requires canonical cwd (no symlink path components)''
               else if st_isSymbolicLink cwdLstat
               then Inl ''SYSTEM_RUN_DENIED: approval requires canonical cwd (no symlink cwd)''
               else if \<not> sameFileIdentity fs cwdStat cwdLstat \<or> \<not> sameFileIdentity fs cwdStat cwdRealStat
                   \<or> \<not> sameFileIdentity fs cwdLstat cwdRealStat
               then Inl ''SYSTEM_RUN_DENIED: approval cwd identity mismatch''
               else Inr (cwdReal, cwdStat))
      | _ \<Rightarrow> Inl ''SYSTEM_RUN_DENIED: approval requires an existing canonical cwd'')"

definition revalidateApprovedCwdSnapshot :: "node_fs \<Rightarrow> cwd_snapshot \<Rightarrow> bool" where
  "revalidateApprovedCwdSnapshot fs snapshot =
     (case resolveCanonicalApprovalCwdSync fs (fst snapshot) of
        Inl _ \<Rightarrow> False
      | Inr current \<Rightarrow> sameFileIdentity fs (snd snapshot) (snd current))"

record file_operand =
  fo_argvIndex :: nat
  fo_path :: string
  fo_sha256 :: string

definition revalidateApprovedMutableFileOperand :: "node_fs \<Rightarrow> file_operand \<Rightarrow> string list \<Rightarrow> string option \<Rightarrow> bool" where
  "revalidateApprovedMutableFileOperand fs snapshot argv cwd =
     (let operand = (if fo_argvIndex snapshot < length argv then js_trim (argv ! fo_argvIndex snapshot) else []) in
      if operand = [] then False
      else case fs_realpath fs (fs_resolve fs cwd operand) of
        None \<Rightarrow> False
      | Some realPath \<Rightarrow> realPath = fo_path snapshot \<and> fs_sha256 fs realPath = Some (fo_sha256 snapshot))"

section \<open>What will run\<close>

record command_resolution =
  cr_resolvedPath :: "string option"
  cr_resolvedRealPath :: "string option"
  cr_effectiveArgv :: "string list option"
  cr_wrapperChain :: "string list option"
  cr_policyBlocked :: bool

record exec_segment =
  sg_argv :: "string list"
  sg_resolution :: "command_resolution option"

text \<open>What the analysis of a command on a node yields: that of a shell command, and the segments.\<close>

record node_eval = shell_eval +
  ne_segments :: "exec_segment list"

definition shouldPinExecutableForApproval :: "string option \<Rightarrow> string list option \<Rightarrow> bool" where
  "shouldPinExecutableForApproval shellCommand wrapperChain =
     (if shellCommand \<noteq> None then False else js_nullish wrapperChain [] = [])"

text \<open>The command line, the directory and the snapshot of the directory; \<open>resolve\<close> is \<open>resolveCommandResolutionFromArgv\<close>.\<close>

definition hardenApprovedExecutionPaths ::
  "node_fs \<Rightarrow> (string list \<Rightarrow> string option \<Rightarrow> command_resolution option) \<Rightarrow> bool \<Rightarrow> string list \<Rightarrow> string option \<Rightarrow>
    string option \<Rightarrow> string + string list \<times> string option \<times> cwd_snapshot option" where
  "hardenApprovedExecutionPaths fs resolve approvedByAsk argv shellCommand cwd =
     (if \<not> approvedByAsk then Inr (argv, cwd, None)
      else case (if js_nullish cwd [] = [] then Inr (cwd, None)
                 else map_sum (\<lambda>m. m) (\<lambda>snap. (Some (fst snap), Some snap))
                   (resolveCanonicalApprovalCwdSync fs (js_nullish cwd []))) of
        Inl message \<Rightarrow> Inl message
      | Inr (hardenedCwd, snapshot) \<Rightarrow>
          if argv = [] then Inr (argv, hardenedCwd, snapshot)
          else let resolution = resolve argv hardenedCwd in
            if \<not> shouldPinExecutableForApproval shellCommand (Option.bind resolution cr_wrapperChain)
            then Inr (argv, hardenedCwd, snapshot)
            else let pinned = js_nullish (Option.bind resolution (\<lambda>r. or_else (cr_resolvedRealPath r) (cr_resolvedPath r))) [] in
              if pinned = [] then Inl ''SYSTEM_RUN_DENIED: approval requires a stable executable path''
              else Inr (argv[0 := pinned], hardenedCwd, snapshot))"

definition resolvePlannedSegmentArgv :: "exec_segment \<Rightarrow> string list option" where
  "resolvePlannedSegmentArgv segment =
     (if map_option cr_policyBlocked (sg_resolution segment) = Some True then None
      else
        let effective = js_nullish (Option.bind (sg_resolution segment) cr_effectiveArgv) [];
            baseArgv = (if effective \<noteq> [] then effective else sg_argv segment);
            executable = js_nullish (Option.bind (sg_resolution segment) (\<lambda>r.
              or_else (map_option js_trim (cr_resolvedRealPath r)) (map_option js_trim (cr_resolvedPath r)))) []
        in if baseArgv = [] then None
           else Some (if executable \<noteq> [] then baseArgv[0 := executable] else baseArgv))"

text \<open>\<open>undefined\<close>, \<open>null\<close> or a command line.\<close>

definition resolvePlannedAllowlistArgv ::
  "ExecSecurity \<Rightarrow> string option \<Rightarrow> system_run_policy \<Rightarrow> exec_segment list \<Rightarrow> string list option option" where
  "resolvePlannedAllowlistArgv security shellCommand policy segments =
     (case segments of
        [segment] \<Rightarrow>
          if security \<noteq> SecAllowlist \<or> sr_approvedByAsk policy \<or> js_nullish shellCommand [] \<noteq> []
              \<or> \<not> sr_analysisOk policy \<or> \<not> sr_allowlistSatisfied policy
          then None
          else (case resolvePlannedSegmentArgv segment of
                  Some argv \<Rightarrow> Some (if argv = [] then None else Some argv)
                | None \<Rightarrow> Some None)
      | _ \<Rightarrow> None)"

definition resolveSystemRunExecArgv ::
  "string list option \<Rightarrow> string list \<Rightarrow> ExecSecurity \<Rightarrow> bool \<Rightarrow> system_run_policy \<Rightarrow> string option \<Rightarrow> exec_segment list \<Rightarrow>
    string list" where
  "resolveSystemRunExecArgv planned argv security isWindows policy shellCommand segments =
     (case segments of
        [segment] \<Rightarrow>
          if security = SecAllowlist \<and> isWindows \<and> \<not> sr_approvedByAsk policy \<and> js_nullish shellCommand [] \<noteq> []
              \<and> sr_analysisOk policy \<and> sr_allowlistSatisfied policy \<and> sg_argv segment \<noteq> []
          then sg_argv segment else js_nullish planned argv
      | _ \<Rightarrow> js_nullish planned argv)"

section \<open>The policy phase\<close>

text \<open>
  A parsed request. The plan of an approval carries the script it was bound to. Whether the command invokes
  \<open>cmd.exe\<close> is a flag.
\<close>

record node_request_run =
  nr_argv :: "string list"
  nr_shellPayload :: "string option"
  nr_commandText :: string
  nr_plan :: "file_operand option option"
  nr_agentId :: "string option"
  nr_cwd :: "string option"
  nr_decision :: "approval_decision option"
  nr_approved :: bool
  nr_isWindows :: bool
  nr_cmdInvocation :: bool
  nr_strictInlineEval :: bool
  nr_needsScreenRecording :: bool

record node_phase =
  np_argv :: "string list"
  np_cwd :: "string option"
  np_policy :: system_run_policy
  np_inlineEval :: bool
  np_planned :: "string list option"
  np_snapshot :: "cwd_snapshot option"

definition node_eval_of :: "ExecSecurity \<Rightarrow> 'a shell_eval_scheme \<Rightarrow> bool" where
  "node_eval_of security ev = (if security = SecAllowlist \<and> sh_analysisOk ev then sh_allowlistSatisfied ev else False)"

definition node_durable :: "(string \<Rightarrow> string) \<Rightarrow> exec_resolved \<Rightarrow> 'a shell_eval_scheme \<Rightarrow> string \<Rightarrow> bool" where
  "node_durable digest approvals ev commandText =
     hasDurableExecApproval digest (sh_analysisOk ev) (sh_segmentEntries ev) (er_allowlist approvals) (Some commandText)"

definition node_policy :: "(string \<Rightarrow> string) \<Rightarrow> exec_resolved \<Rightarrow> node_eval \<Rightarrow> node_request_run \<Rightarrow> system_run_policy" where
  "node_policy digest approvals ev req =
     (let security = rp_security (er_agent approvals);
          inlineTrusted = (nr_strictInlineEval req \<and> sh_inlineEval ev) \<and>
            list_ex (\<lambda>e. Option.bind e al_source = Some ''allow-always'') (sh_segmentEntries ev)
      in evaluateSystemRunPolicy security (rp_ask (er_agent approvals)) (sh_analysisOk ev) (node_eval_of security ev)
           (node_durable digest approvals ev (nr_commandText req) \<or> inlineTrusted) (nr_decision req) (nr_approved req)
           (nr_isWindows req) (nr_cmdInvocation req) (nr_shellPayload req \<noteq> None))"

definition evaluateSystemRunPolicyPhase ::
  "(string \<Rightarrow> string) \<Rightarrow> node_fs \<Rightarrow> (string list \<Rightarrow> string option \<Rightarrow> command_resolution option) \<Rightarrow> exec_resolved \<Rightarrow>
    node_eval \<Rightarrow> node_request_run \<Rightarrow> (string \<times> string) + node_phase" where
  "evaluateSystemRunPolicyPhase digest fs resolve approvals ev req =
     (let policy = node_policy digest approvals ev req;
          inlineEvalHit = nr_strictInlineEval req \<and> sh_inlineEval ev
      in if inlineEvalHit \<and> \<not> sr_approvedByAsk policy \<and> map_option fst (sr_denied policy) \<noteq> Some ''security=deny''
         then Inl (''approval-required'', ''SYSTEM_RUN_DENIED: approval required (strictInlineEval mode)'')
         else case sr_denied policy of
           Some denied \<Rightarrow> Inl denied
         | None \<Rightarrow>
             if sr_shellWrapperBlocked policy \<and> \<not> sr_approvedByAsk policy
                 \<and> \<not> node_durable digest approvals ev (nr_commandText req)
             then Inl (''approval-required'', ''SYSTEM_RUN_DENIED: approval required'')
             else (case hardenApprovedExecutionPaths fs resolve (sr_approvedByAsk policy) (nr_argv req)
                          (nr_shellPayload req) (nr_cwd req) of
                 Inl message \<Rightarrow> Inl (''approval-required'', message)
               | Inr (argv, cwd, snapshot) \<Rightarrow>
                   let approvedCwdSnapshot = (if sr_approvedByAsk policy then snapshot else None) in
                   if sr_approvedByAsk policy \<and> js_nullish cwd [] \<noteq> [] \<and> approvedCwdSnapshot = None
                   then Inl (''approval-required'', ''SYSTEM_RUN_DENIED: approval cwd changed before execution'')
                   else let planned = resolvePlannedAllowlistArgv (rp_security (er_agent approvals)) (nr_shellPayload req)
                          policy (ne_segments ev)
                     in if planned = Some None
                        then Inl (''execution-plan-miss'', ''SYSTEM_RUN_DENIED: execution plan mismatch'')
                        else Inr \<lparr>np_argv = argv, np_cwd = cwd, np_policy = policy, np_inlineEval = inlineEvalHit,
                               np_planned = Option.bind planned (\<lambda>p. p), np_snapshot = approvedCwdSnapshot\<rparr>))"

section \<open>The execution phase\<close>

text \<open>The companion app of macOS: not used, unreachable (and whether that refuses the run), or its answer.\<close>

datatype companion = NoCompanion | CompanionUnreachable bool | CompanionRefuses string string | CompanionRuns

datatype node_outcome =
    NodeRefused string string
  | NodeForwarded "string list" "string option"
  | NodeRan "string list" "string option"

text \<open>
  \<open>operand\<close> is \<open>resolveMutableFileOperandSnapshotSync\<close> on the file system of this phase. The result is the approvals
  file that is left and the outcome.
\<close>

definition node_records ::
  "(string \<Rightarrow> string) \<Rightarrow> string \<Rightarrow> int \<Rightarrow> exec_resolved \<Rightarrow> node_eval \<Rightarrow> node_request_run \<Rightarrow> node_phase \<Rightarrow> exec_file" where
  "node_records digest new now approvals ev req phase =
     (let evaluated = shell_eval.truncate ev;
          patterns = (if sr_analysisOk (np_policy phase) then sh_patterns ev else []);
          persisted = (if sr_approvalDecision (np_policy phase) = Some AllowAlways \<and> \<not> np_inlineEval phase
            then persist_allow_always digest new now (nr_agentId req) (evaluated\<lparr>sh_patterns := patterns\<rparr>)
                   (nr_commandText req) (er_file approvals)
            else er_file approvals)
      in record_matches new now (nr_agentId req) evaluated (nr_commandText req) persisted)"

definition executeSystemRunPhase ::
  "(string \<Rightarrow> string) \<Rightarrow> string \<Rightarrow> int \<Rightarrow> node_fs \<Rightarrow> (string list \<Rightarrow> string option \<Rightarrow> string option \<Rightarrow> string + file_operand option) \<Rightarrow>
    companion \<Rightarrow> exec_resolved \<Rightarrow> node_eval \<Rightarrow> node_request_run \<Rightarrow> node_phase \<Rightarrow> exec_file \<times> node_outcome" where
  "executeSystemRunPhase digest new now fs operand app approvals ev req phase =
     (let refuse = (\<lambda>message. (er_file approvals, NodeRefused ''approval-required'' message));
          expected = (if nr_plan req = None then Inr None else operand (np_argv phase) (np_cwd phase) (nr_shellPayload req));
          bound = Option.bind (nr_plan req) (\<lambda>p. p)
      in if (case np_snapshot phase of None \<Rightarrow> False | Some snap \<Rightarrow> \<not> revalidateApprovedCwdSnapshot fs snap)
         then refuse ''SYSTEM_RUN_DENIED: approval cwd changed before execution''
         else case expected of
           Inl message \<Rightarrow> refuse message
         | Inr found \<Rightarrow>
             if found \<noteq> None \<and> bound = None
             then refuse ''SYSTEM_RUN_DENIED: approval missing script operand binding''
             else if (case bound of None \<Rightarrow> False
                      | Some snap \<Rightarrow> \<not> revalidateApprovedMutableFileOperand fs snap (np_argv phase) (np_cwd phase))
             then refuse ''SYSTEM_RUN_DENIED: approval script operand changed before execution''
             else let locally = (\<lambda>_::unit.
                 (node_records digest new now approvals ev req phase,
                  if nr_needsScreenRecording req
                  then NodeRefused ''permission:screenRecording'' ''PERMISSION_MISSING: screenRecording''
                  else NodeRan (resolveSystemRunExecArgv (np_planned phase) (np_argv phase)
                         (rp_security (er_agent approvals)) (nr_isWindows req) (np_policy phase) (nr_shellPayload req)
                         (ne_segments ev)) (np_cwd phase)))
               in case app of
                 NoCompanion \<Rightarrow> locally ()
               | CompanionUnreachable denies \<Rightarrow>
                   if denies
                   then (er_file approvals, NodeRefused ''companion-unavailable''
                          ''COMPANION_APP_UNAVAILABLE: macOS app exec host unreachable'')
                   else locally ()
               | CompanionRefuses reason message \<Rightarrow> (er_file approvals, NodeRefused reason message)
               | CompanionRuns \<Rightarrow>
                   (er_file approvals, NodeForwarded (js_nullish (np_planned phase) (np_argv phase)) (np_cwd phase)))"

text \<open>The two phases; \<open>fs\<close> and \<open>fs'\<close> are the file system at the first and at the second.\<close>

definition handleSystemRunInvoke ::
  "(string \<Rightarrow> string) \<Rightarrow> string \<Rightarrow> int \<Rightarrow> node_fs \<Rightarrow> node_fs \<Rightarrow> (string list \<Rightarrow> string option \<Rightarrow> command_resolution option) \<Rightarrow>
    (string list \<Rightarrow> string option \<Rightarrow> string option \<Rightarrow> string + file_operand option) \<Rightarrow> companion \<Rightarrow> exec_resolved \<Rightarrow>
    node_eval \<Rightarrow> node_request_run \<Rightarrow> exec_file \<times> node_outcome" where
  "handleSystemRunInvoke digest new now fs fs' resolve operand app approvals ev req =
     (case evaluateSystemRunPolicyPhase digest fs resolve approvals ev req of
        Inl (reason, message) \<Rightarrow> (er_file approvals, NodeRefused reason message)
      | Inr phase \<Rightarrow> executeSystemRunPhase digest new now fs' operand app approvals ev req phase)"

definition node_started :: "node_outcome \<Rightarrow> (string list \<times> string option) option" where
  "node_started out = (case out of NodeRefused _ _ \<Rightarrow> None | NodeForwarded argv cwd \<Rightarrow> Some (argv, cwd)
     | NodeRan argv cwd \<Rightarrow> Some (argv, cwd))"


section \<open>What a run on a node rests on\<close>

lemma evaluateSystemRunPolicy_allowed:
  "sr_denied (evaluateSystemRunPolicy security ask ok listed durable decision approved win cmd wrapper) = None \<longleftrightarrow>
     security \<noteq> SecDeny \<and>
     (decision \<noteq> None \<or> approved \<or>
      ask \<noteq> AskAlways \<and>
      (security = SecFull \<or> durable \<or> ok \<and> listed \<and> \<not> (win \<and> cmd \<and> wrapper)))"
  by (cases security; cases ask) (auto simp: evaluateSystemRunPolicy_def requiresExecApproval_def Let_def)

lemma evaluateSystemRunPolicy_fields:
  "sr_approvedByAsk (evaluateSystemRunPolicy security ask ok listed durable decision approved win cmd wrapper) =
     (decision \<noteq> None \<or> approved)"
  "sr_shellWrapperBlocked (evaluateSystemRunPolicy security ask ok listed durable decision approved win cmd wrapper) =
     (security = SecAllowlist \<and> wrapper \<and> win \<and> cmd)"
  by (simp_all add: evaluateSystemRunPolicy_def Let_def)


lemma evaluateSystemRunPolicy_analysis:
  "wrapper = False \<Longrightarrow>
   sr_analysisOk (evaluateSystemRunPolicy security ask ok listed durable decision approved win cmd wrapper) = ok \<and>
   sr_allowlistSatisfied (evaluateSystemRunPolicy security ask ok listed durable decision approved win cmd wrapper) = listed"
  by (simp add: evaluateSystemRunPolicy_def Let_def)

text \<open>The policy of the node on a request: an approval, or what needs none.\<close>

definition approval_given :: "node_request_run \<Rightarrow> bool" where
  "approval_given req \<longleftrightarrow> nr_decision req \<noteq> None \<or> nr_approved req"

definition runs_unasked :: "(string \<Rightarrow> string) \<Rightarrow> exec_resolved \<Rightarrow> node_eval \<Rightarrow> node_request_run \<Rightarrow> bool" where
  "runs_unasked digest approvals ev req \<longleftrightarrow>
     rp_ask (er_agent approvals) \<noteq> AskAlways \<and> \<not> (nr_strictInlineEval req \<and> sh_inlineEval ev) \<and>
     (rp_security (er_agent approvals) = SecFull
      \<or> node_durable digest approvals ev (nr_commandText req)
      \<or> sh_analysisOk ev \<and> sh_allowlistSatisfied ev
        \<and> \<not> (nr_isWindows req \<and> nr_cmdInvocation req \<and> nr_shellPayload req \<noteq> None))"

lemma node_policy_allowed:
  assumes "sr_denied (node_policy digest approvals ev req) = None"
    and "\<not> (nr_strictInlineEval req \<and> sh_inlineEval ev \<and> \<not> approval_given req)"
  shows "rp_security (er_agent approvals) \<noteq> SecDeny" "approval_given req \<or> runs_unasked digest approvals ev req"
  using assms
  by (auto simp: node_policy_def Let_def evaluateSystemRunPolicy_allowed approval_given_def runs_unasked_def
      node_eval_of_def split: if_splits)

lemma node_policy_approved: "sr_approvedByAsk (node_policy digest approvals ev req) = approval_given req"
  by (simp add: node_policy_def Let_def evaluateSystemRunPolicy_fields approval_given_def)

lemma policy_phase_passes:
  assumes "evaluateSystemRunPolicyPhase digest fs resolve approvals ev req = Inr phase"
  shows "sr_denied (node_policy digest approvals ev req) = None"
    and "\<not> (nr_strictInlineEval req \<and> sh_inlineEval ev \<and> \<not> approval_given req)"
    and "np_policy phase = node_policy digest approvals ev req"
    and "\<exists>snap. hardenApprovedExecutionPaths fs resolve (approval_given req) (nr_argv req) (nr_shellPayload req) (nr_cwd req)
      = Inr (np_argv phase, np_cwd phase, snap) \<and> np_snapshot phase = (if approval_given req then snap else None)"
    and "\<exists>planned. resolvePlannedAllowlistArgv (rp_security (er_agent approvals)) (nr_shellPayload req)
      (node_policy digest approvals ev req) (ne_segments ev) = planned \<and> planned \<noteq> Some None \<and>
      np_planned phase = Option.bind planned (\<lambda>p. p)"
  using assms
  by (auto simp: evaluateSystemRunPolicyPhase_def Let_def node_policy_approved split: if_splits option.splits sum.splits)

text \<open>An approved run is bound to what was approved: command line, directory and script.\<close>

definition pinned_argv :: "(string list \<Rightarrow> string option \<Rightarrow> command_resolution option) \<Rightarrow> node_request_run \<Rightarrow> string list \<Rightarrow>
    string option \<Rightarrow> bool" where
  "pinned_argv resolve req argv cwd \<longleftrightarrow>
     (if nr_argv req \<noteq> [] \<and>
         shouldPinExecutableForApproval (nr_shellPayload req) (Option.bind (resolve (nr_argv req) cwd) cr_wrapperChain)
      then (\<exists>r p. resolve (nr_argv req) cwd = Some r \<and> or_else (cr_resolvedRealPath r) (cr_resolvedPath r) = Some p
              \<and> p \<noteq> [] \<and> argv = p # tl (nr_argv req))
      else argv = nr_argv req)"

definition same_directory :: "node_fs \<Rightarrow> node_fs \<Rightarrow> string option \<Rightarrow> string option \<Rightarrow> bool" where
  "same_directory fs fs' requested cwd \<longleftrightarrow>
     (if js_nullish requested [] = [] then cwd = requested
      else (\<exists>real st. resolveCanonicalApprovalCwdSync fs (js_nullish requested []) = Inr (real, st) \<and> cwd = Some real \<and>
              revalidateApprovedCwdSnapshot fs' (real, st)))"

definition bound_script :: "node_fs \<Rightarrow> (string list \<Rightarrow> string option \<Rightarrow> string option \<Rightarrow> string + file_operand option) \<Rightarrow>
    node_request_run \<Rightarrow> string list \<Rightarrow> string option \<Rightarrow> bool" where
  "bound_script fs' operand req argv cwd \<longleftrightarrow>
     (case nr_plan req of None \<Rightarrow> True
      | Some bound \<Rightarrow>
          (\<exists>found. operand argv cwd (nr_shellPayload req) = Inr found \<and> (found = None \<or> bound \<noteq> None)) \<and>
          (case bound of None \<Rightarrow> True | Some snap \<Rightarrow> revalidateApprovedMutableFileOperand fs' snap argv cwd))"

lemma harden_approved:
  assumes "hardenApprovedExecutionPaths fs resolve True argv shell cwd = Inr (argv', cwd', snap)"
  shows "(if js_nullish cwd [] = [] then cwd' = cwd \<and> snap = None
          else (\<exists>real st. resolveCanonicalApprovalCwdSync fs (js_nullish cwd []) = Inr (real, st) \<and> cwd' = Some real
                  \<and> snap = Some (real, st)))"
    and "(if argv \<noteq> [] \<and> shouldPinExecutableForApproval shell (Option.bind (resolve argv cwd') cr_wrapperChain)
          then (\<exists>r p. resolve argv cwd' = Some r \<and> or_else (cr_resolvedRealPath r) (cr_resolvedPath r) = Some p
                  \<and> p \<noteq> [] \<and> argv' = p # tl argv)
          else argv' = argv)"
proof -
  obtain h where h: "(if js_nullish cwd [] = [] then Inr (cwd, None)
      else map_sum (\<lambda>m. m) (\<lambda>snap. (Some (fst snap), Some snap)) (resolveCanonicalApprovalCwdSync fs (js_nullish cwd []))) = Inr h"
    using assms by (auto simp: hardenApprovedExecutionPaths_def split: sum.splits if_splits)
  from assms h have tail: "(if argv = [] then Inr (argv, fst h, snd h)
          else let resolution = resolve argv (fst h) in
            if \<not> shouldPinExecutableForApproval shell (Option.bind resolution cr_wrapperChain)
            then Inr (argv, fst h, snd h)
            else let pinned = js_nullish (Option.bind resolution (\<lambda>r. or_else (cr_resolvedRealPath r) (cr_resolvedPath r))) [] in
              if pinned = [] then Inl ''SYSTEM_RUN_DENIED: approval requires a stable executable path''
              else Inr (argv[0 := pinned], fst h, snd h)) = Inr (argv', cwd', snap)"
    by (simp add: hardenApprovedExecutionPaths_def case_prod_beta)
  then have h_eq: "h = (cwd', snap)" by (auto simp: Let_def split: if_splits)
  show "(if js_nullish cwd [] = [] then cwd' = cwd \<and> snap = None
          else (\<exists>real st. resolveCanonicalApprovalCwdSync fs (js_nullish cwd []) = Inr (real, st) \<and> cwd' = Some real
                  \<and> snap = Some (real, st)))"
    using h by (cases "resolveCanonicalApprovalCwdSync fs (js_nullish cwd [])") (auto simp: h_eq split: if_splits)
  show "(if argv \<noteq> [] \<and> shouldPinExecutableForApproval shell (Option.bind (resolve argv cwd') cr_wrapperChain)
          then (\<exists>r p. resolve argv cwd' = Some r \<and> or_else (cr_resolvedRealPath r) (cr_resolvedPath r) = Some p
                  \<and> p \<noteq> [] \<and> argv' = p # tl argv)
          else argv' = argv)"
    using tail unfolding h_eq
    by (cases argv; cases "resolve argv cwd'")
      (auto simp: Let_def js_nullish_def split: if_splits option.splits)
qed

lemma execution_phase_starts:
  assumes "node_started (snd (executeSystemRunPhase digest new now fs' operand app approvals ev req phase)) = Some (argv, cwd)"
  shows "cwd = np_cwd phase"
    and "case np_snapshot phase of None \<Rightarrow> True | Some snap \<Rightarrow> revalidateApprovedCwdSnapshot fs' snap"
    and "bound_script fs' operand req (np_argv phase) (np_cwd phase)"
    and "argv = js_nullish (np_planned phase) (np_argv phase) \<or>
      argv = resolveSystemRunExecArgv (np_planned phase) (np_argv phase) (rp_security (er_agent approvals)) (nr_isWindows req)
        (np_policy phase) (nr_shellPayload req) (ne_segments ev)"
  using assms
  by (auto simp: executeSystemRunPhase_def node_started_def bound_script_def Let_def
      split: if_splits option.splits sum.splits companion.splits)



section \<open>What goes wrong\<close>

definition node_sample_eval :: "bool \<Rightarrow> bool \<Rightarrow> node_eval" where
  "node_sample_eval listed inline = \<lparr>sh_analysisOk = True, sh_allowlistSatisfied = listed, sh_matches = [], sh_segmentEntries = [],
     sh_inlineEval = inline, sh_heredoc = False, sh_enforced = None, sh_patterns = [], sh_auditPath = None,
     ne_segments = [\<lparr>sg_argv = [''ls''], sg_resolution = Some \<lparr>cr_resolvedPath = Some ''/bin/ls'', cr_resolvedRealPath = None,
       cr_effectiveArgv = None, cr_wrapperChain = None, cr_policyBlocked = False\<rparr>\<rparr>]\<rparr>"

definition sample_fs :: node_fs where
  "sample_fs = \<lparr>fs_platform = ''linux'', fs_resolve = (\<lambda>_ p. p), fs_dirname = (\<lambda>_. ''/''),
     fs_lstat = (\<lambda>_. Some \<lparr>st_dev = 1, st_ino = 2, st_isDirectory = True, st_isSymbolicLink = False\<rparr>),
     fs_stat = (\<lambda>_. Some \<lparr>st_dev = 1, st_ino = 2, st_isDirectory = True, st_isSymbolicLink = False\<rparr>),
     fs_realpath = Some, fs_writable = (\<lambda>_. True), fs_sha256 = (\<lambda>_. Some ''0a'')\<rparr>"

definition swapped_fs :: node_fs where
  "swapped_fs = sample_fs
     \<lparr>fs_lstat := (\<lambda>_. Some \<lparr>st_dev = 1, st_ino = 9, st_isDirectory = True, st_isSymbolicLink = False\<rparr>),
      fs_stat := (\<lambda>_. Some \<lparr>st_dev = 1, st_ino = 9, st_isDirectory = True, st_isSymbolicLink = False\<rparr>)\<rparr>"

definition node_request :: "bool \<Rightarrow> string option \<Rightarrow> node_request_run" where
  "node_request approved cwd = \<lparr>nr_argv = [''ls''], nr_shellPayload = None, nr_commandText = ''ls'', nr_plan = None,
     nr_agentId = None, nr_cwd = cwd, nr_decision = None, nr_approved = approved, nr_isWindows = False,
     nr_cmdInvocation = False, nr_strictInlineEval = False, nr_needsScreenRecording = False\<rparr>"

definition node_run :: "node_fs \<Rightarrow> exec_resolved \<Rightarrow> node_eval \<Rightarrow> node_request_run \<Rightarrow> node_outcome" where
  "node_run fs' approvals ev req = snd (handleSystemRunInvoke (\<lambda>_. ''0a'') ''n'' 5 sample_fs fs'
     (\<lambda>_ _. sg_resolution (hd (ne_segments ev))) (\<lambda>_ _ _. Inr None) NoCompanion approvals ev req)"

definition node_approvals :: "exec_file \<Rightarrow> ExecSecurity \<Rightarrow> ExecAsk \<Rightarrow> exec_resolved" where
  "node_approvals disk configuredSecurity configuredAsk =
     resolveExecApprovals plain_uuid ''t'' None (Some disk) None (policy_overrides configuredSecurity configuredAsk)"

text \<open>The path to an approved directory is checked again: a directory that was replaced stops the run.\<close>

lemma replaced_directory_refused:
  "node_run sample_fs (node_approvals (host_file SecAllowlist AskAlways SecDeny) SecAllowlist AskOnMiss)
     (node_sample_eval False False) (node_request True (Some ''/w'')) = NodeRan [''/bin/ls''] (Some ''/w'')"
  "node_run swapped_fs (node_approvals (host_file SecAllowlist AskAlways SecDeny) SecAllowlist AskOnMiss)
     (node_sample_eval False False) (node_request True (Some ''/w''))
     = NodeRefused ''approval-required'' ''SYSTEM_RUN_DENIED: approval cwd changed before execution''"
  by code_simp+

text \<open>
  The gateway required an explicit approval for inline evaluation, none was given, and it sent the command on
  unapproved (\<open>node_timeout_sent_unapproved\<close>): a node whose own policy is full and off runs it.
\<close>

lemma open_node_runs_unapproved:
  "node_run sample_fs (node_approvals (host_file SecFull AskOff SecFull) SecAllowlist AskOnMiss)
     (node_sample_eval False True) (node_request False None) = NodeRan [''ls''] None"
  by code_simp

text \<open>
  A node takes its modes from its approvals file and does not intersect them with its configuration: configured
  deny, file full, and the command runs. The gateway takes the stricter of the two.
\<close>

lemma node_ignores_stricter_config:
  "node_run sample_fs (node_approvals (host_file SecFull AskOff SecFull) SecDeny AskAlways)
     (node_sample_eval True False) (node_request False None) = NodeRan [''ls''] None"
  "resolveExecHostApprovalContext plain_uuid ''t'' None (Some (host_file SecFull AskOff SecFull)) None SecDeny AskAlways
     HostGateway = Inl ''exec denied: host=gateway security=deny''"
  by code_simp+


end
