(* ===== verification/NodeWork.thy ===== *)
theory NodeWork
  imports JsPrelude
begin

text \<open>
  Work queued for a paired node, \<open>src/gateway/node-pending-work.ts\<close>: at most one item per type and node,
  drained by priority and age, acknowledged by id. The payload is a type variable, \<open>randomUUID\<close> and the
  clock are arguments, and the locale comparison of ids is a parameter (a strict order on ids).
\<close>

section \<open>State\<close>

datatype work_type = StatusRequest | LocationRequest

datatype work_priority = PriorityDefault | PriorityNormal | PriorityHigh

record 'p work_item =
  wi_id :: string
  wi_type :: work_type
  wi_priority :: work_priority
  wi_createdAtMs :: int
  wi_expiresAtMs :: "int option"
  wi_payload :: "'p option"

record 'p node_state =
  ns_revision :: nat
  ns_items :: "(string, 'p work_item) jsmap"

type_synonym 'p node_work = "(string, 'p node_state) jsmap"

definition DEFAULT_STATUS_ITEM_ID :: string where "DEFAULT_STATUS_ITEM_ID = ''baseline-status''"
definition DEFAULT_MAX_ITEMS :: int where "DEFAULT_MAX_ITEMS = 4"
definition MAX_ITEMS :: int where "MAX_ITEMS = 10"

fun priority_rank :: "work_priority \<Rightarrow> nat" where
  "priority_rank PriorityHigh = 3"
| "priority_rank PriorityNormal = 2"
| "priority_rank PriorityDefault = 1"

section \<open>Operations\<close>

definition empty_node :: "'p node_state" where
  "empty_node = \<lparr>ns_revision = 0, ns_items = []\<rparr>"

definition expired :: "int \<Rightarrow> 'p work_item \<Rightarrow> bool" where
  "expired nowMs item \<longleftrightarrow> (case wi_expiresAtMs item of None \<Rightarrow> False | Some t \<Rightarrow> t \<le> nowMs)"

definition pruneExpired :: "int \<Rightarrow> 'p node_state \<Rightarrow> 'p node_state" where
  "pruneExpired nowMs st =
     (if list_ex (\<lambda>(_, item). expired nowMs item) (ns_items st)
      then st\<lparr>ns_items := filter (\<lambda>(_, item). \<not> expired nowMs item) (ns_items st), ns_revision := Suc (ns_revision st)\<rparr>
      else st)"

text \<open>\<open>pruneStateIfEmpty\<close> after the state of the node was changed to \<open>st\<close>.\<close>

definition put_node :: "string \<Rightarrow> 'p node_state \<Rightarrow> 'p node_work \<Rightarrow> 'p node_work" where
  "put_node nodeId st w = (if ns_items st = [] then jm_delete nodeId w else jm_set nodeId st w)"

text \<open>The comparison of \<open>sortedItems\<close>, as \<open>less than or equal\<close>, and the stable sort by it.\<close>

definition work_le :: "(string \<Rightarrow> string \<Rightarrow> bool) \<Rightarrow> 'p work_item \<Rightarrow> 'p work_item \<Rightarrow> bool" where
  "work_le id_less a b =
     (if priority_rank (wi_priority a) \<noteq> priority_rank (wi_priority b)
      then priority_rank (wi_priority b) < priority_rank (wi_priority a)
      else if wi_createdAtMs a \<noteq> wi_createdAtMs b then wi_createdAtMs a < wi_createdAtMs b
      else \<not> id_less (wi_id b) (wi_id a))"

definition sortedItems :: "(string \<Rightarrow> string \<Rightarrow> bool) \<Rightarrow> 'p node_state \<Rightarrow> 'p work_item list" where
  "sortedItems id_less st = to_sorted (work_le id_less) (map snd (ns_items st))"

definition makeBaselineStatusItem :: "int \<Rightarrow> 'p work_item" where
  "makeBaselineStatusItem nowMs = \<lparr>wi_id = DEFAULT_STATUS_ITEM_ID, wi_type = StatusRequest,
     wi_priority = PriorityDefault, wi_createdAtMs = nowMs, wi_expiresAtMs = None, wi_payload = None\<rparr>"

record 'p enqueue_params =
  eq_nodeId :: string
  eq_type :: work_type
  eq_priority :: "work_priority option"
  eq_expiresInMs :: "rat option"
  eq_payload :: "'p option"

record 'p enqueue_result =
  er_revision :: nat
  er_item :: "'p work_item"
  er_deduped :: bool

definition js_trunc :: "rat \<Rightarrow> int" where
  "js_trunc r = (if r < 0 then \<lceil>r\<rceil> else \<lfloor>r\<rfloor>)"

definition enqueueNodePendingWork ::
    "'p enqueue_params \<Rightarrow> string \<Rightarrow> int \<Rightarrow> 'p node_work \<Rightarrow> (string + 'p enqueue_result) \<times> 'p node_work" where
  "enqueueNodePendingWork p uuid nowMs w =
     (let nodeId = js_trim (eq_nodeId p) in
      if nodeId = [] then (Inl ''nodeId required'', w)
      else let st = pruneExpired nowMs (js_nullish (jm_get w nodeId) empty_node) in
        case find (\<lambda>item. wi_type item = eq_type p) (map snd (ns_items st)) of
          Some existing \<Rightarrow>
            (Inr \<lparr>er_revision = ns_revision st, er_item = existing, er_deduped = True\<rparr>, jm_set nodeId st w)
        | None \<Rightarrow>
            (let item = \<lparr>wi_id = uuid, wi_type = eq_type p, wi_priority = js_nullish (eq_priority p) PriorityNormal,
                   wi_createdAtMs = nowMs,
                   wi_expiresAtMs = map_option (\<lambda>e. nowMs + max 1000 (js_trunc e)) (eq_expiresInMs p),
                   wi_payload = eq_payload p\<rparr>;
                 st1 = st\<lparr>ns_items := jm_set uuid item (ns_items st), ns_revision := Suc (ns_revision st)\<rparr>
             in (Inr \<lparr>er_revision = ns_revision st1, er_item = item, er_deduped = False\<rparr>, jm_set nodeId st1 w)))"

record 'p drain_result =
  dr_revision :: nat
  dr_items :: "'p work_item list"
  dr_hasMore :: bool

definition drain_limit :: "rat option \<Rightarrow> int" where
  "drain_limit maxItems = min MAX_ITEMS (max 1 (js_trunc (js_nullish maxItems (of_int DEFAULT_MAX_ITEMS))))"

definition drain_items ::
    "(string \<Rightarrow> string \<Rightarrow> bool) \<Rightarrow> 'p work_item list \<Rightarrow> rat option \<Rightarrow> bool option \<Rightarrow> int \<Rightarrow> 'p work_item list \<times> bool" where
  "drain_items id_less explicitItems maxItems includeDefaultStatus nowMs =
     (let limit = drain_limit maxItems;
          taken = take (nat limit) explicitItems;
          includeBaseline = (includeDefaultStatus \<noteq> Some False \<and>
            \<not> list_ex (\<lambda>item. wi_type item = StatusRequest) explicitItems);
          items = (if includeBaseline \<and> int (length taken) < limit
            then taken @ [makeBaselineStatusItem nowMs] else taken);
          explicitReturnedCount = length (filter (\<lambda>item. wi_id item \<noteq> DEFAULT_STATUS_ITEM_ID) items);
          baselineIncluded = list_ex (\<lambda>item. wi_id item = DEFAULT_STATUS_ITEM_ID) items
      in (items, explicitReturnedCount < length explicitItems \<or> includeBaseline \<and> \<not> baselineIncluded))"

definition drainNodePendingWork ::
    "(string \<Rightarrow> string \<Rightarrow> bool) \<Rightarrow> string \<Rightarrow> rat option \<Rightarrow> bool option \<Rightarrow> int \<Rightarrow> 'p node_work
       \<Rightarrow> 'p drain_result \<times> 'p node_work" where
  "drainNodePendingWork id_less nodeId maxItems includeDefaultStatus nowMs w =
     (let n = js_trim nodeId in
      if n = [] then (\<lparr>dr_revision = 0, dr_items = [], dr_hasMore = False\<rparr>, w)
      else case jm_get w n of
          None \<Rightarrow> (let (items, more) = drain_items id_less [] maxItems includeDefaultStatus nowMs
                    in (\<lparr>dr_revision = 0, dr_items = items, dr_hasMore = more\<rparr>, w))
        | Some st0 \<Rightarrow>
            (let st = pruneExpired nowMs st0;
                 (items, more) = drain_items id_less (sortedItems id_less st) maxItems includeDefaultStatus nowMs
             in (\<lparr>dr_revision = ns_revision st0, dr_items = items, dr_hasMore = more\<rparr>, put_node n st w)))"

fun ack_items :: "string list \<Rightarrow> (string, 'p work_item) jsmap \<Rightarrow> string list \<times> (string, 'p work_item) jsmap" where
  "ack_items [] items = ([], items)"
| "ack_items (itemId # ids) items =
     (let trimmedId = js_trim itemId in
      if trimmedId = [] \<or> trimmedId = DEFAULT_STATUS_ITEM_ID \<or> jm_get items trimmedId = None then ack_items ids items
      else let (removed, items1) = ack_items ids (jm_delete trimmedId items) in (trimmedId # removed, items1))"

definition acknowledgeNodePendingWork :: "string \<Rightarrow> string list \<Rightarrow> 'p node_work \<Rightarrow> (nat \<times> string list) \<times> 'p node_work" where
  "acknowledgeNodePendingWork nodeId itemIds w =
     (let n = js_trim nodeId in
      if n = [] then ((0, []), w)
      else case jm_get w n of
          None \<Rightarrow> ((0, []), w)
        | Some st \<Rightarrow>
            (let (removed, items) = ack_items itemIds (ns_items st);
                 st1 = st\<lparr>ns_items := items, ns_revision := ns_revision st + (if removed = [] then 0 else 1)\<rparr>
             in ((ns_revision st1, removed), put_node n st1 w)))"


section \<open>Events and invariant\<close>

datatype 'p work_event =
    EnqueueWork "'p enqueue_params" string int
  | DrainWork string "rat option" "bool option" int
  | AckWork string "string list"

fun work_step :: "(string \<Rightarrow> string \<Rightarrow> bool) \<Rightarrow> 'p node_work \<Rightarrow> 'p work_event \<Rightarrow> 'p node_work" where
  "work_step id_less w (EnqueueWork p uuid now) = snd (enqueueNodePendingWork p uuid now w)"
| "work_step id_less w (DrainWork n maxItems withStatus now) = snd (drainNodePendingWork id_less n maxItems withStatus now w)"
| "work_step id_less w (AckWork n ids) = snd (acknowledgeNodePendingWork n ids w)"

text \<open>\<open>randomUUID\<close> is fresh and not the id of the baseline item.\<close>

fun work_enabled :: "'p node_work \<Rightarrow> 'p work_event \<Rightarrow> bool" where
  "work_enabled w (EnqueueWork p uuid now) \<longleftrightarrow> uuid \<noteq> DEFAULT_STATUS_ITEM_ID \<and>
     list_all (\<lambda>(_, st). jm_get (ns_items st) uuid = None) w"
| "work_enabled w e \<longleftrightarrow> True"

definition items_ok :: "(string, 'p work_item) jsmap \<Rightarrow> bool" where
  "items_ok items \<longleftrightarrow> jm_ok items \<and> distinct (map (wi_type \<circ> snd) items) \<and>
     list_all (\<lambda>(i, item). wi_id item = i \<and> i \<noteq> DEFAULT_STATUS_ITEM_ID) items"

definition work_inv :: "'p node_work \<Rightarrow> bool" where
  "work_inv w \<longleftrightarrow> jm_ok w \<and> list_all (\<lambda>(_, st). items_ok (ns_items st)) w"

lemma items_ok_filter: "items_ok items \<Longrightarrow> items_ok (filter P items)"
  by (auto simp: items_ok_def distinct_map_filter list_all_iff)

lemma items_ok_delete: "items_ok items \<Longrightarrow> items_ok (jm_delete i items)"
  by (simp add: AList.delete_eq items_ok_filter)

lemma items_ok_prune: "items_ok (ns_items st) \<Longrightarrow> items_ok (ns_items (pruneExpired now st))"
  by (simp add: pruneExpired_def items_ok_filter)

lemma prune_items: "ns_items (pruneExpired now st) = filter (\<lambda>(_, item). \<not> expired now item) (ns_items st)"
  by (auto simp: pruneExpired_def list_ex_iff intro!: filter_True [symmetric])

lemma items_ok_new:
  assumes "items_ok items" "jm_get items uuid = None" "uuid \<noteq> DEFAULT_STATUS_ITEM_ID" "wi_id item = uuid"
    and "find (\<lambda>i. wi_type i = wi_type item) (map snd items) = None"
  shows "items_ok (jm_set uuid item items)"
  using assms by (auto simp: items_ok_def jm_set_new find_None_iff map_of_eq_None_iff)

lemma work_inv_get: "work_inv w \<Longrightarrow> jm_get w n = Some st \<Longrightarrow> items_ok (ns_items st)"
  by (auto simp: work_inv_def list_all_iff dest: map_of_SomeD)

lemma list_all_jm_set: "list_all P m \<Longrightarrow> P (k, v) \<Longrightarrow> list_all P (jm_set k v m)"
  by (induction m) auto

lemma work_inv_set: "work_inv w \<Longrightarrow> items_ok (ns_items st) \<Longrightarrow> work_inv (jm_set n st w)"
  by (auto simp: work_inv_def intro: list_all_jm_set)

lemma work_inv_put: "work_inv w \<Longrightarrow> items_ok (ns_items st) \<Longrightarrow> work_inv (put_node n st w)"
  by (auto simp: put_node_def intro: work_inv_set) (auto simp: work_inv_def AList.delete_eq list_all_iff)

lemma items_ok_node: "work_inv w \<Longrightarrow> items_ok (ns_items (js_nullish (jm_get w n) empty_node))"
  using work_inv_get by (cases "jm_get w n") (auto simp: empty_node_def items_ok_def)

lemma enqueue_work_inv:
  assumes "work_inv w" "work_enabled w (EnqueueWork p uuid now)"
  shows "work_inv (snd (enqueueNodePendingWork p uuid now w))"
proof -
  let ?n = "js_trim (eq_nodeId p)"
  let ?st = "pruneExpired now (js_nullish (jm_get w ?n) empty_node)"
  have ok: "items_ok (ns_items ?st)" by (rule items_ok_prune [OF items_ok_node [OF assms(1)]])
  have "jm_get (ns_items (js_nullish (jm_get w ?n) empty_node)) uuid = None"
    using assms(2) by (cases "jm_get w ?n") (auto simp: empty_node_def list_all_iff dest: map_of_SomeD)
  then have fresh: "jm_get (ns_items ?st) uuid = None"
    by (auto simp: prune_items map_of_eq_None_iff)
  show ?thesis
    using assms(1,2) ok
    by (auto simp: enqueueNodePendingWork_def Let_def intro!: work_inv_set items_ok_new fresh split: option.split)
qed

lemma ack_items_ok: "items_ok items \<Longrightarrow> items_ok (snd (ack_items ids items))"
  by (induction ids items rule: ack_items.induct) (auto simp: Let_def items_ok_delete split: prod.split)

lemma work_inv_step: "work_inv w \<Longrightarrow> work_enabled w e \<Longrightarrow> work_inv (work_step id_less w e)"
proof (cases e)
  case (EnqueueWork p uuid now)
  assume "work_inv w" "work_enabled w e"
  then show ?thesis using enqueue_work_inv EnqueueWork by simp
next
  case (DrainWork n maxItems withStatus now)
  assume "work_inv w" "work_enabled w e"
  then show ?thesis
    by (auto simp: DrainWork drainNodePendingWork_def Let_def intro: work_inv_put items_ok_prune work_inv_get
        split: option.split prod.split)
next
  case (AckWork n ids)
  assume w: "work_inv w" "work_enabled w e"
  show ?thesis
  proof (cases "jm_get w (js_trim n)")
    case (Some st)
    with ack_items_ok [OF work_inv_get [OF w(1) Some], of ids] w(1) show ?thesis
      by (auto simp: AckWork acknowledgeNodePendingWork_def Let_def intro!: work_inv_put split: prod.split)
  qed (use w(1) in \<open>simp add: AckWork acknowledgeNodePendingWork_def Let_def\<close>)
qed

interpretation node_work: event_machine "[]" work_enabled "work_step id_less" work_inv for id_less
  by (rule event_machine.intro) (simp add: work_inv_def, rule work_inv_step)


section \<open>What a drain returns\<close>

text \<open>The comparison of ids is a strict weak order.\<close>

definition id_order :: "(string \<Rightarrow> string \<Rightarrow> bool) \<Rightarrow> bool" where
  "id_order id_less \<longleftrightarrow> (\<forall>a b. id_less a b \<longrightarrow> \<not> id_less b a) \<and>
     (\<forall>a b c. \<not> id_less a b \<longrightarrow> \<not> id_less b c \<longrightarrow> \<not> id_less a c)"

lemma work_le_iff: "work_le id_less a b \<longleftrightarrow>
  priority_rank (wi_priority b) < priority_rank (wi_priority a) \<or>
  priority_rank (wi_priority a) = priority_rank (wi_priority b) \<and>
    (wi_createdAtMs a < wi_createdAtMs b \<or>
     wi_createdAtMs a = wi_createdAtMs b \<and> \<not> id_less (wi_id b) (wi_id a))"
  unfolding work_le_def by (simp add: linorder_neq_iff)

lemma work_le_total: "id_order id_less \<Longrightarrow> work_le id_less a b \<or> work_le id_less b a"
  unfolding id_order_def work_le_iff by (metis linorder_less_linear)

lemma work_le_trans:
  assumes "id_order id_less" "work_le id_less a b" "work_le id_less b c"
  shows "work_le id_less a c"
proof -
  have "\<not> id_less (wi_id b) (wi_id a) \<Longrightarrow> \<not> id_less (wi_id c) (wi_id b) \<Longrightarrow> \<not> id_less (wi_id c) (wi_id a)"
    using assms(1) unfolding id_order_def by blast
  with assms(2,3) show ?thesis unfolding work_le_iff by (elim disjE conjE) simp_all
qed

lemma sortedItems_mset: "mset (sortedItems id_less st) = mset (map snd (ns_items st))"
  by (simp add: sortedItems_def)

lemma sortedItems_sorted: "id_order id_less \<Longrightarrow> sorted_wrt (work_le id_less) (sortedItems id_less st)"
  unfolding sortedItems_def by (rule to_sorted_sorted) (rule work_le_total, assumption, rule work_le_trans)

lemma few_types: "distinct (ts :: work_type list) \<Longrightarrow> length ts \<le> 2"
proof -
  assume "distinct ts"
  then have "length ts = card (set ts)" by (rule distinct_card [symmetric])
  also have "\<dots> \<le> card {StatusRequest, LocationRequest}"
    by (rule card_mono) (auto intro: work_type.exhaust)
  finally show ?thesis by simp
qed

definition live_items :: "'p node_work \<Rightarrow> string \<Rightarrow> int \<Rightarrow> 'p work_item list" where
  "live_items w nodeId now = filter (\<lambda>item. \<not> expired now item)
     (map snd (ns_items (js_nullish (jm_get w (js_trim nodeId)) empty_node)))"

lemma live_items_prune: "live_items w nodeId now =
  map snd (ns_items (pruneExpired now (js_nullish (jm_get w (js_trim nodeId)) empty_node)))"
  by (simp add: live_items_def prune_items filter_map comp_def case_prod_unfold)

lemma live_items_ok:
  assumes "work_inv w"
  shows "distinct (map wi_type (live_items w nodeId now))" "DEFAULT_STATUS_ITEM_ID \<notin> wi_id ` set (live_items w nodeId now)"
  using items_ok_prune [OF items_ok_node [OF assms, of "js_trim nodeId"], of now]
  unfolding live_items_prune items_ok_def by (auto simp: comp_def list_all_iff)

lemma drain_limit_default: "drain_limit None = 4"
  by (simp add: drain_limit_def js_trunc_def DEFAULT_MAX_ITEMS_def MAX_ITEMS_def)

lemma drain_items_all:
  assumes "length items \<le> 2" "DEFAULT_STATUS_ITEM_ID \<notin> wi_id ` set items"
  shows "drain_items id_less items None withStatus now =
    (items @ (if withStatus \<noteq> Some False \<and> \<not> list_ex (\<lambda>item. wi_type item = StatusRequest) items
       then [makeBaselineStatusItem now] else []), False)"
proof -
  have "filter (\<lambda>item. wi_id item \<noteq> DEFAULT_STATUS_ITEM_ID) items = items"
    using assms(2) by (force intro!: filter_True)
  moreover have "\<not> list_ex (\<lambda>item. wi_id item = DEFAULT_STATUS_ITEM_ID) items"
    using assms(2) by (force simp: list_ex_iff)
  ultimately show ?thesis
    using assms(1) by (auto simp: drain_items_def drain_limit_default makeBaselineStatusItem_def Let_def)
qed

lemma drain_result_eq: "js_trim nodeId \<noteq> [] \<Longrightarrow>
  (let r = fst (drainNodePendingWork id_less nodeId maxItems withStatus now w) in (dr_items r, dr_hasMore r)) =
  drain_items id_less (sortedItems id_less (pruneExpired now (js_nullish (jm_get w (js_trim nodeId)) empty_node)))
    maxItems withStatus now"
  by (auto simp: drainNodePendingWork_def Let_def pruneExpired_def empty_node_def sortedItems_def
      split: option.split prod.split)

text \<open>C36: a drain hides nothing: in every reachable state a drain of a node with the default limit returns
  exactly the items of the node that have not expired, the most urgent and then the oldest first, at most one of
  each type, followed by the baseline status request unless it was declined or a status request is pending; and it
  reports that nothing is left.\<close>

theorem node_drain_complete:
  assumes "reach [] work_enabled (work_step id_less) w" "id_order id_less" "js_trim nodeId \<noteq> []"
  shows "\<exists>items. let r = fst (drainNodePendingWork id_less nodeId None withStatus now w); live = live_items w nodeId now in
    dr_items r = items @ (if withStatus \<noteq> Some False \<and> \<not> list_ex (\<lambda>item. wi_type item = StatusRequest) live
       then [makeBaselineStatusItem now] else []) \<and>
    mset items = mset live \<and> sorted_wrt (work_le id_less) items \<and> distinct (map wi_type items) \<and> \<not> dr_hasMore r"
proof -
  let ?st = "pruneExpired now (js_nullish (jm_get w (js_trim nodeId)) empty_node)"
  let ?items = "sortedItems id_less ?st" and ?live = "live_items w nodeId now"
  have inv: "work_inv w" by (rule node_work.inv_reach [OF assms(1)])
  have m: "mset ?items = mset ?live" by (simp add: sortedItems_mset live_items_prune)
  have "mset (map wi_type ?items) = mset (map wi_type ?live)" using m by simp
  then have d: "distinct (map wi_type ?items)" using live_items_ok(1) [OF inv] mset_eq_imp_distinct_iff by blast
  have len: "length ?items \<le> 2" using few_types [OF d] by simp
  have set_eq: "set ?items = set ?live" using m by (rule mset_eq_setD)
  have "DEFAULT_STATUS_ITEM_ID \<notin> wi_id ` set ?items" using live_items_ok(2) [OF inv] unfolding set_eq .
  from drain_items_all [OF len this, of id_less withStatus now] drain_result_eq [OF assms(3), of id_less None withStatus now w]
  have "dr_items (fst (drainNodePendingWork id_less nodeId None withStatus now w)) =
      ?items @ (if withStatus \<noteq> Some False \<and> \<not> list_ex (\<lambda>item. wi_type item = StatusRequest) ?live
       then [makeBaselineStatusItem now] else [])"
    "\<not> dr_hasMore (fst (drainNodePendingWork id_less nodeId None withStatus now w))"
    by (simp_all add: Let_def list_ex_iff set_eq)
  with m d sortedItems_sorted [OF assms(2), of ?st] show ?thesis
    unfolding Let_def by (intro exI [of _ ?items]) blast
qed


definition sample_enqueue :: "work_type \<Rightarrow> work_priority option \<Rightarrow> rat option \<Rightarrow> unit enqueue_params" where
  "sample_enqueue ty prio expires = \<lparr>eq_nodeId = '' n1 '', eq_type = ty, eq_priority = prio, eq_expiresInMs = expires, eq_payload = None\<rparr>"

definition sample_work :: "unit node_work" where
  "sample_work = foldl (work_step (\<lambda>a b. length a < length b)) []
     [EnqueueWork (sample_enqueue StatusRequest None (Some 500)) ''u1'' 0,
      EnqueueWork (sample_enqueue LocationRequest (Some PriorityHigh) None) ''u22'' 10]"

theorem node_drain_complete_witness:
  "map wi_id (live_items sample_work ''n1'' 20) = [''u1'', ''u22''] \<and>
   (\<exists>items. let r = fst (drainNodePendingWork (\<lambda>a b. length a < length b) ''n1'' None None 20 sample_work) in
      dr_items r = items \<and> mset items = mset (live_items sample_work ''n1'' 20) \<and> \<not> dr_hasMore r)"
proof -
  let ?less = "\<lambda>a b :: string. length a < length b"
  have live: "map wi_id (live_items sample_work ''n1'' 20) = [''u1'', ''u22'']"
    and status: "list_ex (\<lambda>item. wi_type item = StatusRequest) (live_items sample_work ''n1'' 20)"
    by code_simp+
  have "reach [] work_enabled (work_step ?less) sample_work"
    unfolding sample_work_def by (rule reach_from_init) code_simp
  moreover have "id_order ?less" by (simp add: id_order_def)
  moreover have "js_trim ''n1'' \<noteq> []" by code_simp
  ultimately obtain items where
    "let r = fst (drainNodePendingWork ?less ''n1'' None None 20 sample_work); live = live_items sample_work ''n1'' 20 in
      dr_items r = items @ (if None \<noteq> Some False \<and> \<not> list_ex (\<lambda>item. wi_type item = StatusRequest) live
         then [makeBaselineStatusItem 20] else []) \<and>
      mset items = mset live \<and> sorted_wrt (work_le ?less) items \<and> distinct (map wi_type items) \<and> \<not> dr_hasMore r"
    using node_drain_complete by blast
  with live status show ?thesis unfolding Let_def by auto
qed

section \<open>Acknowledgement\<close>

text \<open>An acknowledgement removes exactly the named items of the node, never the baseline item.\<close>

lemma ack_items_get: "jm_get (snd (ack_items ids items)) i =
  (if i \<in> js_trim ` set ids \<and> i \<noteq> [] \<and> i \<noteq> DEFAULT_STATUS_ITEM_ID then None else jm_get items i)"
proof (induction ids items rule: ack_items.induct)
  case (2 itemId ids items)
  show ?case
  proof (cases "js_trim itemId = [] \<or> js_trim itemId = DEFAULT_STATUS_ITEM_ID \<or> jm_get items (js_trim itemId) = None")
    case True
    with 2(1) [OF refl] show ?thesis by (auto simp: Let_def)
  next
    case False
    with 2(2) [OF refl] show ?thesis by (auto simp: Let_def split: prod.split)
  qed
qed simp

lemma ack_items_removed: "i \<in> set (fst (ack_items ids items)) \<longleftrightarrow>
  i \<in> js_trim ` set ids \<and> i \<noteq> [] \<and> i \<noteq> DEFAULT_STATUS_ITEM_ID \<and> jm_get items i \<noteq> None"
proof (induction ids items rule: ack_items.induct)
  case (2 itemId ids items)
  let ?t = "js_trim itemId"
  show ?case
  proof (cases "?t = [] \<or> ?t = DEFAULT_STATUS_ITEM_ID \<or> jm_get items ?t = None")
    case True
    from 2(1) [OF refl True] True show ?thesis by (auto simp: Let_def)
  next
    case False
    obtain removed items1 where a: "ack_items ids (jm_delete ?t items) = (removed, items1)"
      by (cases "ack_items ids (jm_delete ?t items)")
    have "set (fst (ack_items (itemId # ids) items)) = insert ?t (set removed)"
      using False by (auto simp: Let_def a)
    moreover have "i \<in> set removed \<longleftrightarrow> i \<in> js_trim ` set ids \<and> i \<noteq> [] \<and> i \<noteq> DEFAULT_STATUS_ITEM_ID \<and> i \<noteq> ?t \<and> jm_get items i \<noteq> None"
      using 2(2) [OF refl False] unfolding a fst_conv by (cases "i = ?t") simp_all
    ultimately have r: "i \<in> set (fst (ack_items (itemId # ids) items)) \<longleftrightarrow> i = ?t \<or>
        i \<in> js_trim ` set ids \<and> i \<noteq> [] \<and> i \<noteq> DEFAULT_STATUS_ITEM_ID \<and> i \<noteq> ?t \<and> jm_get items i \<noteq> None"
      by blast
    have ins: "i \<in> js_trim ` set (itemId # ids) \<longleftrightarrow> i = ?t \<or> i \<in> js_trim ` set ids" by auto
    show ?thesis unfolding r ins using False by (cases "i = ?t") simp_all
  qed
qed simp

end
