(* ===== verification/ChannelAccess.thy ===== *)
theory ChannelAccess
  imports JsPrelude
begin

text \<open>
  Who may talk to the assistant: direct-message and group policies (\<open>src/security/dm-policy-shared.ts\<close>), the
  allowlists they use (\<open>src/channels/allow-from.ts\<close>), the gate of control commands
  (\<open>src/channels/command-gating.ts\<close>) and the group checks of \<open>src/plugin-sdk/group-access.ts\<close> with the provider
  fallback of \<open>src/config/runtime-group-policy.ts\<close>. Allowlist entries are given as their text; the channel's
  sender check is a parameter, and the pairing store is a list (empty when reading it fails).
\<close>

section \<open>Allowlists\<close>

definition mergeDmAllowFromSources :: "string list option \<Rightarrow> string list option \<Rightarrow> string option \<Rightarrow> string list" where
  "mergeDmAllowFromSources allowFrom storeAllowFrom dmPolicy =
     (let storeEntries = (if dmPolicy = Some ''allowlist'' then [] else js_nullish storeAllowFrom [])
      in normalizeStringEntries (js_nullish allowFrom [] @ storeEntries))"

definition resolveGroupAllowFromSources :: "string list option \<Rightarrow> string list option \<Rightarrow> bool option \<Rightarrow> string list" where
  "resolveGroupAllowFromSources allowFrom groupAllowFrom fallbackToAllowFrom =
     normalizeStringEntries
       (if js_nullish groupAllowFrom [] \<noteq> [] then js_nullish groupAllowFrom []
        else if fallbackToAllowFrom = Some False then [] else js_nullish allowFrom [])"

record allow_list =
  al_entries :: "string list"
  al_hasWildcard :: bool
  al_hasEntries :: bool

definition isSenderIdAllowed :: "allow_list \<Rightarrow> string option \<Rightarrow> bool \<Rightarrow> bool" where
  "isSenderIdAllowed allow senderId allowWhenEmpty =
     (if \<not> al_hasEntries allow then allowWhenEmpty
      else if al_hasWildcard allow then True
      else case senderId of None \<Rightarrow> False | Some i \<Rightarrow> i \<noteq> [] \<and> i \<in> set (al_entries allow))"

definition firstDefined :: "'a option list \<Rightarrow> 'a option" where
  "firstDefined values = (case filter (\<lambda>v. v \<noteq> None) values of [] \<Rightarrow> None | v # _ \<Rightarrow> v)"

definition resolvePinnedMainDmOwnerFromAllowlist ::
    "string option \<Rightarrow> string list option \<Rightarrow> (string \<Rightarrow> string option) \<Rightarrow> string option" where
  "resolvePinnedMainDmOwnerFromAllowlist dmScope allowFrom normalizeEntry =
     (if js_nullish dmScope ''main'' \<noteq> ''main'' then None
      else let raw = js_nullish allowFrom [] in
        if list_ex (\<lambda>e. js_trim e = ''*'') raw then None
        else case rev (remdups (rev (filter (\<lambda>e. e \<noteq> []) (List.map_filter normalizeEntry raw)))) of
            [owner] \<Rightarrow> Some owner
          | _ \<Rightarrow> None)"

section \<open>Control commands\<close>

record command_authorizer =
  ca_configured :: bool
  ca_allowed :: bool

datatype gating_mode = GateAllow | GateDeny | GateConfigured

definition resolveCommandAuthorizedFromAuthorizers ::
    "bool \<Rightarrow> command_authorizer list \<Rightarrow> gating_mode option \<Rightarrow> bool" where
  "resolveCommandAuthorizedFromAuthorizers useAccessGroups authorizers modeWhenAccessGroupsOff =
     (let mode = js_nullish modeWhenAccessGroupsOff GateAllow;
          authorized = list_ex (\<lambda>e. ca_configured e \<and> ca_allowed e) authorizers
      in if \<not> useAccessGroups then
           (if mode = GateAllow then True
            else if mode = GateDeny then False
            else if \<not> list_ex ca_configured authorizers then True else authorized)
         else authorized)"

record command_gate =
  cg_commandAuthorized :: bool
  cg_shouldBlock :: bool

definition resolveControlCommandGate ::
    "bool \<Rightarrow> command_authorizer list \<Rightarrow> bool \<Rightarrow> bool \<Rightarrow> gating_mode option \<Rightarrow> command_gate" where
  "resolveControlCommandGate useAccessGroups authorizers allowTextCommands hasControlCommand mode =
     (let authorized = resolveCommandAuthorizedFromAuthorizers useAccessGroups authorizers mode
      in \<lparr>cg_commandAuthorized = authorized,
          cg_shouldBlock = (allowTextCommands \<and> hasControlCommand \<and> \<not> authorized)\<rparr>)"

definition resolveDualTextControlCommandGate ::
    "bool \<Rightarrow> bool \<Rightarrow> bool \<Rightarrow> bool \<Rightarrow> bool \<Rightarrow> bool \<Rightarrow> gating_mode option \<Rightarrow> command_gate" where
  "resolveDualTextControlCommandGate useAccessGroups primaryConfigured primaryAllowed secondaryConfigured
       secondaryAllowed hasControlCommand mode =
     resolveControlCommandGate useAccessGroups
       [\<lparr>ca_configured = primaryConfigured, ca_allowed = primaryAllowed\<rparr>,
        \<lparr>ca_configured = secondaryConfigured, ca_allowed = secondaryAllowed\<rparr>] True hasControlCommand mode"

section \<open>Group policies\<close>

datatype group_policy = GroupOpen | GroupDisabled | GroupAllowlist

datatype group_reason =
    GroupAllowed | GroupIsDisabled | MissingMatchInput | EmptyAllowlist | NotAllowlisted
  | SenderNotAllowlisted | RouteNotAllowlisted | RouteDisabled

record group_decision =
  gd_allowed :: bool
  gd_groupPolicy :: group_policy
  gd_reason :: group_reason

definition resolveSenderScopedGroupPolicy :: "group_policy \<Rightarrow> string list \<Rightarrow> group_policy" where
  "resolveSenderScopedGroupPolicy groupPolicy groupAllowFrom =
     (if groupPolicy = GroupDisabled then GroupDisabled
      else if groupAllowFrom \<noteq> [] then GroupAllowlist else GroupOpen)"

definition group_deny :: "group_policy \<Rightarrow> group_reason \<Rightarrow> group_decision" where
  "group_deny p r = \<lparr>gd_allowed = False, gd_groupPolicy = p, gd_reason = r\<rparr>"

definition group_allow :: "group_policy \<Rightarrow> group_decision" where
  "group_allow p = \<lparr>gd_allowed = True, gd_groupPolicy = p, gd_reason = GroupAllowed\<rparr>"

definition evaluateGroupRouteAccessForPolicy :: "group_policy \<Rightarrow> bool \<Rightarrow> bool \<Rightarrow> bool option \<Rightarrow> group_decision" where
  "evaluateGroupRouteAccessForPolicy groupPolicy routeAllowlistConfigured routeMatched routeEnabled =
     (if groupPolicy = GroupDisabled then group_deny groupPolicy GroupIsDisabled
      else if routeMatched \<and> routeEnabled = Some False then group_deny groupPolicy RouteDisabled
      else if groupPolicy = GroupAllowlist \<and> \<not> routeAllowlistConfigured then group_deny groupPolicy EmptyAllowlist
      else if groupPolicy = GroupAllowlist \<and> \<not> routeMatched then group_deny groupPolicy RouteNotAllowlisted
      else group_allow groupPolicy)"

definition evaluateMatchedGroupAccessForPolicy ::
    "group_policy \<Rightarrow> bool \<Rightarrow> bool \<Rightarrow> bool \<Rightarrow> bool \<Rightarrow> group_decision" where
  "evaluateMatchedGroupAccessForPolicy groupPolicy allowlistConfigured allowlistMatched requireMatchInput hasMatchInput =
     (if groupPolicy = GroupDisabled then group_deny groupPolicy GroupIsDisabled
      else if groupPolicy = GroupAllowlist \<and> requireMatchInput \<and> \<not> hasMatchInput
        then group_deny groupPolicy MissingMatchInput
      else if groupPolicy = GroupAllowlist \<and> \<not> allowlistConfigured then group_deny groupPolicy EmptyAllowlist
      else if groupPolicy = GroupAllowlist \<and> \<not> allowlistMatched then group_deny groupPolicy NotAllowlisted
      else group_allow groupPolicy)"

definition evaluateSenderGroupAccessForPolicy ::
    "group_policy \<Rightarrow> bool option \<Rightarrow> string list \<Rightarrow> string \<Rightarrow> (string \<Rightarrow> string list \<Rightarrow> bool) \<Rightarrow> group_decision \<times> bool" where
  "evaluateSenderGroupAccessForPolicy groupPolicy providerMissingFallbackApplied groupAllowFrom senderId isSenderAllowed =
     (if groupPolicy = GroupDisabled then group_deny groupPolicy GroupIsDisabled
      else if groupPolicy = GroupAllowlist \<and> groupAllowFrom = [] then group_deny groupPolicy EmptyAllowlist
      else if groupPolicy = GroupAllowlist \<and> \<not> isSenderAllowed senderId groupAllowFrom
        then group_deny groupPolicy SenderNotAllowlisted
      else group_allow groupPolicy,
      providerMissingFallbackApplied = Some True)"

text \<open>The policy in effect and whether the fallback for a missing provider section was applied.\<close>

definition resolveRuntimeGroupPolicy ::
    "bool \<Rightarrow> group_policy option \<Rightarrow> group_policy option \<Rightarrow> group_policy option \<Rightarrow> group_policy option
       \<Rightarrow> group_policy \<times> bool" where
  "resolveRuntimeGroupPolicy providerConfigPresent groupPolicy defaultGroupPolicy configuredFallbackPolicy
       missingProviderFallbackPolicy =
     (let configuredFallback = js_nullish configuredFallbackPolicy GroupOpen;
          missingFallback = js_nullish missingProviderFallbackPolicy GroupAllowlist
      in (if providerConfigPresent
          then js_nullish groupPolicy (js_nullish defaultGroupPolicy configuredFallback)
          else js_nullish groupPolicy missingFallback,
          \<not> providerConfigPresent \<and> groupPolicy = None))"

definition resolveOpenProviderRuntimeGroupPolicy ::
    "bool \<Rightarrow> group_policy option \<Rightarrow> group_policy option \<Rightarrow> group_policy \<times> bool" where
  "resolveOpenProviderRuntimeGroupPolicy providerConfigPresent groupPolicy defaultGroupPolicy =
     resolveRuntimeGroupPolicy providerConfigPresent groupPolicy defaultGroupPolicy (Some GroupOpen) (Some GroupAllowlist)"

definition resolveAllowlistProviderRuntimeGroupPolicy ::
    "bool \<Rightarrow> group_policy option \<Rightarrow> group_policy option \<Rightarrow> group_policy \<times> bool" where
  "resolveAllowlistProviderRuntimeGroupPolicy providerConfigPresent groupPolicy defaultGroupPolicy =
     resolveRuntimeGroupPolicy providerConfigPresent groupPolicy defaultGroupPolicy (Some GroupAllowlist) (Some GroupAllowlist)"

definition evaluateSenderGroupAccess ::
    "bool \<Rightarrow> group_policy option \<Rightarrow> group_policy option \<Rightarrow> string list \<Rightarrow> string \<Rightarrow> (string \<Rightarrow> string list \<Rightarrow> bool)
       \<Rightarrow> group_decision \<times> bool" where
  "evaluateSenderGroupAccess providerConfigPresent configuredGroupPolicy defaultGroupPolicy groupAllowFrom senderId
       isSenderAllowed =
     (let (groupPolicy, fallback) =
        resolveOpenProviderRuntimeGroupPolicy providerConfigPresent configuredGroupPolicy defaultGroupPolicy
      in evaluateSenderGroupAccessForPolicy groupPolicy (Some fallback) groupAllowFrom senderId isSenderAllowed)"


section \<open>Direct messages and groups\<close>

datatype dm_decision = DmAllow | DmBlock | DmPairing

datatype access_reason =
    GroupPolicyAllowed | GroupPolicyDisabled | GroupPolicyEmptyAllowlist | GroupPolicyNotAllowlisted
  | DmPolicyOpen | DmPolicyDisabled | DmPolicyAllowlisted | DmPolicyPairingRequired | DmPolicyNotAllowlisted

record access_decision =
  ad_decision :: dm_decision
  ad_reasonCode :: access_reason
  ad_reason :: string

definition effectiveGroupPolicy :: "string option \<Rightarrow> group_policy" where
  "effectiveGroupPolicy p = (if p = Some ''open'' then GroupOpen else if p = Some ''disabled'' then GroupDisabled
     else GroupAllowlist)"

fun group_policy_name :: "group_policy \<Rightarrow> string" where
  "group_policy_name GroupOpen = ''open''"
| "group_policy_name GroupDisabled = ''disabled''"
| "group_policy_name GroupAllowlist = ''allowlist''"

definition resolveDmGroupAccessDecision ::
    "bool \<Rightarrow> string option \<Rightarrow> string option \<Rightarrow> string list \<Rightarrow> string list \<Rightarrow> (string list \<Rightarrow> bool) \<Rightarrow> access_decision" where
  "resolveDmGroupAccessDecision isGroup dmPolicy0 groupPolicy0 allow0 groupAllow0 isSenderAllowed =
     (let dmPolicy = js_nullish dmPolicy0 ''pairing'';
          groupPolicy = effectiveGroupPolicy groupPolicy0;
          effectiveAllowFrom = normalizeStringEntries allow0;
          effectiveGroupAllowFrom = normalizeStringEntries groupAllow0
      in if isGroup then
           (let access = evaluateMatchedGroupAccessForPolicy groupPolicy (effectiveGroupAllowFrom \<noteq> [])
                  (isSenderAllowed effectiveGroupAllowFrom) False False
            in if \<not> gd_allowed access \<and> gd_reason access = GroupIsDisabled then
                 \<lparr>ad_decision = DmBlock, ad_reasonCode = GroupPolicyDisabled, ad_reason = ''groupPolicy=disabled''\<rparr>
               else if \<not> gd_allowed access \<and> gd_reason access = EmptyAllowlist then
                 \<lparr>ad_decision = DmBlock, ad_reasonCode = GroupPolicyEmptyAllowlist,
                  ad_reason = ''groupPolicy=allowlist (empty allowlist)''\<rparr>
               else if \<not> gd_allowed access \<and> gd_reason access = NotAllowlisted then
                 \<lparr>ad_decision = DmBlock, ad_reasonCode = GroupPolicyNotAllowlisted,
                  ad_reason = ''groupPolicy=allowlist (not allowlisted)''\<rparr>
               else \<lparr>ad_decision = DmAllow, ad_reasonCode = GroupPolicyAllowed,
                     ad_reason = ''groupPolicy='' @ group_policy_name groupPolicy\<rparr>)
         else if dmPolicy = ''disabled'' then
           \<lparr>ad_decision = DmBlock, ad_reasonCode = DmPolicyDisabled, ad_reason = ''dmPolicy=disabled''\<rparr>
         else if dmPolicy = ''open'' then
           \<lparr>ad_decision = DmAllow, ad_reasonCode = DmPolicyOpen, ad_reason = ''dmPolicy=open''\<rparr>
         else if isSenderAllowed effectiveAllowFrom then
           \<lparr>ad_decision = DmAllow, ad_reasonCode = DmPolicyAllowlisted,
            ad_reason = ''dmPolicy='' @ dmPolicy @ '' (allowlisted)''\<rparr>
         else if dmPolicy = ''pairing'' then
           \<lparr>ad_decision = DmPairing, ad_reasonCode = DmPolicyPairingRequired,
            ad_reason = ''dmPolicy=pairing (not allowlisted)''\<rparr>
         else \<lparr>ad_decision = DmBlock, ad_reasonCode = DmPolicyNotAllowlisted,
               ad_reason = ''dmPolicy='' @ dmPolicy @ '' (not allowlisted)''\<rparr>)"

record access_params =
  xp_isGroup :: bool
  xp_dmPolicy :: "string option"
  xp_groupPolicy :: "string option"
  xp_allowFrom :: "string list option"
  xp_groupAllowFrom :: "string list option"
  xp_storeAllowFrom :: "string list option"
  xp_groupFallback :: "bool option"
  xp_isSenderAllowed :: "string list \<Rightarrow> bool"

text \<open>The allowlists in effect, for direct messages and for groups.\<close>

definition resolveEffectiveAllowFromLists :: "access_params \<Rightarrow> string list \<times> string list" where
  "resolveEffectiveAllowFromLists p =
     (normalizeStringEntries (mergeDmAllowFromSources (xp_allowFrom p) (xp_storeAllowFrom p) (xp_dmPolicy p)),
      normalizeStringEntries (resolveGroupAllowFromSources (xp_allowFrom p) (xp_groupAllowFrom p) (xp_groupFallback p)))"

text \<open>What is read from the pairing store; a failing read is \<open>None\<close>.\<close>

definition readStoreAllowFromForDmPolicy :: "string option \<Rightarrow> bool option \<Rightarrow> string list option \<Rightarrow> string list" where
  "readStoreAllowFromForDmPolicy dmPolicy shouldRead storeRead =
     (if shouldRead = Some False \<or> dmPolicy = Some ''allowlist'' then [] else js_nullish storeRead [])"

definition resolveDmGroupAccessWithLists :: "access_params \<Rightarrow> access_decision \<times> string list \<times> string list" where
  "resolveDmGroupAccessWithLists p =
     (let (allow, groupAllow) = resolveEffectiveAllowFromLists p in
      (resolveDmGroupAccessDecision (xp_isGroup p) (xp_dmPolicy p) (xp_groupPolicy p) allow groupAllow
         (xp_isSenderAllowed p), allow, groupAllow))"

record command_params =
  cp_useAccessGroups :: bool
  cp_allowTextCommands :: bool
  cp_hasControlCommand :: bool

record gated_access =
  ga_access :: access_decision
  ga_effectiveAllowFrom :: "string list"
  ga_effectiveGroupAllowFrom :: "string list"
  ga_commandAuthorized :: bool
  ga_shouldBlockControlCommand :: bool

definition resolveDmGroupAccessWithCommandGate :: "access_params \<Rightarrow> command_params option \<Rightarrow> gated_access" where
  "resolveDmGroupAccessWithCommandGate p command =
     (let (access, allow, groupAllow) = resolveDmGroupAccessWithLists p;
          configuredAllowFrom = normalizeStringEntries (js_nullish (xp_allowFrom p) []);
          configuredGroupAllowFrom = normalizeStringEntries (resolveGroupAllowFromSources (Some configuredAllowFrom)
            (Some (normalizeStringEntries (js_nullish (xp_groupAllowFrom p) []))) (xp_groupFallback p));
          commandDmAllowFrom = (if xp_isGroup p then configuredAllowFrom else allow);
          commandGroupAllowFrom = (if xp_isGroup p then configuredGroupAllowFrom else groupAllow);
          gate = (case command of
              None \<Rightarrow> \<lparr>cg_commandAuthorized = False, cg_shouldBlock = False\<rparr>
            | Some c \<Rightarrow> resolveControlCommandGate (cp_useAccessGroups c)
                [\<lparr>ca_configured = (commandDmAllowFrom \<noteq> []), ca_allowed = xp_isSenderAllowed p commandDmAllowFrom\<rparr>,
                 \<lparr>ca_configured = (commandGroupAllowFrom \<noteq> []), ca_allowed = xp_isSenderAllowed p commandGroupAllowFrom\<rparr>]
                (cp_allowTextCommands c) (cp_hasControlCommand c) None)
      in \<lparr>ga_access = access, ga_effectiveAllowFrom = allow, ga_effectiveGroupAllowFrom = groupAllow,
          ga_commandAuthorized = cg_commandAuthorized gate,
          ga_shouldBlockControlCommand = (xp_isGroup p \<and> cg_shouldBlock gate)\<rparr>)"

record allow_state =
  as_configAllowFrom :: "string list"
  as_hasWildcard :: bool
  as_allowCount :: nat
  as_isMultiUserDm :: bool

definition resolveDmAllowState :: "string list option \<Rightarrow> (string \<Rightarrow> string) \<Rightarrow> string list option \<Rightarrow> allow_state" where
  "resolveDmAllowState allowFrom normalizeEntry storeRead =
     (let configAllowFrom = normalizeStringEntries (js_nullish allowFrom []);
          hasWildcard = (''*'' \<in> set configAllowFrom);
          storeAllowFrom = readStoreAllowFromForDmPolicy None None storeRead;
          norm = (\<lambda>xs. filter (\<lambda>v. v \<noteq> []) (map (\<lambda>v. js_trim (normalizeEntry v)) xs));
          allowCount = length (remdups (norm (filter (\<lambda>v. v \<noteq> ''*'') configAllowFrom) @ norm storeAllowFrom))
      in \<lparr>as_configAllowFrom = configAllowFrom, as_hasWildcard = hasWildcard, as_allowCount = allowCount,
          as_isMultiUserDm = (hasWildcard \<or> allowCount > 1)\<rparr>)"

section \<open>Who is let in\<close>

definition dm_allow_entries :: "access_params \<Rightarrow> string list" where
  "dm_allow_entries p = normalizeStringEntries (js_nullish (xp_allowFrom p) [] @
     (if xp_dmPolicy p = Some ''allowlist'' then [] else js_nullish (xp_storeAllowFrom p) []))"

definition group_allow_entries :: "access_params \<Rightarrow> string list" where
  "group_allow_entries p = normalizeStringEntries
     (if js_nullish (xp_groupAllowFrom p) [] \<noteq> [] then js_nullish (xp_groupAllowFrom p) []
      else if xp_groupFallback p = Some False then [] else js_nullish (xp_allowFrom p) [])"

lemma effective_lists: "resolveEffectiveAllowFromLists p = (dm_allow_entries p, group_allow_entries p)"
  by (simp add: resolveEffectiveAllowFromLists_def mergeDmAllowFromSources_def resolveGroupAllowFromSources_def
      dm_allow_entries_def group_allow_entries_def Let_def)

lemma entries_normalized [simp]:
  "normalizeStringEntries (dm_allow_entries p) = dm_allow_entries p"
  "normalizeStringEntries (group_allow_entries p) = group_allow_entries p"
  by (simp_all add: dm_allow_entries_def group_allow_entries_def)

lemma access_eq: "fst (resolveDmGroupAccessWithLists p) =
  resolveDmGroupAccessDecision (xp_isGroup p) (xp_dmPolicy p) (xp_groupPolicy p) (dm_allow_entries p)
    (group_allow_entries p) (xp_isSenderAllowed p)"
  by (simp add: resolveDmGroupAccessWithLists_def effective_lists)

text \<open>C37: who is let in: a group message is allowed exactly when the policy is open, or it is not disabled and the
  sender is on a non-empty group allowlist; a direct message exactly when the policy is open, or it is not disabled
  and the sender is on the configured allowlist or, unless the policy is \<open>allowlist\<close>, was paired; a pairing request
  is offered exactly to senders who are not let in under the pairing policy (the default).\<close>

theorem access_decision_meets_spec:
  "ad_decision (fst (resolveDmGroupAccessWithLists p)) =
     (let policy = js_nullish (xp_dmPolicy p) ''pairing''; allowed = xp_isSenderAllowed p in
      if xp_isGroup p then
        (if xp_groupPolicy p = Some ''open'' \<or>
            xp_groupPolicy p \<noteq> Some ''disabled'' \<and> group_allow_entries p \<noteq> [] \<and> allowed (group_allow_entries p)
         then DmAllow else DmBlock)
      else if policy = ''open'' \<or> policy \<noteq> ''disabled'' \<and> allowed (dm_allow_entries p) then DmAllow
      else if policy = ''pairing'' then DmPairing else DmBlock)"
  by (auto simp: access_eq resolveDmGroupAccessDecision_def evaluateMatchedGroupAccessForPolicy_def
      effectiveGroupPolicy_def group_deny_def group_allow_def Let_def)

text \<open>C38: pairing approvals never reach groups: for a group message neither the decision, its reason, the
  effective group allowlist, nor the authorisation or blocking of control commands depends on the pairing store.\<close>

theorem pairing_store_never_reaches_groups:
  assumes "xp_isGroup p"
  shows "(let a = resolveDmGroupAccessWithCommandGate p command;
      b = resolveDmGroupAccessWithCommandGate (p\<lparr>xp_storeAllowFrom := store\<rparr>) command in
    ga_access a = ga_access b \<and> ga_effectiveGroupAllowFrom a = ga_effectiveGroupAllowFrom b \<and>
    ga_commandAuthorized a = ga_commandAuthorized b \<and>
    ga_shouldBlockControlCommand a = ga_shouldBlockControlCommand b)"
  using assms
  by (auto simp: resolveDmGroupAccessWithCommandGate_def resolveDmGroupAccessWithLists_def effective_lists
      resolveDmGroupAccessDecision_def group_allow_entries_def Let_def split: option.split)

definition sample_access :: access_params where
  "sample_access = \<lparr>xp_isGroup = True, xp_dmPolicy = Some ''pairing'', xp_groupPolicy = Some ''allowlist'',
     xp_allowFrom = Some ['' alice ''], xp_groupAllowFrom = None, xp_storeAllowFrom = Some [],
     xp_groupFallback = None, xp_isSenderAllowed = (\<lambda>entries. ''mallory'' \<in> set entries)\<rparr>"

theorem pairing_store_never_reaches_groups_witness:
  "ad_decision (ga_access (resolveDmGroupAccessWithCommandGate
     (sample_access\<lparr>xp_storeAllowFrom := Some [''mallory'']\<rparr>) None)) = DmBlock"
proof -
  have "xp_isGroup sample_access" by (simp add: sample_access_def)
  from pairing_store_never_reaches_groups [OF this, of None "Some [''mallory'']"]
  have "ga_access (resolveDmGroupAccessWithCommandGate (sample_access\<lparr>xp_storeAllowFrom := Some [''mallory'']\<rparr>) None) =
      ga_access (resolveDmGroupAccessWithCommandGate sample_access None)"
    by (simp add: Let_def)
  moreover have "ad_decision (ga_access (resolveDmGroupAccessWithCommandGate sample_access None)) = DmBlock"
    by code_simp
  ultimately show ?thesis by simp
qed

text \<open>A control command in a group by a sender on no list is blocked when access groups are used.\<close>

lemma unlisted_group_command_blocked:
  assumes "xp_isGroup p" "cp_useAccessGroups c" "cp_allowTextCommands c" "cp_hasControlCommand c"
    and "\<And>l. \<not> xp_isSenderAllowed p (normalizeStringEntries l)"
  shows "ga_shouldBlockControlCommand (resolveDmGroupAccessWithCommandGate p (Some c))"
  using assms
  by (auto simp: resolveDmGroupAccessWithCommandGate_def resolveControlCommandGate_def
      resolveCommandAuthorizedFromAuthorizers_def Let_def split: prod.split)

end
