(* ===== verification/QueueHelpers.thy ===== *)
theory QueueHelpers
  imports DedupeCache "HOL-Library.Sublist"
begin

text \<open>
  The pure part of the follow-up queue: \<open>src/utils/queue-helpers.ts\<close> (overflow policy, summaries, collected
  prompts, the test for mixed destinations), \<open>src/auto-reply/reply/queue/normalize.ts\<close>, \<open>settings.ts\<close>, the routing
  helpers of \<open>drain.ts\<close>, the keys of \<open>enqueue.ts\<close> and \<open>src/auto-reply/reply/queue-policy.ts\<close>. The registry of
  channels and the defaults of channel plugins are parameters.
\<close>

section \<open>Text of the standard library\<close>

text \<open>\<open>String(n)\<close> of a natural number.\<close>

fun js_digits :: "nat \<Rightarrow> string" where
  "js_digits n = (if n < 10 then [char_of (48 + n)] else js_digits (n div 10) @ [char_of (48 + n mod 10)])"

declare js_digits.simps [simp del]

definition js_int :: "int \<Rightarrow> string" where
  "js_int n = (if n < 0 then CHR 0x2D # js_digits (nat (- n)) else js_digits (nat n))"

text \<open>\<open>replace(/\s+/g, " ")\<close>.\<close>

function collapse_ws :: "string \<Rightarrow> string" where
  "collapse_ws [] = []"
| "collapse_ws (c # s) = (if js_ws c then CHR 0x20 # collapse_ws (dropWhile js_ws s) else c # collapse_ws s)"
  by pat_completeness auto
termination by (relation "measure length") (auto simp: le_imp_less_Suc length_dropWhile_le)

definition js_trim_end :: "string \<Rightarrow> string" where
  "js_trim_end s = rev (dropWhile js_ws (rev s))"

text \<open>
  \<open>JSON.stringify\<close> of an array of strings: quotes, backslashes and the control characters below 32 are escaped, the
  other characters stand for themselves.
\<close>

definition json_hex :: "nat \<Rightarrow> char" where
  "json_hex n = (if n < 10 then char_of (48 + n) else char_of (87 + n))"

definition json_char :: "char \<Rightarrow> string" where
  "json_char c = (let n = (of_char c :: nat) in
     if c = CHR 0x22 \<or> c = CHR 0x5C then [CHR 0x5C, c]
     else if n = 8 then [CHR 0x5C, CHR ''b'']
     else if n = 9 then [CHR 0x5C, CHR ''t'']
     else if n = 10 then [CHR 0x5C, CHR ''n'']
     else if n = 12 then [CHR 0x5C, CHR ''f'']
     else if n = 13 then [CHR 0x5C, CHR ''r'']
     else if n < 32 then [CHR 0x5C, CHR ''u'', CHR ''0'', CHR ''0'', json_hex (n div 16), json_hex (n mod 16)]
     else [c])"

definition json_string :: "string \<Rightarrow> string" where
  "json_string s = CHR 0x22 # concat (map json_char s) @ [CHR 0x22]"

definition json_strings :: "string list \<Rightarrow> string" where
  "json_strings xs = CHR ''['' # join_with '','' (map json_string xs) @ '']''"

section \<open>Modes and settings\<close>

datatype queue_mode = ModeSteer | ModeFollowup | ModeCollect | ModeSteerBacklog | ModeInterrupt | ModeQueue

datatype drop_policy = DropSummarize | DropOld | DropNew

definition normalizeQueueMode :: "string option \<Rightarrow> queue_mode option" where
  "normalizeQueueMode raw = (case normalizeOptionalLowercaseString raw of
       None \<Rightarrow> None
     | Some cleaned \<Rightarrow>
         if cleaned \<in> {''queue'', ''queued''} then Some ModeSteer
         else if cleaned \<in> {''interrupt'', ''interrupts'', ''abort''} then Some ModeInterrupt
         else if cleaned \<in> {''steer'', ''steering''} then Some ModeSteer
         else if cleaned \<in> {''followup'', ''follow-ups'', ''followups''} then Some ModeFollowup
         else if cleaned \<in> {''collect'', ''coalesce''} then Some ModeCollect
         else if cleaned \<in> {''steer+backlog'', ''steer-backlog'', ''steer_backlog''} then Some ModeSteerBacklog
         else None)"

definition normalizeQueueDropPolicy :: "string option \<Rightarrow> drop_policy option" where
  "normalizeQueueDropPolicy raw = (case normalizeOptionalLowercaseString raw of
       None \<Rightarrow> None
     | Some cleaned \<Rightarrow>
         if cleaned \<in> {''old'', ''oldest''} then Some DropOld
         else if cleaned \<in> {''new'', ''newest''} then Some DropNew
         else if cleaned \<in> {''summarize'', ''summary''} then Some DropSummarize
         else None)"

record queue_settings =
  qs_mode :: queue_mode
  qs_debounceMs :: "rat option"
  qs_cap :: "rat option"
  qs_dropPolicy :: "drop_policy option"

definition DEFAULT_QUEUE_DEBOUNCE_MS :: rat where "DEFAULT_QUEUE_DEBOUNCE_MS = 1000"
definition DEFAULT_QUEUE_CAP :: int where "DEFAULT_QUEUE_CAP = 20"
definition DEFAULT_QUEUE_DROP :: drop_policy where "DEFAULT_QUEUE_DROP = DropSummarize"

text \<open>\<open>cfg.messages.queue\<close>, the queue fields of a session entry and the inline options of a message.\<close>

record queue_config =
  qc_mode :: "string option"
  qc_byChannel :: "(string, string) jsmap"
  qc_debounceMs :: "rat option"
  qc_debounceMsByChannel :: "(string, rat) jsmap"
  qc_cap :: "rat option"
  qc_drop :: "string option"

record session_queue =
  sq_mode :: "string option"
  sq_debounceMs :: "rat option"
  sq_cap :: "rat option"
  sq_drop :: "drop_policy option"

record inline_queue =
  iq_mode :: "queue_mode option"
  iq_debounceMs :: "rat option"
  iq_cap :: "rat option"
  iq_drop :: "drop_policy option"

definition defaultQueueModeForChannel :: "string option \<Rightarrow> queue_mode" where
  "defaultQueueModeForChannel channel = ModeCollect"

definition resolveChannelDebounce :: "(string, rat) jsmap \<Rightarrow> string option \<Rightarrow> rat option" where
  "resolveChannelDebounce byChannel channelKey = (case channelKey of
       None \<Rightarrow> None | Some k \<Rightarrow> map_option (max 0) (jm_get byChannel k))"

definition resolvePluginDebounce :: "(string \<Rightarrow> rat option) \<Rightarrow> string option \<Rightarrow> rat option" where
  "resolvePluginDebounce plugin channelKey = (case channelKey of
       None \<Rightarrow> None | Some k \<Rightarrow> map_option (max 0) (plugin k))"

definition resolveQueueSettings ::
  "(string \<Rightarrow> rat option) \<Rightarrow> queue_config \<Rightarrow> string option \<Rightarrow> session_queue \<Rightarrow> inline_queue \<Rightarrow> queue_settings" where
  "resolveQueueSettings plugin cfg channel entry inline =
     (let channelKey = normalizeOptionalLowercaseString channel;
          providerModeRaw = (case channelKey of None \<Rightarrow> None | Some k \<Rightarrow> jm_get (qc_byChannel cfg) k);
          resolvedMode = js_nullish (or_else (iq_mode inline) (or_else (normalizeQueueMode (sq_mode entry))
            (or_else (normalizeQueueMode providerModeRaw) (normalizeQueueMode (qc_mode cfg)))))
            (defaultQueueModeForChannel channelKey);
          debounceRaw = js_nullish (or_else (iq_debounceMs inline) (or_else (sq_debounceMs entry)
            (or_else (resolveChannelDebounce (qc_debounceMsByChannel cfg) channelKey)
              (or_else (resolvePluginDebounce plugin channelKey) (qc_debounceMs cfg))))) DEFAULT_QUEUE_DEBOUNCE_MS;
          capRaw = js_nullish (or_else (iq_cap inline) (or_else (sq_cap entry) (qc_cap cfg))) (of_int DEFAULT_QUEUE_CAP);
          dropRaw = js_nullish (or_else (iq_drop inline) (or_else (sq_drop entry) (normalizeQueueDropPolicy (qc_drop cfg))))
            DEFAULT_QUEUE_DROP
      in \<lparr>qs_mode = resolvedMode, qs_debounceMs = Some (max 0 debounceRaw),
          qs_cap = Some (of_int (max 1 \<lfloor>capRaw\<rfloor>)), qs_dropPolicy = Some dropRaw\<rparr>)"

section \<open>Overflow\<close>

record summary_state =
  su_dropPolicy :: drop_policy
  su_droppedCount :: nat
  su_summaryLines :: "string list"

record 'a queue_state = summary_state +
  qu_items :: "'a list"
  qu_cap :: int

definition clearQueueSummaryState :: "'b summary_state_scheme \<Rightarrow> 'b summary_state_scheme" where
  "clearQueueSummaryState st = st\<lparr>su_droppedCount := 0, su_summaryLines := []\<rparr>"

text \<open>
  The ellipsis (code unit 0x2026) is outside the characters of the model; it is written with the code 0x85 that
  Windows-1252 gives it, which is no white space of JavaScript either.
\<close>

definition ellipsis :: char where "ellipsis = CHR 0x85"

definition elideQueueText :: "string \<Rightarrow> nat \<Rightarrow> string" where
  "elideQueueText text limit =
     (if length text \<le> limit then text else js_trim_end (take (limit - 1) text) @ [ellipsis])"

definition buildQueueSummaryLine :: "string \<Rightarrow> nat \<Rightarrow> string" where
  "buildQueueSummaryLine text limit = elideQueueText (js_trim (collapse_ws text)) limit"

definition shouldSkipQueueItem :: "'a \<Rightarrow> 'a list \<Rightarrow> ('a \<Rightarrow> 'a list \<Rightarrow> bool) option \<Rightarrow> bool" where
  "shouldSkipQueueItem item items dedupe = (case dedupe of None \<Rightarrow> False | Some f \<Rightarrow> f item items)"

definition applyQueueDropPolicy ::
  "('a \<Rightarrow> string) \<Rightarrow> int option \<Rightarrow> ('a, 'b) queue_state_scheme \<Rightarrow> bool \<times> ('a, 'b) queue_state_scheme" where
  "applyQueueDropPolicy summarize summaryLimit queue =
     (let cap = qu_cap queue in
      if cap \<le> 0 \<or> int (length (qu_items queue)) < cap then (True, queue)
      else if su_dropPolicy queue = DropNew then (False, queue)
      else let dropCount = nat (int (length (qu_items queue)) - cap + 1);
               dropped = take dropCount (qu_items queue);
               queue1 = queue\<lparr>qu_items := drop dropCount (qu_items queue)\<rparr>
           in if su_dropPolicy queue = DropSummarize then
                (let lines = su_summaryLines queue1 @ map (\<lambda>item. buildQueueSummaryLine (summarize item) 160) dropped;
                     limit = max 0 (js_nullish summaryLimit cap)
                 in (True, queue1\<lparr>su_droppedCount := su_droppedCount queue1 + length dropped,
                                  su_summaryLines := drop (length lines - nat limit) lines\<rparr>))
              else (True, queue1))"

text \<open>The prompt, and the summary state after it (\<open>previewQueueSummaryPrompt\<close> works on a copy).\<close>

definition buildQueueSummaryPrompt ::
  "string option \<Rightarrow> string \<Rightarrow> 'b summary_state_scheme \<Rightarrow> string option \<times> 'b summary_state_scheme" where
  "buildQueueSummaryPrompt title noun st =
     (if su_dropPolicy st \<noteq> DropSummarize \<or> su_droppedCount st = 0 then (None, st)
      else let head = js_nullish title
                 (''[Queue overflow] Dropped '' @ js_digits (su_droppedCount st) @ '' '' @ noun @
                    (if su_droppedCount st = 1 then [] else ''s'') @ '' due to cap.'');
               rest = (if su_summaryLines st = [] then []
                       else ''Summary:'' # map (\<lambda>line. ''- '' @ line) (su_summaryLines st))
           in (Some (join_with [CHR 0x0A] (head # rest)), clearQueueSummaryState st))"

definition previewQueueSummaryPrompt :: "string option \<Rightarrow> string \<Rightarrow> 'b summary_state_scheme \<Rightarrow> string option" where
  "previewQueueSummaryPrompt title noun st = fst (buildQueueSummaryPrompt title noun (summary_state.truncate st))"

definition buildCollectPrompt :: "string \<Rightarrow> 'a list \<Rightarrow> string option \<Rightarrow> ('a \<Rightarrow> nat \<Rightarrow> string) \<Rightarrow> string" where
  "buildCollectPrompt title items summary renderItem =
     join_with [CHR 0x0A, CHR 0x0A]
       (title # (case summary of None \<Rightarrow> [] | Some s \<Rightarrow> if s = [] then [] else [s]) @
        map (\<lambda>(i, item). renderItem item i) (enumerate 0 items))"

text \<open>The \<open>renderItem\<close> and the title that \<open>drain.ts\<close> gives to it.\<close>

definition render_queued :: "string \<Rightarrow> nat \<Rightarrow> string" where
  "render_queued prompt idx = js_trim (''---'' @ [CHR 0x0A] @ ''Queued #'' @ js_digits (idx + 1) @ [CHR 0x0A] @ prompt)"

definition collect_title :: string where
  "collect_title = ''[Queued messages while agent was busy]''"

section \<open>Mixed destinations\<close>

text \<open>What \<open>resolveKey\<close> returns.\<close>

record cross_key =
  ck_cross :: bool
  ck_key :: "string option"

fun cross_loop :: "('a \<Rightarrow> cross_key) \<Rightarrow> 'a list \<Rightarrow> string list \<Rightarrow> bool \<Rightarrow> bool" where
  "cross_loop resolveKey [] keys hasUnkeyed =
     (if keys = [] then False else if hasUnkeyed then True else length keys > 1)"
| "cross_loop resolveKey (item # items) keys hasUnkeyed =
     (let resolved = resolveKey item in
      if ck_cross resolved then True
      else if js_nullish (ck_key resolved) [] = [] then cross_loop resolveKey items keys True
      else cross_loop resolveKey items (List.insert (the (ck_key resolved)) keys) hasUnkeyed)"

definition hasCrossChannelItems :: "'a list \<Rightarrow> ('a \<Rightarrow> cross_key) \<Rightarrow> bool" where
  "hasCrossChannelItems items resolveKey = cross_loop resolveKey items [] False"

section \<open>Queued messages\<close>

datatype thread_id = ThreadNumber int | ThreadText string

text \<open>
  \<open>FollowupRun["run"]\<close>: the fields the queue reads or rewrites; the others, which it only hands on, are
  \<open>fr_rest\<close>.
\<close>

record followup_target =
  fr_sessionId :: string
  fr_sessionFile :: string
  fr_provider :: string
  fr_model :: string
  fr_authProfileId :: "string option"
  fr_authProfileIdSource :: "string option"
  fr_rest :: nat

record followup_run =
  fo_prompt :: string
  fo_messageId :: "string option"
  fo_summaryLine :: "string option"
  fo_enqueuedAt :: int
  fo_channel :: "string option"
  fo_to :: "string option"
  fo_accountId :: "string option"
  fo_threadId :: "thread_id option"
  fo_run :: followup_target

definition thread_text :: "thread_id \<Rightarrow> string" where
  "thread_text t = (case t of ThreadNumber n \<Rightarrow> js_int n | ThreadText s \<Rightarrow> s)"

definition INTERNAL_MESSAGE_CHANNEL :: string where "INTERNAL_MESSAGE_CHANNEL = ''webchat''"

definition isRoutableChannel :: "(string \<Rightarrow> bool) \<Rightarrow> string option \<Rightarrow> bool" where
  "isRoutableChannel known channel = (case channel of
       None \<Rightarrow> False
     | Some c \<Rightarrow> c \<noteq> [] \<and> c \<noteq> INTERNAL_MESSAGE_CHANNEL \<and> known c)"

definition present :: "string option \<Rightarrow> bool" where
  "present v \<longleftrightarrow> js_nullish v [] \<noteq> []"

definition no_thread :: "followup_run \<Rightarrow> bool" where
  "no_thread item \<longleftrightarrow> fo_threadId item = None \<or> fo_threadId item = Some (ThreadText [])"

record origin_routing =
  og_channel :: "string option"
  og_to :: "string option"
  og_accountId :: "string option"
  og_threadId :: "thread_id option"

definition find_field :: "('a \<Rightarrow> bool) \<Rightarrow> ('a \<Rightarrow> 'b option) \<Rightarrow> 'a list \<Rightarrow> 'b option" where
  "find_field P f items = (case find P items of None \<Rightarrow> None | Some item \<Rightarrow> f item)"

definition resolveOriginRoutingMetadata :: "followup_run list \<Rightarrow> origin_routing" where
  "resolveOriginRoutingMetadata items =
     \<lparr>og_channel = find_field (\<lambda>i. present (fo_channel i)) fo_channel items,
      og_to = find_field (\<lambda>i. present (fo_to i)) fo_to items,
      og_accountId = find_field (\<lambda>i. present (fo_accountId i)) fo_accountId items,
      og_threadId = find_field (\<lambda>i. \<not> no_thread i) fo_threadId items\<rparr>"

definition resolveCrossChannelKey :: "(string \<Rightarrow> bool) \<Rightarrow> followup_run \<Rightarrow> cross_key" where
  "resolveCrossChannelKey known item =
     (if \<not> present (fo_channel item) \<and> \<not> present (fo_to item) \<and> \<not> present (fo_accountId item) \<and> no_thread item
      then \<lparr>ck_cross = False, ck_key = None\<rparr>
      else if \<not> isRoutableChannel known (fo_channel item) \<or> \<not> present (fo_to item)
      then \<lparr>ck_cross = True, ck_key = None\<rparr>
      else \<lparr>ck_cross = False, ck_key = Some (join_bar [the (fo_channel item), the (fo_to item), js_nullish (fo_accountId item) [],
             (if no_thread item then [] else thread_text (the (fo_threadId item)))])\<rparr>)"

section \<open>Duplicates\<close>

definition buildRecentMessageIdKey :: "followup_run \<Rightarrow> string \<Rightarrow> string option" where
  "buildRecentMessageIdKey run queueKey = (case normalizeOptionalString (fo_messageId run) of
       None \<Rightarrow> None
     | Some messageId \<Rightarrow> Some (json_strings [''queue'', queueKey, js_nullish (fo_channel run) [], js_nullish (fo_to run) [],
         js_nullish (fo_accountId run) [], (case fo_threadId run of None \<Rightarrow> [] | Some t \<Rightarrow> thread_text t), messageId]))"

definition same_routing :: "followup_run \<Rightarrow> followup_run \<Rightarrow> bool" where
  "same_routing run item \<longleftrightarrow> fo_channel item = fo_channel run \<and> fo_to item = fo_to run \<and>
     fo_accountId item = fo_accountId run \<and> fo_threadId item = fo_threadId run"

definition isRunAlreadyQueued :: "followup_run \<Rightarrow> followup_run list \<Rightarrow> bool \<Rightarrow> bool" where
  "isRunAlreadyQueued run items allowPromptFallback = (case normalizeOptionalString (fo_messageId run) of
       Some messageId \<Rightarrow>
         list_ex (\<lambda>item. normalizeOptionalString (fo_messageId item) = Some messageId \<and> same_routing run item) items
     | None \<Rightarrow> allowPromptFallback \<and> list_ex (\<lambda>item. fo_prompt item = fo_prompt run \<and> same_routing run item) items)"

section \<open>What to do with a message while a run is active\<close>

datatype active_run_action = RunNow | EnqueueFollowup | DropMessage

definition resolveActiveRunQueueAction :: "bool \<Rightarrow> bool \<Rightarrow> bool \<Rightarrow> queue_mode \<Rightarrow> active_run_action" where
  "resolveActiveRunQueueAction isActive isHeartbeat shouldFollowup queueMode =
     (if \<not> isActive then RunNow
      else if isHeartbeat then DropMessage
      else if shouldFollowup \<or> queueMode = ModeSteer then EnqueueFollowup
      else RunNow)"

definition should_followup :: "queue_mode \<Rightarrow> bool" where
  "should_followup mode \<longleftrightarrow> mode = ModeFollowup \<or> mode = ModeCollect \<or> mode = ModeSteerBacklog"

section \<open>The keys determine the message\<close>

text \<open>A reader for the body of a JSON string: it gives back the string and what follows the closing quote.\<close>

definition json_unhex :: "char \<Rightarrow> nat" where
  "json_unhex c = (let n = (of_char c :: nat) in if n < 58 then n - 48 else n - 87)"

definition json_escape :: "char \<Rightarrow> char" where
  "json_escape c = (if c = CHR ''b'' then char_of (8::nat) else if c = CHR ''t'' then char_of (9::nat)
     else if c = CHR ''n'' then char_of (10::nat) else if c = CHR ''f'' then char_of (12::nat)
     else if c = CHR ''r'' then char_of (13::nat) else c)"

function json_read :: "string \<Rightarrow> (string \<times> string) option" where
  "json_read [] = None"
| "json_read (c # s) =
     (if c = CHR 0x22 then Some ([], s)
      else if c \<noteq> CHR 0x5C then map_option (\<lambda>(t, r). (c # t, r)) (json_read s)
      else case s of [] \<Rightarrow> None
        | d # s' \<Rightarrow>
          if d = CHR ''u'' then map_option (\<lambda>(t, r). (char_of (16 * json_unhex (s' ! 2) + json_unhex (s' ! 3)) # t, r)) (json_read (drop 4 s'))
          else map_option (\<lambda>(t, r). (json_escape d # t, r)) (json_read s'))"
  by pat_completeness auto
termination by (relation "measure length") auto

declare json_read.simps(2) [simp del]

lemma json_hex_inverse: "n < 16 \<Longrightarrow> json_unhex (json_hex n) = n"
  by (auto simp: json_unhex_def json_hex_def Let_def)

lemma json_read_char: "json_read (json_char c @ s) = map_option (\<lambda>(t, r). (c # t, r)) (json_read s)"
proof -
  let ?n = "of_char c :: nat"
  have eq: "(char_of ?n :: char) = c" by simp
  have named: "c = char_of ?n" by simp
  consider "c = CHR 0x22 \<or> c = CHR 0x5C" | "?n \<in> {8, 9, 10, 12, 13}"
    | "?n < 32" "?n \<notin> {8, 9, 10, 12, 13}" "\<not> (c = CHR 0x22 \<or> c = CHR 0x5C)"
    | "\<not> ?n < 32" "c \<noteq> CHR 0x22" "c \<noteq> CHR 0x5C"
    by blast
  then show ?thesis
  proof cases
    case 1
    then show ?thesis by (auto simp: json_char_def json_escape_def json_read.simps(2))
  next
    case 2
    then have "c = char_of (8::nat) \<or> c = char_of (9::nat) \<or> c = char_of (10::nat) \<or> c = char_of (12::nat) \<or> c = char_of (13::nat)"
      using named by (metis insert_iff empty_iff)
    then show ?thesis
      by (elim disjE) (simp_all add: json_char_def json_escape_def json_read.simps(2))
  next
    case 3
    have "?n div 16 < 16" "?n mod 16 < 16" using 3 by auto
    then have "char_of (16 * json_unhex (json_hex (?n div 16)) + json_unhex (json_hex (?n mod 16))) = c"
      by (simp add: json_hex_inverse)
    with 3 show ?thesis
      by (simp add: json_char_def Let_def json_read.simps(2) numeral_3_eq_3 numeral_2_eq_2)
  next
    case 4
    then show ?thesis by (simp add: json_char_def Let_def json_read.simps(2))
  qed
qed

lemma json_read_string: "json_read (concat (map json_char s) @ CHR 0x22 # r) = Some (s, r)"
  by (induction s) (simp_all add: json_read_char json_read.simps(2))

lemma json_string_split: "json_string s @ r = json_string s' @ r' \<Longrightarrow> s = s' \<and> r = r'"
proof -
  have read: "json_read (tl (json_string t @ u)) = Some (t, u)" for t u
    by (simp add: json_string_def json_read_string)
  assume "json_string s @ r = json_string s' @ r'"
  from arg_cong [OF this, of "\<lambda>x. json_read (tl x)"] show ?thesis unfolding read by simp
qed

lemma json_join_inject: "length xs = length ys \<Longrightarrow>
  join_with '','' (map json_string xs) @ r = join_with '','' (map json_string ys) @ r' \<Longrightarrow> xs = ys"
proof (induction xs ys rule: list_induct2)
  case (Cons x xs y ys)
  show ?case
  proof (cases xs)
    case Nil
    with Cons show ?thesis by (auto dest: json_string_split)
  next
    case (Cons x' xs')
    with \<open>length xs = length ys\<close> obtain y' ys' where ys: "ys = y' # ys'" by (cases ys) auto
    with Cons Cons.prems have "json_string x @ '','' @ join_with '','' (map json_string xs) @ r =
      json_string y @ '','' @ join_with '','' (map json_string ys) @ r'" by simp
    from json_string_split [OF this] Cons.IH show ?thesis by simp
  qed
qed simp

lemma json_strings_inject: "length xs = length ys \<Longrightarrow> json_strings xs = json_strings ys \<longleftrightarrow> xs = ys"
  using json_join_inject [of xs ys "'']''" "'']''"] by (auto simp: json_strings_def)

text \<open>The fields of a message that its key is made of.\<close>

definition message_key :: "string \<Rightarrow> followup_run \<Rightarrow> string list" where
  "message_key queueKey run = [queueKey, js_nullish (fo_channel run) [], js_nullish (fo_to run) [], js_nullish (fo_accountId run) [],
     (case fo_threadId run of None \<Rightarrow> [] | Some t \<Rightarrow> thread_text t), js_nullish (normalizeOptionalString (fo_messageId run)) []]"

lemma recent_key_eq:
  assumes "buildRecentMessageIdKey a q = Some k" "buildRecentMessageIdKey b q' = Some k'"
  shows "k = k' \<longleftrightarrow> message_key q a = message_key q' b"
  using assms by (auto simp: buildRecentMessageIdKey_def message_key_def json_strings_inject split: option.splits if_splits)

section \<open>Overflow: what is kept\<close>

lemma drop_policy_cases:
  obtains (room) "qu_cap q \<le> 0 \<or> int (length (qu_items q)) < qu_cap q" "applyQueueDropPolicy f lmt q = (True, q)"
  | (refused) "qu_cap q > 0" "qu_cap q \<le> int (length (qu_items q))" "su_dropPolicy q = DropNew"
      "applyQueueDropPolicy f lmt q = (False, q)"
  | (dropped) n where "qu_cap q > 0" "su_dropPolicy q \<noteq> DropNew" "0 < n" "n \<le> length (qu_items q)"
      "int (length (qu_items q) - n) = qu_cap q - 1"
      "fst (applyQueueDropPolicy f lmt q) = True"
      "qu_items (snd (applyQueueDropPolicy f lmt q)) = drop n (qu_items q)"
      "su_droppedCount (snd (applyQueueDropPolicy f lmt q)) =
         su_droppedCount q + (if su_dropPolicy q = DropSummarize then n else 0)"
proof -
  consider "qu_cap q \<le> 0 \<or> int (length (qu_items q)) < qu_cap q"
    | "qu_cap q > 0" "qu_cap q \<le> int (length (qu_items q))" "su_dropPolicy q = DropNew"
    | "qu_cap q > 0" "qu_cap q \<le> int (length (qu_items q))" "su_dropPolicy q \<noteq> DropNew"
    by linarith
  then show ?thesis
  proof cases
    case 1
    then show ?thesis by (intro room) (simp_all add: applyQueueDropPolicy_def Let_def)
  next
    case 2
    then show ?thesis by (intro refused) (simp_all add: applyQueueDropPolicy_def Let_def)
  next
    case 3
    define n where "n = nat (int (length (qu_items q)) - qu_cap q + 1)"
    have n: "0 < n" "n \<le> length (qu_items q)" "int (length (qu_items q) - n) = qu_cap q - 1"
      using 3 by (auto simp: n_def)
    show ?thesis
      by (rule dropped [of n]) (use 3 n in \<open>simp_all add: applyQueueDropPolicy_def Let_def flip: n_def\<close>)
  qed
qed

lemma drop_policy_kept:
  "fst (applyQueueDropPolicy f lmt q) \<Longrightarrow> qu_cap q > 0 \<Longrightarrow> int (length (qu_items (snd (applyQueueDropPolicy f lmt q)))) < qu_cap q"
  by (rule drop_policy_cases [of q f lmt]) auto

lemma drop_policy_more [simp]:
  "qu_cap (snd (applyQueueDropPolicy f lmt q)) = qu_cap q"
  "su_dropPolicy (snd (applyQueueDropPolicy f lmt q)) = su_dropPolicy q"
  "queue_state.more (snd (applyQueueDropPolicy f lmt q)) = queue_state.more q"
  by (simp_all add: applyQueueDropPolicy_def Let_def)

lemma drop_policy_summary:
  assumes "length (su_summaryLines q) \<le> nat (qu_cap q)"
  shows "length (su_summaryLines (snd (applyQueueDropPolicy f None q))) \<le> nat (qu_cap q)"
proof -
  have keep: "length (drop (length xs - m) xs) \<le> m" for xs :: "string list" and m by simp
  show ?thesis
    using assms keep by (simp add: applyQueueDropPolicy_def Let_def del: length_drop length_append drop_append)
qed

lemma elide_length: "0 < limit \<Longrightarrow> length (elideQueueText text limit) \<le> limit"
proof -
  assume "0 < limit"
  have "length (js_trim_end s) \<le> length s" for s
    by (simp add: js_trim_end_def) (metis length_dropWhile_le length_rev)
  from this [of "take (limit - 1) text"] \<open>0 < limit\<close> show ?thesis by (auto simp: elideQueueText_def)
qed

section \<open>Mixed destinations\<close>

lemma cross_loop_marked: "(\<exists>i\<in>set items. ck_cross (f i)) \<Longrightarrow> cross_loop f items keys unkeyed"
  by (induction items arbitrary: keys unkeyed) (auto simp: Let_def)

definition key_text :: "('a \<Rightarrow> cross_key) \<Rightarrow> 'a \<Rightarrow> string" where
  "key_text f i = js_nullish (ck_key (f i)) []"

lemma cross_loop_keys:
  "\<forall>i\<in>set items. \<not> ck_cross (f i) \<Longrightarrow> distinct keys \<Longrightarrow> cross_loop f items keys unkeyed \<longleftrightarrow>
     (let ks = set keys \<union> (key_text f ` set items - {[]}) in
      ks \<noteq> {} \<and> (unkeyed \<or> [] \<in> key_text f ` set items \<or> card ks > 1))"
proof (induction items arbitrary: keys unkeyed)
  case Nil
  then show ?case by (auto simp: Let_def distinct_card)
next
  case (Cons i items)
  show ?case
  proof (cases "key_text f i = []")
    case True
    then have "js_nullish (ck_key (f i)) [] = []" by (simp add: key_text_def)
    with Cons True show ?thesis by (simp add: Let_def)
  next
    case False
    then have key: "js_nullish (ck_key (f i)) [] \<noteq> []" "the (ck_key (f i)) = key_text f i"
      by (auto simp: key_text_def js_nullish_def split: option.splits)
    have un: "insert (key_text f i) (set keys) \<union> (key_text f ` set items - {[]}) =
      set keys \<union> (key_text f ` set (i # items) - {[]})" using False by auto
    have nil: "[] \<in> key_text f ` set (i # items) \<longleftrightarrow> [] \<in> key_text f ` set items" using False by auto
    from Cons.IH [of "List.insert (key_text f i) keys" unkeyed] Cons.prems
    have "cross_loop f items (List.insert (key_text f i) keys) unkeyed \<longleftrightarrow>
      (let ks = set keys \<union> (key_text f ` set (i # items) - {[]}) in
       ks \<noteq> {} \<and> (unkeyed \<or> [] \<in> key_text f ` set (i # items) \<or> card ks > 1))"
      unfolding nil set_insert un by simp
    moreover have "cross_loop f (i # items) keys unkeyed = cross_loop f items (List.insert (key_text f i) keys) unkeyed"
      using Cons.prems(1) key by simp
    ultimately show ?thesis by simp
  qed
qed

lemma several_values:
  assumes "finite K"
  shows "K - {x} \<noteq> {} \<and> (x \<in> K \<or> card (K - {x}) > 1) \<longleftrightarrow> \<not> (\<forall>a\<in>K. \<forall>b\<in>K. a = b)"
proof (cases "x \<in> K")
  case True
  then show ?thesis by blast
next
  case False
  then have K: "K - {x} = K" by blast
  have "card K > 1 \<longleftrightarrow> \<not> (\<forall>a\<in>K. \<forall>b\<in>K. a = b)"
    using card_le_Suc0_iff_eq [OF assms] by (simp add: not_le [symmetric])
  with False show ?thesis unfolding K by blast
qed

text \<open>The items are not mixed exactly when none is marked and all have the same key, or none has one.\<close>

lemma not_mixed_iff:
  "\<not> hasCrossChannelItems items f \<longleftrightarrow>
     (\<forall>i\<in>set items. \<not> ck_cross (f i)) \<and> (\<forall>i\<in>set items. \<forall>j\<in>set items. key_text f i = key_text f j)"
proof (cases "\<exists>i\<in>set items. ck_cross (f i)")
  case True
  then show ?thesis using cross_loop_marked [of items f] by (auto simp: hasCrossChannelItems_def)
next
  case False
  let ?K = "key_text f ` set items"
  have "hasCrossChannelItems items f \<longleftrightarrow> ?K - {[]} \<noteq> {} \<and> ([] \<in> ?K \<or> card (?K - {[]}) > 1)"
    using cross_loop_keys [of items f "[]" False] False by (simp add: hasCrossChannelItems_def Let_def)
  also have "\<dots> \<longleftrightarrow> \<not> (\<forall>a\<in>?K. \<forall>b\<in>?K. a = b)"
    by (rule several_values) simp
  finally have "hasCrossChannelItems items f \<longleftrightarrow> \<not> (\<forall>a\<in>?K. \<forall>b\<in>?K. a = b)" .
  moreover have "\<forall>i\<in>set items. \<not> ck_cross (f i)" using False by blast
  ultimately show ?thesis unfolding ball_simps by blast
qed

section \<open>Collected messages\<close>

text \<open>Where a reply goes: a missing part and an empty one are the same.\<close>

definition thread_of :: "thread_id option \<Rightarrow> string" where
  "thread_of t = (case t of None \<Rightarrow> [] | Some t \<Rightarrow> thread_text t)"

definition destination :: "followup_run \<Rightarrow> string \<times> string \<times> string \<times> string" where
  "destination item = (js_nullish (fo_channel item) [], js_nullish (fo_to item) [], js_nullish (fo_accountId item) [],
     thread_of (fo_threadId item))"

definition routing_destination :: "origin_routing \<Rightarrow> string \<times> string \<times> string \<times> string" where
  "routing_destination r = (js_nullish (og_channel r) [], js_nullish (og_to r) [], js_nullish (og_accountId r) [],
     thread_of (og_threadId r))"

text \<open>Only the address may contain the separator of the keys.\<close>

definition bar_free :: "followup_run \<Rightarrow> bool" where
  "bar_free item \<longleftrightarrow> CHR ''|'' \<notin> set (js_nullish (fo_channel item) [] @ js_nullish (fo_accountId item) [] @ thread_of (fo_threadId item))"

lemma js_digits_nonempty [simp]: "js_digits n \<noteq> []"
  by (subst js_digits.simps) simp

lemma no_thread_iff: "no_thread item \<longleftrightarrow> thread_of (fo_threadId item) = []"
  by (auto simp: no_thread_def thread_of_def thread_text_def js_int_def split: option.splits thread_id.splits)

lemma split_at_first: "x @ b # y = x' @ b # y' \<Longrightarrow> b \<notin> set x \<Longrightarrow> b \<notin> set x' \<Longrightarrow> x = x' \<and> y = y'"
  by (induction x arbitrary: x') (auto simp: Cons_eq_append_conv append_eq_Cons_conv)

lemma join_bar_four:
  assumes "join_bar [c, t, a, h] = join_bar [c', t', a', h']" "CHR ''|'' \<notin> set (c @ a @ h)" "CHR ''|'' \<notin> set (c' @ a' @ h')"
  shows "c = c' \<and> t = t' \<and> a = a' \<and> h = h'"
proof -
  from assms have "c @ CHR ''|'' # (t @ CHR ''|'' # (a @ CHR ''|'' # h)) = c' @ CHR ''|'' # (t' @ CHR ''|'' # (a' @ CHR ''|'' # h'))"
    by simp
  from split_at_first [OF this] assms(2,3)
  have c: "c = c'" and r: "t @ CHR ''|'' # (a @ CHR ''|'' # h) = t' @ CHR ''|'' # (a' @ CHR ''|'' # h')" by simp_all
  from arg_cong [OF r, of rev]
  have "rev h @ CHR ''|'' # (rev a @ CHR ''|'' # rev t) = rev h' @ CHR ''|'' # (rev a' @ CHR ''|'' # rev t')" by simp
  from split_at_first [OF this] assms(2,3)
  have h: "rev h = rev h'" and r: "rev a @ CHR ''|'' # rev t = rev a' @ CHR ''|'' # rev t'" by simp_all
  from split_at_first [OF r] assms(2,3) have "rev a = rev a'" "rev t = rev t'" by simp_all
  with c h show ?thesis by simp
qed

lemma destination_key:
  assumes "\<not> ck_cross (resolveCrossChannelKey known item)"
  shows "key_text (resolveCrossChannelKey known) item =
    (case destination item of (c, t, a, h) \<Rightarrow> if c = [] \<and> t = [] \<and> a = [] \<and> h = [] then [] else join_bar [c, t, a, h])"
proof (cases "\<not> present (fo_channel item) \<and> \<not> present (fo_to item) \<and> \<not> present (fo_accountId item) \<and> no_thread item")
  case True
  then show ?thesis
    by (simp add: key_text_def resolveCrossChannelKey_def destination_def present_def no_thread_iff)
next
  case False
  with assms have routable: "isRoutableChannel known (fo_channel item)" "present (fo_to item)"
    by (auto simp: resolveCrossChannelKey_def split: if_splits)
  then obtain c t where ct: "fo_channel item = Some c" "fo_to item = Some t" "t \<noteq> []"
    by (auto simp: isRoutableChannel_def present_def js_nullish_def split: option.splits)
  with False routable show ?thesis
    by (auto simp: key_text_def resolveCrossChannelKey_def destination_def no_thread_iff thread_of_def present_def split: option.splits)
qed

lemma unmixed_destinations:
  assumes "\<not> hasCrossChannelItems items (resolveCrossChannelKey known)" "list_all bar_free items" "i \<in> set items" "j \<in> set items"
  shows "destination i = destination j"
proof -
  obtain c t a h where i: "destination i = (c, t, a, h)" by (cases "destination i")
  obtain c' t' a' h' where j: "destination j = (c', t', a', h')" by (cases "destination j")
  note unmixed = assms(1) [unfolded not_mixed_iff]
  note marks = unmixed [THEN conjunct1, THEN bspec]
  from unmixed [THEN conjunct2, THEN bspec, OF assms(3), THEN bspec, OF assms(4)] marks [OF assms(3)] marks [OF assms(4)]
  have eq: "(if c = [] \<and> t = [] \<and> a = [] \<and> h = [] then [] else join_bar [c, t, a, h]) =
    (if c' = [] \<and> t' = [] \<and> a' = [] \<and> h' = [] then [] else join_bar [c', t', a', h'])"
    by (simp add: destination_key i j)
  have "bar_free i" "bar_free j" using assms by (simp_all add: list_all_iff)
  then have "CHR ''|'' \<notin> set (c @ a @ h)" "CHR ''|'' \<notin> set (c' @ a' @ h')"
    using i j by (auto simp: bar_free_def destination_def)
  note parts = join_bar_four [OF _ this]
  have nonempty: "join_bar [u, v, x, y] \<noteq> []" for u v x y by simp
  have "(c, t, a, h) = (c', t', a', h')"
  proof (cases "c = [] \<and> t = [] \<and> a = [] \<and> h = []")
    case True
    then have "(if c' = [] \<and> t' = [] \<and> a' = [] \<and> h' = [] then [] else join_bar [c', t', a', h']) = []"
      using eq by (simp del: join_bar.simps)
    then have "c' = [] \<and> t' = [] \<and> a' = [] \<and> h' = []" using nonempty by metis
    with True show ?thesis by (simp only: simp_thms)
  next
    case False
    then have "join_bar [c, t, a, h] = (if c' = [] \<and> t' = [] \<and> a' = [] \<and> h' = [] then [] else join_bar [c', t', a', h'])"
      using eq by (simp only: if_False)
    then have "join_bar [c, t, a, h] = join_bar [c', t', a', h']" using nonempty by (metis (no_types))
    from parts [OF this] show ?thesis by (simp only: simp_thms)
  qed
  then show ?thesis unfolding i j .
qed

lemma find_field_same:
  assumes "\<forall>i\<in>set items. g (f i) = v" "\<forall>i. P i \<longleftrightarrow> g (f i) \<noteq> []" "g None = []" "items \<noteq> []"
  shows "g (find_field P f items) = v"
proof (cases "v = []")
  case True
  with assms have "find P items = None" by (auto simp: find_None_iff)
  then show ?thesis using True assms by (simp add: find_field_def)
next
  case False
  obtain x xs where "items = x # xs" using assms(4) by (cases items) auto
  with False assms show ?thesis by (auto simp: find_field_def)
qed

text \<open>Messages are collected into one run only if they go to one place: if the queued messages are not mixed, the
  run that collects them is routed to the channel, address, account and thread of each of them. The channel, account
  and thread ids must be free of the separator \<open>|\<close>, the address may contain it.\<close>

theorem collected_messages_share_destination:
  assumes "\<not> hasCrossChannelItems items (resolveCrossChannelKey known)" "list_all bar_free items" "i \<in> set items"
  shows "routing_destination (resolveOriginRoutingMetadata items) = destination i"
proof -
  have same: "\<forall>j\<in>set items. destination j = destination i"
    using unmixed_destinations [OF assms(1,2)] assms(3) by blast
  have ne: "items \<noteq> []" using assms(3) by auto
  have plain: "js_nullish (find_field (\<lambda>i. present (f i)) f items) [] = v" if "\<forall>j\<in>set items. js_nullish (f j) [] = v" for f v
    using find_field_same [of items "\<lambda>x. js_nullish x []" f v] that ne by (simp add: present_def)
  have thread: "thread_of (find_field (\<lambda>i. \<not> no_thread i) fo_threadId items) = v"
    if "\<forall>j\<in>set items. thread_of (fo_threadId j) = v" for v
    using find_field_same [of items thread_of fo_threadId v] that ne by (simp add: no_thread_iff thread_of_def)
  show ?thesis
    using same by (simp add: routing_destination_def resolveOriginRoutingMetadata_def destination_def plain thread)
qed

definition sample_run :: "string \<Rightarrow> string option \<Rightarrow> followup_run" where
  "sample_run prompt mid = \<lparr>fo_prompt = prompt, fo_messageId = mid, fo_summaryLine = None, fo_enqueuedAt = 0,
     fo_channel = Some ''telegram'', fo_to = Some ''chat|1'', fo_accountId = None, fo_threadId = Some (ThreadNumber 7),
     fo_run = \<lparr>fr_sessionId = ''s'', fr_sessionFile = ''f'', fr_provider = ''p'', fr_model = ''m'',
       fr_authProfileId = None, fr_authProfileIdSource = None, fr_rest = 0\<rparr>\<rparr>"

theorem collected_messages_share_destination_witness:
  "routing_destination (resolveOriginRoutingMetadata [sample_run ''a'' None, (sample_run ''b'' None)\<lparr>fo_threadId := Some (ThreadText ''7'')\<rparr>]) =
   destination (sample_run ''a'' None)"
proof (rule collected_messages_share_destination)
  show "\<not> hasCrossChannelItems [sample_run ''a'' None, (sample_run ''b'' None)\<lparr>fo_threadId := Some (ThreadText ''7'')\<rparr>]
      (resolveCrossChannelKey (\<lambda>c. c = ''telegram''))" by code_simp
  show "list_all bar_free [sample_run ''a'' None, (sample_run ''b'' None)\<lparr>fo_threadId := Some (ThreadText ''7'')\<rparr>]" by code_simp
qed simp

section \<open>What the collected prompt contains\<close>

lemma join_with_sublist: "x \<in> set xs \<Longrightarrow> sublist x (join_with sep xs)"
proof (induction sep xs rule: join_with.induct)
  case (3 sep x' y ys)
  show ?case
  proof (cases "x = x'")
    case True
    then show ?thesis by simp
  next
    case False
    with 3 have "sublist x (join_with sep (y # ys))" by simp
    then obtain us vs where "join_with sep (y # ys) = us @ x @ vs" by (auto simp: sublist_def)
    then have "join_with sep (x' # y # ys) = (x' @ sep @ us) @ x @ vs" by simp
    then show ?thesis unfolding sublist_def by blast
  qed
qed simp_all

lemma trim_append:
  assumes "\<not> js_ws c" "js_trim_end p \<noteq> []"
  shows "js_trim ((c # h) @ p) = (c # h) @ js_trim_end p"
proof -
  have "dropWhile js_ws ((c # h) @ p) = (c # h) @ p" using assms(1) by simp
  moreover have "\<exists>d\<in>set (rev p). \<not> js_ws d"
    using assms(2) by (simp add: js_trim_end_def)
  then have "dropWhile js_ws (rev p @ rev (c # h)) = dropWhile js_ws (rev p) @ rev (c # h)"
    by (meson dropWhile_append1)
  ultimately show ?thesis by (simp add: js_trim_def js_trim_end_def)
qed

lemma render_contains: "sublist (js_trim_end prompt) (render_queued prompt idx)"
proof (cases "js_trim_end prompt = []")
  case False
  have dash: "\<not> js_ws CHR 0x2D" by (simp add: js_ws_def)
  have "render_queued prompt idx =
    js_trim ((CHR 0x2D # ''--'' @ [CHR 0x0A] @ ''Queued #'' @ js_digits (idx + 1) @ [CHR 0x0A]) @ prompt)"
    by (simp add: render_queued_def)
  then show ?thesis unfolding trim_append [OF dash False] by (simp only: sublist_append_leftI)
qed simp

text \<open>Every collected message is in the prompt, up to white space at its end, and so is the summary.\<close>

lemma collect_contains:
  assumes "item \<in> set items"
  shows "sublist (js_trim_end (fo_prompt item)) (buildCollectPrompt title items summary (\<lambda>i. render_queued (fo_prompt i)))"
proof -
  from assms obtain n where "n < length items" "items ! n = item" by (auto simp: in_set_conv_nth)
  then have "(n, item) \<in> set (enumerate 0 items)" by (auto simp: in_set_enumerate_eq)
  then have "render_queued (fo_prompt item) n \<in>
    set (map (\<lambda>(i, item). render_queued (fo_prompt item) i) (enumerate 0 items))" by force
  then have "sublist (render_queued (fo_prompt item) n) (buildCollectPrompt title items summary (\<lambda>i. render_queued (fo_prompt i)))"
    unfolding buildCollectPrompt_def by (intro join_with_sublist) simp
  with render_contains show ?thesis by (metis sublist_order.order.trans)
qed

lemma collect_contains_summary:
  "sublist s (buildCollectPrompt title items (Some s) render)"
proof (cases "s = []")
  case False
  then show ?thesis unfolding buildCollectPrompt_def by (intro join_with_sublist) simp
qed simp

section \<open>Settings\<close>

lemma queue_settings_bounds:
  "\<exists>c d. qs_cap (resolveQueueSettings plugin cfg channel entry inline) = Some (of_int c) \<and> 1 \<le> c \<and>
     qs_debounceMs (resolveQueueSettings plugin cfg channel entry inline) = Some d \<and> 0 \<le> d"
  by (simp add: resolveQueueSettings_def Let_def)

end
