(* ===== verification/FollowupQueue.thy ===== *)
theory FollowupQueue
  imports QueueHelpers AgentRuns
begin

text \<open>
  The follow-up queue (\<open>src/auto-reply/reply/queue/\<close>: \<open>state.ts\<close>, \<open>enqueue.ts\<close>, \<open>drain.ts\<close>, \<open>cleanup.ts\<close>): messages
  that arrive while a session's run is active wait in a queue, and a drain runs them afterwards. Queue objects live on
  a heap (a list, the reference is the position), because a drain keeps its reference while the registry of keys
  changes. A drain is split at its \<open>await\<close>s: debounce, the run of a message, and the returns of the helpers, between
  which other code may run. Callbacks are numbers; the run of a callback may succeed, fail or never return.
\<close>

section \<open>State\<close>

record followup_queue = "followup_run queue_state" +
  fq_draining :: bool
  fq_lastEnqueuedAt :: int
  fq_mode :: queue_mode
  fq_debounceMs :: rat
  fq_lastRun :: "followup_target option"

text \<open>
  Where a drain waits: in \<open>waitForQueueDebounce\<close>, with the delay it has read; after it; between the test for mixed
  destinations and the collection; in the run of an item, of the summary in the place of an item, of collected items;
  between the end of such a run and the next iteration, the summary still to be cleared or not; before \<open>finally\<close>.
\<close>

datatype drain_phase =
    Debouncing rat
  | Debounced
  | Collecting
  | RunningItem followup_run
  | RunningSummary followup_run
  | RunningCollected "followup_run list" bool
  | Returning bool
  | Breaking

record drain =
  dr_key :: string
  dr_callback :: nat
  dr_force :: bool
  dr_phase :: drain_phase

text \<open>What is seen of it: by queue object, the messages accepted, dropped by the cap and taken out after a run, the
  runs that were started, with the key and the callback, and the queues that were cleared.\<close>

datatype followup_effect =
    Queued nat followup_run
  | CapDropped nat "followup_run list"
  | Started nat string nat followup_run
  | Completed nat "followup_run list"
  | Failed nat
  | Cleared nat

record followup_state =
  fs_queues :: "followup_queue list"
  fs_registry :: "(string, nat) jsmap"
  fs_callbacks :: "(string, nat) jsmap"
  fs_drains :: "(nat, drain) jsmap"
  fs_recent :: dedupe_cache
  fs_log :: "followup_effect list"

definition followup_init :: followup_state where
  "followup_init = \<lparr>fs_queues = [], fs_registry = [], fs_callbacks = [], fs_drains = [], fs_recent = [], fs_log = []\<rparr>"

definition recent_options :: dedupe_options where
  "recent_options = \<lparr>dd_ttlMs = 5 * 60 * 1000, dd_maxSize = 10000\<rparr>"

definition fq_at :: "followup_state \<Rightarrow> nat \<Rightarrow> followup_queue" where
  "fq_at s q = fs_queues s ! q"

definition set_queue :: "nat \<Rightarrow> followup_queue \<Rightarrow> followup_state \<Rightarrow> followup_state" where
  "set_queue q queue s = s\<lparr>fs_queues := (fs_queues s)[q := queue]\<rparr>"

definition set_drain :: "nat \<Rightarrow> drain \<Rightarrow> followup_state \<Rightarrow> followup_state" where
  "set_drain q d s = s\<lparr>fs_drains := jm_set q d (fs_drains s)\<rparr>"

definition tell :: "followup_effect \<Rightarrow> followup_state \<Rightarrow> followup_state" where
  "tell e s = s\<lparr>fs_log := fs_log s @ [e]\<rparr>"

definition has_work :: "followup_queue \<Rightarrow> bool" where
  "has_work queue \<longleftrightarrow> qu_items queue \<noteq> [] \<or> su_droppedCount queue > 0"

section \<open>Queues\<close>

definition applyQueueRuntimeSettings :: "queue_settings \<Rightarrow> followup_queue \<Rightarrow> followup_queue" where
  "applyQueueRuntimeSettings settings target = target
     \<lparr>fq_mode := qs_mode settings,
      fq_debounceMs := (case qs_debounceMs settings of Some n \<Rightarrow> max 0 n | None \<Rightarrow> fq_debounceMs target),
      qu_cap := (case qs_cap settings of Some n \<Rightarrow> if n > 0 then \<lfloor>n\<rfloor> else qu_cap target | None \<Rightarrow> qu_cap target),
      su_dropPolicy := js_nullish (qs_dropPolicy settings) (su_dropPolicy target)\<rparr>"

definition created_queue :: "queue_settings \<Rightarrow> followup_queue" where
  "created_queue settings =
     \<lparr>su_dropPolicy = js_nullish (qs_dropPolicy settings) DEFAULT_QUEUE_DROP, su_droppedCount = 0, su_summaryLines = [],
      qu_items = [],
      qu_cap = (case qs_cap settings of Some n \<Rightarrow> if n > 0 then \<lfloor>n\<rfloor> else DEFAULT_QUEUE_CAP | None \<Rightarrow> DEFAULT_QUEUE_CAP),
      fq_draining = False, fq_lastEnqueuedAt = 0, fq_mode = qs_mode settings,
      fq_debounceMs = (case qs_debounceMs settings of Some n \<Rightarrow> max 0 n | None \<Rightarrow> DEFAULT_QUEUE_DEBOUNCE_MS),
      fq_lastRun = None\<rparr>"

definition getExistingFollowupQueue :: "string \<Rightarrow> followup_state \<Rightarrow> nat option" where
  "getExistingFollowupQueue key s =
     (let cleaned = js_trim key in if cleaned = [] then None else jm_get (fs_registry s) cleaned)"

definition getFollowupQueue :: "string \<Rightarrow> queue_settings \<Rightarrow> followup_state \<Rightarrow> nat \<times> followup_state" where
  "getFollowupQueue key settings s = (case jm_get (fs_registry s) key of
       Some q \<Rightarrow> (q, set_queue q (applyQueueRuntimeSettings settings (fq_at s q)) s)
     | None \<Rightarrow> let q = length (fs_queues s) in
         (q, s\<lparr>fs_queues := fs_queues s @ [applyQueueRuntimeSettings settings (created_queue settings)],
               fs_registry := jm_set key q (fs_registry s)\<rparr>))"

definition getFollowupQueueDepth :: "string \<Rightarrow> followup_state \<Rightarrow> nat" where
  "getFollowupQueueDepth key s = (case getExistingFollowupQueue key s of
       None \<Rightarrow> 0 | Some q \<Rightarrow> length (qu_items (fq_at s q)))"

definition clearFollowupQueue :: "string \<Rightarrow> followup_state \<Rightarrow> nat \<times> followup_state" where
  "clearFollowupQueue key s =
     (let cleaned = js_trim key in
      case getExistingFollowupQueue cleaned s of
        None \<Rightarrow> (0, s)
      | Some q \<Rightarrow>
          let queue = fq_at s q;
              s1 = set_queue q (queue\<lparr>qu_items := [], su_droppedCount := 0, su_summaryLines := [], fq_lastRun := None,
                     fq_lastEnqueuedAt := 0\<rparr>) s
          in (length (qu_items queue) + su_droppedCount queue,
              tell (Cleared q) (s1\<lparr>fs_registry := jm_delete cleaned (fs_registry s1)\<rparr>)))"

section \<open>Refreshing queued runs\<close>

text \<open>A doubly optional field is one whose presence matters (\<open>Object.hasOwn\<close>).\<close>

record refresh_params =
  rf_key :: string
  rf_previousSessionId :: "string option"
  rf_nextSessionId :: "string option"
  rf_nextSessionFile :: "string option"
  rf_nextProvider :: "string option"
  rf_nextModel :: "string option"
  rf_nextAuthProfileId :: "string option option"
  rf_nextAuthProfileIdSource :: "string option option"

definition should_rewrite_session :: "refresh_params \<Rightarrow> bool" where
  "should_rewrite_session p \<longleftrightarrow> present (rf_previousSessionId p) \<and> present (rf_nextSessionId p) \<and>
     rf_previousSessionId p \<noteq> rf_nextSessionId p"

definition should_rewrite_selection :: "refresh_params \<Rightarrow> bool" where
  "should_rewrite_selection p \<longleftrightarrow> rf_nextProvider p \<noteq> None \<or> rf_nextModel p \<noteq> None \<or>
     rf_nextAuthProfileId p \<noteq> None \<or> rf_nextAuthProfileIdSource p \<noteq> None"

definition rewrite_session :: "refresh_params \<Rightarrow> followup_target \<Rightarrow> followup_target" where
  "rewrite_session p run =
     (if should_rewrite_session p \<and> Some (fr_sessionId run) = rf_previousSessionId p
      then let run1 = run\<lparr>fr_sessionId := the (rf_nextSessionId p)\<rparr> in
           (case normalizeOptionalString (rf_nextSessionFile p) of
              Some nextSessionFile \<Rightarrow> run1\<lparr>fr_sessionFile := nextSessionFile\<rparr> | None \<Rightarrow> run1)
      else run)"

definition rewrite_selection :: "refresh_params \<Rightarrow> followup_target \<Rightarrow> followup_target" where
  "rewrite_selection p run =
     (if should_rewrite_selection p then
        let run1 = run\<lparr>fr_provider := js_nullish (rf_nextProvider p) (fr_provider run)\<rparr>;
            run2 = run1\<lparr>fr_model := js_nullish (rf_nextModel p) (fr_model run1)\<rparr>;
            run3 = (case rf_nextAuthProfileId p of
                      Some next \<Rightarrow> run2\<lparr>fr_authProfileId := normalizeOptionalString next\<rparr> | None \<Rightarrow> run2)
        in (case rf_nextAuthProfileIdSource p of
              Some next \<Rightarrow> run3\<lparr>fr_authProfileIdSource := (if present (fr_authProfileId run3) then next else None)\<rparr>
            | None \<Rightarrow> run3)
      else run)"

definition rewrite_run :: "refresh_params \<Rightarrow> followup_target \<Rightarrow> followup_target" where
  "rewrite_run p run = rewrite_selection p (rewrite_session p run)"

definition refreshQueuedFollowupSession :: "refresh_params \<Rightarrow> followup_state \<Rightarrow> followup_state" where
  "refreshQueuedFollowupSession p s =
     (let cleaned = js_trim (rf_key p) in
      if cleaned = [] then s
      else case getExistingFollowupQueue cleaned s of
        None \<Rightarrow> s
      | Some q \<Rightarrow>
          if \<not> should_rewrite_session p \<and> \<not> should_rewrite_selection p then s
          else let queue = fq_at s q in
            set_queue q (queue\<lparr>fq_lastRun := map_option (rewrite_run p) (fq_lastRun queue),
              qu_items := map (\<lambda>item. item\<lparr>fo_run := rewrite_run p (fo_run item)\<rparr>) (qu_items queue)\<rparr>) s)"

section \<open>Starting a drain\<close>

definition rememberFollowupDrainCallback :: "string \<Rightarrow> nat \<Rightarrow> followup_state \<Rightarrow> followup_state" where
  "rememberFollowupDrainCallback key cb s = s\<lparr>fs_callbacks := jm_set key cb (fs_callbacks s)\<rparr>"

definition clearFollowupDrainCallback :: "string \<Rightarrow> followup_state \<Rightarrow> followup_state" where
  "clearFollowupDrainCallback key s = s\<lparr>fs_callbacks := jm_delete key (fs_callbacks s)\<rparr>"

definition forget_key :: "string \<Rightarrow> followup_state \<Rightarrow> followup_state" where
  "forget_key key s = clearFollowupDrainCallback key (s\<lparr>fs_registry := jm_delete key (fs_registry s)\<rparr>)"

text \<open>\<open>beginQueueDrain\<close>: the queue of the key, unless there is none or it is being drained.\<close>

definition beginQueueDrain :: "string \<Rightarrow> followup_state \<Rightarrow> (nat \<times> followup_state) option" where
  "beginQueueDrain key s = (case jm_get (fs_registry s) key of
       None \<Rightarrow> None
     | Some q \<Rightarrow> if fq_draining (fq_at s q) then None
         else Some (q, set_queue q ((fq_at s q)\<lparr>fq_draining := True\<rparr>) s))"

text \<open>The start of an iteration, in \<open>waitForQueueDebounce\<close>.\<close>

definition debounce_phase :: "followup_queue \<Rightarrow> drain_phase" where
  "debounce_phase queue = (let debounceMs = max 0 (fq_debounceMs queue) in
     if debounceMs \<le> 0 then Debounced else Debouncing debounceMs)"

text \<open>
  A drain that starts runs to its first \<open>await\<close>. If the queue has no work the loop is left at once and the \<open>finally\<close>
  block deletes the queue and the callback of the key.
\<close>

definition scheduleFollowupDrain :: "string \<Rightarrow> nat \<Rightarrow> followup_state \<Rightarrow> followup_state" where
  "scheduleFollowupDrain key runFollowup s = (case beginQueueDrain key s of
       None \<Rightarrow> s
     | Some (q, s1) \<Rightarrow>
         let effective = js_nullish (jm_get (fs_callbacks s1) key) runFollowup;
             s2 = rememberFollowupDrainCallback key effective s1
         in if has_work (fq_at s2 q)
            then set_drain q \<lparr>dr_key = key, dr_callback = effective, dr_force = False, dr_phase = debounce_phase (fq_at s2 q)\<rparr> s2
            else forget_key key (set_queue q ((fq_at s2 q)\<lparr>fq_draining := False\<rparr>) s2))"

definition kickFollowupDrainIfIdle :: "string \<Rightarrow> followup_state \<Rightarrow> followup_state" where
  "kickFollowupDrainIfIdle key s = (case jm_get (fs_callbacks s) key of
       None \<Rightarrow> s | Some cb \<Rightarrow> scheduleFollowupDrain key cb s)"

section \<open>Adding a message\<close>

text \<open>The new message at the end; the messages the overflow policy took out are seen.\<close>

definition add_item :: "nat \<Rightarrow> followup_run \<Rightarrow> followup_queue \<Rightarrow> followup_state \<Rightarrow> followup_state" where
  "add_item q run queue s =
     (let n = length (qu_items (fq_at s q)) - length (qu_items queue);
          dropped = take n (qu_items (fq_at s q));
          s1 = (if dropped = [] then s else tell (CapDropped q dropped) s)
      in tell (Queued q run) (set_queue q (queue\<lparr>qu_items := qu_items queue @ [run]\<rparr>) s1))"

definition remember_given :: "string \<Rightarrow> nat option \<Rightarrow> followup_state \<Rightarrow> followup_state" where
  "remember_given key cb s = (case cb of None \<Rightarrow> s | Some c \<Rightarrow> rememberFollowupDrainCallback key c s)"

definition kick_if :: "bool \<Rightarrow> string \<Rightarrow> followup_state \<Rightarrow> followup_state" where
  "kick_if b key s = (if b then kickFollowupDrainIfIdle key s else s)"

datatype dedupe_mode = DedupeMessageId | DedupePrompt | DedupeNone

definition enqueueFollowupRun ::
  "int \<Rightarrow> string \<Rightarrow> followup_run \<Rightarrow> queue_settings \<Rightarrow> dedupe_mode \<Rightarrow> nat option \<Rightarrow> bool \<Rightarrow> followup_state \<Rightarrow> bool \<times> followup_state" where
  "enqueueFollowupRun now key run settings dedupeMode runFollowup restartIfIdle s =
     (let (q, s1) = getFollowupQueue key settings s;
          recentMessageIdKey = (if dedupeMode \<noteq> DedupeNone then buildRecentMessageIdKey run key else None);
          (seen, recent) = dd_peek recent_options (fs_recent s1) recentMessageIdKey now;
          s2 = s1\<lparr>fs_recent := recent\<rparr>
      in if seen then (False, s2)
      else if shouldSkipQueueItem run (qu_items (fq_at s2 q))
                (if dedupeMode = DedupeNone then None
                 else Some (\<lambda>item items. isRunAlreadyQueued item items (dedupeMode = DedupePrompt)))
      then (False, s2)
      else
        let queue = (fq_at s2 q)\<lparr>fq_lastEnqueuedAt := now, fq_lastRun := Some (fo_run run)\<rparr>;
            (shouldEnqueue, queue1) = applyQueueDropPolicy
              (\<lambda>item. js_nullish (normalizeOptionalString (fo_summaryLine item)) (js_trim (fo_prompt item))) None queue
        in if \<not> shouldEnqueue then (False, set_queue q queue1 s2)
        else
          let s3 = add_item q run queue1 s2;
              s4 = s3\<lparr>fs_recent := snd (dd_check recent_options (fs_recent s3) recentMessageIdKey now)\<rparr>;
              s5 = remember_given key runFollowup s4
          in (True, kick_if (restartIfIdle \<and> \<not> fq_draining (fq_at s5 q)) key s5))"

section \<open>Draining\<close>

text \<open>The \<open>finally\<close> block.\<close>

definition finish_drain :: "nat \<Rightarrow> drain \<Rightarrow> followup_state \<Rightarrow> followup_state" where
  "finish_drain q d s =
     (let s1 = set_queue q ((fq_at s q)\<lparr>fq_draining := False\<rparr>) (s\<lparr>fs_drains := jm_delete q (fs_drains s)\<rparr>)
      in if has_work (fq_at s1 q) then scheduleFollowupDrain (dr_key d) (dr_callback d) s1
         else forget_key (dr_key d) s1)"

text \<open>The head of the \<open>while\<close> loop.\<close>

definition next_iteration :: "nat \<Rightarrow> drain \<Rightarrow> followup_state \<Rightarrow> followup_state" where
  "next_iteration q d s =
     (if has_work (fq_at s q) then set_drain q (d\<lparr>dr_phase := debounce_phase (fq_at s q)\<rparr>) s else finish_drain q d s)"

definition start_run :: "nat \<Rightarrow> drain \<Rightarrow> followup_run \<Rightarrow> drain_phase \<Rightarrow> followup_state \<Rightarrow> followup_state" where
  "start_run q d run phase s = tell (Started q (dr_key d) (dr_callback d) run) (set_drain q (d\<lparr>dr_phase := phase\<rparr>) s)"

text \<open>\<open>drainNextQueueItem\<close> up to its \<open>await\<close>: the run of the first item, or of what stands for it.\<close>

definition drainNextQueueItem ::
  "nat \<Rightarrow> drain \<Rightarrow> (followup_run \<Rightarrow> followup_run) \<Rightarrow> (followup_run \<Rightarrow> drain_phase) \<Rightarrow> followup_state \<Rightarrow> followup_state" where
  "drainNextQueueItem q d runOf phaseOf s = (case qu_items (fq_at s q) of
       [] \<Rightarrow> set_drain q (d\<lparr>dr_phase := Breaking\<rparr>) s
     | next # _ \<Rightarrow> start_run q d (runOf next) (phaseOf next) s)"

definition summary_prompt :: "followup_queue \<Rightarrow> string option" where
  "summary_prompt queue = previewQueueSummaryPrompt None ''message'' queue"

definition drainCollectQueueStep :: "nat \<Rightarrow> drain \<Rightarrow> bool \<Rightarrow> followup_state \<Rightarrow> followup_state" where
  "drainCollectQueueStep q d isCrossChannel s =
     (if \<not> dr_force d \<and> \<not> isCrossChannel then set_drain q (d\<lparr>dr_phase := Collecting\<rparr>) s
      else drainNextQueueItem q (d\<lparr>dr_force := dr_force d \<or> isCrossChannel\<rparr>) id RunningItem s)"

text \<open>After the debounce: one of the three ways to go on.\<close>

definition drain_body :: "(string \<Rightarrow> bool) \<Rightarrow> int \<Rightarrow> nat \<Rightarrow> drain \<Rightarrow> followup_state \<Rightarrow> followup_state" where
  "drain_body known now q d s =
     (let queue = fq_at s q in
      if fq_mode queue = ModeCollect then
        drainCollectQueueStep q d (hasCrossChannelItems (qu_items queue) (resolveCrossChannelKey known)) s
      else case summary_prompt queue of
        Some summaryPrompt \<Rightarrow> (case fq_lastRun queue of
            None \<Rightarrow> finish_drain q d s
          | Some run \<Rightarrow> drainNextQueueItem q d
              (\<lambda>item. \<lparr>fo_prompt = summaryPrompt, fo_messageId = None, fo_summaryLine = None, fo_enqueuedAt = now,
                       fo_channel = fo_channel item, fo_to = fo_to item, fo_accountId = fo_accountId item,
                       fo_threadId = fo_threadId item, fo_run = run\<rparr>) RunningSummary s)
      | None \<Rightarrow> drainNextQueueItem q d id RunningItem s)"

definition collected_run :: "int \<Rightarrow> followup_run list \<Rightarrow> string option \<Rightarrow> followup_target \<Rightarrow> followup_run" where
  "collected_run now items summary run =
     (let routing = resolveOriginRoutingMetadata items in
      \<lparr>fo_prompt = buildCollectPrompt collect_title items summary (\<lambda>item. render_queued (fo_prompt item)),
       fo_messageId = None, fo_summaryLine = None, fo_enqueuedAt = now,
       fo_channel = og_channel routing, fo_to = og_to routing, fo_accountId = og_accountId routing,
       fo_threadId = og_threadId routing, fo_run = run\<rparr>)"

definition collect_items :: "int \<Rightarrow> nat \<Rightarrow> drain \<Rightarrow> followup_state \<Rightarrow> followup_state" where
  "collect_items now q d s =
     (let queue = fq_at s q; items = qu_items queue; summary = summary_prompt queue;
          run = (if items = [] then fq_lastRun queue else Some (fo_run (last items)))
      in case run of
           None \<Rightarrow> finish_drain q d s
         | Some r \<Rightarrow> start_run q d (collected_run now items summary r) (RunningCollected items (summary \<noteq> None)) s)"

definition shift_items :: "nat \<Rightarrow> nat \<Rightarrow> followup_state \<Rightarrow> followup_state" where
  "shift_items q n s = set_queue q ((fq_at s q)\<lparr>qu_items := drop n (qu_items (fq_at s q))\<rparr>) s"

definition clear_summary :: "nat \<Rightarrow> bool \<Rightarrow> followup_state \<Rightarrow> followup_state" where
  "clear_summary q b s = (if b then set_queue q (clearQueueSummaryState (fq_at s q)) s else s)"

text \<open>The run has succeeded.\<close>

definition run_succeeded :: "nat \<Rightarrow> drain \<Rightarrow> followup_state \<Rightarrow> followup_state" where
  "run_succeeded q d s = (case dr_phase d of
       RunningItem item \<Rightarrow>
         tell (Completed q [item]) (set_drain q (d\<lparr>dr_phase := Returning False\<rparr>) (shift_items q 1 s))
     | RunningSummary item \<Rightarrow>
         tell (Completed q []) (set_drain q (d\<lparr>dr_phase := Returning True\<rparr>) (shift_items q 1 s))
     | RunningCollected items summary \<Rightarrow>
         next_iteration q d (clear_summary q summary (tell (Completed q items) (shift_items q (length items) s)))
     | _ \<Rightarrow> s)"

definition run_failed :: "int \<Rightarrow> nat \<Rightarrow> drain \<Rightarrow> followup_state \<Rightarrow> followup_state" where
  "run_failed now q d s =
     finish_drain q d (tell (Failed q) (set_queue q ((fq_at s q)\<lparr>fq_lastEnqueuedAt := now\<rparr>) s))"

section \<open>Clearing sessions\<close>

text \<open>\<open>clearSessionQueues\<close> also clears the session lanes of the command queue.\<close>

record clear_result =
  cl_followupCleared :: nat
  cl_laneCleared :: nat
  cl_keys :: "string list"

definition clear_session_key :: "string option \<Rightarrow> clear_result \<times> followup_state \<times> cq \<Rightarrow> clear_result \<times> followup_state \<times> cq" where
  "clear_session_key key = (\<lambda>(r, s, c). case normalizeOptionalString key of
       None \<Rightarrow> (r, s, c)
     | Some cleaned \<Rightarrow>
         if cleaned \<in> set (cl_keys r) then (r, s, c)
         else let (n, s1) = clearFollowupQueue cleaned s;
                  s2 = clearFollowupDrainCallback cleaned s1;
                  (m, c1) = clearCommandLane (resolveSessionLane cleaned) c
              in (\<lparr>cl_followupCleared = cl_followupCleared r + n, cl_laneCleared = cl_laneCleared r + m,
                   cl_keys = cl_keys r @ [cleaned]\<rparr>, s2, c1))"

definition clearSessionQueues :: "string option list \<Rightarrow> followup_state \<Rightarrow> cq \<Rightarrow> clear_result \<times> followup_state \<times> cq" where
  "clearSessionQueues keys s c =
     fold clear_session_key keys (\<lparr>cl_followupCleared = 0, cl_laneCleared = 0, cl_keys = []\<rparr>, s, c)"

section \<open>The machine\<close>

datatype followup_event =
    Enqueue int string followup_run queue_settings dedupe_mode "nat option" bool
  | Schedule string nat
  | DebounceCheck nat int
  | DrainBody nat int
  | CollectItems nat int
  | RunSucceeded nat
  | RunFailed nat int
  | Return nat
  | BreakLoop nat
  | ClearSessions "string option list"
  | Refresh refresh_params

definition drain_at :: "followup_state \<Rightarrow> nat \<Rightarrow> drain option" where
  "drain_at s q = jm_get (fs_drains s) q"

fun running :: "drain_phase \<Rightarrow> bool" where
  "running (RunningItem _) = True"
| "running (RunningSummary _) = True"
| "running (RunningCollected _ _) = True"
| "running _ = False"

fun followup_enabled :: "followup_state \<Rightarrow> followup_event \<Rightarrow> bool" where
  "followup_enabled s (DebounceCheck q now) = (case drain_at s q of None \<Rightarrow> False
     | Some d \<Rightarrow> (case dr_phase d of Debouncing ms \<Rightarrow> of_int (now - fq_lastEnqueuedAt (fq_at s q)) \<ge> ms | _ \<Rightarrow> False))"
| "followup_enabled s (DrainBody q now) = (case drain_at s q of None \<Rightarrow> False | Some d \<Rightarrow> dr_phase d = Debounced)"
| "followup_enabled s (CollectItems q now) = (case drain_at s q of None \<Rightarrow> False | Some d \<Rightarrow> dr_phase d = Collecting)"
| "followup_enabled s (RunSucceeded q) = (case drain_at s q of None \<Rightarrow> False | Some d \<Rightarrow> running (dr_phase d))"
| "followup_enabled s (RunFailed q now) = (case drain_at s q of None \<Rightarrow> False | Some d \<Rightarrow> running (dr_phase d))"
| "followup_enabled s (Return q) = (case drain_at s q of None \<Rightarrow> False
     | Some d \<Rightarrow> dr_phase d = Returning True \<or> dr_phase d = Returning False)"
| "followup_enabled s (BreakLoop q) = (case drain_at s q of None \<Rightarrow> False | Some d \<Rightarrow> dr_phase d = Breaking)"
| "followup_enabled s e = True"

definition with_drain :: "followup_state \<Rightarrow> nat \<Rightarrow> (drain \<Rightarrow> followup_state) \<Rightarrow> followup_state" where
  "with_drain s q f = (case drain_at s q of None \<Rightarrow> s | Some d \<Rightarrow> f d)"

fun followup_step :: "(string \<Rightarrow> bool) \<Rightarrow> followup_state \<Rightarrow> followup_event \<Rightarrow> followup_state" where
  "followup_step known s (Enqueue now key run settings mode cb restart) =
     snd (enqueueFollowupRun now key run settings mode cb restart s)"
| "followup_step known s (Schedule key cb) = scheduleFollowupDrain key cb s"
| "followup_step known s (DebounceCheck q now) = with_drain s q (\<lambda>d. set_drain q (d\<lparr>dr_phase := Debounced\<rparr>) s)"
| "followup_step known s (DrainBody q now) = with_drain s q (\<lambda>d. drain_body known now q d s)"
| "followup_step known s (CollectItems q now) = with_drain s q (\<lambda>d. collect_items now q d s)"
| "followup_step known s (RunSucceeded q) = with_drain s q (\<lambda>d. run_succeeded q d s)"
| "followup_step known s (RunFailed q now) = with_drain s q (\<lambda>d. run_failed now q d s)"
| "followup_step known s (Return q) =
     with_drain s q (\<lambda>d. next_iteration q d (clear_summary q (dr_phase d = Returning True) s))"
| "followup_step known s (BreakLoop q) = with_drain s q (\<lambda>d. finish_drain q d s)"
| "followup_step known s (ClearSessions keys) = fst (snd (clearSessionQueues keys s cq_init))"
| "followup_step known s (Refresh p) = refreshQueuedFollowupSession p s"

abbreviation followup_reach :: "(string \<Rightarrow> bool) \<Rightarrow> followup_state \<Rightarrow> bool" where
  "followup_reach known \<equiv> reach followup_init followup_enabled (followup_step known)"

end
