(* ===== verification/FollowupState.thy ===== *)
theory FollowupState
  imports FollowupQueue
begin

text \<open>
  The shape of the states of the follow-up queue: every queue that is marked as draining has one drain, and the
  registry names queues that exist. How each operation of \<open>FollowupQueue\<close> is composed of simple changes of the state,
  with the cases it distinguishes.
\<close>

section \<open>Views\<close>

lemma fq_at_set_queue: "q < length (fs_queues s) \<Longrightarrow> fq_at (set_queue q x s) q' = (if q' = q then x else fq_at s q')"
  by (simp add: fq_at_def set_queue_def)

lemma set_queue_same [simp]: "set_queue q (fq_at s q) s = s"
  by (simp add: set_queue_def fq_at_def)

lemma fq_at_more [simp]:
  "fq_at (set_drain p d s) q = fq_at s q" "fq_at (tell e s) q = fq_at s q"
  "fq_at (rememberFollowupDrainCallback key cb s) q = fq_at s q" "fq_at (forget_key key s) q = fq_at s q"
  "fq_at (clearFollowupDrainCallback key s) q = fq_at s q"
  "fq_at (s\<lparr>fs_drains := ds\<rparr>) q = fq_at s q" "fq_at (s\<lparr>fs_recent := c\<rparr>) q = fq_at s q"
  "fq_at (s\<lparr>fs_registry := g\<rparr>) q = fq_at s q" "fq_at (s\<lparr>fs_callbacks := g\<rparr>) q = fq_at s q"
  by (simp_all add: fq_at_def set_drain_def tell_def rememberFollowupDrainCallback_def forget_key_def
      clearFollowupDrainCallback_def)

lemma drain_at_more [simp]:
  "drain_at (set_queue p x s) q = drain_at s q" "drain_at (tell e s) q = drain_at s q"
  "drain_at (set_drain p d s) q = (if q = p then Some d else drain_at s q)"
  "drain_at (rememberFollowupDrainCallback key cb s) q = drain_at s q" "drain_at (forget_key key s) q = drain_at s q"
  "drain_at (clearFollowupDrainCallback key s) q = drain_at s q"
  "drain_at (s\<lparr>fs_recent := c\<rparr>) q = drain_at s q" "drain_at (s\<lparr>fs_registry := g\<rparr>) q = drain_at s q"
  "drain_at (s\<lparr>fs_drains := jm_delete p (fs_drains s)\<rparr>) q = (if q = p then None else drain_at s q)"
  by (simp_all add: drain_at_def set_queue_def set_drain_def tell_def rememberFollowupDrainCallback_def forget_key_def
      clearFollowupDrainCallback_def)

lemma fs_more [simp]:
  "length (fs_queues (set_queue p x s)) = length (fs_queues s)" "fs_queues (tell e s) = fs_queues s"
  "fs_queues (set_drain p d s) = fs_queues s" "fs_queues (rememberFollowupDrainCallback key cb s) = fs_queues s"
  "fs_queues (forget_key key s) = fs_queues s" "fs_queues (clearFollowupDrainCallback key s) = fs_queues s"
  "fs_registry (set_queue p x s) = fs_registry s" "fs_registry (tell e s) = fs_registry s"
  "fs_registry (set_drain p d s) = fs_registry s" "fs_registry (rememberFollowupDrainCallback key cb s) = fs_registry s"
  "fs_registry (forget_key key s) = jm_delete key (fs_registry s)"
  "fs_registry (clearFollowupDrainCallback key s) = fs_registry s"
  "fs_log (set_queue p x s) = fs_log s" "fs_log (tell e s) = fs_log s @ [e]"
  "fs_log (set_drain p d s) = fs_log s" "fs_log (rememberFollowupDrainCallback key cb s) = fs_log s"
  "fs_log (forget_key key s) = fs_log s" "fs_log (clearFollowupDrainCallback key s) = fs_log s"
  "fs_callbacks (set_queue p x s) = fs_callbacks s" "fs_callbacks (tell e s) = fs_callbacks s"
  "fs_callbacks (set_drain p d s) = fs_callbacks s"
  "fs_callbacks (rememberFollowupDrainCallback key cb s) = jm_set key cb (fs_callbacks s)"
  "fs_callbacks (forget_key key s) = jm_delete key (fs_callbacks s)"
  "fs_recent (set_queue p x s) = fs_recent s" "fs_recent (tell e s) = fs_recent s"
  "fs_recent (set_drain p d s) = fs_recent s" "fs_recent (rememberFollowupDrainCallback key cb s) = fs_recent s"
  "fs_recent (forget_key key s) = fs_recent s" "fs_recent (clearFollowupDrainCallback key s) = fs_recent s"
  by (simp_all add: set_queue_def set_drain_def tell_def rememberFollowupDrainCallback_def forget_key_def
      clearFollowupDrainCallback_def)

section \<open>Well-formed states\<close>

definition followup_wf :: "followup_state \<Rightarrow> bool" where
  "followup_wf s \<longleftrightarrow>
     (\<forall>k q. jm_get (fs_registry s) k = Some q \<longrightarrow> q < length (fs_queues s)) \<and>
     (\<forall>q. drain_at s q \<noteq> None \<longrightarrow> q < length (fs_queues s)) \<and>
     (\<forall>q<length (fs_queues s). fq_draining (fq_at s q) \<longleftrightarrow> drain_at s q \<noteq> None)"

lemma wf_registry: "followup_wf s \<Longrightarrow> jm_get (fs_registry s) k = Some q \<Longrightarrow> q < length (fs_queues s)"
  by (simp add: followup_wf_def)

lemma wf_drain: "followup_wf s \<Longrightarrow> drain_at s q = Some d \<Longrightarrow> q < length (fs_queues s) \<and> fq_draining (fq_at s q)"
  unfolding followup_wf_def by (metis option.distinct(1))

lemma wf_idle: "followup_wf s \<Longrightarrow> q < length (fs_queues s) \<Longrightarrow> \<not> fq_draining (fq_at s q) \<Longrightarrow> drain_at s q = None"
  unfolding followup_wf_def by blast

lemma undo_draining: "\<not> fq_draining queue \<Longrightarrow> queue\<lparr>fq_draining := False\<rparr> = queue"
  by simp

lemma schedule_cases:
  assumes "followup_wf s"
  obtains (none) "scheduleFollowupDrain key cb s = s"
      "\<And>q. jm_get (fs_registry s) key = Some q \<Longrightarrow> fq_draining (fq_at s q)"
  | (begun) q where "jm_get (fs_registry s) key = Some q" "\<not> fq_draining (fq_at s q)" "has_work (fq_at s q)"
      "scheduleFollowupDrain key cb s =
         (let e = js_nullish (jm_get (fs_callbacks s) key) cb; queue = (fq_at s q)\<lparr>fq_draining := True\<rparr> in
          set_drain q \<lparr>dr_key = key, dr_callback = e, dr_force = False, dr_phase = debounce_phase queue\<rparr>
            (rememberFollowupDrainCallback key e (set_queue q queue s)))"
  | (idle) q where "jm_get (fs_registry s) key = Some q" "\<not> fq_draining (fq_at s q)" "\<not> has_work (fq_at s q)"
      "scheduleFollowupDrain key cb s = forget_key key s"
proof (cases "jm_get (fs_registry s) key")
  case None
  then show ?thesis by (intro none) (simp_all add: scheduleFollowupDrain_def beginQueueDrain_def)
next
  case (Some q)
  then have q: "q < length (fs_queues s)" using assms wf_registry by blast
  show ?thesis
  proof (cases "fq_draining (fq_at s q)")
    case True
    with Some show ?thesis by (intro none) (simp_all add: scheduleFollowupDrain_def beginQueueDrain_def)
  next
    case False
    let ?queue = "(fq_at s q)\<lparr>fq_draining := True\<rparr>"
    have twice: "set_queue q x (rememberFollowupDrainCallback key e (set_queue q y s)) =
      rememberFollowupDrainCallback key e (set_queue q x s)" for x y e
      by (simp add: set_queue_def rememberFollowupDrainCallback_def)
    have gone: "forget_key key (rememberFollowupDrainCallback key e t) = forget_key key t" for e t
      by (simp add: forget_key_def rememberFollowupDrainCallback_def clearFollowupDrainCallback_def delete_update_same)
    have hw: "has_work ?queue = has_work (fq_at s q)" by (simp add: has_work_def)
    show ?thesis
    proof (cases "has_work (fq_at s q)")
      case True
      with Some False q hw show ?thesis
        by (intro begun [of q]) (simp_all add: scheduleFollowupDrain_def beginQueueDrain_def Let_def fq_at_set_queue)
    next
      case no: False
      with Some False q hw show ?thesis
        by (intro idle [of q]) (simp_all add: scheduleFollowupDrain_def beginQueueDrain_def Let_def fq_at_set_queue twice gone undo_draining)
    qed
  qed
qed

section \<open>The operations keep states well-formed\<close>

definition stop_drain :: "nat \<Rightarrow> followup_state \<Rightarrow> followup_state" where
  "stop_drain q s = set_queue q ((fq_at s q)\<lparr>fq_draining := False\<rparr>) (s\<lparr>fs_drains := jm_delete q (fs_drains s)\<rparr>)"

lemma stop_drain_simps [simp]:
  "fs_registry (stop_drain q s) = fs_registry s" "fs_callbacks (stop_drain q s) = fs_callbacks s"
  "fs_log (stop_drain q s) = fs_log s" "length (fs_queues (stop_drain q s)) = length (fs_queues s)"
  "fs_recent (stop_drain q s) = fs_recent s"
  "drain_at (stop_drain q s) p = (if p = q then None else drain_at s p)"
  "q < length (fs_queues s) \<Longrightarrow> fq_at (stop_drain q s) p = (if p = q then (fq_at s q)\<lparr>fq_draining := False\<rparr> else fq_at s p)"
  by (simp_all add: stop_drain_def fq_at_set_queue) 

lemma has_work_draining [simp]: "has_work (queue\<lparr>fq_draining := b\<rparr>) = has_work queue"
  by (simp add: has_work_def)

lemma finish_drain_eq:
  "q < length (fs_queues s) \<Longrightarrow> finish_drain q d s =
    (if has_work (fq_at s q) then scheduleFollowupDrain (dr_key d) (dr_callback d) (stop_drain q s)
     else forget_key (dr_key d) (stop_drain q s))"
  by (simp add: finish_drain_def stop_drain_def Let_def fq_at_set_queue)

lemma wf_init: "followup_wf followup_init"
  by (simp add: followup_wf_def followup_init_def drain_at_def)

lemma wf_set_queue: "followup_wf s \<Longrightarrow> q < length (fs_queues s) \<Longrightarrow> fq_draining x = fq_draining (fq_at s q) \<Longrightarrow>
    followup_wf (set_queue q x s)"
  by (simp add: followup_wf_def fq_at_set_queue del: not_None_eq)

lemma wf_set_drain: "followup_wf s \<Longrightarrow> drain_at s q = Some d0 \<Longrightarrow> followup_wf (set_drain q d s)"
  using wf_drain [of s q d0] by (simp add: followup_wf_def del: not_None_eq)

lemma wf_tell: "followup_wf s \<Longrightarrow> followup_wf (tell e s)"
  by (simp add: followup_wf_def)

lemma wf_forget: "followup_wf s \<Longrightarrow> followup_wf (forget_key key s)"
  by (simp add: followup_wf_def)

lemma wf_remember: "followup_wf s \<Longrightarrow> followup_wf (rememberFollowupDrainCallback key cb s)"
  by (simp add: followup_wf_def)

lemma wf_forget_callback: "followup_wf s \<Longrightarrow> followup_wf (clearFollowupDrainCallback key s)"
  by (simp add: followup_wf_def)

lemma wf_unregister: "followup_wf s \<Longrightarrow> followup_wf (s\<lparr>fs_registry := jm_delete key (fs_registry s)\<rparr>)"
  by (simp add: followup_wf_def)

lemma wf_recent: "followup_wf s \<Longrightarrow> followup_wf (s\<lparr>fs_recent := c\<rparr>)"
  by (simp add: followup_wf_def)

lemma wf_stop: "followup_wf s \<Longrightarrow> q < length (fs_queues s) \<Longrightarrow> followup_wf (stop_drain q s)"
  by (simp add: followup_wf_def del: not_None_eq)

lemmas wf_intros = wf_set_queue wf_set_drain wf_tell wf_forget wf_remember wf_forget_callback wf_unregister wf_recent wf_stop

lemma wf_schedule: "followup_wf s \<Longrightarrow> followup_wf (scheduleFollowupDrain key cb s)"
proof -
  assume wf: "followup_wf s"
  then show ?thesis
  proof (cases rule: schedule_cases [of s key cb])
    case (begun q)
    then have "q < length (fs_queues s)" using wf wf_registry by blast
    then show ?thesis using wf begun by (simp add: followup_wf_def Let_def fq_at_set_queue del: not_None_eq)
  qed (use wf in \<open>simp_all add: wf_forget\<close>)
qed

lemma wf_kick: "followup_wf s \<Longrightarrow> followup_wf (kickFollowupDrainIfIdle key s)"
  by (auto simp: kickFollowupDrainIfIdle_def wf_schedule split: option.splits)

lemma wf_finish: "followup_wf s \<Longrightarrow> drain_at s q = Some d' \<Longrightarrow> followup_wf (finish_drain q d s)"
  using wf_drain [of s q d'] by (auto simp: finish_drain_eq intro: wf_schedule wf_forget wf_stop)

lemma wf_next: "followup_wf s \<Longrightarrow> drain_at s q = Some d' \<Longrightarrow> followup_wf (next_iteration q d s)"
  by (auto simp: next_iteration_def intro: wf_finish wf_set_drain)

lemma wf_drain_next: "followup_wf s \<Longrightarrow> drain_at s q = Some d' \<Longrightarrow> followup_wf (drainNextQueueItem q d f g s)"
  by (auto simp: drainNextQueueItem_def start_run_def intro!: wf_tell wf_set_drain split: list.splits)

lemma wf_body: "followup_wf s \<Longrightarrow> drain_at s q = Some d' \<Longrightarrow> followup_wf (drain_body known now q d s)"
  by (auto simp: drain_body_def drainCollectQueueStep_def Let_def intro: wf_drain_next wf_set_drain wf_finish split: option.splits)

lemma wf_collect: "followup_wf s \<Longrightarrow> drain_at s q = Some d' \<Longrightarrow> followup_wf (collect_items now q d s)"
  by (auto simp: collect_items_def start_run_def Let_def intro!: wf_tell wf_set_drain wf_finish split: option.splits)

lemma wf_shift: "followup_wf s \<Longrightarrow> q < length (fs_queues s) \<Longrightarrow> followup_wf (shift_items q n s)"
  by (simp add: shift_items_def wf_set_queue)

lemma clear_summary_draining [simp]: "fq_draining (clearQueueSummaryState queue) = fq_draining (queue :: followup_queue)"
  by (simp add: clearQueueSummaryState_def)

lemma wf_clear_summary: "followup_wf s \<Longrightarrow> q < length (fs_queues s) \<Longrightarrow> followup_wf (clear_summary q b s)"
  by (simp add: clear_summary_def wf_set_queue)

lemma drain_at_shift [simp]: "drain_at (shift_items q n s) p = drain_at s p" "drain_at (clear_summary q b s) p = drain_at s p"
  by (simp_all add: shift_items_def clear_summary_def)

lemma length_shift [simp]: "length (fs_queues (shift_items q n s)) = length (fs_queues s)"
  "length (fs_queues (clear_summary q b s)) = length (fs_queues s)"
  by (simp_all add: shift_items_def clear_summary_def)

lemma wf_succeeded: "followup_wf s \<Longrightarrow> drain_at s q = Some d \<Longrightarrow> followup_wf (run_succeeded q d s)"
  using wf_drain [of s q d]
  by (auto simp: run_succeeded_def intro!: wf_tell wf_set_drain wf_shift wf_next wf_clear_summary split: drain_phase.splits)

lemma wf_failed: "followup_wf s \<Longrightarrow> drain_at s q = Some d \<Longrightarrow> followup_wf (run_failed now q d s)"
  using wf_drain [of s q d] by (auto simp: run_failed_def intro!: wf_finish [of _ _ d] wf_tell wf_set_queue)

lemma runtime_draining [simp]: "fq_draining (applyQueueRuntimeSettings settings queue) = fq_draining queue"
  by (simp add: applyQueueRuntimeSettings_def)

text \<open>A new queue under a key that has none.\<close>

definition add_queue :: "string \<Rightarrow> followup_queue \<Rightarrow> followup_state \<Rightarrow> followup_state" where
  "add_queue key queue s = s\<lparr>fs_queues := fs_queues s @ [queue], fs_registry := jm_set key (length (fs_queues s)) (fs_registry s)\<rparr>"

lemma add_queue_simps [simp]:
  "fs_log (add_queue key queue s) = fs_log s" "fs_callbacks (add_queue key queue s) = fs_callbacks s"
  "fs_recent (add_queue key queue s) = fs_recent s" "drain_at (add_queue key queue s) q = drain_at s q"
  "length (fs_queues (add_queue key queue s)) = Suc (length (fs_queues s))"
  "fs_registry (add_queue key queue s) = jm_set key (length (fs_queues s)) (fs_registry s)"
  "q < length (fs_queues s) \<Longrightarrow> fq_at (add_queue key queue s) q = fq_at s q"
  "fq_at (add_queue key queue s) (length (fs_queues s)) = queue"
  by (simp_all add: add_queue_def drain_at_def fq_at_def nth_append)

lemma get_queue_cases:
  assumes "followup_wf s"
  obtains (old) q where "jm_get (fs_registry s) key = Some q" "q < length (fs_queues s)"
      "getFollowupQueue key settings s = (q, set_queue q (applyQueueRuntimeSettings settings (fq_at s q)) s)"
  | (new) "jm_get (fs_registry s) key = None"
      "getFollowupQueue key settings s =
        (length (fs_queues s), add_queue key (applyQueueRuntimeSettings settings (created_queue settings)) s)"
proof (cases "jm_get (fs_registry s) key")
  case None
  then show ?thesis by (intro new) (simp_all add: getFollowupQueue_def add_queue_def Let_def)
next
  case (Some q)
  with wf_registry [OF assms this] show ?thesis by (intro old [of q]) (simp_all add: getFollowupQueue_def)
qed

lemma wf_add_queue: 
  assumes "followup_wf s" "\<not> fq_draining queue"
  shows "followup_wf (add_queue key queue s)"
proof -
  have none: "drain_at s (length (fs_queues s)) = None"
    using wf_drain [OF assms(1)] by (cases "drain_at s (length (fs_queues s))") auto
  show ?thesis
    unfolding followup_wf_def
  proof (intro conjI allI impI)
    fix k q
    assume "jm_get (fs_registry (add_queue key queue s)) k = Some q"
    then show "q < length (fs_queues (add_queue key queue s))"
      using wf_registry [OF assms(1), of k q] by (auto split: if_splits)
  next
    fix q
    assume "drain_at (add_queue key queue s) q \<noteq> None"
    then show "q < length (fs_queues (add_queue key queue s))"
      using wf_drain [OF assms(1), of q] by auto
  next
    fix q
    assume "q < length (fs_queues (add_queue key queue s))"
    then consider "q < length (fs_queues s)" | "q = length (fs_queues s)" by force
    then show "fq_draining (fq_at (add_queue key queue s) q) = (drain_at (add_queue key queue s) q \<noteq> None)"
      by cases (use assms none in \<open>simp_all add: followup_wf_def del: not_None_eq\<close>)
  qed
qed

lemma created_empty [simp]:
  "qu_items (applyQueueRuntimeSettings settings queue) = qu_items queue"
  "su_droppedCount (applyQueueRuntimeSettings settings queue) = su_droppedCount queue"
  "su_summaryLines (applyQueueRuntimeSettings settings queue) = su_summaryLines queue"
  "qu_items (created_queue settings) = []" "su_droppedCount (created_queue settings) = 0"
  "\<not> fq_draining (created_queue settings)" "su_summaryLines (created_queue settings) = []"
  by (simp_all add: applyQueueRuntimeSettings_def created_queue_def)

section \<open>The parts of an enqueue\<close>

text \<open>The queue after the overflow policy, before the message is added.\<close>

definition makes_room :: "followup_queue \<Rightarrow> followup_queue \<Rightarrow> bool" where
  "makes_room before queue \<longleftrightarrow> fq_draining queue = fq_draining before \<and>
     (\<exists>n\<le>length (qu_items before). qu_items queue = drop n (qu_items before) \<and>
       (n = 0 \<longrightarrow> su_droppedCount queue = su_droppedCount before)) \<and>
     (qu_cap before > 0 \<longrightarrow> int (length (qu_items queue)) < qu_cap before) \<and> qu_cap queue = qu_cap before"

lemma drop_policy_room:
  fixes queue :: followup_queue
  assumes "fst (applyQueueDropPolicy f None queue)"
  shows "makes_room queue (snd (applyQueueDropPolicy f None queue))"
proof -
  have same: "fq_draining (snd (applyQueueDropPolicy f None queue)) = fq_draining queue"
    by (simp add: applyQueueDropPolicy_def Let_def)
  show ?thesis
  proof (rule drop_policy_cases [of queue f None])
    assume "qu_cap queue \<le> 0 \<or> int (length (qu_items queue)) < qu_cap queue" "applyQueueDropPolicy f None queue = (True, queue)"
    then show ?thesis by (auto simp: makes_room_def intro!: exI [of _ 0])
  next
    assume "applyQueueDropPolicy f None queue = (False, queue)"
    then show ?thesis using assms by simp
  next
    fix n
    assume n: "0 < n" "n \<le> length (qu_items queue)" "int (length (qu_items queue) - n) = qu_cap queue - 1"
      "qu_items (snd (applyQueueDropPolicy f None queue)) = drop n (qu_items queue)"
    then show ?thesis by (auto simp: makes_room_def same intro!: exI [of _ n])
  qed
qed

lemma enqueue_cases:
  assumes "followup_wf s"
  obtains (refused) q s1 c queue where "getFollowupQueue key settings s = (q, s1)"
      "qu_items queue = qu_items (fq_at s1 q)" "su_droppedCount queue = su_droppedCount (fq_at s1 q)"
      "fq_draining queue = fq_draining (fq_at s1 q)"
      "enqueueFollowupRun now key run settings mode cb restart s = (False, set_queue q queue (s1\<lparr>fs_recent := c\<rparr>))"
  | (accepted) q s1 c queue c' b where "getFollowupQueue key settings s = (q, s1)"
      "makes_room (fq_at s1 q) queue"
      "enqueueFollowupRun now key run settings mode cb restart s =
        (True, kick_if b key (remember_given key cb ((add_item q run queue (s1\<lparr>fs_recent := c\<rparr>))\<lparr>fs_recent := c'\<rparr>)))"
proof -
  obtain q s1 where get: "getFollowupQueue key settings s = (q, s1)" by (cases "getFollowupQueue key settings s")
  have q: "q < length (fs_queues s1)"
    using get by (cases rule: get_queue_cases [OF assms, of key settings]) auto
  let ?k = "if mode \<noteq> DedupeNone then buildRecentMessageIdKey run key else None"
  obtain seen c where peek: "dd_peek recent_options (fs_recent s1) ?k now = (seen, c)" by fastforce
  let ?s2 = "s1\<lparr>fs_recent := c\<rparr>"
  let ?skip = "shouldSkipQueueItem run (qu_items (fq_at s1 q))
    (if mode = DedupeNone then None else Some (\<lambda>item items. isRunAlreadyQueued item items (mode = DedupePrompt)))"
  let ?queue = "(fq_at s1 q)\<lparr>fq_lastEnqueuedAt := now, fq_lastRun := Some (fo_run run)\<rparr>"
  let ?summarize = "\<lambda>item. js_nullish (normalizeOptionalString (fo_summaryLine item)) (js_trim (fo_prompt item))"
  obtain ok queue where pol: "applyQueueDropPolicy ?summarize None ?queue = (ok, queue)" by fastforce
  have same: "set_queue q (fq_at s1 q) ?s2 = ?s2" using set_queue_same [of q ?s2] by simp
  show ?thesis
  proof (cases "seen \<or> ?skip")
    case True
    then show ?thesis
      by (intro refused [of q s1 "fq_at s1 q" c]) (auto simp: enqueueFollowupRun_def get peek Let_def same)
  next
    case False
    show ?thesis
    proof (cases ok)
      case no: False
      then have "queue = ?queue" using pol by (auto simp: applyQueueDropPolicy_def Let_def split: if_splits)
      with False no show ?thesis
        by (intro refused [of q s1 ?queue c]) (simp_all add: enqueueFollowupRun_def get peek pol Let_def)
    next
      case True
      have room: "makes_room (fq_at s1 q) queue"
        using drop_policy_room [of ?summarize ?queue] pol True by (simp add: makes_room_def)
      then obtain n where n: "qu_items queue = drop n (qu_items (fq_at s1 q))" by (auto simp: makes_room_def)
      let ?added = "add_item q run queue ?s2"
      define s7 where "s7 = remember_given key cb (?added\<lparr>fs_recent := snd (dd_check recent_options (fs_recent ?added) ?k now)\<rparr>)"
      have "enqueueFollowupRun now key run settings mode cb restart s = (True, kick_if (restart \<and> \<not> fq_draining (fq_at s7 q)) key s7)"
        using False True by (simp add: enqueueFollowupRun_def get peek pol Let_def s7_def)
      then show ?thesis unfolding s7_def by (rule accepted [OF get room])
    qed
  qed
qed

lemma add_item_simps [simp]:
  "fs_registry (add_item q run queue s) = fs_registry s" "fs_callbacks (add_item q run queue s) = fs_callbacks s"
  "drain_at (add_item q run queue s) p = drain_at s p" "length (fs_queues (add_item q run queue s)) = length (fs_queues s)"
  "fs_recent (add_item q run queue s) = fs_recent s"
  "q < length (fs_queues s) \<Longrightarrow> fq_at (add_item q run queue s) p =
     (if p = q then queue\<lparr>qu_items := qu_items queue @ [run]\<rparr> else fq_at s p)"
  "fs_log (add_item q run queue s) = fs_log s @
     (if take (length (qu_items (fq_at s q)) - length (qu_items queue)) (qu_items (fq_at s q)) = [] then []
      else [CapDropped q (take (length (qu_items (fq_at s q)) - length (qu_items queue)) (qu_items (fq_at s q)))]) @ [Queued q run]"
  by (simp_all add: add_item_def Let_def fq_at_set_queue)

lemma wf_add_item: "followup_wf s \<Longrightarrow> q < length (fs_queues s) \<Longrightarrow> fq_draining queue = fq_draining (fq_at s q) \<Longrightarrow>
    followup_wf (add_item q run queue s)"
  by (auto simp: add_item_def Let_def intro!: wf_tell wf_set_queue)

lemma wf_remember_given: "followup_wf s \<Longrightarrow> followup_wf (remember_given key cb s)"
  by (simp add: remember_given_def wf_remember split: option.splits)

lemma wf_kick_if: "followup_wf s \<Longrightarrow> followup_wf (kick_if b key s)"
  by (simp add: kick_if_def wf_kick)

lemma wf_get_queue:
  assumes "followup_wf s" "getFollowupQueue key settings s = (q, s1)"
  shows "followup_wf s1 \<and> q < length (fs_queues s1) \<and> jm_get (fs_registry s1) key = Some q"
  using assms by (cases rule: get_queue_cases [OF assms(1), of key settings]) (auto intro: wf_set_queue wf_add_queue)

lemma wf_enqueue: "followup_wf s \<Longrightarrow> followup_wf (snd (enqueueFollowupRun now key run settings mode cb restart s))"
proof -
  assume wf: "followup_wf s"
  show ?thesis
  proof (cases rule: enqueue_cases [OF wf, of key settings now run mode cb restart])
    case (1 q s1 c queue)
    then show ?thesis using wf_get_queue [OF wf 1(1)] by (simp add: wf_set_queue wf_recent)
  next
    case (2 q s1 c queue c' b)
    then show ?thesis using wf_get_queue [OF wf 2(1)]
      by (simp add: makes_room_def wf_kick_if wf_remember_given wf_recent wf_add_item)
  qed
qed

text \<open>Clearing the queue of a key, as one step.\<close>

definition empty_queue :: "followup_queue \<Rightarrow> followup_queue" where
  "empty_queue queue = queue\<lparr>qu_items := [], su_droppedCount := 0, su_summaryLines := [], fq_lastRun := None, fq_lastEnqueuedAt := 0\<rparr>"

lemma clear_queue_cases:
  obtains (none) "clearFollowupQueue key s = (0, s)"
  | (found) q where "jm_get (fs_registry s) (js_trim key) = Some q"
      "snd (clearFollowupQueue key s) = tell (Cleared q)
         ((set_queue q (empty_queue (fq_at s q)) s)\<lparr>fs_registry := jm_delete (js_trim key) (fs_registry s)\<rparr>)"
proof (cases "getExistingFollowupQueue (js_trim key) s")
  case None
  then show ?thesis by (intro none) (simp add: clearFollowupQueue_def Let_def)
next
  case (Some q)
  then have "jm_get (fs_registry s) (js_trim key) = Some q"
    by (simp add: getExistingFollowupQueue_def Let_def split: if_splits)
  with Some show ?thesis by (intro found [of q]) (simp_all add: clearFollowupQueue_def Let_def empty_queue_def)
qed

lemma wf_clear_queue: "followup_wf s \<Longrightarrow> followup_wf (snd (clearFollowupQueue key s))"
  using wf_registry [of s "js_trim key"]
  by (cases rule: clear_queue_cases [of key s])
    (auto simp: empty_queue_def intro!: wf_tell wf_unregister [of "set_queue _ _ _", simplified] wf_set_queue)

text \<open>The keys are cleared one after the other; the command queue plays no part in the state of the follow-up queues.\<close>

lemma clear_sessions_induct:
  assumes "P s" "\<And>s key. P s \<Longrightarrow> P (clearFollowupDrainCallback key (snd (clearFollowupQueue key s)))"
  shows "P (fst (snd (clearSessionQueues keys s c)))"
proof -
  have "P (fst (snd x)) \<Longrightarrow> P (fst (snd (fold clear_session_key keys x)))" for x
  proof (induction keys arbitrary: x)
    case (Cons k keys)
    obtain r t d where x: "x = (r, t, d)" by (cases x)
    have "P (fst (snd (clear_session_key k (r, t, d))))"
      using Cons.prems assms(2) by (auto simp: x clear_session_key_def Let_def split: option.splits prod.splits)
        (metis snd_conv)
    then show ?case unfolding x fold_simps comp_apply by (rule Cons.IH)
  qed simp
  from this [of "(\<lparr>cl_followupCleared = 0, cl_laneCleared = 0, cl_keys = []\<rparr>, s, c)"] assms(1) show ?thesis
    by (simp add: clearSessionQueues_def)
qed

lemma wf_clear_sessions: "followup_wf s \<Longrightarrow> followup_wf (fst (snd (clearSessionQueues keys s c)))"
  by (rule clear_sessions_induct) (simp_all add: wf_forget_callback wf_clear_queue)

lemma refresh_cases:
  obtains (none) "refreshQueuedFollowupSession p s = s"
  | (found) q where "jm_get (fs_registry s) (js_trim (rf_key p)) = Some q"
      "refreshQueuedFollowupSession p s = set_queue q ((fq_at s q)\<lparr>fq_lastRun := map_option (rewrite_run p) (fq_lastRun (fq_at s q)),
         qu_items := map (\<lambda>item. item\<lparr>fo_run := rewrite_run p (fo_run item)\<rparr>) (qu_items (fq_at s q))\<rparr>) s"
proof (cases "js_trim (rf_key p) = [] \<or> jm_get (fs_registry s) (js_trim (rf_key p)) = None \<or>
    (\<not> should_rewrite_session p \<and> \<not> should_rewrite_selection p)")
  case True
  then show ?thesis
    by (intro none) (auto simp: refreshQueuedFollowupSession_def getExistingFollowupQueue_def Let_def split: option.splits)
next
  case False
  then obtain q where "jm_get (fs_registry s) (js_trim (rf_key p)) = Some q" by auto
  with False show ?thesis
    by (intro found [of q]) (auto simp: refreshQueuedFollowupSession_def getExistingFollowupQueue_def Let_def)
qed

lemma wf_refresh: "followup_wf s \<Longrightarrow> followup_wf (refreshQueuedFollowupSession p s)"
  by (cases rule: refresh_cases [of p s]) (auto intro!: wf_set_queue dest: wf_registry)

lemma with_drain_cases:
  obtains (none) "drain_at s q = None" "with_drain s q f = s" | (some) d where "drain_at s q = Some d" "with_drain s q f = f d"
  by (cases "drain_at s q") (simp_all add: with_drain_def)

lemma wf_return: "followup_wf s \<Longrightarrow> drain_at s q = Some d \<Longrightarrow> followup_wf (next_iteration q d (clear_summary q b s))"
  using wf_drain [of s q d] by (intro wf_next [of _ _ d] wf_clear_summary) simp_all

lemma wf_step: "followup_wf s \<Longrightarrow> followup_wf (followup_step known s e)"
  using wf_drain [of s]
  by (cases e) (auto simp: with_drain_def wf_enqueue wf_schedule wf_clear_sessions wf_refresh
      intro: wf_set_drain wf_body wf_collect wf_succeeded wf_failed wf_finish wf_return split: option.splits)

lemma wf_reach: "followup_reach known s \<Longrightarrow> followup_wf s"
  by (induction rule: reach.induct) (auto intro: wf_init wf_step)

end
