(* ===== verification/FollowupDelivery.thy ===== *)
theory FollowupDelivery
  imports FollowupState
begin

text \<open>
  Delivery: the messages a queue has accepted are those that runs completed, then those that wait, as long as the cap
  drops nothing and the queue is not cleared; a completed message was in the prompt of a run. Two relations between
  states carry the proofs: \<open>quiet\<close> steps move only drains, \<open>calm\<close> steps complete nothing.
\<close>

section \<open>Messages and the log\<close>

text \<open>What identifies a message: everything but the session and model it will run with, which a refresh may change.\<close>

definition message :: "followup_run \<Rightarrow> followup_run" where
  "message item = item\<lparr>fo_run := \<lparr>fr_sessionId = [], fr_sessionFile = [], fr_provider = [], fr_model = [],
     fr_authProfileId = None, fr_authProfileIdSource = None, fr_rest = 0\<rparr>\<rparr>"

fun queued_in :: "nat \<Rightarrow> followup_effect \<Rightarrow> followup_run list" where
  "queued_in q (Queued p run) = (if p = q then [message run] else [])"
| "queued_in q _ = []"

fun completed_in :: "nat \<Rightarrow> followup_effect \<Rightarrow> followup_run list" where
  "completed_in q (Completed p items) = (if p = q then map message items else [])"
| "completed_in q _ = []"

definition queued_messages :: "nat \<Rightarrow> followup_state \<Rightarrow> followup_run list" where
  "queued_messages q s = concat (map (queued_in q) (fs_log s))"

definition completed_messages :: "nat \<Rightarrow> followup_state \<Rightarrow> followup_run list" where
  "completed_messages q s = concat (map (completed_in q) (fs_log s))"

definition waiting_messages :: "nat \<Rightarrow> followup_state \<Rightarrow> followup_run list" where
  "waiting_messages q s = map message (qu_items (fq_at s q))"

text \<open>No message of the queue was dropped by the cap, and the queue was not cleared.\<close>

fun spares :: "nat \<Rightarrow> followup_effect \<Rightarrow> bool" where
  "spares q (CapDropped p _) \<longleftrightarrow> p \<noteq> q"
| "spares q (Cleared p) \<longleftrightarrow> p \<noteq> q"
| "spares q _ \<longleftrightarrow> True"

definition untouched :: "nat \<Rightarrow> followup_state \<Rightarrow> bool" where
  "untouched q s \<longleftrightarrow> list_all (spares q) (fs_log s)"

fun effect_queue :: "followup_effect \<Rightarrow> nat" where
  "effect_queue (Queued q _) = q"
| "effect_queue (CapDropped q _) = q"
| "effect_queue (Started q _ _ _) = q"
| "effect_queue (Completed q _) = q"
| "effect_queue (Failed q) = q"
| "effect_queue (Cleared q) = q"

fun phase_ok :: "followup_run list \<Rightarrow> drain_phase \<Rightarrow> bool" where
  "phase_ok ms (RunningItem item) \<longleftrightarrow> take 1 ms = [message item]"
| "phase_ok ms (RunningSummary _) \<longleftrightarrow> False"
| "phase_ok ms (RunningCollected items summary) \<longleftrightarrow> \<not> summary \<and> take (length items) ms = map message items"
| "phase_ok ms _ \<longleftrightarrow> True"

lemma phase_ok_waiting [simp]: "\<not> running ph \<Longrightarrow> phase_ok ms ph"
  by (cases ph) simp_all

definition queue_ok :: "followup_state \<Rightarrow> nat \<Rightarrow> bool" where
  "queue_ok s q \<longleftrightarrow> (untouched q s \<longrightarrow>
     su_droppedCount (fq_at s q) = 0 \<and> queued_messages q s = completed_messages q s @ waiting_messages q s \<and>
     (\<forall>d. drain_at s q = Some d \<longrightarrow> phase_ok (waiting_messages q s) (dr_phase d)))"

definition delivery_inv :: "followup_state \<Rightarrow> bool" where
  "delivery_inv s \<longleftrightarrow> (\<forall>q<length (fs_queues s). queue_ok s q) \<and>
     list_all (\<lambda>e. effect_queue e < length (fs_queues s)) (fs_log s)"

section \<open>Steps that only move drains\<close>

definition quiet :: "followup_state \<Rightarrow> followup_state \<Rightarrow> bool" where
  "quiet s t \<longleftrightarrow> fs_log t = fs_log s \<and> length (fs_queues s) \<le> length (fs_queues t) \<and>
     (\<forall>q<length (fs_queues t).
        (if q < length (fs_queues s) then waiting_messages q t = waiting_messages q s \<and> su_droppedCount (fq_at t q) = su_droppedCount (fq_at s q)
         else waiting_messages q t = [] \<and> su_droppedCount (fq_at t q) = 0)) \<and>
     (\<forall>q d. drain_at t q = Some d \<longrightarrow> drain_at s q = Some d \<or> \<not> running (dr_phase d))"

lemma quiet_refl [simp]: "quiet s s"
  by (simp add: quiet_def)

lemma quiet_trans: "quiet s t \<Longrightarrow> quiet t u \<Longrightarrow> quiet s u"
  unfolding quiet_def
proof (elim conjE, intro conjI allI impI)
  fix q
  assume st: "\<forall>q<length (fs_queues t). if q < length (fs_queues s)
      then waiting_messages q t = waiting_messages q s \<and> su_droppedCount (fq_at t q) = su_droppedCount (fq_at s q)
      else waiting_messages q t = [] \<and> su_droppedCount (fq_at t q) = 0"
    and tu: "\<forall>q<length (fs_queues u). if q < length (fs_queues t)
      then waiting_messages q u = waiting_messages q t \<and> su_droppedCount (fq_at u q) = su_droppedCount (fq_at t q)
      else waiting_messages q u = [] \<and> su_droppedCount (fq_at u q) = 0"
    and "length (fs_queues s) \<le> length (fs_queues t)" "q < length (fs_queues u)"
  then show "if q < length (fs_queues s)
      then waiting_messages q u = waiting_messages q s \<and> su_droppedCount (fq_at u q) = su_droppedCount (fq_at s q)
      else waiting_messages q u = [] \<and> su_droppedCount (fq_at u q) = 0"
    using st [rule_format, of q] tu [rule_format, of q] by (auto split: if_splits)
next
  fix q d
  assume "\<forall>q d. drain_at t q = Some d \<longrightarrow> drain_at s q = Some d \<or> \<not> running (dr_phase d)"
    "\<forall>q d. drain_at u q = Some d \<longrightarrow> drain_at t q = Some d \<or> \<not> running (dr_phase d)" "drain_at u q = Some d"
  then show "drain_at s q = Some d \<or> \<not> running (dr_phase d)" by blast
qed (use order_trans in auto)

lemma bound_nothing:
  assumes "list_all (\<lambda>e. effect_queue e < n) es" "n \<le> q"
  shows "concat (map (queued_in q) es) = [] \<and> concat (map (completed_in q) es) = []"
  using assms
proof (induction es)
  case (Cons e es)
  then show ?case by (cases e) auto
qed simp

lemma quiet_delivery:
  assumes "quiet s t" "delivery_inv s" "followup_wf s"
  shows "delivery_inv t"
proof -
  have log: "fs_log t = fs_log s" and len: "length (fs_queues s) \<le> length (fs_queues t)"
    using assms(1) by (simp_all add: quiet_def)
  have bound: "list_all (\<lambda>e. effect_queue e < length (fs_queues s)) (fs_log s)" using assms(2) by (simp add: delivery_inv_def)
  have "queue_ok t q" if q: "q < length (fs_queues t)" for q
  proof (cases "q < length (fs_queues s)")
    case True
    then have w: "waiting_messages q t = waiting_messages q s" "su_droppedCount (fq_at t q) = su_droppedCount (fq_at s q)"
      and d: "\<And>d. drain_at t q = Some d \<Longrightarrow> drain_at s q = Some d \<or> \<not> running (dr_phase d)"
      using assms(1) q by (auto simp: quiet_def)
    have "queue_ok s q" using assms(2) True by (simp add: delivery_inv_def)
    then show ?thesis
      using w d by (auto simp: queue_ok_def untouched_def queued_messages_def completed_messages_def log)
  next
    case False
    then have w: "waiting_messages q t = []" "su_droppedCount (fq_at t q) = 0"
      using assms(1) q by (auto simp: quiet_def)
    have "drain_at s q = None" using False wf_drain [OF assms(3), of q] by (cases "drain_at s q") auto
    then have "\<not> running (dr_phase d)" if "drain_at t q = Some d" for d
      using assms(1) that unfolding quiet_def by (metis option.distinct(1))
    moreover have "concat (map (queued_in q) (fs_log s)) = [] \<and> concat (map (completed_in q) (fs_log s)) = []"
      using bound_nothing [OF bound, of q] False by simp
    ultimately show ?thesis using w by (simp add: queue_ok_def queued_messages_def completed_messages_def log del: concat_eq_Nil_conv)
  qed
  then show ?thesis using bound len by (auto simp: delivery_inv_def log list_all_iff)
qed

lemma waiting_more [simp]:
  "waiting_messages q (set_drain p d s) = waiting_messages q s" "waiting_messages q (tell e s) = waiting_messages q s"
  "waiting_messages q (rememberFollowupDrainCallback key cb s) = waiting_messages q s"
  "waiting_messages q (forget_key key s) = waiting_messages q s"
  "waiting_messages q (clearFollowupDrainCallback key s) = waiting_messages q s"
  "waiting_messages q (s\<lparr>fs_recent := c\<rparr>) = waiting_messages q s"
  "p < length (fs_queues s) \<Longrightarrow> waiting_messages q (set_queue p x s) =
     (if q = p then map message (qu_items x) else waiting_messages q s)"
  "p < length (fs_queues s) \<Longrightarrow> waiting_messages q (stop_drain p s) = waiting_messages q s"
  by (simp_all add: waiting_messages_def fq_at_set_queue)

lemma quiet_set_queue: "q < length (fs_queues s) \<Longrightarrow> map message (qu_items x) = waiting_messages q s \<Longrightarrow>
    su_droppedCount x = su_droppedCount (fq_at s q) \<Longrightarrow> quiet s (set_queue q x s)"
  by (simp add: quiet_def fq_at_set_queue)

lemma quiet_set_drain: "\<not> running (dr_phase d) \<Longrightarrow> quiet s (set_drain q d s)"
  by (simp add: quiet_def)

lemma quiet_forget: "quiet s (forget_key key s)"
  by (simp add: quiet_def)

lemma quiet_remember: "quiet s (rememberFollowupDrainCallback key cb s)"
  by (simp add: quiet_def)

lemma quiet_forget_callback: "quiet s (clearFollowupDrainCallback key s)"
  by (simp add: quiet_def)

lemma quiet_recent: "quiet s (s\<lparr>fs_recent := c\<rparr>)"
  by (simp add: quiet_def)

lemma quiet_stop: "q < length (fs_queues s) \<Longrightarrow> quiet s (stop_drain q s)"
  by (simp add: quiet_def)

lemma quiet_add_queue:
  assumes "qu_items queue = []" "su_droppedCount queue = 0"
  shows "quiet s (add_queue key queue s)"
  using assms by (auto simp: quiet_def waiting_messages_def less_Suc_eq)

lemma debounce_not_running [simp]: "\<not> running (debounce_phase queue)"
  by (simp add: debounce_phase_def Let_def)

lemma quiet_schedule:
  assumes "followup_wf s" shows "quiet s (scheduleFollowupDrain key cb s)"
proof (cases rule: schedule_cases [OF assms, of key cb])
  case (2 q)
  then have "q < length (fs_queues s)" using assms wf_registry by blast
  then show ?thesis unfolding 2(4) Let_def
    by (intro quiet_trans [OF quiet_set_queue quiet_trans [OF quiet_remember quiet_set_drain]])
      (simp_all add: waiting_messages_def)
qed (simp_all add: quiet_forget)

lemma quiet_kick: "followup_wf s \<Longrightarrow> quiet s (kickFollowupDrainIfIdle key s)"
  by (simp add: kickFollowupDrainIfIdle_def quiet_schedule split: option.splits)

lemma quiet_kick_if: "followup_wf s \<Longrightarrow> quiet s (kick_if b key s)"
  by (simp add: kick_if_def quiet_kick)

lemma quiet_remember_given: "quiet s (remember_given key cb s)"
  by (simp add: remember_given_def quiet_remember split: option.splits)

lemma quiet_finish:
  assumes "followup_wf s" "drain_at s q = Some d'" shows "quiet s (finish_drain q d s)"
proof -
  have q: "q < length (fs_queues s)" using wf_drain [OF assms] by simp
  show ?thesis
    unfolding finish_drain_eq [OF q]
    using quiet_trans [OF quiet_stop [OF q] quiet_schedule [OF wf_stop [OF assms(1) q]]] quiet_trans [OF quiet_stop [OF q] quiet_forget]
    by simp
qed

lemma quiet_next: "followup_wf s \<Longrightarrow> drain_at s q = Some d' \<Longrightarrow> quiet s (next_iteration q d s)"
  by (simp add: next_iteration_def quiet_finish quiet_set_drain)

lemma quiet_get_queue:
  assumes "followup_wf s" "getFollowupQueue key settings s = (q, s1)" shows "quiet s s1"
  using assms by (cases rule: get_queue_cases [OF assms(1), of key settings])
    (auto intro: quiet_set_queue quiet_add_queue simp: waiting_messages_def)

lemma message_run [simp]: "message (item\<lparr>fo_run := r\<rparr>) = message item"
  by (simp add: message_def)

lemma message_message [simp]: "message (message item) = message item"
  by (simp add: message_def)

lemma quiet_refresh: "followup_wf s \<Longrightarrow> quiet s (refreshQueuedFollowupSession p s)"
  by (cases rule: refresh_cases [of p s]) (auto intro!: quiet_set_queue dest: wf_registry simp: waiting_messages_def comp_def)

section \<open>Steps that change one queue\<close>

lemma other_effects: "list_all (\<lambda>e. effect_queue e = q) es \<Longrightarrow> p \<noteq> q \<Longrightarrow>
   concat (map (queued_in p) es) = [] \<and> concat (map (completed_in p) es) = [] \<and> list_all (spares p) es"
proof (induction es)
  case (Cons e es)
  then show ?case by (cases e) auto
qed simp

lemma delivery_local:
  assumes inv: "delivery_inv s" and q: "q < length (fs_queues s)" and len: "length (fs_queues t) = length (fs_queues s)"
    and log: "fs_log t = fs_log s @ es" "list_all (\<lambda>e. effect_queue e = q) es"
    and others: "\<And>p. p \<noteq> q \<Longrightarrow> p < length (fs_queues s) \<Longrightarrow> fq_at t p = fq_at s p \<and> drain_at t p = drain_at s p"
    and ok: "queue_ok t q"
  shows "delivery_inv t"
proof -
  have "queue_ok t p" if p: "p < length (fs_queues s)" for p
  proof (cases "p = q")
    case False
    have same: "fq_at t p = fq_at s p" "drain_at t p = drain_at s p" using others [OF False p] by auto
    note none = other_effects [OF log(2) False]
    have "queue_ok s p" using inv p by (simp add: delivery_inv_def)
    then show ?thesis using none
      by (simp add: queue_ok_def untouched_def queued_messages_def completed_messages_def waiting_messages_def log(1) same
          del: concat_eq_Nil_conv)
  qed (use ok in simp)
  then show ?thesis using inv q log by (auto simp: delivery_inv_def len list_all_iff)
qed

lemma delivery_queue: "delivery_inv s \<Longrightarrow> q < length (fs_queues s) \<Longrightarrow> queue_ok s q"
  by (simp add: delivery_inv_def)

lemma delivery_start:
  assumes "delivery_inv s" "q < length (fs_queues s)" "untouched q s \<Longrightarrow> phase_ok (waiting_messages q s) ph"
  shows "delivery_inv (start_run q d run ph s)"
proof (rule delivery_local [OF assms(1,2), where es = "[Started q (dr_key d) (dr_callback d) run]"])
  show "queue_ok (start_run q d run ph s) q"
    using delivery_queue [OF assms(1,2)] assms(3)
    by (simp add: start_run_def queue_ok_def untouched_def queued_messages_def completed_messages_def)
qed (simp_all add: start_run_def)

lemma take_cut: "n = length (qu_items before) - length (drop m (qu_items before)) \<Longrightarrow> m \<le> length (qu_items before) \<Longrightarrow> n = m"
  by simp

lemma phase_ok_append: "phase_ok ms ph \<Longrightarrow> phase_ok (ms @ ms') ph"
proof (cases ph)
  case (RunningCollected items summary)
  assume "phase_ok ms ph"
  then have "take (length items) ms = map message items" "\<not> summary" by (simp_all add: RunningCollected)
  then have "length items \<le> length ms" using arg_cong [of _ _ length] by (fastforce simp: min_def split: if_splits)
  with \<open>take _ _ = _\<close> \<open>\<not> summary\<close> show ?thesis by (simp add: RunningCollected)
next
  case (RunningItem item)
  assume "phase_ok ms ph"
  then show ?thesis by (cases ms) (simp_all add: RunningItem)
qed simp_all

lemma delivery_add_item:
  assumes "delivery_inv s" "q < length (fs_queues s)" "makes_room (fq_at s q) queue"
  shows "delivery_inv (add_item q run queue s)"
proof -
  obtain n where n: "n \<le> length (qu_items (fq_at s q))" "qu_items queue = drop n (qu_items (fq_at s q))"
    "n = 0 \<longrightarrow> su_droppedCount queue = su_droppedCount (fq_at s q)" using assms(3) by (auto simp: makes_room_def)
  let ?dropped = "take n (qu_items (fq_at s q))"
  let ?es = "(if ?dropped = [] then [] else [CapDropped q ?dropped]) @ [Queued q run]"
  have cut: "length (qu_items (fq_at s q)) - length (qu_items queue) = n" using n by simp
  have log: "fs_log (add_item q run queue s) = fs_log s @ ?es" using assms(2) by (simp only: add_item_simps cut append_assoc)
  show ?thesis
  proof (rule delivery_local [OF assms(1,2) _ log])
    show "queue_ok (add_item q run queue s) q"
    proof (cases "?dropped = []")
      case True
      then have "qu_items queue = qu_items (fq_at s q)" "su_droppedCount queue = su_droppedCount (fq_at s q)" using n by auto
      moreover have es: "?es = [Queued q run]" using True by simp
      ultimately show ?thesis
        using delivery_queue [OF assms(1,2)] assms(2)
        unfolding queue_ok_def untouched_def queued_messages_def completed_messages_def waiting_messages_def log es
        by (simp add: phase_ok_append)
    next
      case False
      then show ?thesis using log by (simp add: queue_ok_def untouched_def)
    qed
  qed (use assms(2) in auto)
qed

lemma delivery_clear_summary:
  assumes "delivery_inv s" "q < length (fs_queues s)"
  shows "delivery_inv (clear_summary q b s)"
proof (cases b)
  case True
  show ?thesis
  proof (rule delivery_local [OF assms, where es = "[]"])
    show "queue_ok (clear_summary q b s) q"
      using delivery_queue [OF assms] assms(2) True
      by (simp add: queue_ok_def untouched_def queued_messages_def completed_messages_def waiting_messages_def
          clear_summary_def clearQueueSummaryState_def fq_at_set_queue)
  qed (use assms(2) True in \<open>simp_all add: clear_summary_def fq_at_set_queue\<close>)
qed (use assms in \<open>simp add: clear_summary_def\<close>)

text \<open>The next iteration does not look at the phase it replaces.\<close>

lemma next_forgets_phase: "next_iteration q d (set_drain q d' s) = next_iteration q d s"
proof -
  have at: "fq_at (set_drain q d' s) q = fq_at s q" by simp
  have set: "set_drain q e (set_drain q d' s) = set_drain q e s" for e
    by (simp add: set_drain_def)
  have fin: "finish_drain q d (set_drain q d' s) = finish_drain q d s"
    by (simp add: finish_drain_def Let_def) (simp add: set_drain_def set_queue_def fq_at_def delete_update_same)
  show ?thesis by (simp add: next_iteration_def set fin)
qed

lemma set_drain_commute:
  "clear_summary q b (set_drain p d s) = set_drain p d (clear_summary q b s)"
  "shift_items q n (set_drain p d s) = set_drain p d (shift_items q n s)"
  "tell e (set_drain p d s) = set_drain p d (tell e s)"
  by (simp_all add: clear_summary_def shift_items_def set_drain_def set_queue_def tell_def fq_at_def)

lemma fq_at_shift [simp]: "q < length (fs_queues s) \<Longrightarrow> fq_at (shift_items q n s) p =
    (if p = q then (fq_at s q)\<lparr>qu_items := drop n (qu_items (fq_at s q))\<rparr> else fq_at s p)"
  by (simp add: shift_items_def fq_at_set_queue)

lemma fs_log_shift [simp]: "fs_log (shift_items q n s) = fs_log s" "fs_log (clear_summary q b s) = fs_log s"
  by (simp_all add: shift_items_def clear_summary_def)

text \<open>The items of a run are taken out.\<close>

lemma delivery_complete:
  assumes inv: "delivery_inv s" and q: "q < length (fs_queues s)"
    and items: "untouched q s \<Longrightarrow> take n (waiting_messages q s) = map message items" and d: "\<not> running (dr_phase d)"
  shows "delivery_inv (tell (Completed q items) (set_drain q d (shift_items q n s)))"
proof (rule delivery_local [OF inv q, where es = "[Completed q items]"])
  show "queue_ok (tell (Completed q items) (set_drain q d (shift_items q n s))) q"
    unfolding queue_ok_def
  proof
    assume "untouched q (tell (Completed q items) (set_drain q d (shift_items q n s)))"
    then have un: "untouched q s" by (simp add: untouched_def)
    with delivery_queue [OF inv q] have ok: "su_droppedCount (fq_at s q) = 0"
      "queued_messages q s = completed_messages q s @ waiting_messages q s" by (simp_all add: queue_ok_def)
    have "waiting_messages q s = map message items @ drop n (waiting_messages q s)"
      using items [OF un] by (metis append_take_drop_id)
    with ok show "su_droppedCount (fq_at (tell (Completed q items) (set_drain q d (shift_items q n s))) q) = 0 \<and>
      queued_messages q (tell (Completed q items) (set_drain q d (shift_items q n s))) =
        completed_messages q (tell (Completed q items) (set_drain q d (shift_items q n s))) @
        waiting_messages q (tell (Completed q items) (set_drain q d (shift_items q n s))) \<and>
      (\<forall>d'. drain_at (tell (Completed q items) (set_drain q d (shift_items q n s))) q = Some d' \<longrightarrow>
         phase_ok (waiting_messages q (tell (Completed q items) (set_drain q d (shift_items q n s)))) (dr_phase d'))"
      using q d by (simp add: queued_messages_def completed_messages_def waiting_messages_def drop_map)
  qed
qed (use q in simp_all)

lemma delivery_succeeded:
  assumes inv: "delivery_inv s" and wf: "followup_wf s" and d: "drain_at s q = Some d"
  shows "delivery_inv (run_succeeded q d s)"
proof -
  have q: "q < length (fs_queues s)" using wf_drain [OF wf d] by simp
  have ok: "untouched q s \<Longrightarrow> phase_ok (waiting_messages q s) (dr_phase d)"
    using delivery_queue [OF inv q] d by (simp add: queue_ok_def)
  show ?thesis
  proof (cases "dr_phase d")
    case (RunningItem item)
    then show ?thesis using ok by (simp add: run_succeeded_def delivery_complete [OF inv q])
  next
    case (RunningSummary item)
    with ok have "\<not> untouched q s" by auto
    then have "delivery_inv (tell (Completed q []) (set_drain q (d\<lparr>dr_phase := Returning True\<rparr>) (shift_items q 1 s)))"
      by (intro delivery_complete [OF inv q]) simp_all
    then show ?thesis by (simp add: run_succeeded_def RunningSummary)
  next
    case (RunningCollected items summary)
    let ?d = "d\<lparr>dr_phase := Returning False\<rparr>"
    let ?t = "tell (Completed q items) (set_drain q ?d (shift_items q (length items) s))"
    have "delivery_inv ?t" using ok RunningCollected by (simp add: delivery_complete [OF inv q])
    then have "delivery_inv (clear_summary q summary ?t)" using q by (simp add: delivery_clear_summary)
    moreover have "followup_wf (clear_summary q summary ?t)"
      using q wf d by (intro wf_clear_summary wf_tell wf_set_drain [of _ _ d] wf_shift) simp_all
    moreover have "drain_at (clear_summary q summary ?t) q = Some ?d" by simp
    ultimately have "delivery_inv (next_iteration q d (clear_summary q summary ?t))"
      using quiet_delivery [OF quiet_next] by blast
    then show ?thesis
      by (simp add: run_succeeded_def RunningCollected set_drain_commute next_forgets_phase)
  qed (use inv in \<open>simp_all add: run_succeeded_def\<close>)
qed

lemma drain_body_summary: "su_droppedCount queue = 0 \<Longrightarrow> summary_prompt queue = None"
  by (simp add: summary_prompt_def previewQueueSummaryPrompt_def buildQueueSummaryPrompt_def summary_state.defs)

lemma delivery_drain_next:
  assumes "delivery_inv s" "q < length (fs_queues s)"
    and "\<And>item rest. untouched q s \<Longrightarrow> qu_items (fq_at s q) = item # rest \<Longrightarrow> phase_ok (waiting_messages q s) (g item)"
  shows "delivery_inv (drainNextQueueItem q d f g s)"
proof (cases "qu_items (fq_at s q)")
  case Nil
  have "delivery_inv (set_drain q (d\<lparr>dr_phase := Breaking\<rparr>) s)"
    by (rule delivery_local [OF assms(1,2), where es = "[]"])
      (use delivery_queue [OF assms(1,2)] in \<open>simp_all add: queue_ok_def untouched_def queued_messages_def completed_messages_def\<close>)
  then show ?thesis by (simp add: drainNextQueueItem_def Nil)
next
  case (Cons item rest)
  then show ?thesis using assms(3) by (simp add: drainNextQueueItem_def delivery_start [OF assms(1,2)])
qed

lemma delivery_body:
  assumes inv: "delivery_inv s" and wf: "followup_wf s" and d: "drain_at s q = Some d"
  shows "delivery_inv (drain_body known now q d s)"
proof -
  have q: "q < length (fs_queues s)" using wf_drain [OF wf d] by simp
  have item: "delivery_inv (drainNextQueueItem q e id RunningItem s)" for e
    by (rule delivery_drain_next [OF inv q]) (simp add: waiting_messages_def)
  show ?thesis
  proof (cases "fq_mode (fq_at s q) = ModeCollect")
    case True
    have "delivery_inv (set_drain q (d\<lparr>dr_phase := Collecting\<rparr>) s)"
      by (rule quiet_delivery [OF quiet_set_drain inv wf]) simp
    then show ?thesis using True item by (simp add: drain_body_def Let_def drainCollectQueueStep_def)
  next
    case False
    show ?thesis
    proof (cases "summary_prompt (fq_at s q)")
      case None
      then show ?thesis using False item by (simp add: drain_body_def Let_def)
    next
      case (Some summary)
      then have "\<not> untouched q s" using delivery_queue [OF inv q] drain_body_summary by (auto simp: queue_ok_def)
      then have "delivery_inv (drainNextQueueItem q d f RunningSummary s)" for f
        by (intro delivery_drain_next [OF inv q]) simp
      moreover have "delivery_inv (finish_drain q d s)" by (rule quiet_delivery [OF quiet_finish [OF wf d] inv wf])
      ultimately show ?thesis using False Some by (simp add: drain_body_def Let_def split: option.splits)
    qed
  qed
qed

lemma delivery_collect:
  assumes inv: "delivery_inv s" and wf: "followup_wf s" and d: "drain_at s q = Some d"
  shows "delivery_inv (collect_items now q d s)"
proof -
  have q: "q < length (fs_queues s)" using wf_drain [OF wf d] by simp
  have "delivery_inv (finish_drain q d s)" by (rule quiet_delivery [OF quiet_finish [OF wf d] inv wf])
  moreover have "delivery_inv (start_run q d r (RunningCollected (qu_items (fq_at s q)) (summary_prompt (fq_at s q) \<noteq> None)) s)" for r
  proof (rule delivery_start [OF inv q])
    assume "untouched q s"
    then have "su_droppedCount (fq_at s q) = 0" using delivery_queue [OF inv q] by (simp add: queue_ok_def)
    then show "phase_ok (waiting_messages q s) (RunningCollected (qu_items (fq_at s q)) (summary_prompt (fq_at s q) \<noteq> None))"
      by (simp add: drain_body_summary waiting_messages_def)
  qed
  ultimately show ?thesis unfolding collect_items_def Let_def option.case_eq_if by (simp only: split: if_split) simp
qed

lemma delivery_enqueue:
  assumes inv: "delivery_inv s" and wf: "followup_wf s"
  shows "delivery_inv (snd (enqueueFollowupRun now key run settings mode cb restart s))"
proof (cases rule: enqueue_cases [OF wf, of key settings now run mode cb restart])
  case (1 q s1 c queue)
  note s1 = wf_get_queue [OF wf 1(1)] quiet_get_queue [OF wf 1(1)]
  have "quiet s1 (set_queue q queue (s1\<lparr>fs_recent := c\<rparr>))"
    using 1 s1 by (intro quiet_trans [OF quiet_recent quiet_set_queue]) (simp_all add: waiting_messages_def)
  then show ?thesis unfolding 1(5) snd_conv by (intro quiet_delivery [OF quiet_trans [OF s1(2)] inv wf])
next
  case (2 q s1 c queue c' b)
  note s1 = wf_get_queue [OF wf 2(1)] quiet_get_queue [OF wf 2(1)]
  let ?t = "add_item q run queue (s1\<lparr>fs_recent := c\<rparr>)"
  have "delivery_inv (s1\<lparr>fs_recent := c\<rparr>)" by (rule quiet_delivery [OF quiet_trans [OF s1(2) quiet_recent] inv wf])
  then have t: "delivery_inv ?t" using s1 2(2) by (simp add: delivery_add_item)
  have wft: "followup_wf ?t" using s1 2(2) by (simp add: wf_add_item wf_recent makes_room_def)
  have wfu: "followup_wf (remember_given key cb (?t\<lparr>fs_recent := c'\<rparr>))" by (simp add: wf_remember_given wf_recent wft)
  show ?thesis unfolding 2(3) snd_conv
    by (rule quiet_delivery [OF quiet_trans [OF quiet_trans [OF quiet_recent quiet_remember_given] quiet_kick_if [OF wfu]] t wft])
qed

lemma delivery_clear_queue:
  assumes inv: "delivery_inv s" and wf: "followup_wf s"
  shows "delivery_inv (snd (clearFollowupQueue key s))"
proof (cases rule: clear_queue_cases [of key s])
  case (found q)
  have q: "q < length (fs_queues s)" using wf_registry [OF wf found(1)] .
  show ?thesis
    unfolding found(2)
  proof (rule delivery_local [OF inv q, where es = "[Cleared q]"])
    show "queue_ok (tell (Cleared q) (set_queue q (empty_queue (fq_at s q)) s\<lparr>fs_registry := jm_delete (js_trim key) (fs_registry s)\<rparr>)) q"
      by (simp add: queue_ok_def untouched_def)
  qed (use q in \<open>simp_all add: fq_at_set_queue\<close>)
qed (use inv in simp)

lemma delivery_clear_sessions:
  assumes "delivery_inv s" "followup_wf s"
  shows "delivery_inv (fst (snd (clearSessionQueues keys s c)))"
proof -
  have "delivery_inv (fst (snd (clearSessionQueues keys s c))) \<and> followup_wf (fst (snd (clearSessionQueues keys s c)))"
    by (rule clear_sessions_induct)
      (use assms in \<open>auto intro: quiet_delivery [OF quiet_forget_callback] delivery_clear_queue wf_clear_queue wf_forget_callback\<close>)
  then show ?thesis ..
qed

lemma delivery_failed:
  assumes inv: "delivery_inv s" and wf: "followup_wf s" and d: "drain_at s q = Some d"
  shows "delivery_inv (run_failed now q d s)"
proof -
  have q: "q < length (fs_queues s)" using wf_drain [OF wf d] by simp
  let ?s1 = "set_queue q ((fq_at s q)\<lparr>fq_lastEnqueuedAt := now\<rparr>) s"
  let ?s2 = "tell (Failed q) ?s1"
  have "delivery_inv ?s1"
    by (rule quiet_delivery [OF quiet_set_queue inv wf]) (use q in \<open>simp_all add: waiting_messages_def\<close>)
  then have "delivery_inv ?s2"
    by (rule delivery_local [where q = q and es = "[Failed q]"])
      (use q delivery_queue [OF \<open>delivery_inv ?s1\<close>, of q] in
        \<open>simp_all add: queue_ok_def untouched_def queued_messages_def completed_messages_def\<close>)
  moreover have "followup_wf ?s2" using wf q by (simp add: wf_tell wf_set_queue)
  moreover have "drain_at ?s2 q = Some d" using d by simp
  ultimately show ?thesis unfolding run_failed_def by (blast intro: quiet_delivery [OF quiet_finish])
qed

lemma delivery_return:
  assumes inv: "delivery_inv s" and wf: "followup_wf s" and d: "drain_at s q = Some d"
  shows "delivery_inv (next_iteration q d (clear_summary q b s))"
proof -
  have q: "q < length (fs_queues s)" using wf_drain [OF wf d] by simp
  have "delivery_inv (clear_summary q b s)" "followup_wf (clear_summary q b s)" "drain_at (clear_summary q b s) q = Some d"
    using inv wf q d by (simp_all add: delivery_clear_summary wf_clear_summary)
  then show ?thesis by (blast intro: quiet_delivery [OF quiet_next])
qed

lemma delivery_step:
  assumes "delivery_inv s" "followup_wf s"
  shows "delivery_inv (followup_step known s e)"
  using assms
  by (cases e)
    (auto simp: with_drain_def delivery_enqueue delivery_clear_sessions delivery_body delivery_collect delivery_succeeded
      delivery_failed delivery_return quiet_delivery [OF quiet_schedule] quiet_delivery [OF quiet_refresh]
      intro: quiet_delivery [OF quiet_set_drain] quiet_delivery [OF quiet_finish] split: option.splits)

lemma delivery_reach: "followup_reach known s \<Longrightarrow> delivery_inv s \<and> followup_wf s"
proof (induction rule: reach.induct)
  case reach_init
  show ?case by (simp add: wf_init) (simp add: delivery_inv_def followup_init_def)
next
  case (reach_step s e)
  then show ?case by (simp add: delivery_step wf_step)
qed

section \<open>Completed messages were run\<close>

text \<open>A run whose prompt contains the prompt of the message (up to white space at its end) was started.\<close>

definition started_with :: "followup_effect list \<Rightarrow> nat \<Rightarrow> followup_run \<Rightarrow> bool" where
  "started_with es q item \<longleftrightarrow>
     (\<exists>key cb run. Started q key cb run \<in> set es \<and> sublist (js_trim_end (fo_prompt item)) (fo_prompt run))"

fun covered :: "drain_phase \<Rightarrow> followup_run list" where
  "covered (RunningItem item) = [item]"
| "covered (RunningCollected items _) = items"
| "covered _ = []"

definition ran_inv :: "followup_state \<Rightarrow> bool" where
  "ran_inv s \<longleftrightarrow> (\<forall>q items. Completed q items \<in> set (fs_log s) \<longrightarrow> list_all (started_with (fs_log s) q) items) \<and>
     (\<forall>q d. drain_at s q = Some d \<longrightarrow> list_all (started_with (fs_log s) q) (covered (dr_phase d)))"

definition calm :: "followup_state \<Rightarrow> followup_state \<Rightarrow> bool" where
  "calm s t \<longleftrightarrow> (\<exists>es. fs_log t = fs_log s @ es \<and> (\<forall>q items. Completed q items \<notin> set es)) \<and>
     (\<forall>q d. drain_at t q = Some d \<longrightarrow> drain_at s q = Some d \<or> \<not> running (dr_phase d))"

lemma covered_waiting [simp]: "\<not> running ph \<Longrightarrow> covered ph = []"
  by (cases ph) simp_all

lemma started_mono: "list_all (started_with es q) items \<Longrightarrow> list_all (started_with (es @ es') q) items"
  by (induction items) (auto simp: started_with_def)

lemma quiet_calm: "quiet s t \<Longrightarrow> calm s t"
  by (auto simp: quiet_def calm_def)

lemma calm_trans: "calm s t \<Longrightarrow> calm t u \<Longrightarrow> calm s u"
  unfolding calm_def
proof (elim conjE exE, intro conjI allI impI)
  fix es es'
  assume "fs_log t = fs_log s @ es" "fs_log u = fs_log t @ es'" "\<forall>q items. Completed q items \<notin> set es" "\<forall>q items. Completed q items \<notin> set es'"
  then show "\<exists>es. fs_log u = fs_log s @ es \<and> (\<forall>q items. Completed q items \<notin> set es)"
    by (intro exI [of _ "es @ es'"]) simp
qed blast

lemma calm_ran: "calm s t \<Longrightarrow> ran_inv s \<Longrightarrow> ran_inv t"
proof -
  assume c: "calm s t" and r: "ran_inv s"
  from c obtain es where log: "fs_log t = fs_log s @ es" and none: "\<And>q items. Completed q items \<notin> set es"
    and dr: "\<And>q d. drain_at t q = Some d \<Longrightarrow> drain_at s q = Some d \<or> \<not> running (dr_phase d)"
    unfolding calm_def by blast
  show ?thesis
    unfolding ran_inv_def
  proof (intro conjI allI impI)
    fix q items assume "Completed q items \<in> set (fs_log t)"
    then show "list_all (started_with (fs_log t) q) items"
      using r none unfolding log ran_inv_def by (auto intro: started_mono)
  next
    fix q d assume "drain_at t q = Some d"
    from dr [OF this] show "list_all (started_with (fs_log t) q) (covered (dr_phase d))"
    proof
      assume "drain_at s q = Some d"
      with r show ?thesis unfolding log ran_inv_def by (simp add: started_mono)
    qed simp
  qed
qed

lemma calm_tell: "(\<And>q items. e \<noteq> Completed q items) \<Longrightarrow> calm s (tell e s)"
  by (auto simp: calm_def)

lemma calm_queue: "calm s (set_queue q x s)"
  by (simp add: calm_def)

lemma calm_add_item: "calm s (add_item q run queue s)"
  unfolding add_item_def Let_def
  by (intro calm_trans [OF _ calm_tell] calm_trans [OF _ calm_queue]) (auto intro: calm_tell simp: calm_def)

lemma calm_clear_summary: "calm s (clear_summary q b s)"
  by (simp add: clear_summary_def calm_queue) (simp add: calm_def)

lemma calm_clear_queue: "calm s (snd (clearFollowupQueue key s))"
  by (cases rule: clear_queue_cases [of key s]) (auto simp: calm_def)

lemma calm_enqueue:
  assumes wf: "followup_wf s"
  shows "calm s (snd (enqueueFollowupRun now key run settings mode cb restart s))"
proof (cases rule: enqueue_cases [OF wf, of key settings now run mode cb restart])
  case (1 q s1 c queue)
  have "calm s1 (s1\<lparr>fs_recent := c\<rparr>)" by (rule quiet_calm [OF quiet_recent])
  then show ?thesis unfolding 1(5) snd_conv
    by (intro calm_trans [OF quiet_calm [OF quiet_get_queue [OF wf 1(1)]]] calm_trans [OF _ calm_queue])
next
  case (2 q s1 c queue c' b)
  note s1 = wf_get_queue [OF wf 2(1)]
  let ?t = "add_item q run queue (s1\<lparr>fs_recent := c\<rparr>)"
  have wft: "followup_wf ?t" using s1 2(2) by (simp add: wf_add_item wf_recent makes_room_def)
  have wfu: "followup_wf (remember_given key cb (?t\<lparr>fs_recent := c'\<rparr>))" by (simp add: wf_remember_given wf_recent wft)
  have "calm s ?t"
    by (intro calm_trans [OF quiet_calm [OF quiet_trans [OF quiet_get_queue [OF wf 2(1)] quiet_recent]] calm_add_item])
  then show ?thesis unfolding 2(3) snd_conv
    by (rule calm_trans [OF _ quiet_calm [OF quiet_trans [OF quiet_trans [OF quiet_recent quiet_remember_given] quiet_kick_if [OF wfu]]]])
qed

lemma ran_start:
  assumes "ran_inv s" "\<And>i. i \<in> set (covered ph) \<Longrightarrow> sublist (js_trim_end (fo_prompt i)) (fo_prompt run)"
  shows "ran_inv (start_run q d run ph s)"
  unfolding ran_inv_def
proof (intro conjI allI impI)
  fix p items assume "Completed p items \<in> set (fs_log (start_run q d run ph s))"
  then show "list_all (started_with (fs_log (start_run q d run ph s)) p) items"
    using assms(1) unfolding ran_inv_def by (simp add: start_run_def started_mono)
next
  fix p d' assume d': "drain_at (start_run q d run ph s) p = Some d'"
  show "list_all (started_with (fs_log (start_run q d run ph s)) p) (covered (dr_phase d'))"
  proof (cases "p = q")
    case True
    with d' have "dr_phase d' = ph" by (auto simp: start_run_def)
    then show ?thesis using assms(2) True by (auto simp: start_run_def list_all_iff started_with_def)
  next
    case False
    then show ?thesis using assms(1) d' unfolding ran_inv_def by (simp add: start_run_def started_mono)
  qed
qed

lemma trim_end_sublist: "sublist (js_trim_end s) s"
proof -
  have "s = rev (takeWhile js_ws (rev s) @ dropWhile js_ws (rev s))" by simp
  then have "s = js_trim_end s @ rev (takeWhile js_ws (rev s))" by (simp add: js_trim_end_def flip: rev_append)
  then show ?thesis by (metis sublist_append_rightI)
qed

lemma ran_drain_next:
  assumes "ran_inv s" "\<And>item i. i \<in> set (covered (g item)) \<Longrightarrow> sublist (js_trim_end (fo_prompt i)) (fo_prompt (f item))"
  shows "ran_inv (drainNextQueueItem q d f g s)"
proof (cases "qu_items (fq_at s q)")
  case Nil
  then show ?thesis using calm_ran [OF quiet_calm [OF quiet_set_drain] assms(1)] by (simp add: drainNextQueueItem_def)
next
  case (Cons item rest)
  then show ?thesis using assms by (simp add: drainNextQueueItem_def ran_start)
qed

lemma ran_body:
  assumes "ran_inv s" "followup_wf s" "drain_at s q = Some d"
  shows "ran_inv (drain_body known now q d s)"
proof -
  have "ran_inv (drainNextQueueItem q e id RunningItem s)" for e
    by (rule ran_drain_next [OF assms(1)]) (simp add: trim_end_sublist)
  moreover have "ran_inv (drainNextQueueItem q d f RunningSummary s)" for f
    by (rule ran_drain_next [OF assms(1)]) simp
  moreover have "ran_inv (set_drain q (d\<lparr>dr_phase := Collecting\<rparr>) s)"
    by (rule calm_ran [OF quiet_calm [OF quiet_set_drain] assms(1)]) simp
  moreover have "ran_inv (finish_drain q d s)" by (rule calm_ran [OF quiet_calm [OF quiet_finish [OF assms(2,3)]] assms(1)])
  ultimately show ?thesis
    by (simp add: drain_body_def drainCollectQueueStep_def Let_def split: option.splits)
qed

lemma ran_collect:
  assumes "ran_inv s" "followup_wf s" "drain_at s q = Some d"
  shows "ran_inv (collect_items now q d s)"
proof -
  have "ran_inv (start_run q d (collected_run now (qu_items (fq_at s q)) m r) (RunningCollected (qu_items (fq_at s q)) b) s)" for m r b
    by (rule ran_start [OF assms(1)]) (simp add: collected_run_def Let_def collect_contains)
  moreover have "ran_inv (finish_drain q d s)" by (rule calm_ran [OF quiet_calm [OF quiet_finish [OF assms(2,3)]] assms(1)])
  ultimately show ?thesis unfolding collect_items_def Let_def option.case_eq_if by (simp only: split: if_split) simp
qed

lemma ran_complete:
  assumes "ran_inv s" "drain_at s q = Some d" "set items \<subseteq> set (covered (dr_phase d))" "\<not> running (dr_phase d')"
  shows "ran_inv (tell (Completed q items) (set_drain q d' (shift_items q n s)))"
  unfolding ran_inv_def
proof (intro conjI allI impI)
  have items: "list_all (started_with (fs_log s) q) items"
    using assms(1-3) unfolding ran_inv_def list_all_iff by blast
  fix p items' assume "Completed p items' \<in> set (fs_log (tell (Completed q items) (set_drain q d' (shift_items q n s))))"
  then show "list_all (started_with (fs_log (tell (Completed q items) (set_drain q d' (shift_items q n s)))) p) items'"
    using items assms(1) unfolding ran_inv_def by (auto intro: started_mono)
next
  fix p d'' assume "drain_at (tell (Completed q items) (set_drain q d' (shift_items q n s))) p = Some d''"
  then show "list_all (started_with (fs_log (tell (Completed q items) (set_drain q d' (shift_items q n s)))) p) (covered (dr_phase d''))"
    using assms(1,4) unfolding ran_inv_def by (auto intro: started_mono split: if_splits)
qed

lemma ran_succeeded:
  assumes r: "ran_inv s" and wf: "followup_wf s" and d: "drain_at s q = Some d"
  shows "ran_inv (run_succeeded q d s)"
proof (cases "dr_phase d")
  case (RunningCollected items summary)
  have q: "q < length (fs_queues s)" using wf_drain [OF wf d] by simp
  let ?d = "d\<lparr>dr_phase := Returning False\<rparr>"
  let ?t = "tell (Completed q items) (set_drain q ?d (shift_items q (length items) s))"
  have "ran_inv ?t" using RunningCollected by (intro ran_complete [OF r d]) simp_all
  then have "ran_inv (clear_summary q summary ?t)" by (rule calm_ran [OF calm_clear_summary])
  moreover have "followup_wf (clear_summary q summary ?t)"
    using q wf d by (intro wf_clear_summary wf_tell wf_set_drain [of _ _ d] wf_shift) simp_all
  moreover have "drain_at (clear_summary q summary ?t) q = Some ?d" by simp
  ultimately have "ran_inv (next_iteration q d (clear_summary q summary ?t))"
    using calm_ran [OF quiet_calm [OF quiet_next]] by blast
  then show ?thesis by (simp add: run_succeeded_def RunningCollected set_drain_commute next_forgets_phase)
qed (use r in \<open>simp_all add: run_succeeded_def ran_complete [OF r d]\<close>)

lemma ran_failed:
  assumes "ran_inv s" "followup_wf s" "drain_at s q = Some d"
  shows "ran_inv (run_failed now q d s)"
proof -
  have q: "q < length (fs_queues s)" using wf_drain [OF assms(2,3)] by simp
  let ?s = "tell (Failed q) (set_queue q ((fq_at s q)\<lparr>fq_lastEnqueuedAt := now\<rparr>) s)"
  have "ran_inv ?s" by (rule calm_ran [OF calm_trans [OF calm_queue calm_tell] assms(1)]) simp
  moreover have "followup_wf ?s" "drain_at ?s q = Some d" using assms q by (simp_all add: wf_tell wf_set_queue)
  ultimately show ?thesis unfolding run_failed_def by (blast intro: calm_ran [OF quiet_calm [OF quiet_finish]])
qed

lemma ran_return:
  assumes "ran_inv s" "followup_wf s" "drain_at s q = Some d"
  shows "ran_inv (next_iteration q d (clear_summary q b s))"
proof -
  have "ran_inv (clear_summary q b s)" by (rule calm_ran [OF calm_clear_summary assms(1)])
  moreover have "followup_wf (clear_summary q b s)" "drain_at (clear_summary q b s) q = Some d"
    using wf_drain [OF assms(2,3)] assms by (simp_all add: wf_clear_summary)
  ultimately show ?thesis by (blast intro: calm_ran [OF quiet_calm [OF quiet_next]])
qed

lemma ran_clear_sessions: "ran_inv s \<Longrightarrow> ran_inv (fst (snd (clearSessionQueues keys s c)))"
  by (rule clear_sessions_induct) (auto intro: calm_ran [OF quiet_calm [OF quiet_forget_callback]] calm_ran [OF calm_clear_queue])

lemma ran_step: "ran_inv s \<Longrightarrow> followup_wf s \<Longrightarrow> ran_inv (followup_step known s e)"
  by (cases e)
    (auto simp: with_drain_def calm_ran [OF calm_enqueue] ran_clear_sessions ran_body ran_collect ran_succeeded ran_failed ran_return
      calm_ran [OF quiet_calm [OF quiet_schedule]] calm_ran [OF quiet_calm [OF quiet_refresh]]
      intro: calm_ran [OF quiet_calm [OF quiet_set_drain]] calm_ran [OF quiet_calm [OF quiet_finish]] split: option.splits)

lemma ran_reach: "followup_reach known s \<Longrightarrow> ran_inv s"
proof (induction rule: reach.induct)
  case reach_init
  show ?case by (simp add: ran_inv_def followup_init_def drain_at_def)
next
  case (reach_step s e)
  then show ?case using ran_step wf_reach by blast
qed

end
