(* ===== verification/FollowupDrain.thy ===== *)
theory FollowupDrain
  imports FollowupDelivery
begin

text \<open>
  Keys and progress: as long as no session is cleared a key has one queue and one drain (\<open>tame\<close> steps leave the keys
  alone), and a drain whose runs succeed ends: each of its steps lowers \<open>drain_weight\<close>.
\<close>

section \<open>One queue and one drain for a key\<close>

definition key_inv :: "followup_state \<Rightarrow> bool" where
  "key_inv s \<longleftrightarrow>
     (\<forall>k k' q. jm_get (fs_registry s) k = Some q \<longrightarrow> jm_get (fs_registry s) k' = Some q \<longrightarrow> k = k') \<and>
     (\<forall>q d. drain_at s q = Some d \<longrightarrow> jm_get (fs_registry s) (dr_key d) = Some q) \<and>
     (\<forall>q<length (fs_queues s). has_work (fq_at s q) \<longrightarrow> (\<exists>k. jm_get (fs_registry s) k = Some q))"

lemma key_inv_drain: "key_inv s \<Longrightarrow> drain_at s q = Some d \<Longrightarrow> jm_get (fs_registry s) (dr_key d) = Some q"
  by (simp add: key_inv_def)

lemma key_inv_key: "key_inv s \<Longrightarrow> jm_get (fs_registry s) k = Some q \<Longrightarrow> jm_get (fs_registry s) k' = Some q \<Longrightarrow> k = k'"
  unfolding key_inv_def by blast

lemma key_inv_work: "key_inv s \<Longrightarrow> q < length (fs_queues s) \<Longrightarrow> has_work (fq_at s q) \<Longrightarrow> \<exists>k. jm_get (fs_registry s) k = Some q"
  unfolding key_inv_def by blast

text \<open>Steps that leave the keys alone and give no queue new work.\<close>

definition tame :: "followup_state \<Rightarrow> followup_state \<Rightarrow> bool" where
  "tame s t \<longleftrightarrow> fs_registry t = fs_registry s \<and> length (fs_queues t) = length (fs_queues s) \<and>
     (\<forall>q d. drain_at t q = Some d \<longrightarrow> (\<exists>d'. drain_at s q = Some d' \<and> dr_key d' = dr_key d)) \<and>
     (\<forall>q<length (fs_queues s). has_work (fq_at t q) \<longrightarrow> has_work (fq_at s q))"

lemma tame_keys: "tame s t \<Longrightarrow> key_inv s \<Longrightarrow> key_inv t"
  unfolding tame_def key_inv_def by metis

lemma tame_refl: "tame s s"
  by (simp add: tame_def)

lemma tame_trans: "tame s t \<Longrightarrow> tame t u \<Longrightarrow> tame s u"
  unfolding tame_def by metis

lemma tame_queue: "q < length (fs_queues s) \<Longrightarrow> (has_work x \<Longrightarrow> has_work (fq_at s q)) \<Longrightarrow> tame s (set_queue q x s)"
  by (simp add: tame_def fq_at_set_queue)

lemma tame_drain: "drain_at s q = Some d' \<Longrightarrow> dr_key d' = dr_key d \<Longrightarrow> tame s (set_drain q d s)"
  by (simp add: tame_def)

lemma tame_tell: "tame s (tell e s)"
  by (simp add: tame_def)

lemma tame_recent: "tame s (s\<lparr>fs_recent := c\<rparr>)"
  by (simp add: tame_def)

lemma tame_remember: "tame s (rememberFollowupDrainCallback key cb s)"
  by (simp add: tame_def)

lemma tame_remember_given: "tame s (remember_given key cb s)"
  by (simp add: remember_given_def tame_remember tame_refl split: option.splits)

lemma tame_forget_callback: "tame s (clearFollowupDrainCallback key s)"
  by (simp add: tame_def)

lemma tame_stop: "q < length (fs_queues s) \<Longrightarrow> tame s (stop_drain q s)"
  by (simp add: tame_def)

lemma tame_shift: "q < length (fs_queues s) \<Longrightarrow> tame s (shift_items q n s)"
  unfolding shift_items_def by (rule tame_queue) (auto simp: has_work_def)

lemma tame_clear_summary: "q < length (fs_queues s) \<Longrightarrow> tame s (clear_summary q b s)"
  by (auto simp: clear_summary_def has_work_def clearQueueSummaryState_def intro: tame_queue tame_refl)

lemma tame_start: "drain_at s q = Some d' \<Longrightarrow> dr_key d' = dr_key d \<Longrightarrow> tame s (start_run q d run ph s)"
  unfolding start_run_def by (rule tame_trans [OF tame_drain [of _ _ d'] tame_tell]) simp_all

lemma tame_drain_next: "drain_at s q = Some d' \<Longrightarrow> dr_key d' = dr_key d \<Longrightarrow> tame s (drainNextQueueItem q d f g s)"
  using tame_start [of s q d' d] tame_drain [of s q d' "d\<lparr>dr_phase := Breaking\<rparr>"]
  by (cases "qu_items (fq_at s q)") (simp_all add: drainNextQueueItem_def)

text \<open>A key is forgotten when its queue has no work and no drain.\<close>

lemma keys_forget:
  assumes "key_inv s" "jm_get (fs_registry s) key = Some q" "\<not> has_work (fq_at s q)" "drain_at s q = None"
  shows "key_inv (forget_key key s)"
  unfolding key_inv_def
proof (intro conjI allI impI)
  fix k k' p assume "jm_get (fs_registry (forget_key key s)) k = Some p" "jm_get (fs_registry (forget_key key s)) k' = Some p"
  then show "k = k'" using key_inv_key [OF assms(1), of k p k'] by (simp split: if_splits)
next
  fix p d assume "drain_at (forget_key key s) p = Some d"
  then have "drain_at s p = Some d" by simp
  from key_inv_drain [OF assms(1) this] show "jm_get (fs_registry (forget_key key s)) (dr_key d) = Some p"
    using assms(2,4) \<open>drain_at s p = Some d\<close> by auto
next
  fix p assume p: "p < length (fs_queues (forget_key key s))" "has_work (fq_at (forget_key key s) p)"
  then have "p < length (fs_queues s)" "has_work (fq_at s p)" by simp_all
  from key_inv_work [OF assms(1) this] obtain k where "jm_get (fs_registry s) k = Some p" by blast
  moreover have "p \<noteq> q" using assms(3) p by auto
  ultimately show "\<exists>k. jm_get (fs_registry (forget_key key s)) k = Some p" using assms(2) by (intro exI [of _ k]) auto
qed

lemma keys_set_drain:
  assumes "key_inv s" "jm_get (fs_registry s) (dr_key d) = Some q"
  shows "key_inv (set_drain q d s)"
  using assms unfolding key_inv_def by simp

lemma keys_schedule:
  assumes wf: "followup_wf s" and k: "key_inv s"
  shows "key_inv (scheduleFollowupDrain key cb s)"
proof (cases rule: schedule_cases [OF wf, of key cb])
  case (2 q)
  have q: "q < length (fs_queues s)" using wf_registry [OF wf 2(1)] .
  show ?thesis unfolding 2(4) Let_def
    by (intro keys_set_drain tame_keys [OF tame_remember] tame_keys [OF tame_queue [OF q] k]) (use 2(1) in simp_all)
next
  case (3 q)
  then have "drain_at s q = None" using wf_idle [OF wf wf_registry [OF wf 3(1)]] by simp
  with 3 show ?thesis by (simp add: keys_forget [OF k])
qed (use k in simp)

lemma keys_kick_if: "followup_wf s \<Longrightarrow> key_inv s \<Longrightarrow> key_inv (kick_if b key s)"
  by (simp add: kick_if_def kickFollowupDrainIfIdle_def keys_schedule split: option.splits)

lemma keys_finish:
  assumes wf: "followup_wf s" and k: "key_inv s" and d: "drain_at s q = Some d'" "dr_key d' = dr_key d"
  shows "key_inv (finish_drain q d s)"
proof -
  have q: "q < length (fs_queues s)" using wf_drain [OF wf d(1)] by simp
  have k1: "key_inv (stop_drain q s)" by (rule tame_keys [OF tame_stop [OF q] k])
  have "jm_get (fs_registry (stop_drain q s)) (dr_key d) = Some q" using key_inv_drain [OF k d(1)] d(2) by simp
  then have "\<not> has_work (fq_at s q) \<Longrightarrow> key_inv (forget_key (dr_key d) (stop_drain q s))"
    using q by (intro keys_forget [OF k1, of _ q]) simp_all
  then show ?thesis unfolding finish_drain_eq [OF q] using keys_schedule [OF wf_stop [OF wf q] k1] by simp
qed

lemma keys_next:
  assumes "followup_wf s" "key_inv s" "drain_at s q = Some d'" "dr_key d' = dr_key d"
  shows "key_inv (next_iteration q d s)"
  using assms keys_finish [OF assms] tame_keys [OF tame_drain [OF assms(3), of "d\<lparr>dr_phase := debounce_phase (fq_at s q)\<rparr>"]]
  by (simp add: next_iteration_def)

lemma keys_body:
  assumes "followup_wf s" "key_inv s" "drain_at s q = Some d"
  shows "key_inv (drain_body known now q d s)"
  using assms
  by (auto simp: drain_body_def drainCollectQueueStep_def Let_def split: option.splits
      intro: tame_keys [OF tame_drain_next] tame_keys [OF tame_drain] keys_finish)

lemma keys_collect:
  assumes "followup_wf s" "key_inv s" "drain_at s q = Some d"
  shows "key_inv (collect_items now q d s)"
  using assms
  by (auto simp: collect_items_def Let_def split: option.splits intro: tame_keys [OF tame_start] keys_finish)

lemma keys_return:
  assumes "followup_wf s" "key_inv s" "drain_at s q = Some d"
  shows "key_inv (next_iteration q d (clear_summary q b s))"
proof -
  have q: "q < length (fs_queues s)" using wf_drain [OF assms(1,3)] by simp
  show ?thesis
    by (rule keys_next [OF wf_clear_summary [OF assms(1) q] tame_keys [OF tame_clear_summary [OF q] assms(2)]]) (simp_all add: assms(3))
qed

lemma keys_succeeded:
  assumes wf: "followup_wf s" and k: "key_inv s" and d: "drain_at s q = Some d"
  shows "key_inv (run_succeeded q d s)"
proof -
  have q: "q < length (fs_queues s)" using wf_drain [OF wf d] by simp
  have shift: "tame s (tell e (shift_items q n s))" for e n by (rule tame_trans [OF tame_shift [OF q] tame_tell])
  have item: "key_inv (tell e (set_drain q (d\<lparr>dr_phase := ph\<rparr>) (shift_items q n s)))" for e ph n
    by (rule tame_keys [OF tame_trans [OF tame_shift [OF q] tame_trans [OF tame_drain [of _ _ d] tame_tell]] k]) (simp_all add: d)
  have coll: "key_inv (next_iteration q d (clear_summary q b (tell e (shift_items q n s))))" for b e n
    by (rule keys_next [of _ _ d])
      (simp_all add: wf_clear_summary wf_tell wf_shift wf q d tame_keys [OF tame_trans [OF shift tame_clear_summary] k])
  show ?thesis using item coll k by (simp add: run_succeeded_def split: drain_phase.splits)
qed

lemma keys_failed:
  assumes wf: "followup_wf s" and k: "key_inv s" and d: "drain_at s q = Some d"
  shows "key_inv (run_failed now q d s)"
proof -
  have q: "q < length (fs_queues s)" using wf_drain [OF wf d] by simp
  let ?s = "tell (Failed q) (set_queue q ((fq_at s q)\<lparr>fq_lastEnqueuedAt := now\<rparr>) s)"
  have "key_inv ?s" by (rule tame_keys [OF tame_trans [OF tame_queue [OF q] tame_tell] k]) (simp add: has_work_def)
  then show ?thesis unfolding run_failed_def
    using wf q d by (intro keys_finish [of _ _ d]) (simp_all add: wf_tell wf_set_queue)
qed

lemma keys_get_queue:
  assumes wf: "followup_wf s" and k: "key_inv s" and get: "getFollowupQueue key settings s = (q, s1)"
  shows "key_inv s1"
proof (cases rule: get_queue_cases [OF wf, of key settings])
  case (1 p)
  then show ?thesis using get tame_keys [OF tame_queue [of p s "applyQueueRuntimeSettings settings (fq_at s p)"] k]
    by (simp add: has_work_def)
next
  case 2
  let ?n = "length (fs_queues s)"
  let ?queue = "applyQueueRuntimeSettings settings (created_queue settings)"
  have s1: "s1 = add_queue key ?queue s" using 2 get by simp
  have fresh: "jm_get (fs_registry s) k' \<noteq> Some ?n" for k' using wf_registry [OF wf, of k' ?n] by auto
  show ?thesis unfolding s1 key_inv_def
  proof (intro conjI allI impI)
    fix k1 k2 p assume "jm_get (fs_registry (add_queue key ?queue s)) k1 = Some p" "jm_get (fs_registry (add_queue key ?queue s)) k2 = Some p"
    then show "k1 = k2" using key_inv_key [OF k, of k1 p k2] fresh by (auto split: if_splits)
  next
    fix p d assume "drain_at (add_queue key ?queue s) p = Some d"
    then have "jm_get (fs_registry s) (dr_key d) = Some p" using key_inv_drain [OF k] by simp
    then show "jm_get (fs_registry (add_queue key ?queue s)) (dr_key d) = Some p" using 2(1) by auto
  next
    fix p assume p: "p < length (fs_queues (add_queue key ?queue s))" "has_work (fq_at (add_queue key ?queue s) p)"
    show "\<exists>k. jm_get (fs_registry (add_queue key ?queue s)) k = Some p"
    proof (cases "p = ?n")
      case False
      then have "p < ?n" using p(1) by simp
      then obtain k' where "jm_get (fs_registry s) k' = Some p" using key_inv_work [OF k] p(2) by auto
      then show ?thesis using 2(1) by (intro exI [of _ k']) auto
    qed auto
  qed
qed

lemma keys_enqueue:
  assumes wf: "followup_wf s" and k: "key_inv s"
  shows "key_inv (snd (enqueueFollowupRun now key run settings mode cb restart s))"
proof (cases rule: enqueue_cases [OF wf, of key settings now run mode cb restart])
  case (1 q s1 c queue)
  note s1 = wf_get_queue [OF wf 1(1)]
  have "tame s1 (set_queue q queue (s1\<lparr>fs_recent := c\<rparr>))"
    using 1 s1 by (intro tame_trans [OF tame_recent tame_queue]) (simp_all add: has_work_def)
  then show ?thesis unfolding 1(5) snd_conv by (rule tame_keys [OF _ keys_get_queue [OF wf k 1(1)]])
next
  case (2 q s1 c queue c' b)
  note s1 = wf_get_queue [OF wf 2(1)]
  let ?s = "s1\<lparr>fs_recent := c\<rparr>"
  let ?t = "add_item q run queue ?s"
  have k1: "key_inv ?s" by (rule tame_keys [OF tame_recent keys_get_queue [OF wf k 2(1)]])
  have "key_inv ?t" using k1 s1 unfolding key_inv_def by auto
  then have ku: "key_inv (remember_given key cb (?t\<lparr>fs_recent := c'\<rparr>))"
    by (rule tame_keys [OF tame_trans [OF tame_recent tame_remember_given]])
  have "followup_wf ?t" using s1 2(2) by (simp add: wf_add_item wf_recent makes_room_def)
  then show ?thesis unfolding 2(3) snd_conv by (intro keys_kick_if [OF _ ku]) (simp add: wf_remember_given wf_recent)
qed

lemma keys_refresh: "followup_wf s \<Longrightarrow> key_inv s \<Longrightarrow> key_inv (refreshQueuedFollowupSession p s)"
  by (cases rule: refresh_cases [of p s])
    (auto intro!: tame_keys [OF tame_queue] dest: wf_registry simp: has_work_def)

text \<open>The log grows.\<close>

fun clears :: "followup_effect \<Rightarrow> bool" where
  "clears (Cleared _) \<longleftrightarrow> True"
| "clears _ \<longleftrightarrow> False"

definition never_cleared :: "followup_state \<Rightarrow> bool" where
  "never_cleared s \<longleftrightarrow> \<not> list_ex clears (fs_log s)"

lemma never_cleared_iff: "never_cleared s \<longleftrightarrow> (\<forall>q. Cleared q \<notin> set (fs_log s))"
proof -
  have "clears e \<longleftrightarrow> (\<exists>q. e = Cleared q)" for e by (cases e) simp_all
  then show ?thesis by (auto simp: never_cleared_def list_ex_iff)
qed

definition log_grows :: "followup_state \<Rightarrow> followup_state \<Rightarrow> bool" where
  "log_grows s t \<longleftrightarrow> (\<exists>es. fs_log t = fs_log s @ es)"

lemma calm_grows: "calm s t \<Longrightarrow> log_grows s t"
  by (auto simp: calm_def log_grows_def)

lemma log_grows_trans: "log_grows s t \<Longrightarrow> log_grows t u \<Longrightarrow> log_grows s u"
  by (auto simp: log_grows_def)

lemma log_grows_refl: "log_grows s s"
  by (simp add: log_grows_def)

lemma grows_drain_next: "log_grows s (drainNextQueueItem q d f g s)"
  by (auto simp: drainNextQueueItem_def start_run_def log_grows_def split: list.splits)

lemma grows_body: "followup_wf s \<Longrightarrow> drain_at s q = Some d \<Longrightarrow> log_grows s (drain_body known now q d s)"
  using calm_grows [OF quiet_calm [OF quiet_finish]]
  by (auto simp: drain_body_def drainCollectQueueStep_def Let_def grows_drain_next split: option.splits)
    (auto simp: log_grows_def)

lemma grows_collect: "followup_wf s \<Longrightarrow> drain_at s q = Some d \<Longrightarrow> log_grows s (collect_items now q d s)"
  using calm_grows [OF quiet_calm [OF quiet_finish]]
  by (auto simp: collect_items_def Let_def start_run_def split: option.splits) (auto simp: log_grows_def)

lemma grows_succeeded:
  assumes wf: "followup_wf s" and d: "drain_at s q = Some d"
  shows "log_grows s (run_succeeded q d s)"
proof -
  have q: "q < length (fs_queues s)" using wf_drain [OF wf d] by simp
  have "log_grows s (next_iteration q d (clear_summary q b (tell e (shift_items q n s))))" for b e n
  proof (rule log_grows_trans [OF _ calm_grows [OF quiet_calm [OF quiet_next]]])
    show "log_grows s (clear_summary q b (tell e (shift_items q n s)))" by (simp add: log_grows_def)
    show "followup_wf (clear_summary q b (tell e (shift_items q n s)))" using wf q by (simp add: wf_clear_summary wf_tell wf_shift)
    show "drain_at (clear_summary q b (tell e (shift_items q n s))) q = Some d" using d by simp
  qed
  then show ?thesis by (auto simp: run_succeeded_def log_grows_refl split: drain_phase.splits) (auto simp: log_grows_def)
qed

lemma grows_failed:
  assumes wf: "followup_wf s" and d: "drain_at s q = Some d"
  shows "log_grows s (run_failed now q d s)"
  unfolding run_failed_def
proof (rule log_grows_trans [OF _ calm_grows [OF quiet_calm [OF quiet_finish]]])
  have q: "q < length (fs_queues s)" using wf_drain [OF wf d] by simp
  let ?s = "tell (Failed q) (set_queue q ((fq_at s q)\<lparr>fq_lastEnqueuedAt := now\<rparr>) s)"
  show "log_grows s ?s" by (simp add: log_grows_def)
  show "followup_wf ?s" using wf q by (simp add: wf_tell wf_set_queue)
  show "drain_at ?s q = Some d" using d by simp
qed

lemma grows_return:
  assumes wf: "followup_wf s" and d: "drain_at s q = Some d"
  shows "log_grows s (next_iteration q d (clear_summary q b s))"
proof (rule log_grows_trans [OF _ calm_grows [OF quiet_calm [OF quiet_next]]])
  show "log_grows s (clear_summary q b s)" by (simp add: log_grows_def)
  show "followup_wf (clear_summary q b s)" using wf wf_drain [OF wf d] by (simp add: wf_clear_summary)
  show "drain_at (clear_summary q b s) q = Some d" using d by simp
qed

lemma grows_clear_sessions: "log_grows s (fst (snd (clearSessionQueues keys s c)))"
  by (rule clear_sessions_induct [where P = "log_grows s"])
    (auto intro: log_grows_refl log_grows_trans [OF _ log_grows_trans [OF calm_grows [OF calm_clear_queue] calm_grows [OF quiet_calm [OF quiet_forget_callback]]]])

lemma grows_step: "followup_wf s \<Longrightarrow> log_grows s (followup_step known s e)"
  by (cases e)
    (auto simp: with_drain_def log_grows_refl calm_grows [OF calm_enqueue] grows_clear_sessions grows_body grows_collect
      grows_succeeded grows_failed grows_return calm_grows [OF quiet_calm [OF quiet_schedule]] calm_grows [OF quiet_calm [OF quiet_refresh]]
      intro: calm_grows [OF quiet_calm [OF quiet_set_drain]] calm_grows [OF quiet_calm [OF quiet_finish]] split: option.splits)

lemma never_cleared_before: "log_grows s t \<Longrightarrow> never_cleared t \<Longrightarrow> never_cleared s"
  by (auto simp: log_grows_def never_cleared_iff)

lemma keys_clear_sessions:
  assumes "key_inv s" "never_cleared (fst (snd (clearSessionQueues keys s c)))"
  shows "key_inv (fst (snd (clearSessionQueues keys s c)))"
proof -
  let ?P = "\<lambda>t. never_cleared t \<longrightarrow> key_inv t"
  have "?P (fst (snd (clearSessionQueues keys s c)))"
  proof (rule clear_sessions_induct)
    show "?P s" using assms(1) by simp
    fix t key assume t: "?P t"
    show "?P (clearFollowupDrainCallback key (snd (clearFollowupQueue key t)))"
    proof (cases rule: clear_queue_cases [of key t])
      case none
      then show ?thesis using t tame_keys [OF tame_forget_callback] by (simp add: never_cleared_iff)
    qed (auto simp: never_cleared_iff)
  qed
  then show ?thesis using assms(2) by simp
qed

lemma keys_reach: "followup_reach known s \<Longrightarrow> never_cleared s \<longrightarrow> key_inv s"
proof (induction rule: reach.induct)
  case reach_init
  show ?case by (simp add: key_inv_def followup_init_def drain_at_def)
next
  case (reach_step s e)
  have wf: "followup_wf s" using wf_reach reach_step.hyps(1) by blast
  show ?case
  proof
    assume nc: "never_cleared (followup_step known s e)"
    then have k: "key_inv s" using never_cleared_before [OF grows_step [OF wf]] reach_step.IH by blast
    show "key_inv (followup_step known s e)"
    proof (cases e)
      case (ClearSessions keys)
      then show ?thesis using keys_clear_sessions [OF k] nc by simp
    qed (use wf k in \<open>auto simp: with_drain_def keys_enqueue keys_schedule keys_body keys_collect keys_succeeded keys_failed
        keys_return keys_refresh intro: tame_keys [OF tame_drain] keys_finish split: option.splits\<close>)
  qed
qed

section \<open>Drains come to an end\<close>

text \<open>The step a drain takes next, if its runs succeed.\<close>

definition next_event :: "followup_state \<Rightarrow> nat \<Rightarrow> drain \<Rightarrow> followup_event" where
  "next_event s q d = (case dr_phase d of
       Debouncing ms \<Rightarrow> DebounceCheck q (fq_lastEnqueuedAt (fq_at s q) + \<lceil>ms\<rceil>)
     | Debounced \<Rightarrow> DrainBody q 0
     | Collecting \<Rightarrow> CollectItems q 0
     | Returning _ \<Rightarrow> Return q
     | Breaking \<Rightarrow> BreakLoop q
     | _ \<Rightarrow> RunSucceeded q)"

fun drain_event :: "nat \<Rightarrow> followup_event \<Rightarrow> bool" where
  "drain_event q (DebounceCheck p _) \<longleftrightarrow> p = q"
| "drain_event q (DrainBody p _) \<longleftrightarrow> p = q"
| "drain_event q (CollectItems p _) \<longleftrightarrow> p = q"
| "drain_event q (RunSucceeded p) \<longleftrightarrow> p = q"
| "drain_event q (Return p) \<longleftrightarrow> p = q"
| "drain_event q (BreakLoop p) \<longleftrightarrow> p = q"
| "drain_event q _ \<longleftrightarrow> False"

lemma next_event_drain [simp]: "drain_event q (next_event s q d)"
  by (simp add: next_event_def split: drain_phase.split)

lemma next_event_enabled: "drain_at s q = Some d \<Longrightarrow> followup_enabled s (next_event s q d)"
proof -
  have ceil: "x \<le> of_int n + of_int (\<lceil>x\<rceil> - n)" for x :: rat and n by simp
  have ret: "b = True \<or> b = False" for b by blast
  assume "drain_at s q = Some d"
  then show ?thesis by (cases "dr_phase d") (auto simp: next_event_def)
qed

text \<open>How many steps are left, by the number of items and the phase.\<close>

fun phase_weight :: "nat \<Rightarrow> drain_phase \<Rightarrow> nat" where
  "phase_weight n (Debouncing _) = (if n = 0 then 9 else 5 * n + 4)"
| "phase_weight n Debounced = (if n = 0 then 8 else 5 * n + 3)"
| "phase_weight n Collecting = (if n = 0 then 7 else 5 * n + 2)"
| "phase_weight n (RunningCollected items _) = (if n = 0 then 6 else if items = [] then 5 * n + 6 else 5 * n + 1)"
| "phase_weight n (Returning _) = 5 * n + 5"
| "phase_weight n Breaking = 5 * n + 5"
| "phase_weight n _ = (if n = 0 then 6 else 5 * n + 1)"

lemma phase_weight_bound: "phase_weight n ph \<le> 5 * n + 9"
  by (cases ph) auto

definition drain_weight :: "followup_state \<Rightarrow> nat \<Rightarrow> nat" where
  "drain_weight s q = (case drain_at s q of None \<Rightarrow> 0 | Some d \<Rightarrow> phase_weight (length (qu_items (fq_at s q))) (dr_phase d))"

text \<open>What is used of a queue that nothing was dropped from.\<close>

definition drain_ready :: "followup_state \<Rightarrow> nat \<Rightarrow> drain \<Rightarrow> bool" where
  "drain_ready s q d \<longleftrightarrow> q < length (fs_queues s) \<and> followup_wf s \<and> su_droppedCount (fq_at s q) = 0 \<and>
     jm_get (fs_registry s) (dr_key d) = Some q"

lemma work_items: "su_droppedCount queue = 0 \<Longrightarrow> has_work queue \<longleftrightarrow> qu_items queue \<noteq> []"
  by (simp add: has_work_def)

lemma debounce_weight: "n > 0 \<Longrightarrow> phase_weight n (debounce_phase queue) \<le> 5 * n + 4"
  by (simp add: debounce_phase_def Let_def)

definition settled_at :: "followup_state \<Rightarrow> nat \<Rightarrow> nat \<Rightarrow> bool" where
  "settled_at t q w \<longleftrightarrow> (drain_at t q = None \<and> qu_items (fq_at t q) = []) \<or> (drain_at t q \<noteq> None \<and> drain_weight t q < w)"

lemma finish_settles:
  assumes "drain_ready s q d" "5 * length (qu_items (fq_at s q)) + 4 < w \<or> qu_items (fq_at s q) = []"
  shows "settled_at (finish_drain q d s) q w"
proof -
  have q: "q < length (fs_queues s)" and wf: "followup_wf s" and z: "su_droppedCount (fq_at s q) = 0"
    and reg: "jm_get (fs_registry s) (dr_key d) = Some q" using assms(1) by (simp_all add: drain_ready_def)
  show ?thesis
  proof (cases "qu_items (fq_at s q) = []")
    case True
    then show ?thesis using q z by (simp add: settled_at_def finish_drain_eq has_work_def)
  next
    case False
    let ?s = "stop_drain q s"
    have wf1: "followup_wf ?s" by (rule wf_stop [OF wf q])
    have work: "has_work (fq_at s q)" using False by (simp add: has_work_def)
    have fin: "finish_drain q d s = scheduleFollowupDrain (dr_key d) (dr_callback d) ?s"
      using work by (simp add: finish_drain_eq [OF q])
    show ?thesis
    proof (cases rule: schedule_cases [OF wf1, of "dr_key d" "dr_callback d"])
      case 1
      then show ?thesis using reg q by simp
    next
      case (2 p)
      then have "p = q" using reg by simp
      then show ?thesis using 2(4) fin q assms(2) False
          debounce_weight [of "length (qu_items (fq_at s q))" "(fq_at s q)\<lparr>fq_draining := True\<rparr>"]
        by (auto simp: Let_def settled_at_def drain_weight_def fq_at_set_queue)
    next
      case (3 p)
      then show ?thesis using reg q work by simp
    qed
  qed
qed

lemma next_settles:
  assumes "drain_ready s q d" "5 * length (qu_items (fq_at s q)) + 4 < w \<or> qu_items (fq_at s q) = []"
  shows "settled_at (next_iteration q d s) q w"
proof (cases "qu_items (fq_at s q) = []")
  case True
  with assms have "\<not> has_work (fq_at s q)" by (simp add: drain_ready_def has_work_def)
  then show ?thesis using finish_settles [OF assms] by (simp add: next_iteration_def)
next
  case False
  then have "has_work (fq_at s q)" by (simp add: has_work_def)
  then show ?thesis using False assms(2) debounce_weight [of "length (qu_items (fq_at s q))" "fq_at s q"]
    by (auto simp: next_iteration_def settled_at_def drain_weight_def)
qed

lemma registry_shift [simp]: "fs_registry (shift_items q n s) = fs_registry s" "fs_registry (clear_summary q b s) = fs_registry s"
  by (simp_all add: shift_items_def clear_summary_def)

lemma keys_step:
  assumes wf: "followup_wf s" and k: "key_inv s" and nc: "never_cleared (followup_step known s e)"
  shows "key_inv (followup_step known s e)"
proof (cases e)
  case (ClearSessions keys)
  then show ?thesis using keys_clear_sessions [OF k] nc by simp
qed (use wf k in \<open>auto simp: with_drain_def keys_enqueue keys_schedule keys_body keys_collect keys_succeeded keys_failed
        keys_return keys_refresh intro: tame_keys [OF tame_drain] keys_finish split: option.splits\<close>)

text \<open>A drain adds to the log only what it starts and completes.\<close>

fun mild :: "followup_effect \<Rightarrow> bool" where
  "mild (Started _ _ _ _) \<longleftrightarrow> True"
| "mild (Completed _ _) \<longleftrightarrow> True"
| "mild _ \<longleftrightarrow> False"

definition mildly :: "followup_state \<Rightarrow> followup_state \<Rightarrow> bool" where
  "mildly s t \<longleftrightarrow> (\<exists>es. fs_log t = fs_log s @ es \<and> list_all mild es)"

lemma quiet_mildly: "quiet s t \<Longrightarrow> mildly s t"
  by (simp add: quiet_def mildly_def)

lemma mildly_trans: "mildly s t \<Longrightarrow> mildly t u \<Longrightarrow> mildly s u"
  by (auto simp: mildly_def)

lemma mildly_effects: "list_all mild es \<Longrightarrow> list_all (spares q) es \<and> concat (map (queued_in q) es) = [] \<and> (\<forall>p. Cleared p \<notin> set es)"
proof (induction es)
  case (Cons e es)
  then show ?case by (cases e) auto
qed simp

lemma mildly_keeps:
  assumes "mildly s t"
  shows "untouched q s \<Longrightarrow> untouched q t" "never_cleared s \<Longrightarrow> never_cleared t" "queued_messages q t = queued_messages q s"
proof -
  from assms obtain es where log: "fs_log t = fs_log s @ es" and m: "list_all mild es" by (auto simp: mildly_def)
  note e = mildly_effects [OF m, of q]
  show "untouched q s \<Longrightarrow> untouched q t" using e by (simp add: untouched_def log)
  show "never_cleared s \<Longrightarrow> never_cleared t" using e by (simp add: never_cleared_iff log)
  show "queued_messages q t = queued_messages q s" using e by (simp add: queued_messages_def log del: concat_eq_Nil_conv)
qed

lemma mildly_drain_next: "mildly s (drainNextQueueItem q d f g s)"
  by (auto simp: drainNextQueueItem_def start_run_def mildly_def split: list.splits)

lemma mildly_set_drain: "mildly s (set_drain q d s)"
  by (simp add: mildly_def)

lemma mildly_next:
  assumes "followup_wf s" "drain_at s q = Some d" "q < length (fs_queues s)"
  shows "mildly s (next_iteration q d (clear_summary q b s))"
proof (rule mildly_trans [OF _ quiet_mildly [OF quiet_next]])
  show "mildly s (clear_summary q b s)" by (simp add: mildly_def)
  show "followup_wf (clear_summary q b s)" using assms by (simp add: wf_clear_summary)
  show "drain_at (clear_summary q b s) q = Some d" using assms by simp
qed

lemma mildly_succeeded:
  assumes wf: "followup_wf s" and d: "drain_at s q = Some d"
  shows "mildly s (run_succeeded q d s)"
proof -
  have q: "q < length (fs_queues s)" using wf_drain [OF wf d] by simp
  have "mildly s (tell (Completed q items) (shift_items q n s))" for items n by (simp add: mildly_def)
  moreover have "mildly (tell e (shift_items q n s)) (next_iteration q d (clear_summary q b (tell e (shift_items q n s))))" for b e n
    using wf q d by (intro mildly_next) (simp_all add: wf_tell wf_shift)
  ultimately have "mildly s (next_iteration q d (clear_summary q b (tell (Completed q items) (shift_items q n s))))" for b items n
    using mildly_trans by blast
  then show ?thesis by (auto simp: run_succeeded_def split: drain_phase.splits) (auto simp: mildly_def)
qed

lemma mildly_step:
  assumes "followup_wf s" "drain_event q e"
  shows "mildly s (followup_step known s e)"
proof -
  have refl: "mildly s s" by (simp add: mildly_def)
  show ?thesis
  proof (cases "drain_at s q")
    case None
    then show ?thesis using assms(2) refl by (cases e) (auto simp: with_drain_def)
  next
    case (Some d)
    note fin = quiet_mildly [OF quiet_finish [OF assms(1) Some]]
    have q: "q < length (fs_queues s)" using wf_drain [OF assms(1) Some] by simp
    have "mildly s (drain_body known now q d s)" for now
      using fin mildly_drain_next mildly_set_drain
      by (simp add: drain_body_def drainCollectQueueStep_def Let_def split: option.split)
    moreover have "mildly s (start_run q d r ph s)" for r ph by (simp add: start_run_def mildly_def)
    then have "mildly s (collect_items now q d s)" for now
      using fin by (simp add: collect_items_def Let_def split: option.split)
    ultimately show ?thesis
      using assms(2) Some fin mildly_set_drain mildly_succeeded [OF assms(1) Some] mildly_next [OF assms(1) Some q]
      by (cases e) (auto simp: with_drain_def)
  qed
qed

text \<open>A queue that is well kept and that lost nothing.\<close>

definition sound_queue :: "followup_state \<Rightarrow> nat \<Rightarrow> bool" where
  "sound_queue s q \<longleftrightarrow> delivery_inv s \<and> followup_wf s \<and> key_inv s \<and> never_cleared s \<and> untouched q s"

lemma sound_step: "sound_queue s q \<Longrightarrow> drain_event q e \<Longrightarrow> sound_queue (followup_step known s e) q"
  using mildly_keeps [OF mildly_step [of s q e known]] by (simp add: sound_queue_def delivery_step wf_step keys_step)

lemma sound_ready:
  assumes "sound_queue s q" "drain_at s q = Some d"
  shows "drain_ready s q d" "phase_ok (waiting_messages q s) (dr_phase d)"
proof -
  have wf: "followup_wf s" and inv: "delivery_inv s" and k: "key_inv s" and un: "untouched q s"
    using assms(1) by (simp_all add: sound_queue_def)
  have q: "q < length (fs_queues s)" using wf_drain [OF wf assms(2)] by simp
  have ok: "queue_ok s q" by (rule delivery_queue [OF inv q])
  then show "phase_ok (waiting_messages q s) (dr_phase d)" using un assms(2) by (simp add: queue_ok_def)
  show "drain_ready s q d"
    using q wf ok un key_inv_drain [OF k assms(2)] by (simp add: drain_ready_def queue_ok_def)
qed

lemma items_waiting: "qu_items (fq_at s q) = [] \<longleftrightarrow> waiting_messages q s = []"
  "length (qu_items (fq_at s q)) = length (waiting_messages q s)"
  by (simp_all add: waiting_messages_def)

lemma drain_next_settles:
  assumes "5 * length (qu_items (fq_at s q)) + 1 < w" "qu_items (fq_at s q) = [] \<Longrightarrow> 5 < w"
  shows "settled_at (drainNextQueueItem q d id RunningItem s) q w"
  using assms by (cases "qu_items (fq_at s q)") (auto simp: drainNextQueueItem_def settled_at_def drain_weight_def start_run_def)

lemma body_settles:
  assumes "sound_queue s q" "drain_at s q = Some d" "dr_phase d = Debounced"
  shows "settled_at (drain_body known now q d s) q (drain_weight s q)"
proof -
  have z: "su_droppedCount (fq_at s q) = 0" using sound_ready(1) [OF assms(1,2)] by (simp add: drain_ready_def)
  have w: "drain_weight s q = (if qu_items (fq_at s q) = [] then 8 else 5 * length (qu_items (fq_at s q)) + 3)"
    using assms by (simp add: drain_weight_def)
  then have item: "settled_at (drainNextQueueItem q e id RunningItem s) q (drain_weight s q)" for e
    by (intro drain_next_settles) simp_all
  have coll: "settled_at (set_drain q (e\<lparr>dr_phase := Collecting\<rparr>) s) q (drain_weight s q)" for e
    using w by (simp add: settled_at_def) (simp add: drain_weight_def)
  show ?thesis
    using item coll drain_body_summary [OF z] by (simp add: drain_body_def drainCollectQueueStep_def Let_def)
qed

lemma collect_settles:
  assumes "sound_queue s q" "drain_at s q = Some d" "dr_phase d = Collecting"
  shows "settled_at (collect_items now q d s) q (drain_weight s q)"
proof -
  note ready = sound_ready(1) [OF assms(1,2)]
  have z: "su_droppedCount (fq_at s q) = 0" using ready by (simp add: drain_ready_def)
  show ?thesis
  proof (cases "qu_items (fq_at s q) = [] \<and> fq_lastRun (fq_at s q) = None")
    case True
    then show ?thesis using finish_settles [OF ready] by (simp add: collect_items_def Let_def)
  next
    case False
    then have "\<exists>r. collect_items now q d s = start_run q d r (RunningCollected (qu_items (fq_at s q)) False) s"
      by (auto simp: collect_items_def Let_def drain_body_summary [OF z])
    then show ?thesis using assms by (auto simp: settled_at_def drain_weight_def start_run_def)
  qed
qed

lemma ready_more:
  assumes "drain_ready s q d" "fs_registry t = fs_registry s" "length (fs_queues t) = length (fs_queues s)" "followup_wf t"
    "su_droppedCount (fq_at t q) = 0"
  shows "drain_ready t q d"
  using assms by (simp add: drain_ready_def)

lemma succeeded_settles:
  assumes "sound_queue s q" "drain_at s q = Some d" "running (dr_phase d)"
  shows "settled_at (run_succeeded q d s) q (drain_weight s q)"
proof -
  note ready = sound_ready(1) [OF assms(1,2)] and ok = sound_ready(2) [OF assms(1,2)]
  have q: "q < length (fs_queues s)" and wf: "followup_wf s" and z: "su_droppedCount (fq_at s q) = 0"
    using ready by (simp_all add: drain_ready_def)
  let ?n = "length (qu_items (fq_at s q))"
  show ?thesis
  proof (cases "dr_phase d")
    case (RunningItem item)
    then have "?n > 0" using ok items_waiting [of s q] by (cases "waiting_messages q s") auto
    then obtain x xs where "qu_items (fq_at s q) = x # xs" by (cases "qu_items (fq_at s q)") auto
    then show ?thesis using q assms(2) RunningItem
      by (auto simp: run_succeeded_def settled_at_def drain_weight_def)
  next
    case (RunningCollected items summary)
    then have nosum: "\<not> summary" and "take (length items) (waiting_messages q s) = map message items" using ok by auto
    from arg_cong [OF this(2), of length] have len: "length items \<le> ?n" by (simp add: items_waiting)
    let ?t = "tell (Completed q items) (shift_items q (length items) s)"
    have t: "drain_ready ?t q d"
      by (rule ready_more [OF ready]) (use q wf z in \<open>simp_all add: wf_tell wf_shift\<close>)
    have left: "length (qu_items (fq_at ?t q)) = ?n - length items" using q by simp
    have w: "drain_weight s q = (if ?n = 0 then 6 else if items = [] then 5 * ?n + 6 else 5 * ?n + 1)"
      using assms(2) RunningCollected by (simp add: drain_weight_def)
    have "5 * length (qu_items (fq_at ?t q)) + 4 < drain_weight s q \<or> qu_items (fq_at ?t q) = []"
      unfolding left w using len by (cases items) auto
    from next_settles [OF t this] show ?thesis
      by (simp add: run_succeeded_def RunningCollected nosum clear_summary_def)
  qed (use assms(3) ok in auto)
qed

lemma progress:
  assumes "sound_queue s q" "drain_at s q = Some d"
  shows "settled_at (followup_step known s (next_event s q d)) q (drain_weight s q)"
proof -
  note ready = sound_ready(1) [OF assms]
  have q: "q < length (fs_queues s)" and wf: "followup_wf s" and z: "su_droppedCount (fq_at s q) = 0"
    using ready by (simp_all add: drain_ready_def)
  show ?thesis
  proof (cases "dr_phase d")
    case (Debouncing ms)
    then show ?thesis using assms(2) by (simp add: next_event_def with_drain_def settled_at_def drain_weight_def)
  next
    case Debounced
    then show ?thesis using body_settles [OF assms] assms(2) by (simp add: next_event_def with_drain_def)
  next
    case Collecting
    then show ?thesis using collect_settles [OF assms] assms(2) by (simp add: next_event_def with_drain_def)
  next
    case (Returning b)
    let ?t = "clear_summary q b s"
    have same: "qu_items (fq_at ?t q) = qu_items (fq_at s q)" "su_droppedCount (fq_at ?t q) = 0"
      using q z by (simp_all add: clear_summary_def fq_at_set_queue clearQueueSummaryState_def)
    have "drain_ready ?t q d"
      by (rule ready_more [OF ready]) (use q wf same in \<open>simp_all add: wf_clear_summary\<close>)
    from next_settles [OF this, of "drain_weight s q"] show ?thesis
      using assms(2) Returning same by (auto simp: next_event_def with_drain_def drain_weight_def)
  next
    case Breaking
    then show ?thesis using finish_settles [OF ready, of "drain_weight s q"] assms(2)
      by (simp add: next_event_def with_drain_def drain_weight_def)
  qed (use succeeded_settles [OF assms, unfolded drain_weight_def] assms(2) in
      \<open>simp_all add: next_event_def with_drain_def drain_weight_def\<close>)
qed

lemma drain_ends:
  assumes "sound_queue s q" "drain_at s q \<noteq> None"
  shows "\<exists>es. length es \<le> drain_weight s q \<and> list_all (drain_event q) es \<and> run_ok followup_enabled (followup_step known) s es \<and>
    sound_queue (foldl (followup_step known) s es) q \<and> drain_at (foldl (followup_step known) s es) q = None \<and>
    waiting_messages q (foldl (followup_step known) s es) = [] \<and>
    queued_messages q (foldl (followup_step known) s es) = queued_messages q s"
  using assms
proof (induction "drain_weight s q" arbitrary: s rule: less_induct)
  case less
  then obtain d where d: "drain_at s q = Some d" by auto
  let ?e = "next_event s q d"
  let ?t = "followup_step known s ?e"
  have t: "sound_queue ?t q" by (rule sound_step [OF less.prems(1) next_event_drain])
  have keep: "queued_messages q ?t = queued_messages q s"
    using mildly_keeps(3) [OF mildly_step [OF _ next_event_drain]] less.prems(1) by (simp add: sound_queue_def)
  have en: "followup_enabled s ?e" by (rule next_event_enabled [OF d])
  have pos: "drain_weight s q > 0" using d by (cases "dr_phase d") (simp_all add: drain_weight_def)
  from progress [OF less.prems(1) d, of known] show ?case unfolding settled_at_def
  proof (elim disjE conjE)
    assume "drain_at ?t q = None" "qu_items (fq_at ?t q) = []"
    then show ?thesis using t keep en pos
      by (intro exI [of _ "[?e]"]) (simp add: waiting_messages_def)
  next
    assume more: "drain_at ?t q \<noteq> None" "drain_weight ?t q < drain_weight s q"
    from less.hyps [OF more(2) t more(1)] obtain es where es: "length es \<le> drain_weight ?t q" "list_all (drain_event q) es"
      "run_ok followup_enabled (followup_step known) ?t es" "sound_queue (foldl (followup_step known) ?t es) q"
      "drain_at (foldl (followup_step known) ?t es) q = None" "waiting_messages q (foldl (followup_step known) ?t es) = []"
      "queued_messages q (foldl (followup_step known) ?t es) = queued_messages q ?t" by blast
    then show ?thesis using more(2) keep en by (intro exI [of _ "?e # es"]) simp
  qed
qed

end
