(* ===== verification/FollowupProperties.thy ===== *)
theory FollowupProperties
  imports FollowupDrain
begin

text \<open>
  The properties of the follow-up queue: redelivered messages are refused, messages are delivered in order, a session
  has one follow-up run at a time, queues are emptied; and the runs in which messages are lost.
\<close>

section \<open>Redelivered messages\<close>

lemma recent_schedule [simp]: "fs_recent (scheduleFollowupDrain key cb s) = fs_recent s"
  by (simp add: scheduleFollowupDrain_def beginQueueDrain_def Let_def split: option.split)

lemma recent_finish [simp]: "fs_recent (finish_drain q d s) = fs_recent s"
  by (simp add: finish_drain_def Let_def)

lemma recent_next [simp]: "fs_recent (next_iteration q d s) = fs_recent s"
  by (simp add: next_iteration_def)

lemma recent_small [simp]: "fs_recent (start_run q d run ph s) = fs_recent s" "fs_recent (shift_items q n s) = fs_recent s"
  "fs_recent (clear_summary q b s) = fs_recent s" "fs_recent (kick_if k key s) = fs_recent s"
  "fs_recent (remember_given key cb s) = fs_recent s" "fs_recent (drainNextQueueItem q d f g s) = fs_recent s"
  by (simp_all add: start_run_def shift_items_def clear_summary_def kick_if_def kickFollowupDrainIfIdle_def remember_given_def
      drainNextQueueItem_def split: option.split list.split)

lemma recent_clear: "fs_recent (fst (snd (clearSessionQueues keys s c))) = fs_recent s"
proof (rule clear_sessions_induct [where P = "\<lambda>t :: followup_state. fs_recent t = fs_recent s"])
  fix t :: followup_state and key assume "fs_recent t = fs_recent s"
  then show "fs_recent (clearFollowupDrainCallback key (snd (clearFollowupQueue key t))) = fs_recent s"
    by (cases rule: clear_queue_cases [of key t]) simp_all
qed simp

lemma recent_refresh: "fs_recent (refreshQueuedFollowupSession p s) = fs_recent s"
  by (cases rule: refresh_cases [of p s]) simp_all

fun enqueue_time :: "followup_event \<Rightarrow> int list" where
  "enqueue_time (Enqueue now _ _ _ _ _ _) = [now]"
| "enqueue_time _ = []"

definition enqueue_times :: "followup_event list \<Rightarrow> int list" where
  "enqueue_times es = concat (map enqueue_time es)"

lemma recent_other: "enqueue_time e = [] \<Longrightarrow> fs_recent (followup_step known s e) = fs_recent s"
  by (cases e) (simp_all add: with_drain_def drain_body_def drainCollectQueueStep_def collect_items_def Let_def run_succeeded_def
      run_failed_def recent_clear recent_refresh split: option.split drain_phase.split)

definition recent_key :: "string \<Rightarrow> followup_run \<Rightarrow> dedupe_mode \<Rightarrow> string option" where
  "recent_key key run mode = (if mode \<noteq> DedupeNone then buildRecentMessageIdKey run key else None)"

lemma get_queue_recent: "getFollowupQueue key settings s = (q, s1) \<Longrightarrow> fs_recent s1 = fs_recent s"
  by (auto simp: getFollowupQueue_def Let_def split: option.splits)

lemma enqueue_recent:
  "fs_recent (snd (enqueueFollowupRun now key run settings mode cb restart s)) =
     (let c = snd (dd_peek recent_options (fs_recent s) (recent_key key run mode) now) in
      if fst (enqueueFollowupRun now key run settings mode cb restart s)
      then snd (dd_check recent_options c (recent_key key run mode) now) else c)"
  "fst (dd_peek recent_options (fs_recent s) (recent_key key run mode) now) \<Longrightarrow>
     \<not> fst (enqueueFollowupRun now key run settings mode cb restart s)"
proof -
  obtain q s1 where get: "getFollowupQueue key settings s = (q, s1)" by (cases "getFollowupQueue key settings s")
  obtain seen c where peek: "dd_peek recent_options (fs_recent s) (recent_key key run mode) now = (seen, c)" by fastforce
  let ?skip = "shouldSkipQueueItem run (qu_items (fq_at s1 q))
    (if mode = DedupeNone then None else Some (\<lambda>item items. isRunAlreadyQueued item items (mode = DedupePrompt)))"
  let ?queue = "(fq_at s1 q)\<lparr>fq_lastEnqueuedAt := now, fq_lastRun := Some (fo_run run)\<rparr>"
  let ?summarize = "\<lambda>item. js_nullish (normalizeOptionalString (fo_summaryLine item)) (js_trim (fo_prompt item))"
  obtain ok queue where pol: "applyQueueDropPolicy ?summarize None ?queue = (ok, queue)" by fastforce
  have enq: "enqueueFollowupRun now key run settings mode cb restart s =
    (if seen \<or> ?skip then (False, s1\<lparr>fs_recent := c\<rparr>)
     else if \<not> ok then (False, set_queue q queue (s1\<lparr>fs_recent := c\<rparr>))
     else let s3 = add_item q run queue (s1\<lparr>fs_recent := c\<rparr>);
              s5 = remember_given key cb (s3\<lparr>fs_recent := snd (dd_check recent_options c (recent_key key run mode) now)\<rparr>)
          in (True, kick_if (restart \<and> \<not> fq_draining (fq_at s5 q)) key s5))"
    using peek by (simp add: enqueueFollowupRun_def get get_queue_recent [OF get] recent_key_def [symmetric] pol Let_def)
  show "fs_recent (snd (enqueueFollowupRun now key run settings mode cb restart s)) =
     (let c = snd (dd_peek recent_options (fs_recent s) (recent_key key run mode) now) in
      if fst (enqueueFollowupRun now key run settings mode cb restart s)
      then snd (dd_check recent_options c (recent_key key run mode) now) else c)"
    unfolding enq peek by (simp add: Let_def)
  show "fst (dd_peek recent_options (fs_recent s) (recent_key key run mode) now) \<Longrightarrow>
     \<not> fst (enqueueFollowupRun now key run settings mode cb restart s)"
    unfolding enq peek by simp
qed

lemma json_strings_nonempty: "json_strings xs \<noteq> []"
  by (simp add: json_strings_def)

lemma recent_key_nonempty: "recent_key key run mode = Some k \<Longrightarrow> k \<noteq> []"
  by (auto simp: recent_key_def buildRecentMessageIdKey_def json_strings_nonempty split: if_splits option.splits)

text \<open>What is remembered of a key, until a given time.\<close>

definition kept :: "string \<Rightarrow> int \<Rightarrow> nat \<Rightarrow> check_history \<Rightarrow> bool" where
  "kept k until n h \<longleftrightarrow> (\<exists>t. jm_get h k = Some t \<and> until - t < dd_ttl recent_options) \<and> card (checked_since h k) \<le> n"

lemma kept_note:
  assumes "kept k until n h" "until - now < dd_ttl recent_options"
  shows "kept k until (Suc n) (spec_note key now h)"
proof (cases "key = None \<or> key = Some []")
  case True
  then show ?thesis using assms(1) by (auto simp: kept_def spec_note_def)
next
  case False
  then obtain k2 where "key = Some k2" "k2 \<noteq> []" by auto
  then have "spec_note key now h = (k2, now) # h" by (simp add: spec_note_def)
  moreover have "card (insert k2 (checked_since h k)) \<le> Suc (card (checked_since h k))"
    by (rule card_insert_le_m1) (simp_all add: checked_since_def)
  ultimately show ?thesis using assms by (auto simp: kept_def checked_since_Cons)
qed

lemma enqueue_history:
  assumes "dedupe_rel recent_options now h (fs_recent s)"
  shows "dedupe_rel recent_options now
    (if fst (enqueueFollowupRun now key run settings mode cb restart s) then spec_note (recent_key key run mode) now h else h)
    (fs_recent (snd (enqueueFollowupRun now key run settings mode cb restart s)))"
  using peek_any_step [OF assms, of "recent_key key run mode"] check_any_step [of recent_options now h _ "recent_key key run mode"]
  by (simp add: enqueue_recent(1) Let_def)

lemma kept_run:
  assumes "dedupe_rel recent_options tm h (fs_recent s)" "kept k until n h" "sorted (tm # enqueue_times es @ [until])"
    "until - tm < dd_ttl recent_options"
  shows "\<exists>h' tm'. dedupe_rel recent_options tm' h' (fs_recent (foldl (followup_step known) s es)) \<and> tm' \<le> until \<and>
    kept k until (n + length (enqueue_times es)) h'"
  using assms
proof (induction es arbitrary: tm h s n)
  case Nil
  then show ?case by (auto intro!: exI [of _ h] exI [of _ tm] simp: enqueue_times_def)
next
  case (Cons e es)
  show ?case
  proof (cases e)
    case (Enqueue now key run settings mode cb restart)
    let ?t = "followup_step known s e"
    let ?h = "if fst (enqueueFollowupRun now key run settings mode cb restart s) then spec_note (recent_key key run mode) now h else h"
    have srt: "tm \<le> now" "sorted (now # enqueue_times es @ [until])" using Cons.prems(3) by (simp_all add: enqueue_times_def Enqueue)
    have rel: "dedupe_rel recent_options now h (fs_recent s)" by (rule dedupe_rel_later [OF Cons.prems(1) srt(1)])
    have late: "until - now < dd_ttl recent_options" using Cons.prems(4) srt(1) by simp
    have "dedupe_rel recent_options now ?h (fs_recent ?t)" using enqueue_history [OF rel] by (simp add: Enqueue)
    moreover have "kept k until (Suc n) ?h" using kept_note [OF Cons.prems(2) late] Cons.prems(2) by (auto simp: kept_def)
    ultimately show ?thesis using Cons.IH [OF _ _ srt(2) late, of ?h ?t "Suc n"]
      by (simp add: enqueue_times_def Enqueue)
  qed (use Cons.IH [OF _ Cons.prems(2) _ Cons.prems(4)] Cons.prems recent_other [of e known s] in \<open>simp_all add: enqueue_times_def\<close>)
qed

lemma rel_run:
  assumes "dedupe_rel recent_options tm h (fs_recent s)" "sorted (tm # enqueue_times es @ [until])"
  shows "\<exists>h'. dedupe_rel recent_options until h' (fs_recent (foldl (followup_step known) s es))"
  using assms
proof (induction es arbitrary: tm h s)
  case Nil
  then show ?case by (auto simp: enqueue_times_def intro: dedupe_rel_later)
next
  case (Cons e es)
  show ?case
  proof (cases e)
    case (Enqueue now key run settings mode cb restart)
    have srt: "tm \<le> now" "sorted (now # enqueue_times es @ [until])" using Cons.prems(2) by (simp_all add: enqueue_times_def Enqueue)
    from enqueue_history [OF dedupe_rel_later [OF Cons.prems(1) srt(1)], of key run settings mode cb restart]
    show ?thesis using Cons.IH [OF _ srt(2)] by (simp add: Enqueue)
  qed (use Cons.IH [of tm h] Cons.prems recent_other [of e known s] in \<open>simp_all add: enqueue_times_def\<close>)
qed

lemma same_message_key:
  assumes "recent_key key run mode = Some k" "mode' \<noteq> DedupeNone" "message_key key' run' = message_key key run"
  shows "recent_key key' run' mode' = Some k"
proof -
  obtain i where i: "normalizeOptionalString (fo_messageId run) = Some i" "i \<noteq> []"
    using assms(1) by (cases "fo_messageId run") (auto simp: recent_key_def buildRecentMessageIdKey_def split: if_splits)
  then have "normalizeOptionalString (fo_messageId run') = Some i"
    using assms(3) by (cases "normalizeOptionalString (fo_messageId run')") (auto simp: message_key_def)
  with i assms show ?thesis
    by (auto simp: recent_key_def buildRecentMessageIdKey_def message_key_def split: if_splits)
qed

text \<open>C10: A message is not queued twice: after an enqueue that was accepted, with deduplication on and a message id, the
  same message (queue, channel, address, account, thread and id) is refused by every enqueue with deduplication in the
  next five minutes, whatever happens between, if the clock does not go back and fewer than ten thousand messages
  arrive in that time.\<close>

theorem redelivered_message_refused:
  fixes known es1 es2 now key run settings mode cb restart e s1
  defines "e \<equiv> Enqueue now key run settings mode cb restart"
    and "s1 \<equiv> foldl (followup_step known) followup_init es1"
  assumes "fst (enqueueFollowupRun now key run settings mode cb restart s1)"
    and "recent_key key run mode = Some k" "mode' \<noteq> DedupeNone" "message_key key' run' = message_key key run"
    and "sorted (enqueue_times (es1 @ [e] @ es2) @ [now'])" "now' - now < 5 * 60 * 1000" "length (enqueue_times es2) < 10000"
  shows "\<not> fst (enqueueFollowupRun now' key' run' settings' mode' cb' restart'
    (foldl (followup_step known) followup_init (es1 @ [e] @ es2)))"
proof -
  have times: "enqueue_times (es1 @ [e] @ es2) = enqueue_times es1 @ now # enqueue_times es2"
    by (simp add: enqueue_times_def e_def)
  have srt: "sorted (enqueue_times es1 @ [now])" "sorted (now # enqueue_times es2 @ [now'])"
    using assms(7) unfolding times by (simp_all add: sorted_append)
  have first: "sorted (hd (enqueue_times es1 @ [now]) # enqueue_times es1 @ [now])"
    using srt(1) by (cases "enqueue_times es1") auto
  then obtain h where h: "dedupe_rel recent_options now h (fs_recent s1)"
    using rel_run [OF _ first, where s = followup_init and h = "[]" and known = known] dedupe_rel_empty
    by (auto simp: s1_def followup_init_def)
  let ?s2 = "followup_step known s1 e"
  have k: "k \<noteq> []" by (rule recent_key_nonempty [OF assms(4)])
  have ttl: "dd_ttl recent_options = 300000" "dd_max recent_options = 10000"
    by (simp_all add: recent_options_def dd_ttl_def dd_max_def)
  have rel: "dedupe_rel recent_options now ((k, now) # h) (fs_recent ?s2)"
    using enqueue_history [OF h, of key run settings mode cb restart] assms(3,4) k by (simp add: e_def spec_note_def)
  have "kept k now' 0 ((k, now) # h)" using assms(8) by (simp add: kept_def ttl checked_since_Cons)
  from kept_run [OF rel this srt(2), of known] assms(8) obtain h' tm
    where h': "dedupe_rel recent_options tm h' (fs_recent (foldl (followup_step known) ?s2 es2))" "tm \<le> now'"
      "kept k now' (length (enqueue_times es2)) h'" by (auto simp: ttl)
  have rel': "dedupe_rel recent_options now' h' (fs_recent (foldl (followup_step known) ?s2 es2))"
    by (rule dedupe_rel_later [OF h'(1,2)])
  have "remembered recent_options h' k now'"
    using h'(3) assms(9) by (auto simp: kept_def remembered_def fresh_at_def ttl)
  then have "fst (dd_peek recent_options (fs_recent (foldl (followup_step known) ?s2 es2)) (recent_key key' run' mode') now')"
    using peek_any_step [OF rel', of "Some k"] k same_message_key [OF assms(4,5,6)] by (simp add: spec_answer_def)
  from enqueue_recent(2) [OF this] show ?thesis by (simp add: s1_def)
qed

section \<open>Delivery\<close>

text \<open>C7: No message is lost and none overtakes: in every reachable state, for every queue that was not cleared and whose
  cap dropped nothing, the messages it accepted are, in their order, those that follow-up runs completed and then
  those that still wait; and every completed message was in the prompt of a run that was started.\<close>

theorem followup_messages_delivered:
  assumes "followup_reach known s" "q < length (fs_queues s)" "untouched q s"
  shows "queued_messages q s = completed_messages q s @ waiting_messages q s \<and>
    (\<forall>items. Completed q items \<in> set (fs_log s) \<longrightarrow> list_all (started_with (fs_log s) q) items)"
  using delivery_queue [of s q] delivery_reach [OF assms(1)] ran_reach [OF assms(1)] assms(2,3)
  by (simp add: queue_ok_def ran_inv_def)

text \<open>C9: One follow-up run at a time: in every reachable state in which no session was cleared, two drains of one key
  are the same, so a session never has two follow-up runs, and the queue that is drained is the one its key is
  registered for, which new messages reach.\<close>

theorem followups_one_at_a_time:
  assumes "followup_reach known s" "never_cleared s"
    and "drain_at s q = Some d" "drain_at s q' = Some d'" "dr_key d = dr_key d'"
  shows "q = q' \<and> d = d' \<and> jm_get (fs_registry s) (dr_key d) = Some q"
proof -
  have "key_inv s" using keys_reach assms(1,2) by blast
  from key_inv_drain [OF this assms(3)] key_inv_drain [OF this assms(4)] assms(3-5) show ?thesis by simp
qed

lemma schedule_sound:
  assumes "sound_queue s q" shows "sound_queue (scheduleFollowupDrain key cb s) q"
proof -
  have wf: "followup_wf s" using assms by (simp add: sound_queue_def)
  have m: "mildly s (scheduleFollowupDrain key cb s)" by (rule quiet_mildly [OF quiet_schedule [OF wf]])
  show ?thesis using assms mildly_keeps [OF m] quiet_delivery [OF quiet_schedule [OF wf] _ wf]
    by (simp add: sound_queue_def wf_schedule keys_schedule)
qed

lemma schedule_drains:
  assumes "followup_wf s" "jm_get (fs_registry s) key = Some q" "has_work (fq_at s q)"
  shows "drain_at (scheduleFollowupDrain key cb s) q \<noteq> None"
proof (cases rule: schedule_cases [OF assms(1), of key cb])
  case 1
  then have "fq_draining (fq_at s q)" using assms(2) by blast
  then show ?thesis using assms(1) wf_registry [OF assms(1,2)] 1(1) by (simp add: followup_wf_def)
qed (use assms in \<open>auto simp: Let_def\<close>)

text \<open>C8: The queue is emptied: from every reachable state in which no session was cleared, for every registered queue
  from which the cap dropped nothing, a call of \<open>scheduleFollowupDrain\<close> (which the end of every agent run makes) and at
  most \<open>5 n + 9\<close> steps of the drain with successful runs, \<open>n\<close> the number of waiting messages, complete every message
  that was accepted, and the drain ends.\<close>

theorem followup_queue_drains:
  assumes "followup_reach known s" "never_cleared s" "untouched q s" "jm_get (fs_registry s) key = Some q"
  shows "\<exists>es. list_all (drain_event q) es \<and> length es \<le> 5 * length (waiting_messages q s) + 9 \<and>
    run_ok followup_enabled (followup_step known) s (Schedule key cb # es) \<and>
    (let t = foldl (followup_step known) s (Schedule key cb # es) in
     drain_at t q = None \<and> completed_messages q t = queued_messages q s)"
proof -
  have wf: "followup_wf s" and inv: "delivery_inv s" using delivery_reach [OF assms(1)] by simp_all
  have sound: "sound_queue s q" using inv wf keys_reach assms(1-3) by (simp add: sound_queue_def)
  have q: "q < length (fs_queues s)" by (rule wf_registry [OF wf assms(4)])
  let ?t = "scheduleFollowupDrain key cb s"
  have sound_t: "sound_queue ?t q" by (rule schedule_sound [OF sound])
  have queued: "queued_messages q ?t = queued_messages q s"
    by (rule mildly_keeps(3) [OF quiet_mildly [OF quiet_schedule [OF wf]]])
  have waiting: "waiting_messages q ?t = waiting_messages q s"
    using quiet_schedule [OF wf, of key cb] q by (auto simp: quiet_def)
  have all: "completed_messages q u = queued_messages q u" if u: "sound_queue u q" "waiting_messages q u = []" for u
  proof (cases "q < length (fs_queues u)")
    case True
    then show ?thesis using delivery_queue [of u q] u by (simp add: sound_queue_def queue_ok_def)
  next
    case False
    have "list_all (\<lambda>e. effect_queue e < length (fs_queues u)) (fs_log u)" using u by (simp add: sound_queue_def delivery_inv_def)
    from bound_nothing [OF this, of q] False show ?thesis by (simp add: completed_messages_def queued_messages_def del: concat_eq_Nil_conv)
  qed
  show ?thesis
  proof (cases "drain_at ?t q")
    case None
    then have "\<not> has_work (fq_at s q)" using schedule_drains [OF wf assms(4)] by blast
    then have "waiting_messages q s = []" by (simp add: has_work_def waiting_messages_def)
    then have "waiting_messages q ?t = []" unfolding waiting .
    then show ?thesis using None all [OF sound_t] queued by (intro exI [of _ "[]"]) simp
  next
    case (Some d)
    then have "drain_at ?t q \<noteq> None" by simp
    from drain_ends [OF sound_t this, of known] obtain es where es: "length es \<le> drain_weight ?t q" "list_all (drain_event q) es"
      "run_ok followup_enabled (followup_step known) ?t es" "sound_queue (foldl (followup_step known) ?t es) q"
      "drain_at (foldl (followup_step known) ?t es) q = None" "waiting_messages q (foldl (followup_step known) ?t es) = []"
      "queued_messages q (foldl (followup_step known) ?t es) = queued_messages q ?t" by blast
    have "drain_weight ?t q \<le> 5 * length (waiting_messages q s) + 9"
      using Some phase_weight_bound [of "length (qu_items (fq_at ?t q))" "dr_phase d"] waiting items_waiting(2) [of ?t q]
      by (simp add: drain_weight_def)
    then show ?thesis using es all [OF es(4,6)] queued by (intro exI [of _ es]) simp
  qed
qed

section \<open>Runs of the machine\<close>

definition sample_known :: "string \<Rightarrow> bool" where "sample_known c \<longleftrightarrow> c = ''telegram''"

definition sample_settings :: "queue_mode \<Rightarrow> rat \<Rightarrow> queue_settings" where
  "sample_settings mode cap = \<lparr>qs_mode = mode, qs_debounceMs = Some 0, qs_cap = Some cap, qs_dropPolicy = Some DropSummarize\<rparr>"

definition sample_enqueue :: "queue_mode \<Rightarrow> rat \<Rightarrow> int \<Rightarrow> string \<Rightarrow> followup_event" where
  "sample_enqueue mode cap now prompt =
     Enqueue now ''k'' (sample_run prompt (Some prompt)) (sample_settings mode cap) DedupeMessageId (Some 1) False"

definition after :: "followup_event list \<Rightarrow> followup_state" where
  "after es = foldl (followup_step sample_known) followup_init es"

definition possible :: "followup_event list \<Rightarrow> bool" where
  "possible es = run_ok followup_enabled (followup_step sample_known) followup_init es"

lemma after_reach: "possible es \<Longrightarrow> followup_reach sample_known (after es)"
  unfolding possible_def after_def by (rule reach_from_init)

definition sample_events :: "followup_event list" where
  "sample_events = [sample_enqueue ModeCollect 20 0 ''a'', sample_enqueue ModeCollect 20 1 ''b'', Schedule ''k'' 1,
     DrainBody 0 2, CollectItems 0 2, sample_enqueue ModeCollect 20 3 ''c'']"

lemma sample_possible: "possible sample_events"
  by code_simp

lemma sample_facts: "0 < length (fs_queues (after sample_events))" "untouched 0 (after sample_events)"
  "jm_get (fs_registry (after sample_events)) ''k'' = Some 0" "never_cleared (after sample_events)"
  "drain_at (after sample_events) 0 \<noteq> None" "length (waiting_messages 0 (after sample_events)) = 3"
  by code_simp+

theorem followup_messages_delivered_witness:
  "queued_messages 0 (after sample_events) = completed_messages 0 (after sample_events) @ waiting_messages 0 (after sample_events)"
  by (rule followup_messages_delivered [THEN conjunct1, OF after_reach [OF sample_possible] sample_facts(1,2)])

theorem followups_one_at_a_time_witness:
  "\<exists>d. drain_at (after sample_events) 0 = Some d \<and> jm_get (fs_registry (after sample_events)) (dr_key d) = Some 0"
proof -
  obtain d where d: "drain_at (after sample_events) 0 = Some d" using sample_facts(5) by blast
  from followups_one_at_a_time [OF after_reach [OF sample_possible] sample_facts(4) d d refl] d show ?thesis by blast
qed

theorem followup_queue_drains_witness:
  "\<exists>es. list_all (drain_event 0) es \<and> length es \<le> 24 \<and>
    run_ok followup_enabled (followup_step sample_known) (after sample_events) (Schedule ''k'' 1 # es) \<and>
    (let t = foldl (followup_step sample_known) (after sample_events) (Schedule ''k'' 1 # es) in
     drain_at t 0 = None \<and> completed_messages 0 t = queued_messages 0 (after sample_events))"
  using followup_queue_drains [OF after_reach [OF sample_possible] sample_facts(4,2,3), of 1]
  unfolding sample_facts(6) by simp

definition redelivered :: followup_run where
  "redelivered = (sample_run ''again'' (Some ''  a ''))\<lparr>fo_threadId := Some (ThreadText ''7'')\<rparr>"

lemma redelivered_facts:
  "fst (enqueueFollowupRun 0 ''k'' (sample_run ''a'' (Some ''a'')) (sample_settings ModeCollect 20) DedupeMessageId (Some 1) False
     (foldl (followup_step sample_known) followup_init []))"
  "recent_key ''k'' (sample_run ''a'' (Some ''a'')) DedupeMessageId \<noteq> None"
  "message_key ''k'' redelivered = message_key ''k'' (sample_run ''a'' (Some ''a''))"
  by code_simp+

theorem redelivered_message_refused_witness:
  "\<not> fst (enqueueFollowupRun 9 ''k'' redelivered (sample_settings ModeCollect 20) DedupePrompt None True (after sample_events))"
proof -
  obtain k where k: "recent_key ''k'' (sample_run ''a'' (Some ''a'')) DedupeMessageId = Some k" using redelivered_facts(2) by blast
  have es: "sample_events = [] @ [sample_enqueue ModeCollect 20 0 ''a''] @ tl sample_events" by (simp add: sample_events_def)
  show ?thesis
    unfolding after_def
    by (subst es, unfold sample_enqueue_def,
        rule redelivered_message_refused [OF redelivered_facts(1) k _ redelivered_facts(3)])
      (simp_all add: sample_events_def enqueue_times_def sample_enqueue_def)
qed

section \<open>What goes wrong\<close>

text \<open>
  The hypotheses on the cap and on clearing are needed. A message that is being run is still in the queue, so that the
  cap may drop it; the end of the run takes the first item out all the same, which is then another message. In each
  of the following runs a message was accepted, it no longer waits, the cap did not drop it, and no run was started
  with it.
\<close>

definition vanished :: "string \<Rightarrow> followup_state \<Rightarrow> bool" where
  "vanished prompt s \<longleftrightarrow>
     list_ex (\<lambda>e. case e of Queued _ run \<Rightarrow> fo_prompt run = prompt | _ \<Rightarrow> False) (fs_log s) \<and>
     fs_drains s = [] \<and> list_all (\<lambda>queue. list_all (\<lambda>item. fo_prompt item \<noteq> prompt) (qu_items queue)) (fs_queues s) \<and>
     list_all (\<lambda>e. case e of CapDropped _ items \<Rightarrow> list_all (\<lambda>item. fo_prompt item \<noteq> prompt) items
       | Started _ _ _ run \<Rightarrow> \<not> sublist prompt (fo_prompt run) | _ \<Rightarrow> True) (fs_log s)"

text \<open>Two messages are collected; a third drops the first of them; the end of the run takes out the second and the third.\<close>

lemma collect_loses_message:
  "possible [sample_enqueue ModeCollect 2 0 ''aa'', sample_enqueue ModeCollect 2 1 ''bb'', Schedule ''k'' 1, DrainBody 0 2,
     CollectItems 0 2, sample_enqueue ModeCollect 2 3 ''xx'', RunSucceeded 0, DrainBody 0 4, CollectItems 0 4, RunSucceeded 0] \<and>
   vanished ''xx'' (after [sample_enqueue ModeCollect 2 0 ''aa'', sample_enqueue ModeCollect 2 1 ''bb'', Schedule ''k'' 1, DrainBody 0 2,
     CollectItems 0 2, sample_enqueue ModeCollect 2 3 ''xx'', RunSucceeded 0, DrainBody 0 4, CollectItems 0 4, RunSucceeded 0])"
  by code_simp

text \<open>The same one by one: the first message is run, the other two are not; a summary tells that the first was dropped.\<close>

lemma followup_loses_messages:
  "possible [sample_enqueue ModeFollowup 2 0 ''aa'', sample_enqueue ModeFollowup 2 1 ''bb'', Schedule ''k'' 1, DrainBody 0 2,
     sample_enqueue ModeFollowup 2 3 ''xx'', RunSucceeded 0, Return 0, DrainBody 0 4, RunSucceeded 0, Return 0] \<and>
   vanished ''bb'' (after [sample_enqueue ModeFollowup 2 0 ''aa'', sample_enqueue ModeFollowup 2 1 ''bb'', Schedule ''k'' 1, DrainBody 0 2,
     sample_enqueue ModeFollowup 2 3 ''xx'', RunSucceeded 0, Return 0, DrainBody 0 4, RunSucceeded 0, Return 0]) \<and>
   vanished ''xx'' (after [sample_enqueue ModeFollowup 2 0 ''aa'', sample_enqueue ModeFollowup 2 1 ''bb'', Schedule ''k'' 1, DrainBody 0 2,
     sample_enqueue ModeFollowup 2 3 ''xx'', RunSucceeded 0, Return 0, DrainBody 0 4, RunSucceeded 0, Return 0])"
  by code_simp

text \<open>Nothing is running: the summary of the dropped messages takes the place of the first one that waits.\<close>

lemma summary_replaces_message:
  "possible [sample_enqueue ModeFollowup 1 0 ''aa'', sample_enqueue ModeFollowup 1 1 ''xx'', Schedule ''k'' 1, DrainBody 0 2,
     RunSucceeded 0, Return 0] \<and>
   vanished ''xx'' (after [sample_enqueue ModeFollowup 1 0 ''aa'', sample_enqueue ModeFollowup 1 1 ''xx'', Schedule ''k'' 1, DrainBody 0 2,
     RunSucceeded 0, Return 0])"
  by code_simp

text \<open>With a cap of one the queue may be left with a summary and no item: the drain ends and starts again, for ever,
  without waiting for anything but its own promises.\<close>

definition spinning :: "followup_event list" where
  "spinning = [sample_enqueue ModeFollowup 1 0 ''aa'', Schedule ''k'' 1, DrainBody 0 2, sample_enqueue ModeFollowup 1 3 ''xx'',
     RunSucceeded 0, Return 0]"

lemma empty_summary_spins:
  "possible (spinning @ [DrainBody 0 4, BreakLoop 0]) \<and> after (spinning @ [DrainBody 0 4, BreakLoop 0]) = after spinning"
  by code_simp

text \<open>A queue that is cleared while its drain runs: the old drain ends by deleting the queue that the key has by then.\<close>

lemma cleared_drain_orphans_queue:
  "possible [sample_enqueue ModeCollect 20 0 ''aa'', Schedule ''k'' 1, DrainBody 0 2, CollectItems 0 2, ClearSessions [Some ''k''],
     sample_enqueue ModeCollect 20 3 ''xx'', RunSucceeded 0] \<and>
   (let s = after [sample_enqueue ModeCollect 20 0 ''aa'', Schedule ''k'' 1, DrainBody 0 2, CollectItems 0 2, ClearSessions [Some ''k''],
     sample_enqueue ModeCollect 20 3 ''xx'', RunSucceeded 0]
    in map fo_prompt (qu_items (fq_at s 1)) = [''xx''] \<and> fs_registry s = [] \<and> fs_drains s = [])"
  by code_simp

text \<open>Between the test for mixed destinations and the collection another message may arrive: it is collected unseen.\<close>

definition other_chat :: followup_run where
  "other_chat = (sample_run ''xx'' (Some ''xx''))\<lparr>fo_to := Some ''chat|2''\<rparr>"

lemma late_message_is_mixed:
  "possible [sample_enqueue ModeCollect 20 0 ''aa'', Schedule ''k'' 1, DrainBody 0 2,
     Enqueue 3 ''k'' other_chat (sample_settings ModeCollect 20) DedupeMessageId (Some 1) False, CollectItems 0 4] \<and>
   list_ex (\<lambda>e. case e of Started _ _ _ run \<Rightarrow> sublist ''xx'' (fo_prompt run) \<and> fo_to run \<noteq> fo_to other_chat | _ \<Rightarrow> False)
     (fs_log (after [sample_enqueue ModeCollect 20 0 ''aa'', Schedule ''k'' 1, DrainBody 0 2,
       Enqueue 3 ''k'' other_chat (sample_settings ModeCollect 20) DedupeMessageId (Some 1) False, CollectItems 0 4]))"
  by code_simp

end
